(* ===== verification/Prelude.thy ===== *)
theory Prelude
  imports Complex_Main "HOL-Library.AList" "HOL-Library.Char_ord" "HOL-Library.List_Lexorder"
    "HOL-Library.Product_Lexorder" "HOL-Library.Sublist"
begin

text \<open>
  Shared ground of the development: Python exceptions and the two computation types
  (results, and stateful programs that may raise), Python strings over Latin-1 characters
  with the string methods the source uses, integers as text, insertion-ordered
  dictionaries as association lists, the bounded deque, and two interface locales
  (a state machine with an invariant and a bounded ring) that several component theories
  interpret on their own operations; an interface with one client stands beside it.

  Python floats are modelled by exact rationals: rounding is not modelled.
\<close>

named_theorems act_simps \<open>unfolding rules of the stateful-program combinators\<close>
named_theorems dict_simps \<open>rules about insertion-ordered dictionaries\<close>

type_synonym pyfloat = rat

section \<open>Exceptions and programs\<close>

text \<open>An exception other than the application's own is its Python class name.\<close>

datatype pyexc = IndexError | KeyError | TypeError | ValueError | RuntimeError
  | UnicodeEncodeError | IntegrityError | OperationalError
  | OverflowError

text \<open>What SQLite binds as an integer, and the integers \<open>float\<close> cannot take.\<close>

definition sqlite_int :: "int \<Rightarrow> bool" where
  "sqlite_int i \<longleftrightarrow> - (2 ^ 63) \<le> i \<and> i < 2 ^ 63"

definition float_overflows :: "int \<Rightarrow> bool" where
  "float_overflows i \<longleftrightarrow> 2 ^ 1024 - 2 ^ 970 \<le> \<bar>i\<bar>"

text \<open>A program over a mutable state: it may raise, and the state it leaves is kept.\<close>

type_synonym ('e, 's, 'a) act = "'s \<Rightarrow> ('e + 'a) \<times> 's"

definition act_return :: "'a \<Rightarrow> ('e, 's, 'a) act" where
  "act_return a s = (Inr a, s)"

definition act_raise :: "'e \<Rightarrow> ('e, 's, 'a) act" where
  "act_raise e s = (Inl e, s)"

definition act_bind :: "('e, 's, 'a) act \<Rightarrow> ('a \<Rightarrow> ('e, 's, 'b) act) \<Rightarrow> ('e, 's, 'b) act" where
  "act_bind m f s = (case m s of (Inl e, t) \<Rightarrow> (Inl e, t) | (Inr a, t) \<Rightarrow> f a t)"

definition act_get :: "('s \<Rightarrow> 'a) \<Rightarrow> ('e, 's, 'a) act" where
  "act_get g s = (Inr (g s), s)"

definition act_modify :: "('s \<Rightarrow> 's) \<Rightarrow> ('e, 's, unit) act" where
  "act_modify f s = (Inr (), f s)"

definition act_lift :: "'e + 'a \<Rightarrow> ('e, 's, 'a) act" where
  "act_lift r s = (r, s)"

text \<open>\<open>try: m finally: f\<close> where the cleanup cannot fail.\<close>

definition act_finally :: "('e, 's, 'a) act \<Rightarrow> ('s \<Rightarrow> 's) \<Rightarrow> ('e, 's, 'a) act" where
  "act_finally m f s = (let (r, t) = m s in (r, f t))"

definition act_when :: "bool \<Rightarrow> ('e, 's, unit) act \<Rightarrow> ('e, 's, unit) act" where
  "act_when b m = (if b then m else act_return ())"

lemmas act_defs [act_simps] =
  act_return_def act_raise_def act_get_def act_modify_def act_lift_def

lemma act_bind_return [simp]: "act_bind (act_return a) f = f a"
  by (rule ext) (simp add: act_bind_def act_return_def)

lemma act_bind_raise [simp]: "act_bind (act_raise e) f = act_raise e"
  by (rule ext) (simp add: act_bind_def act_raise_def)

lemma act_bind_get: "act_bind (act_get g) f s = f (g s) s"
  by (simp add: act_bind_def act_get_def)

lemma act_bind_modify: "act_bind (act_modify g) f s = f () (g s)"
  by (simp add: act_bind_def act_modify_def)

lemma act_bind_lift: "act_bind (act_lift r) f s = (case r of Inl e \<Rightarrow> (Inl e, s) | Inr a \<Rightarrow> f a s)"
  by (simp add: act_bind_def act_lift_def split: sum.splits)

lemma act_bind_assoc: "act_bind (act_bind m f) g = act_bind m (\<lambda>a. act_bind (f a) g)"
  by (rule ext) (simp add: act_bind_def split: prod.splits sum.splits)

lemma act_when_bind: "act_bind (act_when b m) f = (if b then act_bind m f else f ())"
  by (simp add: act_when_def)

lemmas act_run [act_simps] = act_bind_get act_bind_modify act_bind_lift act_bind_assoc act_when_bind

lemma act_bind_InrE:
  assumes "act_bind m f s = (Inr b, u)"
  obtains a t where "m s = (Inr a, t)" "f a t = (Inr b, u)"
  using assms by (auto simp: act_bind_def split: prod.splits sum.splits)

lemma act_bind_Inl:
  "act_bind m f s = (Inl e, u) \<longleftrightarrow>
     m s = (Inl e, u) \<or> (\<exists>a t. m s = (Inr a, t) \<and> f a t = (Inl e, u))"
  by (auto simp: act_bind_def split: prod.splits sum.splits)

section \<open>Results without state\<close>

definition res_bind :: "'e + 'a \<Rightarrow> ('a \<Rightarrow> 'e + 'b) \<Rightarrow> 'e + 'b" where
  "res_bind r f = (case r of Inl e \<Rightarrow> Inl e | Inr a \<Rightarrow> f a)"

lemma res_bind_simps [simp]:
  "res_bind (Inl e) f = Inl e"
  "res_bind (Inr a) f = f a"
  by (simp_all add: res_bind_def)

lemma res_bind_Inr: "res_bind r f = Inr b \<longleftrightarrow> (\<exists>a. r = Inr a \<and> f a = Inr b)"
  by (cases r) simp_all

lemma res_bind_Inl: "res_bind r f = Inl e \<longleftrightarrow> r = Inl e \<or> (\<exists>a. r = Inr a \<and> f a = Inl e)"
  by (cases r) simp_all


section \<open>Python strings over Latin-1\<close>

text \<open>
  A \<open>str\<close> is a \<open>string\<close>: its characters are the code points below 256 (what an ASGI
  header or a Latin-1 path can hold). The classifications are those of \<open>str\<close> on that
  range; wider text is handled as code points in the theory that needs it.
\<close>

definition cp :: "char \<Rightarrow> nat" where
  "cp c = of_char c"

definition py_isspace :: "char \<Rightarrow> bool" where
  "py_isspace c \<longleftrightarrow> cp c \<in> {9, 10, 11, 12, 13, 28, 29, 30, 31, 32, 133, 160}"

definition py_lower_char :: "char \<Rightarrow> char" where
  "py_lower_char c = (let n = cp c in
     if 65 \<le> n \<and> n \<le> 90 \<or> 192 \<le> n \<and> n \<le> 222 \<and> n \<noteq> 215 then char_of (n + 32) else c)"

definition py_lower :: "string \<Rightarrow> string" where
  "py_lower s = map py_lower_char s"

definition py_upper_ascii :: "string \<Rightarrow> string" where
  "py_upper_ascii s = map (\<lambda>c. if 97 \<le> cp c \<and> cp c \<le> 122 then char_of (cp c - 32) else c) s"

definition py_lstrip :: "string \<Rightarrow> string" where
  "py_lstrip s = dropWhile py_isspace s"

definition py_strip :: "string \<Rightarrow> string" where
  "py_strip s = rev (py_lstrip (rev (py_lstrip s)))"

definition py_isascii :: "string \<Rightarrow> bool" where
  "py_isascii s \<longleftrightarrow> list_all (\<lambda>c. cp c < 128) s"

text \<open>\<open>s.split(c)\<close> for a one-character separator: never empty.\<close>

fun py_split :: "char \<Rightarrow> string \<Rightarrow> string list" where
  "py_split c [] = [[]]"
| "py_split c (x # xs) =
     (if x = c then [] # py_split c xs
      else (case py_split c xs of [] \<Rightarrow> [[x]] | w # ws \<Rightarrow> (x # w) # ws))"

text \<open>\<open>s.partition(c)\<close>: head, whether the separator occurs, tail.\<close>

fun py_partition :: "char \<Rightarrow> string \<Rightarrow> string \<times> bool \<times> string" where
  "py_partition c [] = ([], False, [])"
| "py_partition c (x # xs) =
     (if x = c then ([], True, xs)
      else (let (h, b, t) = py_partition c xs in (x # h, b, t)))"

fun py_join :: "string \<Rightarrow> string list \<Rightarrow> string" where
  "py_join sep [] = []"
| "py_join sep [w] = w"
| "py_join sep (w # v # ws) = w @ sep @ py_join sep (v # ws)"

definition py_startswith :: "string \<Rightarrow> string \<Rightarrow> bool" where
  "py_startswith s p \<longleftrightarrow> take (length p) s = p"

text \<open>\<open>needle in s\<close>\<close>

fun py_contains :: "string \<Rightarrow> string \<Rightarrow> bool" where
  "py_contains [] needle = (needle = [])"
| "py_contains (c # cs) needle = (py_startswith (c # cs) needle \<or> py_contains cs needle)"

text \<open>\<open>repr(s)\<close>: quotes and escapes as the interpreter prints a Latin-1 string.\<close>

definition hex_digit :: "nat \<Rightarrow> char" where
  "hex_digit d = (if d < 10 then char_of (48 + d) else char_of (87 + d))"

definition py_repr :: "string \<Rightarrow> string" where
  "py_repr s =
     (let q = (if CHR 39 \<in> set s \<and> CHR 34 \<notin> set s then CHR 34 else CHR 39);
          esc = (\<lambda>c. let n = cp c in
            if c = q \<or> n = 92 then [CHR 92, c]
            else if n = 10 then [CHR 92, CHR ''n''] else if n = 13 then [CHR 92, CHR ''r'']
            else if n = 9 then [CHR 92, CHR ''t'']
            else if n < 32 \<or> 127 \<le> n \<and> n \<le> 160 \<or> n = 173
              then [CHR 92, CHR ''x'', hex_digit (n div 16), hex_digit (n mod 16)]
            else [c])
      in [q] @ concat (map esc s) @ [q])"

lemma py_split_not_Nil [simp]: "py_split c s \<noteq> []"
  by (cases s) (auto split: list.splits)

lemma py_split_no_sep: "w \<in> set (py_split c s) \<Longrightarrow> c \<notin> set w"
  by (induction s arbitrary: w) (auto split: if_splits list.splits)

lemma py_split_single: "c \<notin> set s \<Longrightarrow> py_split c s = [s]"
  by (induction s) auto

lemma py_split_append: "c \<notin> set s \<Longrightarrow> py_split c (s @ c # t) = s # py_split c t"
  by (induction s) auto

lemma py_startswith_prefix: "py_startswith s p \<longleftrightarrow> prefix p s"
  unfolding py_startswith_def prefix_def by (metis append_eq_conv_conj append_take_drop_id)

lemma py_startswith_append [simp]: "py_startswith (p @ s) p"
  by (simp add: py_startswith_def)

section \<open>Integers as text\<close>

definition py_digit :: "char \<Rightarrow> bool" where
  "py_digit c \<longleftrightarrow> 48 \<le> cp c \<and> cp c \<le> 57"

text \<open>\<open>str.isdigit\<close>: true also of the superscripts two, three and one.\<close>

definition py_isdigit :: "string \<Rightarrow> bool" where
  "py_isdigit s \<longleftrightarrow> s \<noteq> [] \<and> list_all (\<lambda>c. py_digit c \<or> cp c \<in> {178, 179, 185}) s"

text \<open>Digits with single underscores between them; the flag says the last one was a digit.\<close>

fun py_digits :: "bool \<Rightarrow> nat \<Rightarrow> string \<Rightarrow> nat option" where
  "py_digits p acc [] = (if p then Some acc else None)"
| "py_digits p acc (c # cs) =
     (if py_digit c then py_digits True (10 * acc + (cp c - 48)) cs
      else if c = CHR ''_'' \<and> p then py_digits False acc cs
      else None)"

text \<open>\<open>int(s)\<close>; \<open>None\<close> is the ValueError.\<close>

definition py_int :: "string \<Rightarrow> int option" where
  "py_int s =
     (case py_strip s of
        [] \<Rightarrow> None
      | c # cs \<Rightarrow>
          if c = CHR ''-'' then map_option (\<lambda>n. - int n) (py_digits False 0 cs)
          else if c = CHR ''+'' then map_option int (py_digits False 0 cs)
          else map_option int (py_digits False 0 (c # cs)))"

definition digit_char :: "nat \<Rightarrow> char" where
  "digit_char d = char_of (48 + d)"

fun str_nat :: "nat \<Rightarrow> string" where
  "str_nat n = (if n < 10 then [digit_char n]
                else str_nat (n div 10) @ [digit_char (n mod 10)])"

declare str_nat.simps [simp del]

definition str_int :: "int \<Rightarrow> string" where
  "str_int i = (if i < 0 then CHR ''-'' # str_nat (nat (- i)) else str_nat (nat i))"

lemma cp_digit [simp]: "d < 10 \<Longrightarrow> cp (digit_char d) = 48 + d"
  by (simp add: cp_def digit_char_def)

lemma py_digit_char [simp]: "d < 10 \<Longrightarrow> py_digit (digit_char d)"
  by (simp add: py_digit_def)

lemma str_nat_digits: "\<forall>c \<in> set (str_nat n). py_digit c"
proof (induction n rule: str_nat.induct)
  case (1 n)
  show ?case
  proof (cases "n < 10")
    case True
    then show ?thesis by (subst str_nat.simps) simp
  next
    case False
    with "1.IH" show ?thesis by (subst str_nat.simps) auto
  qed
qed

lemma str_nat_not_Nil [simp]: "str_nat n \<noteq> []"
  by (subst str_nat.simps) simp

lemma py_digits_str_nat:
  "py_digits p a (str_nat n @ cs) = py_digits True (a * 10 ^ length (str_nat n) + n) cs"
proof (induction n arbitrary: p a cs rule: str_nat.induct)
  case (1 n)
  show ?case
  proof (cases "n < 10")
    case True
    then have "str_nat n = [digit_char n]" by (subst str_nat.simps) simp
    with True show ?thesis by (simp add: algebra_simps)
  next
    case False
    let ?c = "digit_char (n mod 10)"
    have s: "str_nat n = str_nat (n div 10) @ [?c]"
      using False by (subst str_nat.simps) simp
    have m: "10 * (n div 10) + n mod 10 = n" by simp
    have "py_digits p a (str_nat n @ cs)
        = py_digits True (a * 10 ^ length (str_nat (n div 10)) + n div 10) (?c # cs)"
      using "1.IH"[OF False, of p a "?c # cs"] by (simp add: s)
    also have "\<dots> = py_digits True (a * 10 ^ length (str_nat n) + n) cs"
      using m by (simp add: s algebra_simps)
    finally show ?thesis .
  qed
qed

lemma py_digit_not_space: "py_digit c \<Longrightarrow> \<not> py_isspace c"
  by (auto simp: py_digit_def py_isspace_def)

lemma py_lstrip_id: "s = [] \<or> \<not> py_isspace (hd s) \<Longrightarrow> py_lstrip s = s"
  by (cases s) (auto simp: py_lstrip_def)

lemma py_strip_id: "s = [] \<or> \<not> py_isspace (hd s) \<and> \<not> py_isspace (last s) \<Longrightarrow> py_strip s = s"
  by (cases "s = []") (auto simp: py_strip_def py_lstrip_id hd_rev)

lemma str_nat_hd_last: "py_digit (hd (str_nat n)) \<and> py_digit (last (str_nat n))"
  using str_nat_digits[of n] by simp

lemma py_int_str_nat: "py_int (str_nat n) = Some (int n)"
proof -
  have st: "py_strip (str_nat n) = str_nat n"
    using str_nat_hd_last[of n] by (intro py_strip_id) (simp add: py_digit_not_space)
  obtain c cs where s: "str_nat n = c # cs" by (cases "str_nat n") auto
  have d: "py_digit c" using str_nat_hd_last[of n] s by simp
  then have nc: "c \<noteq> CHR ''-''" "c \<noteq> CHR ''+''" by (auto simp: py_digit_def cp_def)
  have "py_digits False 0 (c # cs) = Some n"
    using py_digits_str_nat[of False 0 n "[]"] s by simp
  with st s nc show ?thesis by (simp add: py_int_def)
qed

text \<open>\<open>int(str(i)) == i\<close>\<close>

lemma py_int_str_int [simp]: "py_int (str_int i) = Some i"
proof (cases "i < 0")
  case False
  then show ?thesis by (simp add: str_int_def py_int_str_nat)
next
  case True
  let ?s = "str_nat (nat (- i))"
  have l: "py_digit (last ?s)" using str_nat_hd_last by simp
  have "\<not> py_isspace (CHR ''-'')" by (simp add: py_isspace_def cp_def)
  then have "py_strip (CHR ''-'' # ?s) = CHR ''-'' # ?s"
    using l by (intro py_strip_id) (simp add: py_digit_not_space)
  moreover have "py_digits False 0 ?s = Some (nat (- i))"
    using py_digits_str_nat[of False 0 "nat (- i)" "[]"] by simp
  ultimately show ?thesis using True by (simp add: py_int_def str_int_def)
qed

lemma py_strip_str_int [simp]: "py_strip (str_int i) = str_int i"
proof -
  have "\<not> py_isspace (CHR ''-'')" by (simp add: py_isspace_def cp_def)
  then show ?thesis
    using str_nat_hd_last[of "nat i"] str_nat_hd_last[of "nat (- i)"]
    by (intro py_strip_id) (simp add: str_int_def py_digit_not_space)
qed


section \<open>Dictionaries\<close>

text \<open>
  A \<open>dict\<close> is an association list with distinct keys in insertion order: \<open>d[k] = v\<close> is
  \<^const>\<open>AList.update\<close> (it keeps the position of an existing key and appends a new
  one), \<open>d.pop(k, None)\<close> is \<^const>\<open>AList.delete\<close>, \<open>d.get(k)\<close> is \<^const>\<open>map_of\<close>.
\<close>

abbreviation dict_set :: "'k \<Rightarrow> 'v \<Rightarrow> ('k \<times> 'v) list \<Rightarrow> ('k \<times> 'v) list" where
  "dict_set \<equiv> AList.update"

abbreviation dict_del :: "'k \<Rightarrow> ('k \<times> 'v) list \<Rightarrow> ('k \<times> 'v) list" where
  "dict_del \<equiv> AList.delete"

definition dict_ok :: "('k \<times> 'v) list \<Rightarrow> bool" where
  "dict_ok d \<longleftrightarrow> distinct (map fst d)"

lemma dict_get_set [dict_simps, simp]: "map_of (dict_set k v d) = (map_of d)(k \<mapsto> v)"
  by (simp add: update_conv')

lemma dict_get_del [dict_simps, simp]: "map_of (dict_del k d) = (map_of d)(k := None)"
  by (simp add: delete_conv')

lemma dict_ok_set [simp, intro]: "dict_ok d \<Longrightarrow> dict_ok (dict_set k v d)"
  by (simp add: dict_ok_def distinct_update)

lemma dict_ok_del [simp, intro]: "dict_ok d \<Longrightarrow> dict_ok (dict_del k d)"
  by (simp add: dict_ok_def distinct_delete)

lemma dict_ok_filter [simp, intro]: "dict_ok d \<Longrightarrow> dict_ok (filter P d)"
  by (simp add: dict_ok_def distinct_map_filter)

lemma dict_ok_Nil [simp, intro]: "dict_ok []"
  by (simp add: dict_ok_def)

lemma map_of_filter_key:
  "map_of (filter (\<lambda>kv. P (fst kv)) d) k = (if P k then map_of d k else None)"
  by (induction d) auto

lemma dict_in_set: "dict_ok d \<Longrightarrow> (k, v) \<in> set d \<longleftrightarrow> map_of d k = Some v"
  by (simp add: dict_ok_def)

lemma set_dict_set_subset: "set (dict_set k v d) \<subseteq> insert (k, v) (set d)"
  by (induction d) auto

lemma length_dict_set: "length (dict_set k v d) = length d + (if map_of d k = None then 1 else 0)"
  by (induction d) auto

lemma set_dict_del_subset: "set (dict_del k d) \<subseteq> set d"
  by (auto simp: AList.delete_eq)

section \<open>The bounded deque\<close>

text \<open>\<open>deque(maxlen=cap).append\<close>: a full ring drops its oldest element.\<close>

definition ring_push :: "nat \<Rightarrow> 'a \<Rightarrow> 'a list \<Rightarrow> 'a list" where
  "ring_push cap x xs = drop (Suc (length xs) - cap) (xs @ [x])"

text \<open>The snapshot read both rings share: \<open>n\<close> newest entries, all of them when \<open>n\<close> is absent,
  negative or too large.\<close>

definition ring_snapshot :: "int option \<Rightarrow> 'a list \<Rightarrow> 'a list" where
  "ring_snapshot n xs =
     (case n of
        None \<Rightarrow> xs
      | Some m \<Rightarrow>
          if m < 0 \<or> int (length xs) \<le> m then xs
          else if m = 0 then []
          else map (\<lambda>i. xs ! i) [length xs - nat m ..< length xs])"

lemma ring_snapshot_drop:
  "ring_snapshot (Some m) xs = (if m < 0 then xs else drop (length xs - nat m) xs)"
proof (cases "m < 0 \<or> int (length xs) \<le> m")
  case True
  then show ?thesis by (auto simp: ring_snapshot_def)
next
  case False
  then have "map (\<lambda>i. xs ! i) [length xs - nat m ..< length xs] = drop (length xs - nat m) xs"
    by (intro nth_equalityI) auto
  with False show ?thesis by (auto simp: ring_snapshot_def)
qed

lemma ring_push_append:
  assumes "length xs \<le> n"
  shows "drop (length (ring_push n x xs) + length ys - n) (ring_push n x xs @ ys)
       = drop (length xs + length (x # ys) - n) (xs @ x # ys)"
proof (cases "length xs < n")
  case True
  then show ?thesis by (simp add: ring_push_def)
next
  case False
  with assms have n: "n = length xs" by simp
  show ?thesis by (cases xs) (simp_all add: n ring_push_def)
qed

text \<open>The interface of every bounded ring of the program.\<close>

locale bounded_ring =
  fixes cap :: "'s \<Rightarrow> nat" and items :: "'s \<Rightarrow> 'a list" and push :: "'a \<Rightarrow> 's \<Rightarrow> 's"
  assumes cap_push: "cap (push x s) = cap s"
    and items_push: "items (push x s) = ring_push (cap s) x (items s)"
begin

lemma cap_fold: "cap (fold push xs s) = cap s"
  by (induction xs arbitrary: s) (simp_all add: cap_push)

lemma length_push: "length (items s) \<le> cap s \<Longrightarrow> length (items (push x s)) \<le> cap s"
  by (simp add: items_push ring_push_def)

text \<open>After any pushes the ring holds exactly the newest \<open>cap\<close> elements.\<close>

lemma items_fold:
  "length (items s) \<le> cap s \<Longrightarrow>
   items (fold push xs s) = drop (length (items s) + length xs - cap s) (items s @ xs)"
proof (induction xs arbitrary: s)
  case Nil
  then show ?case by simp
next
  case (Cons x xs)
  have l: "length (items (push x s)) \<le> cap (push x s)"
    using Cons.prems by (simp add: length_push cap_push)
  have "items (fold push (x # xs) s)
      = drop (length (items (push x s)) + length xs - cap s) (items (push x s) @ xs)"
    using Cons.IH[OF l] by (simp add: cap_push)
  then show ?case
    using ring_push_append[OF Cons.prems, of x xs] by (simp add: items_push)
qed

lemma length_fold: "length (items s) \<le> cap s \<Longrightarrow> length (items (fold push xs s)) \<le> cap s"
  by (simp add: items_fold)

end

section \<open>State machines with an invariant\<close>

text \<open>
  The contract of a component whose operations keep an invariant: the operations are the
  elements of \<open>'e\<close>, a run is a fold.
\<close>

locale safe_machine =
  fixes step :: "'e \<Rightarrow> 's \<Rightarrow> 's" and inv :: "'s \<Rightarrow> bool"
  assumes step_inv: "inv s \<Longrightarrow> inv (step e s)"
begin

lemma run_inv: "inv s \<Longrightarrow> inv (fold step es s)"
  by (induction es arbitrary: s) (simp_all add: step_inv)

end

end
