(* ===== verification/Http_Types.thy ===== *)
theory Http_Types
  imports Prelude
begin

text \<open>
  Models \<open>layawatch/http/types.py\<close>: JSON values and their compact rendering, the
  \<open>HttpError\<close> exception, \<open>Request\<close> and \<open>Response\<close>, and the response builders. The
  parser \<open>json.loads\<close> and the rendering of a float are arguments (fields of
  \<open>externals\<close>): the first is the platform's C parser, the second its shortest-repr
  routine. A streaming body is only marked as such.
\<close>

section \<open>JSON values\<close>

datatype json = JNull | JBool bool | JInt int | JFloat pyfloat | JStr string
  | JArr "json list" | JObj "(string \<times> json) list"

text \<open>Python truthiness of a decoded value.\<close>

fun py_truthy :: "json \<Rightarrow> bool" where
  "py_truthy JNull = False"
| "py_truthy (JBool b) = b"
| "py_truthy (JInt i) = (i \<noteq> 0)"
| "py_truthy (JFloat q) = (q \<noteq> 0)"
| "py_truthy (JStr s) = (s \<noteq> [])"
| "py_truthy (JArr xs) = (xs \<noteq> [])"
| "py_truthy (JObj kvs) = (kvs \<noteq> [])"

fun json_obj :: "json \<Rightarrow> (string \<times> json) list option" where
  "json_obj (JObj kvs) = Some kvs"
| "json_obj _ = None"

text \<open>\<open>payload.get(k)\<close>: an absent key reads as None.\<close>

definition jget :: "(string \<times> json) list \<Rightarrow> string \<Rightarrow> json" where
  "jget d k = (case map_of d k of None \<Rightarrow> JNull | Some v \<Rightarrow> v)"

definition json_opt_str :: "string option \<Rightarrow> json" where
  "json_opt_str x = (case x of None \<Rightarrow> JNull | Some s \<Rightarrow> JStr s)"

definition json_opt_int :: "int option \<Rightarrow> json" where
  "json_opt_int x = (case x of None \<Rightarrow> JNull | Some i \<Rightarrow> JInt i)"

definition json_opt_float :: "pyfloat option \<Rightarrow> json" where
  "json_opt_float x = (case x of None \<Rightarrow> JNull | Some q \<Rightarrow> JFloat q)"

section \<open>Compact rendering\<close>

text \<open>One character of a JSON string under \<open>ensure_ascii\<close>.\<close>

definition json_escape :: "char \<Rightarrow> string" where
  "json_escape c = (let n = cp c in
     if n = 34 then [CHR 92, CHR 34]
     else if n = 92 then [CHR 92, CHR 92]
     else if n = 10 then [CHR 92, CHR ''n'']
     else if n = 13 then [CHR 92, CHR ''r'']
     else if n = 9 then [CHR 92, CHR ''t'']
     else if n = 8 then [CHR 92, CHR ''b'']
     else if n = 12 then [CHR 92, CHR ''f'']
     else if 32 \<le> n \<and> n \<le> 126 then [c]
     else [CHR 92, CHR ''u'', CHR ''0'', CHR ''0'', hex_digit (n div 16), hex_digit (n mod 16)])"

definition json_string :: "string \<Rightarrow> string" where
  "json_string s = [CHR 34] @ concat (map json_escape s) @ [CHR 34]"

fun json_dumps :: "(pyfloat \<Rightarrow> string) \<Rightarrow> json \<Rightarrow> string"
  and json_dumps_items :: "(pyfloat \<Rightarrow> string) \<Rightarrow> json list \<Rightarrow> string"
  and json_dumps_pairs :: "(pyfloat \<Rightarrow> string) \<Rightarrow> (string \<times> json) list \<Rightarrow> string" where
  "json_dumps fr JNull = ''null''"
| "json_dumps fr (JBool b) = (if b then ''true'' else ''false'')"
| "json_dumps fr (JInt i) = str_int i"
| "json_dumps fr (JFloat q) = fr q"
| "json_dumps fr (JStr s) = json_string s"
| "json_dumps fr (JArr xs) = ''['' @ json_dumps_items fr xs @ '']''"
| "json_dumps fr (JObj kvs) = ''{'' @ json_dumps_pairs fr kvs @ ''}''"
| "json_dumps_items fr [] = []"
| "json_dumps_items fr [x] = json_dumps fr x"
| "json_dumps_items fr (x # y # ys) = json_dumps fr x @ '','' @ json_dumps_items fr (y # ys)"
| "json_dumps_pairs fr [] = []"
| "json_dumps_pairs fr [(k, v)] = json_string k @ '':'' @ json_dumps fr v"
| "json_dumps_pairs fr ((k, v) # kv # kvs) =
     json_string k @ '':'' @ json_dumps fr v @ '','' @ json_dumps_pairs fr (kv # kvs)"

section \<open>Errors, requests, responses\<close>

record http_error =
  he_status :: int
  he_code :: string
  he_message :: string
  he_details :: "json option"

text \<open>What a handler can raise: the application's \<open>HttpError\<close> or a Python exception.\<close>

datatype exn = HttpErr http_error | PyExc pyexc

definition http_err :: "int \<Rightarrow> string \<Rightarrow> string \<Rightarrow> json option \<Rightarrow> exn" where
  "http_err st c m d = HttpErr \<lparr>he_status = st, he_code = c, he_message = m, he_details = d\<rparr>"

lemma http_err_simps [simp]:
  "http_err s c m d = HttpErr e \<longleftrightarrow> e = \<lparr>he_status = s, he_code = c, he_message = m, he_details = d\<rparr>"
  "HttpErr e = http_err s c m d \<longleftrightarrow> e = \<lparr>he_status = s, he_code = c, he_message = m, he_details = d\<rparr>"
  "http_err s c m d \<noteq> PyExc x"
  "PyExc x \<noteq> http_err s c m d"
  "http_err s c m d = http_err s' c' m' d' \<longleftrightarrow> s = s' \<and> c = c' \<and> m = m' \<and> d = d'"
  by (auto simp: http_err_def)

record request =
  rq_method :: string
  rq_path :: string
  rq_query :: "(string \<times> string list) list"
  rq_headers :: "(string \<times> string) list"
  rq_body :: string
  rq_id :: string
  rq_client_ip :: string

text \<open>A body is the rendering of a JSON value or raw bytes.\<close>

datatype body = JsonBody json | RawBody string

record response =
  rs_status :: int
  rs_headers :: "(string \<times> string) list"
  rs_body :: body
  rs_stream :: bool

fun body_bytes :: "(pyfloat \<Rightarrow> string) \<Rightarrow> body \<Rightarrow> string" where
  "body_bytes fr (JsonBody j) = json_dumps fr j"
| "body_bytes fr (RawBody b) = b"

text \<open>\<open>out.update(headers)\<close>\<close>

definition dict_update :: "('k \<times> 'v) list \<Rightarrow> ('k \<times> 'v) list \<Rightarrow> ('k \<times> 'v) list" where
  "dict_update d e = fold (\<lambda>(k, v) acc. dict_set k v acc) e d"

definition json_response :: "json \<Rightarrow> int \<Rightarrow> (string \<times> string) list \<Rightarrow> response" where
  "json_response data status headers =
     \<lparr>rs_status = status,
      rs_headers = dict_update [(''Content-Type'', ''application/json; charset=utf-8'')] headers,
      rs_body = JsonBody data, rs_stream = False\<rparr>"

text \<open>\<open>text.encode("utf-8")\<close> over Latin-1 characters: one or two bytes each.\<close>

definition utf8_bytes :: "string \<Rightarrow> string" where
  "utf8_bytes s = concat (map (\<lambda>c. if cp c < 128 then [c]
     else [char_of (192 + cp c div 64), char_of (128 + cp c mod 64)]) s)"

definition text_response :: "string \<Rightarrow> int \<Rightarrow> string \<Rightarrow> (string \<times> string) list \<Rightarrow> response" where
  "text_response txt status content_type headers =
     \<lparr>rs_status = status,
      rs_headers = dict_update [(''Content-Type'', content_type)] headers,
      rs_body = RawBody (utf8_bytes txt), rs_stream = False\<rparr>"

definition empty_response :: "int \<Rightarrow> (string \<times> string) list \<Rightarrow> response" where
  "empty_response status headers =
     \<lparr>rs_status = status, rs_headers = headers, rs_body = RawBody [], rs_stream = False\<rparr>"

text \<open>The error envelope; empty details are left out like absent ones.\<close>

definition error_envelope :: "http_error \<Rightarrow> json" where
  "error_envelope err =
     JObj [(''error'', JObj ([(''code'', JStr (he_code err)), (''message'', JStr (he_message err))]
       @ (case he_details err of
            Some d \<Rightarrow> if py_truthy d then [(''details'', d)] else []
          | None \<Rightarrow> [])))]"

definition error_response :: "http_error \<Rightarrow> string \<Rightarrow> response" where
  "error_response err request_id =
     json_response (error_envelope err) (he_status err) [(''X-Request-Id'', request_id)]"

text \<open>\<open>Request.json\<close>: an empty or invalid body is 400 \<open>invalid_json\<close>.\<close>

definition request_json :: "(string \<Rightarrow> string + json) \<Rightarrow> request \<Rightarrow> exn + json" where
  "request_json loads rq =
     (if rq_body rq = [] then Inl (http_err 400 ''invalid_json'' ''request body is empty'' None)
      else (case loads (rq_body rq) of
              Inl msg \<Rightarrow> Inl (http_err 400 ''invalid_json'' (''invalid JSON body: '' @ msg) None)
            | Inr j \<Rightarrow> Inr j))"

text \<open>\<open>Request.param\<close>: the first value of a query parameter.\<close>

definition request_param :: "request \<Rightarrow> string \<Rightarrow> string option" where
  "request_param rq name =
     (case map_of (rq_query rq) name of
        None \<Rightarrow> None
      | Some vs \<Rightarrow> (case vs of [] \<Rightarrow> None | v # _ \<Rightarrow> Some v))"

definition header :: "request \<Rightarrow> string \<Rightarrow> string" where
  "header rq name = (case map_of (rq_headers rq) name of None \<Rightarrow> [] | Some v \<Rightarrow> v)"

text \<open>Helpers the API modules repeat: body object, invalid field, unknown query, no route.\<close>

definition bad_field :: "string \<Rightarrow> string \<Rightarrow> exn" where
  "bad_field field message =
     http_err 400 ''invalid_request'' message (Some (JObj [(''field'', JStr field)]))"

definition request_object :: "(string \<Rightarrow> string + json) \<Rightarrow> request \<Rightarrow> exn + (string \<times> json) list" where
  "request_object loads rq =
     res_bind (request_json loads rq) (\<lambda>j.
       case json_obj j of
         None \<Rightarrow> Inl (http_err 400 ''invalid_request'' ''request body must be a JSON object'' None)
       | Some d \<Rightarrow> Inr d)"

definition reject_unknown_query :: "request \<Rightarrow> exn + unit" where
  "reject_unknown_query rq =
     (case rq_query rq of
        [] \<Rightarrow> Inr ()
      | (k, _) # _ \<Rightarrow>
          Inl (http_err 400 ''invalid_filter'' (''unknown query parameter '' @ py_repr k) None))"

definition unmatched :: "request \<Rightarrow> exn" where
  "unmatched rq =
     http_err 404 ''not_found'' (''no route for '' @ rq_method rq @ '' '' @ rq_path rq) None"

text \<open>The pagination envelope of the unpaged lists.\<close>

definition items_page :: "json list \<Rightarrow> response" where
  "items_page items =
     json_response (JObj [(''items'', JArr items), (''next_cursor'', JNull),
       (''total_estimate'', JInt (int (length items)))]) 200 []"

lemma bad_field_not_PyExc [simp]: "bad_field f m \<noteq> PyExc x" "PyExc x \<noteq> bad_field f m"
  by (simp_all add: bad_field_def)

lemma error_response_simps [simp]:
  "rs_status (error_response e rid) = he_status e"
  "rs_body (error_response e rid) = JsonBody (error_envelope e)"
  "rs_headers (error_response e rid) =
     [(''Content-Type'', ''application/json; charset=utf-8''), (''X-Request-Id'', rid)]"
  by (simp_all add: error_response_def json_response_def dict_update_def)

end
