(* ===== verification/Router.thy ===== *)
theory Router
  imports Http_Types
begin

text \<open>
  Models \<open>layawatch/http/router.py\<close>: the exact and prefix tables, \<open>add\<close>, \<open>_match\<close>,
  \<open>_route\<close> and \<open>dispatch\<close>. A handler is a program over an arbitrary application
  state that may raise; \<open>dispatch\<close> always answers. The rendering of a response body to
  bytes (needed for \<open>Content-Length\<close>) takes the float renderer as an argument.
\<close>

type_synonym 's handler = "request \<Rightarrow> (exn, 's, response) act"

type_synonym 's methods = "(string \<times> 's handler) list"

record 's router =
  rt_exact :: "(string \<times> 's methods) list"
  rt_prefixes :: "(string \<times> 's methods) list"

definition empty_router :: "'s router" where
  "empty_router = \<lparr>rt_exact = [], rt_prefixes = []\<rparr>"

definition is_prefix_pattern :: "string \<Rightarrow> bool" where
  "is_prefix_pattern pat \<longleftrightarrow> pat \<noteq> [] \<and> last pat = CHR ''*''"

definition methods_in :: "(string \<times> 's methods) list \<Rightarrow> string \<Rightarrow> 's methods" where
  "methods_in table pat = (case map_of table pat of None \<Rightarrow> [] | Some ms \<Rightarrow> ms)"

text \<open>\<open>add\<close>: the method table of the pattern is created on first use.\<close>

definition router_add :: "string \<Rightarrow> string \<Rightarrow> 's handler \<Rightarrow> 's router \<Rightarrow> 's router" where
  "router_add method pat h r =
     (if is_prefix_pattern pat
      then r\<lparr>rt_prefixes := dict_set pat
               (dict_set (py_upper_ascii method) h (methods_in (rt_prefixes r) pat)) (rt_prefixes r)\<rparr>
      else r\<lparr>rt_exact := dict_set pat
               (dict_set (py_upper_ascii method) h (methods_in (rt_exact r) pat)) (rt_exact r)\<rparr>)"

text \<open>The loop of \<open>_match\<close> over the prefix table; the best length starts at -1.\<close>

fun best_prefix :: "string \<Rightarrow> (string \<times> 's methods) list \<Rightarrow> (string \<times> 's methods) option \<Rightarrow> int
    \<Rightarrow> (string \<times> 's methods) option" where
  "best_prefix path [] best best_length = best"
| "best_prefix path ((pat, ms) # rest) best best_length =
     (let pre = butlast pat in
      if int (length pre) > best_length \<and> py_startswith path pre
      then best_prefix path rest (Some (pat, ms)) (int (length pre))
      else best_prefix path rest best best_length)"

definition router_match :: "'s router \<Rightarrow> string \<Rightarrow> 's methods option" where
  "router_match r path =
     (case map_of (rt_exact r) path of
        Some ms \<Rightarrow> Some ms
      | None \<Rightarrow> map_option snd (best_prefix path (rt_prefixes r) None (-1)))"

text \<open>\<open>_allow\<close>: the methods, HEAD beside GET, OPTIONS, sorted.\<close>

definition router_allow :: "'s methods \<Rightarrow> string" where
  "router_allow ms =
     (let names = map fst ms;
          names = (if ''GET'' \<in> set names then ''HEAD'' # names else names)
      in py_join '', '' (sort (remdups (''OPTIONS'' # names))))"

definition not_allowed :: "request \<Rightarrow> 's methods \<Rightarrow> response" where
  "not_allowed rq ms =
     (let resp = error_response
        \<lparr>he_status = 405, he_code = ''method_not_allowed'',
         he_message = ''method '' @ rq_method rq @ '' not allowed'', he_details = None\<rparr> (rq_id rq)
      in resp\<lparr>rs_headers := dict_set ''Allow'' (router_allow ms) (rs_headers resp)\<rparr>)"

text \<open>A HEAD answer keeps the headers of the body it drops.\<close>

definition head_of :: "(pyfloat \<Rightarrow> string) \<Rightarrow> response \<Rightarrow> response" where
  "head_of fr resp =
     (let len = (case map_of (rs_headers resp) ''Content-Length'' of
                   Some v \<Rightarrow> v | None \<Rightarrow> str_int (int (length (body_bytes fr (rs_body resp)))))
      in resp\<lparr>rs_headers := dict_set ''Content-Length'' len (rs_headers resp), rs_body := RawBody []\<rparr>)"

definition route :: "(pyfloat \<Rightarrow> string) \<Rightarrow> 's router \<Rightarrow> request \<Rightarrow> (exn, 's, response) act" where
  "route fr r rq =
     (case router_match r (rq_path rq) of
        None \<Rightarrow> act_return (error_response
          \<lparr>he_status = 404, he_code = ''not_found'',
           he_message = ''no route for '' @ rq_method rq @ '' '' @ rq_path rq, he_details = None\<rparr>
          (rq_id rq))
      | Some ms \<Rightarrow>
          (let method = py_upper_ascii (rq_method rq) in
           if method = ''OPTIONS'' then
             (case map_of ms ''OPTIONS'' of
                Some h \<Rightarrow> h rq
              | None \<Rightarrow> act_return (empty_response 204 [(''Allow'', router_allow ms)]))
           else if method = ''HEAD'' then
             (case (case map_of ms ''HEAD'' of Some h \<Rightarrow> Some h | None \<Rightarrow> map_of ms ''GET'') of
                None \<Rightarrow> act_return (not_allowed rq ms)
              | Some h \<Rightarrow> act_bind (h rq) (\<lambda>resp. act_return (head_of fr resp)))
           else
             (case map_of ms method of
                None \<Rightarrow> act_return (not_allowed rq ms)
              | Some h \<Rightarrow> h rq)))"

definition internal_error :: http_error where
  "internal_error = \<lparr>he_status = 500, he_code = ''internal_error'',
     he_message = ''internal server error'', he_details = None\<rparr>"

text \<open>The framing headers \<open>dispatch\<close> puts on every answer.\<close>

definition has_content_length :: "(string \<times> string) list \<Rightarrow> bool" where
  "has_content_length hs \<longleftrightarrow> (\<exists>kv \<in> set hs. py_lower (fst kv) = ''content-length'')"

definition frame_response :: "(pyfloat \<Rightarrow> string) \<Rightarrow> string \<Rightarrow> response \<Rightarrow> response" where
  "frame_response fr request_id resp =
     (let hs = dict_set ''X-Request-Id'' request_id (rs_headers resp) in
      if rs_status resp \<in> {204, 304}
      then resp\<lparr>rs_headers := filter (\<lambda>kv. py_lower (fst kv) \<noteq> ''content-length'') hs\<rparr>
      else if \<not> has_content_length hs
      then resp\<lparr>rs_headers := dict_set ''Content-Length''
                  (str_int (int (length (body_bytes fr (rs_body resp))))) hs\<rparr>
      else resp\<lparr>rs_headers := hs\<rparr>)"

definition dispatch :: "(pyfloat \<Rightarrow> string) \<Rightarrow> 's router \<Rightarrow> request \<Rightarrow> 's \<Rightarrow> response \<times> 's" where
  "dispatch fr r rq s =
     (let (out, s') = route fr r rq s;
          resp = (case out of
                    Inr resp \<Rightarrow> resp
                  | Inl (HttpErr e) \<Rightarrow> error_response e (rq_id rq)
                  | Inl (PyExc _) \<Rightarrow> error_response internal_error (rq_id rq))
      in (frame_response fr (rq_id rq) resp, s'))"

section \<open>Longest prefix wins\<close>

text \<open>The patterns that match a path, and the specification: one of them of maximal length.\<close>

definition prefix_matches :: "string \<Rightarrow> (string \<times> 's methods) list \<Rightarrow> (string \<times> 's methods) list" where
  "prefix_matches path table = filter (\<lambda>pm. prefix (butlast (fst pm)) path) table"

lemma best_prefix_inv:
  assumes "best = None \<longleftrightarrow> n = -1"
    and "\<And>pm. best = Some pm \<Longrightarrow> n = int (length (butlast (fst pm)))"
  shows "case best_prefix path table best n of
           None \<Rightarrow> best = None \<and> prefix_matches path table = []
         | Some pm \<Rightarrow> (best = Some pm \<or> pm \<in> set (prefix_matches path table))
             \<and> n \<le> int (length (butlast (fst pm)))
             \<and> (\<forall>qm \<in> set (prefix_matches path table).
                  length (butlast (fst qm)) \<le> length (butlast (fst pm)))"
  using assms
proof (induction table arbitrary: best n)
  case Nil
  then show ?case by (cases best) (auto simp: prefix_matches_def)
next
  case (Cons pm table)
  obtain pat ms where pm: "pm = (pat, ms)" by (cases pm)
  show ?case
  proof (cases "int (length (butlast pat)) > n \<and> py_startswith path (butlast pat)")
    case True
    have "case best_prefix path table (Some (pat, ms)) (int (length (butlast pat))) of
           None \<Rightarrow> Some (pat, ms) = None \<and> prefix_matches path table = []
         | Some qm \<Rightarrow> (Some (pat, ms) = Some qm \<or> qm \<in> set (prefix_matches path table))
             \<and> int (length (butlast pat)) \<le> int (length (butlast (fst qm)))
             \<and> (\<forall>qm' \<in> set (prefix_matches path table).
                  length (butlast (fst qm')) \<le> length (butlast (fst qm)))"
      by (rule Cons.IH) simp_all
    with True show ?thesis
      by (auto simp: pm prefix_matches_def py_startswith_prefix split: option.splits)
  next
    case False
    have "case best_prefix path table best n of
           None \<Rightarrow> best = None \<and> prefix_matches path table = []
         | Some qm \<Rightarrow> (best = Some qm \<or> qm \<in> set (prefix_matches path table))
             \<and> n \<le> int (length (butlast (fst qm)))
             \<and> (\<forall>qm' \<in> set (prefix_matches path table).
                  length (butlast (fst qm')) \<le> length (butlast (fst qm)))"
      by (rule Cons.IH) (use Cons.prems in auto)
    moreover have "prefix (butlast pat) path \<Longrightarrow> best \<noteq> None"
      using False Cons.prems(1) by (auto simp: py_startswith_prefix)
    moreover have "prefix (butlast pat) path \<Longrightarrow> int (length (butlast pat)) \<le> n"
      using False by (auto simp: py_startswith_prefix)
    moreover have "best_prefix path ((pat, ms) # table) best n = best_prefix path table best n"
      using False by (auto simp: Let_def simp del: length_butlast)
    ultimately show ?thesis
      unfolding pm by (auto simp: prefix_matches_def split: option.splits)
  qed
qed

lemma best_prefix_spec:
  "case best_prefix path table None (-1) of
     None \<Rightarrow> prefix_matches path table = []
   | Some pm \<Rightarrow> pm \<in> set (prefix_matches path table)
       \<and> (\<forall>qm \<in> set (prefix_matches path table).
            length (butlast (fst qm)) \<le> length (butlast (fst pm)))"
  using best_prefix_inv[of None "-1" path table] by (auto split: option.splits)


text \<open>Routing is by exact path first, else by the longest registered prefix of the path: the
  answer of \<open>_match\<close> is the exact entry, or a matching prefix entry no other matching entry
  is longer than, and it is None only when nothing matches.\<close>

theorem router_longest_prefix_wins:
  "case router_match r path of
     None \<Rightarrow> map_of (rt_exact r) path = None \<and> prefix_matches path (rt_prefixes r) = []
   | Some ms \<Rightarrow> map_of (rt_exact r) path = Some ms
       \<or> (map_of (rt_exact r) path = None
          \<and> (\<exists>pat. (pat, ms) \<in> set (rt_prefixes r) \<and> prefix (butlast pat) path
               \<and> (\<forall>qm \<in> set (rt_prefixes r). prefix (butlast (fst qm)) path \<longrightarrow>
                    length (butlast (fst qm)) \<le> length (butlast pat))))"
proof (cases "map_of (rt_exact r) path")
  case (Some ms)
  then show ?thesis by (simp add: router_match_def)
next
  case None
  show ?thesis
  proof (cases "best_prefix path (rt_prefixes r) None (-1)")
    case b: None
    then show ?thesis
      using None best_prefix_spec[of path "rt_prefixes r"] by (simp add: router_match_def)
  next
    case b: (Some pm)
    then have "pm \<in> set (prefix_matches path (rt_prefixes r))"
      and "\<forall>qm \<in> set (prefix_matches path (rt_prefixes r)).
             length (butlast (fst qm)) \<le> length (butlast (fst pm))"
      using best_prefix_spec[of path "rt_prefixes r"] by simp_all
    then have "(fst pm, snd pm) \<in> set (rt_prefixes r) \<and> prefix (butlast (fst pm)) path
        \<and> (\<forall>qm \<in> set (rt_prefixes r). prefix (butlast (fst qm)) path \<longrightarrow>
              length (butlast (fst qm)) \<le> length (butlast (fst pm)))"
      unfolding prefix_matches_def set_filter prod.collapse by blast
    then have "\<exists>pat. (pat, snd pm) \<in> set (rt_prefixes r) \<and> prefix (butlast pat) path
        \<and> (\<forall>qm \<in> set (rt_prefixes r). prefix (butlast (fst qm)) path \<longrightarrow>
              length (butlast (fst qm)) \<le> length (butlast pat))" by blast
    then show ?thesis using None b by (simp add: router_match_def del: length_butlast)
  qed
qed

definition demo_handler :: "string \<Rightarrow> unit handler" where
  "demo_handler name rq = act_return (text_response name 200 ''text/plain'' [])"

definition demo_router :: "unit router" where
  "demo_router =
     router_add ''GET'' ''/*'' (demo_handler ''static'')
       (router_add ''GET'' ''/api/v1/keys/auth'' (demo_handler ''auth'')
          (router_add ''DELETE'' ''/api/v1/keys/*'' (demo_handler ''key'') empty_router))"

theorem router_longest_prefix_wins_witness:
  "router_match demo_router ''/api/v1/keys/7'' = Some [(''DELETE'', demo_handler ''key'')]
   \<and> (\<exists>pat. (pat, [(''DELETE'', demo_handler ''key'')]) \<in> set (rt_prefixes demo_router)
        \<and> prefix (butlast pat) ''/api/v1/keys/7''
        \<and> (\<forall>qm \<in> set (rt_prefixes demo_router). prefix (butlast (fst qm)) ''/api/v1/keys/7'' \<longrightarrow>
             length (butlast (fst qm)) \<le> length (butlast pat)))"
proof -
  have m: "router_match demo_router ''/api/v1/keys/7'' = Some [(''DELETE'', demo_handler ''key'')]"
    and e: "map_of (rt_exact demo_router) ''/api/v1/keys/7'' = None"
    by (simp_all add: demo_router_def router_match_def router_add_def empty_router_def
        is_prefix_pattern_def methods_in_def py_upper_ascii_def cp_def py_startswith_def)
  show ?thesis
    using router_longest_prefix_wins[of demo_router "''/api/v1/keys/7''"] unfolding m by (simp add: e)
qed

section \<open>Every answer is framed\<close>

lemma has_content_length_set [simp]:
  "has_content_length (dict_set ''Content-Length'' v hs)"
proof -
  have "(''Content-Length'', v) \<in> set (dict_set ''Content-Length'' v hs)"
    by (rule map_of_SomeD) simp
  moreover have "py_lower ''Content-Length'' = ''content-length''"
    by code_simp
  ultimately show ?thesis by (force simp: has_content_length_def)
qed

lemma has_content_length_filter [simp]:
  "\<not> has_content_length (filter (\<lambda>kv. py_lower (fst kv) \<noteq> ''content-length'') hs)"
  by (simp add: has_content_length_def)

lemma frame_response_id: "map_of (rs_headers (frame_response fr rid resp)) ''X-Request-Id'' = Some rid"
proof -
  have "py_lower ''X-Request-Id'' \<noteq> ''content-length''"
    by code_simp
  then show ?thesis
    by (simp add: frame_response_def Let_def map_of_filter_key
        [of "\<lambda>k. py_lower k \<noteq> ''content-length''"])
qed

text \<open>\<open>dispatch\<close> answers every request whatever the handler does (return, raise
  \<open>HttpError\<close> or any other exception); the answer carries the request's id, and a
  \<open>Content-Length\<close> exactly when its status is neither 204 nor 304.\<close>

theorem dispatch_frames_every_answer:
  "let resp = fst (dispatch fr r rq s) in
   map_of (rs_headers resp) ''X-Request-Id'' = Some (rq_id rq)
   \<and> (has_content_length (rs_headers resp) \<longleftrightarrow> rs_status resp \<notin> {204, 304})"
proof -
  have "has_content_length (rs_headers (frame_response fr rid x))
      \<longleftrightarrow> rs_status (frame_response fr rid x) \<notin> {204, 304}" for rid x
    by (auto simp: frame_response_def Let_def)
  then show ?thesis
    by (simp add: dispatch_def Let_def frame_response_id split: prod.splits)
qed

text \<open>A HEAD answered by the GET handler has the GET answer's status and headers.\<close>

lemma head_of_frame:
  assumes "map_of (rs_headers resp) ''Content-Length'' = None"
    and "\<not> has_content_length (rs_headers resp)" and "rs_status resp \<notin> {204, 304}"
  shows "rs_status (head_of fr resp) = rs_status resp
    \<and> map_of (rs_headers (head_of fr resp)) ''Content-Length''
      = map_of (rs_headers (frame_response fr rid resp)) ''Content-Length''"
proof -
  have "py_lower ''X-Request-Id'' \<noteq> ''content-length''"
    by code_simp
  then have "\<not> has_content_length (dict_set ''X-Request-Id'' rid (rs_headers resp))"
    using assms(2) set_dict_set_subset[of "''X-Request-Id''" rid "rs_headers resp"]
    by (fastforce simp: has_content_length_def)
  with assms show ?thesis by (simp add: head_of_def frame_response_def Let_def)
qed

end
