(* ===== verification/Static_Files.thy ===== *)
theory Static_Files
  imports Router
begin

text \<open>
  Models \<open>layawatch/http/static.py\<close>: the resolution of a request path to a file of the web export,
  precompressed sidecars, cache headers, revalidation and the fallback pages. A resolved path is the list
  of its segments. The file system, percent-decoding, the parser of floats and SHA-1 are the fields of
  \<open>disk\<close>; symbolic links are whatever \<open>dk_resolve\<close> makes of them.
\<close>

type_synonym segments = "string list"

record disk =
  dk_resolve :: "segments \<Rightarrow> segments"
  dk_is_dir :: "segments \<Rightarrow> bool"
  dk_is_file :: "segments \<Rightarrow> bool"
  dk_read :: "segments \<Rightarrow> string option"
  dk_unquote :: "string \<Rightarrow> string"
  dk_float :: "string \<Rightarrow> pyfloat option"
  dk_sha1 :: "string \<Rightarrow> string"

section \<open>Tables\<close>

definition API_PREFIX :: string where "API_PREFIX = ''/api/''"

definition API_EXACT :: "string list" where "API_EXACT = [''/predict'', ''/route'', ''/healthz'']"

definition ADMIN_REMOVED :: "string list" where "ADMIN_REMOVED = [''/admin'']"

definition ADMIN_REMOVED_PREFIX :: string where "ADMIN_REMOVED_PREFIX = ''/admin/api/''"

definition CONTENT_TYPES :: "(string \<times> string) list" where
  "CONTENT_TYPES = [(''html'', ''text/html; charset=utf-8''), (''css'', ''text/css; charset=utf-8''), (''js'', ''text/javascript; charset=utf-8''),
     (''mjs'', ''text/javascript; charset=utf-8''), (''json'', ''application/json; charset=utf-8''), (''map'', ''application/json; charset=utf-8''),
     (''svg'', ''image/svg+xml; charset=utf-8''), (''png'', ''image/png''), (''jpg'', ''image/jpeg''), (''jpeg'', ''image/jpeg''),
     (''webp'', ''image/webp''), (''ico'', ''image/x-icon''), (''woff'', ''font/woff''), (''woff2'', ''font/woff2''),
     (''txt'', ''text/plain; charset=utf-8''), (''webmanifest'', ''application/manifest+json; charset=utf-8'')]"

definition DEEP_LINK_FALLBACKS :: "(string \<times> string) list" where
  "DEEP_LINK_FALLBACKS = [(''/traces/'', ''/traces/detail'')]"

definition PRECOMPRESS_TYPES :: "string list" where
  "PRECOMPRESS_TYPES = [''html'', ''css'', ''js'', ''mjs'', ''json'', ''map'', ''svg'', ''txt'']"

definition ENCODINGS :: "(string \<times> string) list" where
  "ENCODINGS = [(''br'', ''.br''), (''gzip'', ''.gz'')]"

definition NEXT_STATIC_PREFIX :: string where "NEXT_STATIC_PREFIX = ''/_next/static/''"

definition CACHE_IMMUTABLE :: string where "CACHE_IMMUTABLE = ''public, max-age=31536000, immutable''"

definition CACHE_HTML :: string where "CACHE_HTML = ''no-cache''"

definition CACHE_ONE_DAY :: string where "CACHE_ONE_DAY = ''public, max-age=86400''"

definition HTML_TYPE :: string where "HTML_TYPE = ''text/html; charset=utf-8''"

definition BUILD_PAGE_HTML :: string where \<open>
  BUILD_PAGE_HTML = py_join [CHR 10]
    [''<!doctype html>'',
     ''<html lang="en">'',
     ''<head>'',
     ''<meta charset="utf-8">'',
     ''<meta name="viewport" content="width=device-width, initial-scale=1">'',
     ''<title>LayaWatch - console not built</title>'',
     ''<style>'',
     ''body { font-family: system-ui, sans-serif; line-height: 1.6; margin: 4rem auto;'',
     ''       max-width: 42rem; padding: 0 1rem; color: #1c1c1c; background: #fafafa; }'',
     ''code { background: #ececec; border-radius: 3px; padding: 0.05rem 0.3rem; }'',
     ''pre { background: #ececec; border-radius: 4px; padding: 0.75rem 1rem; overflow-x: auto; }'',
     ''a { color: #0b57d0; }'',
     ''</style>'',
     ''</head>'',
     ''<body>'',
     ''<h1>Console UI not built</h1>'',
     ''<p>The LayaWatch API is running, but the static console has not been built yet.'',
     ''From the <code>web/</code> directory run:</p>'',
     ''<pre>npm ci && npm run build</pre>'',
     ''<p>The build writes the static export into <code>web/out</code>, which this server serves at'',
     ''<code>/</code>. The full console UI ships in Phase 4.</p>'',
     ''<p>In the meantime the API answers: <a href="/healthz">/healthz</a>.</p>'',
     ''</body>'',
     ''</html>'',
     []]\<close>

definition NOT_FOUND_HTML :: string where \<open>
  NOT_FOUND_HTML = py_join [CHR 10]
    [''<!doctype html>'',
     ''<html lang="en">'',
     ''<head>'',
     ''<meta charset="utf-8">'',
     ''<meta name="viewport" content="width=device-width, initial-scale=1">'',
     ''<title>404 - Not found</title>'',
     ''<style>'',
     ''body { font-family: system-ui, sans-serif; line-height: 1.6; margin: 4rem auto;'',
     ''       max-width: 42rem; padding: 0 1rem; color: #1c1c1c; background: #fafafa; }'',
     ''a { color: #0b57d0; }'',
     ''</style>'',
     ''</head>'',
     ''<body>'',
     ''<h1>404 - Not found</h1>'',
     ''<p>The requested path does not exist.'',
     ''<a href="/">Back to the start</a> or check <a href="/healthz">/healthz</a>.</p>'',
     ''</body>'',
     ''</html>'',
     []]\<close>

section \<open>Names and negotiation\<close>

text \<open>The last dot of the final segment, unless the segment starts with it.\<close>

definition extension :: "string \<Rightarrow> string" where
  "extension path = (let name = last (py_split (CHR ''/'') path); parts = py_split (CHR ''.'') name in
     if length parts < 2 \<or> length name = Suc (length (last parts)) then [] else py_lower (last parts))"

fun q_allows :: "disk \<Rightarrow> string list \<Rightarrow> bool" where
  "q_allows dk [] = True"
| "q_allows dk (p # ps) = (let (key, _, value) = py_partition (CHR ''='') p in
     if py_lower (py_strip key) = ''q'' then (case dk_float dk (py_strip value) of None \<Rightarrow> False | Some q \<Rightarrow> 0 < q)
     else q_allows dk ps)"

fun accept_parts :: "disk \<Rightarrow> string \<Rightarrow> string list \<Rightarrow> bool" where
  "accept_parts dk token [] = False"
| "accept_parts dk token (part # parts) = (let (name, _, params) = py_partition (CHR '';'') part in
     if py_lower (py_strip name) \<noteq> token then accept_parts dk token parts
     else q_allows dk (py_split (CHR '';'') params))"

definition acceptable :: "disk \<Rightarrow> string \<Rightarrow> string \<Rightarrow> bool" where
  "acceptable dk accept token = accept_parts dk token (py_split (CHR '','') accept)"

definition cache_control :: "string \<Rightarrow> string \<Rightarrow> string" where
  "cache_control request_path ext = (if py_startswith request_path NEXT_STATIC_PREFIX then CACHE_IMMUTABLE
     else if ext = ''html'' then CACHE_HTML else CACHE_ONE_DAY)"

definition candidates :: "string \<Rightarrow> string list" where
  "candidates path = (let ext = extension path in
     if ext \<noteq> [] then (if map_of CONTENT_TYPES ext \<noteq> None then [path] else [])
     else if path \<noteq> [] \<and> last path = CHR ''/'' then [path @ ''index.html'']
     else [path @ ''/index.html'', path @ ''.html''])"

section \<open>Files\<close>

text \<open>\<open>base / candidate.lstrip("/")\<close>: empty and one-dot segments vanish.\<close>

definition under :: "segments \<Rightarrow> string \<Rightarrow> segments" where
  "under base candidate = base @ filter (\<lambda>w. w \<noteq> [] \<and> w \<noteq> ''.'') (py_split (CHR ''/'') candidate)"

definition sidecar :: "disk \<Rightarrow> segments \<Rightarrow> string \<Rightarrow> segments \<Rightarrow> segments option" where
  "sidecar dk path sfx base = (let c = dk_resolve dk (butlast path @ [last path @ sfx]) in
     if prefix base c \<and> dk_is_file dk c then Some c else None)"

definition sidecars :: "disk \<Rightarrow> segments \<Rightarrow> segments \<Rightarrow> string \<Rightarrow> (string \<times> segments) list" where
  "sidecars dk base target ext = (if ext \<in> set PRECOMPRESS_TYPES
     then List.map_filter (\<lambda>(token, sfx). map_option (Pair token) (sidecar dk target sfx base)) ENCODINGS else [])"

text \<open>The negotiated sidecar, read; the identity file when there is none or it cannot be read.\<close>

definition read_source :: "disk \<Rightarrow> segments \<Rightarrow> (string \<times> segments) list \<Rightarrow> string \<Rightarrow> (string \<times> string option) option" where
  "read_source dk target available accept =
     (case List.find (\<lambda>(token, _). acceptable dk accept token) available of
        Some (token, path) \<Rightarrow> (case dk_read dk path of
            Some body \<Rightarrow> Some (body, Some token)
          | None \<Rightarrow> map_option (\<lambda>body. (body, None)) (dk_read dk target))
      | None \<Rightarrow> map_option (\<lambda>body. (body, None)) (dk_read dk target))"

definition etag_of :: "disk \<Rightarrow> string \<Rightarrow> string" where
  "etag_of dk body = ''W/'' @ [CHR 34] @ dk_sha1 dk body @ [CHR 34]"

definition serve_file :: "disk \<Rightarrow> string \<Rightarrow> string \<Rightarrow> segments \<Rightarrow> string \<Rightarrow> response option" where
  "serve_file dk candidate request_path base accept =
     (let target = dk_resolve dk (under base candidate); ext = extension candidate in
      if \<not> prefix base target \<or> \<not> dk_is_file dk target then None
      else let available = sidecars dk base target ext in
        (case read_source dk target available accept of
           None \<Rightarrow> None
         | Some (body, encoding) \<Rightarrow> Some
             \<lparr>rs_status = 200,
              rs_headers = [(''Content-Type'', the (map_of CONTENT_TYPES ext)), (''Cache-Control'', cache_control request_path ext),
                  (''ETag'', etag_of dk body)]
                @ (if available \<noteq> [] then [(''Vary'', ''Accept-Encoding'')] else [])
                @ (case encoding of None \<Rightarrow> [] | Some e \<Rightarrow> [(''Content-Encoding'', e)]),
              rs_body = RawBody body, rs_stream = False\<rparr>))"

definition first_served :: "disk \<Rightarrow> string list \<Rightarrow> string \<Rightarrow> segments \<Rightarrow> string \<Rightarrow> response option" where
  "first_served dk cs request_path base accept =
     (case List.map_filter (\<lambda>c. serve_file dk c request_path base accept) cs of [] \<Rightarrow> None | r # _ \<Rightarrow> Some r)"

definition page :: "int \<Rightarrow> string \<Rightarrow> response" where
  "page status html = \<lparr>rs_status = status, rs_headers = [(''Content-Type'', HTML_TYPE), (''Cache-Control'', CACHE_HTML)],
     rs_body = RawBody html, rs_stream = False\<rparr>"

definition api_shaped :: "string \<Rightarrow> bool" where
  "api_shaped p \<longleftrightarrow> py_startswith p API_PREFIX \<or> py_startswith p ADMIN_REMOVED_PREFIX \<or> p \<in> set API_EXACT \<or> p \<in> set ADMIN_REMOVED"

definition not_found :: exn where
  "not_found = http_err 404 ''not_found'' ''not found'' None"

definition deep_link :: "disk \<Rightarrow> string \<Rightarrow> segments \<Rightarrow> string \<Rightarrow> response option" where
  "deep_link dk decoded base accept =
     (case List.map_filter (\<lambda>(pre, exemplar).
          let tail = (if py_startswith decoded pre then drop (length pre) decoded else []) in
          if tail = [] \<or> CHR ''/'' \<in> set tail then None else first_served dk (candidates exemplar) decoded base accept) DEEP_LINK_FALLBACKS
      of [] \<Rightarrow> None | r # _ \<Rightarrow> Some r)"

definition resolve_path :: "disk \<Rightarrow> segments \<Rightarrow> string \<Rightarrow> string \<Rightarrow> exn + response option" where
  "resolve_path dk web_root path accept =
     (let decoded = dk_unquote dk path; base = dk_resolve dk web_root in
      if api_shaped decoded then Inl not_found
      else if CHR 0x00 \<in> set decoded \<or> ''..'' \<in> set (py_split (CHR ''/'') decoded) then Inr None
      else if \<not> dk_is_dir dk base then Inr (if decoded \<in> {''/'', ''/index.html''} then Some (page 200 BUILD_PAGE_HTML) else None)
      else Inr (case first_served dk (candidates decoded) decoded base accept of
          Some r \<Rightarrow> Some r | None \<Rightarrow> deep_link dk decoded base accept))"

definition not_found_page :: "disk \<Rightarrow> segments \<Rightarrow> exn + response" where
  "not_found_page dk web_root = res_bind (resolve_path dk web_root ''/404.html'' []) (\<lambda>r.
     Inr (case r of Some p \<Rightarrow> p\<lparr>rs_status := 404\<rparr> | None \<Rightarrow> page 404 NOT_FOUND_HTML))"

section \<open>The handler\<close>

definition header_ci :: "(string \<times> string) list \<Rightarrow> string \<Rightarrow> string" where
  "header_ci headers name = (case filter (\<lambda>(k, _). py_lower k = name) headers of [] \<Rightarrow> [] | (_, v) # _ \<Rightarrow> v)"

definition revalidated :: "request \<Rightarrow> response \<Rightarrow> response" where
  "revalidated rq r = (case map_of (rs_headers r) ''ETag'' of
     None \<Rightarrow> r
   | Some etag \<Rightarrow> (let wanted = py_strip (header_ci (rq_headers rq) ''if-none-match'') in
       if wanted = ''*'' \<or> wanted = etag
       then \<lparr>rs_status = 304, rs_headers = [(''ETag'', etag), (''Cache-Control'', the (map_of (rs_headers r) ''Cache-Control''))]
               @ (case map_of (rs_headers r) ''Vary'' of None \<Rightarrow> [] | Some v \<Rightarrow> [(''Vary'', v)]),
             rs_body = RawBody [], rs_stream = False\<rparr>
       else r))"

definition static_answer :: "disk \<Rightarrow> segments \<Rightarrow> request \<Rightarrow> exn + response" where
  "static_answer dk web_root rq =
     res_bind (resolve_path dk web_root (rq_path rq) (header_ci (rq_headers rq) ''accept-encoding'')) (\<lambda>r.
       case r of None \<Rightarrow> not_found_page dk web_root | Some resp \<Rightarrow> Inr (revalidated rq resp))"

definition static_handler :: "disk \<Rightarrow> segments \<Rightarrow> 's handler" where
  "static_handler dk web_root rq = act_lift (static_answer dk web_root rq)"

definition mount :: "disk \<Rightarrow> segments \<Rightarrow> 's router \<Rightarrow> 's router" where
  "mount dk web_root router = router_add ''GET'' ''/*'' (static_handler dk web_root) router"
section \<open>What is served\<close>

lemma prefix_base_sidecar: "sidecar dk t sfx base = Some c \<Longrightarrow> prefix base c \<and> dk_is_file dk c"
  by (auto simp: sidecar_def Let_def split: if_splits)

lemma sidecars_in_base: "(token, c) \<in> set (sidecars dk base t ext) \<Longrightarrow> prefix base c \<and> dk_is_file dk c \<and> ext \<in> set PRECOMPRESS_TYPES
    \<and> (\<exists>sfx. (token, sfx) \<in> set ENCODINGS \<and> c = dk_resolve dk (butlast t @ [last t @ sfx]))"
  by (auto simp: sidecars_def List.map_filter_def ENCODINGS_def sidecar_def Let_def split: if_splits option.splits)

lemma find_some: "List.find P xs = Some x \<Longrightarrow> x \<in> set xs \<and> P x"
  by (auto simp: find_Some_iff)

lemma read_source_origin:
  assumes "read_source dk t available accept = Some (body, enc)"
  shows "(enc = None \<and> dk_read dk t = Some body)
    \<or> (\<exists>token c. enc = Some token \<and> (token, c) \<in> set available \<and> acceptable dk accept token \<and> dk_read dk c = Some body)"
  using assms find_some[where xs = available and P = "\<lambda>(token, _). acceptable dk accept token"]
  by (auto simp: read_source_def split: option.splits)

text \<open>The file names a request path stands for: itself, its page, its index, or those of the exemplar of a
  deep link.\<close>

definition page_names :: "string \<Rightarrow> string set" where
  "page_names w = {w, w @ ''index.html'', w @ ''/index.html'', w @ ''.html''}"

definition stands_for :: "string \<Rightarrow> string \<Rightarrow> bool" where
  "stands_for asked name \<longleftrightarrow> name \<in> page_names asked
     \<or> (\<exists>(pre, exemplar) \<in> set DEEP_LINK_FALLBACKS. prefix pre asked \<and> name \<in> page_names exemplar)"

text \<open>A file of the base served under a name: the file of that name with its links resolved, or its
  sidecar of an encoding, which the headers then state and the request accepts.\<close>

definition bytes_of :: "disk \<Rightarrow> segments \<Rightarrow> string \<Rightarrow> string \<Rightarrow> string option \<Rightarrow> segments \<Rightarrow> bool" where
  "bytes_of dk base accept name encoding p \<longleftrightarrow> prefix base p \<and> dk_is_file dk p
     \<and> (let t = dk_resolve dk (under base name) in prefix base t \<and> dk_is_file dk t
        \<and> (case encoding of
             None \<Rightarrow> p = t
           | Some e \<Rightarrow> acceptable dk accept e
               \<and> (\<exists>sfx. (e, sfx) \<in> set ENCODINGS \<and> p = dk_resolve dk (butlast t @ [last t @ sfx]))))"

text \<open>A response that is the content of a file under the base: the name ends in an extension of the
  table, the content type is the one the table gives it, and the tag is the tag of the bytes.\<close>

definition serves_file :: "disk \<Rightarrow> segments \<Rightarrow> string \<Rightarrow> string \<Rightarrow> response \<Rightarrow> bool" where
  "serves_file dk base asked accept r \<longleftrightarrow> (\<exists>name e ctype p body. stands_for asked name
     \<and> suffix (''.'' @ e) name \<and> map_of CONTENT_TYPES (py_lower e) = Some ctype
     \<and> map_of (rs_headers r) ''Content-Type'' = Some ctype
     \<and> bytes_of dk base accept name (map_of (rs_headers r) ''Content-Encoding'') p
     \<and> (map_of (rs_headers r) ''Content-Encoding'' \<noteq> None \<longrightarrow> py_lower e \<in> set PRECOMPRESS_TYPES
          \<and> map_of (rs_headers r) ''Vary'' = Some ''Accept-Encoding'')
     \<and> dk_read dk p = Some body \<and> rs_body r = RawBody body
     \<and> map_of (rs_headers r) ''ETag'' = Some (etag_of dk body) \<and> rs_status r = 200)"

lemma split_one: "py_split c s = [h] \<Longrightarrow> s = h"
  by (induction s arbitrary: h) (auto split: if_splits list.splits)

lemma split_last_suffix: "2 \<le> length (py_split c s) \<Longrightarrow> suffix (c # last (py_split c s)) s"
proof (induction s)
  case (Cons x s)
  show ?case
  proof (cases "2 \<le> length (py_split c s)")
    case True
    then have "suffix (c # last (py_split c s)) (x # s)" using Cons.IH by (simp add: suffix_ConsI)
    with True show ?thesis by (cases "py_split c s") (auto split: if_splits)
  next
    case False
    then obtain h where h: "py_split c s = [h]"
      using py_split_not_Nil[of c s] by (cases "py_split c s") (auto simp: not_le less_Suc_eq)
    from split_one[OF h] have "h = s" ..
    with Cons.prems h show ?thesis by (auto split: if_splits)
  qed
qed simp

lemma last_split_suffix: "suffix (last (py_split c s)) s"
proof (cases "2 \<le> length (py_split c s)")
  case True
  from split_last_suffix[OF this] show ?thesis by (rule suffix_ConsD)
next
  case False
  then obtain h where h: "py_split c s = [h]"
    using py_split_not_Nil[of c s] by (cases "py_split c s") (auto simp: not_le less_Suc_eq)
  with split_one[OF h] show ?thesis by simp
qed

lemma extension_suffix:
  assumes "extension name \<noteq> []"
  shows "\<exists>e. suffix (''.'' @ e) name \<and> py_lower e = extension name"
proof -
  define n where "n = last (py_split (CHR ''/'') name)"
  have l: "2 \<le> length (py_split (CHR ''.'') n)" and e: "extension name = py_lower (last (py_split (CHR ''.'') n))"
    using assms by (auto simp: extension_def n_def Let_def split: if_splits)
  have "suffix (''.'' @ last (py_split (CHR ''.'') n)) n" using split_last_suffix[OF l] by simp
  moreover have "suffix n name" unfolding n_def by (rule last_split_suffix)
  ultimately have "suffix (''.'' @ last (py_split (CHR ''.'') n)) name" by (rule suffix_order.trans)
  then show ?thesis using e by metis
qed

lemma serve_file_ok:
  assumes "serve_file dk c rp base accept = Some r" "extension c \<in> fst ` set CONTENT_TYPES" "stands_for asked c"
  shows "serves_file dk base asked accept r"
proof -
  let ?t = "dk_resolve dk (under base c)" and ?av = "sidecars dk base (dk_resolve dk (under base c)) (extension c)"
  have "extension c \<noteq> []" using assms(2) by (auto simp: CONTENT_TYPES_def)
  then obtain e where e: "suffix (''.'' @ e) c" "py_lower e = extension c" using extension_suffix by blast
  obtain ctype where ct: "map_of CONTENT_TYPES (extension c) = Some ctype"
    using assms(2) by (metis map_of_eq_None_iff not_None_eq)
  obtain body enc where b: "read_source dk ?t ?av accept = Some (body, enc)" and t: "prefix base ?t" "dk_is_file dk ?t"
    and r: "r = \<lparr>rs_status = 200,
              rs_headers = [(''Content-Type'', ctype), (''Cache-Control'', cache_control rp (extension c)),
                  (''ETag'', etag_of dk body)]
                @ (if ?av \<noteq> [] then [(''Vary'', ''Accept-Encoding'')] else [])
                @ (case enc of None \<Rightarrow> [] | Some e \<Rightarrow> [(''Content-Encoding'', e)]),
              rs_body = RawBody body, rs_stream = False\<rparr>"
    using assms(1) ct unfolding serve_file_def Let_def by (auto split: if_splits option.splits)
  have enc: "map_of (rs_headers r) ''Content-Encoding'' = enc" by (auto simp: r split: option.split)
  have "\<exists>p. bytes_of dk base accept c enc p \<and> dk_read dk p = Some body
      \<and> (enc \<noteq> None \<longrightarrow> extension c \<in> set PRECOMPRESS_TYPES \<and> ?av \<noteq> [])"
    using read_source_origin[OF b]
  proof (elim disjE exE conjE)
    fix token p assume k: "enc = Some token" "(token, p) \<in> set ?av" "acceptable dk accept token" "dk_read dk p = Some body"
    with sidecars_in_base[OF k(2)] t show ?thesis
      by (intro exI[of _ p]) (auto simp: bytes_of_def Let_def)
  next
    assume "enc = None" "dk_read dk ?t = Some body"
    with t show ?thesis by (intro exI[of _ ?t]) (simp add: bytes_of_def Let_def)
  qed
  then obtain p where p: "bytes_of dk base accept c enc p" "dk_read dk p = Some body"
    "enc \<noteq> None \<longrightarrow> extension c \<in> set PRECOMPRESS_TYPES \<and> ?av \<noteq> []" by blast
  show ?thesis
    unfolding serves_file_def enc
    by (intro exI[of _ c] exI[of _ e] exI[of _ ctype] exI[of _ p] exI[of _ body])
      (use p e ct assms(3) in \<open>auto simp: r\<close>)
qed

lemma first_served_in: "first_served dk cs rp base accept = Some r \<Longrightarrow> \<exists>c \<in> set cs. serve_file dk c rp base accept = Some r"
  by (induction cs) (auto simp: first_served_def List.map_filter_def split: option.splits list.splits if_splits)

lemma split_parts: "py_split c (a @ c # b) = py_split c a @ py_split c b"
proof (induction a)
  case (Cons x a)
  then show ?case by (cases "py_split c a") auto
qed simp

lemma split_suffix: "c \<notin> set b \<Longrightarrow> py_split c (a @ b) = butlast (py_split c a) @ [last (py_split c a) @ b]"
proof (induction a)
  case (Cons x a)
  then show ?case by (cases "py_split c a") auto
qed (simp add: py_split_single)

text \<open>What follows the last slash decides the extension.\<close>

lemma extension_name:
  assumes "n \<noteq> []" "last (py_split (CHR ''/'') path) = n @ ''.'' @ ext" "CHR ''.'' \<notin> set ext" "py_lower ext = ext"
  shows "extension path = ext"
proof -
  have "py_split (CHR ''.'') (n @ ''.'' @ ext) = py_split (CHR ''.'') n @ [ext]"
    using split_parts[of "CHR ''.''" n ext] py_split_single[OF assms(3)] by simp
  then show ?thesis using assms(1,4) py_split_not_Nil[of "CHR ''.''" n]
    by (simp add: extension_def assms(2) Let_def)
qed

lemma candidates_typed:
  assumes "c \<in> set (candidates path)" "path \<noteq> []"
  shows "extension c \<in> fst ` set CONTENT_TYPES"
proof -
  have html: "''html'' \<in> fst ` set CONTENT_TYPES" "py_lower ''html'' = ''html''" "CHR ''.'' \<notin> set ''html''"
    by (simp_all add: CONTENT_TYPES_def py_lower_def py_lower_char_def cp_def)
  have index: "extension (p @ ''/index.html'') = ''html''" for p
  proof (rule extension_name[of "''index''"])
    show "last (py_split (CHR ''/'') (p @ ''/index.html'')) = ''index'' @ ''.'' @ ''html''"
      using split_parts[of "CHR ''/''" p "''index.html''"] by simp
  qed (use html in auto)
  consider (typed) "extension path \<noteq> []" "c = path" "map_of CONTENT_TYPES (extension path) \<noteq> None"
    | (dir) "last path = CHR ''/''" "c = path @ ''index.html''"
    | (plain) "last path \<noteq> CHR ''/''" "c = path @ ''/index.html'' \<or> c = path @ ''.html''"
    using assms by (auto simp: candidates_def Let_def split: if_splits)
  then show ?thesis
  proof cases
    case typed
    then show ?thesis by (auto simp: map_of_eq_None_iff)
  next
    case dir
    have eq: "path @ ''index.html'' = butlast path @ ''/index.html''"
      using append_butlast_last_id[OF assms(2)] dir(1) by (metis append.assoc append_Cons append_Nil)
    show ?thesis unfolding dir(2) eq index by (rule html(1))
  next
    case plain
    have "last (py_split (CHR ''/'') path) \<noteq> []"
    proof
      assume e: "last (py_split (CHR ''/'') path) = []"
      have "path = butlast path @ [last path]" using assms(2) by simp
      then have "py_split (CHR ''/'') path = butlast (py_split (CHR ''/'') (butlast path)) @ [last (py_split (CHR ''/'') (butlast path)) @ [last path]]"
        using split_suffix[of "CHR ''/''" "[last path]" "butlast path"] plain(1) by simp
      then show False using e by (metis last_snoc append_is_Nil_conv not_Cons_self2)
    qed
    then have "extension (path @ ''.html'') = ''html''"
      by (rule extension_name) (use html split_suffix[of "CHR ''/''" "''.html''" path] in auto)
    then have "extension c = ''html''" using plain(2) index by blast
    then show ?thesis using html(1) by (simp only:)
  qed
qed

lemma candidates_named: "c \<in> set (candidates w) \<Longrightarrow> c \<in> page_names w"
  by (auto simp: candidates_def page_names_def Let_def split: if_splits)

lemma first_served_ok:
  assumes "first_served dk (candidates w) rp base accept = Some r" "w \<noteq> []" "\<And>c. c \<in> page_names w \<Longrightarrow> stands_for asked c"
  shows "serves_file dk base asked accept r"
  using first_served_in[OF assms(1)] serve_file_ok candidates_typed[OF _ assms(2)] candidates_named assms(3) by blast

lemma asked_ok: "first_served dk (candidates w) rp base accept = Some r \<Longrightarrow> w \<noteq> [] \<Longrightarrow> serves_file dk base w accept r"
  by (rule first_served_ok) (auto simp only: stands_for_def)

lemma deep_link_ok:
  assumes "deep_link dk decoded base accept = Some r"
  shows "serves_file dk base decoded accept r"
proof -
  have "first_served dk (candidates ''/traces/detail'') decoded base accept = Some r" "py_startswith decoded ''/traces/''"
    using assms by (auto simp: deep_link_def List.map_filter_def DEEP_LINK_FALLBACKS_def Let_def split: if_splits option.splits)
  then show ?thesis
    by (intro first_served_ok) (auto simp: stands_for_def DEEP_LINK_FALLBACKS_def py_startswith_prefix)
qed

lemma static_files_facts:
  assumes "dk_unquote dk path \<noteq> []" "resolve_path dk web_root path accept = Inr (Some r)"
  shows "r = page 200 BUILD_PAGE_HTML \<or> serves_file dk (dk_resolve dk web_root) (dk_unquote dk path) accept r"
  using assms(2) asked_ok[OF _ assms(1)] deep_link_ok
  by (auto simp: resolve_path_def Let_def split: if_splits option.splits)

lemma serve_file_cache: "serve_file dk c rp base accept = Some r \<Longrightarrow> \<exists>v. map_of (rs_headers r) ''Cache-Control'' = Some v"
  by (auto simp: serve_file_def Let_def split: if_splits option.splits)

lemma served_cache:
  assumes "dk_unquote dk path \<noteq> []" "resolve_path dk web_root path accept = Inr (Some r)"
  shows "\<exists>v. map_of (rs_headers r) ''Cache-Control'' = Some v"
  using assms(2)
  by (auto simp: resolve_path_def Let_def page_def deep_link_def List.map_filter_def DEEP_LINK_FALLBACKS_def
      dest!: first_served_in serve_file_cache split: if_splits option.splits)

text \<open>C39: Whatever path is asked for, the static route serves only files below the resolved web root: an
  answer is the build page, or the bytes of a regular file there, under the path's own name, its page
  or index, or a deep-link exemplar. That name ends in an extension of the allowlist, whose content
  type the answer carries, and the bytes are those of the file of that name, links resolved (a link
  may lead to any regular file below the root), or of its sidecar when the request accepts the
  encoding. API-shaped paths are never files, and a path with a parent segment or a zero byte has no
  answer.\<close>

theorem static_files_stay_under_the_root:
  assumes "dk_unquote dk path \<noteq> []"
  shows "(api_shaped (dk_unquote dk path) \<longrightarrow> resolve_path dk web_root path accept = Inl not_found)
    \<and> (\<not> api_shaped (dk_unquote dk path) \<and> (CHR 0x00 \<in> set (dk_unquote dk path) \<or> ''..'' \<in> set (py_split (CHR ''/'') (dk_unquote dk path)))
        \<longrightarrow> resolve_path dk web_root path accept = Inr None)
    \<and> (\<forall>r. resolve_path dk web_root path accept = Inr (Some r) \<longrightarrow>
        r = page 200 BUILD_PAGE_HTML \<and> \<not> dk_is_dir dk (dk_resolve dk web_root)
          \<and> dk_unquote dk path \<in> {''/'', ''/index.html''}
      \<or> dk_is_dir dk (dk_resolve dk web_root) \<and> serves_file dk (dk_resolve dk web_root) (dk_unquote dk path) accept r)"
  using asked_ok[OF _ assms] deep_link_ok
  by (auto simp: resolve_path_def Let_def split: if_splits option.splits)

section \<open>Revalidation\<close>

lemma etag_strip: "py_strip (etag_of dk body) = etag_of dk body"
  by (rule py_strip_id) (simp add: etag_of_def py_isspace_def cp_def)

definition with_header :: "string \<Rightarrow> string \<Rightarrow> request \<Rightarrow> request" where
  "with_header k v rq = rq\<lparr>rq_headers := (k, v) # rq_headers rq\<rparr>"

text \<open>A client that sends back the tag it got is answered 304 without a body as long as the file is the
  same, with the tag, the cache rule and the negotiation note of the full answer.\<close>

theorem sent_tag_revalidates:
  assumes "static_answer dk web_root rq = Inr r" "rs_status r = 200" "map_of (rs_headers r) ''ETag'' = Some etag" "dk_unquote dk (rq_path rq) \<noteq> []"
  shows "\<exists>r'. static_answer dk web_root (with_header ''if-none-match'' etag rq) = Inr r' \<and> rs_status r' = 304 \<and> rs_body r' = RawBody []
    \<and> (\<forall>k \<in> {''ETag'', ''Cache-Control'', ''Vary''}. map_of (rs_headers r') k = map_of (rs_headers r) k)"
proof -
  let ?rq = "with_header ''if-none-match'' etag rq"
  let ?accept = "header_ci (rq_headers rq) ''accept-encoding''"
  have same: "rq_path ?rq = rq_path rq" "header_ci (rq_headers ?rq) ''accept-encoding'' = ?accept" "header_ci (rq_headers ?rq) ''if-none-match'' = etag"
    by (simp_all add: with_header_def header_ci_def py_lower_def py_lower_char_def cp_def)
  obtain p where p: "resolve_path dk web_root (rq_path rq) ?accept = Inr (Some p)" "r = revalidated rq p"
    using assms(1,2) by (auto simp: static_answer_def res_bind_Inr not_found_page_def page_def split: option.splits)
  have rp: "r = p" using p(2) assms(2) by (auto simp: revalidated_def Let_def split: option.splits if_splits)
  have fl: "serves_file dk (dk_resolve dk web_root) (dk_unquote dk (rq_path rq)) ?accept p"
    using static_files_facts[OF assms(4) p(1)] assms(3) by (auto simp: rp page_def)
  obtain body where e: "etag = etag_of dk body" using fl assms(3) by (auto simp: serves_file_def rp)
  have st: "py_strip etag = etag" unfolding e by (rule etag_strip)
  have cc: "\<exists>v. map_of (rs_headers p) ''Cache-Control'' = Some v" using served_cache[OF assms(4) p(1)] assms(3) by (auto simp: rp)
  have "static_answer dk web_root ?rq = Inr (revalidated ?rq p)" using p(1) by (simp add: static_answer_def same)
  then show ?thesis using assms(3) cc by (auto simp: revalidated_def Let_def same rp st split: option.split)
qed

section \<open>Witnesses\<close>

definition demo_disk :: disk where
  "demo_disk = \<lparr>dk_resolve = id, dk_is_dir = (\<lambda>p. p = [''w'']), dk_is_file = (\<lambda>p. p = [''w'', ''index.html'']),
     dk_read = (\<lambda>_. Some ''hi''), dk_unquote = id, dk_float = (\<lambda>_. None), dk_sha1 = id\<rparr>"

definition demo_get :: request where
  "demo_get = \<lparr>rq_method = ''GET'', rq_path = ''/'', rq_query = [], rq_headers = [], rq_body = [], rq_id = ''r1'', rq_client_ip = ''ip''\<rparr>"

lemma demo_answer: "\<exists>r. resolve_path demo_disk [''w''] ''/'' [] = Inr (Some r) \<and> rs_body r = RawBody ''hi'' \<and> rs_status r = 200
    \<and> map_of (rs_headers r) ''ETag'' = Some (etag_of demo_disk ''hi'')"
proof -
  have c: "candidates ''/'' = [''/index.html'']" by (simp add: candidates_def extension_def)
  have x: "extension ''/index.html'' = ''html''" by (rule extension_name[of "''index''"]) (simp_all add: py_lower_def py_lower_char_def cp_def)
  have f: "\<exists>r. serve_file demo_disk ''/index.html'' ''/'' [''w''] [] = Some r \<and> rs_body r = RawBody ''hi'' \<and> rs_status r = 200
    \<and> map_of (rs_headers r) ''ETag'' = Some (etag_of demo_disk ''hi'')"
    by (simp add: serve_file_def Let_def x sidecars_def PRECOMPRESS_TYPES_def ENCODINGS_def List.map_filter_def sidecar_def read_source_def
        demo_disk_def under_def)
  then obtain r where r: "serve_file demo_disk ''/index.html'' ''/'' [''w''] [] = Some r" "rs_body r = RawBody ''hi''" "rs_status r = 200"
    "map_of (rs_headers r) ''ETag'' = Some (etag_of demo_disk ''hi'')" by blast
  have n: "\<not> api_shaped ''/''" by (simp add: api_shaped_def API_PREFIX_def ADMIN_REMOVED_PREFIX_def API_EXACT_def ADMIN_REMOVED_def py_startswith_def)
  have d: "dk_unquote demo_disk ''/'' = ''/''" "dk_resolve demo_disk [''w''] = [''w'']" "dk_is_dir demo_disk [''w'']" by (simp_all add: demo_disk_def)
  have fs: "first_served demo_disk [''/index.html''] ''/'' [''w''] [] = Some r" by (simp add: first_served_def List.map_filter_def r(1))
  have "resolve_path demo_disk [''w''] ''/'' [] = Inr (Some r)" by (simp add: resolve_path_def Let_def d n c fs)
  then show ?thesis using r by blast
qed

theorem static_files_stay_under_the_root_witness:
  "\<exists>r. resolve_path demo_disk [''w''] ''/'' [] = Inr (Some r) \<and> serves_file demo_disk [''w''] ''/'' [] r"
proof -
  obtain r where r: "resolve_path demo_disk [''w''] ''/'' [] = Inr (Some r)" "rs_body r = RawBody ''hi''" using demo_answer by blast
  have "dk_unquote demo_disk ''/'' \<noteq> []" "dk_is_dir demo_disk (dk_resolve demo_disk [''w''])" "dk_resolve demo_disk [''w''] = [''w'']"
    "dk_unquote demo_disk ''/'' = ''/''" by (simp_all add: demo_disk_def)
  then show ?thesis using static_files_stay_under_the_root[of demo_disk "''/''" "[''w'']" "[]"] r(1) by metis
qed

theorem sent_tag_revalidates_witness:
  "\<exists>r'. static_answer demo_disk [''w''] (with_header ''if-none-match'' (etag_of demo_disk ''hi'') demo_get) = Inr r' \<and> rs_status r' = 304"
proof -
  obtain r where r: "resolve_path demo_disk [''w''] ''/'' [] = Inr (Some r)" "rs_status r = 200" "map_of (rs_headers r) ''ETag'' = Some (etag_of demo_disk ''hi'')"
    using demo_answer by blast
  have "revalidated demo_get r = r"
    using r(3) by (simp add: revalidated_def demo_get_def header_ci_def etag_of_def py_strip_def py_lstrip_def Let_def)
  then have a: "static_answer demo_disk [''w''] demo_get = Inr r"
    using r(1) by (simp add: static_answer_def demo_get_def header_ci_def)
  have "dk_unquote demo_disk (rq_path demo_get) \<noteq> []" by (simp add: demo_disk_def demo_get_def)
  from sent_tag_revalidates[OF a r(2,3) this] show ?thesis by blast
qed

end
