(* ===== verification/Vocabulary.thy ===== *)
theory Vocabulary
  imports Http_Types
begin

text \<open>
  Models \<open>layawatch/obs/vocabulary.py\<close>: the table of span names with their attribute
  schemas, and the checked coercion of attributes. Attribute values are the Python values of
  \<^typ>\<open>json\<close>; \<open>UnknownSpanError\<close> is a ValueError. A conversion of an integer to a float is
  exact in this model.
\<close>

datatype attr_type = TStr | TInt | TBool | TFloat

record span_spec =
  sp_type :: string
  sp_attrs :: "(string \<times> attr_type) list"
  sp_status :: bool

definition TABLE :: "(string \<times> span_spec) list" where
  "TABLE = (let row = (\<lambda>n t a s. (n, \<lparr>sp_type = t, sp_attrs = a, sp_status = s\<rparr>)) in
    [row ''http.receive'' ''span'' [(''method'', TStr), (''path'', TStr), (''remote'', TStr), (''content_length'', TInt)] True,
     row ''auth.verify'' ''span'' [(''scheme'', TStr), (''key_id'', TStr), (''ok'', TBool)] True,
     row ''body.parse'' ''span'' [(''state_bytes'', TInt), (''question_count'', TInt), (''model_param'', TStr), (''lang_param'', TStr)] True,
     row ''lang.detect'' ''span'' [(''lang'', TStr), (''confidence'', TFloat)] True,
     row ''route.decide'' ''span'' [(''model'', TStr), (''reason'', TStr), (''typed_workflow'', TBool)] True,
     row ''queue.wait'' ''span'' [(''depth_at_acquire'', TInt)] True,
     row ''model.load'' ''span'' [(''model'', TStr), (''from'', TStr), (''bytes'', TInt)] True,
     row ''forward'' ''generation'' [(''model'', TStr), (''questions'', TInt), (''temperature'', TFloat), (''device'', TStr)] True,
     row ''serialize'' ''span'' [(''answers'', TInt), (''bytes'', TInt)] True,
     row ''response.send'' ''span'' [(''status'', TInt), (''bytes'', TInt)] True,
     row ''error'' ''event'' [(''code'', TStr), (''message'', TStr), (''where'', TStr)] False,
     row ''payload'' ''event'' [] True])"

definition span_entry :: "string \<Rightarrow> pyexc + span_spec" where
  "span_entry name = (case map_of TABLE name of None \<Rightarrow> Inl ValueError | Some e \<Rightarrow> Inr e)"

definition observation_type :: "string \<Rightarrow> pyexc + string" where
  "observation_type name = (case map_of TABLE name of None \<Rightarrow> Inl ValueError | Some e \<Rightarrow> Inr (sp_type e))"

text \<open>\<open>_coerce\<close>: \<open>bool\<close> is never an \<open>int\<close> or a \<open>float\<close>.\<close>

fun coerce :: "attr_type \<Rightarrow> json \<Rightarrow> pyexc + json" where
  "coerce TFloat (JInt i) = Inr (JFloat (of_int i))"
| "coerce TFloat (JFloat q) = Inr (JFloat q)"
| "coerce TInt (JInt i) = Inr (JInt i)"
| "coerce TBool (JBool b) = Inr (JBool b)"
| "coerce TStr (JStr s) = Inr (JStr s)"
| "coerce _ _ = Inl ValueError"

fun validate_attrs :: "(string \<times> attr_type) list \<Rightarrow> (string \<times> json) list \<Rightarrow> (string \<times> json) list \<Rightarrow> pyexc + (string \<times> json) list" where
  "validate_attrs schema [] out = Inr out"
| "validate_attrs schema ((key, v) # rest) out =
     (case map_of schema key of
        None \<Rightarrow> Inl ValueError
      | Some expected \<Rightarrow> res_bind (coerce expected v) (\<lambda>w. validate_attrs schema rest (dict_set key w out)))"

definition validate :: "string \<Rightarrow> (string \<times> json) list \<Rightarrow> pyexc + (string \<times> json) list" where
  "validate name attrs = res_bind (span_entry name) (\<lambda>e. validate_attrs (sp_attrs e) attrs [])"

section \<open>Types of attributes\<close>

fun has_type :: "attr_type \<Rightarrow> json \<Rightarrow> bool" where
  "has_type TStr (JStr _) = True"
| "has_type TInt (JInt _) = True"
| "has_type TBool (JBool _) = True"
| "has_type TFloat (JFloat _) = True"
| "has_type _ _ = False"

text \<open>What a schema type accepts: its own values, and integers for a float.\<close>

fun accepts :: "attr_type \<Rightarrow> json \<Rightarrow> bool" where
  "accepts TFloat (JInt _) = True"
| "accepts t v = has_type t v"

fun same_number :: "json \<Rightarrow> json \<Rightarrow> bool" where
  "same_number (JInt i) (JFloat q) = (q = of_int i)"
| "same_number v w = (v = w)"

fun_cases coerce_okE: "coerce t v = Inr w"

lemma coerce_typed: "coerce t v = Inr w \<Longrightarrow> has_type t w \<and> accepts t v \<and> same_number v w"
  by (erule coerce_okE) simp_all

lemma coerce_total: "accepts t v \<Longrightarrow> \<exists>w. coerce t v = Inr w"
  by (cases t; cases v) simp_all

lemma coerce_idem: "has_type t w \<Longrightarrow> coerce t w = Inr w"
  by (cases t; cases w) simp_all

text \<open>The keyword arguments of a call have distinct names.\<close>

definition well_typed :: "(string \<times> attr_type) list \<Rightarrow> (string \<times> json) list \<Rightarrow> bool" where
  "well_typed schema kvs \<longleftrightarrow> list_all (\<lambda>(k, v). case map_of schema k of None \<Rightarrow> False | Some t \<Rightarrow> has_type t v) kvs"

definition acceptable :: "(string \<times> attr_type) list \<Rightarrow> (string \<times> json) list \<Rightarrow> bool" where
  "acceptable schema kvs \<longleftrightarrow> list_all (\<lambda>(k, v). case map_of schema k of None \<Rightarrow> False | Some t \<Rightarrow> accepts t v) kvs"

lemma dict_set_fresh: "k \<notin> fst ` set d \<Longrightarrow> dict_set k v d = d @ [(k, v)]"
  by (induction d) auto

lemma validate_attrs_exact:
  assumes "dict_ok (out @ attrs)"
  shows "(\<exists>res. validate_attrs schema attrs out = Inr res) \<longleftrightarrow> acceptable schema attrs"
    and "validate_attrs schema attrs out = Inr res \<Longrightarrow>
      \<exists>new. res = out @ new \<and> well_typed schema new \<and> list_all2 (\<lambda>(k, v) (k', w). k = k' \<and> same_number v w) attrs new"
    and "well_typed schema attrs \<Longrightarrow> validate_attrs schema attrs out = Inr (out @ attrs)"
  using assms
proof (induction attrs arbitrary: out)
  case Nil
  { case 1 then show ?case by (simp add: acceptable_def)
  next case 2 then show ?case by (simp add: well_typed_def)
  next case 3 then show ?case by simp }
next
  case (Cons a attrs)
  obtain k v where a: "a = (k, v)" by (cases a)
  have ok: "dict_ok ((dict_set k w out) @ attrs)" "dict_set k w out = out @ [(k, w)]" if "dict_ok (out @ a # attrs)" for w out
    using that by (auto simp: dict_ok_def a dict_set_fresh)
  { case 1
    show ?case
    proof (cases "map_of schema k")
      case None
      then show ?thesis by (simp add: a acceptable_def)
    next
      case (Some t)
      show ?thesis
      proof (cases "coerce t v")
        case (Inl e)
        then have "\<not> accepts t v" using coerce_total[of t v] by auto
        then show ?thesis using Inl Some by (simp add: a acceptable_def)
      next
        case (Inr w)
        then have "accepts t v" using coerce_typed by blast
        then show ?thesis using Inr Some Cons.IH(1)[OF ok(1)[OF 1]] by (simp add: a acceptable_def)
      qed
    qed
  next
    case 2
    then obtain t w where t: "map_of schema k = Some t" "coerce t v = Inr w"
        "validate_attrs schema attrs (dict_set k w out) = Inr res"
      by (auto simp: a res_bind_Inr split: option.splits)
    obtain new where "res = (out @ [(k, w)]) @ new" "well_typed schema new"
        "list_all2 (\<lambda>(k, v) (k', w). k = k' \<and> same_number v w) attrs new"
      using Cons.IH(2)[OF t(3) ok(1)[OF 2(2)]] ok(2)[OF 2(2)] by auto
    then show ?case using t coerce_typed[OF t(2)]
      by (intro exI[of _ "(k, w) # new"]) (simp add: a well_typed_def)
  next
    case 3
    then obtain t where t: "map_of schema k = Some t" "has_type t v" "well_typed schema attrs"
      by (auto simp: a well_typed_def split: option.splits)
    show ?case using Cons.IH(3)[OF t(3) ok(1)[OF 3(2)]] ok(2)[OF 3(2)] t by (simp add: a coerce_idem) }
qed

text \<open>\<open>validate\<close> is the type check of observations: for a call with distinct keyword names it
  succeeds exactly when the span name is in the vocabulary, every attribute is in its schema and
  every value is accepted there; the result then has the same keys in the same order, every value
  of its declared type and numerically the value that was passed; and validating a result again
  changes nothing.\<close>

theorem validated_attributes_are_typed:
  assumes "dict_ok attrs"
  shows "((\<exists>res. validate name attrs = Inr res) \<longleftrightarrow> (\<exists>e. map_of TABLE name = Some e \<and> acceptable (sp_attrs e) attrs))
    \<and> (\<forall>res. validate name attrs = Inr res \<longrightarrow>
        (\<exists>e. map_of TABLE name = Some e \<and> well_typed (sp_attrs e) res)
        \<and> list_all2 (\<lambda>(k, v) (k', w). k = k' \<and> same_number v w) attrs res
        \<and> validate name res = Inr res)"
proof (cases "map_of TABLE name")
  case None
  then show ?thesis by (simp add: validate_def span_entry_def)
next
  case (Some e)
  have run: "validate name xs = validate_attrs (sp_attrs e) xs []" for xs by (simp add: validate_def span_entry_def Some)
  have ok: "dict_ok ([] @ attrs)" using assms by simp
  note exact = validate_attrs_exact[OF ok, of "sp_attrs e"]
  have "well_typed (sp_attrs e) res \<and> list_all2 (\<lambda>(k, v) (k', w). k = k' \<and> same_number v w) attrs res
      \<and> validate name res = Inr res" if r: "validate name attrs = Inr res" for res
  proof -
    have w: "well_typed (sp_attrs e) res" and l: "list_all2 (\<lambda>(k, v) (k', w). k = k' \<and> same_number v w) attrs res"
      using exact(2)[of res] r unfolding run by simp_all
    have "map fst res = map fst attrs" using l by (induction rule: list_all2_induct) auto
    then have "dict_ok ([] @ res)" using assms by (simp add: dict_ok_def)
    from validate_attrs_exact(3)[OF this w] w l show ?thesis by (simp add: run)
  qed
  with exact(1) show ?thesis unfolding run Some by (auto simp: run)
qed

theorem validated_attributes_are_typed_witness:
  "validate ''forward'' [(''temperature'', JInt 1), (''model'', JStr ''en'')]
     = Inr [(''temperature'', JFloat 1), (''model'', JStr ''en'')]
   \<and> (\<nexists>res. validate ''forward'' [(''questions'', JBool True)] = Inr res)"
proof -
  have ok: "dict_ok [(''temperature'', JInt 1), (''model'', JStr ''en'')]" "dict_ok [(''questions'', JBool True)]"
    by (simp_all add: dict_ok_def)
  have "\<not> (\<exists>e. map_of TABLE ''forward'' = Some e \<and> acceptable (sp_attrs e) [(''questions'', JBool True)])"
    by (simp add: TABLE_def Let_def acceptable_def)
  then have "\<nexists>res. validate ''forward'' [(''questions'', JBool True)] = Inr res"
    using validated_attributes_are_typed[OF ok(2)] by blast
  moreover have "validate ''forward'' [(''temperature'', JInt 1), (''model'', JStr ''en'')]
     = Inr [(''temperature'', JFloat 1), (''model'', JStr ''en'')]"
    by (simp add: validate_def span_entry_def TABLE_def Let_def)
  ultimately show ?thesis by blast
qed

end
