(* ===== verification/Scrub.thy ===== *)
theory Scrub
  imports Prelude
begin

text \<open>
  The value-level scrubbing of \<open>layawatch/obs/redact.py\<close>: the three patterns, \<open>re.sub\<close> and
  \<open>scrub_pii\<close>. A pattern is matched by backtracking as in the \<open>re\<close> module: the matcher lists
  the lengths of all matches at a position, preferred one first, given the characters before it.
  No pattern here matches the empty string, so a substitution skips empty matches.
\<close>

section \<open>Patterns\<close>

datatype pat = One "char \<Rightarrow> bool" | Seq pat pat | Or pat pat | Many pat | Empty
  | WordBoundary | NotBehind "char \<Rightarrow> bool" | NotAhead "char \<Rightarrow> bool"

text \<open>\<open>\\w\<close> over Latin-1: letters, every numeric character and the underscore.\<close>

definition word_char :: "char \<Rightarrow> bool" where
  "word_char c = (let n = cp c in 48 \<le> n \<and> n \<le> 57 \<or> 65 \<le> n \<and> n \<le> 90 \<or> n = 95 \<or> 97 \<le> n \<and> n \<le> 122
     \<or> n \<in> {170, 178, 179, 181, 185, 186, 188, 189, 190} \<or> 192 \<le> n \<and> n \<noteq> 215 \<and> n \<noteq> 247)"

definition starts_word :: "string \<Rightarrow> bool" where
  "starts_word s = (case s of [] \<Rightarrow> False | c # _ \<Rightarrow> word_char c)"

function (sequential) rmatch :: "pat \<Rightarrow> string \<Rightarrow> string \<Rightarrow> nat list" where
  "rmatch (One p) b s = (case s of [] \<Rightarrow> [] | c # _ \<Rightarrow> if p c then [1] else [])"
| "rmatch (Seq r q) b s = concat (map (\<lambda>n. map ((+) n) (rmatch q (rev (take n s) @ b) (drop n s))) (rmatch r b s))"
| "rmatch (Or r q) b s = rmatch r b s @ rmatch q b s"
| "rmatch (Many r) b s =
     concat (map (\<lambda>n. if 0 < n \<and> n \<le> length s then map ((+) n) (rmatch (Many r) (rev (take n s) @ b) (drop n s)) else [])
       (rmatch r b s)) @ [0]"
| "rmatch Empty b s = [0]"
| "rmatch WordBoundary b s = (if starts_word b \<noteq> starts_word s then [0] else [])"
| "rmatch (NotBehind p) b s = (case b of [] \<Rightarrow> [0] | c # _ \<Rightarrow> if p c then [] else [0])"
| "rmatch (NotAhead p) b s = (case s of [] \<Rightarrow> [0] | c # _ \<Rightarrow> if p c then [] else [0])"
  by pat_completeness auto
termination by (relation "measures [\<lambda>(r, b, s). size r, \<lambda>(r, b, s). length s]") auto

text \<open>\<open>re.sub\<close>: leftmost matches, the preferred one at each position.\<close>

function (sequential) re_sub :: "pat \<Rightarrow> (string \<Rightarrow> string) \<Rightarrow> string \<Rightarrow> string \<Rightarrow> string" where
  "re_sub r f b [] = []"
| "re_sub r f b (c # cs) =
     (case rmatch r b (c # cs) of
        Suc n # _ \<Rightarrow> f (c # take n cs) @ re_sub r f (rev (c # take n cs) @ b) (drop n cs)
      | _ \<Rightarrow> c # re_sub r f (c # b) cs)"
  by pat_completeness auto
termination by (relation "measure (\<lambda>(r, f, b, s). length s)") auto

declare rmatch.simps(4) [simp del]

section \<open>The three patterns\<close>

definition one_of :: "string \<Rightarrow> char \<Rightarrow> bool" where
  "one_of s c \<longleftrightarrow> c \<in> set s"

definition alnum :: "char \<Rightarrow> bool" where
  "alnum c = (let n = cp c in 48 \<le> n \<and> n \<le> 57 \<or> 65 \<le> n \<and> n \<le> 90 \<or> 97 \<le> n \<and> n \<le> 122)"

definition letter :: "char \<Rightarrow> bool" where
  "letter c = (let n = cp c in 65 \<le> n \<and> n \<le> 90 \<or> 97 \<le> n \<and> n \<le> 122)"

definition class_of :: "(char \<Rightarrow> bool) \<Rightarrow> string \<Rightarrow> char \<Rightarrow> bool" where
  "class_of p extra c \<longleftrightarrow> p c \<or> one_of extra c"

definition some_of :: "pat \<Rightarrow> pat" where
  "some_of r = Seq r (Many r)"

fun at_least :: "nat \<Rightarrow> pat \<Rightarrow> pat" where
  "at_least 0 r = Many r"
| "at_least (Suc n) r = Seq r (at_least n r)"

text \<open>A literal under \<open>re.IGNORECASE\<close>, and case sensitive.\<close>

fun literal_ci :: "string \<Rightarrow> pat" where
  "literal_ci [] = Empty"
| "literal_ci (c # cs) = Seq (One (\<lambda>d. py_lower_char d = py_lower_char c)) (literal_ci cs)"

fun one_literal_of :: "string list \<Rightarrow> pat" where
  "one_literal_of [] = Empty"
| "one_literal_of [w] = literal_ci w"
| "one_literal_of (w # v # ws) = Or (literal_ci w) (one_literal_of (v # ws))"

definition EMAIL :: pat where
  "EMAIL = Seq (some_of (One (class_of alnum ''._%+-''))) (Seq (One (one_of ''@''))
     (Seq (some_of (One (class_of alnum ''-''))) (Seq (Many (Seq (One (one_of ''.'')) (some_of (One (class_of alnum ''-'')))))
       (Seq (One (one_of ''.'')) (at_least 2 (One letter))))))"

definition CREDENTIAL :: pat where
  "CREDENTIAL =
     (let token = One (class_of alnum ''_-'') in
      Or (Seq WordBoundary (Seq (Or (one_literal_of [''lay'', ''orb_live'', ''tth_live'', ''sk'', ''pk'', ''rk'', ''ghp'', ''gho'', ''github_pat''])
                                   (Seq (literal_ci ''xox'') (One (\<lambda>c. py_lower_char c \<in> set ''abpr''))))
            (Seq (One (one_of ''_-'')) (at_least 8 token))))
     (Or (Seq WordBoundary (Seq (literal_ci ''Bearer'') (Seq (some_of (One py_isspace)) (at_least 8 (One (class_of alnum ''._~+/=-''))))))
         (Seq WordBoundary (Seq (literal_ci ''eyJ'') (Seq (at_least 6 token) (Seq (One (one_of ''.''))
            (Seq (at_least 6 token) (Seq (One (one_of ''.'')) (at_least 6 token)))))))))"

definition NUMBER_RUN :: pat where
  "NUMBER_RUN = Seq (NotBehind (\<lambda>c. word_char c \<or> c = CHR ''.'')) (Seq (Or (One (one_of ''+'')) Empty)
     (Seq (One py_digit) (Seq (at_least 8 (One (class_of py_digit '' ().-''))) (Seq (One py_digit) (NotAhead word_char)))))"

definition scrub_number :: "string \<Rightarrow> string" where
  "scrub_number t = (if 10 \<le> length (filter (\<lambda>c. py_isdigit [c]) t) then ''[redacted:number]'' else t)"

definition scrub_pii :: "string \<Rightarrow> string" where
  "scrub_pii text =
     (let a = re_sub CREDENTIAL (\<lambda>_. ''[redacted:credential]'') [] text;
          b = re_sub EMAIL (\<lambda>_. ''[redacted:email]'') [] a in
      re_sub NUMBER_RUN scrub_number [] b)"

section \<open>Languages\<close>

text \<open>The words of a pattern without assertions.\<close>

inductive accepted :: "pat \<Rightarrow> string \<Rightarrow> bool" where
  one: "p c \<Longrightarrow> accepted (One p) [c]"
| seq: "accepted r u \<Longrightarrow> accepted q v \<Longrightarrow> accepted (Seq r q) (u @ v)"
| orl: "accepted r u \<Longrightarrow> accepted (Or r q) u"
| orr: "accepted q u \<Longrightarrow> accepted (Or r q) u"
| many0: "accepted (Many r) []"
| many: "accepted r u \<Longrightarrow> u \<noteq> [] \<Longrightarrow> accepted (Many r) v \<Longrightarrow> accepted (Many r) (u @ v)"
| empty: "accepted Empty []"

inductive_cases accepted_oneE: "accepted (One p) w"
inductive_cases accepted_seqE: "accepted (Seq r q) w"

inductive_simps accepted_simps:
  "accepted (One p) w" "accepted (Seq r q) w" "accepted (Or r q) w" "accepted Empty w"

fun plain :: "pat \<Rightarrow> bool" where
  "plain (One p) = True"
| "plain (Seq r q) = (plain r \<and> plain q)"
| "plain (Or r q) = (plain r \<and> plain q)"
| "plain (Many r) = plain r"
| "plain Empty = True"
| "plain _ = False"

text \<open>The characters a word may hold.\<close>

fun uses :: "pat \<Rightarrow> char \<Rightarrow> bool" where
  "uses (One p) c = p c"
| "uses (Seq r q) c = (uses r c \<or> uses q c)"
| "uses (Or r q) c = (uses r c \<or> uses q c)"
| "uses (Many r) c = uses r c"
| "uses _ c = False"

lemma accepted_uses: "accepted r w \<Longrightarrow> c \<in> set w \<Longrightarrow> uses r c"
  by (induction rule: accepted.induct) auto

text \<open>The matcher finds exactly the prefixes in the language.\<close>

lemma rmatch_sound: "plain r \<Longrightarrow> n \<in> set (rmatch r b s) \<Longrightarrow> n \<le> length s \<and> accepted r (take n s)"
proof (induction r b s arbitrary: n rule: rmatch.induct)
  case (2 r q b s)
  then obtain i j where i: "i \<in> set (rmatch r b s)" and j: "j \<in> set (rmatch q (rev (take i s) @ b) (drop i s))" and n: "n = i + j" by auto
  have a: "i \<le> length s" "accepted r (take i s)" using 2 i by auto
  have b: "j \<le> length (drop i s)" "accepted q (take j (drop i s))" using 2 i j by auto
  show ?case using a b accepted.seq[OF a(2) b(2)] by (simp add: n take_add)
next
  case (4 r b s)
  show ?case
  proof (cases "n = 0")
    case True
    then show ?thesis by (simp add: accepted.many0)
  next
    case False
    then obtain i j where i: "i \<in> set (rmatch r b s)" "0 < i" "i \<le> length s"
      and j: "j \<in> set (rmatch (Many r) (rev (take i s) @ b) (drop i s))" and n: "n = i + j"
      using 4(4) unfolding rmatch.simps(4)[of r b s] by (auto split: if_splits)
    have a: "accepted r (take i s)" using 4(1,3) i by auto
    have b: "j \<le> length (drop i s)" "accepted (Many r) (take j (drop i s))" using 4(2)[OF i(1)] i 4(3) j by auto
    have "take i s \<noteq> []" using i by auto
    from accepted.many[OF a this b(2)] show ?thesis using b i by (simp add: n take_add)
  qed
qed (auto intro: accepted.intros split: list.splits if_splits)

lemma rmatch_complete: "accepted r w \<Longrightarrow> length w \<in> set (rmatch r b (w @ v))"
proof (induction arbitrary: b v rule: accepted.induct)
  case (seq r u q w)
  have "length w \<in> set (rmatch q (rev (take (length u) ((u @ w) @ v)) @ b) (drop (length u) ((u @ w) @ v)))"
    using seq.IH(2) by simp
  moreover have "length u \<in> set (rmatch r b ((u @ w) @ v))" using seq.IH(1)[of b "w @ v"] by simp
  ultimately show ?case by (force simp del: append_assoc)
next
  case (many r u w)
  have "length w \<in> set (rmatch (Many r) (rev (take (length u) ((u @ w) @ v)) @ b) (drop (length u) ((u @ w) @ v)))"
    using many.IH(2) by simp
  moreover have "length u \<in> set (rmatch r b ((u @ w) @ v))" using many.IH(1)[of b "w @ v"] by simp
  moreover have "0 < length u" "length u \<le> length ((u @ w) @ v)" using many.hyps(2) by simp_all
  ultimately show ?case unfolding rmatch.simps(4)[of r b "(u @ w) @ v"]
    by (simp del: append_assoc) (rule bexI[of _ "length u"], auto)
next
  case (many0 r)
  show ?case by (subst rmatch.simps(4)) simp
qed (auto split: list.splits)

section \<open>Masking with bracketed tokens\<close>

definition avoids :: "pat \<Rightarrow> string \<Rightarrow> bool" where
  "avoids r t \<longleftrightarrow> (\<forall>w. sublist w t \<longrightarrow> \<not> accepted r w)"

definition unbracketed :: "string \<Rightarrow> bool" where
  "unbracketed w \<longleftrightarrow> CHR ''['' \<notin> set w \<and> CHR '']'' \<notin> set w"

definition token_of :: "string \<Rightarrow> string" where
  "token_of x = ''['' @ x @ '']''"

lemma unbracketed_in_token: "sublist w (token_of x) \<Longrightarrow> unbracketed w \<Longrightarrow> w \<noteq> [] \<Longrightarrow> sublist w x"
proof -
  assume w: "sublist w (token_of x)" "unbracketed w" "w \<noteq> []"
  then obtain u v where uv: "''['' @ x @ '']'' = u @ w @ v" by (auto simp: sublist_def token_of_def)
  from w(2,3) uv obtain u' where u: "u = CHR ''['' # u'" by (cases u; cases w) (auto simp: unbracketed_def)
  have "v \<noteq> []"
  proof
    assume "v = []"
    then have "x @ '']'' = u' @ w" using uv u by simp
    then have "last w = CHR '']''" using w(3) by (metis last_appendR last_snoc)
    then show False using w(2,3) last_in_set[of w] by (auto simp: unbracketed_def)
  qed
  then obtain v' where "v = v' @ [last v]" by (metis append_butlast_last_id)
  then have "x = u' @ w @ v'" using uv u by (metis append.assoc append_Cons append_Nil butlast_snoc list.inject)
  then show ?thesis by (auto simp: sublist_def)
qed

lemma unbracketed_after_token: "prefix w (token_of x @ t) \<Longrightarrow> unbracketed w \<Longrightarrow> w = []"
  by (cases w) (auto simp: unbracketed_def token_of_def)

lemma sublist_past_token:
  assumes "sublist w (token_of x @ t)" "unbracketed w" "w \<noteq> []"
  shows "sublist w x \<or> sublist w t"
proof -
  consider "sublist w (token_of x)" | "sublist w t" | u v where "w = u @ v" "suffix u (token_of x)" "prefix v t"
    using assms(1) unfolding sublist_append by blast
  then show ?thesis
  proof cases
    case 1
    then show ?thesis using unbracketed_in_token assms(2,3) by blast
  next
    case 3
    have "u = []"
    proof (rule ccontr)
      assume n: "u \<noteq> []"
      then have "last u = last (token_of x)" using 3(2) by (auto simp: suffix_def)
      then have "last u = CHR '']''" by (simp add: token_of_def)
      then show False using n last_in_set[of u] assms(2) 3(1) by (auto simp: unbracketed_def)
    qed
    then show ?thesis using 3 by auto
  qed simp
qed

text \<open>Some factors of a text replaced by tokens.\<close>

inductive masked :: "(string \<Rightarrow> bool) \<Rightarrow> string \<Rightarrow> string \<Rightarrow> bool" for ok where
  nil: "masked ok [] []"
| keep: "masked ok s t \<Longrightarrow> masked ok (c # s) (c # t)"
| mask: "masked ok s t \<Longrightarrow> ok x \<Longrightarrow> masked ok (m @ s) (token_of x @ t)"

lemma masked_prefix: "masked ok s t \<Longrightarrow> prefix w t \<Longrightarrow> unbracketed w \<Longrightarrow> prefix w s"
proof (induction arbitrary: w rule: masked.induct)
  case (keep s t c)
  then show ?case by (cases w) (auto simp: unbracketed_def)
next
  case (mask s t x m)
  then have "w = []" using unbracketed_after_token by blast
  then show ?case by simp
qed simp

lemma masked_sublist:
  "masked ok s t \<Longrightarrow> sublist w t \<Longrightarrow> unbracketed w \<Longrightarrow> w \<noteq> [] \<Longrightarrow> sublist w s \<or> (\<exists>x. ok x \<and> sublist w x)"
proof (induction rule: masked.induct)
  case (keep s t c)
  then consider "prefix w (c # t)" | "sublist w t" by (auto simp: sublist_Cons_right)
  then show ?case
  proof cases
    case 1
    then have "prefix w (c # s)" using masked_prefix[OF masked.keep[OF keep.hyps]] keep.prems by blast
    then show ?thesis by blast
  next
    case 2
    then show ?thesis using keep by (auto simp: sublist_Cons_right)
  qed
next
  case (mask s t x m)
  then consider "sublist w x" | "sublist w t" using sublist_past_token by blast
  then show ?case using mask by (metis sublist_appendI sublist_order.order.trans append_Nil2)
qed simp

text \<open>Masking takes nothing into a language whose words hold no bracket.\<close>

definition bracket_free :: "pat \<Rightarrow> bool" where
  "bracket_free r \<longleftrightarrow> (\<forall>w. accepted r w \<longrightarrow> unbracketed w \<and> w \<noteq> [])"

lemma masked_avoids:
  "masked (avoids r) s t \<Longrightarrow> bracket_free r \<Longrightarrow> avoids r s \<Longrightarrow> avoids r t"
proof -
  assume m: "masked (avoids r) s t" and f: "bracket_free r" and s: "avoids r s"
  have False if w: "sublist w t" "accepted r w" for w
  proof -
    have "unbracketed w" "w \<noteq> []" using f w(2) by (auto simp: bracket_free_def)
    from masked_sublist[OF m w(1) this] show False using s w(2) by (auto simp: avoids_def)
  qed
  then show "avoids r t" by (auto simp: avoids_def)
qed

lemma re_sub_masked:
  assumes "\<And>m. f m = m \<or> (\<exists>x. f m = token_of x \<and> ok x)"
  shows "masked ok s (re_sub r f b s)"
  using assms
proof (induction r f b s rule: re_sub.induct)
  case (2 r f b c cs)
  have keep: "masked ok (m @ u) (m @ v)" if "masked ok u v" for m u v
    using that by (induction m) (auto intro: masked.keep)
  show ?case
  proof (cases "rmatch r b (c # cs)")
    case Nil
    then show ?thesis using 2 by (simp add: masked.keep)
  next
    case (Cons n ns)
    show ?thesis
    proof (cases n)
      case 0
      then show ?thesis using 2 Cons by (simp add: masked.keep)
    next
      case (Suc k)
      have IH: "masked ok (drop k cs) (re_sub r f (rev (c # take k cs) @ b) (drop k cs))" by (rule 2(3)[OF Cons Suc 2(4)])
      have s: "c # cs = (c # take k cs) @ drop k cs" by simp
      show ?thesis
      proof (cases "f (c # take k cs) = c # take k cs")
        case True
        then show ?thesis using keep[OF IH, of "c # take k cs"] by (simp add: Cons Suc)
      next
        case False
        then obtain x where x: "f (c # take k cs) = token_of x" "ok x" using 2(4) by metis
        from masked.mask[OF IH x(2), of "c # take k cs"] show ?thesis by (simp add: Cons Suc x)
      qed
    qed
  qed
qed (simp add: masked.nil)

text \<open>A substitution by a harmless token leaves no word of its own pattern.\<close>

lemma re_sub_avoids:
  assumes p: "plain r" and r: "bracket_free r" and f: "\<And>m. \<exists>x. f m = token_of x \<and> avoids r x"
  shows "avoids r (re_sub r f b s)"
proof -
  have "sublist w (re_sub r f b s) \<Longrightarrow> accepted r w \<Longrightarrow> False" for w
  proof (induction "length s" arbitrary: b s rule: less_induct)
    case less
    have w: "unbracketed w" "w \<noteq> []" using less.prems(2) r by (auto simp: bracket_free_def)
    have m: "masked (avoids r) s (re_sub r f b s)" using f by (intro re_sub_masked) blast
    show ?case
    proof (cases s)
      case Nil
      then show ?thesis using less.prems(1) w(2) by simp
    next
      case (Cons c cs)
      show ?thesis
      proof (cases "rmatch r b s")
        case Nil
        then have e: "re_sub r f b s = c # re_sub r f (c # b) cs" by (simp add: Cons)
        have "\<not> sublist w (re_sub r f (c # b) cs)" using less.hyps[of cs "c # b"] less.prems(2) by (auto simp: Cons)
        then have "prefix w (re_sub r f b s)" using less.prems(1) unfolding e sublist_Cons_right by blast
        then have "prefix w s" using masked_prefix[OF m _ w(1)] by blast
        then have "length w \<in> set (rmatch r b s)" using rmatch_complete[OF less.prems(2)] by (auto simp: prefix_def)
        then show ?thesis by (simp add: Nil)
      next
        case (Cons n ns)
        note s = \<open>s = c # cs\<close>
        have "accepted r (take n s)" using rmatch_sound[OF p, of n b s] by (simp add: Cons)
        then obtain k where n: "n = Suc k" using r by (cases n) (auto simp: bracket_free_def)
        obtain x where x: "f (c # take k cs) = token_of x" "avoids r x" using f by blast
        have e: "re_sub r f b s = token_of x @ re_sub r f (rev (c # take k cs) @ b) (drop k cs)"
          using Cons by (simp add: s n x)
        have "\<not> sublist w (re_sub r f (rev (c # take k cs) @ b) (drop k cs))"
          using less.hyps[of "drop k cs" "rev (c # take k cs) @ b"] less.prems(2) by (auto simp: s less_Suc_eq_le)
        then have "sublist w x" using sublist_past_token[OF _ w] less.prems(1) unfolding e by blast
        then show ?thesis using x(2) less.prems(2) by (simp add: avoids_def)
      qed
    qed
  qed
  then show ?thesis by (auto simp: avoids_def)
qed

section \<open>No address survives\<close>

lemma at_least_plain [simp]: "plain r \<Longrightarrow> plain (at_least n r)"
  by (induction n) auto

lemma at_least_uses [simp]: "uses (at_least n r) c = uses r c"
  by (induction n) auto

lemma email_word: "accepted EMAIL w \<Longrightarrow> CHR ''@'' \<in> set w \<and> w \<noteq> []"
  unfolding EMAIL_def by (auto elim!: accepted_seqE accepted_oneE simp: one_of_def)

lemma email_plain: "plain EMAIL"
  by (simp add: EMAIL_def some_of_def)

lemma email_chars: "\<not> uses EMAIL (CHR ''['')" "\<not> uses EMAIL (CHR '']'')"
  by (simp_all add: EMAIL_def some_of_def class_of_def one_of_def alnum_def letter_def cp_def)

lemma email_bracket_free: "bracket_free EMAIL"
  unfolding bracket_free_def unbracketed_def using email_word accepted_uses email_chars by blast

lemma no_at_avoids: "CHR ''@'' \<notin> set x \<Longrightarrow> avoids EMAIL x"
  unfolding avoids_def using email_word by (meson set_mono_sublist subsetD)

text \<open>C21: No address-shaped text survives \<open>scrub_pii\<close>: whatever the text, no part of the result is a
  word of the email pattern, so the pattern finds nothing in it anywhere.\<close>

theorem no_email_survives:
  "avoids EMAIL (scrub_pii text) \<and> (\<forall>u v. scrub_pii text = u @ v \<longrightarrow> rmatch EMAIL (rev u) v = [])"
proof -
  have tokens: "''[redacted:email]'' = token_of ''redacted:email''" "''[redacted:number]'' = token_of ''redacted:number''"
    by (simp_all add: token_of_def)
  have safe: "avoids EMAIL ''redacted:email''" "avoids EMAIL ''redacted:number''"
    by (rule no_at_avoids, simp)+
  have "avoids EMAIL (re_sub EMAIL (\<lambda>_. ''[redacted:email]'') [] a)" for a
    by (rule re_sub_avoids[OF email_plain email_bracket_free]) (use tokens safe in blast)
  moreover have "masked (avoids EMAIL) s (re_sub NUMBER_RUN scrub_number [] s)" for s
    by (rule re_sub_masked) (use tokens safe in \<open>auto simp: scrub_number_def\<close>)
  ultimately have a: "avoids EMAIL (scrub_pii text)"
    unfolding scrub_pii_def Let_def using masked_avoids[OF _ email_bracket_free] by blast
  have "rmatch EMAIL (rev u) v = []" if "scrub_pii text = u @ v" for u v
  proof (rule ccontr)
    assume "rmatch EMAIL (rev u) v \<noteq> []"
    then obtain n where "n \<in> set (rmatch EMAIL (rev u) v)" by (metis list.set_sel(1))
    then have "accepted EMAIL (take n v)" using rmatch_sound[OF email_plain] by blast
    moreover have "sublist (take n v) (scrub_pii text)" unfolding that
      by (metis append_take_drop_id sublist_appendI)
    ultimately show False using a by (simp add: avoids_def)
  qed
  with a show ?thesis by blast
qed

theorem no_email_survives_witness:
  "rmatch EMAIL [] (scrub_pii ''a@b.cc'') = [] \<and> scrub_pii ''a@b.cc'' = ''[redacted:email]''
   \<and> rmatch EMAIL [] ''a@b.cc'' = [6]"
proof -
  have "scrub_pii ''a@b.cc'' = ''[redacted:email]'' \<and> rmatch EMAIL [] ''a@b.cc'' = [6]" by code_simp
  moreover have "rmatch EMAIL [] (scrub_pii ''a@b.cc'') = []"
    using no_email_survives[of "''a@b.cc''"] by (metis append_Nil rev.simps(1))
  ultimately show ?thesis by blast
qed

end
