(* ===== verification/Redact.thy ===== *)
theory Redact
  imports Scrub Http_Types
begin

text \<open>
  Models the rest of \<open>layawatch/obs/redact.py\<close>: key redaction, UTF-8 lengths and truncation,
  and the capture of a payload. Truncation works on code points, with the encoder that refuses a
  lone surrogate and the decoder that skips what is not UTF-8. A tuple is a JSON array; values
  that JSON cannot express do not occur in the model. The rendering of a float is an argument.
\<close>

section \<open>UTF-8\<close>

definition surrogate :: "nat \<Rightarrow> bool" where
  "surrogate n \<longleftrightarrow> 55296 \<le> n \<and> n \<le> 57343"

definition utf8_char :: "nat \<Rightarrow> nat list" where
  "utf8_char n =
     (if n < 128 then [n]
      else if n < 2048 then [192 + n div 64, 128 + n mod 64]
      else if n < 65536 then [224 + n div 4096, 128 + n div 64 mod 64, 128 + n mod 64]
      else [240 + n div 262144, 128 + n div 4096 mod 64, 128 + n div 64 mod 64, 128 + n mod 64])"

definition utf8_of :: "nat list \<Rightarrow> nat list" where
  "utf8_of s = concat (map utf8_char s)"

text \<open>\<open>s.encode("utf-8")\<close>\<close>

definition utf8_encode :: "nat list \<Rightarrow> pyexc + nat list" where
  "utf8_encode s = (if list_ex surrogate s then Inl UnicodeEncodeError else Inr (utf8_of s))"

definition continuation :: "nat \<Rightarrow> bool" where
  "continuation b \<longleftrightarrow> 128 \<le> b \<and> b \<le> 191"

text \<open>One character at the front of a byte list, with the number of bytes after the first.\<close>

definition utf8_front :: "nat \<Rightarrow> nat list \<Rightarrow> (nat \<times> nat) option" where
  "utf8_front b bs =
     (if b < 128 then Some (b, 0)
      else if 194 \<le> b \<and> b \<le> 223 then
        (case bs of c1 # _ \<Rightarrow> if continuation c1 then Some ((b - 192) * 64 + (c1 - 128), 1) else None | _ \<Rightarrow> None)
      else if 224 \<le> b \<and> b \<le> 239 then
        (case bs of c1 # c2 # _ \<Rightarrow>
           let n = (b - 224) * 4096 + (c1 - 128) * 64 + (c2 - 128) in
           if continuation c1 \<and> continuation c2 \<and> 2048 \<le> n \<and> \<not> surrogate n then Some (n, 2) else None
         | _ \<Rightarrow> None)
      else if 240 \<le> b \<and> b \<le> 244 then
        (case bs of c1 # c2 # c3 # _ \<Rightarrow>
           let n = (b - 240) * 262144 + (c1 - 128) * 4096 + (c2 - 128) * 64 + (c3 - 128) in
           if continuation c1 \<and> continuation c2 \<and> continuation c3 \<and> 65536 \<le> n \<and> n \<le> 1114111 then Some (n, 3) else None
         | _ \<Rightarrow> None)
      else None)"

text \<open>\<open>bytes.decode("utf-8", errors="ignore")\<close>\<close>

function (sequential) utf8_decode :: "nat list \<Rightarrow> nat list" where
  "utf8_decode [] = []"
| "utf8_decode (b # bs) =
     (case utf8_front b bs of Some (n, k) \<Rightarrow> n # utf8_decode (drop k bs) | None \<Rightarrow> utf8_decode bs)"
  by pat_completeness auto
termination by (relation "measure length") auto

definition byte_len :: "nat list \<Rightarrow> pyexc + nat" where
  "byte_len s = res_bind (utf8_encode s) (\<lambda>b. Inr (length b))"

section \<open>\<open>scrub_text\<close>\<close>

text \<open>The Cc category: the C0 and C1 controls.\<close>

definition control :: "nat \<Rightarrow> bool" where
  "control n \<longleftrightarrow> n < 32 \<or> 127 \<le> n \<and> n \<le> 159"

definition cleaned :: "nat list \<Rightarrow> nat list" where
  "cleaned s = filter (\<lambda>n. n \<in> {10, 9} \<or> \<not> control n) s"

definition scrub_text :: "nat list \<Rightarrow> int \<Rightarrow> pyexc + nat list" where
  "scrub_text s max_bytes =
     (if max_bytes < 0 then Inl ValueError
      else res_bind (utf8_encode (cleaned s)) (\<lambda>encoded.
        Inr (if max_bytes < int (length encoded) then utf8_decode (take (nat max_bytes) encoded) else cleaned s)))"

definition scalar :: "nat \<Rightarrow> bool" where
  "scalar n \<longleftrightarrow> n \<le> 1114111 \<and> \<not> surrogate n"

lemma utf8_front_char: "scalar n \<Longrightarrow> utf8_char n = b # r \<Longrightarrow> utf8_front b (r @ bs) = Some (n, length r)"
proof -
  assume s: "scalar n" and c: "utf8_char n = b # r"
  consider "n < 128" | "128 \<le> n" "n < 2048" | "2048 \<le> n" "n < 65536" | "65536 \<le> n" "n \<le> 1114111"
    using s by (force simp: scalar_def)
  then show ?thesis
  proof cases
    case 1
    then show ?thesis using c by (auto simp: utf8_char_def utf8_front_def)
  next
    case 2
    have "194 \<le> 192 + n div 64" "192 + n div 64 \<le> 223" using 2 by auto
    moreover have "(n div 64) * 64 + n mod 64 = n" by simp
    ultimately show ?thesis using c 2 by (auto simp: utf8_char_def utf8_front_def continuation_def less_Suc_eq_le[symmetric])
  next
    case 3
    have "(n div 4096) * 4096 + (n div 64 mod 64) * 64 + n mod 64 = n"
    proof -
      have "n div 4096 = n div 64 div 64" by (simp flip: div_mult2_eq)
      then show ?thesis using div_mult_mod_eq[of "n div 64" 64] div_mult_mod_eq[of n 64] by linarith
    qed
    moreover have "224 + n div 4096 \<le> 239" using 3 by auto
    moreover have "n mod 64 \<le> 63" "n div 64 mod 64 \<le> 63" by (simp_all add: less_Suc_eq_le[symmetric])
    ultimately show ?thesis using c 3 s by (auto simp: utf8_char_def utf8_front_def continuation_def scalar_def Let_def)
  next
    case 4
    have "(n div 262144) * 262144 + (n div 4096 mod 64) * 4096 + (n div 64 mod 64) * 64 + n mod 64 = n"
    proof -
      have "n div 4096 = n div 64 div 64" "n div 262144 = n div 4096 div 64" by (simp_all flip: div_mult2_eq)
      then show ?thesis
        using div_mult_mod_eq[of "n div 4096" 64] div_mult_mod_eq[of "n div 64" 64] div_mult_mod_eq[of n 64] by linarith
    qed
    moreover have "240 + n div 262144 \<le> 244" using 4 by auto
    moreover have "n mod 64 \<le> 63" "n div 64 mod 64 \<le> 63" "n div 4096 mod 64 \<le> 63" by (simp_all add: less_Suc_eq_le[symmetric])
    ultimately show ?thesis using c 4 s by (auto simp: utf8_char_def utf8_front_def continuation_def scalar_def Let_def)
  qed
qed

text \<open>A character cut short leaves nothing.\<close>

lemma utf8_cut: "m < length (utf8_char n) \<Longrightarrow> utf8_decode (take m (utf8_char n)) = []"
proof -
  assume m: "m < length (utf8_char n)"
  have tail: "utf8_front (128 + k mod 64) bs = None" for k bs
  proof -
    have "k mod 64 < 64" by simp
    then have "128 + k mod 64 < 194" by linarith
    then show ?thesis by (auto simp: utf8_front_def)
  qed
  have lead: "128 \<le> b \<Longrightarrow> utf8_front b [] = None" "224 \<le> b \<Longrightarrow> utf8_front b [c] = None"
    "240 \<le> b \<Longrightarrow> utf8_front b [c, e] = None" for b c e
    by (auto simp: utf8_front_def)
  consider "n < 128" | "128 \<le> n" "n < 2048" | "2048 \<le> n" "n < 65536" | "65536 \<le> n" by linarith
  then show ?thesis
  proof cases
    case 1
    then show ?thesis using m by (simp add: utf8_char_def)
  next
    case 2
    then have "m = 0 \<or> m = 1" using m by (simp add: utf8_char_def less_Suc_eq)
    then show ?thesis using 2 by (auto simp: utf8_char_def lead)
  next
    case 3
    then have c: "utf8_char n = [224 + n div 4096, 128 + n div 64 mod 64, 128 + n mod 64]" by (simp add: utf8_char_def)
    have "m < 3" using m by (simp add: c)
    then have "m = 0 \<or> m = 1 \<or> m = 2" by linarith
    then show ?thesis unfolding c by (elim disjE) (simp_all add: lead tail)
  next
    case 4
    then have c: "utf8_char n = [240 + n div 262144, 128 + n div 4096 mod 64, 128 + n div 64 mod 64, 128 + n mod 64]"
      by (simp add: utf8_char_def)
    have "m < 4" using m by (simp add: c)
    then have "m = 0 \<or> m = 1 \<or> m = 2 \<or> m = 3" by linarith
    then show ?thesis unfolding c by (elim disjE) (simp_all add: lead tail take_Cons')
  qed
qed

text \<open>The longest prefix of a text that fits into \<open>m\<close> bytes.\<close>

fun fitting :: "nat \<Rightarrow> nat list \<Rightarrow> nat list" where
  "fitting m [] = []"
| "fitting m (n # ns) = (if length (utf8_char n) \<le> m then n # fitting (m - length (utf8_char n)) ns else [])"

lemma utf8_char_nonempty: "utf8_char n \<noteq> []"
  by (simp add: utf8_char_def)

lemma utf8_decode_take: "list_all scalar s \<Longrightarrow> utf8_decode (take m (utf8_of s)) = fitting m s"
proof (induction s arbitrary: m)
  case (Cons n s)
  obtain b r where br: "utf8_char n = b # r" using utf8_char_nonempty[of n] by (cases "utf8_char n") auto
  have n: "scalar n" using Cons.prems by simp
  show ?case
  proof (cases "length (utf8_char n) \<le> m")
    case True
    then have "take m (utf8_of (n # s)) = b # r @ take (m - length (utf8_char n)) (utf8_of s)"
      by (simp add: utf8_of_def br take_Cons')
    then show ?thesis using True Cons by (simp add: utf8_front_char[OF n br])
  next
    case False
    then have "take m (utf8_of (n # s)) = take m (utf8_char n)" by (simp add: utf8_of_def)
    then show ?thesis using False utf8_cut[of m n] by simp
  qed
qed (simp add: utf8_of_def)

lemma fitting_all: "length (utf8_of s) \<le> m \<Longrightarrow> fitting m s = s"
  by (induction s arbitrary: m) (auto simp: utf8_of_def)

lemma fitting_prefix: "prefix (fitting m s) s \<and> length (utf8_of (fitting m s)) \<le> m"
proof (induction s arbitrary: m)
  case (Cons n s)
  show ?case using Cons.IH[of "m - length (utf8_char n)"] by (auto simp: utf8_of_def)
qed (simp add: utf8_of_def)

lemma fitting_longest: "prefix p s \<Longrightarrow> length (utf8_of p) \<le> m \<Longrightarrow> prefix p (fitting m s)"
proof (induction s arbitrary: p m)
  case (Cons n s)
  then show ?case by (cases p) (auto simp: utf8_of_def)
qed simp

text \<open>For text without lone surrogates and a byte limit that is not negative, \<open>scrub_text\<close>
  returns the longest prefix of the text without control characters (other than newline and tab)
  whose UTF-8 encoding fits the limit: no character is split and nothing that fits is lost.\<close>

theorem scrub_text_longest_fitting_prefix:
  assumes "list_all scalar s" "0 \<le> max_bytes"
  shows "\<exists>res. scrub_text s max_bytes = Inr res \<and> prefix res (cleaned s)
    \<and> (\<exists>n. byte_len res = Inr n \<and> int n \<le> max_bytes)
    \<and> (\<forall>p n. prefix p (cleaned s) \<and> byte_len p = Inr n \<and> int n \<le> max_bytes \<longrightarrow> prefix p res)
    \<and> list_all (\<lambda>n. n \<in> {10, 9} \<or> \<not> control n) res"
proof -
  have c: "list_all scalar (cleaned s)" using assms(1) by (auto simp: cleaned_def list_all_iff)
  have enc: "utf8_encode p = Inr (utf8_of p)" "byte_len p = Inr (length (utf8_of p))" if "prefix p (cleaned s)" for p
  proof -
    have "set p \<subseteq> set (cleaned s)" using that by (rule set_mono_prefix)
    then show "utf8_encode p = Inr (utf8_of p)" using c by (auto simp: utf8_encode_def list_ex_iff list_all_iff scalar_def)
    then show "byte_len p = Inr (length (utf8_of p))" by (simp add: byte_len_def)
  qed
  let ?res = "fitting (nat max_bytes) (cleaned s)"
  have run: "scrub_text s max_bytes = Inr ?res"
    using assms(2) by (simp add: scrub_text_def enc(1) utf8_decode_take[OF c]) (simp add: fitting_all)
  note fp = fitting_prefix[of "nat max_bytes" "cleaned s"]
  have "list_all (\<lambda>n. n \<in> {10, 9} \<or> \<not> control n) ?res"
    using set_mono_prefix[OF conjunct1[OF fp]] by (auto simp: list_all_iff cleaned_def)
  moreover have "prefix p ?res" if "prefix p (cleaned s) \<and> byte_len p = Inr n \<and> int n \<le> max_bytes" for p n
    using that enc(2)[of p] by (intro fitting_longest) auto
  moreover have "int (length (utf8_of ?res)) \<le> max_bytes" using fp assms(2) by linarith
  ultimately show ?thesis using run fp enc(2)[of ?res] by blast
qed

theorem scrub_text_longest_fitting_prefix_witness:
  "scrub_text [72, 7, 8364, 105] 4 = Inr [72, 8364] \<and> scrub_text [72, 7, 8364, 105] 3 = Inr [72]
   \<and> prefix [72] (cleaned [72, 7, 8364, 105])"
proof -
  have s: "list_all scalar [72, 7, 8364, 105]" by (simp add: scalar_def surrogate_def)
  have c: "scrub_text [72, 7, 8364, 105] 4 = Inr [72, 8364] \<and> scrub_text [72, 7, 8364, 105] 3 = Inr [72]"
    by (simp add: scrub_text_def cleaned_def control_def utf8_encode_def surrogate_def utf8_of_def utf8_char_def
        utf8_front_def continuation_def Let_def)
  have "(0 :: int) \<le> 3" by simp
  from scrub_text_longest_fitting_prefix[OF s this]
  obtain res where r: "scrub_text [72, 7, 8364, 105] 3 = Inr res" "prefix res (cleaned [72, 7, 8364, 105])"
    by (elim exE conjE) (rule that)
  have "res = [72]" using r(1) c by simp
  then show ?thesis using c r(2) by blast
qed

text \<open>A lone surrogate, which the JSON parser accepts, cannot be captured.\<close>

lemma scrub_text_surrogate: "0 \<le> m \<Longrightarrow> surrogate n \<Longrightarrow> n \<in> set s \<Longrightarrow> scrub_text s m = Inl UnicodeEncodeError"
  by (auto simp: scrub_text_def utf8_encode_def list_ex_iff cleaned_def surrogate_def control_def)

section \<open>Redaction by key\<close>

definition REDACTED :: string where
  "REDACTED = ''[redacted]''"

definition REDACT_KEYS :: "string list" where
  "REDACT_KEYS = [''password'', ''token'', ''secret'', ''api_key'', ''authorization'', ''email'', ''phone'', ''ssn'', ''card'']"

definition NORMALIZED_KEYS :: "string list" where
  "NORMALIZED_KEYS = map (filter (\<lambda>c. c \<noteq> CHR ''_'')) REDACT_KEYS"

definition is_redacted_key :: "string \<Rightarrow> bool" where
  "is_redacted_key key =
     (let normalized = filter (\<lambda>c. c \<noteq> CHR ''_'' \<and> c \<noteq> CHR ''-'') (py_lower key) in
      list_ex (py_contains normalized) NORMALIZED_KEYS)"

fun redact_structure :: "json \<Rightarrow> json"
  and redact_items :: "json list \<Rightarrow> json list"
  and redact_pairs :: "(string \<times> json) list \<Rightarrow> (string \<times> json) list" where
  "redact_structure (JObj kvs) = JObj (redact_pairs kvs)"
| "redact_structure (JArr xs) = JArr (redact_items xs)"
| "redact_structure v = v"
| "redact_items [] = []"
| "redact_items (x # xs) = redact_structure x # redact_items xs"
| "redact_pairs [] = []"
| "redact_pairs ((k, v) # kvs) = (k, if is_redacted_key k then JStr REDACTED else redact_structure v) # redact_pairs kvs"

text \<open>What a capture replaces under a redacted key: strings and containers.\<close>

fun withheld :: "json \<Rightarrow> bool" where
  "withheld (JStr _) = True"
| "withheld (JArr _) = True"
| "withheld (JObj _) = True"
| "withheld _ = False"

fun redact_for_capture :: "json \<Rightarrow> json"
  and capture_items :: "json list \<Rightarrow> json list"
  and capture_pairs :: "(string \<times> json) list \<Rightarrow> (string \<times> json) list \<Rightarrow> (string \<times> json) list" where
  "redact_for_capture (JObj kvs) = JObj (capture_pairs kvs [])"
| "redact_for_capture (JArr xs) = JArr (capture_items xs)"
| "redact_for_capture (JStr s) = JStr (scrub_pii s)"
| "redact_for_capture v = v"
| "capture_items [] = []"
| "capture_items (x # xs) = redact_for_capture x # capture_items xs"
| "capture_pairs [] out = out"
| "capture_pairs ((k, v) # kvs) out = capture_pairs kvs
     (dict_set (scrub_pii k) (if is_redacted_key k \<and> withheld v then JStr REDACTED else redact_for_capture v) out)"

section \<open>Capture\<close>

text \<open>\<open>json.dumps(value, ensure_ascii=False)\<close>, with its default separators.\<close>

definition text_escape :: "char \<Rightarrow> string" where
  "text_escape c = (if 127 \<le> cp c then [c] else json_escape c)"

definition text_string :: "string \<Rightarrow> string" where
  "text_string s = [CHR 34] @ concat (map text_escape s) @ [CHR 34]"

fun text_dumps :: "(pyfloat \<Rightarrow> string) \<Rightarrow> json \<Rightarrow> string"
  and text_items :: "(pyfloat \<Rightarrow> string) \<Rightarrow> json list \<Rightarrow> string list"
  and text_pairs :: "(pyfloat \<Rightarrow> string) \<Rightarrow> (string \<times> json) list \<Rightarrow> string list" where
  "text_dumps fr JNull = ''null''"
| "text_dumps fr (JBool b) = (if b then ''true'' else ''false'')"
| "text_dumps fr (JInt i) = str_int i"
| "text_dumps fr (JFloat q) = fr q"
| "text_dumps fr (JStr s) = text_string s"
| "text_dumps fr (JArr xs) = ''['' @ py_join '', '' (text_items fr xs) @ '']''"
| "text_dumps fr (JObj kvs) = ''{'' @ py_join '', '' (text_pairs fr kvs) @ ''}''"
| "text_items fr [] = []"
| "text_items fr (x # xs) = text_dumps fr x # text_items fr xs"
| "text_pairs fr [] = []"
| "text_pairs fr ((k, v) # kvs) = (text_string k @ '': '' @ text_dumps fr v) # text_pairs fr kvs"

definition capture_value :: "(pyfloat \<Rightarrow> string) \<Rightarrow> json \<Rightarrow> bool \<Rightarrow> int \<Rightarrow> pyexc + string option" where
  "capture_value fr value enabled max_bytes =
     (if \<not> enabled then Inr None
      else res_bind (scrub_text (map cp (text_dumps fr (redact_for_capture value))) max_bytes)
        (\<lambda>pts. Inr (Some (map char_of pts))))"

section \<open>What a capture cannot tell\<close>

text \<open>Two values that agree except for strings and containers under redacted keys, at any depth.\<close>

fun same_public :: "json \<Rightarrow> json \<Rightarrow> bool"
  and same_items :: "json list \<Rightarrow> json list \<Rightarrow> bool"
  and same_pairs :: "(string \<times> json) list \<Rightarrow> (string \<times> json) list \<Rightarrow> bool" where
  "same_public (JObj kvs) (JObj lws) = same_pairs kvs lws"
| "same_public (JArr xs) (JArr ys) = same_items xs ys"
| "same_public v w = (v = w)"
| "same_items [] [] = True"
| "same_items (x # xs) (y # ys) = (same_public x y \<and> same_items xs ys)"
| "same_items _ _ = False"
| "same_pairs [] [] = True"
| "same_pairs ((k, v) # kvs) ((l, w) # lws) =
     (k = l \<and> (is_redacted_key k \<and> withheld v \<and> withheld w \<or> same_public v w) \<and> same_pairs kvs lws)"
| "same_pairs _ _ = False"

lemma same_public_withheld: "same_public v w \<Longrightarrow> withheld v = withheld w"
  by (cases v; cases w) auto

lemma redact_same_public:
  "same_public v w \<Longrightarrow> redact_for_capture v = redact_for_capture w"
  "same_items xs ys \<Longrightarrow> capture_items xs = capture_items ys"
  "same_pairs kvs lws \<Longrightarrow> capture_pairs kvs out = capture_pairs lws out"
  by (induction v w and xs ys and kvs lws arbitrary: and and out rule: same_public_same_items_same_pairs.induct)
    (auto dest: same_public_withheld)

text \<open>A number, a boolean or a null under a redacted key is captured as it is, by design of
  \<open>redact_for_capture\<close>; the module docstring promises more.\<close>

lemma scalars_are_captured:
  assumes "is_redacted_key k" "\<not> withheld u"
  shows "redact_for_capture (JObj [(k, u)]) = JObj [(scrub_pii k, u)]"
  using assms by (cases u) simp_all

text \<open>C20: A capture reveals nothing of the strings and containers stored under a secret key: two
  payloads that differ only in those, at any depth, are captured as the same text (or the same
  error), whatever the byte limit. A number, a boolean or a null under such a key is kept, under
  the scrubbed key. Nothing is captured when capture is off.\<close>

theorem captures_do_not_depend_on_secrets:
  assumes "same_public v w"
  shows "capture_value fr v enabled max_bytes = capture_value fr w enabled max_bytes
    \<and> capture_value fr v False max_bytes = Inr None
    \<and> (is_redacted_key k \<and> \<not> withheld u \<longrightarrow> redact_for_capture (JObj [(k, u)]) = JObj [(scrub_pii k, u)])"
  using redact_same_public(1)[OF assms] scalars_are_captured[of k u] by (simp add: capture_value_def)

theorem captures_do_not_depend_on_secrets_witness:
  "capture_value (\<lambda>_. ''0'') (JObj [(''API-Key'', JStr ''s3cr3t''), (''n'', JInt 1)]) True 64
   = capture_value (\<lambda>_. ''0'') (JObj [(''API-Key'', JArr [JStr ''other'']), (''n'', JInt 1)]) True 64
   \<and> redact_for_capture (JObj [(''API-Key'', JStr ''s3cr3t'')]) = JObj [(''API-Key'', JStr ''[redacted]'')]"
proof -
  have k: "is_redacted_key ''API-Key''" by code_simp
  then have s: "same_public (JObj [(''API-Key'', JStr ''s3cr3t''), (''n'', JInt 1)])
      (JObj [(''API-Key'', JArr [JStr ''other'']), (''n'', JInt 1)])"
    by simp
  have "scrub_pii ''API-Key'' = ''API-Key''" by code_simp
  with k captures_do_not_depend_on_secrets[OF s] show ?thesis by (simp add: REDACTED_def)
qed

text \<open>\<open>redact_structure\<close> leaves no redacted key with another value, and is idempotent.\<close>

lemma redact_structure_idem:
  "redact_structure (redact_structure v) = redact_structure v"
  "redact_items (redact_items xs) = redact_items xs"
  "redact_pairs (redact_pairs kvs) = redact_pairs kvs"
  by (induction v and xs and kvs rule: redact_structure_redact_items_redact_pairs.induct) auto

end
