(* ===== verification/Telemetry_Types.thy ===== *)
theory Telemetry_Types
  imports Http_Types
begin

text \<open>
  The telemetry rows of \<open>layawatch/store/schema.sql\<close> (traces, observations, scores,
  log_entry, metric_rollup) and the recorder's trace object of \<open>obs/recorder.py\<close>, which is a
  trace row with its observations and scores. A column that stores JSON text (tags, meta)
  holds the JSON value it was written from.
\<close>

record observation =
  ob_id :: string
  ob_trace_id :: string
  ob_parent_id :: "string option"
  ob_name :: string
  ob_type :: string
  ob_start_ms :: pyfloat
  ob_duration_ms :: pyfloat
  ob_status :: string
  ob_model :: "string option"
  ob_input :: "string option"
  ob_output :: "string option"
  ob_meta :: "(string \<times> json) list option"

text \<open>A score value is a number, or the text of a categorical score.\<close>

record score =
  sc_id :: string
  sc_trace_id :: string
  sc_name :: string
  sc_value :: json
  sc_data_type :: string
  sc_source :: string
  sc_comment :: "string option"
  sc_ts :: pyfloat

record trace =
  tr_id :: string
  tr_ts_start :: pyfloat
  tr_duration_ms :: pyfloat
  tr_route :: string
  tr_method :: string
  tr_status :: int
  tr_model :: "string option"
  tr_route_reason :: "string option"
  tr_lang :: "string option"
  tr_queue_ms :: pyfloat
  tr_forward_ms :: "pyfloat option"
  tr_state_bytes :: "int option"
  tr_question_count :: "int option"
  tr_client_key_id :: "string option"
  tr_session_id :: "string option"
  tr_error_code :: "string option"
  tr_error_message :: "string option"
  tr_tags :: "string list"
  tr_meta :: "(string \<times> json) list"

text \<open>What the recorder hands to the writer.\<close>

record finished = trace +
  fi_observations :: "observation list"
  fi_scores :: "score list"

record log_line =
  ll_ts :: pyfloat
  ll_level :: string
  ll_source :: string
  ll_trace_id :: "string option"
  ll_message :: string

record log_row = log_line +
  lg_id :: nat

text \<open>The eight statistics of a rollup row; NULL percentiles are None.\<close>

record stats =
  sx_count :: int
  sx_sum :: pyfloat
  sx_min :: pyfloat
  sx_max :: pyfloat
  sx_p50 :: "pyfloat option"
  sx_p90 :: "pyfloat option"
  sx_p95 :: "pyfloat option"
  sx_p99 :: "pyfloat option"

text \<open>The primary key of \<open>metric_rollup\<close>.\<close>

record rollup_key =
  rk_bucket :: int
  rk_step :: int
  rk_metric :: string
  rk_model :: string
  rk_route :: string
  rk_status :: int

text \<open>The table row of a trace object.\<close>

definition trace_row :: "finished \<Rightarrow> trace" where
  "trace_row t = trace.truncate t"

end
