(* ===== verification/Logging.thy ===== *)
theory Logging
  imports Telemetry_Types
begin

text \<open>
  Models \<open>layawatch/log.py\<close>: the levels, \<open>configure\<close>, \<open>Logger._emit\<close> and the
  reads of the in-memory ring. What the registered trace provider answers (it may raise) and the
  rendering of the local time are inputs of one emission; its outputs are the entry offered to the
  sink and the line on stderr, if any. What the sink does with the entry, an exception included,
  never comes back to the caller.
\<close>

section \<open>Levels\<close>

datatype log_level = Debug | Info | Warning | Error

fun level_value :: "log_level \<Rightarrow> int" where
  "level_value Debug = 10"
| "level_value Info = 20"
| "level_value Warning = 30"
| "level_value Error = 40"

fun level_name :: "log_level \<Rightarrow> string" where
  "level_name Debug = ''debug''"
| "level_name Info = ''info''"
| "level_name Warning = ''warning''"
| "level_name Error = ''error''"

definition LEVELS :: "(string \<times> int) list" where
  "LEVELS = map (\<lambda>l. (level_name l, level_value l)) [Debug, Info, Warning, Error]"

text \<open>Levels are ordered by severity.\<close>

instantiation log_level :: linorder
begin

definition less_eq_log_level :: "log_level \<Rightarrow> log_level \<Rightarrow> bool" where
  "less_eq_log_level a b \<longleftrightarrow> level_value a \<le> level_value b"

definition less_log_level :: "log_level \<Rightarrow> log_level \<Rightarrow> bool" where
  "less_log_level a b \<longleftrightarrow> level_value a < level_value b"

instance
proof
  fix a b :: log_level
  show "a = b" if "a \<le> b" "b \<le> a"
    using that by (cases a; cases b) (simp_all add: less_eq_log_level_def)
qed (auto simp: less_eq_log_level_def less_log_level_def)

end

lemma level_lookup: "map_of LEVELS (level_name l) = Some (level_value l)"
  by (cases l) (simp_all add: LEVELS_def)

section \<open>The module state\<close>

record log_state =
  lo_min :: int
  lo_size :: nat
  lo_ring :: "log_line list"

definition initial_log :: log_state where
  "initial_log = \<lparr>lo_min = 10, lo_size = 2000, lo_ring = []\<rparr>"

text \<open>\<open>configure\<close>: the new deque is filled from the old one, oldest first.\<close>

definition configure :: "string \<Rightarrow> int \<Rightarrow> log_state \<Rightarrow> pyexc + log_state" where
  "configure level ring_size st =
     (case map_of LEVELS level of
        None \<Rightarrow> Inl ValueError
      | Some v \<Rightarrow>
          if ring_size < 100 then Inl ValueError
          else Inr \<lparr>lo_min = v, lo_size = nat ring_size,
                 lo_ring = fold (ring_push (nat ring_size)) (lo_ring st) []\<rparr>)"

definition record_entry :: "log_line \<Rightarrow> log_state \<Rightarrow> log_state" where
  "record_entry e st = st\<lparr>lo_ring := ring_push (lo_size st) e (lo_ring st)\<rparr>"

interpretation log_ring: bounded_ring lo_size lo_ring record_entry
  by unfold_locales (simp_all add: record_entry_def)

text \<open>The trace provider: none registered, or its answer, which may be an exception.\<close>

type_synonym provider = "(pyexc + string option) option"

definition provided_trace :: "provider \<Rightarrow> string option" where
  "provided_trace p = (case p of Some (Inr tid) \<Rightarrow> tid | _ \<Rightarrow> None)"

definition log_entry :: "pyfloat \<Rightarrow> provider \<Rightarrow> string \<Rightarrow> log_level \<Rightarrow> string \<Rightarrow> log_line" where
  "log_entry now p source level message =
     \<lparr>ll_ts = now, ll_level = level_name level, ll_source = source, ll_trace_id = provided_trace p, ll_message = message\<rparr>"

text \<open>\<open>_emit\<close>: the entry for the sink, the stderr line, the state.\<close>

definition emit :: "(pyfloat \<Rightarrow> string) \<Rightarrow> pyfloat \<Rightarrow> provider \<Rightarrow> string \<Rightarrow> log_level \<Rightarrow> string \<Rightarrow> log_state
    \<Rightarrow> log_line \<times> string option \<times> log_state" where
  "emit stamp now p source level message st =
     (let e = log_entry now p source level message; st' = record_entry e st in
      (e, if lo_min st' \<le> level_value level
          then Some (stamp now @ '' '' @ source @ '' '' @ message @ [CHR 10]) else None, st'))"

definition ring_entries :: "int option \<Rightarrow> log_state \<Rightarrow> log_line list" where
  "ring_entries n st = ring_snapshot n (lo_ring st)"

definition ring_clear :: "log_state \<Rightarrow> log_state" where
  "ring_clear st = st\<lparr>lo_ring := []\<rparr>"

section \<open>The ring holds the newest entries\<close>

text \<open>A message with its level, as the loggers emit it.\<close>

type_synonym message = "pyfloat \<times> provider \<times> string \<times> log_level \<times> string"

definition emit_all :: "(pyfloat \<Rightarrow> string) \<Rightarrow> message list \<Rightarrow> log_state \<Rightarrow> string list \<times> log_state" where
  "emit_all stamp ms st = fold (\<lambda>(now, p, src, l, m) (out, s).
     case emit stamp now p src l m s of (e, line, s') \<Rightarrow> (out @ (case line of None \<Rightarrow> [] | Some x \<Rightarrow> [x]), s')) ms ([], st)"

definition entry_of :: "message \<Rightarrow> log_line" where
  "entry_of = (\<lambda>(now, p, src, l, m). log_entry now p src l m)"

definition stderr_line :: "(pyfloat \<Rightarrow> string) \<Rightarrow> message \<Rightarrow> string" where
  "stderr_line stamp = (\<lambda>(now, p, src, l, m). stamp now @ '' '' @ src @ '' '' @ m @ [CHR 10])"

definition level_of :: "message \<Rightarrow> log_level" where
  "level_of = (\<lambda>(now, p, src, l, m). l)"

lemma emit_all_state:
  "emit_all stamp ms st = (map (stderr_line stamp) (filter (\<lambda>m. lo_min st \<le> level_value (level_of m)) ms),
     fold record_entry (map entry_of ms) st)"
proof -
  let ?go = "\<lambda>(now, p, src, l, m) (out, s).
     case emit stamp now p src l m s of (e, line, s') \<Rightarrow> (out @ (case line of None \<Rightarrow> [] | Some x \<Rightarrow> [x]), s')"
  have "fold ?go ms (out, st) = (out @ map (stderr_line stamp) (filter (\<lambda>m. lo_min st \<le> level_value (level_of m)) ms),
      fold record_entry (map entry_of ms) st)" for out
    by (induction ms arbitrary: out st)
      (auto simp: emit_def Let_def record_entry_def entry_of_def stderr_line_def level_of_def)
  then show ?thesis by (simp add: emit_all_def)
qed

lemma fold_ring_push: "fold (ring_push n) es [] = drop (length es - n) (es :: log_line list)"
proof -
  have "lo_ring (fold record_entry es st) = fold (ring_push (lo_size st)) es (lo_ring st)" for st
    by (induction es arbitrary: st) (simp_all add: record_entry_def)
  then show ?thesis using log_ring.items_fold[of "\<lparr>lo_min = 0, lo_size = n, lo_ring = []\<rparr>" es] by simp
qed

text \<open>After \<open>configure\<close> with a level and a size, whatever is logged: the ring holds exactly
  the newest entries of the old ring followed by everything emitted, up to the size, whatever their
  level; a read of \<open>n\<close> entries returns the newest \<open>n\<close> of those in order; and stderr got
  exactly the messages whose level is at least the configured one.\<close>

theorem log_ring_holds_the_newest:
  assumes "configure (level_name l) ring_size st = Inr st1" "emit_all stamp ms st1 = (err, st2)"
  shows "lo_ring st2 = (let everything = lo_ring st @ map entry_of ms in drop (length everything - nat ring_size) everything)
    \<and> (\<forall>n. ring_entries (Some n) st2 = (if n < 0 then lo_ring st2 else drop (length (lo_ring st2) - nat n) (lo_ring st2)))
    \<and> err = map (stderr_line stamp) (filter (\<lambda>m. l \<le> level_of m) ms)
    \<and> 100 \<le> ring_size"
proof -
  have c: "100 \<le> ring_size" "st1 = \<lparr>lo_min = level_value l, lo_size = nat ring_size,
      lo_ring = drop (length (lo_ring st) - nat ring_size) (lo_ring st)\<rparr>"
    using assms(1) by (auto simp: configure_def level_lookup fold_ring_push split: if_splits)
  have st2: "st2 = fold record_entry (map entry_of ms) st1"
    and err: "err = map (stderr_line stamp) (filter (\<lambda>m. lo_min st1 \<le> level_value (level_of m)) ms)"
    using assms(2) by (simp_all add: emit_all_state)
  have fits: "length (lo_ring st1) \<le> lo_size st1" by (simp add: c)
  have "lo_ring st2 = drop (length (lo_ring st1) + length ms - lo_size st1) (lo_ring st1 @ map entry_of ms)"
    using log_ring.items_fold[OF fits, of "map entry_of ms"] by (simp add: st2)
  also have "\<dots> = drop (length (lo_ring st) + length ms - nat ring_size) (lo_ring st @ map entry_of ms)"
    by (cases "length (lo_ring st) \<le> nat ring_size") (auto simp: c add.commute)
  finally have "lo_ring st2 = (let everything = lo_ring st @ map entry_of ms in drop (length everything - nat ring_size) everything)"
    by (simp add: Let_def)
  moreover have "err = map (stderr_line stamp) (filter (\<lambda>m. l \<le> level_of m) ms)"
    by (simp add: err c less_eq_log_level_def)
  ultimately show ?thesis using c(1) by (simp add: ring_entries_def ring_snapshot_drop del: drop_drop)
qed

definition demo_messages :: "message list" where
  "demo_messages = [(1, None, ''server'', Info, ''up''), (2, Some (Inl RuntimeError), ''server'', Error, ''down'')]"

theorem log_ring_holds_the_newest_witness:
  "\<exists>st1. configure ''warning'' 100 initial_log = Inr st1
     \<and> fst (emit_all (\<lambda>_. ''t'') demo_messages st1) = [''t server down'' @ [CHR 10]]
     \<and> map ll_message (lo_ring (snd (emit_all (\<lambda>_. ''t'') demo_messages st1))) = [''up'', ''down'']"
proof -
  obtain st1 where c: "configure (level_name Warning) 100 initial_log = Inr st1" by (auto simp: configure_def LEVELS_def)
  obtain err st2 where e: "emit_all (\<lambda>_. ''t'') demo_messages st1 = (err, st2)" by (meson surj_pair)
  from log_ring_holds_the_newest[OF c e] have "err = [''t server down'' @ [CHR 10]]" "map ll_message (lo_ring st2) = [''up'', ''down'']"
    by (simp_all add: demo_messages_def initial_log_def less_eq_log_level_def level_of_def stderr_line_def entry_of_def log_entry_def)
  with c e show ?thesis by simp
qed

end
