(* ===== verification/Database.thy ===== *)
theory Database
  imports Telemetry_Types
begin

text \<open>
  The database: the identity tables of \<open>layawatch/store/schema.sql\<close> (users, sessions, api_keys with the
  rotation columns of migration 0002, settings, audit_log) and the telemetry tables, rows in
  insertion (rowid) order, and the
  transaction discipline of a connection: statements change the working copy, \<open>commit\<close>
  publishes it, and \<open>close\<close> (\<open>_CachedConnection.close\<close> in \<open>store/db.py\<close>) rolls back
  whatever was not committed. Also \<open>auth/audit.py\<close>, the same-transaction audit row.
  Integer flag columns holding 0 or 1 are booleans.
\<close>

record user =
  us_id :: string
  us_email :: string
  us_name :: string
  us_role :: string
  us_password_hash :: string
  us_created_at :: pyfloat
  us_last_login_at :: "pyfloat option"
  us_disabled :: bool
  us_must_change :: bool

record session =
  se_id :: string
  se_user_id :: string
  se_created_at :: pyfloat
  se_expires_at :: pyfloat
  se_last_seen :: pyfloat
  se_user_agent :: "string option"
  se_ip :: "string option"
  se_revoked :: bool

record api_key =
  ak_id :: string
  ak_name :: string
  ak_prefix :: string
  ak_hash :: string
  ak_created_at :: pyfloat
  ak_last_used :: "pyfloat option"
  ak_revoked_at :: "pyfloat option"
  ak_request_count :: int
  ak_rate_limit :: "int option"
  ak_burst :: "int option"
  ak_prev_hash :: "string option"
  ak_prev_prefix :: "string option"
  ak_prev_expires_at :: "pyfloat option"

record setting =
  st_value :: string
  st_updated_at :: pyfloat
  st_updated_by :: "string option"

record audit_row =
  au_id :: nat
  au_ts :: pyfloat
  au_actor_id :: "string option"
  au_actor :: string
  au_action :: string
  au_target :: "string option"
  au_result :: string
  au_meta :: "json option"

record db =
  db_users :: "user list"
  db_sessions :: "session list"
  db_keys :: "api_key list"
  db_settings :: "(string \<times> setting) list"
  db_audit :: "audit_row list"
  db_traces :: "trace list"
  db_observations :: "observation list"
  db_scores :: "score list"
  db_logs :: "log_row list"
  db_log_seq :: nat
  db_rollups :: "(rollup_key \<times> stats) list"

definition empty_db :: db where
  "empty_db = \<lparr>db_users = [], db_sessions = [], db_keys = [], db_settings = [], db_audit = [],
     db_traces = [], db_observations = [], db_scores = [], db_logs = [], db_log_seq = 0, db_rollups = []\<rparr>"

section \<open>Connections\<close>

record conn =
  cn_committed :: db
  cn_work :: db

text \<open>
  \<open>connect\<close> hands every caller of a thread the same cached handle, so a nested
  \<open>connect .. close\<close> closes the handle of the caller too. The record is extended by the
  in-memory state of the component that runs over a connection.
\<close>

type_synonym ('z, 'a) prog = "(exn, 'z conn_scheme, 'a) act"

definition conn_open :: "db \<Rightarrow> conn" where
  "conn_open d = \<lparr>cn_committed = d, cn_work = d\<rparr>"

definition conn_close :: "'z conn_scheme \<Rightarrow> 'z conn_scheme" where
  "conn_close c = c\<lparr>cn_work := cn_committed c\<rparr>"

definition db_exec :: "(db \<Rightarrow> db) \<Rightarrow> ('z, unit) prog" where
  "db_exec f = act_modify (\<lambda>c. c\<lparr>cn_work := f (cn_work c)\<rparr>)"

definition db_query :: "(db \<Rightarrow> 'a) \<Rightarrow> ('z, 'a) prog" where
  "db_query g = act_get (\<lambda>c. g (cn_work c))"

definition db_commit :: "('z, unit) prog" where
  "db_commit = act_modify (\<lambda>c. c\<lparr>cn_committed := cn_work c\<rparr>)"

text \<open>\<open>conn = connect(path)\<close>, the body, and \<open>conn.close()\<close> in \<open>finally\<close>.\<close>

definition with_conn :: "('z, 'a) prog \<Rightarrow> ('z, 'a) prog" where
  "with_conn p = act_finally p conn_close"

text \<open>Between requests a handle holds no open work.\<close>

definition conn_idle :: "'z conn_scheme \<Rightarrow> bool" where
  "conn_idle c \<longleftrightarrow> cn_work c = cn_committed c"

lemma db_exec_run [act_simps]: "act_bind (db_exec f) k c = k () (c\<lparr>cn_work := f (cn_work c)\<rparr>)"
  by (simp add: db_exec_def act_simps)

lemma db_exec_end [act_simps]: "db_exec f c = (Inr (), c\<lparr>cn_work := f (cn_work c)\<rparr>)"
  by (simp add: db_exec_def act_simps)

lemma db_query_run [act_simps]: "act_bind (db_query g) k c = k (g (cn_work c)) c"
  by (simp add: db_query_def act_simps)

lemma db_commit_run [act_simps]: "act_bind db_commit k c = k () (c\<lparr>cn_committed := cn_work c\<rparr>)"
  by (simp add: db_commit_def act_simps)

lemma db_commit_end [act_simps]: "db_commit c = (Inr (), c\<lparr>cn_committed := cn_work c\<rparr>)"
  by (simp add: db_commit_def act_simps)

lemma with_conn_run: "with_conn p c = (fst (p c), conn_close (snd (p c)))"
  by (simp add: with_conn_def act_finally_def split: prod.splits)

lemma conn_close_simps [simp]:
  "cn_committed (conn_close c) = cn_committed c"
  "cn_work (conn_close c) = cn_committed c"
  "conn_idle (conn_close c)"
  by (simp_all add: conn_close_def conn_idle_def)

lemma with_conn_idle: "conn_idle (snd (with_conn p c))"
  by (simp add: with_conn_run)

lemma conn_close_idle [simp]: "conn_idle c \<Longrightarrow> conn_close c = c"
  by (simp add: conn_close_def conn_idle_def)

lemma conn_open_simps [simp]: "cn_committed (conn_open d) = d" "cn_work (conn_open d) = d"
  by (simp_all add: conn_open_def)

section \<open>The audit row\<close>

definition audit_entry :: "pyfloat \<Rightarrow> string \<Rightarrow> string \<Rightarrow> string option \<Rightarrow> string option \<Rightarrow> string
    \<Rightarrow> json option \<Rightarrow> db \<Rightarrow> db" where
  "audit_entry now actor action actor_id target result meta d =
     d\<lparr>db_audit := db_audit d @
       [\<lparr>au_id = Suc (length (db_audit d)), au_ts = now, au_actor_id = actor_id, au_actor = actor,
         au_action = action, au_target = target, au_result = result, au_meta = meta\<rparr>]\<rparr>"

text \<open>\<open>audit\<close>: one row in the caller's transaction, no commit.\<close>

definition audit :: "pyfloat \<Rightarrow> string \<Rightarrow> string \<Rightarrow> string option \<Rightarrow> string option \<Rightarrow> string
    \<Rightarrow> json option \<Rightarrow> ('z, unit) prog" where
  "audit now actor action actor_id target result meta =
     db_exec (audit_entry now actor action actor_id target result meta)"

lemma audit_entry_simps [simp]:
  "db_users (audit_entry t a b c e f g d) = db_users d"
  "db_sessions (audit_entry t a b c e f g d) = db_sessions d"
  "db_keys (audit_entry t a b c e f g d) = db_keys d"
  "db_settings (audit_entry t a b c e f g d) = db_settings d"
  "db_traces (audit_entry t a b c e f g d) = db_traces d"
  "db_observations (audit_entry t a b c e f g d) = db_observations d"
  "db_scores (audit_entry t a b c e f g d) = db_scores d"
  "db_logs (audit_entry t a b c e f g d) = db_logs d"
  "db_log_seq (audit_entry t a b c e f g d) = db_log_seq d"
  "db_rollups (audit_entry t a b c e f g d) = db_rollups d"
  by (simp_all add: audit_entry_def)

lemma audit_run [act_simps]:
  "act_bind (audit t a b i tg r m) k c = k () (c\<lparr>cn_work := audit_entry t a b i tg r m (cn_work c)\<rparr>)"
  by (simp add: audit_def act_simps)

section \<open>Settings rows\<close>

text \<open>\<open>INSERT ... ON CONFLICT(key) DO UPDATE\<close>\<close>

definition put_setting :: "string \<Rightarrow> string \<Rightarrow> pyfloat \<Rightarrow> string option \<Rightarrow> db \<Rightarrow> db" where
  "put_setting key value now who d =
     d\<lparr>db_settings := dict_set key \<lparr>st_value = value, st_updated_at = now, st_updated_by = who\<rparr>
        (db_settings d)\<rparr>"

definition get_setting :: "string \<Rightarrow> db \<Rightarrow> string option" where
  "get_setting key d = map_option st_value (map_of (db_settings d) key)"

lemma get_put_setting [simp]:
  "get_setting k (put_setting k' v t b d) = (if k = k' then Some v else get_setting k d)"
  by (simp add: get_setting_def put_setting_def)

lemma put_setting_simps [simp]:
  "db_users (put_setting k v t b d) = db_users d"
  "db_sessions (put_setting k v t b d) = db_sessions d"
  "db_keys (put_setting k v t b d) = db_keys d"
  "db_audit (put_setting k v t b d) = db_audit d"
  by (simp_all add: put_setting_def)

lemma get_setting_audit [simp]: "get_setting k (audit_entry t a b c e f g d) = get_setting k d"
  by (simp add: get_setting_def)

section \<open>Programs that keep a property of the database\<close>

text \<open>
  An invariant of the database is kept by a program when it holds of the committed state
  and of the open work after every run, whatever the outcome. The rules follow the
  combinators, so a handler is checked along its own structure.
\<close>

definition conn_inv :: "(db \<Rightarrow> bool) \<Rightarrow> 'z conn_scheme \<Rightarrow> bool" where
  "conn_inv I c \<longleftrightarrow> I (cn_committed c) \<and> I (cn_work c)"

definition keeps :: "(db \<Rightarrow> bool) \<Rightarrow> ('z, 'a) prog \<Rightarrow> bool" where
  "keeps I p \<longleftrightarrow> (\<forall>c. conn_inv I c \<longrightarrow> conn_inv I (snd (p c)))"

named_theorems keeps_rules \<open>the combinators keep an invariant of the database\<close>

lemma keepsD: "keeps I p \<Longrightarrow> conn_inv I c \<Longrightarrow> conn_inv I (snd (p c))"
  by (simp add: keeps_def)

lemma keeps_return [keeps_rules]: "keeps I (act_return a)"
  by (simp add: keeps_def act_simps)

lemma keeps_raise [keeps_rules]: "keeps I (act_raise e)"
  by (simp add: keeps_def act_simps)

lemma keeps_lift [keeps_rules]: "keeps I (act_lift r)"
  by (simp add: keeps_def act_simps)

lemma keeps_query [keeps_rules]: "keeps I (db_query g)"
  by (simp add: keeps_def db_query_def act_simps)

lemma keeps_commit [keeps_rules]: "keeps I db_commit"
  by (simp add: keeps_def conn_inv_def act_simps)

lemma keeps_exec: "(\<And>d. I d \<Longrightarrow> I (f d)) \<Longrightarrow> keeps I (db_exec f)"
  by (simp add: keeps_def conn_inv_def act_simps)

lemma keeps_audit:
  "(\<And>d r. I d \<Longrightarrow> I (d\<lparr>db_audit := r\<rparr>)) \<Longrightarrow> keeps I (audit t a b i tg r m)"
  by (simp add: audit_def keeps_exec audit_entry_def)

lemma keeps_bind [keeps_rules]:
  assumes "keeps I m" "\<And>a. keeps I (f a)"
  shows "keeps I (act_bind m f)"
  unfolding keeps_def
proof (intro allI impI)
  fix c :: "'a conn_scheme"
  assume c: "conn_inv I c"
  obtain r t where m: "m c = (r, t)" by (cases "m c")
  with keepsD[OF assms(1) c] have t: "conn_inv I t" by simp
  show "conn_inv I (snd (act_bind m f c))"
    using keepsD[OF assms(2) t] t by (cases r) (simp_all add: act_bind_def m)
qed

lemma keeps_query_bind: "(\<And>c. conn_inv I c \<Longrightarrow> conn_inv I (snd (f (g (cn_work c)) c)))
   \<Longrightarrow> keeps I (act_bind (db_query g) f)"
  by (simp add: keeps_def act_simps)

lemma keeps_when [keeps_rules]: "(b \<Longrightarrow> keeps I m) \<Longrightarrow> keeps I (act_when b m)"
  by (simp add: act_when_def keeps_return)

lemma keeps_if [keeps_rules]: "\<lbrakk>b \<Longrightarrow> keeps I p; \<not> b \<Longrightarrow> keeps I q\<rbrakk> \<Longrightarrow> keeps I (if b then p else q)"
  by simp

lemma keeps_option [keeps_rules]:
  "\<lbrakk>keeps I p; \<And>a. keeps I (q a)\<rbrakk> \<Longrightarrow> keeps I (case r of None \<Rightarrow> p | Some a \<Rightarrow> q a)"
  by (cases r) simp_all

lemma keeps_with_conn [keeps_rules]: "keeps I p \<Longrightarrow> keeps I (with_conn p)"
  by (simp add: keeps_def with_conn_run conn_inv_def)

end
