(* ===== verification/Rollup.thy ===== *)
theory Rollup
  imports Telemetry_Types "HOL-Library.Multiset"
begin

text \<open>
  Models \<open>layawatch/obs/rollup.py\<close>: bucket alignment, the nearest-rank percentile, the
  summary of a sample and the merge of child summaries. A summary is a \<^typ>\<open>stats\<close> whose
  percentiles are present; \<open>stat_p\<close> reads one of them.
\<close>

definition ROLLUP_STEPS :: "int list" where
  "ROLLUP_STEPS = [10, 60, 3600]"

definition bucket_of :: "pyfloat \<Rightarrow> int \<Rightarrow> int" where
  "bucket_of ts step = \<lfloor>ts / of_int step\<rfloor> * step"

definition floor_bucket :: "pyfloat \<Rightarrow> int \<Rightarrow> exn + int" where
  "floor_bucket ts step =
     (if step \<notin> set ROLLUP_STEPS then Inl (PyExc ValueError) else Inr (bucket_of ts step))"

section \<open>Percentiles\<close>

definition nearest_rank :: "pyfloat list \<Rightarrow> pyfloat \<Rightarrow> pyfloat" where
  "nearest_rank values q =
     (if values = [] then 0 else sort values ! (nat \<lceil>q * of_nat (length values)\<rceil> - 1))"

definition percentile :: "pyfloat list \<Rightarrow> pyfloat \<Rightarrow> exn + pyfloat" where
  "percentile values q =
     (if \<not> (0 < q \<and> q \<le> 1) then Inl (PyExc ValueError) else Inr (nearest_rank values q))"

definition py_min :: "pyfloat list \<Rightarrow> pyfloat" where
  "py_min xs = (case xs of [] \<Rightarrow> 0 | y # ys \<Rightarrow> fold min ys y)"

definition py_max :: "pyfloat list \<Rightarrow> pyfloat" where
  "py_max xs = (case xs of [] \<Rightarrow> 0 | y # ys \<Rightarrow> fold max ys y)"

definition zero_stats :: stats where
  "zero_stats = \<lparr>sx_count = 0, sx_sum = 0, sx_min = 0, sx_max = 0,
     sx_p50 = Some 0, sx_p90 = Some 0, sx_p95 = Some 0, sx_p99 = Some 0\<rparr>"

definition summarize :: "pyfloat list \<Rightarrow> stats" where
  "summarize values =
     (if values = [] then zero_stats
      else \<lparr>sx_count = int (length values), sx_sum = sum_list values,
            sx_min = py_min values, sx_max = py_max values,
            sx_p50 = Some (nearest_rank values (1/2)), sx_p90 = Some (nearest_rank values (9/10)),
            sx_p95 = Some (nearest_rank values (95/100)), sx_p99 = Some (nearest_rank values (99/100))\<rparr>)"

section \<open>Merging\<close>

definition stat_p :: "pyfloat option \<Rightarrow> pyfloat" where
  "stat_p x = (case x of None \<Rightarrow> 0 | Some v \<Rightarrow> v)"

text \<open>The rows of a non-zero count contribute extremes and weighted percentiles.\<close>

definition weighted_p :: "(stats \<Rightarrow> pyfloat option) \<Rightarrow> stats list \<Rightarrow> pyfloat" where
  "weighted_p p rows =
     (let count = sum_list (map sx_count rows) in
      if count = 0 then 0
      else sum_list (map (\<lambda>r. stat_p (p r) * of_int (sx_count r)) (filter (\<lambda>r. sx_count r \<noteq> 0) rows)) / of_int count)"

definition merge_rows :: "stats list \<Rightarrow> stats" where
  "merge_rows rows =
     (let live = filter (\<lambda>r. sx_count r \<noteq> 0) rows in
      \<lparr>sx_count = sum_list (map sx_count rows), sx_sum = sum_list (map sx_sum rows),
       sx_min = py_min (map sx_min live), sx_max = py_max (map sx_max live),
       sx_p50 = Some (weighted_p sx_p50 rows), sx_p90 = Some (weighted_p sx_p90 rows),
       sx_p95 = Some (weighted_p sx_p95 rows), sx_p99 = Some (weighted_p sx_p99 rows)\<rparr>)"

section \<open>The extremes of a sample\<close>

lemma py_min_Min: "xs \<noteq> [] \<Longrightarrow> py_min xs = Min (set xs)"
  by (cases xs) (simp_all add: py_min_def Min.set_eq_fold[symmetric])

lemma py_max_Max: "xs \<noteq> [] \<Longrightarrow> py_max xs = Max (set xs)"
  by (cases xs) (simp_all add: py_max_def Max.set_eq_fold[symmetric])

lemma py_min_le: "x \<in> set xs \<Longrightarrow> py_min xs \<le> x"
  by (cases "xs = []") (simp_all add: py_min_Min)

lemma py_max_ge: "x \<in> set xs \<Longrightarrow> x \<le> py_max xs"
  by (cases "xs = []") (simp_all add: py_max_Max)

lemma py_min_parts:
  assumes "\<forall>p \<in> set parts. p \<noteq> []"
  shows "py_min (map py_min parts) = py_min (concat parts)"
proof (cases "parts = []")
  case False
  have ne: "concat parts \<noteq> []" using False assms by (cases parts) auto
  have "Min (py_min ` set parts) = Min (\<Union>p \<in> set parts. set p)"
  proof (rule antisym)
    show "Min (py_min ` set parts) \<le> Min (\<Union>p \<in> set parts. set p)"
      using ne by (intro Min.boundedI) (auto intro!: Min_le_iff[THEN iffD2] dest: py_min_le)
    show "Min (\<Union>p \<in> set parts. set p) \<le> Min (py_min ` set parts)"
      using False assms by (intro Min.boundedI) (auto simp: py_min_Min intro!: Min_antimono)
  qed
  then show ?thesis using False ne by (simp add: py_min_Min)
qed simp

lemma py_max_parts:
  assumes "\<forall>p \<in> set parts. p \<noteq> []"
  shows "py_max (map py_max parts) = py_max (concat parts)"
proof (cases "parts = []")
  case False
  have ne: "concat parts \<noteq> []" using False assms by (cases parts) auto
  have "Max (py_max ` set parts) = Max (\<Union>p \<in> set parts. set p)"
  proof (rule antisym)
    show "Max (\<Union>p \<in> set parts. set p) \<le> Max (py_max ` set parts)"
      using ne by (intro Max.boundedI) (auto intro!: Max_ge_iff[THEN iffD2] dest: py_max_ge)
    show "Max (py_max ` set parts) \<le> Max (\<Union>p \<in> set parts. set p)"
      using False assms by (intro Max.boundedI) (auto simp: py_max_Max intro!: Max_mono)
  qed
  then show ?thesis using False ne by (simp add: py_max_Max)
qed simp


section \<open>The percentile is a nearest rank\<close>

lemma rank_index:
  fixes q :: rat
  assumes "values \<noteq> []" "0 < q" "q \<le> 1"
  shows "nat \<lceil>q * of_nat (length values)\<rceil> - 1 < length values"
    "Suc (nat \<lceil>q * of_nat (length values)\<rceil> - 1) = nat \<lceil>q * of_nat (length values)\<rceil>"
proof -
  let ?n = "of_nat (length values) :: rat"
  have n: "0 < ?n" using assms(1) by simp
  have "q * ?n \<le> 1 * ?n" using assms(3) by (rule mult_right_mono) simp
  then have le: "\<lceil>q * ?n\<rceil> \<le> int (length values)" by (simp add: ceiling_le_iff)
  have "0 < q * ?n" using assms(2) n by (rule mult_pos_pos)
  then have pos: "0 < \<lceil>q * ?n\<rceil>" by simp
  show "nat \<lceil>q * ?n\<rceil> - 1 < length values" "Suc (nat \<lceil>q * ?n\<rceil> - 1) = nat \<lceil>q * ?n\<rceil>"
    using le pos by linarith+
qed

lemma sorted_rank_le:
  assumes "sorted xs" "i < length xs"
  shows "Suc i \<le> length (filter (\<lambda>x. x \<le> xs ! i) xs)"
proof -
  have "\<forall>x \<in> set (take (Suc i) xs). x \<le> xs ! i"
    using assms by (auto simp: set_conv_nth less_Suc_eq_le sorted_nth_mono)
  then have "filter (\<lambda>x. x \<le> xs ! i) (take (Suc i) xs) = take (Suc i) xs" by (simp add: filter_id_conv)
  then have "length (take (Suc i) xs) \<le> length (filter (\<lambda>x. x \<le> xs ! i) (take (Suc i) xs @ drop (Suc i) xs))"
    by (simp only: filter_append length_append)
  with assms(2) show ?thesis by simp
qed

lemma sorted_rank_less:
  assumes "sorted xs" "i < length xs"
  shows "length (filter (\<lambda>x. x < xs ! i) xs) \<le> i"
proof -
  have "\<forall>x \<in> set (drop i xs). \<not> x < xs ! i"
    using assms by (auto simp: set_conv_nth not_less sorted_nth_mono)
  then have "filter (\<lambda>x. x < xs ! i) (drop i xs) = []" by (simp add: filter_empty_conv)
  then have "filter (\<lambda>x. x < xs ! i) (take i xs @ drop i xs) = filter (\<lambda>x. x < xs ! i) (take i xs)"
    by (simp only: filter_append) simp
  moreover have "length (filter (\<lambda>x. x < xs ! i) (take i xs)) \<le> length (take i xs)" by (rule length_filter_le)
  ultimately show ?thesis by simp
qed

lemma length_filter_sort: "length (filter P (sort xs)) = length (filter P (xs :: 'a :: linorder list))"
  by (metis mset_filter mset_sort size_mset)

text \<open>The percentile of a non-empty sample is one of its values: at least \<open>q * n\<close> of the \<open>n\<close>
  values are at or below it, and fewer than \<open>q * n\<close> are strictly below it. A quantile outside
  (0, 1] is refused.\<close>

theorem percentile_is_nearest_rank:
  assumes "values \<noteq> []"
  shows "if 0 < q \<and> q \<le> 1
    then (\<exists>v. percentile values q = Inr v \<and> v \<in> set values
      \<and> q * of_nat (length values) \<le> of_nat (length (filter (\<lambda>x. x \<le> v) values))
      \<and> of_nat (length (filter (\<lambda>x. x < v) values)) < q * of_nat (length values))
    else percentile values q = Inl (PyExc ValueError)"
proof (cases "0 < q \<and> q \<le> 1")
  case True
  let ?c = "\<lceil>q * of_nat (length values)\<rceil>" and ?i = "nat \<lceil>q * of_nat (length values)\<rceil> - 1"
  let ?v = "sort values ! ?i"
  note ri = rank_index[OF assms, of q]
  have i: "?i < length (sort values)" and si: "Suc ?i = nat ?c" using ri True by auto
  have v: "percentile values q = Inr ?v" using assms True by (simp add: percentile_def nearest_rank_def)
  have mem: "?v \<in> set values" using nth_mem[OF i] by simp
  have "q * of_nat (length values) \<le> of_int ?c" by (rule le_of_int_ceiling)
  moreover have c: "of_int ?c = (of_nat (Suc ?i) :: rat)" using si by (metis i le_numeral_extra(3) nat_eq_iff2 of_int_of_nat_eq of_nat_0_le_iff old.nat.distinct(2))
  ultimately have "q * of_nat (length values) \<le> of_nat (Suc ?i)" by (simp only: c)
  moreover have "Suc ?i \<le> length (filter (\<lambda>x. x \<le> ?v) values)"
    using sorted_rank_le[OF sorted_sort i] by (simp add: length_filter_sort)
  ultimately have hi: "q * of_nat (length values) \<le> of_nat (length (filter (\<lambda>x. x \<le> ?v) values))"
    by (meson of_nat_mono order.trans)
  have "of_int ?c - 1 < q * of_nat (length values)" by linarith
  then have "of_nat ?i < q * of_nat (length values)" unfolding c by (simp only: of_nat_Suc add_diff_cancel_left')
  moreover have "length (filter (\<lambda>x. x < ?v) values) \<le> ?i"
    using sorted_rank_less[OF sorted_sort i] by (simp add: length_filter_sort)
  ultimately have "of_nat (length (filter (\<lambda>x. x < ?v) values)) < q * of_nat (length values)"
    by (meson of_nat_mono order.strict_trans1)
  with True v mem hi show ?thesis by auto
next
  case False
  then show ?thesis by (auto simp: percentile_def)
qed

theorem percentile_is_nearest_rank_witness:
  "\<exists>v. percentile [30, 10, 20] (1/2) = Inr v \<and> v \<in> {10, 20, 30}
     \<and> 3/2 \<le> (of_nat (length (filter (\<lambda>x. x \<le> v) [30, 10, 20])) :: rat)"
proof -
  have t: "0 < (1/2 :: rat) \<and> (1/2 :: rat) \<le> 1" and ne: "[30, 10, 20 :: rat] \<noteq> []" by simp_all
  obtain v where v: "percentile [30, 10, 20] (1/2) = Inr v" "v \<in> set [30, 10, 20]"
    and le: "1/2 * of_nat (length [30, 10, 20 :: rat]) \<le> (of_nat (length (filter (\<lambda>x. x \<le> v) [30, 10, 20])) :: rat)"
    using percentile_is_nearest_rank[OF ne, of "1/2", unfolded if_P[OF t]] by blast
  have "v \<in> {10, 20, 30}" using v(2) by auto
  moreover have "3/2 \<le> (of_nat (length (filter (\<lambda>x. x \<le> v) [30, 10, 20])) :: rat)" using le by simp
  ultimately show ?thesis using v(1) by blast
qed

section \<open>Merged summaries\<close>

lemma nearest_rank_bounds:
  assumes "values \<noteq> []" "0 < q" "q \<le> 1"
  shows "py_min values \<le> nearest_rank values q \<and> nearest_rank values q \<le> py_max values"
proof -
  have "nearest_rank values q \<in> set values"
    using rank_index(1)[OF assms] assms(1) nth_mem[of _ "sort values"] by (simp add: nearest_rank_def)
  then show ?thesis by (simp add: py_min_le py_max_ge)
qed

text \<open>A weighted average of values between two bounds is between them.\<close>

lemma sum_list_pos: "xs \<noteq> [] \<Longrightarrow> (\<And>x. x \<in> set xs \<Longrightarrow> 0 < w x) \<Longrightarrow> 0 < sum_list (map w xs)"
  for w :: "'a \<Rightarrow> rat"
  by (induction xs rule: list_nonempty_induct) (auto intro: add_pos_pos)

lemma average_between:
  fixes f w :: "'a \<Rightarrow> rat"
  assumes "\<And>x. x \<in> set xs \<Longrightarrow> 0 < w x \<and> lo \<le> f x \<and> f x \<le> hi" "xs \<noteq> []"
  shows "lo \<le> sum_list (map (\<lambda>x. f x * w x) xs) / sum_list (map w xs)
       \<and> sum_list (map (\<lambda>x. f x * w x) xs) / sum_list (map w xs) \<le> hi"
proof -
  have "lo * sum_list (map w xs) \<le> sum_list (map (\<lambda>x. f x * w x) xs)
      \<and> sum_list (map (\<lambda>x. f x * w x) xs) \<le> hi * sum_list (map w xs)"
    using assms(1)
  proof (induction xs)
    case (Cons x xs)
    then have "lo * w x \<le> f x * w x" "f x * w x \<le> hi * w x" by (auto intro: mult_right_mono less_imp_le)
    with Cons show ?case by (auto simp: distrib_left intro: add_mono)
  qed simp
  moreover have "0 < sum_list (map w xs)"
    using assms by (intro sum_list_pos) auto
  ultimately show ?thesis by (simp add: pos_le_divide_eq pos_divide_le_eq)
qed

lemma summarize_count_zero [simp]: "sx_count (summarize p) = 0 \<longleftrightarrow> p = []"
  by (simp add: summarize_def zero_stats_def)

lemma summarize_simps:
  "sx_count (summarize p) = int (length p)" "sx_sum (summarize p) = sum_list p"
  "p \<noteq> [] \<Longrightarrow> sx_min (summarize p) = py_min p" "p \<noteq> [] \<Longrightarrow> sx_max (summarize p) = py_max p"
  by (simp_all add: summarize_def zero_stats_def)

lemma live_parts:
  "filter (\<lambda>r. sx_count r \<noteq> 0) (map summarize parts) = map summarize (filter (\<lambda>p. p \<noteq> []) parts)"
  by (simp add: filter_map comp_def)

lemma concat_live: "concat (filter (\<lambda>p. p \<noteq> []) parts) = concat parts"
  by (induction parts) auto

lemma sum_lengths: "sum_list (map (\<lambda>p. int (length p)) parts) = int (length (concat parts))"
  by (induction parts) auto

lemma sum_sums: "sum_list (map sum_list parts) = sum_list (concat (parts :: rat list list))"
  by (induction parts) auto

text \<open>One percentile of the merge lies between the extremes of the whole sample.\<close>

lemma weighted_p_bounds:
  assumes q: "0 < q" "q \<le> 1" and p: "\<And>v. v \<noteq> [] \<Longrightarrow> p (summarize v) = Some (nearest_rank v q)"
    and ne: "concat parts \<noteq> []"
  shows "py_min (concat parts) \<le> weighted_p p (map summarize parts)
       \<and> weighted_p p (map summarize parts) \<le> py_max (concat parts)"
proof -
  let ?live = "filter (\<lambda>v. v \<noteq> []) parts"
  let ?f = "\<lambda>v. nearest_rank v q" and ?w = "\<lambda>v. of_nat (length v) :: rat"
  have live: "?live \<noteq> []" using ne by (auto simp: filter_empty_conv)
  have total: "sum_list (map sx_count (map summarize parts)) = int (length (concat parts))"
    by (simp add: comp_def summarize_simps sum_lengths)
  have w: "of_nat (length (concat parts)) = sum_list (map ?w ?live)"
    using concat_live[of parts] by (induction parts) auto
  have num: "map (\<lambda>r. stat_p (p r) * of_int (sx_count r)) (map summarize ?live) = map (\<lambda>v. ?f v * ?w v) ?live"
    by (auto simp: p stat_p_def summarize_simps)
  have "weighted_p p (map summarize parts) = sum_list (map (\<lambda>v. ?f v * ?w v) ?live) / sum_list (map ?w ?live)"
    using ne by (simp only: weighted_p_def Let_def total live_parts num) (simp add: w)
  moreover have "py_min (concat parts) \<le> ?f v \<and> ?f v \<le> py_max (concat parts) \<and> 0 < ?w v" if "v \<in> set ?live" for v
  proof -
    have v: "v \<noteq> []" "v \<in> set parts" using that by auto
    have "py_min (concat parts) \<le> a" "a \<le> py_max (concat parts)" if "a \<in> set v" for a
      using that v by (auto intro!: py_min_le py_max_ge)
    then have "py_min (concat parts) \<le> py_min v" "py_max v \<le> py_max (concat parts)"
      using v by (simp_all add: py_min_Min py_max_Max)
    with nearest_rank_bounds[OF v(1) q] v(1) show ?thesis by auto
  qed
  ultimately show ?thesis using average_between[of ?live ?w _ ?f, OF _ live] by auto
qed

text \<open>Merging the summaries of the parts of a sample gives the count, sum, minimum and maximum of
  the whole sample exactly, and four percentiles that lie between its minimum and its maximum.\<close>

theorem merge_rows_of_parts:
  "let m = merge_rows (map summarize parts); s = summarize (concat parts) in
     sx_count m = sx_count s \<and> sx_sum m = sx_sum s \<and> sx_min m = sx_min s \<and> sx_max m = sx_max s
   \<and> list_all (\<lambda>p. sx_min s \<le> stat_p p \<and> stat_p p \<le> sx_max s) [sx_p50 m, sx_p90 m, sx_p95 m, sx_p99 m]"
proof (cases "concat parts = []")
  case True
  then have z: "filter (\<lambda>p. p \<noteq> []) parts = []" by (auto simp: filter_empty_conv)
  have t: "sum_list (map sx_count (map summarize parts)) = 0" "sum_list (map sx_sum (map summarize parts)) = 0"
    using sum_lengths[of parts] sum_sums[of parts] True by (simp_all add: comp_def summarize_simps)
  show ?thesis
    unfolding Let_def merge_rows_def live_parts z weighted_p_def
    using t True by (simp add: summarize_def zero_stats_def py_min_def py_max_def stat_p_def)
next
  case False
  let ?live = "filter (\<lambda>p. p \<noteq> []) parts"
  have c: "sum_list (map sx_count (map summarize parts)) = int (length (concat parts))"
    "sum_list (map sx_sum (map summarize parts)) = sum_list (concat parts)"
    by (simp_all add: comp_def summarize_simps sum_lengths sum_sums)
  have m: "map sx_min (map summarize ?live) = map py_min ?live" "map sx_max (map summarize ?live) = map py_max ?live"
    by (auto simp: summarize_simps)
  have ext: "py_min (map py_min ?live) = py_min (concat parts)" "py_max (map py_max ?live) = py_max (concat parts)"
    using py_min_parts[of ?live] py_max_parts[of ?live] by (auto simp: concat_live)
  have p: "sx_p50 (summarize v) = Some (nearest_rank v (1/2))" "sx_p90 (summarize v) = Some (nearest_rank v (9/10))"
    "sx_p95 (summarize v) = Some (nearest_rank v (95/100))" "sx_p99 (summarize v) = Some (nearest_rank v (99/100))"
    if "v \<noteq> []" for v using that by (simp_all add: summarize_def)
  have some: "stat_p (Some x) = x" for x by (simp add: stat_p_def)
  show ?thesis
    unfolding Let_def merge_rows_def live_parts m ext c
    using weighted_p_bounds[OF _ _ p(1) False] weighted_p_bounds[OF _ _ p(2) False]
      weighted_p_bounds[OF _ _ p(3) False] weighted_p_bounds[OF _ _ p(4) False] False
    by (simp add: summarize_simps some del: map_map)
qed

end
