(* ===== verification/Trace_Store.thy ===== *)
theory Trace_Store
  imports Database Rollup
begin

text \<open>
  The write helpers and point reads of \<open>layawatch/store/queries.py\<close> over the telemetry
  tables: inserts with their primary and foreign keys, the rollup row arithmetic
  (\<open>counter_stats\<close>, \<open>merge_stats\<close>, \<open>upsert_rollup\<close>), tag update and the cascading
  delete. An SQLite constraint failure is the \<open>IntegrityError\<close> branch.
\<close>

section \<open>Inserts\<close>

definition insert_traces :: "finished list \<Rightarrow> db \<Rightarrow> exn + db" where
  "insert_traces ts d =
     (if distinct (map tr_id (db_traces d) @ map tr_id ts)
      then Inr (d\<lparr>db_traces := db_traces d @ map trace_row ts\<rparr>)
      else Inl (PyExc IntegrityError))"

definition insert_observations :: "observation list \<Rightarrow> db \<Rightarrow> exn + db" where
  "insert_observations os d =
     (if distinct (map ob_id (db_observations d) @ map ob_id os)
        \<and> list_all (\<lambda>ob. ob_trace_id ob \<in> tr_id ` set (db_traces d)) os
      then Inr (d\<lparr>db_observations := db_observations d @ os\<rparr>)
      else Inl (PyExc IntegrityError))"

definition insert_scores :: "score list \<Rightarrow> db \<Rightarrow> exn + db" where
  "insert_scores ss d =
     (if distinct (map sc_id (db_scores d) @ map sc_id ss)
        \<and> list_all (\<lambda>sc. sc_trace_id sc \<in> tr_id ` set (db_traces d)) ss
      then Inr (d\<lparr>db_scores := db_scores d @ ss\<rparr>)
      else Inl (PyExc IntegrityError))"

text \<open>\<open>INSERT INTO log_entry\<close>: the row id is the next AUTOINCREMENT value.\<close>

definition insert_log :: "log_line \<Rightarrow> db \<Rightarrow> db" where
  "insert_log e d = d\<lparr>db_log_seq := Suc (db_log_seq d),
     db_logs := db_logs d @ [log_line.extend e \<lparr>lg_id = Suc (db_log_seq d)\<rparr>]\<rparr>"

section \<open>Rollup rows\<close>

definition COUNTER_METRICS :: "string list" where
  "COUNTER_METRICS = [''requests'', ''errors'']"

definition is_counter :: "string \<Rightarrow> bool" where
  "is_counter metric \<longleftrightarrow> metric \<in> set COUNTER_METRICS"

definition counter_stats :: "int \<Rightarrow> stats" where
  "counter_stats n = \<lparr>sx_count = n, sx_sum = of_int n, sx_min = 1, sx_max = 1,
     sx_p50 = None, sx_p90 = None, sx_p95 = None, sx_p99 = None\<rparr>"

text \<open>\<open>_stats_of\<close>: NULL percentiles read as zero.\<close>

definition stats_of :: "stats \<Rightarrow> stats" where
  "stats_of s = s\<lparr>sx_p50 := Some (stat_p (sx_p50 s)), sx_p90 := Some (stat_p (sx_p90 s)),
     sx_p95 := Some (stat_p (sx_p95 s)), sx_p99 := Some (stat_p (sx_p99 s))\<rparr>"

definition merge_stats :: "string \<Rightarrow> stats option \<Rightarrow> stats \<Rightarrow> stats" where
  "merge_stats metric existing new =
     (case existing of
        None \<Rightarrow> new
      | Some ex \<Rightarrow>
          if is_counter metric then counter_stats (sx_count ex + sx_count new)
          else merge_rows [stats_of ex, stats_of new])"

definition load_rollup_row :: "rollup_key \<Rightarrow> db \<Rightarrow> stats option" where
  "load_rollup_row k d = map_of (db_rollups d) k"

definition upsert_rollup :: "rollup_key \<times> stats \<Rightarrow> db \<Rightarrow> db" where
  "upsert_rollup kv d = d\<lparr>db_rollups := dict_set (fst kv) (snd kv) (db_rollups d)\<rparr>"

section \<open>Reads and trace mutations\<close>

text \<open>\<open>ORDER BY ts_start DESC, rowid DESC LIMIT 1\<close>: the last of the greatest start times.\<close>

definition newest_trace :: "db \<Rightarrow> trace option" where
  "newest_trace d = (case db_traces d of [] \<Rightarrow> None
     | t # ts \<Rightarrow> Some (fold (\<lambda>u best. if tr_ts_start best \<le> tr_ts_start u then u else best) ts t))"

definition count_traces :: "db \<Rightarrow> nat" where
  "count_traces d = length (db_traces d)"

definition observations_for :: "string \<Rightarrow> db \<Rightarrow> observation list" where
  "observations_for tid d =
     sort_key (\<lambda>ob. (ob_start_ms ob, ob_id ob)) (filter (\<lambda>ob. ob_trace_id ob = tid) (db_observations d))"

definition fetch_trace :: "string \<Rightarrow> db \<Rightarrow> trace option" where
  "fetch_trace tid d = find (\<lambda>t. tr_id t = tid) (db_traces d)"

definition set_trace_tags :: "string \<Rightarrow> string list \<Rightarrow> db \<Rightarrow> db" where
  "set_trace_tags tid tags d =
     d\<lparr>db_traces := map (\<lambda>t. if tr_id t = tid then t\<lparr>tr_tags := tags\<rparr> else t) (db_traces d)\<rparr>"

text \<open>\<open>DELETE FROM traces\<close> for the rows of a predicate; observations and scores follow through
  \<open>ON DELETE CASCADE\<close>, log lines stay. The count is the number of trace rows removed.\<close>

definition delete_traces_where :: "(trace \<Rightarrow> bool) \<Rightarrow> db \<Rightarrow> nat \<times> db" where
  "delete_traces_where P d =
     (let gone = map tr_id (filter P (db_traces d)) in
      (length gone,
       d\<lparr>db_traces := filter (\<lambda>t. \<not> P t) (db_traces d),
         db_observations := filter (\<lambda>ob. ob_trace_id ob \<notin> set gone) (db_observations d),
         db_scores := filter (\<lambda>sc. sc_trace_id sc \<notin> set gone) (db_scores d)\<rparr>))"

definition delete_trace :: "string \<Rightarrow> db \<Rightarrow> bool \<times> db" where
  "delete_trace tid d = (let (n, d') = delete_traces_where (\<lambda>t. tr_id t = tid) d in (0 < n, d'))"

text \<open>\<open>insert_audit\<close>: the entry of an endpoint without an identity.\<close>

definition insert_audit :: "pyfloat \<Rightarrow> string \<Rightarrow> string \<Rightarrow> string option \<Rightarrow> string \<Rightarrow> json option \<Rightarrow> db \<Rightarrow> db" where
  "insert_audit now actor action target result meta d = audit_entry now actor action None target result meta d"

section \<open>Referential integrity\<close>

text \<open>Trace ids are unique and every observation and score belongs to a stored trace.\<close>

definition tele_inv :: "db \<Rightarrow> bool" where
  "tele_inv d \<longleftrightarrow> distinct (map tr_id (db_traces d)) \<and> distinct (map ob_id (db_observations d))
     \<and> distinct (map sc_id (db_scores d))
     \<and> (\<forall>ob \<in> set (db_observations d). ob_trace_id ob \<in> tr_id ` set (db_traces d))
     \<and> (\<forall>sc \<in> set (db_scores d). sc_trace_id sc \<in> tr_id ` set (db_traces d))"

lemma tr_id_row [simp]: "tr_id (trace_row t) = tr_id t"
  by (simp add: trace_row_def trace.truncate_def)

lemma insert_traces_inv:
  assumes "insert_traces ts d = Inr e" "tele_inv d"
  shows "tele_inv e" "db_traces e = db_traces d @ map trace_row ts" "db_observations e = db_observations d"
    "db_scores e = db_scores d" "db_logs e = db_logs d" "db_rollups e = db_rollups d"
  using assms by (auto simp: insert_traces_def tele_inv_def comp_def image_Un split: if_splits)

lemma insert_observations_inv:
  assumes "insert_observations os d = Inr e" "tele_inv d"
  shows "tele_inv e" "db_traces e = db_traces d" "db_observations e = db_observations d @ os"
    "db_scores e = db_scores d" "db_logs e = db_logs d" "db_rollups e = db_rollups d"
  using assms by (auto simp: insert_observations_def tele_inv_def list_all_iff split: if_splits)

lemma insert_scores_inv:
  assumes "insert_scores ss d = Inr e" "tele_inv d"
  shows "tele_inv e" "db_traces e = db_traces d" "db_observations e = db_observations d"
    "db_scores e = db_scores d @ ss" "db_logs e = db_logs d" "db_rollups e = db_rollups d"
  using assms by (auto simp: insert_scores_def tele_inv_def list_all_iff split: if_splits)

lemma delete_traces_where_simps:
  "db_traces (snd (delete_traces_where P d)) = filter (\<lambda>t. \<not> P t) (db_traces d)"
  "db_observations (snd (delete_traces_where P d)) =
     filter (\<lambda>ob. ob_trace_id ob \<notin> tr_id ` {t \<in> set (db_traces d). P t}) (db_observations d)"
  "db_scores (snd (delete_traces_where P d)) =
     filter (\<lambda>sc. sc_trace_id sc \<notin> tr_id ` {t \<in> set (db_traces d). P t}) (db_scores d)"
  "db_logs (snd (delete_traces_where P d)) = db_logs d" "db_rollups (snd (delete_traces_where P d)) = db_rollups d"
  "db_audit (snd (delete_traces_where P d)) = db_audit d"
  "fst (delete_traces_where P d) = length (filter P (db_traces d))"
  by (simp_all add: delete_traces_where_def Let_def)

lemma delete_traces_where_inv:
  assumes "tele_inv d"
  shows "tele_inv (snd (delete_traces_where P d))"
  unfolding tele_inv_def delete_traces_where_simps
proof (intro conjI ballI)
  show "distinct (map tr_id (filter (\<lambda>t. \<not> P t) (db_traces d)))"
    using assms unfolding tele_inv_def by (simp add: distinct_map_filter)
next
  fix ob assume "ob \<in> set (filter (\<lambda>ob. ob_trace_id ob \<notin> tr_id ` {t \<in> set (db_traces d). P t}) (db_observations d))"
  then show "ob_trace_id ob \<in> tr_id ` set (filter (\<lambda>t. \<not> P t) (db_traces d))"
    using assms unfolding tele_inv_def by fastforce
next
  fix sc assume "sc \<in> set (filter (\<lambda>sc. sc_trace_id sc \<notin> tr_id ` {t \<in> set (db_traces d). P t}) (db_scores d))"
  then show "sc_trace_id sc \<in> tr_id ` set (filter (\<lambda>t. \<not> P t) (db_traces d))"
    using assms unfolding tele_inv_def by fastforce
qed (use assms in \<open>simp_all add: tele_inv_def distinct_map_filter\<close>)

lemma set_trace_tags_inv: "tele_inv d \<Longrightarrow> tele_inv (set_trace_tags tid tags d)"
proof -
  have ids: "map tr_id (db_traces (set_trace_tags tid tags d)) = map tr_id (db_traces d)"
    by (simp add: set_trace_tags_def)
  then have "tr_id ` set (db_traces (set_trace_tags tid tags d)) = tr_id ` set (db_traces d)"
    by (metis list.set_map)
  moreover have "db_observations (set_trace_tags tid tags d) = db_observations d"
    "db_scores (set_trace_tags tid tags d) = db_scores d"
    by (simp_all add: set_trace_tags_def)
  ultimately show "tele_inv d \<Longrightarrow> tele_inv (set_trace_tags tid tags d)"
    unfolding tele_inv_def ids by simp
qed

section \<open>The count of a rollup row\<close>

definition row_count :: "db \<Rightarrow> rollup_key \<Rightarrow> int" where
  "row_count d k = (case load_rollup_row k d of None \<Rightarrow> 0 | Some s \<Rightarrow> sx_count s)"

definition row_sum :: "db \<Rightarrow> rollup_key \<Rightarrow> pyfloat" where
  "row_sum d k = (case load_rollup_row k d of None \<Rightarrow> 0 | Some s \<Rightarrow> sx_sum s)"

lemma merge_stats_count:
  "sx_count (merge_stats m ex new) = (case ex of None \<Rightarrow> 0 | Some s \<Rightarrow> sx_count s) + sx_count new"
  by (auto simp: merge_stats_def counter_stats_def merge_rows_def Let_def stats_of_def split: option.splits)

lemma load_upsert: "load_rollup_row k (upsert_rollup (k', s) d) = (if k = k' then Some s else load_rollup_row k d)"
  by (simp add: load_rollup_row_def upsert_rollup_def)

lemma row_count_upsert: "row_count (upsert_rollup (k', s) d) k = (if k = k' then sx_count s else row_count d k)"
  by (simp add: row_count_def load_upsert)

lemma upsert_rollup_simps [simp]:
  "db_traces (upsert_rollup r d) = db_traces d" "db_observations (upsert_rollup r d) = db_observations d"
  "db_scores (upsert_rollup r d) = db_scores d" "db_logs (upsert_rollup r d) = db_logs d"
  "tele_inv (upsert_rollup r d) = tele_inv d"
  by (simp_all add: upsert_rollup_def tele_inv_def)

lemma insert_log_simps [simp]:
  "db_traces (insert_log e d) = db_traces d" "db_observations (insert_log e d) = db_observations d"
  "db_scores (insert_log e d) = db_scores d" "db_rollups (insert_log e d) = db_rollups d"
  "tele_inv (insert_log e d) = tele_inv d"
  by (simp_all add: insert_log_def tele_inv_def)

end
