(* ===== verification/Writer.thy ===== *)
theory Writer
  imports Trace_Store
begin

text \<open>
  Models \<open>layawatch/store/writer.py\<close>: the bounded queue between the request threads and the
  single writer thread, its backpressure policy, the batch transaction with its retries and
  requeue, and the rollup pipeline. A step is one critical section of a thread: a stretch of
  \<open>_collect\<close> between two waits, the flag read of \<open>_run\<close>, the commit; so events of producers and of
  the writer thread interleave freely, also while a batch is being gathered. The environment decides
  how many items a stretch pops, when the batch window ends, when a producer's wait times out, the
  clock and the SQLite faults of each attempt. A failed transaction leaves the database as it was.
\<close>

datatype item = QTrace finished | QLog log_line

type_synonym open_key = "int \<times> string \<times> string \<times> string \<times> int"

record open_bucket =
  bk_n :: int
  bk_vals :: "pyfloat list"

type_synonym work = "(open_key \<times> open_bucket) list"

definition BUCKET_STEP :: int where
  "BUCKET_STEP = 10"

definition PARENT_STEPS :: "int list" where
  "PARENT_STEPS = [60, 3600]"

text \<open>The number of backoff pauses, that is of retries of a busy attempt.\<close>

definition BUSY_RETRIES :: nat where
  "BUSY_RETRIES = 3"

definition is_kept :: "finished \<Rightarrow> bool" where
  "is_kept t = (case map_of (tr_meta t) ''sampled'' of None \<Rightarrow> True | Some j \<Rightarrow> py_truthy j)"

definition is_error :: "finished \<Rightarrow> bool" where
  "is_error t \<longleftrightarrow> 400 \<le> tr_status t \<or> (tr_error_code t \<noteq> None \<and> tr_error_code t \<noteq> Some [])"

section \<open>The rollup pipeline\<close>

text \<open>\<open>_bump\<close>: one contribution, counted (no value) or sampled (a value).\<close>

definition bump :: "open_key \<Rightarrow> int \<Rightarrow> pyfloat option \<Rightarrow> work \<Rightarrow> work" where
  "bump key n v work =
     (case map_of work key of
        None \<Rightarrow> dict_set key \<lparr>bk_n = n, bk_vals = (case v of None \<Rightarrow> [] | Some x \<Rightarrow> [x])\<rparr> work
      | Some cur \<Rightarrow>
          (case v of
             None \<Rightarrow> dict_set key \<lparr>bk_n = bk_n cur + n, bk_vals = bk_vals cur\<rparr> work
           | Some x \<Rightarrow> dict_set key \<lparr>bk_n = bk_n cur, bk_vals = bk_vals cur @ [x]\<rparr> work))"

definition model_dim :: "'z trace_scheme \<Rightarrow> string" where
  "model_dim t = (case tr_model t of None \<Rightarrow> [] | Some m \<Rightarrow> m)"

definition accumulate :: "finished \<Rightarrow> work \<Rightarrow> work" where
  "accumulate t work =
     (let b = bucket_of (tr_ts_start t) BUCKET_STEP; m = model_dim t; r = tr_route t;
          w1 = bump (b, ''requests'', m, r, 0) 1 None work;
          w2 = (if 400 \<le> tr_status t then bump (b, ''errors'', [], [], tr_status t) 1 None w1 else w1);
          w3 = bump (b, ''latency'', m, r, 0) 0 (Some (tr_duration_ms t)) w2
      in bump (b, ''queue'', m, r, 0) 0 (Some (tr_queue_ms t)) w3)"

definition rollup_key_at :: "int \<Rightarrow> int \<Rightarrow> string \<times> string \<times> string \<times> int \<Rightarrow> rollup_key" where
  "rollup_key_at bucket step dims = (case dims of (metric, model, route, status) \<Rightarrow>
     \<lparr>rk_bucket = bucket, rk_step = step, rk_metric = metric, rk_model = model, rk_route = route, rk_status = status\<rparr>)"

text \<open>\<open>_rollup_rows\<close>: the new values summarised once and merged into the row of each step.\<close>

definition rollup_rows :: "open_bucket \<Rightarrow> open_key \<Rightarrow> db \<Rightarrow> (rollup_key \<times> stats) list" where
  "rollup_rows bucket key d =
     (let (b, dims) = key; metric = fst dims;
          empty = (if is_counter metric then bk_n bucket \<le> 0 else bk_vals bucket = []);
          stats = (if is_counter metric then counter_stats (bk_n bucket) else summarize (bk_vals bucket));
          row = (\<lambda>start step. (rollup_key_at start step dims,
                   merge_stats metric (load_rollup_row (rollup_key_at start step dims) d) stats))
      in if empty then []
         else row b BUCKET_STEP # map (\<lambda>step. row (bucket_of (of_int b) step) step) PARENT_STEPS)"

text \<open>The closing loop: pop each due bucket and write its rows.\<close>

fun close_due :: "open_key list \<Rightarrow> work \<Rightarrow> db \<Rightarrow> exn + (work \<times> db)" where
  "close_due [] work d = Inr (work, d)"
| "close_due (k # ks) work d =
     (case map_of work k of
        None \<Rightarrow> Inl (PyExc KeyError)
      | Some bucket \<Rightarrow> close_due ks (dict_del k work) (fold upsert_rollup (rollup_rows bucket k d) d))"

definition due_buckets :: "work \<Rightarrow> pyfloat \<Rightarrow> open_key list" where
  "due_buckets work now = filter (\<lambda>k. of_int (fst k + BUCKET_STEP) \<le> now) (map fst work)"

section \<open>One transaction\<close>

definition batch_traces :: "item list \<Rightarrow> finished list" where
  "batch_traces batch = concat (map (\<lambda>i. case i of QTrace t \<Rightarrow> [t] | QLog _ \<Rightarrow> []) batch)"

definition batch_logs :: "item list \<Rightarrow> log_line list" where
  "batch_logs batch = concat (map (\<lambda>i. case i of QTrace _ \<Rightarrow> [] | QLog e \<Rightarrow> [e]) batch)"

text \<open>The body between BEGIN and COMMIT.\<close>

definition write_batch :: "item list \<Rightarrow> open_key list \<Rightarrow> work \<Rightarrow> db \<Rightarrow> exn + (work \<times> db)" where
  "write_batch batch due work d =
     (let kept = filter is_kept (batch_traces batch) in
      res_bind (insert_traces kept d) (\<lambda>d1.
      res_bind (insert_observations (concat (map fi_observations kept)) d1) (\<lambda>d2.
      res_bind (insert_scores (concat (map fi_scores kept)) d2) (\<lambda>d3.
      close_due due work (fold insert_log (batch_logs batch) d3)))))"

text \<open>How an attempt can fail: a lock, another OperationalError, another sqlite3.Error.\<close>

datatype fault = Busy | Operational | Constraint

definition attempt :: "fault list \<Rightarrow> item list \<Rightarrow> open_key list \<Rightarrow> work \<Rightarrow> db \<Rightarrow> nat \<Rightarrow> fault + (work \<times> db)" where
  "attempt faults batch due work d i =
     (if i < length faults then Inl (faults ! i)
      else (case write_batch batch due work d of Inl _ \<Rightarrow> Inl Constraint | Inr r \<Rightarrow> Inr r))"

text \<open>The retry loop; the last argument counts the backoff pauses left.\<close>

fun attempts :: "(nat \<Rightarrow> fault + 'r) \<Rightarrow> nat \<Rightarrow> nat \<Rightarrow> fault + 'r" where
  "attempts body i 0 = body i"
| "attempts body i (Suc n) = (case body i of Inl Busy \<Rightarrow> attempts body (Suc i) n | r \<Rightarrow> r)"

section \<open>State and operations\<close>

record wstate =
  wr_batch_rows :: nat
  wr_queue_max :: nat
  wr_queue :: "item list"
  wr_waiting :: "finished list"
  wr_batch :: "item list"
  wr_busy :: bool
  wr_saw_flush :: bool
  wr_saw_stop :: bool
  wr_flush_wanted :: bool
  wr_acked :: bool
  wr_stopping :: bool
  wr_done :: bool
  wr_retried :: bool
  wr_open :: work
  wr_obs_dropped :: nat
  wr_logs_dropped :: nat
  wr_writes :: nat
  wr_db :: db

text \<open>\<open>Writer.__init__\<close>: the sizes are positive, or it raises.\<close>

definition new_writer :: "nat \<Rightarrow> nat \<Rightarrow> db \<Rightarrow> exn + wstate" where
  "new_writer rows qmax d =
     (if rows < 1 \<or> qmax < 1 then Inl (PyExc ValueError)
      else Inr \<lparr>wr_batch_rows = rows, wr_queue_max = qmax, wr_queue = [], wr_waiting = [], wr_batch = [],
        wr_busy = False, wr_saw_flush = False, wr_saw_stop = False, wr_flush_wanted = False, wr_acked = False,
        wr_stopping = False, wr_done = False, wr_retried = False, wr_open = [], wr_obs_dropped = 0,
        wr_logs_dropped = 0, wr_writes = 0, wr_db = d\<rparr>)"

definition push_item :: "item \<Rightarrow> wstate \<Rightarrow> wstate" where
  "push_item i s = s\<lparr>wr_queue := wr_queue s @ [i]\<rparr>"

definition count_drop :: "wstate \<Rightarrow> wstate" where
  "count_drop s = s\<lparr>wr_obs_dropped := Suc (wr_obs_dropped s)\<rparr>"

definition queue_full :: "wstate \<Rightarrow> bool" where
  "queue_full s \<longleftrightarrow> wr_queue_max s \<le> length (wr_queue s)"

fun droppable :: "item \<Rightarrow> bool" where
  "droppable (QTrace t) = (is_kept t \<and> \<not> is_error t)"
| "droppable (QLog e) = False"

text \<open>\<open>_evict_kept_non_error\<close>: the queue without its oldest droppable trace.\<close>

fun evict :: "item list \<Rightarrow> item list option" where
  "evict [] = None"
| "evict (i # is) = (if droppable i then Some is else map_option ((#) i) (evict is))"

text \<open>\<open>enqueue\<close> up to the point where it has queued the trace, or waits for room.\<close>

definition enqueue :: "finished \<Rightarrow> wstate \<Rightarrow> exn + wstate" where
  "enqueue t s =
     (if wr_stopping s then Inl (PyExc RuntimeError)
      else
        let s1 = (if is_kept t then s else count_drop s);
            wait = s1\<lparr>wr_waiting := wr_waiting s1 @ [t]\<rparr>
        in Inr (if queue_full s1 then
             (if is_kept t \<and> \<not> is_error t then
                (case evict (wr_queue s1) of
                   Some q \<Rightarrow> push_item (QTrace t) (count_drop (s1\<lparr>wr_queue := q\<rparr>))
                 | None \<Rightarrow> wait)
              else wait)
           else push_item (QTrace t) s1))"

text \<open>One wake-up of \<open>_wait_for_room\<close> for the waiting producer at a position.\<close>

definition resume :: "nat \<Rightarrow> bool \<Rightarrow> wstate \<Rightarrow> wstate" where
  "resume i timed_out s =
     (if i < length (wr_waiting s) then
        let t = wr_waiting s ! i; rest = take i (wr_waiting s) @ drop (Suc i) (wr_waiting s) in
        if \<not> queue_full s then push_item (QTrace t) (s\<lparr>wr_waiting := rest\<rparr>)
        else if wr_stopping s \<or> timed_out then count_drop (s\<lparr>wr_waiting := rest\<rparr>)
        else s
      else s)"

definition enqueue_log :: "log_line \<Rightarrow> wstate \<Rightarrow> exn + wstate" where
  "enqueue_log e s =
     (if wr_stopping s then Inl (PyExc RuntimeError)
      else Inr (if queue_full s then s\<lparr>wr_logs_dropped := Suc (wr_logs_dropped s)\<rparr>
                else push_item (QLog e) s))"

definition flush_now :: "wstate \<Rightarrow> wstate" where
  "flush_now s = (if wr_done s then s else s\<lparr>wr_flush_wanted := True, wr_acked := False\<rparr>)"

definition stop_writer :: "wstate \<Rightarrow> wstate" where
  "stop_writer s = s\<lparr>wr_stopping := True\<rparr>"

text \<open>One stretch of \<open>_collect\<close> between two waits of its condition variable: it pops items onto the
  batch while there is room; an empty batch takes at least one queued item, a drain all it may.\<close>

definition collect :: "nat \<Rightarrow> wstate \<Rightarrow> wstate" where
  "collect n s =
     (if wr_busy s \<or> wr_done s then s
      else
        let most = min (wr_batch_rows s - length (wr_batch s)) (length (wr_queue s));
            k = (if wr_flush_wanted s \<or> wr_stopping s then most
                 else max (if wr_batch s = [] then min 1 most else 0) (min n most))
        in s\<lparr>wr_batch := wr_batch s @ take k (wr_queue s), wr_queue := drop k (wr_queue s)\<rparr>)"

text \<open>The next critical section of \<open>_run\<close>, after \<open>_collect\<close> returned: the flags are read and the
  batch goes to its commit. Producers may have run in between.\<close>

definition seal :: "wstate \<Rightarrow> wstate" where
  "seal s =
     (if wr_busy s \<or> wr_done s then s
      else s\<lparr>wr_busy := True, wr_saw_flush := wr_flush_wanted s, wr_saw_stop := wr_stopping s\<rparr>)"

datatype status = Committed | Requeued | Dropped

definition drop_batch :: "wstate \<Rightarrow> wstate" where
  "drop_batch s = s\<lparr>wr_obs_dropped := wr_obs_dropped s + length (batch_traces (wr_batch s)),
     wr_logs_dropped := wr_logs_dropped s + length (batch_logs (wr_batch s)), wr_retried := False\<rparr>"

definition commit_work :: "wstate \<Rightarrow> work" where
  "commit_work s = fold accumulate (batch_traces (wr_batch s)) (wr_open s)"

definition commit_due :: "pyfloat \<Rightarrow> wstate \<Rightarrow> open_key list" where
  "commit_due now s =
     (if wr_saw_flush s \<or> wr_saw_stop s then map fst (commit_work s) else due_buckets (commit_work s) now)"

definition commit :: "pyfloat \<Rightarrow> fault list \<Rightarrow> wstate \<Rightarrow> status \<times> wstate" where
  "commit now faults s =
     (let due = commit_due now s in
      if wr_batch s = [] \<and> due = [] then (Committed, s)
      else (case attempts (attempt faults (wr_batch s) due (commit_work s) (wr_db s)) 0 BUSY_RETRIES of
              Inr (w, d) \<Rightarrow> (Committed, s\<lparr>wr_db := d, wr_open := w, wr_retried := False, wr_writes := Suc (wr_writes s)\<rparr>)
            | Inl Busy \<Rightarrow>
                (if wr_retried s then (Dropped, drop_batch s)
                 else (Requeued, s\<lparr>wr_queue := wr_batch s @ wr_queue s, wr_retried := True\<rparr>))
            | Inl _ \<Rightarrow> (Dropped, drop_batch s)))"

text \<open>The rest of one turn of \<open>_run\<close>: commit, acknowledge a flush, leave on stop.\<close>

definition finish_turn :: "pyfloat \<Rightarrow> fault list \<Rightarrow> wstate \<Rightarrow> status \<times> wstate" where
  "finish_turn now faults s =
     (let (st, s1) = commit now faults s;
          s2 = s1\<lparr>wr_batch := [], wr_busy := False\<rparr>;
          quiet = (st \<noteq> Requeued \<and> wr_queue s2 = []);
          s3 = (if wr_saw_flush s \<and> quiet then s2\<lparr>wr_flush_wanted := False, wr_acked := True\<rparr> else s2)
      in (st, if wr_saw_stop s \<and> quiet then s3\<lparr>wr_done := True, wr_flush_wanted := False, wr_acked := True\<rparr> else s3))"

definition counters :: "wstate \<Rightarrow> nat \<times> nat \<times> nat \<times> nat" where
  "counters s = (length (wr_queue s), wr_obs_dropped s, wr_logs_dropped s, wr_writes s)"

section \<open>What a rollup row counts\<close>

type_synonym dims = "string \<times> string \<times> string \<times> int"

text \<open>The dimensions a trace contributes to, and the share of an open bucket.\<close>

definition trace_dims :: "'z trace_scheme \<Rightarrow> dims list" where
  "trace_dims t = [(''requests'', model_dim t, tr_route t, 0)]
     @ (if 400 \<le> tr_status t then [(''errors'', [], [], tr_status t)] else [])
     @ [(''latency'', model_dim t, tr_route t, 0), (''queue'', model_dim t, tr_route t, 0)]"

definition contributes :: "dims \<Rightarrow> int \<Rightarrow> int \<Rightarrow> finished \<Rightarrow> bool" where
  "contributes K start step t \<longleftrightarrow> K \<in> set (trace_dims t) \<and> bucket_of (tr_ts_start t) step = start"

definition amount :: "dims \<Rightarrow> open_bucket \<Rightarrow> int" where
  "amount K b = (if is_counter (fst K) then bk_n b else int (length (bk_vals b)))"

definition share :: "dims \<Rightarrow> int \<Rightarrow> int \<Rightarrow> open_key \<Rightarrow> open_bucket \<Rightarrow> int" where
  "share K start step k b = (if snd k = K \<and> bucket_of (of_int (fst k)) step = start then amount K b else 0)"

definition pending :: "dims \<Rightarrow> int \<Rightarrow> int \<Rightarrow> work \<Rightarrow> int" where
  "pending K start step work = sum_list (map (\<lambda>(k, b). share K start step k b) work)"

definition work_ok :: "work \<Rightarrow> bool" where
  "work_ok work \<longleftrightarrow> dict_ok work
     \<and> (\<forall>(k, b) \<in> set work. 0 \<le> bk_n b \<and> bucket_of (of_int (fst k)) BUCKET_STEP = fst k)"

lemma floor_div_int: "0 < n \<Longrightarrow> \<lfloor>y / of_int n\<rfloor> = \<lfloor>y\<rfloor> div n" for y :: rat and n :: int
proof -
  assume n: "0 < n"
  let ?k = "\<lfloor>y\<rfloor> div n"
  have "\<lfloor>y\<rfloor> = n * ?k + \<lfloor>y\<rfloor> mod n" by simp
  moreover have "0 \<le> \<lfloor>y\<rfloor> mod n" "\<lfloor>y\<rfloor> mod n < n" using n by simp_all
  ultimately have q: "n * ?k \<le> \<lfloor>y\<rfloor>" "\<lfloor>y\<rfloor> < n * ?k + n" by linarith+
  have "of_int (n * ?k) \<le> y" using q(1) by (simp only: le_floor_iff)
  moreover have "y < of_int (n * ?k + n)" using q(2) by (simp only: floor_less_iff)
  ultimately show ?thesis using n by (intro floor_unique) (simp_all add: field_simps)
qed

text \<open>A 10 s bucket lies inside one bucket of every persisted step.\<close>

lemma bucket_nested:
  assumes "step \<in> set ROLLUP_STEPS"
  shows "bucket_of (of_int (bucket_of ts BUCKET_STEP)) step = bucket_of ts step"
proof -
  have nested: "bucket_of (of_int (bucket_of ts 10)) (n * 10) = bucket_of ts (n * 10)" if "0 < n" for n :: int
  proof -
    have "ts / of_int (n * 10) = (ts / 10) / of_int n" by (simp add: field_simps)
    then have r: "\<lfloor>ts / of_int (n * 10)\<rfloor> = \<lfloor>ts / 10\<rfloor> div n" by (simp only: floor_div_int[OF that])
    have "(of_int (\<lfloor>ts / 10\<rfloor> * 10) :: rat) / of_int (n * 10) = of_int \<lfloor>ts / 10\<rfloor> / of_int n"
      by (simp add: field_simps)
    then have l: "\<lfloor>(of_int (\<lfloor>ts / 10\<rfloor> * 10) :: rat) / of_int (n * 10)\<rfloor> = \<lfloor>ts / 10\<rfloor> div n"
      by (simp only: floor_div_int[OF that] floor_of_int)
    show ?thesis using l r by (simp only: bucket_of_def) simp
  qed
  show ?thesis using assms nested[of 1] nested[of 6] nested[of 360] by (auto simp: ROLLUP_STEPS_def BUCKET_STEP_def)
qed

lemma bucket_aligned: "step \<in> set ROLLUP_STEPS \<Longrightarrow> of_int (bucket_of ts step) / of_int step = (of_int \<lfloor>ts / of_int step\<rfloor> :: rat)"
  by (auto simp: bucket_of_def ROLLUP_STEPS_def)

section \<open>Sums over a dictionary\<close>

lemma sum_dict_del:
  "dict_ok d \<Longrightarrow> sum_list (map (\<lambda>(k, v). g k v) (dict_del k0 d)) =
     sum_list (map (\<lambda>(k, v). g k v) d) - (case map_of d k0 of None \<Rightarrow> 0 | Some v \<Rightarrow> (g k0 v :: int))"
proof (induction d)
  case (Cons kv d)
  obtain k v where kv: "kv = (k, v)" by (cases kv)
  have ok: "dict_ok d" "k \<notin> fst ` set d" using Cons.prems by (auto simp: kv dict_ok_def)
  have "dict_del k d = d" using ok(2) by (simp add: delete_id)
  with Cons.IH[OF ok(1)] ok(2) show ?case by (auto simp: kv map_of_eq_None_iff split: option.splits)
qed simp

lemma sum_dict_set:
  "dict_ok d \<Longrightarrow> sum_list (map (\<lambda>(k, v). g k v) (dict_set k0 v0 d)) =
     sum_list (map (\<lambda>(k, v). g k v) d) - (case map_of d k0 of None \<Rightarrow> 0 | Some v \<Rightarrow> g k0 v) + (g k0 v0 :: int)"
proof (induction d)
  case (Cons kv d)
  obtain k v where kv: "kv = (k, v)" by (cases kv)
  have ok: "dict_ok d" using Cons.prems by (auto simp: kv dict_ok_def)
  from Cons.IH[OF ok] show ?case by (auto simp: kv)
qed simp

section \<open>Accumulating\<close>

lemma pending_bump:
  assumes "work_ok work" "0 \<le> n" "is_counter (fst (snd k)) \<longleftrightarrow> v = None" "v = None \<longrightarrow> n = 1" "v \<noteq> None \<longrightarrow> n = 0"
    and "bucket_of (of_int (fst k)) BUCKET_STEP = fst k"
  shows "pending K start step (bump k n v work) =
      pending K start step work + (if snd k = K \<and> bucket_of (of_int (fst k)) step = start then 1 else 0)"
    "work_ok (bump k n v work)"
proof -
  have ok: "dict_ok work" using assms(1) by (simp add: work_ok_def)
  show "pending K start step (bump k n v work) =
      pending K start step work + (if snd k = K \<and> bucket_of (of_int (fst k)) step = start then 1 else 0)"
    using assms(3-5)
    by (auto simp: bump_def pending_def sum_dict_set[OF ok] share_def amount_def split: option.splits)
  show "work_ok (bump k n v work)"
  proof -
    have old: "0 \<le> bk_n b \<and> bucket_of (of_int (fst k')) BUCKET_STEP = fst k'" if "(k', b) \<in> set work" for k' b
      using assms(1) that by (auto simp: work_ok_def)
    have up: "work_ok (dict_set k b work)" if "0 \<le> bk_n b" for b
      unfolding work_ok_def using ok that assms(6) old set_dict_set_subset[of k b work] by fastforce
    show ?thesis
    proof (cases "map_of work k")
      case None
      then show ?thesis using up assms(2) by (auto simp: bump_def)
    next
      case (Some b)
      then have "(k, b) \<in> set work" by (rule map_of_SomeD)
      with old have "0 \<le> bk_n b" by blast
      with Some up assms(2) show ?thesis by (auto simp: bump_def split: option.splits)
    qed
  qed
qed

lemma counter_metrics [simp]:
  "is_counter ''requests''" "is_counter ''errors''" "\<not> is_counter ''latency''" "\<not> is_counter ''queue''"
  by (simp_all add: is_counter_def COUNTER_METRICS_def)

lemma pending_accumulate:
  assumes "work_ok work" "step \<in> set ROLLUP_STEPS"
  shows "pending K start step (accumulate t work) =
      pending K start step work + (if contributes K start step t then 1 else 0)"
    "work_ok (accumulate t work)"
proof -
  let ?b = "bucket_of (tr_ts_start t) BUCKET_STEP"
  have al: "bucket_of (of_int ?b) BUCKET_STEP = ?b"
    using bucket_nested[of BUCKET_STEP "tr_ts_start t"] by (simp add: ROLLUP_STEPS_def BUCKET_STEP_def)
  have nest: "bucket_of (of_int ?b) step = bucket_of (tr_ts_start t) step" by (rule bucket_nested[OF assms(2)])
  define w1 where "w1 = bump (?b, ''requests'', model_dim t, tr_route t, 0) 1 None work"
  define w2 where "w2 = (if 400 \<le> tr_status t then bump (?b, ''errors'', [], [], tr_status t) 1 None w1 else w1)"
  define w3 where "w3 = bump (?b, ''latency'', model_dim t, tr_route t, 0) 0 (Some (tr_duration_ms t)) w2"
  have acc: "accumulate t work = bump (?b, ''queue'', model_dim t, tr_route t, 0) 0 (Some (tr_queue_ms t)) w3"
    by (simp add: accumulate_def w1_def w2_def w3_def Let_def)
  note pb = pending_bump(1)[where K = K and start = start and step = step and k = "(?b, D)" for D, unfolded fst_conv snd_conv nest, OF _ _ _ _ _ al]
  note wb = pending_bump(2)[where k = "(?b, D)" for D, unfolded fst_conv snd_conv, OF _ _ _ _ _ al]
  have b1: "pending K start step w1 = pending K start step work
      + (if (''requests'', model_dim t, tr_route t, 0) = K \<and> bucket_of (tr_ts_start t) step = start then 1 else 0)" "work_ok w1"
    unfolding w1_def using pb[OF assms(1)] wb[OF assms(1)] by simp_all
  have b2: "pending K start step w2 = pending K start step w1
      + (if 400 \<le> tr_status t \<and> (''errors'', [], [], tr_status t) = K \<and> bucket_of (tr_ts_start t) step = start then 1 else 0)" "work_ok w2"
    unfolding w2_def using pb[OF b1(2)] wb[OF b1(2)] b1(2) by (cases "400 \<le> tr_status t"; simp only: if_True if_False simp_thms; simp)+
  have b3: "pending K start step w3 = pending K start step w2
      + (if (''latency'', model_dim t, tr_route t, 0) = K \<and> bucket_of (tr_ts_start t) step = start then 1 else 0)" "work_ok w3"
    unfolding w3_def using pb[OF b2(2)] wb[OF b2(2)] by simp_all
  have b4: "pending K start step (accumulate t work) = pending K start step w3
      + (if (''queue'', model_dim t, tr_route t, 0) = K \<and> bucket_of (tr_ts_start t) step = start then 1 else 0)" "work_ok (accumulate t work)"
    unfolding acc using pb[OF b3(2)] wb[OF b3(2)] by simp_all
  show "pending K start step (accumulate t work) =
      pending K start step work + (if contributes K start step t then 1 else 0)"
    unfolding b4 b3 b2 b1 by (auto simp: contributes_def trace_dims_def)
  show "work_ok (accumulate t work)" by (rule b4(2))
qed

lemma pending_accumulate_all:
  assumes "work_ok work" "step \<in> set ROLLUP_STEPS"
  shows "pending K start step (fold accumulate ts work) =
      pending K start step work + int (length (filter (contributes K start step) ts))
    \<and> work_ok (fold accumulate ts work)"
  using assms(1)
proof (induction ts arbitrary: work)
  case (Cons t ts)
  from Cons.IH[OF pending_accumulate(2)[OF Cons.prems assms(2)]] pending_accumulate(1)[OF Cons.prems assms(2)]
  show ?case by simp
qed simp

section \<open>Closing\<close>

lemma rollup_key_at_eq [simp]:
  "rollup_key_at a s D = rollup_key_at b t K \<longleftrightarrow> a = b \<and> s = t \<and> D = K"
  by (cases D; cases K) (auto simp: rollup_key_at_def)

lemma row_count_close:
  assumes "step \<in> set ROLLUP_STEPS" "0 \<le> bk_n bucket" "bucket_of (of_int (fst k)) BUCKET_STEP = fst k"
  shows "row_count (fold upsert_rollup (rollup_rows bucket k d) d) (rollup_key_at start step K) =
    row_count d (rollup_key_at start step K) + share K start step k bucket"
proof -
  obtain b D where k: "k = (b, D)" by (cases k)
  define st where "st = (if is_counter (fst D) then counter_stats (bk_n bucket) else summarize (bk_vals bucket))"
  have cnt: "sx_count st = amount D bucket"
    by (simp add: st_def amount_def counter_stats_def summarize_simps)
  have mc: "sx_count (merge_stats m (load_rollup_row x d) st) = row_count d x + amount D bucket" for m x
    by (simp add: merge_stats_count cnt row_count_def)
  show ?thesis
  proof (cases "if is_counter (fst D) then bk_n bucket \<le> 0 else bk_vals bucket = []")
    case True
    then have "amount D bucket = 0" "rollup_rows bucket k d = []"
      using assms(2) by (auto simp: amount_def k rollup_rows_def Let_def split: if_splits)
    then show ?thesis by (auto simp: share_def k)
  next
    case False
    have al: "bucket_of (rat_of_int b) 10 = b" using assms(3) by (simp add: k BUCKET_STEP_def)
    have rows: "rollup_rows bucket k d =
      [(rollup_key_at b 10 D, merge_stats (fst D) (load_rollup_row (rollup_key_at b 10 D) d) st),
       (rollup_key_at (bucket_of (of_int b) 60) 60 D, merge_stats (fst D) (load_rollup_row (rollup_key_at (bucket_of (of_int b) 60) 60 D) d) st),
       (rollup_key_at (bucket_of (of_int b) 3600) 3600 D, merge_stats (fst D) (load_rollup_row (rollup_key_at (bucket_of (of_int b) 3600) 3600 D) d) st)]"
      using False by (simp add: rollup_rows_def k Let_def BUCKET_STEP_def PARENT_STEPS_def st_def)
    show ?thesis
      using assms(1) al unfolding rows
      by (auto simp: row_count_upsert mc share_def k ROLLUP_STEPS_def)
  qed
qed

lemma fold_upsert_simps [simp]:
  "db_traces (fold upsert_rollup rs d) = db_traces d" "db_observations (fold upsert_rollup rs d) = db_observations d"
  "db_scores (fold upsert_rollup rs d) = db_scores d" "db_logs (fold upsert_rollup rs d) = db_logs d"
  "tele_inv (fold upsert_rollup rs d) = tele_inv d"
  by (induction rs arbitrary: d) simp_all

lemma work_ok_get: "work_ok w \<Longrightarrow> map_of w k = Some b \<Longrightarrow> 0 \<le> bk_n b \<and> bucket_of (of_int (fst k)) BUCKET_STEP = fst k"
  by (auto simp: work_ok_def dest!: map_of_SomeD)

lemma work_ok_del: "work_ok w \<Longrightarrow> work_ok (dict_del k w)"
  using set_dict_del_subset[of k w] by (auto simp: work_ok_def)

lemma close_due_counts:
  assumes "close_due ks w d = Inr (w', d')" "work_ok w" "step \<in> set ROLLUP_STEPS"
  shows "row_count d' (rollup_key_at start step K) + pending K start step w' =
      row_count d (rollup_key_at start step K) + pending K start step w
    \<and> work_ok w' \<and> db_traces d' = db_traces d \<and> db_logs d' = db_logs d \<and> tele_inv d' = tele_inv d"
  using assms(1,2)
proof (induction ks w d rule: close_due.induct)
  case (2 k ks w d)
  then obtain b where b: "map_of w k = Some b" by (auto split: option.splits)
  let ?d = "fold upsert_rollup (rollup_rows b k d) d" and ?w = "dict_del k w"
  have r: "close_due ks ?w ?d = Inr (w', d')" using "2.prems"(1) b by simp
  note ok = work_ok_get[OF "2.prems"(2) b]
  have del: "pending K start step ?w = pending K start step w - share K start step k b"
    using "2.prems"(2) b by (simp add: pending_def sum_dict_del work_ok_def)
  from "2.IH"[OF b r work_ok_del[OF "2.prems"(2)]] row_count_close[OF assms(3), of b k d start K] ok del
  show ?case by simp
qed simp

lemma keys_del: "fst ` set (dict_del k w) = fst ` set w - {k}"
  by (induction w) auto

lemma close_due_total:
  assumes "distinct ks" "set ks \<subseteq> fst ` set w"
  shows "\<exists>r. close_due ks w d = Inr r"
  using assms
proof (induction ks arbitrary: w d)
  case (Cons k ks)
  obtain b where b: "map_of w k = Some b"
    using Cons.prems(2) by (metis insert_subset list.simps(15) map_of_eq_None_iff option.exhaust_sel)
  have "set ks \<subseteq> fst ` set (dict_del k w)"
    using Cons.prems by (auto simp: keys_del)
  with Cons b show ?case by simp
qed simp

lemma close_all_empties:
  "close_due ks w d = Inr (w', d') \<Longrightarrow> fst ` set w' = fst ` set w - set ks"
proof (induction ks w d rule: close_due.induct)
  case (2 k ks w d)
  then obtain b where b: "map_of w k = Some b" by (auto split: option.splits)
  with "2.IH"[OF b] "2.prems" show ?case by (auto simp: keys_del)
qed simp

section \<open>Runs\<close>

datatype event = Offer finished | Resume nat bool | OfferLog log_line | FlushNow | Stop
  | Collect nat | Seal | Turn pyfloat "fault list"

text \<open>The history a run leaves behind: what was accepted from the producers, how much of it was
  sampled out, and what the committed transactions contained.\<close>

record tally =
  ty_offered :: nat
  ty_sampled :: nat
  ty_traces :: "finished list"
  ty_logs_offered :: nat
  ty_logs :: "log_line list"

definition no_tally :: tally where
  "no_tally = \<lparr>ty_offered = 0, ty_sampled = 0, ty_traces = [], ty_logs_offered = 0, ty_logs = []\<rparr>"

fun writer_step :: "event \<Rightarrow> wstate \<times> tally \<Rightarrow> wstate \<times> tally" where
  "writer_step (Offer t) (s, y) =
     (case enqueue t s of Inl _ \<Rightarrow> (s, y)
      | Inr s1 \<Rightarrow> (s1, y\<lparr>ty_offered := Suc (ty_offered y),
          ty_sampled := ty_sampled y + (if is_kept t then 0 else 1)\<rparr>))"
| "writer_step (Resume i timed_out) (s, y) = (resume i timed_out s, y)"
| "writer_step (OfferLog e) (s, y) =
     (case enqueue_log e s of Inl _ \<Rightarrow> (s, y)
      | Inr s1 \<Rightarrow> (s1, y\<lparr>ty_logs_offered := Suc (ty_logs_offered y)\<rparr>))"
| "writer_step FlushNow (s, y) = (flush_now s, y)"
| "writer_step Stop (s, y) = (stop_writer s, y)"
| "writer_step (Collect n) (s, y) = (collect n s, y)"
| "writer_step Seal (s, y) = (seal s, y)"
| "writer_step (Turn now faults) (s, y) =
     (if \<not> wr_busy s then (s, y)
      else case finish_turn now faults s of (st, s1) \<Rightarrow>
        (s1, if st = Committed then y\<lparr>ty_traces := ty_traces y @ batch_traces (wr_batch s),
                ty_logs := ty_logs y @ batch_logs (wr_batch s)\<rparr> else y))"

definition ntr :: "item list \<Rightarrow> nat" where
  "ntr q = length (batch_traces q)"

definition nlog :: "item list \<Rightarrow> nat" where
  "nlog q = length (batch_logs q)"

lemma batch_append [simp]:
  "batch_traces (p @ q) = batch_traces p @ batch_traces q" "batch_logs (p @ q) = batch_logs p @ batch_logs q"
  by (simp_all add: batch_traces_def batch_logs_def)

lemma batch_simps [simp]:
  "batch_traces [] = []" "batch_traces (QTrace t # q) = t # batch_traces q" "batch_traces (QLog e # q) = batch_traces q"
  "batch_logs [] = []" "batch_logs (QTrace t # q) = batch_logs q" "batch_logs (QLog e # q) = e # batch_logs q"
  by (simp_all add: batch_traces_def batch_logs_def)

lemma ntr_simps [simp]:
  "ntr [] = 0" "ntr (p @ q) = ntr p + ntr q" "ntr (QTrace t # q) = Suc (ntr q)" "ntr (QLog e # q) = ntr q"
  "nlog [] = 0" "nlog (p @ q) = nlog p + nlog q" "nlog (QTrace t # q) = nlog q" "nlog (QLog e # q) = Suc (nlog q)"
  by (simp_all add: ntr_def nlog_def)

lemma ntr_take_drop: "ntr (take k q) + ntr (drop k q) = ntr q" "nlog (take k q) + nlog (drop k q) = nlog q"
  by (simp_all flip: ntr_simps(2,6))

lemma evict_Some:
  "evict q = Some r \<Longrightarrow> ntr q = Suc (ntr r) \<and> nlog q = nlog r \<and> length q = Suc (length r)"
proof (induction q arbitrary: r)
  case (Cons i q)
  then show ?case by (cases i) (auto split: if_splits)
qed simp

lemma attempts_Inr: "attempts body i n = Inr r \<Longrightarrow> \<exists>j. body j = Inr r"
proof (induction n arbitrary: i)
  case (Suc n)
  then show ?case by (auto split: sum.splits fault.splits)
qed auto

lemma attempt_Inr: "attempt faults batch due work d i = Inr r \<Longrightarrow> write_batch batch due work d = Inr r"
  by (auto simp: attempt_def split: if_splits sum.splits)

text \<open>The three outcomes of a commit.\<close>

lemma commit_cases:
  assumes "commit now faults s = (st, s1)"
  obtains (idle) "st = Committed" "s1 = s" "wr_batch s = []"
  | (written) w d where "st = Committed" "write_batch (wr_batch s) (commit_due now s) (commit_work s) (wr_db s) = Inr (w, d)"
      "s1 = s\<lparr>wr_db := d, wr_open := w, wr_retried := False, wr_writes := Suc (wr_writes s)\<rparr>"
  | (again) "st = Requeued" "s1 = s\<lparr>wr_queue := wr_batch s @ wr_queue s, wr_retried := True\<rparr>"
  | (lost) "st = Dropped" "s1 = drop_batch s"
proof (cases "wr_batch s = [] \<and> commit_due now s = []")
  case True
  then show ?thesis using assms idle by (auto simp: commit_def Let_def)
next
  case False
  let ?r = "attempts (attempt faults (wr_batch s) (commit_due now s) (commit_work s) (wr_db s)) 0 BUSY_RETRIES"
  show ?thesis
  proof (cases ?r)
    case (Inr wd)
    obtain w d where wd: "wd = (w, d)" by (cases wd)
    from Inr have "write_batch (wr_batch s) (commit_due now s) (commit_work s) (wr_db s) = Inr wd"
      using attempts_Inr[OF Inr] by (auto dest: attempt_Inr)
    with False Inr assms written[of w d] show ?thesis by (auto simp: commit_def Let_def wd)
  next
    case (Inl f)
    with False assms again lost show ?thesis
      by (cases f) (auto simp: commit_def Let_def split: if_splits)
  qed
qed

section \<open>Every trace is accounted for\<close>

definition queue_inv :: "wstate \<times> tally \<Rightarrow> bool" where
  "queue_inv sy \<longleftrightarrow> (case sy of (s, y) \<Rightarrow>
     1 \<le> wr_batch_rows s \<and> 1 \<le> wr_queue_max s
   \<and> length (wr_batch s) \<le> wr_batch_rows s
   \<and> length (wr_queue s) + length (wr_batch s) \<le> wr_queue_max s + wr_batch_rows s
   \<and> ty_offered y + ty_sampled y =
       ntr (wr_queue s) + length (wr_waiting s) + ntr (wr_batch s) + length (ty_traces y) + wr_obs_dropped s
   \<and> ty_logs_offered y = nlog (wr_queue s) + nlog (wr_batch s) + length (ty_logs y) + wr_logs_dropped s)"

lemma queue_inv_enqueue:
  assumes "queue_inv (s, y)" "enqueue t s = Inr s1"
  shows "queue_inv (s1, y\<lparr>ty_offered := Suc (ty_offered y), ty_sampled := ty_sampled y + (if is_kept t then 0 else 1)\<rparr>)"
  using assms
  by (auto simp: queue_inv_def enqueue_def Let_def push_item_def count_drop_def queue_full_def not_le
      dest!: evict_Some split: if_splits option.splits)

lemma queue_inv_resume:
  assumes "queue_inv (s, y)"
  shows "queue_inv (resume i b s, y)"
  using assms
  by (auto simp: queue_inv_def resume_def Let_def push_item_def count_drop_def queue_full_def not_le)

lemma queue_inv_log:
  assumes "queue_inv (s, y)" "enqueue_log e s = Inr s1"
  shows "queue_inv (s1, y\<lparr>ty_logs_offered := Suc (ty_logs_offered y)\<rparr>)"
  using assms
  by (auto simp: queue_inv_def enqueue_log_def push_item_def queue_full_def not_le split: if_splits)

lemma queue_inv_collect:
  assumes "queue_inv (s, y)"
  shows "queue_inv (collect n s, y)"
proof (cases "wr_busy s \<or> wr_done s")
  case False
  define k where "k = (let most = min (wr_batch_rows s - length (wr_batch s)) (length (wr_queue s)) in
      if wr_flush_wanted s \<or> wr_stopping s then most
      else max (if wr_batch s = [] then min 1 most else 0) (min n most))"
  have k: "k \<le> wr_batch_rows s - length (wr_batch s)" "k \<le> length (wr_queue s)" by (auto simp: k_def Let_def)
  have c: "collect n s = s\<lparr>wr_batch := wr_batch s @ take k (wr_queue s), wr_queue := drop k (wr_queue s)\<rparr>"
    using False by (simp add: collect_def k_def Let_def)
  show ?thesis
    using assms k ntr_take_drop[of k "wr_queue s"] by (auto simp: queue_inv_def c)
qed (use assms in \<open>simp add: collect_def\<close>)

lemma commit_keeps_config:
  assumes "commit now faults s = (st, s1)"
  shows "wr_batch_rows s1 = wr_batch_rows s" "wr_queue_max s1 = wr_queue_max s" "wr_waiting s1 = wr_waiting s"
    "wr_batch s1 = wr_batch s"
  using assms by (cases rule: commit_cases; simp add: drop_batch_def)+

lemma finish_turn_shape:
  assumes "finish_turn now faults s = (st, s2)"
  obtains s1 where "commit now faults s = (st, s1)" "wr_batch s2 = []" "\<not> wr_busy s2"
    "wr_queue s2 = wr_queue s1" "wr_waiting s2 = wr_waiting s1" "wr_obs_dropped s2 = wr_obs_dropped s1"
    "wr_logs_dropped s2 = wr_logs_dropped s1" "wr_open s2 = wr_open s1" "wr_db s2 = wr_db s1"
    "wr_batch_rows s2 = wr_batch_rows s1" "wr_queue_max s2 = wr_queue_max s1"
    "wr_acked s2 \<longrightarrow> wr_acked s1 \<or> (wr_queue s2 = [] \<and> st \<noteq> Requeued)"
proof -
  obtain st' s1 where "commit now faults s = (st', s1)" by (cases "commit now faults s")
  with assms that[of s1] show ?thesis by (auto simp: finish_turn_def Let_def split: if_splits)
qed

lemma queue_inv_turn:
  assumes "queue_inv (s, y)" "wr_busy s" "finish_turn now faults s = (st, s2)"
  shows "queue_inv (s2, if st = Committed then y\<lparr>ty_traces := ty_traces y @ batch_traces (wr_batch s),
                ty_logs := ty_logs y @ batch_logs (wr_batch s)\<rparr> else y)"
  using assms(3)
proof (rule finish_turn_shape)
  fix s1
  assume c: "commit now faults s = (st, s1)" and shape: "wr_batch s2 = []" "\<not> wr_busy s2"
    "wr_queue s2 = wr_queue s1" "wr_waiting s2 = wr_waiting s1" "wr_obs_dropped s2 = wr_obs_dropped s1"
    "wr_logs_dropped s2 = wr_logs_dropped s1"
    "wr_batch_rows s2 = wr_batch_rows s1" "wr_queue_max s2 = wr_queue_max s1"
  note conf = commit_keeps_config[OF c]
  from c show ?thesis
    by (cases rule: commit_cases)
      (use assms(1) in \<open>simp_all add: queue_inv_def shape conf drop_batch_def ntr_def nlog_def add.commute\<close>)
qed

lemma queue_inv_step: "queue_inv sy \<Longrightarrow> queue_inv (writer_step e sy)"
proof -
  assume inv: "queue_inv sy"
  obtain s y where sy: "sy = (s, y)" by (cases sy)
  show ?thesis
  proof (cases e)
    case (Offer t)
    then show ?thesis
      using inv queue_inv_enqueue[of s y t] by (auto simp: sy simp del: if_splits split: sum.splits)
  next
    case (Turn now faults)
    then show ?thesis
      using inv queue_inv_turn[of s y now faults] by (auto simp: sy split: prod.splits)
  next
    case (Resume i b)
    then show ?thesis using inv by (simp add: sy queue_inv_resume)
  next
    case (Collect n)
    then show ?thesis using inv by (simp add: sy queue_inv_collect)
  next
    case (OfferLog l)
    then show ?thesis using inv queue_inv_log[of s y l] by (auto simp: sy split: sum.splits)
  qed (use inv in \<open>auto simp: sy queue_inv_def flush_now_def stop_writer_def seal_def\<close>)
qed

interpretation writer_queue: safe_machine writer_step queue_inv
  by unfold_locales (rule queue_inv_step)

section \<open>The rollups of the committed traces\<close>

text \<open>Row and open share together count the committed traces, at every step.\<close>

definition rollup_inv :: "wstate \<times> tally \<Rightarrow> bool" where
  "rollup_inv sy \<longleftrightarrow> (case sy of (s, y) \<Rightarrow>
     work_ok (wr_open s) \<and> tele_inv (wr_db s)
   \<and> db_traces (wr_db s) = map trace_row (filter is_kept (ty_traces y))
   \<and> (\<forall>step \<in> set ROLLUP_STEPS. \<forall>start K.
        row_count (wr_db s) (rollup_key_at start step K) + pending K start step (wr_open s)
          = int (length (filter (contributes K start step) (ty_traces y)))))"

lemma fold_insert_log_simps [simp]:
  "db_traces (fold insert_log es d) = db_traces d" "db_rollups (fold insert_log es d) = db_rollups d"
  "tele_inv (fold insert_log es d) = tele_inv d"
  by (induction es arbitrary: d) simp_all

lemma write_batch_counts:
  assumes "write_batch batch due work d = Inr (w', d')" "work_ok work" "step \<in> set ROLLUP_STEPS" "tele_inv d"
  shows "row_count d' (rollup_key_at start step K) + pending K start step w' =
      row_count d (rollup_key_at start step K) + pending K start step work"
    "work_ok w'" "tele_inv d'" "db_traces d' = db_traces d @ map trace_row (filter is_kept (batch_traces batch))"
proof -
  let ?kept = "filter is_kept (batch_traces batch)"
  obtain d1 d2 d3 where i: "insert_traces ?kept d = Inr d1" "insert_observations (concat (map fi_observations ?kept)) d1 = Inr d2"
    "insert_scores (concat (map fi_scores ?kept)) d2 = Inr d3"
    and c: "close_due due work (fold insert_log (batch_logs batch) d3) = Inr (w', d')"
    using assms(1) by (auto simp: write_batch_def Let_def res_bind_Inr)
  note a = insert_traces_inv[OF i(1) assms(4)]
  note b = insert_observations_inv[OF i(2) a(1)]
  note e = insert_scores_inv[OF i(3) b(1)]
  have rc: "row_count (fold insert_log (batch_logs batch) d3) x = row_count d x" for x
    using a(6) b(6) e(6) by (simp add: row_count_def load_rollup_row_def)
  from close_due_counts[OF c assms(2,3), of start K] a b e rc
  show "row_count d' (rollup_key_at start step K) + pending K start step w' =
      row_count d (rollup_key_at start step K) + pending K start step work"
    "work_ok w'" "tele_inv d'" "db_traces d' = db_traces d @ map trace_row (filter is_kept (batch_traces batch))"
    by simp_all
qed

lemma rollup_inv_turn:
  assumes "rollup_inv (s, y)" "finish_turn now faults s = (st, s2)"
  shows "rollup_inv (s2, if st = Committed then y\<lparr>ty_traces := ty_traces y @ batch_traces (wr_batch s),
                ty_logs := ty_logs y @ batch_logs (wr_batch s)\<rparr> else y)"
  using assms(2)
proof (rule finish_turn_shape)
  fix s1
  assume c: "commit now faults s = (st, s1)" and shape: "wr_open s2 = wr_open s1" "wr_db s2 = wr_db s1"
  from c show ?thesis
  proof (cases rule: commit_cases)
    case (written w d)
    have inv: "work_ok (wr_open s)" "tele_inv (wr_db s)"
      "db_traces (wr_db s) = map trace_row (filter is_kept (ty_traces y))"
      using assms(1) by (simp_all add: rollup_inv_def)
    have cnt: "row_count (wr_db s) (rollup_key_at start step K) + pending K start step (wr_open s)
        = int (length (filter (contributes K start step) (ty_traces y)))" if "step \<in> set ROLLUP_STEPS" for step start K
      using assms(1) that unfolding rollup_inv_def prod.case by blast
    have ten: "(10 :: int) \<in> set ROLLUP_STEPS" by (simp add: ROLLUP_STEPS_def)
    have acc: "pending K start step (commit_work s) = pending K start step (wr_open s)
        + int (length (filter (contributes K start step) (batch_traces (wr_batch s))))"
      "work_ok (commit_work s)" if "step \<in> set ROLLUP_STEPS" for step start K
      using pending_accumulate_all[OF inv(1) that] by (simp_all add: commit_work_def)
    note wb = write_batch_counts[OF written(2) acc(2)[OF ten] _ inv(2)]
    show ?thesis
      unfolding rollup_inv_def using wb(1) wb(2-4)[OF ten] cnt acc(1) inv(3)
      by (simp add: shape written(1,3) del: split_paired_All)
  qed (use assms(1) in \<open>simp_all add: rollup_inv_def shape drop_batch_def del: split_paired_All\<close>)
qed

lemma rollup_inv_step: "rollup_inv sy \<Longrightarrow> rollup_inv (writer_step e sy)"
proof -
  assume inv: "rollup_inv sy"
  obtain s y where sy: "sy = (s, y)" by (cases sy)
  show ?thesis
  proof (cases e)
    case (Turn now faults)
    then show ?thesis
      using inv rollup_inv_turn[of s y now faults] by (auto simp: sy split: prod.splits)
  qed (use inv in \<open>auto simp: sy rollup_inv_def enqueue_def resume_def enqueue_log_def flush_now_def stop_writer_def
      collect_def seal_def push_item_def count_drop_def Let_def split: sum.splits option.splits if_splits simp del: split_paired_All\<close>)
qed

interpretation writer_rollups: safe_machine writer_step rollup_inv
  by unfold_locales (rule rollup_inv_step)

definition fresh_store :: "db \<Rightarrow> bool" where
  "fresh_store d \<longleftrightarrow> db_traces d = [] \<and> db_observations d = [] \<and> db_scores d = [] \<and> db_rollups d = []"

lemma new_writer_inv:
  assumes "new_writer rows qmax d = Inr s" "fresh_store d"
  shows "queue_inv (s, no_tally)" "rollup_inv (s, no_tally)"
  using assms
  by (auto simp: new_writer_def fresh_store_def queue_inv_def rollup_inv_def no_tally_def work_ok_def tele_inv_def
      row_count_def load_rollup_row_def pending_def split: if_splits)

section \<open>The rows of the committed items\<close>

text \<open>What a committed transaction stored is in the database: the rows of its kept traces, their
  observations and scores, and its log lines, after the log lines that were there at the start.\<close>

definition stored_inv :: "log_line list \<Rightarrow> wstate \<times> tally \<Rightarrow> bool" where
  "stored_inv old sy \<longleftrightarrow> (case sy of (s, y) \<Rightarrow>
     tele_inv (wr_db s)
   \<and> db_traces (wr_db s) = map trace_row (filter is_kept (ty_traces y))
   \<and> db_observations (wr_db s) = concat (map fi_observations (filter is_kept (ty_traces y)))
   \<and> db_scores (wr_db s) = concat (map fi_scores (filter is_kept (ty_traces y)))
   \<and> map log_line.truncate (db_logs (wr_db s)) = old @ ty_logs y)"

lemma fold_insert_log_rows:
  "map log_line.truncate (db_logs (fold insert_log es d)) = map log_line.truncate (db_logs d) @ es"
  by (induction es arbitrary: d) (simp_all add: insert_log_def log_line.truncate_def log_line.extend_def)

lemma fold_insert_log_children [simp]:
  "db_observations (fold insert_log es d) = db_observations d" "db_scores (fold insert_log es d) = db_scores d"
  by (induction es arbitrary: d) simp_all

lemma close_due_rows:
  "close_due ks w d = Inr (w', d') \<Longrightarrow> db_traces d' = db_traces d \<and> db_observations d' = db_observations d
     \<and> db_scores d' = db_scores d \<and> db_logs d' = db_logs d \<and> tele_inv d' = tele_inv d"
  by (induction ks w d rule: close_due.induct) (auto split: option.splits)

lemma write_batch_rows:
  assumes "write_batch batch due work d = Inr (w', d')" "tele_inv d"
  defines "kept \<equiv> filter is_kept (batch_traces batch)"
  shows "tele_inv d'" "db_traces d' = db_traces d @ map trace_row kept"
    "db_observations d' = db_observations d @ concat (map fi_observations kept)"
    "db_scores d' = db_scores d @ concat (map fi_scores kept)"
    "map log_line.truncate (db_logs d') = map log_line.truncate (db_logs d) @ batch_logs batch"
proof -
  obtain d1 d2 d3 where i: "insert_traces kept d = Inr d1" "insert_observations (concat (map fi_observations kept)) d1 = Inr d2"
    "insert_scores (concat (map fi_scores kept)) d2 = Inr d3"
    and c: "close_due due work (fold insert_log (batch_logs batch) d3) = Inr (w', d')"
    using assms(1) by (auto simp: write_batch_def Let_def res_bind_Inr kept_def)
  note a = insert_traces_inv[OF i(1) assms(2)]
  note b = insert_observations_inv[OF i(2) a(1)]
  note e = insert_scores_inv[OF i(3) b(1)]
  from close_due_rows[OF c] a b e fold_insert_log_rows[of "batch_logs batch" d3]
  show "tele_inv d'" "db_traces d' = db_traces d @ map trace_row kept"
    "db_observations d' = db_observations d @ concat (map fi_observations kept)"
    "db_scores d' = db_scores d @ concat (map fi_scores kept)"
    "map log_line.truncate (db_logs d') = map log_line.truncate (db_logs d) @ batch_logs batch"
    by simp_all
qed

lemma stored_inv_step: "stored_inv old sy \<Longrightarrow> stored_inv old (writer_step e sy)"
proof -
  assume inv: "stored_inv old sy"
  obtain s y where sy: "sy = (s, y)" by (cases sy)
  show ?thesis
  proof (cases e)
    case (Turn now faults)
    obtain st s2 where t: "finish_turn now faults s = (st, s2)" by (meson surj_pair)
    from t have "stored_inv old (s2, if st = Committed then y\<lparr>ty_traces := ty_traces y @ batch_traces (wr_batch s),
                ty_logs := ty_logs y @ batch_logs (wr_batch s)\<rparr> else y)"
    proof (rule finish_turn_shape)
      fix s1 assume c: "commit now faults s = (st, s1)" and db: "wr_db s2 = wr_db s1"
      from c show ?thesis
      proof (cases rule: commit_cases)
        case (written w d)
        have ti: "tele_inv (wr_db s)" using inv by (simp add: sy stored_inv_def)
        note wb = write_batch_rows[OF written(2) ti]
        show ?thesis using inv wb by (simp add: sy stored_inv_def db written(1,3))
      qed (use inv in \<open>simp_all add: sy stored_inv_def db drop_batch_def\<close>)
    qed
    then show ?thesis using inv by (simp add: Turn sy t)
  qed (use inv in \<open>auto simp: sy stored_inv_def enqueue_def resume_def enqueue_log_def flush_now_def stop_writer_def
      collect_def seal_def push_item_def count_drop_def Let_def split: sum.splits option.splits if_splits simp del: split_paired_All\<close>)
qed

interpretation writer_stored: safe_machine writer_step "stored_inv old" for old
  by unfold_locales (rule stored_inv_step)

lemma new_writer_stored:
  assumes "new_writer rows qmax d = Inr s" "fresh_store d"
  shows "stored_inv (map log_line.truncate (db_logs d)) (s, no_tally)"
  using assms by (auto simp: new_writer_def fresh_store_def stored_inv_def no_tally_def tele_inv_def split: if_splits)

lemma writer_rollup_facts:
  assumes start: "new_writer rows qmax d = Inr s0" "fresh_store d"
    and run: "fold writer_step es (s0, no_tally) = (s, y)" and step: "step \<in> set ROLLUP_STEPS"
  shows "row_count (wr_db s) (rollup_key_at b step K) + pending K b step (wr_open s)
      = int (length (filter (contributes K b step) (ty_traces y)))"
    and "wr_open s = [] \<longrightarrow> row_count (wr_db s) (rollup_key_at b step K)
      = int (length (filter (contributes K b step) (ty_traces y)))"
    and "db_traces (wr_db s) = map trace_row (filter is_kept (ty_traces y))"
proof -
  have inv: "rollup_inv (s, y)"
    using writer_rollups.run_inv[OF new_writer_inv(2)[OF start], of es] by (simp add: run)
  then show eq: "row_count (wr_db s) (rollup_key_at b step K) + pending K b step (wr_open s)
      = int (length (filter (contributes K b step) (ty_traces y)))"
    using step unfolding rollup_inv_def prod.case by blast
  show "wr_open s = [] \<longrightarrow> row_count (wr_db s) (rollup_key_at b step K)
      = int (length (filter (contributes K b step) (ty_traces y)))"
    using eq by (auto simp: pending_def)
  show "db_traces (wr_db s) = map trace_row (filter is_kept (ty_traces y))"
    using inv by (simp add: rollup_inv_def)
qed

text \<open>C14: Whatever the interleaving, the retries, the failures and the flushes, a rollup row of any step
  plus what is still open counts exactly the traces of the committed transactions that fall in its
  bucket with its dimensions: closing a bucket twice never counts a trace twice, and sampled-out
  traces count. The stored traces are the kept ones of the same transactions.\<close>

theorem writer_rollups_are_exact:
  assumes start: "new_writer rows qmax d = Inr s0" "fresh_store d"
    and run: "fold writer_step es (s0, no_tally) = (s, y)" and step: "step \<in> set ROLLUP_STEPS"
  shows "(row_count (wr_db s) (rollup_key_at b step K) + pending K b step (wr_open s)
      = int (length (filter (contributes K b step) (ty_traces y))))
    \<and> (wr_open s = [] \<longrightarrow> row_count (wr_db s) (rollup_key_at b step K)
      = int (length (filter (contributes K b step) (ty_traces y))))
    \<and> (db_traces (wr_db s) = map trace_row (filter is_kept (ty_traces y)))"
  using writer_rollup_facts[OF assms] by blast

definition demo_trace :: "string \<Rightarrow> pyfloat \<Rightarrow> int \<Rightarrow> finished" where
  "demo_trace tid ts st = \<lparr>tr_id = tid, tr_ts_start = ts, tr_duration_ms = 5, tr_route = ''/predict'',
     tr_method = ''POST'', tr_status = st, tr_model = Some ''en'', tr_route_reason = None, tr_lang = None,
     tr_queue_ms = 1, tr_forward_ms = None, tr_state_bytes = None, tr_question_count = None,
     tr_client_key_id = None, tr_session_id = None, tr_error_code = None, tr_error_message = None,
     tr_tags = [], tr_meta = [], fi_observations = [], fi_scores = []\<rparr>"

definition demo_events :: "event list" where
  "demo_events = [Offer (demo_trace ''a'' 3 200), FlushNow, Collect 9, Seal, Turn 5 [Busy]]"

definition demo_writer :: wstate where
  "demo_writer = projr (new_writer 2 4 empty_db)"

theorem writer_rollups_are_exact_witness:
  "let (s, y) = fold writer_step demo_events (demo_writer, no_tally) in
     row_count (wr_db s) (rollup_key_at 0 60 (''requests'', ''en'', ''/predict'', 0)) = 1
   \<and> row_count (wr_db s) (rollup_key_at 0 3600 (''requests'', ''en'', ''/predict'', 0)) = 1
   \<and> length (db_traces (wr_db s)) = 1"
proof -
  obtain s y where r: "fold writer_step demo_events (demo_writer, no_tally) = (s, y)" by (meson surj_pair)
  have n: "new_writer 2 4 empty_db = Inr demo_writer" "fresh_store empty_db"
    by (simp_all add: demo_writer_def new_writer_def fresh_store_def empty_db_def)
  have st: "(60 :: int) \<in> set ROLLUP_STEPS" "(3600 :: int) \<in> set ROLLUP_STEPS" by (simp_all add: ROLLUP_STEPS_def)
  have c: "(case fold writer_step demo_events (demo_writer, no_tally) of (s, y) \<Rightarrow>
      (length (wr_open s), length (filter (contributes (''requests'', ''en'', ''/predict'', 0) 0 60) (ty_traces y)),
       length (filter (contributes (''requests'', ''en'', ''/predict'', 0) 0 3600) (ty_traces y)),
       length (filter is_kept (ty_traces y)))) = (0, 1, 1, 1)"
    by code_simp
  show ?thesis
    using c writer_rollups_are_exact[OF n r st(1), THEN conjunct2, THEN conjunct1] writer_rollups_are_exact[OF n r st(2), THEN conjunct2, THEN conjunct1]
      writer_rollups_are_exact[OF n r st(1), THEN conjunct2, THEN conjunct2]
    by (simp add: r)
qed

lemma writer_accounting:
  assumes start: "new_writer rows qmax d = Inr s0" "fresh_store d"
    and run: "fold writer_step es (s0, no_tally) = (s, y)"
  shows "ty_offered y + ty_sampled y = length (batch_traces (wr_queue s)) + length (wr_waiting s)
      + length (batch_traces (wr_batch s)) + length (ty_traces y) + wr_obs_dropped s"
    and "ty_logs_offered y = length (batch_logs (wr_queue s)) + length (batch_logs (wr_batch s))
      + length (ty_logs y) + wr_logs_dropped s"
    and "length (wr_queue s) + length (wr_batch s) \<le> wr_queue_max s + wr_batch_rows s"
  using writer_queue.run_inv[OF new_writer_inv(1)[OF start], of es]
  unfolding run queue_inv_def prod.case ntr_def nlog_def by blast+

text \<open>C15: Nothing is lost silently: in every reachable state each accepted trace is queued, waiting for
  room, in the batch being gathered or written, in a committed transaction, or counted in
  \<open>obs_dropped_total\<close> (which also counts every sampled-out trace once more); likewise each accepted
  log line. What is in a committed transaction is in the database: exactly the rows of the kept
  traces with their observations and scores, and exactly the log lines, in commit order, after the
  lines that were there at the start. The queue and the batch together never exceed
  \<open>queue_max + batch_rows\<close>.\<close>

theorem writer_loses_nothing_silently:
  assumes start: "new_writer rows qmax d = Inr s0" "fresh_store d"
    and run: "fold writer_step es (s0, no_tally) = (s, y)"
  shows "(ty_offered y + ty_sampled y = length (batch_traces (wr_queue s)) + length (wr_waiting s)
      + length (batch_traces (wr_batch s)) + length (ty_traces y) + wr_obs_dropped s)
    \<and> (ty_logs_offered y = length (batch_logs (wr_queue s)) + length (batch_logs (wr_batch s))
      + length (ty_logs y) + wr_logs_dropped s)
    \<and> (db_traces (wr_db s) = map trace_row (filter is_kept (ty_traces y)))
    \<and> (db_observations (wr_db s) = concat (map fi_observations (filter is_kept (ty_traces y))))
    \<and> (db_scores (wr_db s) = concat (map fi_scores (filter is_kept (ty_traces y))))
    \<and> (map log_line.truncate (db_logs (wr_db s)) = map log_line.truncate (db_logs d) @ ty_logs y)
    \<and> (length (wr_queue s) + length (wr_batch s) \<le> wr_queue_max s + wr_batch_rows s)"
proof -
  have "stored_inv (map log_line.truncate (db_logs d)) (s, y)"
    using writer_stored.run_inv[OF new_writer_stored[OF start], of es] by (simp add: run)
  then show ?thesis using writer_accounting[OF assms] by (simp add: stored_inv_def)
qed

definition demo_line :: log_line where
  "demo_line = \<lparr>ll_ts = 3, ll_level = ''INFO'', ll_source = ''api'', ll_trace_id = None, ll_message = ''ready''\<rparr>"

definition demo_crowd :: "event list" where
  "demo_crowd = Offer (demo_trace ''a'' 3 200) # replicate 4 (OfferLog demo_line) @ [Collect 2, Seal, Turn 5 []]"

theorem writer_loses_nothing_silently_witness:
  "let (s, y) = fold writer_step demo_crowd (demo_writer, no_tally) in
     wr_logs_dropped s = 1 \<and> length (wr_queue s) = 2 \<and> length (db_traces (wr_db s)) = 1
   \<and> map log_line.truncate (db_logs (wr_db s)) = [demo_line]"
proof -
  obtain s y where r: "fold writer_step demo_crowd (demo_writer, no_tally) = (s, y)" by (meson surj_pair)
  have n: "new_writer 2 4 empty_db = Inr demo_writer" "fresh_store empty_db"
    by (simp_all add: demo_writer_def new_writer_def fresh_store_def empty_db_def)
  have c: "(case fold writer_step demo_crowd (demo_writer, no_tally) of (s, y) \<Rightarrow> (ty_logs_offered y, length (wr_queue s),
      length (batch_logs (wr_queue s)), length (batch_logs (wr_batch s)), length (filter is_kept (ty_traces y)), ty_logs y))
        = (4, 2, 2, 0, 1, [demo_line])"
    by code_simp
  have e: "map log_line.truncate (db_logs empty_db) = []" by (simp add: empty_db_def)
  show ?thesis using c writer_loses_nothing_silently[OF n r] unfolding r e by auto
qed

section \<open>A flush comes back\<close>

lemma no_busy: "attempts (attempt [] b due w d) i n \<noteq> Inl Busy"
  by (induction n arbitrary: i) (auto simp: attempt_def split: sum.splits fault.splits)

lemma commit_no_faults:
  assumes "commit now [] s = (st, s1)"
  shows "st \<noteq> Requeued" "wr_queue s1 = wr_queue s" "wr_acked s1 = wr_acked s" "wr_flush_wanted s1 = wr_flush_wanted s"
    "wr_done s1 = wr_done s" "wr_batch_rows s1 = wr_batch_rows s"
  using assms no_busy[of "wr_batch s" "commit_due now s" "commit_work s" "wr_db s" 0 BUSY_RETRIES]
  by (auto simp: commit_def Let_def drop_batch_def split: if_splits sum.splits fault.splits)

text \<open>One undisturbed turn of the writer thread.\<close>

definition drain_turn :: "pyfloat \<Rightarrow> event list" where
  "drain_turn now = [Collect 0, Seal, Turn now []]"

text \<open>A flush is under way, or answered with nothing left in the queue. An empty batch takes at least
  one queued item in a turn; a batch already full takes none before it is written.\<close>

definition draining :: "nat \<Rightarrow> wstate \<Rightarrow> bool" where
  "draining n s \<longleftrightarrow> \<not> wr_busy s \<and> 1 \<le> wr_batch_rows s
     \<and> (wr_flush_wanted s \<and> \<not> wr_done s
          \<and> (if wr_batch s = [] then max 1 (length (wr_queue s)) \<le> n else length (wr_queue s) < n)
        \<or> wr_queue s = [] \<and> wr_batch s = [] \<and> wr_acked s)"

lemma draining_turn:
  assumes "draining (Suc n) s"
  shows "draining n (fst (fold writer_step (drain_turn now) (s, y)))"
proof (cases "wr_done s")
  case True
  then show ?thesis using assms by (simp add: drain_turn_def draining_def collect_def seal_def finish_turn_def)
next
  case False
  let ?s = "seal (collect 0 s)"
  let ?q = "length (wr_queue s) - min (wr_batch_rows s - length (wr_batch s)) (length (wr_queue s))"
  have q: "wr_busy ?s" "wr_batch_rows ?s = wr_batch_rows s" "wr_acked ?s = wr_acked s" "wr_flush_wanted ?s = wr_flush_wanted s"
    "wr_saw_flush ?s = wr_flush_wanted s" "\<not> wr_done ?s"
    using assms False by (auto simp: collect_def seal_def Let_def draining_def)
  have l: "wr_flush_wanted s \<longrightarrow> length (wr_queue ?s) = ?q"
    "wr_queue s = [] \<longrightarrow> wr_queue ?s = []"
    using assms False by (auto simp: collect_def seal_def Let_def draining_def)
  obtain st s1 where c: "commit now [] ?s = (st, s1)" by (cases "commit now [] ?s")
  note nf = commit_no_faults[OF c]
  have t: "fst (fold writer_step (drain_turn now) (s, y)) = snd (finish_turn now [] ?s)"
    using q(1) by (simp add: drain_turn_def split: prod.splits)
  have less: "wr_flush_wanted s \<and> wr_queue ?s \<noteq> [] \<longrightarrow> max 1 (length (wr_queue ?s)) \<le> n"
    using assms l(1) by (cases "wr_queue ?s") (auto simp: draining_def split: if_splits)
  show ?thesis
    using assms nf(1) q l(2) less unfolding t
    by (auto simp: finish_turn_def Let_def c draining_def nf)
qed

lemma drain_all:
  "draining n s \<Longrightarrow> draining 0 (fst (fold writer_step (concat (replicate n (drain_turn now))) (s, y)))"
proof (induction n arbitrary: s y)
  case (Suc n)
  obtain s' y' where r: "fold writer_step (drain_turn now) (s, y) = (s', y')" by (meson surj_pair)
  then show ?case using Suc.IH[of s' y'] draining_turn[OF Suc.prems, of now y] by simp
qed simp

lemma drain_offers_nothing:
  "fold writer_step (concat (replicate n (drain_turn now))) (s, y) = (s', y') \<Longrightarrow>
     ty_offered y' = ty_offered y \<and> ty_sampled y' = ty_sampled y"
proof (induction n arbitrary: s y)
  case (Suc n)
  obtain s1 y1 where r: "fold writer_step (drain_turn now) (s, y) = (s1, y1)" by (meson surj_pair)
  then have "ty_offered y1 = ty_offered y" "ty_sampled y1 = ty_sampled y"
    by (auto simp: drain_turn_def split: if_splits prod.splits)
  with Suc.IH[of s1 y1] Suc.prems r show ?case by simp
qed simp

lemma flush_facts:
  assumes start: "new_writer rows qmax d = Inr s0" "fresh_store d"
    and run: "fold writer_step es (s0, no_tally) = (s, y)"
    and idle: "\<not> wr_busy s" "\<not> wr_done s" and wanted: "wr_flush_wanted s"
    and turns: "fold writer_step (concat (replicate (Suc (length (wr_queue s))) (drain_turn now))) (s, y) = (s', y')"
  shows "wr_queue s' = []" "wr_batch s' = []" "wr_acked s'"
    "ty_offered y + ty_sampled y = length (wr_waiting s') + length (ty_traces y') + wr_obs_dropped s'"
proof -
  have inv: "queue_inv (s, y)"
    using writer_queue.run_inv[OF new_writer_inv(1)[OF start], of es] by (simp add: run)
  then have "draining (Suc (length (wr_queue s))) s"
    using idle wanted by (simp add: draining_def queue_inv_def)
  then have "draining 0 s'" using drain_all[of _ s now y] turns by fastforce
  then show q: "wr_queue s' = []" and a: "wr_acked s'" by (auto simp: draining_def split: if_splits)
  have inv': "queue_inv (s', y')" using writer_queue.run_inv[OF inv] turns by metis
  show b: "wr_batch s' = []" using \<open>draining 0 s'\<close> by (auto simp: draining_def split: if_splits)
  show "ty_offered y + ty_sampled y = length (wr_waiting s') + length (ty_traces y') + wr_obs_dropped s'"
    using inv' drain_offers_nothing[OF turns] q b by (simp add: queue_inv_def)
qed

text \<open>C16: A flush comes back: from every reachable state between two turns, once a flush is wanted, as many
  undisturbed turns as there are queued items plus one leave the queue and the batch empty and the
  flush acknowledged, so every trace accepted before is committed, counted as dropped, or still
  held by a producer waiting for room.\<close>

theorem flush_drains_the_queue:
  assumes start: "new_writer rows qmax d = Inr s0" "fresh_store d"
    and run: "fold writer_step es (s0, no_tally) = (s, y)"
    and idle: "\<not> wr_busy s" "\<not> wr_done s" and wanted: "wr_flush_wanted s"
    and turns: "fold writer_step (concat (replicate (Suc (length (wr_queue s))) (drain_turn now))) (s, y) = (s', y')"
  shows "(wr_queue s' = [])
    \<and> (wr_batch s' = [])
    \<and> (wr_acked s')
    \<and> (ty_offered y + ty_sampled y = length (wr_waiting s') + length (ty_traces y') + wr_obs_dropped s')"
  using flush_facts[OF assms] by blast

theorem flush_drains_the_queue_witness:
  "wr_acked (fst (fold writer_step (concat (replicate 2 (drain_turn 5)))
     (fold writer_step [Offer (demo_trace ''a'' 3 200), FlushNow] (demo_writer, no_tally))))"
proof -
  let ?r = "fold writer_step [Offer (demo_trace ''a'' 3 200), FlushNow] (demo_writer, no_tally)"
  obtain s y where r: "?r = (s, y)" by (meson surj_pair)
  obtain s' y' where t: "fold writer_step (concat (replicate 2 (drain_turn 5))) (s, y) = (s', y')" by (meson surj_pair)
  have n: "new_writer 2 4 empty_db = Inr demo_writer" "fresh_store empty_db"
    by (simp_all add: demo_writer_def new_writer_def fresh_store_def empty_db_def)
  have c: "(case ?r of (s, y) \<Rightarrow> \<not> wr_busy s \<and> \<not> wr_done s \<and> wr_flush_wanted s \<and> Suc (length (wr_queue s)) = 2)"
    by code_simp
  then have h: "\<not> wr_busy s" "\<not> wr_done s" "wr_flush_wanted s" "Suc (length (wr_queue s)) = 2"
    unfolding r prod.case by blast+
  from t have t': "fold writer_step (concat (replicate (Suc (length (wr_queue s))) (drain_turn 5))) (s, y) = (s', y')"
    by (simp only: h(4))
  from flush_drains_the_queue[OF n r h(1-3) t', THEN conjunct2, THEN conjunct2, THEN conjunct1] show ?thesis by (simp only: r t fst_conv)
qed

text \<open>What the eviction removes: the oldest kept trace without an error, and only that.\<close>

lemma evict_oldest:
  "evict q = Some r \<Longrightarrow> \<exists>p i z. q = p @ i # z \<and> r = p @ z \<and> droppable i \<and> list_all (\<lambda>j. \<not> droppable j) p"
proof (induction q arbitrary: r)
  case (Cons i q)
  show ?case
  proof (cases "droppable i")
    case True
    with Cons.prems have "i # q = [] @ i # q \<and> r = [] @ q \<and> droppable i \<and> list_all (\<lambda>j. \<not> droppable j) []" by simp
    then show ?thesis by blast
  next
    case False
    with Cons.prems obtain r' where r: "evict q = Some r'" "r = i # r'" by auto
    from Cons.IH[OF r(1)] obtain p j z where "q = p @ j # z" "r' = p @ z" "droppable j" "list_all (\<lambda>j. \<not> droppable j) p" by blast
    then have "i # q = (i # p) @ j # z" "r = (i # p) @ z" "list_all (\<lambda>j. \<not> droppable j) (i # p)"
      using False r(2) by simp_all
    with \<open>droppable j\<close> show ?thesis by blast
  qed
qed simp

end
