(* ===== verification/Recorder.thy ===== *)
theory Recorder
  imports Vocabulary Redact Logging Writer
begin

text \<open>
  Models \<open>layawatch/obs/recorder.py\<close>: the trace context with its spans, events and fields,
  \<open>finish\<close> with its sampling decision, and the recorder with its ring. A span is identified by
  its position in the list of observations, which is what the shared mutable observation objects
  of the source amount to; the stack holds positions, innermost first. Clock readings, random ids
  and the draws of the generator are arguments. The inert context of a disabled recorder does
  nothing; the thread-local that finds the active context is left out. The values callers set on a
  trace are read at the types of the columns.
\<close>

section \<open>Recorder and context\<close>

record recorder =
  rc_ring_size :: nat
  rc_sample_rate :: pyfloat
  rc_enabled :: bool
  rc_capture :: bool
  rc_payload_max :: int
  rc_ring :: "finished list"

definition new_recorder :: "int \<Rightarrow> pyfloat \<Rightarrow> bool \<Rightarrow> bool \<Rightarrow> int \<Rightarrow> pyexc + recorder" where
  "new_recorder ring_size sample_rate enabled capture payload_max =
     (if ring_size < 1 then Inl ValueError
      else if \<not> (0 \<le> sample_rate \<and> sample_rate \<le> 1) then Inl ValueError
      else if payload_max < 0 then Inl ValueError
      else Inr \<lparr>rc_ring_size = nat ring_size, rc_sample_rate = sample_rate, rc_enabled = enabled,
             rc_capture = capture, rc_payload_max = payload_max, rc_ring = []\<rparr>)"

record trace_ctx =
  tx_id :: string
  tx_t0 :: pyfloat
  tx_ts_start :: pyfloat
  tx_fields :: "(string \<times> json) list"
  tx_obs :: "observation list"
  tx_stack :: "nat list"
  tx_finished :: bool

type_synonym 'a rec_act = "(pyexc, trace_ctx, 'a) act"

text \<open>\<open>Recorder.start\<close>: None is the inert context.\<close>

definition start_trace :: "recorder \<Rightarrow> string \<Rightarrow> string \<Rightarrow> string \<Rightarrow> string option \<Rightarrow> string option \<Rightarrow> string option
    \<Rightarrow> pyfloat \<Rightarrow> pyfloat \<Rightarrow> trace_ctx option" where
  "start_trace rc fresh_id route meth request_id key_id session_id perf now =
     (if \<not> rc_enabled rc then None
      else Some \<lparr>tx_id = (case request_id of None \<Rightarrow> fresh_id | Some r \<Rightarrow> if r = [] then fresh_id else r),
        tx_t0 = perf, tx_ts_start = now,
        tx_fields = [(''route'', JStr route), (''method'', JStr meth), (''client_key_id'', json_opt_str key_id),
                     (''session_id'', json_opt_str session_id)],
        tx_obs = [], tx_stack = [], tx_finished = False\<rparr>)"

definition check_active :: "unit rec_act" where
  "check_active = act_bind (act_get tx_finished) (\<lambda>f. if f then act_raise RuntimeError else act_return ())"

definition capture_payload :: "(pyfloat \<Rightarrow> string) \<Rightarrow> recorder \<Rightarrow> json \<Rightarrow> pyexc + string option" where
  "capture_payload fr rc v = (if v = JNull then Inr None else capture_value fr v (rc_capture rc) (rc_payload_max rc))"

definition meta_model :: "(string \<times> json) list \<Rightarrow> string option" where
  "meta_model meta = (case jget meta ''model'' of JStr m \<Rightarrow> Some m | _ \<Rightarrow> None)"

section \<open>Spans and events\<close>

record open_span =
  os_name :: string
  os_type :: string
  os_meta :: "(string \<times> json) list"
  os_model :: "string option"
  os_input :: "string option"
  os_output :: "string option"

definition ctx_span :: "(pyfloat \<Rightarrow> string) \<Rightarrow> recorder \<Rightarrow> string \<Rightarrow> json \<Rightarrow> json \<Rightarrow> (string \<times> json) list \<Rightarrow> open_span rec_act" where
  "ctx_span fr rc name input output attrs =
     act_bind check_active (\<lambda>_.
     act_bind (act_lift (observation_type name)) (\<lambda>entry_type.
     if entry_type = ''event'' then act_raise ValueError
     else act_bind (act_lift (validate name attrs)) (\<lambda>meta.
          act_bind (act_lift (capture_payload fr rc input)) (\<lambda>i.
          act_bind (act_lift (capture_payload fr rc output)) (\<lambda>out.
            act_return \<lparr>os_name = name, os_type = entry_type, os_meta = meta, os_model = meta_model meta,
              os_input = i, os_output = out\<rparr>)))))"

definition parent_of :: "trace_ctx \<Rightarrow> string option" where
  "parent_of c = (case tx_stack c of [] \<Rightarrow> None | i # _ \<Rightarrow> Some (ob_id (tx_obs c ! i)))"

definition since_start :: "pyfloat \<Rightarrow> trace_ctx \<Rightarrow> pyfloat" where
  "since_start now c = (now - tx_t0 c) * 1000"

text \<open>\<open>__enter__\<close>: the handle is the position of the new observation and the time of entry.\<close>

definition span_enter :: "open_span \<Rightarrow> string \<Rightarrow> pyfloat \<Rightarrow> trace_ctx \<Rightarrow> (nat \<times> pyfloat) \<times> trace_ctx" where
  "span_enter sp oid now c =
     (let ob = \<lparr>ob_id = oid, ob_trace_id = tx_id c, ob_parent_id = parent_of c, ob_name = os_name sp, ob_type = os_type sp,
                ob_start_ms = since_start now c, ob_duration_ms = 0, ob_status = ''ok'', ob_model = os_model sp,
                ob_input = os_input sp, ob_output = os_output sp, ob_meta = Some (os_meta sp)\<rparr>;
          i = length (tx_obs c) in
      ((i, now), c\<lparr>tx_obs := tx_obs c @ [ob], tx_stack := i # tx_stack c\<rparr>))"

definition close_obs :: "bool \<Rightarrow> pyfloat \<Rightarrow> observation \<Rightarrow> observation" where
  "close_obs raised dur ob = ob\<lparr>ob_duration_ms := dur, ob_status := (if raised then ''error'' else ob_status ob)\<rparr>"

definition span_exit :: "nat \<times> pyfloat \<Rightarrow> bool \<Rightarrow> pyfloat \<Rightarrow> trace_ctx \<Rightarrow> trace_ctx" where
  "span_exit h raised now c =
     (case h of (i, entered) \<Rightarrow>
        c\<lparr>tx_obs := (tx_obs c)[i := close_obs raised ((now - entered) * 1000) (tx_obs c ! i)],
          tx_stack := (case tx_stack c of [] \<Rightarrow> [] | j # js \<Rightarrow> if j = i then js else j # js)\<rparr>)"

definition ctx_event :: "(pyfloat \<Rightarrow> string) \<Rightarrow> recorder \<Rightarrow> string \<Rightarrow> pyfloat \<Rightarrow> string \<Rightarrow> json \<Rightarrow> json \<Rightarrow> (string \<times> json) list \<Rightarrow> observation rec_act" where
  "ctx_event fr rc oid now name input output attrs =
     act_bind check_active (\<lambda>_.
     act_bind (act_lift (span_entry name)) (\<lambda>entry.
     act_bind (act_lift (observation_type name)) (\<lambda>entry_type.
     if entry_type \<noteq> ''event'' then act_raise ValueError
     else act_bind (act_lift (validate name attrs)) (\<lambda>meta.
          act_bind (act_lift (capture_payload fr rc input)) (\<lambda>i.
          act_bind (act_lift (capture_payload fr rc output)) (\<lambda>out.
          act_bind (act_get (\<lambda>c. \<lparr>ob_id = oid, ob_trace_id = tx_id c, ob_parent_id = parent_of c, ob_name = name,
              ob_type = ''event'', ob_start_ms = since_start now c, ob_duration_ms = 0,
              ob_status = (if sp_status entry then ''ok'' else ''error''), ob_model = meta_model meta,
              ob_input = i, ob_output = out, ob_meta = Some meta\<rparr>)) (\<lambda>ob.
          act_bind (act_modify (\<lambda>c. c\<lparr>tx_obs := tx_obs c @ [ob]\<rparr>)) (\<lambda>_. act_return ob))))))))"

section \<open>Fields\<close>

definition READONLY_FIELDS :: "string list" where
  "READONLY_FIELDS = [''id'', ''ts_start'', ''duration_ms'', ''status'', ''route'', ''method'', ''observations'', ''scores'']"

definition SETTABLE_FIELDS :: "string list" where
  "SETTABLE_FIELDS = [''model'', ''route_reason'', ''lang'', ''queue_ms'', ''forward_ms'', ''state_bytes'', ''question_count'',
     ''client_key_id'', ''session_id'', ''error_code'', ''error_message'', ''tags'', ''meta'']"

text \<open>\<open>str(value)[:500]\<close> of an error message; callers pass text, other values are kept as they are.\<close>

definition field_value :: "string \<Rightarrow> json \<Rightarrow> json" where
  "field_value key v = (case v of JStr s \<Rightarrow> if key = ''error_message'' then JStr (take 500 s) else v | _ \<Rightarrow> v)"

text \<open>A refused name stops the loop; the fields before it stay set.\<close>

fun set_loop :: "(string \<times> json) list \<Rightarrow> unit rec_act" where
  "set_loop [] = act_return ()"
| "set_loop ((key, v) # rest) =
     (if key \<in> set READONLY_FIELDS then act_raise ValueError
      else if key \<notin> set SETTABLE_FIELDS then act_raise ValueError
      else act_bind (act_modify (\<lambda>c. c\<lparr>tx_fields := dict_set key (field_value key v) (tx_fields c)\<rparr>)) (\<lambda>_. set_loop rest))"

definition ctx_set :: "(string \<times> json) list \<Rightarrow> unit rec_act" where
  "ctx_set kvs = act_bind check_active (\<lambda>_. set_loop kvs)"

definition obj_of :: "json \<Rightarrow> (string \<times> json) list" where
  "obj_of v = (case v of JObj kvs \<Rightarrow> kvs | _ \<Rightarrow> [])"

definition merged_dict :: "(string \<times> json) list \<Rightarrow> (string \<times> json) list \<Rightarrow> (string \<times> json) list" where
  "merged_dict d entries = fold (\<lambda>(k, v). dict_set k v) entries d"

definition ctx_set_meta :: "(string \<times> json) list \<Rightarrow> unit rec_act" where
  "ctx_set_meta entries = act_bind check_active (\<lambda>_.
     act_modify (\<lambda>c. c\<lparr>tx_fields := dict_set ''meta'' (JObj (merged_dict (obj_of (jget (tx_fields c) ''meta'')) entries)) (tx_fields c)\<rparr>))"

section \<open>Finishing\<close>

definition str_field :: "string \<Rightarrow> trace_ctx \<Rightarrow> string option" where
  "str_field k c = (case jget (tx_fields c) k of JStr s \<Rightarrow> Some s | _ \<Rightarrow> None)"

definition int_field :: "string \<Rightarrow> trace_ctx \<Rightarrow> int option" where
  "int_field k c = (case jget (tx_fields c) k of JInt i \<Rightarrow> Some i | _ \<Rightarrow> None)"

definition float_field :: "string \<Rightarrow> trace_ctx \<Rightarrow> pyfloat option" where
  "float_field k c = (case jget (tx_fields c) k of JFloat q \<Rightarrow> Some q | JInt i \<Rightarrow> Some (of_int i) | _ \<Rightarrow> None)"

definition or_zero :: "pyfloat option \<Rightarrow> pyfloat" where
  "or_zero x = (case x of None \<Rightarrow> 0 | Some q \<Rightarrow> q)"

definition or_empty :: "string option \<Rightarrow> string" where
  "or_empty x = (case x of None \<Rightarrow> [] | Some s \<Rightarrow> s)"

text \<open>\<open>list(tags or ())\<close>, of the text elements.\<close>

definition tag_field :: "trace_ctx \<Rightarrow> string list" where
  "tag_field c = (case jget (tx_fields c) ''tags'' of
     JArr xs \<Rightarrow> concat (map (\<lambda>x. case x of JStr s \<Rightarrow> [s] | _ \<Rightarrow> []) xs) | _ \<Rightarrow> [])"

definition caller_meta :: "trace_ctx \<Rightarrow> (string \<times> json) list" where
  "caller_meta c = obj_of (jget (tx_fields c) ''meta'')"

definition always_keep :: "int \<Rightarrow> trace_ctx \<Rightarrow> bool" where
  "always_keep status c \<longleftrightarrow> 400 \<le> status \<or> py_truthy (jget (tx_fields c) ''error_code'')
     \<or> py_truthy (jget (tx_fields c) ''session_id'') \<or> jget (caller_meta c) ''source'' = JStr ''playground''"

definition keep_trace :: "recorder \<Rightarrow> int \<Rightarrow> pyfloat \<Rightarrow> trace_ctx \<Rightarrow> bool" where
  "keep_trace rc status draw c \<longleftrightarrow> always_keep status c \<or> draw < rc_sample_rate rc"

definition ctx_duration :: "pyfloat \<Rightarrow> trace_ctx \<Rightarrow> pyfloat" where
  "ctx_duration now c = max 0 (since_start now c)"

text \<open>Spans leaked without an exit are closed at the duration of the trace.\<close>

definition settle :: "pyfloat \<Rightarrow> nat list \<Rightarrow> observation list \<Rightarrow> observation list" where
  "settle dur stack obs =
     fold (\<lambda>i os. os[i := (os ! i)\<lparr>ob_duration_ms := max 0 (dur - ob_start_ms (os ! i))\<rparr>]) stack obs"

definition top_level_ms :: "observation list \<Rightarrow> pyfloat" where
  "top_level_ms obs = sum_list (map ob_duration_ms (filter (\<lambda>ob. ob_parent_id ob = None) obs))"

definition framework_ms :: "bool \<Rightarrow> pyfloat \<Rightarrow> observation list \<Rightarrow> pyfloat" where
  "framework_ms keep dur obs = (if keep then (if dur - top_level_ms obs < 0 then 0 else dur - top_level_ms obs) else dur)"

definition finished_trace :: "recorder \<Rightarrow> int \<Rightarrow> bool \<Rightarrow> pyfloat \<Rightarrow> observation list \<Rightarrow> trace_ctx \<Rightarrow> finished" where
  "finished_trace rc status keep dur obs c =
     \<lparr>tr_id = tx_id c, tr_ts_start = tx_ts_start c, tr_duration_ms = dur,
      tr_route = or_empty (str_field ''route'' c), tr_method = or_empty (str_field ''method'' c), tr_status = status,
      tr_model = str_field ''model'' c, tr_route_reason = str_field ''route_reason'' c, tr_lang = str_field ''lang'' c,
      tr_queue_ms = or_zero (float_field ''queue_ms'' c), tr_forward_ms = float_field ''forward_ms'' c,
      tr_state_bytes = int_field ''state_bytes'' c, tr_question_count = int_field ''question_count'' c,
      tr_client_key_id = str_field ''client_key_id'' c, tr_session_id = str_field ''session_id'' c,
      tr_error_code = str_field ''error_code'' c, tr_error_message = str_field ''error_message'' c,
      tr_tags = tag_field c,
      tr_meta = merged_dict (caller_meta c) [(''framework_ms'', JFloat (framework_ms keep dur obs)),
        (''payload_capture'', JBool (rc_capture rc)), (''sampled'', JBool keep)],
      fi_observations = (if keep then obs else []), fi_scores = []\<rparr>"

definition ring_trace :: "finished \<Rightarrow> recorder \<Rightarrow> recorder" where
  "ring_trace t rc = rc\<lparr>rc_ring := ring_push (rc_ring_size rc) t (rc_ring rc)\<rparr>"

interpretation recorder_ring: bounded_ring rc_ring_size rc_ring ring_trace
  by unfold_locales (simp_all add: ring_trace_def)

definition drop_notice :: "pyfloat \<Rightarrow> int \<Rightarrow> trace_ctx \<Rightarrow> log_line" where
  "drop_notice wall status c = \<lparr>ll_ts = wall, ll_level = ''debug'', ll_source = ''server'', ll_trace_id = Some (tx_id c),
     ll_message = ''trace '' @ tx_id c @ '' sampled out (status '' @ str_int status @ '')''\<rparr>"

text \<open>\<open>Context.finish\<close>: the trace for \<open>on_trace\<close>, the notice for \<open>on_log\<close>, the recorder and the context.\<close>

definition ctx_finish :: "int \<Rightarrow> pyfloat \<Rightarrow> pyfloat \<Rightarrow> pyfloat \<Rightarrow> recorder \<Rightarrow> trace_ctx
    \<Rightarrow> finished option \<times> log_line option \<times> recorder \<times> trace_ctx" where
  "ctx_finish status now wall draw rc c =
     (if tx_finished c then (None, None, rc, c)
      else let dur = ctx_duration now c; keep = keep_trace rc status draw c;
               obs = (if keep then settle dur (tx_stack c) (tx_obs c) else tx_obs c);
               t = finished_trace rc status keep dur obs c;
               c' = c\<lparr>tx_finished := True, tx_stack := [], tx_obs := obs\<rparr> in
        if keep then (Some t, None, ring_trace t rc, c')
        else (Some t, Some (drop_notice wall status c), rc, c'))"

definition ring_traces :: "int option \<Rightarrow> recorder \<Rightarrow> finished list" where
  "ring_traces n rc = ring_snapshot n (rc_ring rc)"

section \<open>Sampling\<close>

lemma sampled_flag: "map_of (tr_meta (finished_trace rc status keep dur obs c)) ''sampled'' = Some (JBool keep)"
  by (simp add: finished_trace_def merged_dict_def)

lemma writer_sees_flag: "is_kept (finished_trace rc status keep dur obs c) = keep"
  by (simp add: is_kept_def sampled_flag)

lemma error_is_kept: "is_error (finished_trace rc status keep dur obs c) \<Longrightarrow> always_keep status c"
  by (auto simp: is_error_def always_keep_def finished_trace_def str_field_def split: json.splits)

text \<open>Sampling never loses what matters. Closing an open trace hands exactly one trace to the
  writer; it is kept (the writer's own test says so, with its observations, and it is the newest of
  the ring) when the status is at least 400, when it has an error code or a session, or comes from the
  playground, and otherwise exactly when the draw is below the sample rate; a trace the writer takes
  for an error is always kept. A trace that is not kept still reaches the writer, without
  observations, leaves the ring alone and is reported in a log line. A second close does nothing.\<close>

theorem sampling_keeps_what_matters:
  assumes "ctx_finish status now wall draw rc c = (out, notice, rc', c')" "\<not> tx_finished c"
  shows "\<exists>t. out = Some t \<and> tr_id t = tx_id c \<and> tr_status t = status
    \<and> (is_kept t \<longleftrightarrow> always_keep status c \<or> draw < rc_sample_rate rc)
    \<and> (is_error t \<longrightarrow> is_kept t)
    \<and> (is_kept t \<longrightarrow> notice = None \<and> rc_ring rc' = ring_push (rc_ring_size rc) t (rc_ring rc)
        \<and> length (fi_observations t) = length (tx_obs c))
    \<and> (\<not> is_kept t \<longrightarrow> rc' = rc \<and> fi_observations t = [] \<and> notice = Some (drop_notice wall status c))
    \<and> ctx_finish status2 now2 wall2 draw2 rc' c' = (None, None, rc', c')"
proof -
  define keep where "keep = keep_trace rc status draw c"
  define obs where "obs = (if keep then settle (ctx_duration now c) (tx_stack c) (tx_obs c) else tx_obs c)"
  define t where "t = finished_trace rc status keep (ctx_duration now c) obs c"
  have run: "ctx_finish status now wall draw rc c = (if keep
      then (Some t, None, ring_trace t rc, c\<lparr>tx_finished := True, tx_stack := [], tx_obs := obs\<rparr>)
      else (Some t, Some (drop_notice wall status c), rc, c\<lparr>tx_finished := True, tx_stack := [], tx_obs := obs\<rparr>))"
    using assms(2) by (simp add: ctx_finish_def Let_def keep_def obs_def t_def)
  have len: "length (settle dur st obs) = length obs" for dur st obs
    by (induction st arbitrary: obs) (simp_all add: settle_def)
  have t: "is_kept t = keep" "fi_observations t = (if keep then obs else [])" "tr_id t = tx_id c" "tr_status t = status"
    by (simp_all add: t_def writer_sees_flag) (simp_all add: finished_trace_def)
  have "is_error t \<longrightarrow> keep" using error_is_kept[of rc status keep _ obs c] by (auto simp: t_def keep_def keep_trace_def)
  moreover have "ctx_finish status2 now2 wall2 draw2 rc' c' = (None, None, rc', c')"
    using run assms(1) by (auto simp: ctx_finish_def split: if_splits)
  moreover have "keep \<longleftrightarrow> always_keep status c \<or> draw < rc_sample_rate rc" by (simp add: keep_def keep_trace_def)
  ultimately show ?thesis using run assms(1) t
    by (intro exI[of _ t]) (auto simp: obs_def len ring_trace_def split: if_splits)
qed

definition demo_recorder :: recorder where
  "demo_recorder = \<lparr>rc_ring_size = 2, rc_sample_rate = 0, rc_enabled = True, rc_capture = False, rc_payload_max = 64, rc_ring = []\<rparr>"

definition demo_ctx :: trace_ctx where
  "demo_ctx = the (start_trace demo_recorder ''f00d'' ''/predict'' ''POST'' (Some ''ab12'') None None 100 5)"

theorem sampling_keeps_what_matters_witness:
  "\<exists>t notice rc' c'. ctx_finish 503 101 6 (1/2) demo_recorder demo_ctx = (Some t, notice, rc', c') \<and> is_kept t \<and> rc_ring rc' = [t]"
proof -
  obtain out notice rc' c' where run: "ctx_finish 503 101 6 (1/2) demo_recorder demo_ctx = (out, notice, rc', c')"
    by (metis prod_cases4)
  have "\<not> tx_finished demo_ctx" by (simp add: demo_ctx_def start_trace_def demo_recorder_def)
  moreover have "always_keep 503 demo_ctx" by (simp add: always_keep_def)
  ultimately obtain t where "out = Some t" "is_kept t" "rc_ring rc' = ring_push (rc_ring_size demo_recorder) t (rc_ring demo_recorder)"
    using sampling_keeps_what_matters[OF run, of 0 0 0 0] by blast
  with run show ?thesis by (auto simp: demo_recorder_def ring_push_def)
qed

section \<open>Where the time goes\<close>

text \<open>The contexts of a request whose spans are opened and closed by \<open>with\<close> blocks under a clock
  that does not go back: the last reading, the handles of the open spans (innermost first), the
  context.\<close>

inductive recording :: "recorder \<Rightarrow> pyfloat \<Rightarrow> (nat \<times> pyfloat) list \<Rightarrow> trace_ctx \<Rightarrow> bool" for rc where
  begin_trace: "start_trace rc fresh route meth rid kid sid perf wall = Some c \<Longrightarrow> recording rc perf [] c"
| enter: "recording rc t hs c \<Longrightarrow> t \<le> now \<Longrightarrow> span_enter sp oid now c = (h, c') \<Longrightarrow> recording rc now (h # hs) c'"
| leave: "recording rc t (h # hs) c \<Longrightarrow> t \<le> now \<Longrightarrow> recording rc now hs (span_exit h raised now c)"
| event: "recording rc t hs c \<Longrightarrow> t \<le> now \<Longrightarrow> ctx_event fr rc oid now name input output attrs c = (r, c') \<Longrightarrow> recording rc now hs c'"
| fields: "recording rc t hs c \<Longrightarrow> ctx_set kvs c = (r, c') \<Longrightarrow> recording rc t hs c'"
| meta: "recording rc t hs c \<Longrightarrow> ctx_set_meta kvs c = (r, c') \<Longrightarrow> recording rc t hs c'"

text \<open>What fields and refused calls leave alone.\<close>

definition same_spans :: "trace_ctx \<Rightarrow> trace_ctx \<Rightarrow> bool" where
  "same_spans c d \<longleftrightarrow> tx_t0 d = tx_t0 c \<and> tx_obs d = tx_obs c \<and> tx_stack d = tx_stack c \<and> tx_finished d = tx_finished c"

lemma set_loop_spans: "set_loop kvs c = (r, d) \<Longrightarrow> same_spans c d"
proof (induction kvs arbitrary: c)
  case (Cons kv kvs)
  then show ?case
    by (cases kv) (fastforce simp: same_spans_def act_simps split: if_splits)
qed (simp add: act_return_def same_spans_def)

lemma ctx_set_spans: "ctx_set kvs c = (r, d) \<Longrightarrow> same_spans c d"
  by (auto simp: ctx_set_def check_active_def act_simps same_spans_def dest: set_loop_spans split: if_splits)

lemma ctx_set_meta_spans: "ctx_set_meta kvs c = (r, d) \<Longrightarrow> same_spans c d"
  by (auto simp: ctx_set_meta_def check_active_def act_simps same_spans_def split: if_splits)

lemma ctx_event_spans:
  "ctx_event fr rc oid now name i out attrs c = (r, d) \<Longrightarrow>
     d = c \<or> (\<exists>ob. d = c\<lparr>tx_obs := tx_obs c @ [ob]\<rparr> \<and> ob_start_ms ob = since_start now c \<and> ob_duration_ms ob = 0)"
  by (auto simp: ctx_event_def check_active_def act_simps split: if_splits sum.splits)

definition top_ms :: "observation \<Rightarrow> pyfloat" where
  "top_ms ob = (if ob_parent_id ob = None then ob_duration_ms ob else 0)"

lemma top_level_sum: "top_level_ms obs = sum_list (map top_ms obs)"
  by (induction obs) (simp_all add: top_level_ms_def top_ms_def)

lemma sum_list_set: "i < length xs \<Longrightarrow> sum_list (map f (xs[i := x])) = sum_list (map f xs) - f (xs ! i) + (f x :: rat)"
  by (induction xs arbitrary: i) (auto split: nat.splits)

lemma top_level_simps:
  "top_level_ms (obs @ [ob]) = top_level_ms obs + top_ms ob"
  "i < length obs \<Longrightarrow> top_level_ms (obs[i := ob]) = top_level_ms obs - top_ms (obs ! i) + top_ms ob"
  by (simp_all add: top_level_sum sum_list_set)

definition fits_in :: "pyfloat \<Rightarrow> observation \<Rightarrow> bool" where
  "fits_in dur ob \<longleftrightarrow> 0 \<le> ob_start_ms ob \<and> 0 \<le> ob_duration_ms ob \<and> ob_start_ms ob + ob_duration_ms ob \<le> dur"

definition opened :: "trace_ctx \<Rightarrow> pyfloat \<Rightarrow> nat \<times> pyfloat \<Rightarrow> bool" where
  "opened c now h \<longleftrightarrow> (case h of (i, e) \<Rightarrow> i < length (tx_obs c) \<and> tx_t0 c \<le> e \<and> e \<le> now
     \<and> ob_start_ms (tx_obs c ! i) = since_start e c \<and> ob_duration_ms (tx_obs c ! i) = 0)"

text \<open>The outermost open span is the only one without a parent, and the top-level time before it has
  been accounted for.\<close>

definition accounted :: "pyfloat \<Rightarrow> (nat \<times> pyfloat) list \<Rightarrow> trace_ctx \<Rightarrow> bool" where
  "accounted now hs c \<longleftrightarrow> (if hs = [] then top_level_ms (tx_obs c) \<le> since_start now c
     else top_level_ms (tx_obs c) \<le> since_start (snd (last hs)) c
       \<and> ob_parent_id (tx_obs c ! fst (last hs)) = None
       \<and> (\<forall>h \<in> set (butlast hs). ob_parent_id (tx_obs c ! fst h) \<noteq> None))"

definition spans_inv :: "pyfloat \<Rightarrow> (nat \<times> pyfloat) list \<Rightarrow> trace_ctx \<Rightarrow> bool" where
  "spans_inv now hs c \<longleftrightarrow> \<not> tx_finished c \<and> tx_stack c = map fst hs \<and> distinct (map fst hs) \<and> tx_t0 c \<le> now
     \<and> (\<forall>h \<in> set hs. opened c now h) \<and> (\<forall>ob \<in> set (tx_obs c). fits_in (since_start now c) ob) \<and> accounted now hs c"

lemma since_start_upd [simp]:
  "since_start t (c\<lparr>tx_obs := obs\<rparr>) = since_start t c"
  "since_start t (c\<lparr>tx_obs := obs, tx_stack := st\<rparr>) = since_start t c"
  by (simp_all add: since_start_def)

lemma since_mono: "t \<le> now \<Longrightarrow> since_start t c \<le> since_start now c"
  by (simp add: since_start_def)

lemma spans_inv_later: "spans_inv t hs c \<Longrightarrow> t \<le> now \<Longrightarrow> spans_inv now hs c"
  using since_mono[of t now c] by (fastforce simp: spans_inv_def opened_def fits_in_def accounted_def)

lemma spans_inv_append:
  assumes "spans_inv now hs c" "ob_start_ms ob = since_start now c" "ob_duration_ms ob = 0"
  shows "spans_inv now hs (c\<lparr>tx_obs := tx_obs c @ [ob]\<rparr>)"
proof -
  have i: "fst h < length (tx_obs c)" if "h \<in> set hs" for h
    using assms(1) that by (force simp: spans_inv_def opened_def)
  have l: "fst (last hs) < length (tx_obs c)" if "hs \<noteq> []" using i last_in_set[OF that] by blast
  have b: "fst h < length (tx_obs c)" if "h \<in> set (butlast hs)" for h using i in_set_butlastD[OF that] by blast
  let ?c = "c\<lparr>tx_obs := tx_obs c @ [ob]\<rparr>"
  have since: "since_start t ?c = since_start t c" for t by (simp add: since_start_def)
  have "0 \<le> since_start now c" using assms(1) by (simp add: spans_inv_def since_start_def)
  then have "fits_in (since_start now c) ob" using assms(2,3) by (simp add: fits_in_def)
  moreover have "opened ?c now h" if "h \<in> set hs" for h
  proof -
    have "opened c now h" using assms(1) that by (simp add: spans_inv_def)
    then show ?thesis by (cases h) (simp add: opened_def since nth_append)
  qed
  moreover have "accounted now hs ?c"
    using assms l b by (auto simp: spans_inv_def accounted_def since nth_append top_level_simps top_ms_def)
  ultimately show ?thesis using assms(1) by (auto simp: spans_inv_def since)
qed

lemma spans_inv_same: "spans_inv now hs c \<Longrightarrow> same_spans c d \<Longrightarrow> spans_inv now hs d"
  by (auto simp: spans_inv_def same_spans_def opened_def accounted_def since_start_def)

lemma spans_inv_enter:
  assumes "spans_inv now hs c" "span_enter sp oid now c = (h, d)"
  shows "spans_inv now (h # hs) d"
proof -
  let ?ob = "\<lparr>ob_id = oid, ob_trace_id = tx_id c, ob_parent_id = parent_of c, ob_name = os_name sp, ob_type = os_type sp,
                ob_start_ms = since_start now c, ob_duration_ms = 0, ob_status = ''ok'', ob_model = os_model sp,
                ob_input = os_input sp, ob_output = os_output sp, ob_meta = Some (os_meta sp)\<rparr>"
  let ?c = "c\<lparr>tx_obs := tx_obs c @ [?ob]\<rparr>"
  have h: "h = (length (tx_obs c), now)" and d: "d = ?c\<lparr>tx_stack := length (tx_obs c) # tx_stack c\<rparr>"
    using assms(2) by (simp_all add: span_enter_def Let_def)
  have inv: "spans_inv now hs ?c" by (rule spans_inv_append[OF assms(1)]) simp_all
  have fresh: "length (tx_obs c) \<notin> fst ` set hs" using assms(1) by (force simp: spans_inv_def opened_def)
  have par: "parent_of c = None \<longleftrightarrow> hs = []" using assms(1) by (cases hs) (simp_all add: spans_inv_def parent_of_def)
  have "accounted now (h # hs) d"
  proof (cases "hs = []")
    case True
    then show ?thesis using inv par by (simp add: spans_inv_def accounted_def d h since_start_def)
  next
    case False
    have "butlast (h # hs) = h # butlast hs" using False by simp
    then show ?thesis using inv par False by (simp add: spans_inv_def accounted_def d h since_start_def)
  qed
  moreover have "opened d now g" if "g \<in> set (h # hs)" for g
    using inv that by (auto simp: spans_inv_def opened_def d h since_start_def)
  ultimately show ?thesis using inv fresh by (simp add: spans_inv_def d h since_start_def)
qed

lemma spans_inv_leave:
  assumes "spans_inv now (h # hs) c"
  shows "spans_inv now hs (span_exit h raised now c)"
proof -
  obtain i e where h: "h = (i, e)" by (cases h)
  define ob where "ob = close_obs raised ((now - e) * 1000) (tx_obs c ! i)"
  have i: "i < length (tx_obs c)" and start: "ob_start_ms (tx_obs c ! i) = since_start e c" and e: "tx_t0 c \<le> e" "e \<le> now"
    and z: "ob_duration_ms (tx_obs c ! i) = 0" and fresh: "i \<notin> fst ` set hs" and stack: "tx_stack c = i # map fst hs"
    using assms by (auto simp: spans_inv_def opened_def h)
  have d: "span_exit h raised now c = c\<lparr>tx_obs := (tx_obs c)[i := ob], tx_stack := map fst hs\<rparr>"
    by (simp add: span_exit_def h stack ob_def)
  have w: "fits_in (since_start now c) ob" using e by (simp add: fits_in_def ob_def close_obs_def start since_start_def algebra_simps)
  have top: "top_level_ms ((tx_obs c)[i := ob]) = top_level_ms (tx_obs c) + (if ob_parent_id (tx_obs c ! i) = None then (now - e) * 1000 else 0)"
    using i z by (simp add: top_level_simps top_ms_def ob_def close_obs_def)
  have other: "i \<noteq> j" if "(j, t) \<in> set hs" for j t using fresh that by force
  have "accounted now hs (span_exit h raised now c)"
  proof (cases "hs = []")
    case True
    then have "top_level_ms (tx_obs c) \<le> since_start e c" "ob_parent_id (tx_obs c ! i) = None"
      using assms by (simp_all add: spans_inv_def accounted_def h)
    then have "top_level_ms ((tx_obs c)[i := ob]) \<le> since_start now c" unfolding top by (simp add: since_start_def)
    then show ?thesis unfolding d using True by (simp add: accounted_def since_start_def)
  next
    case False
    have l: "i \<noteq> fst (last hs)" using other last_in_set[OF False] by (metis prod.collapse)
    have b: "i \<noteq> fst g" if "g \<in> set (butlast hs)" for g using other in_set_butlastD[OF that] by (metis prod.collapse)
    have "ob_parent_id (tx_obs c ! i) \<noteq> None" using assms False by (simp add: spans_inv_def accounted_def h)
    then have same: "top_level_ms ((tx_obs c)[i := ob]) = top_level_ms (tx_obs c)" unfolding top by auto
    show ?thesis unfolding d using assms False l b
      by (auto simp: spans_inv_def accounted_def same h)
  qed
  moreover have "opened (span_exit h raised now c) now g" if "g \<in> set hs" for g
    unfolding d using assms that other by (cases g) (auto simp: spans_inv_def opened_def since_start_def)
  moreover have "\<forall>ob \<in> set ((tx_obs c)[i := ob]). fits_in (since_start now c) ob"
    using assms w set_update_subset_insert[of "tx_obs c" i ob] by (auto simp: spans_inv_def)
  ultimately show ?thesis unfolding d using assms by (simp add: spans_inv_def since_start_def)
qed

lemma recording_inv: "recording rc now hs c \<Longrightarrow> spans_inv now hs c"
proof (induction rule: recording.induct)
  case (begin_trace fresh route meth rid kid sid perf wall c)
  then show ?case
    by (auto simp: start_trace_def spans_inv_def accounted_def since_start_def top_level_ms_def split: if_splits)
next
  case (enter t hs c now sp oid h c')
  then show ?case using spans_inv_later spans_inv_enter by blast
next
  case (leave t h hs c now raised)
  then show ?case using spans_inv_later spans_inv_leave by blast
next
  case (event t hs c now fr oid name i out attrs r c')
  then show ?case using spans_inv_later[of t hs c now] ctx_event_spans[OF event.hyps(3)] spans_inv_append by blast
next
  case (fields t hs c kvs r c')
  then show ?case using ctx_set_spans spans_inv_same by blast
next
  case (meta t hs c kvs r c')
  then show ?case using ctx_set_meta_spans spans_inv_same by blast
qed

text \<open>Closing the leaked spans: the outermost gets the time from its start to the end.\<close>

lemma settle_fits:
  assumes "spans_inv now hs c"
  shows "\<forall>ob \<in> set (settle (since_start now c) (map fst hs) (tx_obs c)). fits_in (since_start now c) ob"
    and "top_level_ms (settle (since_start now c) (map fst hs) (tx_obs c)) \<le> since_start now c"
proof -
  let ?D = "since_start now c"
  let ?up = "\<lambda>ob. ob\<lparr>ob_duration_ms := max 0 (?D - ob_start_ms ob)\<rparr>"
  have all: "\<forall>ob \<in> set (settle ?D is obs). fits_in ?D ob"
    if "\<forall>ob \<in> set obs. fits_in ?D ob" "\<forall>i \<in> set is. i < length obs" for "is" obs
    using that
  proof (induction "is" arbitrary: obs)
    case (Cons i "is")
    have "fits_in ?D (obs ! i)" using Cons.prems by simp
    then have "fits_in ?D (?up (obs ! i))" by (auto simp: fits_in_def)
    then have "\<forall>ob \<in> set (obs[i := ?up (obs ! i)]). fits_in ?D ob"
      using Cons.prems(1) set_update_subset_insert[of obs i "?up (obs ! i)"] by auto
    then show ?case using Cons.IH[of "obs[i := ?up (obs ! i)]"] Cons.prems(2) by (simp add: settle_def)
  qed (simp add: settle_def)
  have idx: "\<forall>i \<in> set (map fst hs). i < length (tx_obs c)" using assms by (force simp: spans_inv_def opened_def)
  show "\<forall>ob \<in> set (settle ?D (map fst hs) (tx_obs c)). fits_in ?D ob"
    using assms idx by (intro all) (auto simp: spans_inv_def)
  have keep: "top_level_ms (settle ?D is obs) = top_level_ms obs \<and> (\<forall>j. ob_parent_id (settle ?D is obs ! j) = ob_parent_id (obs ! j))
      \<and> (\<forall>j. j \<notin> set is \<longrightarrow> settle ?D is obs ! j = obs ! j) \<and> length (settle ?D is obs) = length obs"
    if "\<forall>i \<in> set is. i < length obs \<and> ob_parent_id (obs ! i) \<noteq> None" for "is" obs
    using that
  proof (induction "is" arbitrary: obs)
    case (Cons i "is")
    let ?obs = "obs[i := ?up (obs ! i)]"
    have i: "i < length obs" "ob_parent_id (obs ! i) \<noteq> None" using Cons.prems by simp_all
    have p: "ob_parent_id (?obs ! j) = ob_parent_id (obs ! j)" for j using i(1) by (cases "j = i") simp_all
    have t: "top_level_ms ?obs = top_level_ms obs" using i by (auto simp: top_level_simps top_ms_def)
    show ?case using Cons.IH[of ?obs] Cons.prems p t by (simp add: settle_def)
  qed (simp add: settle_def)
  show "top_level_ms (settle ?D (map fst hs) (tx_obs c)) \<le> ?D"
  proof (cases "hs = []")
    case True
    then show ?thesis using assms by (simp add: settle_def spans_inv_def accounted_def)
  next
    case False
    obtain i e where l: "last hs = (i, e)" by (cases "last hs")
    have split: "map fst hs = map fst (butlast hs) @ [i]" using False l by (metis append_butlast_last_id fst_conv list.simps(8,9) map_append)
    let ?obs = "settle ?D (map fst (butlast hs)) (tx_obs c)"
    have sub: "\<forall>j \<in> set (map fst (butlast hs)). j < length (tx_obs c) \<and> ob_parent_id (tx_obs c ! j) \<noteq> None"
      using assms False idx by (auto simp: spans_inv_def accounted_def dest: in_set_butlastD)
    have fresh: "i \<notin> set (map fst (butlast hs))" using assms split by (simp add: spans_inv_def)
    have o: "opened c now (i, e)" using assms last_in_set[OF False] l by (auto simp: spans_inv_def)
    have p: "ob_parent_id (tx_obs c ! i) = None" "top_level_ms (tx_obs c) \<le> since_start e c"
      using assms False l by (simp_all add: spans_inv_def accounted_def)
    have ie: "?obs ! i = tx_obs c ! i" "i < length ?obs" "top_level_ms ?obs = top_level_ms (tx_obs c)"
      using keep[OF sub] fresh o by (auto simp: opened_def)
    have "settle ?D (map fst hs) (tx_obs c) = ?obs[i := ?up (?obs ! i)]" by (simp add: split settle_def)
    then have "top_level_ms (settle ?D (map fst hs) (tx_obs c)) = top_level_ms (tx_obs c) + max 0 (?D - since_start e c)"
      using ie o p(1) by (simp add: top_level_simps top_ms_def opened_def)
    then show ?thesis using p(2) since_mono[of e now c] o by (simp add: opened_def)
  qed
qed

text \<open>C22: The time of a request is fully accounted for. However its spans, events and fields were
  recorded (spans by nested \<open>with\<close> blocks, the clock not going back, some perhaps still open), the
  trace lasts from its start to the closing reading; a kept trace's top-level spans and its
  \<open>framework_ms\<close> add up to exactly that, with a framework share that is never negative and
  never had to be clamped; and every observation lies within the trace.\<close>

theorem trace_time_is_accounted_for:
  assumes "recording rc t hs c" "t \<le> now" "ctx_finish status now wall draw rc c = (Some tr, notice, rc', c')"
  shows "tr_duration_ms tr = (now - tx_t0 c) * 1000
    \<and> (is_kept tr \<longrightarrow> (\<exists>f. map_of (tr_meta tr) ''framework_ms'' = Some (JFloat f) \<and> 0 \<le> f
        \<and> f + top_level_ms (fi_observations tr) = tr_duration_ms tr)
      \<and> (\<forall>ob \<in> set (fi_observations tr). 0 \<le> ob_start_ms ob \<and> 0 \<le> ob_duration_ms ob
          \<and> ob_start_ms ob + ob_duration_ms ob \<le> tr_duration_ms tr))"
proof -
  have inv: "spans_inv now hs c" using spans_inv_later[OF recording_inv[OF assms(1)] assms(2)] .
  then have D: "ctx_duration now c = since_start now c" "\<not> tx_finished c" "tx_stack c = map fst hs"
    by (simp_all add: ctx_duration_def spans_inv_def since_start_def)
  let ?keep = "keep_trace rc status draw c"
  let ?obs = "if ?keep then settle (since_start now c) (map fst hs) (tx_obs c) else tx_obs c"
  have tr: "tr = finished_trace rc status ?keep (since_start now c) ?obs c"
    using assms(3) D by (auto simp: ctx_finish_def Let_def split: if_splits)
  have dur: "tr_duration_ms tr = since_start now c" by (simp add: tr finished_trace_def)
  have f: "map_of (tr_meta tr) ''framework_ms'' = Some (JFloat (framework_ms ?keep (since_start now c) ?obs))"
    by (simp add: tr finished_trace_def merged_dict_def)
  have "is_kept tr = ?keep" by (simp add: tr writer_sees_flag)
  moreover have "fi_observations tr = (if ?keep then ?obs else [])" by (simp add: tr finished_trace_def)
  ultimately show ?thesis using settle_fits[OF inv] f
    by (auto simp: dur since_start_def framework_ms_def fits_in_def)
qed

theorem trace_time_is_accounted_for_witness:
  "\<exists>h c tr. span_enter \<lparr>os_name = ''forward'', os_type = ''generation'', os_meta = [], os_model = None, os_input = None, os_output = None\<rparr>
       ''s1'' 102 demo_ctx = (h, c)
     \<and> fst (ctx_finish 500 105 9 0 demo_recorder (span_exit h False 104 c)) = Some tr
     \<and> tr_duration_ms tr = 5000 \<and> map_of (tr_meta tr) ''framework_ms'' = Some (JFloat 3000)"
proof -
  let ?sp = "\<lparr>os_name = ''forward'', os_type = ''generation'', os_meta = [], os_model = None, os_input = None, os_output = None\<rparr>"
  obtain h c where e: "span_enter ?sp ''s1'' 102 demo_ctx = (h, c)" by (meson surj_pair)
  have "case span_enter ?sp ''s1'' 102 demo_ctx of (h, c) \<Rightarrow>
      (case fst (ctx_finish 500 105 9 0 demo_recorder (span_exit h False 104 c)) of None \<Rightarrow> False
       | Some tr \<Rightarrow> tr_duration_ms tr = 5000 \<and> is_kept tr \<and> top_level_ms (fi_observations tr) = 2000)"
    by code_simp
  then obtain tr notice rc' c' where f: "ctx_finish 500 105 9 0 demo_recorder (span_exit h False 104 c) = (Some tr, notice, rc', c')"
    and t: "tr_duration_ms tr = 5000" "is_kept tr" "top_level_ms (fi_observations tr) = 2000"
    unfolding e prod.case by (cases "ctx_finish 500 105 9 0 demo_recorder (span_exit h False 104 c)") (auto split: option.splits)
  have "recording demo_recorder 100 [] demo_ctx"
    by (rule recording.begin_trace[of _ "''f00d''" "''/predict''" "''POST''" "Some ''ab12''" None None _ 5]) (simp add: demo_ctx_def start_trace_def demo_recorder_def)
  from recording.enter[OF this _ e] have "recording demo_recorder 102 [h] c" by simp
  from recording.leave[OF this, of 104 False] have r: "recording demo_recorder 104 [] (span_exit h False 104 c)" by simp
  show ?thesis using trace_time_is_accounted_for[OF r _ f] t e f by auto
qed

end
