(* ===== verification/Csrf.thy ===== *)
theory Csrf
  imports Http_Types
begin

text \<open>
  Models \<open>layawatch/auth/csrf.py\<close>: cookie parsing and the double-submit check. The token
  generator is the platform's random source; a fresh token is an argument where one is needed.
\<close>

definition CSRF_COOKIE :: string where
  "CSRF_COOKIE = ''lw_csrf''"

definition CSRF_HEADER :: string where
  "CSRF_HEADER = ''x-csrf-token''"

section \<open>Cookies\<close>

text \<open>The loop of \<open>cookie_value\<close> over the parts of the header.\<close>

fun cookie_scan :: "string \<Rightarrow> string list \<Rightarrow> string option" where
  "cookie_scan name [] = None"
| "cookie_scan name (part # parts) =
     (let piece = py_strip part;
          (key, found, val) = py_partition (CHR ''='') piece
      in if piece = [] \<or> \<not> found then cookie_scan name parts
         else if py_strip key = name \<and> py_strip val \<noteq> [] then Some (py_strip val)
         else cookie_scan name parts)"

definition cookie_value :: "request \<Rightarrow> string \<Rightarrow> string option" where
  "cookie_value rq name = cookie_scan name (py_split (CHR '';'') (header rq ''cookie''))"

section \<open>The check\<close>

definition is_mutating :: "request \<Rightarrow> bool" where
  "is_mutating rq \<longleftrightarrow> py_upper_ascii (rq_method rq) \<in> {''POST'', ''PUT'', ''PATCH'', ''DELETE''}"

text \<open>\<open>hmac.compare_digest\<close> on two strings: a TypeError unless both are ASCII.\<close>

definition compare_digest :: "string \<Rightarrow> string \<Rightarrow> exn + bool" where
  "compare_digest a b =
     (if py_isascii a \<and> py_isascii b then Inr (a = b) else Inl (PyExc TypeError))"

definition csrf_error :: exn where
  "csrf_error = http_err 403 ''csrf_failed''
     ''missing or invalid CSRF token: the X-CSRF-Token header must echo the lw_csrf cookie'' None"

definition csrf_verify :: "request \<Rightarrow> exn + unit" where
  "csrf_verify rq =
     (if \<not> is_mutating rq then Inr ()
      else (let hdr = header rq CSRF_HEADER in
        case cookie_value rq CSRF_COOKIE of
          None \<Rightarrow> Inl csrf_error
        | Some cookie \<Rightarrow>
            if cookie = [] \<or> hdr = [] then Inl csrf_error
            else res_bind (compare_digest cookie hdr) (\<lambda>same. if same then Inr () else Inl csrf_error)))"

lemma cookie_scan_nonempty: "cookie_scan name parts = Some v \<Longrightarrow> v \<noteq> []"
  by (induction parts) (auto simp: Let_def split: prod.splits if_splits)

lemma cookie_value_nonempty: "cookie_value rq name = Some v \<Longrightarrow> v \<noteq> []"
  unfolding cookie_value_def by (rule cookie_scan_nonempty)

text \<open>A request passes the CSRF check exactly when its method does not mutate or its header
  echoes the (ASCII) cookie; a mutating request without that echo, both sides ASCII or missing,
  is the one 403.\<close>

theorem csrf_verify_accepts_iff_echoed:
  "(csrf_verify rq = Inr () \<longleftrightarrow>
      \<not> is_mutating rq \<or> cookie_value rq CSRF_COOKIE = Some (header rq CSRF_HEADER)
        \<and> py_isascii (header rq CSRF_HEADER))
   \<and> (is_mutating rq \<longrightarrow> cookie_value rq CSRF_COOKIE \<noteq> Some (header rq CSRF_HEADER) \<longrightarrow>
      py_isascii (header rq CSRF_HEADER) \<longrightarrow>
      (\<forall>v. cookie_value rq CSRF_COOKIE = Some v \<longrightarrow> py_isascii v) \<longrightarrow>
      csrf_verify rq = Inl csrf_error)"
proof -
  have "header rq CSRF_HEADER \<noteq> []" if "cookie_value rq CSRF_COOKIE = Some (header rq CSRF_HEADER)"
    using cookie_value_nonempty[OF that] .
  then show ?thesis
    by (auto simp: csrf_verify_def Let_def compare_digest_def csrf_error_def dest: cookie_value_nonempty
        split: option.splits)
qed

definition demo_request :: "string \<Rightarrow> string \<Rightarrow> (string \<times> string) list \<Rightarrow> request" where
  "demo_request meth path headers = \<lparr>rq_method = meth, rq_path = path, rq_query = [],
     rq_headers = headers, rq_body = [], rq_id = ''0a1b2c3d'', rq_client_ip = ''10.0.0.1''\<rparr>"

theorem csrf_verify_accepts_iff_echoed_witness:
  "csrf_verify (demo_request ''POST'' ''/api/v1/keys''
      [(''cookie'', ''lw_session=t; lw_csrf=abc''), (''x-csrf-token'', ''abc'')]) = Inr ()
   \<and> csrf_verify (demo_request ''POST'' ''/api/v1/keys''
      [(''cookie'', ''lw_session=t; lw_csrf=abc''), (''x-csrf-token'', ''abd'')]) = Inl csrf_error"
proof
  let ?r = "demo_request ''POST'' ''/api/v1/keys''
      [(''cookie'', ''lw_session=t; lw_csrf=abc''), (''x-csrf-token'', ''abc'')]"
  let ?s = "demo_request ''POST'' ''/api/v1/keys''
      [(''cookie'', ''lw_session=t; lw_csrf=abc''), (''x-csrf-token'', ''abd'')]"
  have "cookie_value ?r CSRF_COOKIE = Some (header ?r CSRF_HEADER)" "py_isascii (header ?r CSRF_HEADER)"
    by code_simp+
  then show "csrf_verify ?r = Inr ()" using csrf_verify_accepts_iff_echoed[of ?r] by blast
  have "is_mutating ?s" "cookie_value ?s CSRF_COOKIE = Some ''abc''" "header ?s CSRF_HEADER = ''abd''"
    "py_isascii (header ?s CSRF_HEADER)" "py_isascii ''abc''"
    by code_simp+
  then show "csrf_verify ?s = Inl csrf_error"
    using csrf_verify_accepts_iff_echoed[of ?s] by simp
qed

text \<open>A mutating request whose cookie is outside ASCII is not answered by the uniform 403: the
  comparison raises TypeError, which the router renders as a 500.\<close>

theorem csrf_non_ascii_is_not_a_403:
  "csrf_verify (demo_request ''DELETE'' ''/api/v1/keys/1''
     [(''cookie'', ''lw_csrf='' @ [char_of (233 :: nat)]), (''x-csrf-token'', ''x'')]) = Inl (PyExc TypeError)"
  by code_simp

end
