(* ===== verification/Keys.thy ===== *)
theory Keys
  imports Database
begin

text \<open>
  Models \<open>layawatch/engine/keys.py\<close>: the pepper file, the digests, \<open>verify_key\<close> with its
  bookkeeping transaction, and the arming switch. SHA-256 and HMAC-SHA256 (as lowercase hex)
  are fields of the record \<open>crypto\<close>, the random source is an argument.
\<close>

record crypto =
  cr_sha256 :: "string \<Rightarrow> string"
  cr_hmac :: "string \<Rightarrow> string \<Rightarrow> string"

definition AUTH_SETTINGS_KEY :: string where
  "AUTH_SETTINGS_KEY = ''keys.auth''"

text \<open>\<open>secret.key\<close>: its bytes when the file exists; an existing file is never rewritten.\<close>

definition load_pepper :: "string \<Rightarrow> string option \<Rightarrow> string \<times> string option" where
  "load_pepper fresh file = (case file of Some p \<Rightarrow> (p, file) | None \<Rightarrow> (fresh, Some fresh))"

definition BASE62 :: string where
  "BASE62 = ''0123456789ABCDEFGHIJKLMNOPQRSTUVWXYZabcdefghijklmnopqrstuvwxyz''"

text \<open>The 32 indexes are the draws of \<open>secrets.choice\<close>.\<close>

definition generate_secret :: "nat list \<Rightarrow> string" where
  "generate_secret draws = ''lay_'' @ map (\<lambda>i. BASE62 ! (i mod 62)) (take 32 draws)"

definition prefix_of :: "string \<Rightarrow> string" where
  "prefix_of secret = take 8 secret"

definition hash_secret :: "crypto \<Rightarrow> string \<Rightarrow> string \<Rightarrow> string" where
  "hash_secret cr secret pepper = cr_hmac cr pepper (utf8_bytes secret)"

definition legacy_hash :: "crypto \<Rightarrow> string \<Rightarrow> string" where
  "legacy_hash cr secret = cr_sha256 cr (utf8_bytes secret)"

section \<open>Verification\<close>

text \<open>The WHERE clause of the lookup.\<close>

definition key_candidate :: "string \<Rightarrow> api_key \<Rightarrow> bool" where
  "key_candidate pre k \<longleftrightarrow> (ak_prefix k = pre \<or> ak_prev_prefix k = Some pre) \<and> ak_revoked_at k = None"

text \<open>The previous digest counts only inside the rotation grace.\<close>

definition grace_hash :: "pyfloat \<Rightarrow> api_key \<Rightarrow> string option" where
  "grace_hash now k =
     (case (ak_prev_hash k, ak_prev_expires_at k) of
        (Some h, Some e) \<Rightarrow> if h \<noteq> [] \<and> e > now then Some h else None
      | _ \<Rightarrow> None)"

definition key_matches :: "pyfloat \<Rightarrow> string \<Rightarrow> string \<Rightarrow> api_key \<Rightarrow> bool" where
  "key_matches now peppered legacy k \<longleftrightarrow>
     ak_hash k = peppered \<or> ak_hash k = legacy
     \<or> (case grace_hash now k of None \<Rightarrow> False | Some h \<Rightarrow> h = peppered \<or> h = legacy)"

definition key_accepts :: "crypto \<Rightarrow> pyfloat \<Rightarrow> string \<Rightarrow> string \<Rightarrow> api_key \<Rightarrow> bool" where
  "key_accepts cr now pepper secret k \<longleftrightarrow>
     key_candidate (prefix_of secret) k
     \<and> key_matches now (hash_secret cr secret pepper) (legacy_hash cr secret) k"

definition touch_key :: "pyfloat \<Rightarrow> string \<Rightarrow> db \<Rightarrow> db" where
  "touch_key now kid d = d\<lparr>db_keys := map (\<lambda>k. if ak_id k = kid
       then k\<lparr>ak_last_used := Some now, ak_request_count := ak_request_count k + 1\<rparr> else k) (db_keys d)\<rparr>"

text \<open>\<open>verify_key\<close>: the \<open>with conn\<close> block commits on both exits. Rows come in insertion order.\<close>

definition verify_key :: "crypto \<Rightarrow> pyfloat \<Rightarrow> string \<Rightarrow> string \<Rightarrow> ('z, string option) prog" where
  "verify_key cr now presented pepper =
     (if presented = [] then act_return None
      else
        act_bind (db_query (\<lambda>d. filter (key_candidate (prefix_of presented)) (db_keys d)))
        (\<lambda>rows. case find (key_matches now (hash_secret cr presented pepper) (legacy_hash cr presented)) rows of
             None \<Rightarrow> act_bind db_commit (\<lambda>_. act_return None)
           | Some k \<Rightarrow> act_bind (db_exec (touch_key now (ak_id k)))
               (\<lambda>_. act_bind db_commit (\<lambda>_. act_return (Some (ak_id k))))))"

definition true_text :: "string \<Rightarrow> bool" where
  "true_text v \<longleftrightarrow> py_lower (py_strip v) \<in> {''1'', ''true'', ''yes'', ''on''}"

definition auth_armed :: "db \<Rightarrow> bool" where
  "auth_armed d = (case get_setting AUTH_SETTINGS_KEY d of None \<Rightarrow> False | Some v \<Rightarrow> true_text v)"

section \<open>Lemmas\<close>

lemma find_filter: "find P (filter Q xs) = find (\<lambda>x. Q x \<and> P x) xs"
  by (induction xs) auto

text \<open>The whole of \<open>verify_key\<close> as one search.\<close>

lemma verify_key_run:
  "verify_key cr now s pepper c =
     (if s = [] then (Inr None, c)
      else (case find (key_accepts cr now pepper s) (db_keys (cn_work c)) of
          None \<Rightarrow> (Inr None, c\<lparr>cn_committed := cn_work c\<rparr>)
        | Some k \<Rightarrow> (Inr (Some (ak_id k)),
            c\<lparr>cn_work := touch_key now (ak_id k) (cn_work c), cn_committed := touch_key now (ak_id k) (cn_work c)\<rparr>)))"
  by (auto simp: verify_key_def act_simps find_filter key_accepts_def[abs_def] split: option.splits)

lemma find_None: "find P xs = None \<longleftrightarrow> (\<forall>x \<in> set xs. \<not> P x)"
  by (induction xs) auto

lemma find_Some_in: "find P xs = Some x \<Longrightarrow> x \<in> set xs \<and> P x"
  by (induction xs) (auto split: if_splits)

lemma touch_key_others [simp]:
  "db_users (touch_key now kid d) = db_users d" "db_sessions (touch_key now kid d) = db_sessions d"
  "db_settings (touch_key now kid d) = db_settings d" "db_audit (touch_key now kid d) = db_audit d"
  by (simp_all add: touch_key_def)

text \<open>Revocation and the end of the grace are final for a key as long as its row stays.\<close>

lemma key_accepts_not_revoked: "key_accepts cr now pepper s k \<Longrightarrow> ak_revoked_at k = None"
  by (simp add: key_accepts_def key_candidate_def)

text \<open>What it means for a row to grant a secret: not revoked, its current digest is one of the two
  formats of the secret, or its previous digest is and the grace is not over.\<close>

definition key_grants :: "crypto \<Rightarrow> pyfloat \<Rightarrow> string \<Rightarrow> string \<Rightarrow> api_key \<Rightarrow> bool" where
  "key_grants cr now pepper secret k \<longleftrightarrow>
     ak_revoked_at k = None
     \<and> (ak_prefix k = take 8 secret \<or> ak_prev_prefix k = Some (take 8 secret))
     \<and> (\<exists>digest \<in> {hash_secret cr secret pepper, legacy_hash cr secret}.
          ak_hash k = digest
          \<or> ak_prev_hash k = Some digest \<and> digest \<noteq> []
            \<and> (case ak_prev_expires_at k of None \<Rightarrow> False | Some e \<Rightarrow> now < e))"

lemma key_accepts_iff: "key_accepts cr now pepper s k \<longleftrightarrow> key_grants cr now pepper s k"
  by (auto simp: key_accepts_def key_candidate_def key_matches_def grace_hash_def prefix_of_def
      key_grants_def split: option.splits if_splits)

text \<open>C7: A presented secret is accepted exactly when some row grants it: not revoked, found by its
  prefix, its digest (peppered or legacy) the current one or the previous one inside the
  rotation grace. The answer is then the id of such a row, whose use count in the committed
  database is one more; a refusal changes no row.\<close>

theorem verify_key_exact:
  assumes "s \<noteq> []"
  shows "\<exists>r c'. verify_key cr now s pepper c = (Inr r, c')
    \<and> (r = None \<longleftrightarrow> \<not> (\<exists>k \<in> set (db_keys (cn_work c)). key_grants cr now pepper s k))
    \<and> (r = None \<longrightarrow> cn_committed c' = cn_work c)
    \<and> (\<forall>kid. r = Some kid \<longrightarrow>
          (\<exists>k \<in> set (db_keys (cn_work c)). ak_id k = kid \<and> key_grants cr now pepper s k
             \<and> k\<lparr>ak_last_used := Some now, ak_request_count := ak_request_count k + 1\<rparr>
                 \<in> set (db_keys (cn_committed c'))))"
proof (cases "find (key_accepts cr now pepper s) (db_keys (cn_work c))")
  case None
  then show ?thesis
    using assms find_None[of "key_accepts cr now pepper s" "db_keys (cn_work c)"]
    by (simp add: verify_key_run key_accepts_iff)
next
  case (Some k)
  then have k: "k \<in> set (db_keys (cn_work c)) \<and> key_grants cr now pepper s k"
    using find_Some_in[OF Some] by (simp add: key_accepts_iff)
  moreover have "k\<lparr>ak_last_used := Some now, ak_request_count := ak_request_count k + 1\<rparr>
      \<in> set (db_keys (touch_key now (ak_id k) (cn_work c)))"
    using k by (force simp: touch_key_def)
  ultimately show ?thesis using assms Some by (auto simp: verify_key_run)
qed

definition toy_crypto :: crypto where
  "toy_crypto = \<lparr>cr_sha256 = (\<lambda>m. ''s'' @ m), cr_hmac = (\<lambda>p m. ''h'' @ p @ m)\<rparr>"

definition demo_key :: api_key where
  "demo_key = \<lparr>ak_id = ''k1'', ak_name = ''ci'', ak_prefix = ''lay_new0'', ak_hash = ''hPlay_new0'',
     ak_created_at = 0, ak_last_used = None, ak_revoked_at = None, ak_request_count = 4,
     ak_rate_limit = None, ak_burst = None, ak_prev_hash = Some ''hPlay_old0'',
     ak_prev_prefix = Some ''lay_old0'', ak_prev_expires_at = Some 300\<rparr>"

theorem verify_key_exact_witness:
  "fst (verify_key toy_crypto 299 ''lay_old0'' ''P'' (conn_open (empty_db\<lparr>db_keys := [demo_key]\<rparr>))) \<noteq> Inr None
   \<and> fst (verify_key toy_crypto 300 ''lay_old0'' ''P'' (conn_open (empty_db\<lparr>db_keys := [demo_key]\<rparr>))) = Inr None"
proof -
  let ?c = "conn_open (empty_db\<lparr>db_keys := [demo_key]\<rparr>)" and ?s = "''lay_old0''"
  have ne: "?s \<noteq> []" by simp
  have g: "key_grants toy_crypto 299 ''P'' ?s demo_key" "\<not> key_grants toy_crypto 300 ''P'' ?s demo_key"
    by code_simp+
  have rows: "set (db_keys (cn_work ?c)) = {demo_key}" by simp
  obtain r c1 where 1: "verify_key toy_crypto 299 ?s ''P'' ?c = (Inr r, c1)" "r \<noteq> None"
    using verify_key_exact[OF ne, of toy_crypto 299 "''P''" ?c] g(1) unfolding rows by blast
  obtain q c2 where 2: "verify_key toy_crypto 300 ?s ''P'' ?c = (Inr q, c2)" "q = None"
    using verify_key_exact[OF ne, of toy_crypto 300 "''P''" ?c] g(2) unfolding rows by blast
  show ?thesis unfolding 1 2(1) using 1(2) 2(2) by simp
qed

end
