(* ===== verification/Users.thy ===== *)
theory Users
  imports Database
begin

text \<open>
  Models \<open>layawatch/auth/users.py\<close>: the role ranking and permission table, the one role
  check with its committed \<open>denied\<close> audit row, user rows, and the guarded update and delete
  that keep the last enabled owner. Ids, timestamps and hashes are arguments (the code draws
  them from \<open>secrets\<close>, the clock and scrypt).
\<close>

section \<open>Roles and permissions\<close>

definition ROLES :: "string list" where
  "ROLES = [''viewer'', ''admin'', ''owner'']"

definition ROLE_RANK :: "(string \<times> int) list" where
  "ROLE_RANK = [(''viewer'', 0), (''admin'', 1), (''owner'', 2)]"

definition PERMISSIONS :: "(string \<times> string) list" where
  "PERMISSIONS =
    [(''traces.read'', ''viewer''), (''metrics.read'', ''viewer''), (''logs.read'', ''viewer''),
     (''models.read'', ''viewer''), (''keys.list'', ''viewer''), (''keys.read_auth'', ''viewer''),
     (''settings.read'', ''viewer''), (''auth.me'', ''viewer''),
     (''traces.write'', ''admin''), (''traces.delete'', ''admin''), (''logs.export'', ''admin''),
     (''models.write'', ''admin''), (''keys.write'', ''admin''), (''settings.write'', ''admin''),
     (''audit.read'', ''admin''), (''playground.run'', ''admin''),
     (''users.read'', ''admin''), (''users.write'', ''owner''), (''sessions.read'', ''owner''),
     (''sessions.revoke_all'', ''owner''), (''settings.capture'', ''owner'')]"

definition required_role :: "string \<Rightarrow> string" where
  "required_role permission =
     (case map_of PERMISSIONS permission of None \<Rightarrow> ''owner'' | Some r \<Rightarrow> r)"

definition role_rank :: "string \<Rightarrow> int" where
  "role_rank role = (case map_of ROLE_RANK role of None \<Rightarrow> -1 | Some n \<Rightarrow> n)"

definition role_allows :: "string \<Rightarrow> string \<Rightarrow> bool" where
  "role_allows role permission \<longleftrightarrow> role_rank role \<ge> role_rank (required_role permission)"

definition permissions_for :: "string \<Rightarrow> string list" where
  "permissions_for role = sort (filter (role_allows role) (map fst PERMISSIONS))"

section \<open>The principal and the role check\<close>

text \<open>The dataclass \<open>Principal\<close> of \<open>auth/sessions.py\<close>.\<close>

record principal =
  pr_kind :: string
  pr_role :: string
  pr_actor :: string
  pr_actor_id :: "string option"
  pr_user :: "user option"
  pr_session_id :: "string option"
  pr_key_id :: "string option"

definition forbidden :: "string \<Rightarrow> json option \<Rightarrow> exn" where
  "forbidden reason details = http_err 403 ''forbidden'' reason details"

text \<open>\<open>require_permission\<close>: a refusal commits its audit row, then raises.\<close>

definition require_permission ::
    "pyfloat \<Rightarrow> principal \<Rightarrow> string \<Rightarrow> string option \<Rightarrow> string option \<Rightarrow> ('z, unit) prog" where
  "require_permission now p permission action target =
     (let needed = required_role permission in
      if role_allows (pr_role p) permission then act_return ()
      else
        act_bind (audit now (pr_actor p)
           (case action of Some a \<Rightarrow> (if a = [] then permission else a) | None \<Rightarrow> permission)
           (pr_actor_id p) target ''denied''
           (Some (JObj [(''permission'', JStr permission), (''required_role'', JStr needed),
                        (''role'', JStr (pr_role p))])))
        (\<lambda>_. act_bind db_commit
        (\<lambda>_. act_raise (forbidden (permission @ '' requires the '' @ needed @ '' role'')
               (Some (JObj [(''required_role'', JStr needed), (''role'', JStr (pr_role p))]))))))"

section \<open>Emails and payloads\<close>

text \<open>\<open>_EMAIL_RE\<close>: one @, no white space, a dot strictly inside the domain.\<close>

definition email_shape :: "string \<Rightarrow> bool" where
  "email_shape e \<longleftrightarrow>
     (let (user_part, found, dom) = py_partition (CHR ''@'') e in
      found \<and> user_part \<noteq> [] \<and> CHR ''@'' \<notin> set dom \<and> list_all (\<lambda>c. \<not> py_isspace c) e
      \<and> (\<exists>i \<in> {1 ..< length dom - 1}. dom ! i = CHR ''.''))"

definition normalize_email :: "json \<Rightarrow> exn + string" where
  "normalize_email email =
     (case email of
        JStr s \<Rightarrow>
          if py_strip s = [] then Inl (bad_field ''email'' ''email is required'')
          else (let cleaned = py_lower (py_strip s) in
                if length cleaned > 254 \<or> \<not> email_shape cleaned
                then Inl (bad_field ''email'' ''email must look like an email address'')
                else Inr cleaned)
      | _ \<Rightarrow> Inl (bad_field ''email'' ''email is required''))"

definition user_payload :: "user \<Rightarrow> json" where
  "user_payload u =
     JObj [(''id'', JStr (us_id u)), (''email'', JStr (us_email u)), (''name'', JStr (us_name u)),
       (''role'', JStr (us_role u)), (''created_at'', JFloat (us_created_at u)),
       (''last_login_at'', json_opt_float (us_last_login_at u)),
       (''disabled'', JBool (us_disabled u)), (''must_change'', JBool (us_must_change u))]"

section \<open>Rows\<close>

definition fetch_user :: "string \<Rightarrow> db \<Rightarrow> user option" where
  "fetch_user uid d = find (\<lambda>u. us_id u = uid) (db_users d)"

definition map_user :: "string \<Rightarrow> (user \<Rightarrow> user) \<Rightarrow> db \<Rightarrow> db" where
  "map_user uid f d = d\<lparr>db_users := map (\<lambda>u. if us_id u = uid then f u else u) (db_users d)\<rparr>"

text \<open>\<open>insert_user\<close>: the UNIQUE constraints on id and email answer 409.\<close>

definition insert_user :: "string \<Rightarrow> pyfloat \<Rightarrow> string \<Rightarrow> string \<Rightarrow> string \<Rightarrow> string \<Rightarrow> bool
    \<Rightarrow> ('z, user) prog" where
  "insert_user uid now email name role password_hash must_change =
     (let u = \<lparr>us_id = uid, us_email = email, us_name = name, us_role = role,
               us_password_hash = password_hash, us_created_at = now, us_last_login_at = None,
               us_disabled = False, us_must_change = must_change\<rparr>
      in act_bind (db_query (\<lambda>d. \<exists>v \<in> set (db_users d). us_id v = uid \<or> us_email v = email))
         (\<lambda>clash. if clash
            then act_raise (http_err 409 ''email_taken'' ''a user with that email already exists'' None)
            else act_bind (db_exec (\<lambda>d. d\<lparr>db_users := db_users d @ [u]\<rparr>))
                   (\<lambda>_. act_return u)))"

definition enabled_owner :: "user \<Rightarrow> bool" where
  "enabled_owner u \<longleftrightarrow> us_role u = ''owner'' \<and> \<not> us_disabled u"

definition enabled_owner_count :: "string option \<Rightarrow> db \<Rightarrow> nat" where
  "enabled_owner_count excluding d =
     (case excluding of
        None \<Rightarrow> length (filter enabled_owner (db_users d))
      | Some x \<Rightarrow> length (filter (\<lambda>u. enabled_owner u \<and> us_id u \<noteq> x) (db_users d)))"

text \<open>\<open>UPDATE sessions SET revoked = 1 WHERE user_id = ? AND revoked = 0\<close>\<close>

definition revoke_sessions_where :: "(session \<Rightarrow> bool) \<Rightarrow> db \<Rightarrow> db" where
  "revoke_sessions_where P d =
     d\<lparr>db_sessions := map (\<lambda>s. if P s \<and> \<not> se_revoked s then s\<lparr>se_revoked := True\<rparr> else s)
        (db_sessions d)\<rparr>"

section \<open>Guards\<close>

definition denied :: "pyfloat \<Rightarrow> principal \<Rightarrow> string \<Rightarrow> string \<Rightarrow> string \<Rightarrow> ('z, 'a) prog" where
  "denied now p action target reason =
     act_bind (audit now (pr_actor p) action (pr_actor_id p) (Some target) ''denied''
        (Some (JObj [(''reason'', JStr reason), (''role'', JStr (pr_role p))])))
     (\<lambda>_. act_bind db_commit
     (\<lambda>_. act_raise (forbidden reason None)))"

definition guard_last_owner :: "pyfloat \<Rightarrow> principal \<Rightarrow> user \<Rightarrow> string \<Rightarrow> ('z, unit) prog" where
  "guard_last_owner now p target action =
     act_bind (db_query (enabled_owner_count (Some (us_id target))))
     (\<lambda>n. if us_role target = ''owner'' \<and> \<not> us_disabled target \<and> n = 0
           then denied now p action (us_id target)
                  ''the last enabled owner can never be deleted, demoted or disabled''
           else act_return ())"

definition guard_role_change :: "pyfloat \<Rightarrow> principal \<Rightarrow> user \<Rightarrow> ('z, unit) prog" where
  "guard_role_change now p target =
     (if pr_actor_id p = Some (us_id target)
      then denied now p ''user.role_changed'' (us_id target) ''users cannot change their own role''
      else act_when (us_role target = ''owner'' \<and> \<not> us_disabled target)
             (guard_last_owner now p target ''user.role_changed''))"

section \<open>Update and delete\<close>

text \<open>The validated PATCH fields; absent fields are None.\<close>

record user_patch =
  up_name :: "string option"
  up_role :: "string option"
  up_disabled :: "bool option"
  up_must_change :: "bool option"

definition role_changed :: "user \<Rightarrow> user_patch \<Rightarrow> bool" where
  "role_changed target patch \<longleftrightarrow>
     (case up_role patch of None \<Rightarrow> False | Some r \<Rightarrow> r \<noteq> us_role target)"

definition disabled_changed :: "user \<Rightarrow> user_patch \<Rightarrow> bool" where
  "disabled_changed target patch \<longleftrightarrow>
     (case up_disabled patch of None \<Rightarrow> False | Some b \<Rightarrow> b \<noteq> us_disabled target)"

definition set_or_keep :: "'a option \<Rightarrow> 'a \<Rightarrow> 'a" where
  "set_or_keep x y = (case x of None \<Rightarrow> y | Some z \<Rightarrow> z)"

definition patch_user :: "user_patch \<Rightarrow> user \<Rightarrow> user" where
  "patch_user patch u =
     u\<lparr>us_name := set_or_keep (up_name patch) (us_name u),
       us_role := set_or_keep (up_role patch) (us_role u),
       us_disabled := set_or_keep (up_disabled patch) (us_disabled u),
       us_must_change := set_or_keep (up_must_change patch) (us_must_change u)\<rparr>"

text \<open>\<open>apply_user_update\<close>, its guards and its writes.\<close>

definition user_update_guards :: "pyfloat \<Rightarrow> principal \<Rightarrow> user \<Rightarrow> user_patch \<Rightarrow> ('z, unit) prog" where
  "user_update_guards now p target patch =
     act_bind (act_when (role_changed target patch) (guard_role_change now p target))
     (\<lambda>_. act_when (up_disabled patch = Some True \<and> \<not> us_disabled target)
             (guard_last_owner now p target ''user.disabled''))"

definition user_update_writes :: "pyfloat \<Rightarrow> principal \<Rightarrow> user \<Rightarrow> user_patch \<Rightarrow> ('z, unit) prog" where
  "user_update_writes now p target patch =
     act_bind (db_exec (map_user (us_id target) (patch_user patch)))
     (\<lambda>_. act_bind (act_when (role_changed target patch)
        (act_bind (audit now (pr_actor p) ''user.role_changed'' (pr_actor_id p) (Some (us_id target))
            ''ok'' (Some (JObj [(''from'', JStr (us_role target)),
              (''to'', JStr (set_or_keep (up_role patch) (us_role target))),
              (''email'', JStr (us_email target))])))
         (\<lambda>_. db_exec (revoke_sessions_where (\<lambda>s. se_user_id s = us_id target)))))
     (\<lambda>_. act_when (disabled_changed target patch)
        (act_bind (audit now (pr_actor p) ''user.disabled'' (pr_actor_id p) (Some (us_id target))
            ''ok'' (Some (JObj [(''disabled'', JBool (up_disabled patch = Some True)),
              (''email'', JStr (us_email target))])))
         (\<lambda>_. act_when (up_disabled patch = Some True)
            (db_exec (revoke_sessions_where (\<lambda>s. se_user_id s = us_id target)))))))"

definition apply_user_update :: "pyfloat \<Rightarrow> principal \<Rightarrow> user \<Rightarrow> user_patch \<Rightarrow> ('z, json) prog" where
  "apply_user_update now p target patch =
     act_bind (user_update_guards now p target patch)
     (\<lambda>_. act_bind (user_update_writes now p target patch)
     (\<lambda>_. act_bind (db_query (fetch_user (us_id target)))
     (\<lambda>r. case r of None \<Rightarrow> act_raise (PyExc TypeError)
           | Some u \<Rightarrow> act_return (user_payload u))))"

text \<open>\<open>delete_user\<close>; the sessions of the user follow through ON DELETE CASCADE.\<close>

definition delete_user :: "pyfloat \<Rightarrow> principal \<Rightarrow> user \<Rightarrow> ('z, unit) prog" where
  "delete_user now p target =
     act_bind (act_when (pr_actor_id p = Some (us_id target))
        (denied now p ''user.deleted'' (us_id target) ''users cannot delete themselves''))
     (\<lambda>_. act_bind (guard_last_owner now p target ''user.deleted'')
     (\<lambda>_. act_bind (db_exec (\<lambda>d. d\<lparr>db_users := filter (\<lambda>u. us_id u \<noteq> us_id target) (db_users d),
                               db_sessions := filter (\<lambda>s. se_user_id s \<noteq> us_id target) (db_sessions d)\<rparr>))
     (\<lambda>_. audit now (pr_actor p) ''user.deleted'' (pr_actor_id p) (Some (us_id target)) ''ok''
        (Some (JObj [(''email'', JStr (us_email target)), (''role'', JStr (us_role target))])))))"

section \<open>The enabled owner is kept\<close>

definition has_owner :: "db \<Rightarrow> bool" where
  "has_owner d \<longleftrightarrow> (\<exists>u \<in> set (db_users d). enabled_owner u)"

definition owner_inv :: "db \<Rightarrow> bool" where
  "owner_inv d \<longleftrightarrow> distinct (map us_id (db_users d)) \<and> has_owner d"

lemma owner_inv_cong: "db_users d = db_users e \<Longrightarrow> owner_inv d = owner_inv e"
  by (simp add: owner_inv_def has_owner_def)

lemma owner_inv_upd [simp]:
  "owner_inv (d\<lparr>db_sessions := x\<rparr>) = owner_inv d"
  "owner_inv (d\<lparr>db_keys := y\<rparr>) = owner_inv d"
  "owner_inv (d\<lparr>db_settings := z\<rparr>) = owner_inv d"
  "owner_inv (d\<lparr>db_audit := r\<rparr>) = owner_inv d"
  by (simp_all add: owner_inv_def has_owner_def)

lemma owner_inv_audit [simp]: "owner_inv (audit_entry t a b c e f g d) = owner_inv d"
  by (rule owner_inv_cong) simp

lemma owner_inv_revoke [simp]: "owner_inv (revoke_sessions_where P d) = owner_inv d"
  by (rule owner_inv_cong) (simp add: revoke_sessions_where_def)

lemma fetch_user_Some: "fetch_user uid d = Some u \<Longrightarrow> u \<in> set (db_users d) \<and> us_id u = uid"
  by (auto simp: fetch_user_def find_Some_iff)

lemma other_owner:
  "0 < enabled_owner_count (Some uid) d \<longleftrightarrow>
     (\<exists>u \<in> set (db_users d). enabled_owner u \<and> us_id u \<noteq> uid)"
  by (auto simp: enabled_owner_count_def filter_empty_conv)

text \<open>A row may be rewritten when it stays an enabled owner or another one exists.\<close>

lemma owner_inv_map_user:
  assumes "owner_inv d" "fetch_user uid d = Some t" "\<And>u. us_id (f u) = us_id u"
    and "enabled_owner t \<Longrightarrow> \<not> enabled_owner (f t) \<Longrightarrow> 0 < enabled_owner_count (Some uid) d"
  shows "owner_inv (map_user uid f d)"
proof -
  let ?g = "\<lambda>u. if us_id u = uid then f u else u"
  have ids: "map us_id (map ?g (db_users d)) = map us_id (db_users d)"
    using assms(3) by simp
  have "\<exists>u \<in> set (map ?g (db_users d)). enabled_owner u"
  proof (cases "\<exists>u \<in> set (db_users d). enabled_owner u \<and> us_id u \<noteq> uid")
    case True
    then show ?thesis by force
  next
    case False
    with assms(1) obtain u where u: "u \<in> set (db_users d)" "enabled_owner u" "us_id u = uid"
      by (auto simp: owner_inv_def has_owner_def)
    moreover have "t \<in> set (db_users d)" "us_id t = uid" using fetch_user_Some[OF assms(2)] by auto
    ultimately have "u = t"
      using assms(1) by (auto simp: owner_inv_def distinct_map inj_on_def)
    with u False assms(4) have "enabled_owner (f u)" by (auto simp: other_owner)
    with u show ?thesis by force
  qed
  with assms(1) ids show ?thesis
    by (simp add: owner_inv_def has_owner_def map_user_def del: map_map)
qed

lemma owner_inv_delete:
  assumes "owner_inv d" "fetch_user uid d = Some t"
    and "enabled_owner t \<Longrightarrow> 0 < enabled_owner_count (Some uid) d"
  shows "owner_inv (d\<lparr>db_users := filter (\<lambda>u. us_id u \<noteq> uid) (db_users d), db_sessions := ss\<rparr>)"
proof -
  have "\<exists>u \<in> set (db_users d). enabled_owner u \<and> us_id u \<noteq> uid"
  proof (cases "enabled_owner t")
    case True
    with assms(3) show ?thesis by (simp add: other_owner)
  next
    case False
    from assms(1) obtain u where u: "u \<in> set (db_users d)" "enabled_owner u"
      by (auto simp: owner_inv_def has_owner_def)
    with False fetch_user_Some[OF assms(2)] assms(1) have "us_id u \<noteq> uid"
      by (auto simp: owner_inv_def distinct_map inj_on_def)
    with u show ?thesis by blast
  qed
  with assms(1) show ?thesis
    by (auto simp: owner_inv_def has_owner_def distinct_map_filter)
qed

section \<open>What the guards and the two mutations do\<close>

lemma denied_run: "denied now p a tg reason c =
   (Inl (forbidden reason None),
    c\<lparr>cn_work := audit_entry now (pr_actor p) a (pr_actor_id p) (Some tg) ''denied''
        (Some (JObj [(''reason'', JStr reason), (''role'', JStr (pr_role p))])) (cn_work c),
      cn_committed := audit_entry now (pr_actor p) a (pr_actor_id p) (Some tg) ''denied''
        (Some (JObj [(''reason'', JStr reason), (''role'', JStr (pr_role p))])) (cn_work c)\<rparr>)"
  by (simp add: denied_def act_simps)

lemma keeps_denied [keeps_rules]:
  "(\<And>d r. I d \<Longrightarrow> I (d\<lparr>db_audit := r\<rparr>)) \<Longrightarrow> keeps I (denied now p a tg reason)"
  unfolding denied_def by (intro keeps_rules keeps_audit)

lemma guard_last_owner_run:
  "guard_last_owner now p t a c =
     (if enabled_owner t \<and> enabled_owner_count (Some (us_id t)) (cn_work c) = 0
      then denied now p a (us_id t)
             ''the last enabled owner can never be deleted, demoted or disabled'' c
      else (Inr (), c))"
  by (simp add: guard_last_owner_def act_simps enabled_owner_def)

text \<open>Demoting or disabling an enabled owner is let through only when another one exists.\<close>

definition owner_lost :: "user \<Rightarrow> user_patch \<Rightarrow> bool" where
  "owner_lost t patch \<longleftrightarrow> enabled_owner t \<and> \<not> enabled_owner (patch_user patch t)"

lemma owner_lost_iff:
  "owner_lost t patch \<longleftrightarrow> enabled_owner t \<and>
     (role_changed t patch \<or> up_disabled patch = Some True \<and> \<not> us_disabled t)"
  by (auto simp: owner_lost_def enabled_owner_def patch_user_def role_changed_def set_or_keep_def
      split: option.splits)

lemma denied_Inl: "denied now p a tg reason c = (Inr x, c') \<longleftrightarrow> False"
  by (simp add: denied_run)

lemma user_update_guards_Inr:
  assumes "user_update_guards now p t patch c = (Inr x, c')"
  shows "c' = c \<and> (owner_lost t patch \<longrightarrow> 0 < enabled_owner_count (Some (us_id t)) (cn_work c))
    \<and> (role_changed t patch \<longrightarrow> pr_actor_id p \<noteq> Some (us_id t))"
proof -
  have g: "act_when b (guard_last_owner now p t a) s = (Inr y, s') \<Longrightarrow>
      s' = s \<and> (b \<longrightarrow> enabled_owner t \<longrightarrow> 0 < enabled_owner_count (Some (us_id t)) (cn_work s))"
    for b a and s s' :: "'a conn_scheme" and y
    by (auto simp: act_when_def guard_last_owner_run act_return_def denied_run split: if_splits)
  from assms obtain y s where
    1: "act_when (role_changed t patch) (guard_role_change now p t) c = (Inr y, s)" and
    2: "act_when (up_disabled patch = Some True \<and> \<not> us_disabled t)
          (guard_last_owner now p t ''user.disabled'') s = (Inr x, c')"
    unfolding user_update_guards_def by (blast elim: act_bind_InrE)
  have r: "s = c \<and> (role_changed t patch \<longrightarrow> pr_actor_id p \<noteq> Some (us_id t)
      \<and> (enabled_owner t \<longrightarrow> 0 < enabled_owner_count (Some (us_id t)) (cn_work c)))"
  proof (cases "role_changed t patch")
    case False
    with 1 show ?thesis by (simp add: act_when_def act_return_def)
  next
    case True
    with 1 have "guard_role_change now p t c = (Inr y, s)" by (simp add: act_when_def)
    then have n: "pr_actor_id p \<noteq> Some (us_id t)"
      and w: "act_when (us_role t = ''owner'' \<and> \<not> us_disabled t)
            (guard_last_owner now p t ''user.role_changed'') c = (Inr y, s)"
      by (auto simp: guard_role_change_def denied_run split: if_splits)
    from n g[OF w] show ?thesis by (auto simp: enabled_owner_def)
  qed
  with g[OF 2] show ?thesis by (auto simp: owner_lost_iff)
qed

lemma user_update_writes_run:
  "\<exists>r. user_update_writes now p t patch c = (Inr (), c\<lparr>cn_work := r\<rparr>)
     \<and> db_users r = db_users (map_user (us_id t) (patch_user patch) (cn_work c))
     \<and> db_keys r = db_keys (cn_work c) \<and> db_settings r = db_settings (cn_work c)
     \<and> db_sessions r = (if role_changed t patch \<or> disabled_changed t patch \<and> up_disabled patch = Some True
         then db_sessions (revoke_sessions_where (\<lambda>s. se_user_id s = us_id t) (cn_work c))
         else db_sessions (cn_work c))"
  by (auto simp: user_update_writes_def act_simps act_when_def map_user_def revoke_sessions_where_def audit_def)

lemma apply_user_update_Inl:
  "apply_user_update now p t patch c = (Inl e, c') \<Longrightarrow>
     user_update_guards now p t patch c = (Inl e, c')
     \<or> (\<exists>r. user_update_guards now p t patch c = (Inr (), c) \<and>
          user_update_writes now p t patch c = (Inr (), r) \<and> c' = r \<and> fetch_user (us_id t) (cn_work r) = None)"
  using user_update_writes_run[of now p t patch c]
  by (auto simp: apply_user_update_def act_bind_Inl db_query_def act_get_def act_raise_def act_return_def
      dest!: user_update_guards_Inr split: option.splits)

lemma find_map_key:
  "(\<And>u. us_id (f u) = us_id u) \<Longrightarrow>
   find (\<lambda>u. us_id u = uid) (map (\<lambda>u. if us_id u = uid then f u else u) us)
     = map_option f (find (\<lambda>u. us_id u = uid) us)"
  by (induction us) auto

lemma fetch_map_user:
  "(\<And>u. us_id (f u) = us_id u) \<Longrightarrow>
   fetch_user uid (map_user uid f d) = map_option f (fetch_user uid d)"
  unfolding fetch_user_def map_user_def by (simp add: find_map_key)

lemma fetch_user_cong: "db_users d = db_users e \<Longrightarrow> fetch_user uid d = fetch_user uid e"
  by (simp add: fetch_user_def)

lemma patch_user_id [simp]: "us_id (patch_user patch u) = us_id u"
  by (simp add: patch_user_def)

lemma apply_user_update_Inr:
  assumes "fetch_user (us_id t) (cn_work c) = Some t"
    and "apply_user_update now p t patch c = (Inr j, c')"
  shows "user_update_guards now p t patch c = (Inr (), c) \<and>
    user_update_writes now p t patch c = (Inr (), c') \<and> j = user_payload (patch_user patch t)"
proof -
  from assms(2) obtain s where g: "user_update_guards now p t patch c = (Inr (), s)"
    and w: "act_bind (user_update_writes now p t patch) (\<lambda>_. act_bind (db_query (fetch_user (us_id t)))
       (\<lambda>r. case r of None \<Rightarrow> act_raise (PyExc TypeError) | Some u \<Rightarrow> act_return (user_payload u))) s = (Inr j, c')"
    unfolding apply_user_update_def by (rule act_bind_InrE) auto
  have s: "s = c" using user_update_guards_Inr[OF g] by simp
  obtain r where r: "user_update_writes now p t patch c = (Inr (), c\<lparr>cn_work := r\<rparr>)"
    and u: "db_users r = db_users (map_user (us_id t) (patch_user patch) (cn_work c))"
    using user_update_writes_run[of now p t patch c] by blast
  have "fetch_user (us_id t) r = Some (patch_user patch t)"
    using fetch_map_user[of "patch_user patch" "us_id t" "cn_work c"] fetch_user_cong[OF u] assms(1) by simp
  then show ?thesis
    using g w s r by (simp add: act_bind_def[of "user_update_writes now p t patch"] act_simps)
qed

lemma keeps_user_update_guards: "keeps owner_inv (user_update_guards now p t patch)"
  unfolding user_update_guards_def guard_role_change_def guard_last_owner_def
  by (intro keeps_rules) (simp_all add: keeps_rules)

lemma apply_user_update_keeps:
  assumes "conn_inv owner_inv c" "fetch_user (us_id t) (cn_work c) = Some t"
  shows "conn_inv owner_inv (snd (apply_user_update now p t patch c))"
proof -
  obtain r where r: "user_update_writes now p t patch c = (Inr (), c\<lparr>cn_work := r\<rparr>)"
    and u: "db_users r = db_users (map_user (us_id t) (patch_user patch) (cn_work c))"
    using user_update_writes_run[of now p t patch c] by blast
  have ok: "conn_inv owner_inv (c\<lparr>cn_work := r\<rparr>)"
    if "user_update_guards now p t patch c = (Inr (), c)"
  proof -
    have "owner_inv (map_user (us_id t) (patch_user patch) (cn_work c))"
      using user_update_guards_Inr[OF that] assms
      by (intro owner_inv_map_user) (auto simp: conn_inv_def owner_lost_def)
    then show ?thesis using assms owner_inv_cong[OF u] by (simp add: conn_inv_def)
  qed
  show ?thesis
  proof (cases "apply_user_update now p t patch c")
    case (Pair o' c')
    show ?thesis
    proof (cases o')
      case (Inl e)
      with Pair have "user_update_guards now p t patch c = (Inl e, c') \<or> c' = c\<lparr>cn_work := r\<rparr>
          \<and> user_update_guards now p t patch c = (Inr (), c)"
        using apply_user_update_Inl[of now p t patch c e c'] r by auto
      then show ?thesis
        using keepsD[OF keeps_user_update_guards assms(1), of now p t patch] ok Pair by auto
    next
      case (Inr j)
      with Pair apply_user_update_Inr[OF assms(2), of now p patch j c'] r ok show ?thesis by auto
    qed
  qed
qed

lemma delete_user_keeps:
  assumes "conn_inv owner_inv c" "fetch_user (us_id t) (cn_work c) = Some t"
  shows "conn_inv owner_inv (snd (delete_user now p t c))"
proof -
  have del: "0 < enabled_owner_count (Some (us_id t)) (cn_work c) \<or> \<not> enabled_owner t \<Longrightarrow>
     owner_inv (cn_work c\<lparr>db_users := filter (\<lambda>u. us_id u \<noteq> us_id t) (db_users (cn_work c)),
                  db_sessions := ss\<rparr>)" for ss
    using assms by (intro owner_inv_delete) (auto simp: conn_inv_def)
  then show ?thesis
    using assms
    by (auto simp: delete_user_def act_simps act_bind_def[of "denied _ _ _ _ _"] denied_run conn_inv_def
        act_bind_def[of "guard_last_owner _ _ _ _"] guard_last_owner_run audit_def)
qed

lemma insert_user_keeps [keeps_rules]: "keeps owner_inv (insert_user uid now em nm role h mc)"
  unfolding keeps_def
  by (auto simp: insert_user_def act_simps conn_inv_def owner_inv_def has_owner_def Let_def)

section \<open>Properties\<close>

definition demo_user :: "string \<Rightarrow> string \<Rightarrow> user" where
  "demo_user uid role = \<lparr>us_id = uid, us_email = uid @ ''@x.io'', us_name = uid, us_role = role,
     us_password_hash = ''h'', us_created_at = 0, us_last_login_at = None, us_disabled = False,
     us_must_change = False\<rparr>"

definition demo_session :: "string \<Rightarrow> string \<Rightarrow> session" where
  "demo_session sid uid = \<lparr>se_id = sid, se_user_id = uid, se_created_at = 0, se_expires_at = 100,
     se_last_seen = 0, se_user_agent = None, se_ip = None, se_revoked = False\<rparr>"

definition demo_principal :: "string \<Rightarrow> string \<Rightarrow> principal" where
  "demo_principal uid role = \<lparr>pr_kind = ''session'', pr_role = role, pr_actor = uid,
     pr_actor_id = Some uid, pr_user = Some (demo_user uid role), pr_session_id = Some ''s'',
     pr_key_id = None\<rparr>"

definition two_owners :: db where
  "two_owners = empty_db\<lparr>db_users := [demo_user ''a'' ''owner'', demo_user ''b'' ''owner''],
     db_sessions := [demo_session ''s1'' ''a'', demo_session ''s2'' ''b'']\<rparr>"

definition demote :: user_patch where
  "demote = \<lparr>up_name = None, up_role = Some ''viewer'', up_disabled = None, up_must_change = None\<rparr>"

text \<open>A PATCH that is let through answers the patched row, rewrites only the target's row, and,
  when the role changed or the account was disabled, leaves the target no live session while
  every other user's sessions stay as they were. Nothing is committed before the caller commits.\<close>

theorem apply_user_update_effect:
  assumes "fetch_user (us_id t) (cn_work c) = Some t"
    and "apply_user_update now p t patch c = (Inr j, c')"
  shows "j = user_payload (patch_user patch t)
    \<and> db_users (cn_work c') = map (\<lambda>u. if us_id u = us_id t then patch_user patch u else u)
        (db_users (cn_work c))
    \<and> (role_changed t patch \<or> disabled_changed t patch \<and> up_disabled patch = Some True \<longrightarrow>
         filter (\<lambda>s. se_user_id s = us_id t \<and> \<not> se_revoked s) (db_sessions (cn_work c')) = [])
    \<and> filter (\<lambda>s. se_user_id s \<noteq> us_id t) (db_sessions (cn_work c'))
        = filter (\<lambda>s. se_user_id s \<noteq> us_id t) (db_sessions (cn_work c))
    \<and> cn_committed c' = cn_committed c"
proof -
  obtain r where r: "c' = c\<lparr>cn_work := r\<rparr>"
    and u: "db_users r = db_users (map_user (us_id t) (patch_user patch) (cn_work c))"
    and s: "db_sessions r = (if role_changed t patch \<or> disabled_changed t patch \<and> up_disabled patch = Some True
         then db_sessions (revoke_sessions_where (\<lambda>s. se_user_id s = us_id t) (cn_work c))
         else db_sessions (cn_work c))"
    using user_update_writes_run[of now p t patch c] apply_user_update_Inr[OF assms] by auto
  have others: "filter (\<lambda>s. se_user_id s \<noteq> k)
      (map (\<lambda>s. if se_user_id s = k \<and> \<not> se_revoked s then s\<lparr>se_revoked := True\<rparr> else s) ss)
      = filter (\<lambda>s. se_user_id s \<noteq> k) ss" for k ss
    by (induction ss) auto
  show ?thesis
    using apply_user_update_Inr[OF assms] others
    by (auto simp: r u s map_user_def revoke_sessions_where_def filter_empty_conv)
qed

definition demoted_conn :: conn where
  "demoted_conn = snd (apply_user_update 5 (demo_principal ''b'' ''owner'') (demo_user ''a'' ''owner'')
     demote (conn_open two_owners))"

lemma update_demo_guards:
  "user_update_guards 5 (demo_principal ''b'' ''owner'') (demo_user ''a'' ''owner'') demote
     (conn_open two_owners) = (Inr (), conn_open two_owners)"
  by code_simp

theorem apply_user_update_effect_witness:
  "filter (\<lambda>s. se_user_id s = ''a'' \<and> \<not> se_revoked s) (db_sessions (cn_work demoted_conn)) = []
   \<and> map us_role (db_users (cn_work demoted_conn)) = [''viewer'', ''owner'']"
proof -
  let ?t = "demo_user ''a'' ''owner''" and ?c = "conn_open two_owners"
  have f: "fetch_user (us_id ?t) (cn_work ?c) = Some ?t"
    by (simp add: fetch_user_def two_owners_def demo_user_def)
  obtain j where a: "apply_user_update 5 (demo_principal ''b'' ''owner'') ?t demote ?c = (Inr j, demoted_conn)"
    using update_demo_guards f
    by (auto simp: demoted_conn_def apply_user_update_def act_bind_def[of "user_update_guards _ _ _ _"]
        user_update_writes_def act_simps fetch_map_user demote_def role_changed_def disabled_changed_def
        act_when_def fetch_user_def map_user_def revoke_sessions_where_def demo_user_def
        patch_user_def set_or_keep_def two_owners_def)
  have "role_changed ?t demote" by code_simp
  with apply_user_update_effect[OF f a]
  have "filter (\<lambda>s. se_user_id s = us_id ?t \<and> \<not> se_revoked s) (db_sessions (cn_work demoted_conn)) = []"
    by blast
  moreover have "us_id ?t = ''a''" by (simp add: demo_user_def)
  moreover have "map us_role (db_users (cn_work demoted_conn)) = [''viewer'', ''owner'']" by code_simp
  ultimately show ?thesis by simp
qed

text \<open>The audit row of a refusal.\<close>

definition denial_row :: "pyfloat \<Rightarrow> principal \<Rightarrow> string \<Rightarrow> string option \<Rightarrow> string option \<Rightarrow> db \<Rightarrow> audit_row" where
  "denial_row now p permission action target d =
     \<lparr>au_id = Suc (length (db_audit d)), au_ts = now, au_actor_id = pr_actor_id p,
      au_actor = pr_actor p,
      au_action = (case action of None \<Rightarrow> permission | Some a \<Rightarrow> if a = [] then permission else a),
      au_target = target, au_result = ''denied'',
      au_meta = Some (JObj [(''permission'', JStr permission),
        (''required_role'', JStr (required_role permission)), (''role'', JStr (pr_role p))])\<rparr>"

text \<open>The one role check refuses exactly the roles ranked below the permission's requirement;
  the refusal is a 403 and its \<open>denied\<close> audit row is committed, so it is still there after the
  connection is closed; a role that suffices leaves the connection untouched.\<close>

theorem require_permission_denial_is_audited:
  "(if role_rank (required_role permission) \<le> role_rank (pr_role p)
    then require_permission now p permission action target c = (Inr (), c)
    else fst (with_conn (require_permission now p permission action target) c)
           = Inl (forbidden (permission @ '' requires the '' @ required_role permission @ '' role'')
               (Some (JObj [(''required_role'', JStr (required_role permission)), (''role'', JStr (pr_role p))])))
       \<and> cn_committed (snd (with_conn (require_permission now p permission action target) c))
           = (cn_work c)\<lparr>db_audit := db_audit (cn_work c) @ [denial_row now p permission action target (cn_work c)]\<rparr>)"
  by (auto simp: require_permission_def role_allows_def act_simps with_conn_run Let_def audit_entry_def
      denial_row_def split: option.splits)

section \<open>Two updates at once\<close>

text \<open>
  The guards read before the first write and no lock is taken, so another request can run
  between the guards of \<open>apply_user_update\<close> and its writes: one step is the guard phase, one
  the writes and the commit of the handler.
\<close>

datatype race_pc = Fetching | Guarded user | Written | Refused

record update_request =
  ur_principal :: principal
  ur_uid :: string
  ur_patch :: user_patch

inductive request_step :: "pyfloat \<Rightarrow> update_request \<Rightarrow> race_pc \<times> db \<Rightarrow> race_pc \<times> db \<Rightarrow> bool"
  for now rq where
  guard: "\<lbrakk>fetch_user (ur_uid rq) d = Some t;
           user_update_guards now (ur_principal rq) t (ur_patch rq) (conn_open d) = (Inr (), c)\<rbrakk>
    \<Longrightarrow> request_step now rq (Fetching, d) (Guarded t, d)"
| refuse: "\<lbrakk>fetch_user (ur_uid rq) d = Some t;
           user_update_guards now (ur_principal rq) t (ur_patch rq) (conn_open d) = (Inl e, c)\<rbrakk>
    \<Longrightarrow> request_step now rq (Fetching, d) (Refused, cn_committed c)"
| write_rows: "act_bind (user_update_writes now (ur_principal rq) t (ur_patch rq)) (\<lambda>_. db_commit) (conn_open d)
           = (Inr (), c)
    \<Longrightarrow> request_step now rq (Guarded t, d) (Written, cn_committed c)"

inductive race_step :: "pyfloat \<Rightarrow> update_request \<Rightarrow> update_request
    \<Rightarrow> race_pc \<times> race_pc \<times> db \<Rightarrow> race_pc \<times> race_pc \<times> db \<Rightarrow> bool"
  for now r1 r2 where
  left_step: "request_step now r1 (a, d) (a', d') \<Longrightarrow> race_step now r1 r2 (a, b, d) (a', b, d')"
| right_step: "request_step now r2 (b, d) (b', d') \<Longrightarrow> race_step now r1 r2 (a, b, d) (a, b', d')"

inductive_cases request_step_fetchingE [elim]: "request_step now rq (Fetching, d) s"
inductive_cases request_step_guardedE [elim]: "request_step now rq (Guarded t, d) s"
inductive_simps request_step_done [simp]: "request_step now rq (Written, d) s"
  "request_step now rq (Refused, d) s"

definition race_request :: "string \<Rightarrow> string \<Rightarrow> update_request" where
  "race_request actor uid = \<lparr>ur_principal = demo_principal actor ''owner'', ur_uid = uid, ur_patch = demote\<rparr>"

text \<open>The guard phase and the write phase of one request, run without a step of the other in
  between, keep the enabled owner.\<close>

lemma uninterrupted_request_keeps_owner:
  assumes "owner_inv d" "request_step now rq (Fetching, d) (pc, d1)" "request_step now rq (pc, d1) (pc', d2)"
  shows "owner_inv d2"
proof -
  have i: "conn_inv owner_inv (conn_open d)" using assms(1) by (simp add: conn_inv_def)
  from assms(2) show ?thesis
  proof cases
    case (guard t c)
    from assms(3) guard(1) obtain c2 where w:
      "act_bind (user_update_writes now (ur_principal rq) t (ur_patch rq)) (\<lambda>_. db_commit) (conn_open d) = (Inr (), c2)"
      and d2: "d2 = cn_committed c2" using guard(2) by auto
    obtain r where r: "user_update_writes now (ur_principal rq) t (ur_patch rq) (conn_open d)
        = (Inr (), conn_open d\<lparr>cn_work := r\<rparr>)"
      and u: "db_users r = db_users (map_user (us_id t) (patch_user (ur_patch rq)) (cn_work (conn_open d)))"
      using user_update_writes_run[of now "ur_principal rq" t "ur_patch rq" "conn_open d"] by blast
    have "d2 = r" using w r d2 by (auto simp: act_bind_def act_simps)
    moreover have "owner_inv (map_user (us_id t) (patch_user (ur_patch rq)) d)"
      using user_update_guards_Inr[OF guard(4)] guard(3) assms(1) fetch_user_Some[OF guard(3)]
      by (intro owner_inv_map_user) (auto simp: owner_lost_def)
    ultimately show ?thesis using owner_inv_cong[OF u] by simp
  next
    case (refuse t e c)
    with assms(3) show ?thesis by simp
  qed
qed

text \<open>The last-owner guard is not safe under interleaving: from a database with two enabled
  owners, each demoting the other at the same time, both requests pass their guards and both
  commit, and no enabled owner is left.\<close>

theorem concurrent_demotions_lose_the_owner:
  "owner_inv two_owners \<and>
   (\<exists>d. (race_step 5 (race_request ''b'' ''a'') (race_request ''a'' ''b''))\<^sup>*\<^sup>*
       (Fetching, Fetching, two_owners) (Written, Written, d) \<and> \<not> has_owner d)"
proof
  show "owner_inv two_owners" by code_simp
next
  let ?r1 = "race_request ''b'' ''a''" and ?r2 = "race_request ''a'' ''b''"
  let ?a = "demo_user ''a'' ''owner''" and ?b = "demo_user ''b'' ''owner''"
  let ?w = "\<lambda>r t d. act_bind (user_update_writes 5 (ur_principal r) t (ur_patch r)) (\<lambda>_. db_commit) (conn_open d)"
  define d1 where "d1 = cn_committed (snd (?w ?r1 ?a two_owners))"
  define d2 where "d2 = cn_committed (snd (?w ?r2 ?b d1))"
  have run: "?w r t d = (Inr (), snd (?w r t d))" for r t d
    using user_update_writes_run[of 5 "ur_principal r" t "ur_patch r" "conn_open d"]
    by (auto simp: act_bind_def act_simps)
  have g1: "request_step 5 ?r1 (Fetching, two_owners) (Guarded ?a, two_owners)"
    by (rule request_step.guard[where c = "conn_open two_owners"]) code_simp+
  have g2: "request_step 5 ?r2 (Fetching, two_owners) (Guarded ?b, two_owners)"
    by (rule request_step.guard[where c = "conn_open two_owners"]) code_simp+
  have w1: "request_step 5 ?r1 (Guarded ?a, two_owners) (Written, d1)"
    unfolding d1_def by (rule request_step.write_rows[OF run])
  have w2: "request_step 5 ?r2 (Guarded ?b, d1) (Written, d2)"
    unfolding d2_def by (rule request_step.write_rows[OF run])
  have "(race_step 5 ?r1 ?r2)\<^sup>*\<^sup>* (Fetching, Fetching, two_owners) (Written, Written, d2)"
    by (meson rtranclp.intros left_step[OF g1] right_step[OF g2] left_step[OF w1] right_step[OF w2])
  moreover have "\<not> has_owner d2"
    unfolding d2_def d1_def by code_simp
  ultimately show "\<exists>d. (race_step 5 ?r1 ?r2)\<^sup>*\<^sup>* (Fetching, Fetching, two_owners) (Written, Written, d) \<and> \<not> has_owner d"
    by blast
qed

end
