(* ===== verification/Sessions.thy ===== *)
theory Sessions
  imports Csrf Keys Users
begin

text \<open>
  Models \<open>layawatch/auth/sessions.py\<close>: session rows, resolution of a token, revocation,
  \<open>authenticate\<close>, \<open>gate\<close> and the browser half of it the middleware runs. One clock reading
  serves a whole call; tokens are arguments; \<open>request.principal\<close> is passed as the argument
  \<open>cached\<close>.
\<close>

definition SESSION_COOKIE :: string where
  "SESSION_COOKIE = ''lw_session''"

definition MUST_CHANGE_PATH :: string where
  "MUST_CHANGE_PATH = ''/api/v1/auth/password''"

definition PUBLIC_PATHS :: "string list" where
  "PUBLIC_PATHS = [''/api/v1/auth/login'', ''/api/v1/auth/setup'']"

definition session_token_from :: "request \<Rightarrow> string option" where
  "session_token_from rq = cookie_value rq SESSION_COOKIE"

definition token_digest :: "crypto \<Rightarrow> string \<Rightarrow> string" where
  "token_digest cr token = cr_sha256 cr (utf8_bytes token)"

text \<open>\<open>x or None\<close> on strings.\<close>

definition nonempty :: "string \<Rightarrow> string option" where
  "nonempty s = (if s = [] then None else Some s)"

definition issue_session :: "crypto \<Rightarrow> pyfloat \<Rightarrow> string \<Rightarrow> string \<Rightarrow> request \<Rightarrow> int \<Rightarrow> ('z, string) prog" where
  "issue_session cr now token user_id rq ttl =
     act_bind (db_query (\<lambda>d. \<exists>s \<in> set (db_sessions d). se_id s = token_digest cr token))
     (\<lambda>clash. if clash then act_raise (PyExc IntegrityError)
        else act_bind (db_exec (\<lambda>d. d\<lparr>db_sessions := db_sessions d @
               [\<lparr>se_id = token_digest cr token, se_user_id = user_id, se_created_at = now,
                 se_expires_at = now + of_int ttl, se_last_seen = now,
                 se_user_agent = nonempty (take 256 (header rq ''user-agent'')),
                 se_ip = nonempty (rq_client_ip rq), se_revoked = False\<rparr>]\<rparr>))
             (\<lambda>_. act_return token))"

text \<open>The join of the lookup: a live session and its enabled user.\<close>

definition live_session :: "pyfloat \<Rightarrow> string \<Rightarrow> db \<Rightarrow> (session \<times> user) option" where
  "live_session now sid d =
     (case find (\<lambda>s. se_id s = sid \<and> \<not> se_revoked s \<and> se_expires_at s > now) (db_sessions d) of
        None \<Rightarrow> None
      | Some s \<Rightarrow> map_option (Pair s)
          (find (\<lambda>u. us_id u = se_user_id s \<and> \<not> us_disabled u) (db_users d)))"

definition touch_session :: "pyfloat \<Rightarrow> string \<Rightarrow> db \<Rightarrow> db" where
  "touch_session now sid d = d\<lparr>db_sessions :=
     map (\<lambda>s. if se_id s = sid then s\<lparr>se_last_seen := now\<rparr> else s) (db_sessions d)\<rparr>"

definition resolve_session :: "crypto \<Rightarrow> pyfloat \<Rightarrow> string \<Rightarrow> ('z, (session \<times> user) option) prog" where
  "resolve_session cr now token =
     (if token = [] then act_return None
      else act_bind (db_query (live_session now (token_digest cr token)))
        (\<lambda>row. case row of
             None \<Rightarrow> act_return None
           | Some (s, u) \<Rightarrow>
               act_bind (act_when (now - se_last_seen s \<ge> 60) (db_exec (touch_session now (se_id s))))
               (\<lambda>_. act_return (Some (s, u)))))"

section \<open>Revocation\<close>

text \<open>Each UPDATE answers its row count.\<close>

definition revoke_where :: "(session \<Rightarrow> bool) \<Rightarrow> ('z, nat) prog" where
  "revoke_where P =
     act_bind (db_query (\<lambda>d. length (filter (\<lambda>s. P s \<and> \<not> se_revoked s) (db_sessions d))))
     (\<lambda>n. act_bind (db_exec (revoke_sessions_where P)) (\<lambda>_. act_return n))"

definition revoke_session :: "string \<Rightarrow> ('z, bool) prog" where
  "revoke_session sid = act_bind (revoke_where (\<lambda>s. se_id s = sid)) (\<lambda>n. act_return (n > 0))"

definition revoke_other_sessions :: "string \<Rightarrow> string option \<Rightarrow> ('z, nat) prog" where
  "revoke_other_sessions uid keep =
     revoke_where (\<lambda>s. se_user_id s = uid \<and> (case keep of None \<Rightarrow> True | Some k \<Rightarrow> se_id s \<noteq> k))"

definition revoke_all_sessions :: "string option \<Rightarrow> ('z, nat) prog" where
  "revoke_all_sessions keep = revoke_where (\<lambda>s. case keep of None \<Rightarrow> True | Some k \<Rightarrow> se_id s \<noteq> k)"

section \<open>Authentication\<close>

definition session_principal :: "session \<Rightarrow> user \<Rightarrow> principal" where
  "session_principal s u = \<lparr>pr_kind = ''session'', pr_role = us_role u, pr_actor = us_email u,
     pr_actor_id = Some (us_id u), pr_user = Some u, pr_session_id = Some (se_id s), pr_key_id = None\<rparr>"

definition key_principal :: "string \<Rightarrow> principal" where
  "key_principal kid = \<lparr>pr_kind = ''api_key'', pr_role = ''viewer'', pr_actor = ''key:'' @ kid,
     pr_actor_id = None, pr_user = None, pr_session_id = None, pr_key_id = Some kid\<rparr>"

definition presented_key :: "request \<Rightarrow> string option" where
  "presented_key rq =
     (let h = header rq ''x-api-key''; a = header rq ''authorization'' in
      if py_strip h \<noteq> [] then Some (py_strip h)
      else if py_startswith (py_lower a) ''bearer '' \<and> py_strip (drop 7 a) \<noteq> []
      then Some (py_strip (drop 7 a)) else None)"

definition authenticate :: "crypto \<Rightarrow> pyfloat \<Rightarrow> string \<Rightarrow> principal option \<Rightarrow> request
    \<Rightarrow> ('z, principal option) prog" where
  "authenticate cr now pepper cached rq =
     (case cached of
        Some p \<Rightarrow> act_return (Some p)
      | None \<Rightarrow>
          (case session_token_from rq of
             Some token \<Rightarrow>
               act_bind (with_conn (resolve_session cr now token))
               (\<lambda>r. act_return (map_option (\<lambda>(s, u). session_principal s u) r))
           | None \<Rightarrow>
               (case presented_key rq of
                  None \<Rightarrow> act_return None
                | Some k \<Rightarrow>
                    act_bind (with_conn (verify_key cr now k pepper))
                    (\<lambda>r. act_return (map_option key_principal r)))))"

definition unauthenticated :: exn where
  "unauthenticated = http_err 401 ''missing_or_invalid_credential'' ''missing or invalid credential'' None"

definition must_change_error :: exn where
  "must_change_error = http_err 403 ''password_change_required''
     ''a new password is required before any other action'' None"

text \<open>A \<open>must_change\<close> user may only call \<open>POST /api/v1/auth/password\<close>.\<close>

definition must_change_blocks :: "request \<Rightarrow> principal \<Rightarrow> bool" where
  "must_change_blocks rq p \<longleftrightarrow>
     (case pr_user p of None \<Rightarrow> False | Some u \<Rightarrow> us_must_change u)
     \<and> \<not> (rq_method rq = ''POST'' \<and> rq_path rq = MUST_CHANGE_PATH)"

definition gate :: "crypto \<Rightarrow> pyfloat \<Rightarrow> string \<Rightarrow> principal option \<Rightarrow> request \<Rightarrow> string option
    \<Rightarrow> string option \<Rightarrow> string option \<Rightarrow> ('z, principal) prog" where
  "gate cr now pepper cached rq permission action target =
     act_bind (authenticate cr now pepper cached rq)
     (\<lambda>r. case r of
          None \<Rightarrow> act_raise unauthenticated
        | Some p \<Rightarrow>
            act_bind (act_when (pr_kind p = ''session'')
              (if must_change_blocks rq p then act_raise must_change_error else act_lift (csrf_verify rq)))
            (\<lambda>_. act_bind (case permission of None \<Rightarrow> act_return ()
                              | Some perm \<Rightarrow> require_permission now p perm action target)
            (\<lambda>_. act_return p)))"

text \<open>The answer is the principal the middleware caches on the request.\<close>

definition enforce_browser_session :: "crypto \<Rightarrow> pyfloat \<Rightarrow> request \<Rightarrow> ('z, principal option) prog" where
  "enforce_browser_session cr now rq =
     (if \<not> py_startswith (rq_path rq) ''/api/v1/'' \<or> rq_path rq \<in> set PUBLIC_PATHS then act_return None
      else (case session_token_from rq of
              None \<Rightarrow> act_return None
            | Some token \<Rightarrow>
                act_bind (with_conn (resolve_session cr now token))
                (\<lambda>r. case r of
                     None \<Rightarrow> act_raise unauthenticated
                   | Some (s, u) \<Rightarrow>
                       (let p = session_principal s u in
                        if must_change_blocks rq p then act_raise must_change_error
                        else act_bind (act_when (is_mutating rq) (act_lift (csrf_verify rq)))
                             (\<lambda>_. act_return (Some p))))))"

section \<open>Lemmas\<close>

lemma resolve_session_run:
  "resolve_session cr now token c =
     (if token = [] then (Inr None, c)
      else (case live_session now (token_digest cr token) (cn_work c) of
          None \<Rightarrow> (Inr None, c)
        | Some (s, u) \<Rightarrow> (Inr (Some (s, u)),
            if now - se_last_seen s \<ge> 60 then c\<lparr>cn_work := touch_session now (se_id s) (cn_work c)\<rparr> else c)))"
  by (auto simp: resolve_session_def act_simps act_when_def split: option.splits)

lemma resolve_session_closed:
  "with_conn (resolve_session cr now token) c =
     (Inr (if token = [] then None else live_session now (token_digest cr token) (cn_work c)), conn_close c)"
  by (auto simp: with_conn_run resolve_session_run conn_close_def split: option.splits)

lemma live_session_Some:
  "live_session now sid d = Some (s, u) \<Longrightarrow>
     s \<in> set (db_sessions d) \<and> u \<in> set (db_users d) \<and> se_id s = sid \<and> \<not> se_revoked s
     \<and> se_expires_at s > now \<and> se_user_id s = us_id u \<and> \<not> us_disabled u"
  by (auto simp: live_session_def split: option.splits dest!: find_Some_in)

lemma live_session_None:
  assumes "distinct (map se_id (db_sessions d))"
    and "live_session now sid d = None" "s \<in> set (db_sessions d)" "u \<in> set (db_users d)"
    and "se_id s = sid" "\<not> se_revoked s" "se_expires_at s > now"
    and "se_user_id s = us_id u" "\<not> us_disabled u"
  shows False
proof (cases "find (\<lambda>s. se_id s = sid \<and> \<not> se_revoked s \<and> se_expires_at s > now) (db_sessions d)")
  case None
  with assms show False by (auto simp: find_None)
next
  case (Some s')
  then have "s' = s"
    using find_Some_in[OF Some] assms(1,3,5) by (auto simp: distinct_map inj_on_def)
  with Some assms(2) have "find (\<lambda>v. us_id v = us_id u \<and> \<not> us_disabled v) (db_users d) = None"
    by (simp add: live_session_def assms(8))
  with assms(4,9) show False by (auto simp: find_None)
qed

lemma csrf_verify_not_mutating [simp]: "\<not> is_mutating rq \<Longrightarrow> csrf_verify rq = Inr ()"
  by (simp add: csrf_verify_def)

lemma require_permission_Inr:
  "require_permission now p perm a t c = (Inr x, c') \<longleftrightarrow> role_allows (pr_role p) perm \<and> c' = c"
  by (auto simp: require_permission_def act_simps Let_def)

section \<open>Properties\<close>

text \<open>A token resolves exactly to the stored session of its digest that is not revoked and not
  expired and belongs to an enabled user, and to that user; on a closed connection the lookup
  leaves the committed database as it was.\<close>

theorem resolve_session_exact:
  assumes "distinct (map se_id (db_sessions (cn_work c)))" "distinct (map us_id (db_users (cn_work c)))"
    and "token \<noteq> []"
  shows "(fst (with_conn (resolve_session cr now token) c) = Inr (Some (s, u)) \<longleftrightarrow>
      s \<in> set (db_sessions (cn_work c)) \<and> u \<in> set (db_users (cn_work c))
      \<and> se_id s = token_digest cr token \<and> \<not> se_revoked s \<and> now < se_expires_at s
      \<and> se_user_id s = us_id u \<and> \<not> us_disabled u)
    \<and> cn_committed (snd (with_conn (resolve_session cr now token) c)) = cn_committed c"
proof -
  let ?l = "live_session now (token_digest cr token) (cn_work c)"
  have "?l = Some (s, u)"
    if h: "s \<in> set (db_sessions (cn_work c))" "u \<in> set (db_users (cn_work c))"
      "se_id s = token_digest cr token" "\<not> se_revoked s" "now < se_expires_at s"
      "se_user_id s = us_id u" "\<not> us_disabled u"
  proof (cases ?l)
    case None
    then show ?thesis using live_session_None[OF assms(1) None h(1,2)] h by blast
  next
    case (Some su)
    obtain s' u' where su: "su = (s', u')" by (cases su)
    have "s' = s \<and> u' = u"
      using live_session_Some[OF Some[unfolded su]] h assms(1,2)
      by (auto simp: distinct_map inj_on_def)
    with Some su show ?thesis by simp
  qed
  then show ?thesis
    using assms(3) live_session_Some[of now "token_digest cr token" "cn_work c" s u]
    by (auto simp: resolve_session_closed)
qed

theorem resolve_session_exact_witness:
  "fst (with_conn (resolve_session toy_crypto 99 ''1'') (conn_open two_owners))
     = Inr (Some (demo_session ''s1'' ''a'', demo_user ''a'' ''owner''))
   \<and> fst (with_conn (resolve_session toy_crypto 100 ''1'') (conn_open two_owners))
     \<noteq> Inr (Some (demo_session ''s1'' ''a'', demo_user ''a'' ''owner''))"
proof -
  have d: "distinct (map se_id (db_sessions (cn_work (conn_open two_owners))))"
    "distinct (map us_id (db_users (cn_work (conn_open two_owners))))" "''1'' \<noteq> []" by code_simp+
  have t: "token_digest toy_crypto ''1'' = ''s1''" by code_simp
  show ?thesis
    using resolve_session_exact[OF d, of toy_crypto 99 "demo_session ''s1'' ''a''" "demo_user ''a'' ''owner''"]
      resolve_session_exact[OF d, of toy_crypto 100 "demo_session ''s1'' ''a''" "demo_user ''a'' ''owner''"]
    by (simp add: t two_owners_def demo_session_def demo_user_def)
qed

text \<open>Authenticating by session cookie never commits anything, however stale the row: the sliding
  \<open>last_seen\<close> the lookup writes is rolled back when its connection closes.\<close>

theorem authenticate_session_persists_nothing:
  assumes "session_token_from rq = Some token"
  shows "cn_committed (snd (authenticate cr now pepper None rq c)) = cn_committed c
    \<and> cn_work (snd (authenticate cr now pepper None rq c)) = cn_committed c"
  using assms by (simp add: authenticate_def act_bind_def resolve_session_closed act_simps)

theorem authenticate_session_persists_nothing_witness:
  "db_sessions (cn_committed (snd (authenticate toy_crypto 90 ''P'' None
      (demo_request ''GET'' ''/api/v1/auth/me'' [(''cookie'', ''lw_session=1'')]) (conn_open two_owners))))
     = [demo_session ''s1'' ''a'', demo_session ''s2'' ''b'']"
proof -
  have t: "session_token_from (demo_request ''GET'' ''/api/v1/auth/me'' [(''cookie'', ''lw_session=1'')]) = Some ''1''"
    by code_simp
  show ?thesis
    using authenticate_session_persists_nothing[OF t, of toy_crypto 90 "''P''" "conn_open two_owners"]
    by (simp add: two_owners_def)
qed

text \<open>C8: Whatever passes \<open>gate\<close> was authenticated; as a session it is not a user who must change the
  password (except on the password route) and its mutations echo the CSRF cookie; and its role
  suffices for the permission. The connection is as authentication left it.\<close>

theorem gate_admits_only:
  assumes "gate cr now pepper cached rq permission action target c = (Inr p, c')"
  shows "fst (authenticate cr now pepper cached rq c) = Inr (Some p)
    \<and> (pr_kind p = ''session'' \<longrightarrow> \<not> must_change_blocks rq p \<and> csrf_verify rq = Inr ())
    \<and> (\<forall>perm. permission = Some perm \<longrightarrow> role_allows (pr_role p) perm)
    \<and> c' = snd (authenticate cr now pepper cached rq c)"
proof -
  obtain r c1 where a: "authenticate cr now pepper cached rq c = (r, c1)" by (cases "authenticate cr now pepper cached rq c")
  from assms show ?thesis
    by (auto simp: gate_def act_bind_def a act_simps act_when_def require_permission_Inr
        split: sum.splits option.splits prod.splits if_splits)
qed

theorem gate_admits_only_witness:
  "role_allows ''owner'' ''users.write''
   \<and> csrf_verify (demo_request ''DELETE'' ''/api/v1/users/b''
       [(''cookie'', ''lw_session=1; lw_csrf=t''), (''x-csrf-token'', ''t'')]) = Inr ()"
proof -
  let ?rq = "demo_request ''DELETE'' ''/api/v1/users/b''
       [(''cookie'', ''lw_session=1; lw_csrf=t''), (''x-csrf-token'', ''t'')]"
  let ?p = "session_principal (demo_session ''s1'' ''a'') (demo_user ''a'' ''owner'')"
  have g: "gate toy_crypto 50 ''P'' None ?rq (Some ''users.write'') None None (conn_open two_owners)
      = (Inr ?p, conn_open two_owners)"
    by code_simp
  have "pr_kind ?p = ''session''" "pr_role ?p = ''owner''"
    by (simp_all add: session_principal_def demo_user_def)
  then show ?thesis using gate_admits_only[OF g] by simp
qed

text \<open>C12: On an \<open>/api/v1\<close> path other than the two public ones, a request with a session cookie gets from
  the middleware exactly what \<open>gate\<close> without a permission gives it: the same principal, the
  same error, the same connection. Any other request (a public path, a path outside the API, or no
  session cookie, as with an API key) passes with no principal and an untouched connection, and is
  left to its handler.\<close>

theorem middleware_session_agrees_with_gate:
  shows "(py_startswith (rq_path rq) ''/api/v1/'' \<and> rq_path rq \<notin> set PUBLIC_PATHS \<and> session_token_from rq = Some token \<longrightarrow>
      enforce_browser_session cr now rq c
      = (case gate cr now pepper None rq None action target c of
           (Inl e, t) \<Rightarrow> (Inl e, t) | (Inr p, t) \<Rightarrow> (Inr (Some p), t)))
    \<and> (\<not> (py_startswith (rq_path rq) ''/api/v1/'' \<and> rq_path rq \<notin> set PUBLIC_PATHS) \<or> session_token_from rq = None \<longrightarrow>
      enforce_browser_session cr now rq c = (Inr None, c))"
  by (auto simp: enforce_browser_session_def gate_def authenticate_def act_bind_def resolve_session_closed
      act_simps act_when_def Let_def session_principal_def split: option.splits sum.splits)

theorem middleware_session_agrees_with_gate_witness:
  "fst (enforce_browser_session toy_crypto 50
      (demo_request ''DELETE'' ''/api/v1/users/b'' [(''cookie'', ''lw_session=1'')]) (conn_open two_owners))
   = Inl csrf_error"
proof -
  let ?rq = "demo_request ''DELETE'' ''/api/v1/users/b'' [(''cookie'', ''lw_session=1'')]"
  have h: "py_startswith (rq_path ?rq) ''/api/v1/''" "rq_path ?rq \<notin> set PUBLIC_PATHS"
    "session_token_from ?rq = Some ''1''" by code_simp+
  have "fst (gate toy_crypto 50 ''P'' None ?rq None None None (conn_open two_owners)) = Inl csrf_error"
    by code_simp
  then show ?thesis
    using middleware_session_agrees_with_gate[of ?rq "''1''" toy_crypto 50 "conn_open two_owners" "''P''" None None] h
    by (auto split: prod.splits sum.splits)
qed

end
