(* ===== verification/Login_Limit.thy ===== *)
theory Login_Limit
  imports Prelude
begin

text \<open>
  Models \<open>layawatch/auth/login_limit.py\<close>: the failure window of every (ip, email) subject,
  its pruning and sweep, and the exponential refusal. The map of subjects is an
  insertion-ordered dictionary; the clock reading is an argument.
\<close>

type_synonym subject = "string \<times> string"

record backoff =
  bo_limit :: int
  bo_window :: pyfloat
  bo_failures :: "(subject \<times> pyfloat list) list"

definition SWEEP_AT :: nat where
  "SWEEP_AT = 1024"

definition new_backoff :: "int \<Rightarrow> pyfloat \<Rightarrow> backoff" where
  "new_backoff limit window = \<lparr>bo_limit = max 1 limit, bo_window = window, bo_failures = []\<rparr>"

definition configure :: "int \<Rightarrow> pyfloat \<Rightarrow> backoff \<Rightarrow> backoff" where
  "configure limit window b = b\<lparr>bo_limit := max 1 limit, bo_window := window\<rparr>"

text \<open>\<open>setdefault\<close>, then the entries at or before the cutoff go when the oldest is one of them.\<close>

definition entries :: "subject \<Rightarrow> backoff \<Rightarrow> pyfloat list" where
  "entries s b = (case map_of (bo_failures b) s of None \<Rightarrow> [] | Some ts \<Rightarrow> ts)"

definition prune :: "subject \<Rightarrow> pyfloat \<Rightarrow> backoff \<Rightarrow> pyfloat list \<times> backoff" where
  "prune s now b =
     (let ts = entries s b; cutoff = now - bo_window b;
          kept = (if ts \<noteq> [] \<and> hd ts \<le> cutoff then filter (\<lambda>t. t > cutoff) ts else ts)
      in (kept, b\<lparr>bo_failures := dict_set s kept (bo_failures b)\<rparr>))"

definition sweep :: "pyfloat \<Rightarrow> backoff \<Rightarrow> backoff" where
  "sweep now b =
     (if length (bo_failures b) \<le> SWEEP_AT then b
      else b\<lparr>bo_failures := filter (\<lambda>(s, ts). \<not> (ts = [] \<or> last ts \<le> now - bo_window b)) (bo_failures b)\<rparr>)"

definition push_failure :: "subject \<Rightarrow> pyfloat \<Rightarrow> pyfloat list \<Rightarrow> backoff \<Rightarrow> backoff" where
  "push_failure s now ts b = sweep now (b\<lparr>bo_failures := dict_set s (ts @ [now]) (bo_failures b)\<rparr>)"

text \<open>\<open>max(1, ceil(min(2 ** (n - limit), window, first + window - now)))\<close> after the append.\<close>

definition retry_seconds :: "backoff \<Rightarrow> pyfloat list \<Rightarrow> pyfloat \<Rightarrow> int" where
  "retry_seconds b ts now =
     max 1 \<lceil>min (min (2 ^ (length ts - nat (bo_limit b))) (bo_window b)) (hd ts + bo_window b - now)\<rceil>"

definition refused :: "string \<Rightarrow> string \<Rightarrow> pyfloat \<Rightarrow> backoff \<Rightarrow> int option \<times> backoff" where
  "refused ip email now b =
     (let (ts, b1) = prune (ip, email) now b in
      if int (length ts) < bo_limit b then (None, b1)
      else (Some (retry_seconds b (ts @ [now]) now), push_failure (ip, email) now ts b1))"

definition record_failure :: "string \<Rightarrow> string \<Rightarrow> pyfloat \<Rightarrow> backoff \<Rightarrow> nat \<times> backoff" where
  "record_failure ip email now b =
     (let (ts, b1) = prune (ip, email) now b
      in (length (ts @ [now]), push_failure (ip, email) now ts b1))"

definition clear :: "string \<Rightarrow> string \<Rightarrow> backoff \<Rightarrow> backoff" where
  "clear ip email b = b\<lparr>bo_failures := dict_del (ip, email) (bo_failures b)\<rparr>"

definition clear_email :: "string \<Rightarrow> backoff \<Rightarrow> nat \<times> backoff" where
  "clear_email email b =
     (length (filter (\<lambda>kv. snd (fst kv) = email) (bo_failures b)),
      b\<lparr>bo_failures := filter (\<lambda>kv. snd (fst kv) \<noteq> email) (bo_failures b)\<rparr>)"

definition failures :: "string \<Rightarrow> string \<Rightarrow> pyfloat \<Rightarrow> backoff \<Rightarrow> nat \<times> backoff" where
  "failures ip email now b = (let (ts, b1) = prune (ip, email) now b in (length ts, b1))"

section \<open>The abstract window\<close>

text \<open>
  The specification of a subject: how many failures it has younger than the window. The
  concrete entries may hold older ones until the next access, and a swept subject has none.
\<close>

definition in_window :: "subject \<Rightarrow> pyfloat \<Rightarrow> backoff \<Rightarrow> pyfloat list" where
  "in_window s now b = filter (\<lambda>t. t > now - bo_window b) (entries s b)"

definition backoff_ok :: "backoff \<Rightarrow> bool" where
  "backoff_ok b \<longleftrightarrow> dict_ok (bo_failures b) \<and> 1 \<le> bo_limit b
     \<and> (\<forall>(s, ts) \<in> set (bo_failures b). sorted ts)"

text \<open>Every recorded time is at most the clock, which is monotonic.\<close>

definition before :: "pyfloat \<Rightarrow> backoff \<Rightarrow> bool" where
  "before now b \<longleftrightarrow> (\<forall>(s, ts) \<in> set (bo_failures b). \<forall>t \<in> set ts. t \<le> now)"

lemma sorted_entries: "backoff_ok b \<Longrightarrow> sorted (entries s b)"
  by (auto simp: backoff_ok_def entries_def dest!: map_of_SomeD split: option.splits)

lemma entries_before: "before now b \<Longrightarrow> t \<in> set (entries s b) \<Longrightarrow> t \<le> now"
  by (cases "map_of (bo_failures b) s") (auto simp: before_def entries_def dest!: map_of_SomeD)

lemma prune_list:
  "sorted ts \<Longrightarrow> (if ts \<noteq> [] \<and> hd ts \<le> c then filter (\<lambda>t. t > c) ts else ts) = filter (\<lambda>t. (t :: rat) > c) ts"
  by (cases ts) (force intro: sym[OF iffD2[OF filter_id_conv]])+

lemma prune_run:
  assumes "backoff_ok b"
  shows "prune s now b = (in_window s now b, b\<lparr>bo_failures := dict_set s (in_window s now b) (bo_failures b)\<rparr>)"
  using prune_list[OF sorted_entries[OF assms, of s], of "now - bo_window b"]
  by (simp add: prune_def in_window_def Let_def)

lemma entries_set [simp]:
  "entries s (b\<lparr>bo_failures := dict_set s' ts (bo_failures b')\<rparr>) =
     (if s = s' then ts else entries s (b\<lparr>bo_failures := bo_failures b'\<rparr>))"
  by (simp add: entries_def)

lemma backoff_ok_set:
  "backoff_ok b \<Longrightarrow> sorted ts \<Longrightarrow> backoff_ok (b\<lparr>bo_failures := dict_set s ts (bo_failures b)\<rparr>)"
  using set_dict_set_subset[of s ts "bo_failures b"]
  by (auto simp: backoff_ok_def dict_ok_def distinct_update)

lemma before_set:
  "before now b \<Longrightarrow> \<forall>t \<in> set ts. t \<le> now \<Longrightarrow> before now (b\<lparr>bo_failures := dict_set s ts (bo_failures b)\<rparr>)"
  using set_dict_set_subset[of s ts "bo_failures b"] by (auto simp: before_def)

lemma sweep_ok: "backoff_ok b \<Longrightarrow> backoff_ok (sweep now b)"
  by (auto simp: sweep_def backoff_ok_def dict_ok_def distinct_map_filter)

lemma map_of_filter_dict:
  "dict_ok d \<Longrightarrow> map_of (filter P d) k =
     (case map_of d k of None \<Rightarrow> None | Some v \<Rightarrow> if P (k, v) then Some v else None)"
  by (induction d) (auto simp: dict_ok_def split: option.splits dest: map_of_SomeD
      intro!: map_of_eq_None_iff[THEN iffD2])

text \<open>A sweep drops only subjects with nothing left in the window.\<close>

lemma sweep_window:
  assumes "backoff_ok b"
  shows "in_window s now (sweep now b) = in_window s now b"
proof (cases "map_of (bo_failures b) s")
  case None
  then show ?thesis using assms
    by (auto simp: sweep_def in_window_def entries_def backoff_ok_def map_of_filter_dict)
next
  case (Some ts)
  have srt: "sorted ts" using sorted_entries[OF assms, of s] Some by (simp add: entries_def)
  have "last ts \<le> now - bo_window b \<Longrightarrow> filter (\<lambda>t. now - bo_window b < t) ts = []"
  proof (cases "ts = []")
    case ne: False
    assume l: "last ts \<le> now - bo_window b"
    have "\<forall>t \<in> set ts. t \<le> last ts"
    proof -
      have "sorted (butlast ts @ [last ts])" using srt ne by simp
      then have "\<forall>t \<in> set (butlast ts). t \<le> last ts" by (auto simp: sorted_append)
      then show ?thesis using ne by (metis append_butlast_last_id in_set_conv_decomp_last order_refl
            Un_iff empty_iff insert_iff list.set set_append)
    qed
    with l show ?thesis by (force simp: filter_empty_conv)
  qed simp
  then show ?thesis using assms Some
    by (auto simp: sweep_def in_window_def entries_def backoff_ok_def map_of_filter_dict)
qed

lemma sorted_snoc_rat: "sorted ts \<Longrightarrow> \<forall>t \<in> set ts. t \<le> (x :: rat) \<Longrightarrow> sorted (ts @ [x])"
  by (simp add: sorted_append)

lemma in_window_facts:
  "backoff_ok b \<Longrightarrow> sorted (in_window s now b)"
  "before now b \<Longrightarrow> t \<in> set (in_window s now b) \<Longrightarrow> t \<le> now"
  by (auto simp: in_window_def sorted_entries sorted_wrt_filter dest: entries_before)

lemma window_set [simp]: "bo_window (b\<lparr>bo_failures := d\<rparr>) = bo_window b"
  by simp

lemma sweep_simps [simp]: "bo_window (sweep now b) = bo_window b" "bo_limit (sweep now b) = bo_limit b"
  by (simp_all add: sweep_def)

lemma in_window_prune:
  "in_window s' now (b\<lparr>bo_failures := dict_set s (in_window s now b) (bo_failures b)\<rparr>) = in_window s' now b"
  by (simp add: in_window_def)

lemma push_failure_window:
  assumes "backoff_ok b" "sorted ts" "\<forall>t \<in> set ts. now - bo_window b < t \<and> t \<le> now" "0 < bo_window b"
  shows "in_window s' now (push_failure s now ts b) = (if s' = s then ts @ [now] else in_window s' now b)"
proof -
  have "sorted (ts @ [now])" using assms(2,3) by (simp add: sorted_append)
  then have "backoff_ok (b\<lparr>bo_failures := dict_set s (ts @ [now]) (bo_failures b)\<rparr>)"
    using assms(1) by (rule backoff_ok_set[rotated])
  then have "in_window s' now (push_failure s now ts b)
      = in_window s' now (b\<lparr>bo_failures := dict_set s (ts @ [now]) (bo_failures b)\<rparr>)"
    unfolding push_failure_def by (rule sweep_window)
  then show ?thesis using assms(3,4) by (auto simp: in_window_def filter_id_conv)
qed

lemma push_failure_ok:
  "backoff_ok b \<Longrightarrow> sorted ts \<Longrightarrow> \<forall>t \<in> set ts. t \<le> now \<Longrightarrow> backoff_ok (push_failure s now ts b)"
  unfolding push_failure_def by (intro sweep_ok backoff_ok_set sorted_snoc_rat)

lemma push_failure_simps [simp]:
  "bo_window (push_failure s now ts b) = bo_window b" "bo_limit (push_failure s now ts b) = bo_limit b"
  by (simp_all add: push_failure_def)

lemma pruned_ok: "backoff_ok b \<Longrightarrow> backoff_ok (b\<lparr>bo_failures := dict_set s (in_window s now b) (bo_failures b)\<rparr>)"
  by (simp add: backoff_ok_set in_window_facts)

lemma in_window_member: "t \<in> set (in_window s now b) \<Longrightarrow> now - bo_window b < t"
  by (simp add: in_window_def)

section \<open>Properties\<close>

text \<open>C10: The backoff refines its abstract window. A login is refused exactly when the subject has
  \<open>limit\<close> failures younger than the window; a refusal, like a wrong password, adds the
  current time to that subject's window and to no other's, and the wait it names lies
  between one second and the window; \<open>record_failure\<close> answers the new count. Pruning and
  sweeping are invisible.\<close>

theorem login_backoff_refines_window:
  assumes "backoff_ok b" "before now b" "0 < bo_window b"
  shows "(fst (refused ip email now b) = None \<longleftrightarrow> int (length (in_window (ip, email) now b)) < bo_limit b)
    \<and> in_window s now (snd (refused ip email now b)) =
        (if fst (refused ip email now b) \<noteq> None \<and> s = (ip, email)
         then in_window s now b @ [now] else in_window s now b)
    \<and> (\<forall>w. fst (refused ip email now b) = Some w \<longrightarrow> 1 \<le> w \<and> w \<le> max 1 \<lceil>bo_window b\<rceil>)
    \<and> fst (record_failure ip email now b) = Suc (length (in_window (ip, email) now b))
    \<and> in_window s now (snd (record_failure ip email now b)) =
        (if s = (ip, email) then in_window s now b @ [now] else in_window s now b)
    \<and> backoff_ok (snd (refused ip email now b)) \<and> backoff_ok (snd (record_failure ip email now b))"
proof -
  let ?s = "(ip, email)"
  let ?ts = "in_window ?s now b"
  let ?b = "b\<lparr>bo_failures := dict_set ?s ?ts (bo_failures b)\<rparr>"
  have p: "prune ?s now b = (?ts, ?b)" by (rule prune_run[OF assms(1)])
  have ts: "sorted ?ts" "\<forall>t \<in> set ?ts. now - bo_window b < t \<and> t \<le> now"
    using in_window_facts(1)[OF assms(1)] in_window_facts(2)[OF assms(2)] in_window_member by auto
  have push: "in_window s now (push_failure ?s now ?ts ?b) = (if s = ?s then ?ts @ [now] else in_window s now b)"
    using push_failure_window[where s = ?s and s' = s and now = now, OF pruned_ok[OF assms(1), of ?s now] ts(1)] ts(2) assms(3)
    by (simp add: in_window_prune)
  have ok: "backoff_ok (push_failure ?s now ?ts ?b)" "backoff_ok ?b"
    using push_failure_ok[OF pruned_ok[OF assms(1)] ts(1)] ts(2) pruned_ok[OF assms(1)] by simp_all
  have "retry_seconds b (?ts @ [now]) now \<le> max 1 \<lceil>bo_window b\<rceil>"
    unfolding retry_seconds_def by (intro max.mono order_refl ceiling_mono) linarith
  moreover have "1 \<le> retry_seconds b (?ts @ [now]) now" by (simp add: retry_seconds_def)
  ultimately show ?thesis
    using push ok by (auto simp: refused_def record_failure_def p in_window_prune)
qed

text \<open>Five failures at time 0 from one address.\<close>

definition five_failures :: backoff where
  "five_failures = fold (\<lambda>_ b. snd (record_failure ''1.2.3.4'' ''a@x.io'' 0 b)) [1 ..< 6 :: nat] (new_backoff 5 900)"

theorem login_backoff_refines_window_witness:
  "fst (refused ''1.2.3.4'' ''a@x.io'' 1 five_failures) \<noteq> None
   \<and> fst (refused ''1.2.3.5'' ''a@x.io'' 1 five_failures) = None"
proof -
  have h: "backoff_ok five_failures" "before 1 five_failures" "0 < bo_window five_failures"
    by code_simp+
  have n: "length (in_window (''1.2.3.4'', ''a@x.io'') 1 five_failures) = 5"
    "length (in_window (''1.2.3.5'', ''a@x.io'') 1 five_failures) = 0" "bo_limit five_failures = 5"
    by code_simp+
  have "fst (refused ''1.2.3.4'' ''a@x.io'' 1 five_failures) = None \<longleftrightarrow> int 5 < 5"
    using login_backoff_refines_window[OF h, of "''1.2.3.4''" "''a@x.io''"] unfolding n by blast
  moreover have "fst (refused ''1.2.3.5'' ''a@x.io'' 1 five_failures) = None \<longleftrightarrow> int 0 < 5"
    using login_backoff_refines_window[OF h, of "''1.2.3.5''" "''a@x.io''"] unfolding n by blast
  ultimately show ?thesis by simp
qed

text \<open>A subject that stays silent for a whole window is let in again, and so is one that was cleared,
  by its own success or by an owner's edit of the account; clearing one subject blocks or
  frees no other.\<close>

theorem login_lockout_ends:
  assumes "backoff_ok b"
  shows "((\<forall>t \<in> set (entries (ip, email) b). t + bo_window b \<le> later) \<longrightarrow> fst (refused ip email later b) = None)
    \<and> fst (refused ip email later (clear ip email b)) = None
    \<and> fst (refused ip email later (snd (clear_email email b))) = None
    \<and> (s \<noteq> (ip, email) \<longrightarrow> entries s (clear ip email b) = entries s b)
    \<and> (snd s \<noteq> email \<longrightarrow> entries s (snd (clear_email email b)) = entries s b)"
proof -
  have l: "1 \<le> bo_limit b" using assms by (simp add: backoff_ok_def)
  have none: "fst (refused ip email later b') = None"
    if "bo_limit b' = bo_limit b" "\<forall>t \<in> set (entries (ip, email) b'). t \<le> later - bo_window b'" for b'
  proof -
    have "fst (prune (ip, email) later b') = []"
      using that(2) by (cases "entries (ip, email) b'") (auto simp: prune_def Let_def filter_empty_conv)
    then show ?thesis using l that(1) by (simp add: refused_def prune_def Let_def)
  qed
  have "(\<forall>t \<in> set (entries (ip, email) b). t + bo_window b \<le> later) \<longrightarrow> fst (refused ip email later b) = None"
    using none[of b] by (simp add: algebra_simps)
  moreover have "fst (refused ip email later (clear ip email b)) = None"
    by (rule none) (simp_all add: clear_def entries_def)
  moreover have "fst (refused ip email later (snd (clear_email email b))) = None"
    by (rule none) (simp_all add: clear_email_def entries_def map_of_filter_key[of "\<lambda>k. snd k \<noteq> email"])
  ultimately show ?thesis
    by (simp add: clear_def clear_email_def entries_def map_of_filter_key[of "\<lambda>k. snd k \<noteq> email"])
qed

theorem login_lockout_ends_witness:
  "fst (refused ''1.2.3.4'' ''a@x.io'' 900 five_failures) = None
   \<and> fst (refused ''1.2.3.4'' ''a@x.io'' 3 (snd (clear_email ''a@x.io'' five_failures))) = None"
proof -
  have h: "backoff_ok five_failures"
    "\<forall>t \<in> set (entries (''1.2.3.4'', ''a@x.io'') five_failures). t + bo_window five_failures \<le> 900"
    by code_simp+
  then show ?thesis
    using login_lockout_ends[OF h(1), of "''1.2.3.4''" "''a@x.io''" 900] login_lockout_ends[OF h(1), of "''1.2.3.4''" "''a@x.io''" 3]
    by blast
qed

text \<open>The wait a refusal names is not the unblock time, and a lockout can outlive the window:
  after five failures at time 0 the answer is two seconds, yet two seconds later the subject
  is still refused; and after four further polls it is refused when all five failures have
  left the fifteen-minute window.\<close>

theorem login_retry_after_is_not_the_unblock_time:
  "fst (refused ''1.2.3.4'' ''a@x.io'' 0 five_failures) = Some 2
   \<and> fst (refused ''1.2.3.4'' ''a@x.io'' 2 (snd (refused ''1.2.3.4'' ''a@x.io'' 0 five_failures))) = Some 4
   \<and> fst (refused ''1.2.3.4'' ''a@x.io'' 901
       (fold (\<lambda>t b. snd (refused ''1.2.3.4'' ''a@x.io'' t b)) [100, 200, 300, 400, 500] five_failures)) \<noteq> None"
  by code_simp

end
