(* ===== verification/Config.thy ===== *)
theory Config
  imports Prelude
begin

text \<open>
  Models \<open>layawatch/config.py\<close>: the dataclass with its defaults, the typed readers of the
  environment, and \<open>Config.load\<close>, which collects every violation before it raises. The
  environment is a partial map; \<open>float(text)\<close> is an argument (None is its ValueError; the
  special values nan and inf are not modelled); a \<open>Path\<close> is its text.
\<close>

type_synonym environ = "string \<Rightarrow> string option"

record config =
  cf_bind :: string
  cf_port :: int
  cf_socket_timeout :: pyfloat
  cf_max_body_bytes :: int
  cf_db_path :: string
  cf_web_root :: string
  cf_log_level :: string
  cf_log_ring_size :: int
  cf_state_dir :: string
  cf_models :: "string list"
  cf_device :: string
  cf_english_only :: bool
  cf_session_secret :: "string option"
  cf_session_ttl :: int
  cf_trace_sample :: pyfloat
  cf_capture_payloads :: bool
  cf_payload_max :: int
  cf_retention_traces :: int
  cf_retention_days :: int
  cf_ring_traces :: int
  cf_write_queue_max :: int
  cf_stream_tick :: int
  cf_bootstrap_owner :: "string option"
  cf_record :: bool
  cf_api :: bool
  cf_trust_proxy :: bool
  cf_ratelimit_enabled :: bool
  cf_ratelimit_engine_per_min :: int
  cf_ratelimit_ip_per_min :: int
  cf_ratelimit_login :: int
  cf_ratelimit_login_window :: int
  cf_ratelimit_mutation_per_min :: int
  cf_ratelimit_playground_per_min :: int
  cf_ratelimit_sse_per_session :: int
  cf_ratelimit_loopback :: bool
  cf_engine_max_inflight :: int
  cf_engine_queue_max :: int

definition default_config :: config where
  "default_config = \<lparr>cf_bind = ''127.0.0.1'',
     cf_port = 8050,
     cf_socket_timeout = 30,
     cf_max_body_bytes = 4194304,
     cf_db_path = ''state.sqlite3'',
     cf_web_root = ''web/out'',
     cf_log_level = ''info'',
     cf_log_ring_size = 2000,
     cf_state_dir = ''.'',
     cf_models = [''english'', ''multilingual''],
     cf_device = ''auto'',
     cf_english_only = False,
     cf_session_secret = None,
     cf_session_ttl = 2592000,
     cf_trace_sample = 1,
     cf_capture_payloads = False,
     cf_payload_max = 2048,
     cf_retention_traces = 10000,
     cf_retention_days = 7,
     cf_ring_traces = 1000,
     cf_write_queue_max = 5000,
     cf_stream_tick = 3,
     cf_bootstrap_owner = None,
     cf_record = True,
     cf_api = True,
     cf_trust_proxy = False,
     cf_ratelimit_enabled = True,
     cf_ratelimit_engine_per_min = 0,
     cf_ratelimit_ip_per_min = 600,
     cf_ratelimit_login = 5,
     cf_ratelimit_login_window = 900,
     cf_ratelimit_mutation_per_min = 60,
     cf_ratelimit_playground_per_min = 30,
     cf_ratelimit_sse_per_session = 5,
     cf_ratelimit_loopback = False,
     cf_engine_max_inflight = 4,
     cf_engine_queue_max = 16\<rparr>"

section \<open>Readers\<close>

text \<open>
  Each reader of the code answers a value and may append one error; here the value and the
  error are two functions of the same variable.
\<close>

definition complain :: "bool \<Rightarrow> string \<Rightarrow> string list" where
  "complain b msg = (if b then [msg] else [])"

definition LOG_LEVELS :: "string list" where
  "LOG_LEVELS = [''debug'', ''info'', ''warning'', ''error'']"

definition BOOL_VALUES :: "(string \<times> bool) list" where
  "BOOL_VALUES = [(''0'', False), (''false'', False), (''no'', False), (''off'', False),
     (''1'', True), (''true'', True), (''yes'', True), (''on'', True)]"

definition int_of :: "environ \<Rightarrow> string \<Rightarrow> int \<Rightarrow> int" where
  "int_of env name d = (case env name of None \<Rightarrow> d
     | Some raw \<Rightarrow> (case py_int (py_strip raw) of None \<Rightarrow> d | Some i \<Rightarrow> i))"

definition int_error :: "environ \<Rightarrow> string \<Rightarrow> string \<Rightarrow> string list" where
  "int_error env name attr = (case env name of None \<Rightarrow> []
     | Some raw \<Rightarrow> complain (py_int (py_strip raw) = None) (attr @ '' must be an integer ('' @ name @ '')''))"

definition float_of :: "(string \<Rightarrow> pyfloat option) \<Rightarrow> environ \<Rightarrow> string \<Rightarrow> pyfloat \<Rightarrow> pyfloat" where
  "float_of flt env name d = (case env name of None \<Rightarrow> d
     | Some raw \<Rightarrow> (case flt (py_strip raw) of None \<Rightarrow> d | Some x \<Rightarrow> x))"

definition float_error :: "(string \<Rightarrow> pyfloat option) \<Rightarrow> environ \<Rightarrow> string \<Rightarrow> string \<Rightarrow> string list" where
  "float_error flt env name attr = (case env name of None \<Rightarrow> []
     | Some raw \<Rightarrow> complain (flt (py_strip raw) = None) (attr @ '' must be a number ('' @ name @ '')''))"

definition bool_of :: "environ \<Rightarrow> string \<Rightarrow> bool \<Rightarrow> bool" where
  "bool_of env name d = (case env name of None \<Rightarrow> d
     | Some raw \<Rightarrow> (case map_of BOOL_VALUES (py_lower (py_strip raw)) of None \<Rightarrow> d | Some b \<Rightarrow> b))"

definition bool_error :: "environ \<Rightarrow> string \<Rightarrow> string \<Rightarrow> string list" where
  "bool_error env name attr = (case env name of None \<Rightarrow> []
     | Some raw \<Rightarrow> complain (map_of BOOL_VALUES (py_lower (py_strip raw)) = None)
         (attr @ '' must be one of 0|1|true|false|yes|no|on|off ('' @ name @ '')''))"

definition str_of :: "environ \<Rightarrow> string \<Rightarrow> string \<Rightarrow> string" where
  "str_of env name d = (case env name of None \<Rightarrow> d | Some raw \<Rightarrow> py_strip raw)"

definition opt_of :: "environ \<Rightarrow> string \<Rightarrow> string option \<Rightarrow> string option" where
  "opt_of env name d = (case env name of None \<Rightarrow> d
     | Some raw \<Rightarrow> if py_strip raw = [] then None else Some (py_strip raw))"

definition path_of :: "environ \<Rightarrow> string \<Rightarrow> string \<Rightarrow> string" where
  "path_of env name d = (case env name of None \<Rightarrow> d | Some raw \<Rightarrow> py_strip raw)"

definition models_of :: "environ \<Rightarrow> string \<Rightarrow> string list \<Rightarrow> string list" where
  "models_of env name d = (case env name of None \<Rightarrow> d
     | Some raw \<Rightarrow> filter (\<lambda>m. m \<noteq> []) (map py_strip (py_split (CHR '','') raw)))"

definition path_join :: "string \<Rightarrow> string \<Rightarrow> string" where
  "path_join d f = (if d = [] \<or> d = ''.'' then f else d @ ''/'' @ f)"

section \<open>Loading\<close>

definition config_values :: "(string \<Rightarrow> pyfloat option) \<Rightarrow> environ \<Rightarrow> config" where
  "config_values flt env =
     \<lparr>cf_bind = str_of env ''LAYWATCH_BIND'' (cf_bind default_config),
      cf_port = int_of env ''LAYA_PORT'' (cf_port default_config),
      cf_socket_timeout = float_of flt env ''LAYWATCH_SOCKET_TIMEOUT'' (cf_socket_timeout default_config),
      cf_max_body_bytes = int_of env ''LAYWATCH_MAX_BODY'' (cf_max_body_bytes default_config),
      cf_db_path = path_join (path_of env ''LAYA_STATE_DIR'' (cf_state_dir default_config)) ''state.sqlite3'',
      cf_web_root = cf_web_root default_config,
      cf_log_level = str_of env ''LAYWATCH_LOG_LEVEL'' (cf_log_level default_config),
      cf_log_ring_size = int_of env ''LAYWATCH_RING_LOGS'' (cf_log_ring_size default_config),
      cf_state_dir = path_of env ''LAYA_STATE_DIR'' (cf_state_dir default_config),
      cf_models = models_of env ''LAYA_MODELS'' (cf_models default_config),
      cf_device = str_of env ''LAYA_DEVICE'' (cf_device default_config),
      cf_english_only = bool_of env ''LAYA_ENGLISH_ONLY'' (cf_english_only default_config),
      cf_session_secret = opt_of env ''LAYWATCH_SESSION_SECRET'' (cf_session_secret default_config),
      cf_session_ttl = int_of env ''LAYWATCH_SESSION_TTL'' (cf_session_ttl default_config),
      cf_trace_sample = float_of flt env ''LAYWATCH_TRACE_SAMPLE'' (cf_trace_sample default_config),
      cf_capture_payloads = bool_of env ''LAYWATCH_CAPTURE_PAYLOADS'' (cf_capture_payloads default_config),
      cf_payload_max = int_of env ''LAYWATCH_PAYLOAD_MAX'' (cf_payload_max default_config),
      cf_retention_traces = int_of env ''LAYWATCH_RETENTION_TRACES'' (cf_retention_traces default_config),
      cf_retention_days = int_of env ''LAYWATCH_RETENTION_DAYS'' (cf_retention_days default_config),
      cf_ring_traces = int_of env ''LAYWATCH_RING_TRACES'' (cf_ring_traces default_config),
      cf_write_queue_max = int_of env ''LAYWATCH_WRITE_QUEUE_MAX'' (cf_write_queue_max default_config),
      cf_stream_tick = int_of env ''LAYWATCH_STREAM_TICK'' (cf_stream_tick default_config),
      cf_bootstrap_owner = opt_of env ''LAYWATCH_BOOTSTRAP_OWNER'' (cf_bootstrap_owner default_config),
      cf_record = bool_of env ''LAYWATCH_RECORD'' (cf_record default_config),
      cf_api = bool_of env ''LAYWATCH_API'' (cf_api default_config),
      cf_trust_proxy = bool_of env ''LAYWATCH_TRUST_PROXY'' (cf_trust_proxy default_config),
      cf_ratelimit_enabled = bool_of env ''LAYWATCH_RATELIMIT_ENABLED'' (cf_ratelimit_enabled default_config),
      cf_ratelimit_engine_per_min = int_of env ''LAYWATCH_RATELIMIT_ENGINE_PER_MIN'' (cf_ratelimit_engine_per_min default_config),
      cf_ratelimit_ip_per_min = int_of env ''LAYWATCH_RATELIMIT_IP_PER_MIN'' (cf_ratelimit_ip_per_min default_config),
      cf_ratelimit_login = int_of env ''LAYWATCH_RATELIMIT_LOGIN'' (cf_ratelimit_login default_config),
      cf_ratelimit_login_window = int_of env ''LAYWATCH_RATELIMIT_LOGIN_WINDOW'' (cf_ratelimit_login_window default_config),
      cf_ratelimit_mutation_per_min = int_of env ''LAYWATCH_RATELIMIT_MUTATION_PER_MIN'' (cf_ratelimit_mutation_per_min default_config),
      cf_ratelimit_playground_per_min = int_of env ''LAYWATCH_RATELIMIT_PLAYGROUND_PER_MIN'' (cf_ratelimit_playground_per_min default_config),
      cf_ratelimit_sse_per_session = int_of env ''LAYWATCH_RATELIMIT_SSE_PER_SESSION'' (cf_ratelimit_sse_per_session default_config),
      cf_ratelimit_loopback = bool_of env ''LAYWATCH_RATELIMIT_LOOPBACK'' (cf_ratelimit_loopback default_config),
      cf_engine_max_inflight = int_of env ''LAYWATCH_ENGINE_MAX_INFLIGHT'' (cf_engine_max_inflight default_config),
      cf_engine_queue_max = int_of env ''LAYWATCH_ENGINE_QUEUE_MAX'' (cf_engine_queue_max default_config)\<rparr>"

definition config_errors :: "(string \<Rightarrow> pyfloat option) \<Rightarrow> environ \<Rightarrow> string list" where
  "config_errors flt env =
     (let c = config_values flt env in
       complain (cf_bind c = [])
           ''bind must be non-empty (LAYWATCH_BIND)''
       @ int_error env ''LAYA_PORT'' ''port''
       @ complain (\<not> (1 \<le> cf_port c \<and> cf_port c \<le> 65535))
           ''port must be between 1 and 65535 (LAYA_PORT)''
       @ float_error flt env ''LAYWATCH_SOCKET_TIMEOUT'' ''socket_timeout''
       @ complain (\<not> cf_socket_timeout c > 0)
           ''socket_timeout must be greater than 0 (LAYWATCH_SOCKET_TIMEOUT)''
       @ int_error env ''LAYWATCH_MAX_BODY'' ''max_body_bytes''
       @ complain (\<not> (1 \<le> cf_max_body_bytes c \<and> cf_max_body_bytes c \<le> 16777216))
           ''max_body_bytes must be between 1 and 16777216 (LAYWATCH_MAX_BODY)''
       @ complain (cf_log_level c \<notin> set LOG_LEVELS)
           ''log_level must be one of debug|info|warning|error (LAYWATCH_LOG_LEVEL)''
       @ int_error env ''LAYWATCH_RING_LOGS'' ''log_ring_size''
       @ complain (cf_log_ring_size c < 100)
           ''log_ring_size must be at least 100 (LAYWATCH_RING_LOGS)''
       @ bool_error env ''LAYA_ENGLISH_ONLY'' ''english_only''
       @ int_error env ''LAYWATCH_SESSION_TTL'' ''session_ttl''
       @ float_error flt env ''LAYWATCH_TRACE_SAMPLE'' ''trace_sample''
       @ bool_error env ''LAYWATCH_CAPTURE_PAYLOADS'' ''capture_payloads''
       @ int_error env ''LAYWATCH_PAYLOAD_MAX'' ''payload_max''
       @ int_error env ''LAYWATCH_RETENTION_TRACES'' ''retention_traces''
       @ int_error env ''LAYWATCH_RETENTION_DAYS'' ''retention_days''
       @ int_error env ''LAYWATCH_RING_TRACES'' ''ring_traces''
       @ int_error env ''LAYWATCH_WRITE_QUEUE_MAX'' ''write_queue_max''
       @ int_error env ''LAYWATCH_STREAM_TICK'' ''stream_tick''
       @ bool_error env ''LAYWATCH_RECORD'' ''record''
       @ bool_error env ''LAYWATCH_API'' ''api''
       @ bool_error env ''LAYWATCH_TRUST_PROXY'' ''trust_proxy''
       @ bool_error env ''LAYWATCH_RATELIMIT_ENABLED'' ''ratelimit_enabled''
       @ int_error env ''LAYWATCH_RATELIMIT_ENGINE_PER_MIN'' ''ratelimit_engine_per_min''
       @ int_error env ''LAYWATCH_RATELIMIT_IP_PER_MIN'' ''ratelimit_ip_per_min''
       @ int_error env ''LAYWATCH_RATELIMIT_LOGIN'' ''ratelimit_login''
       @ int_error env ''LAYWATCH_RATELIMIT_LOGIN_WINDOW'' ''ratelimit_login_window''
       @ int_error env ''LAYWATCH_RATELIMIT_MUTATION_PER_MIN'' ''ratelimit_mutation_per_min''
       @ int_error env ''LAYWATCH_RATELIMIT_PLAYGROUND_PER_MIN'' ''ratelimit_playground_per_min''
       @ int_error env ''LAYWATCH_RATELIMIT_SSE_PER_SESSION'' ''ratelimit_sse_per_session''
       @ bool_error env ''LAYWATCH_RATELIMIT_LOOPBACK'' ''ratelimit_loopback''
       @ int_error env ''LAYWATCH_ENGINE_MAX_INFLIGHT'' ''engine_max_inflight''
       @ int_error env ''LAYWATCH_ENGINE_QUEUE_MAX'' ''engine_queue_max'')"

definition load_config :: "(string \<Rightarrow> pyfloat option) \<Rightarrow> environ \<Rightarrow> string + config" where
  "load_config flt env =
     (let errors = config_errors flt env in
      if errors \<noteq> [] then Inl (py_join ''; '' errors) else Inr (config_values flt env))"

section \<open>Properties\<close>

lemma complain_Nil [simp]: "complain b m = [] \<longleftrightarrow> \<not> b"
  by (simp add: complain_def)

lemma config_errors_NilD:
  "config_errors flt env = [] \<Longrightarrow>
     cf_bind (config_values flt env) \<noteq> []
     \<and> 1 \<le> cf_port (config_values flt env) \<and> cf_port (config_values flt env) \<le> 65535
     \<and> 0 < cf_socket_timeout (config_values flt env)
     \<and> 1 \<le> cf_max_body_bytes (config_values flt env) \<and> cf_max_body_bytes (config_values flt env) \<le> 16777216
     \<and> cf_log_level (config_values flt env) \<in> set LOG_LEVELS
     \<and> 100 \<le> cf_log_ring_size (config_values flt env)"
  unfolding config_errors_def Let_def append_is_Nil_conv complain_Nil not_not not_less not_le by (elim conjE, intro conjI) assumption+

text \<open>A configuration that loads is in range where the loader promises a range (bind, port, socket
  timeout, body limit, log level, log ring), and its database lies in the state directory.\<close>

theorem load_config_bounds:
  assumes "load_config flt env = Inr c"
  shows "cf_bind c \<noteq> [] \<and> 1 \<le> cf_port c \<and> cf_port c \<le> 65535 \<and> 0 < cf_socket_timeout c
    \<and> 1 \<le> cf_max_body_bytes c \<and> cf_max_body_bytes c \<le> 16777216
    \<and> cf_log_level c \<in> set LOG_LEVELS \<and> 100 \<le> cf_log_ring_size c
    \<and> cf_db_path c = path_join (cf_state_dir c) ''state.sqlite3''"
proof -
  from assms have e: "config_errors flt env = []" and c: "c = config_values flt env"
    by (auto simp: load_config_def Let_def split: if_splits)
  have "cf_db_path c = path_join (cf_state_dir c) ''state.sqlite3''"
    by (simp add: c config_values_def)
  with config_errors_NilD[OF e] show ?thesis unfolding c by blast
qed

definition demo_env :: "(string \<times> string) list \<Rightarrow> environ" where
  "demo_env kvs = map_of kvs"

lemmas reader_defs = demo_env_def complain_def int_error_def float_error_def bool_error_def
  int_of_def float_of_def bool_of_def str_of_def

definition no_float :: "string \<Rightarrow> pyfloat option" where
  "no_float s = map_option of_int (py_int s)"

theorem load_config_bounds_witness:
  "cf_port (case load_config no_float (demo_env [(''LAYA_PORT'', '' 9000 '')]) of Inr c \<Rightarrow> c | Inl _ \<Rightarrow> default_config) \<le> 65535"
proof -
  obtain c where c: "load_config no_float (demo_env [(''LAYA_PORT'', '' 9000 '')]) = Inr c"
  proof (cases "load_config no_float (demo_env [(''LAYA_PORT'', '' 9000 '')])")
    case (Inl e)
    have "py_int (py_strip '' 9000 '') = Some 9000" by code_simp
    then have "config_errors no_float (demo_env [(''LAYA_PORT'', '' 9000 '')]) = []"
      by (simp add: config_errors_def config_values_def reader_defs default_config_def LOG_LEVELS_def)
    with Inl show ?thesis by (simp add: load_config_def)
  qed
  show ?thesis unfolding c using load_config_bounds[OF c] by simp
qed

text \<open>The loader lets values through that the components built from them refuse: a sampling rate
  above one, a negative ring, an empty write queue.\<close>

lemma load_config_unchecked:
  "\<exists>c. load_config no_float (demo_env [(''LAYWATCH_TRACE_SAMPLE'', ''2''), (''LAYWATCH_RING_TRACES'', ''-1''),
        (''LAYWATCH_WRITE_QUEUE_MAX'', ''0'')]) = Inr c
     \<and> cf_trace_sample c = 2 \<and> cf_ring_traces c = -1 \<and> cf_write_queue_max c = 0"
proof -
  have "py_int (py_strip ''2'') = Some 2" "py_int (py_strip ''-1'') = Some (-1)" "py_int (py_strip ''0'') = Some 0"
    "no_float (py_strip ''2'') = Some 2"
    by code_simp+
  then show ?thesis
    by (simp add: load_config_def config_errors_def config_values_def reader_defs default_config_def LOG_LEVELS_def)
qed

end
