(* ===== verification/Rate_Limit.thy ===== *)
theory Rate_Limit
  imports Config Keys
begin

text \<open>
  Models \<open>layawatch/auth/ratelimit.py\<close>: the runtime policy stored under \<open>ratelimit.*\<close>, its
  validation and its write, and the token-bucket registry. The clock is an argument; tokens
  are exact rationals.
\<close>

section \<open>Policy\<close>

datatype pvalue = VInt int | VBool bool

text \<open>Kind and constraint of a field.\<close>

datatype pkind = KBool | KInt int | KWindow "int list"

definition LOGIN_WINDOWS :: "int list" where
  "LOGIN_WINDOWS = [300, 900, 3600]"

record policy_field =
  pf_name :: string
  pf_key :: string
  pf_default :: "config \<Rightarrow> pvalue"
  pf_kind :: pkind

definition pfield :: "string \<Rightarrow> string \<Rightarrow> (config \<Rightarrow> pvalue) \<Rightarrow> pkind \<Rightarrow> policy_field" where
  "pfield n k d kd = \<lparr>pf_name = n, pf_key = k, pf_default = d, pf_kind = kd\<rparr>"

definition POLICY_FIELDS :: "policy_field list" where
  "POLICY_FIELDS =
    [pfield ''enabled'' ''ratelimit.enabled'' (\<lambda>c. VBool (cf_ratelimit_enabled c)) KBool,
     pfield ''engine_per_min'' ''ratelimit.engine_per_min'' (\<lambda>c. VInt (cf_ratelimit_engine_per_min c)) (KInt 0),
     pfield ''ip_per_min'' ''ratelimit.ip_per_min'' (\<lambda>c. VInt (cf_ratelimit_ip_per_min c)) (KInt 0),
     pfield ''login'' ''ratelimit.login'' (\<lambda>c. VInt (cf_ratelimit_login c)) (KInt 1),
     pfield ''login_window'' ''ratelimit.login_window'' (\<lambda>c. VInt (cf_ratelimit_login_window c)) (KWindow LOGIN_WINDOWS),
     pfield ''mutation_per_min'' ''ratelimit.mutation_per_min'' (\<lambda>c. VInt (cf_ratelimit_mutation_per_min c)) (KInt 0),
     pfield ''playground_per_min'' ''ratelimit.playground_per_min'' (\<lambda>c. VInt (cf_ratelimit_playground_per_min c)) (KInt 0),
     pfield ''engine_max_inflight'' ''ratelimit.engine_max_inflight'' (\<lambda>c. VInt (cf_engine_max_inflight c)) (KInt 1),
     pfield ''engine_queue_max'' ''ratelimit.engine_queue_max'' (\<lambda>c. VInt (cf_engine_queue_max c)) (KInt 1),
     pfield ''loopback_exempt'' ''ratelimit.loopback'' (\<lambda>c. VBool (cf_ratelimit_loopback c)) KBool]"

text \<open>A PolicyError: the offending field and the message.\<close>

type_synonym policy_error = "string \<times> string"

definition field_by_name :: "string \<Rightarrow> policy_field option" where
  "field_by_name name = find (\<lambda>f. pf_name f = name) POLICY_FIELDS"

definition quoted :: "string \<Rightarrow> string" where
  "quoted name = [CHR 39] @ name @ [CHR 39]"

text \<open>The constraint part of \<open>_parse\<close>, shared by both sources.\<close>

definition check_int :: "string \<Rightarrow> pkind \<Rightarrow> int \<Rightarrow> policy_error + pvalue" where
  "check_int name kind i =
     (case kind of
        KWindow ws \<Rightarrow>
          if i \<in> set ws then Inr (VInt i)
          else Inl (name, quoted name @ '' must be one of ['' @ py_join '', '' (map str_int ws) @ ''] seconds'')
      | KInt lo \<Rightarrow>
          if i < lo then Inl (name, quoted name @ '' must be at least '' @ str_int lo) else Inr (VInt i)
      | KBool \<Rightarrow> Inr (VInt i))"

definition parse_text :: "string \<Rightarrow> pkind \<Rightarrow> string \<Rightarrow> policy_error + pvalue" where
  "parse_text name kind raw =
     (if kind = KBool then Inr (VBool (true_text raw))
      else (case py_int (py_strip raw) of
              None \<Rightarrow> Inl (name, quoted name @ '' must be an integer'')
            | Some i \<Rightarrow> check_int name kind i))"

definition parse_json :: "string \<Rightarrow> pkind \<Rightarrow> json \<Rightarrow> policy_error + pvalue" where
  "parse_json name kind raw =
     (if kind = KBool
      then (case raw of JBool b \<Rightarrow> Inr (VBool b) | _ \<Rightarrow> Inl (name, quoted name @ '' must be a boolean''))
      else (case raw of JInt i \<Rightarrow> check_int name kind i
              | _ \<Rightarrow> Inl (name, quoted name @ '' must be an integer'')))"

definition field_value :: "db \<Rightarrow> config \<Rightarrow> policy_field \<Rightarrow> pvalue" where
  "field_value d cf f =
     (case get_setting (pf_key f) d of
        None \<Rightarrow> pf_default f cf
      | Some raw \<Rightarrow> (case parse_text (pf_name f) (pf_kind f) raw of
                       Inl _ \<Rightarrow> pf_default f cf | Inr v \<Rightarrow> v))"

definition effective_policy :: "db \<Rightarrow> config \<Rightarrow> (string \<times> pvalue) list" where
  "effective_policy d cf = map (\<lambda>f. (pf_name f, field_value d cf f)) POLICY_FIELDS"

fun validate_items :: "(string \<times> json) list \<Rightarrow> (string \<times> pvalue) list \<Rightarrow> policy_error + (string \<times> pvalue) list" where
  "validate_items [] acc = Inr acc"
| "validate_items ((name, raw) # rest) acc =
     (case field_by_name name of
        None \<Rightarrow> Inl (name, ''unknown policy field '' @ py_repr name)
      | Some f \<Rightarrow> res_bind (parse_json name (pf_kind f) raw)
                   (\<lambda>v. validate_items rest (dict_set name v acc)))"

definition validated_update :: "json \<Rightarrow> policy_error + (string \<times> pvalue) list" where
  "validated_update payload =
     (case json_obj payload of
        None \<Rightarrow> Inl (''body'', ''request body must be a JSON object'')
      | Some d \<Rightarrow> if d = [] then Inl (''body'', ''no policy fields to update'')
                  else validate_items d [])"

fun value_text :: "pvalue \<Rightarrow> string" where
  "value_text (VBool b) = (if b then ''1'' else ''0'')"
| "value_text (VInt i) = str_int i"

text \<open>\<open>upsert_policy\<close>: one settings row per update, unknown names do not occur.\<close>

definition upsert_field :: "pyfloat \<Rightarrow> string \<Rightarrow> string \<times> pvalue \<Rightarrow> db \<Rightarrow> db" where
  "upsert_field now actor nv d =
     (case field_by_name (fst nv) of
        None \<Rightarrow> d
      | Some f \<Rightarrow> put_setting (pf_key f) (value_text (snd nv)) now (Some actor) d)"

definition upsert_policy :: "pyfloat \<Rightarrow> (string \<times> pvalue) list \<Rightarrow> string \<Rightarrow> db \<Rightarrow> db" where
  "upsert_policy now updates actor d = fold (upsert_field now actor) updates d"

section \<open>Buckets\<close>

record bucket =
  bk_tokens :: pyfloat
  bk_updated :: pyfloat
  bk_limit :: int
  bk_burst :: int
  bk_window :: pyfloat

type_synonym bucket_key = "string \<times> string"

type_synonym registry = "(bucket_key \<times> bucket) list"

definition BUCKET_SWEEP_AT :: nat where
  "BUCKET_SWEEP_AT = 1024"

definition bucket_sweep :: "registry \<Rightarrow> registry" where
  "bucket_sweep r = filter (\<lambda>kv. \<not> (bk_tokens (snd kv) \<ge> of_int (bk_burst (snd kv)) - 1 / 10 ^ 9)) r"

definition bucket_rate :: "bucket \<Rightarrow> pyfloat" where
  "bucket_rate b = of_int (bk_limit b) / bk_window b"

text \<open>The bucket a request meets: fresh and full, or refilled at its old rate and then given the
  policy of this request.\<close>

definition refilled :: "pyfloat \<Rightarrow> int \<Rightarrow> int \<Rightarrow> pyfloat \<Rightarrow> bucket option \<Rightarrow> bucket" where
  "refilled clock limit capacity window b0 =
     (case b0 of
        None \<Rightarrow> \<lparr>bk_tokens = of_int capacity, bk_updated = clock, bk_limit = limit, bk_burst = capacity, bk_window = window\<rparr>
      | Some b \<Rightarrow>
          \<lparr>bk_tokens = min (of_int (bk_burst b)) (bk_tokens b + (clock - bk_updated b) * bucket_rate b),
           bk_updated = clock, bk_limit = limit, bk_burst = capacity, bk_window = window\<rparr>)"

definition capacity_of :: "int \<Rightarrow> int option \<Rightarrow> int" where
  "capacity_of limit burst = max 1 (case burst of None \<Rightarrow> limit | Some b \<Rightarrow> b)"

definition consume :: "string \<Rightarrow> string \<Rightarrow> int \<Rightarrow> int option \<Rightarrow> pyfloat \<Rightarrow> pyfloat \<Rightarrow> registry
    \<Rightarrow> (bool \<times> pyfloat) \<times> registry" where
  "consume subject scope limit burst window clock r =
     (if limit \<le> 0 then ((True, 0), r)
      else (let r = (if length r > BUCKET_SWEEP_AT then bucket_sweep r else r);
                b = refilled clock limit (capacity_of limit burst) window (map_of r (subject, scope))
            in if bk_tokens b \<ge> 1
               then ((True, 0), dict_set (subject, scope) (b\<lparr>bk_tokens := bk_tokens b - 1\<rparr>) r)
               else ((False, of_int (max 1 \<lceil>(1 - bk_tokens b) / bucket_rate b\<rceil>)),
                     dict_set (subject, scope) b r)))"

text \<open>\<open>round(x, 2)\<close>, ties to even.\<close>

definition round2 :: "pyfloat \<Rightarrow> pyfloat" where
  "round2 x = (let y = x * 100; f = \<lfloor>y\<rfloor>; d = y - of_int f in
     of_int (if d < 1 / 2 \<or> d = 1 / 2 \<and> even f then f else f + 1) / 100)"

record usage_row =
  ur_subject :: string
  ur_scope :: string
  ur_used :: pyfloat
  ur_limit :: int
  ur_resets_in :: int

definition usage :: "registry \<Rightarrow> usage_row list" where
  "usage r = sort_key (\<lambda>row. - (ur_used row / of_int (ur_limit row)))
     (map (\<lambda>((subject, scope), b).
        let used = of_int (bk_burst b) - bk_tokens b in
        \<lparr>ur_subject = subject, ur_scope = scope, ur_used = round2 used, ur_limit = bk_limit b,
         ur_resets_in = \<lceil>used / bucket_rate b\<rceil>\<rparr>)
      (filter (\<lambda>kv. \<not> (of_int (bk_burst (snd kv)) - bk_tokens (snd kv) \<le> 1 / 10 ^ 9)) r))"

definition reset_buckets :: "string option \<Rightarrow> string option \<Rightarrow> bool \<Rightarrow> registry \<Rightarrow> nat \<times> registry" where
  "reset_buckets subject scope everything r =
     (if everything then (length r, [])
      else (let hit = (\<lambda>k. (subject = None \<or> subject = Some (fst k)) \<and> (scope = None \<or> scope = Some (snd k)))
            in (length (filter (\<lambda>kv. hit (fst kv)) r), filter (\<lambda>kv. \<not> hit (fst kv)) r)))"

section \<open>A written policy reads back\<close>

lemma field_by_name_Some: "field_by_name n = Some f \<Longrightarrow> f \<in> set POLICY_FIELDS \<and> pf_name f = n"
  unfolding field_by_name_def by (drule find_Some_in) auto

lemma field_by_name_in: "f \<in> set POLICY_FIELDS \<Longrightarrow> field_by_name (pf_name f) = Some f"
proof -
  have "list_all (\<lambda>g. map_option pf_key (field_by_name (pf_name g)) = Some (pf_key g)) POLICY_FIELDS"
    by code_simp
  moreover have "distinct (map pf_key POLICY_FIELDS)" by code_simp
  moreover assume "f \<in> set POLICY_FIELDS"
  ultimately show ?thesis
    by (auto simp: list_all_iff distinct_map inj_on_def dest: field_by_name_Some)
qed

lemma field_keys_distinct: "distinct (map pf_key POLICY_FIELDS)"
  by code_simp

definition kind_ok :: "pkind \<Rightarrow> pvalue \<Rightarrow> bool" where
  "kind_ok kind v = (case (kind, v) of
      (KBool, VBool _) \<Rightarrow> True
    | (KInt lo, VInt i) \<Rightarrow> lo \<le> i
    | (KWindow ws, VInt i) \<Rightarrow> i \<in> set ws
    | _ \<Rightarrow> False)"

lemma parse_json_kind: "parse_json name kind raw = Inr v \<Longrightarrow> kind_ok kind v"
  by (auto simp: parse_json_def check_int_def kind_ok_def split: if_splits json.splits pkind.splits)

lemma parse_value_text: "kind_ok kind v \<Longrightarrow> parse_text name kind (value_text v) = Inr v"
proof -
  have t: "true_text ''1''" "\<not> true_text ''0''" by code_simp+
  assume "kind_ok kind v"
  then show ?thesis
    by (auto simp: kind_ok_def parse_text_def check_int_def t split: pkind.splits pvalue.splits)
qed

definition updates_ok :: "(string \<times> pvalue) list \<Rightarrow> bool" where
  "updates_ok ups \<longleftrightarrow> dict_ok ups \<and>
     (\<forall>(n, v) \<in> set ups. case field_by_name n of None \<Rightarrow> False | Some f \<Rightarrow> kind_ok (pf_kind f) v)"

lemma validate_items_ok: "validate_items d acc = Inr ups \<Longrightarrow> updates_ok acc \<Longrightarrow> updates_ok ups"
proof (induction d acc rule: validate_items.induct)
  case (1 acc)
  then show ?case by simp
next
  case (2 name raw rest acc)
  obtain f v where f: "field_by_name name = Some f" and v: "parse_json name (pf_kind f) raw = Inr v"
    and r: "validate_items rest (dict_set name v acc) = Inr ups"
    using "2.prems"(1) by (auto simp: res_bind_Inr split: option.splits)
  have "updates_ok (dict_set name v acc)"
    using "2.prems"(2) f parse_json_kind[OF v] set_dict_set_subset[of name v acc]
    by (fastforce simp: updates_ok_def dict_ok_def distinct_update)
  with "2.IH"[OF f r] show ?case by blast
qed

lemma validated_update_ok: "validated_update payload = Inr ups \<Longrightarrow> updates_ok ups"
proof -
  have "updates_ok []" by (simp add: updates_ok_def)
  then show "validated_update payload = Inr ups \<Longrightarrow> ?thesis"
    using validate_items_ok by (auto simp: validated_update_def split: option.splits if_splits)
qed

lemma get_setting_upsert:
  assumes "f \<in> set POLICY_FIELDS" "updates_ok ups"
  shows "get_setting (pf_key f) (upsert_policy now ups actor d) =
     (case map_of ups (pf_name f) of None \<Rightarrow> get_setting (pf_key f) d | Some v \<Rightarrow> Some (value_text v))"
  using assms(2)
proof (induction ups arbitrary: d)
  case Nil
  then show ?case by (simp add: upsert_policy_def)
next
  case (Cons nv ups)
  obtain n v where nv: "nv = (n, v)" by (cases nv)
  obtain g where g: "field_by_name n = Some g"
    using Cons.prems by (auto simp: updates_ok_def nv split: option.splits)
  have ok: "updates_ok ups" and n: "n \<notin> fst ` set ups"
    using Cons.prems by (auto simp: updates_ok_def dict_ok_def nv)
  have gk: "g \<in> set POLICY_FIELDS" "pf_name g = n" using field_by_name_Some[OF g] by auto
  have eq: "pf_key f = pf_key g \<longleftrightarrow> f = g"
    using assms(1) gk(1) field_keys_distinct by (auto simp: distinct_map inj_on_def)
  have fresh: "map_of ups n = None" using n by (simp add: map_of_eq_None_iff)
  have name: "pf_name f = n \<longleftrightarrow> f = g"
    using field_by_name_in[OF assms(1)] g gk(2) by (metis option.inject)
  have up: "upsert_policy now (nv # ups) actor d = upsert_policy now ups actor (upsert_field now actor nv d)"
    by (simp add: upsert_policy_def)
  have get: "get_setting (pf_key f) (upsert_field now actor nv d) =
      (if f = g then Some (value_text v) else get_setting (pf_key f) d)"
    using g by (simp add: upsert_field_def nv eq)
  have tail: "get_setting (pf_key f) (upsert_policy now (nv # ups) actor d) =
      (case map_of ups (pf_name f) of
         None \<Rightarrow> if f = g then Some (value_text v) else get_setting (pf_key f) d
       | Some w \<Rightarrow> Some (value_text w))"
    unfolding up Cons.IH[OF ok] get by (rule refl)
  show ?case
  proof (cases "f = g")
    case True
    then have m: "map_of ups (pf_name f) = None" "map_of (nv # ups) (pf_name f) = Some v"
      using fresh name by (simp_all add: nv)
    show ?thesis unfolding tail m using True by simp
  next
    case False
    then have m: "map_of (nv # ups) (pf_name f) = map_of ups (pf_name f)"
      using name by (simp add: nv)
    show ?thesis unfolding tail m using False by simp
  qed
qed

text \<open>A policy update that validates is read back exactly: after it is written, the effective policy
  gives every updated field its new value and every other field the value it had.\<close>

theorem policy_update_reads_back:
  assumes "validated_update payload = Inr ups"
  shows "effective_policy (upsert_policy now ups actor d) cf =
    map (\<lambda>(name, old). (name, case map_of ups name of None \<Rightarrow> old | Some v \<Rightarrow> v)) (effective_policy d cf)"
proof -
  note ok = validated_update_ok[OF assms]
  have "field_value (upsert_policy now ups actor d) cf f =
      (case map_of ups (pf_name f) of None \<Rightarrow> field_value d cf f | Some v \<Rightarrow> v)"
    if f: "f \<in> set POLICY_FIELDS" for f
  proof (cases "map_of ups (pf_name f)")
    case None
    then show ?thesis by (simp add: field_value_def get_setting_upsert[OF f ok])
  next
    case (Some v)
    have "kind_ok (pf_kind f) v"
      using ok map_of_SomeD[OF Some] field_by_name_in[OF f] by (auto simp: updates_ok_def)
    with Some show ?thesis by (simp add: field_value_def get_setting_upsert[OF f ok] parse_value_text)
  qed
  then show ?thesis by (simp add: effective_policy_def)
qed

theorem policy_update_reads_back_witness:
  "map_of (effective_policy (upsert_policy 5 [(''login'', VInt 9), (''enabled'', VBool False)] ''a@x.io'' empty_db)
      default_config) ''login'' = Some (VInt 9)"
proof -
  let ?j = "JObj [(''login'', JInt 9), (''enabled'', JBool False)]"
  have v: "validated_update ?j = Inr [(''login'', VInt 9), (''enabled'', VBool False)]" by code_simp
  show ?thesis
    unfolding policy_update_reads_back[OF v]
    by (simp add: effective_policy_def POLICY_FIELDS_def pfield_def)
qed

section \<open>Token buckets\<close>

definition bucket_ok :: "bucket \<Rightarrow> bool" where
  "bucket_ok b \<longleftrightarrow> 0 \<le> bk_tokens b \<and> 1 \<le> bk_limit b \<and> 1 \<le> bk_burst b \<and> 0 < bk_window b"

definition registry_ok :: "registry \<Rightarrow> bool" where
  "registry_ok r \<longleftrightarrow> dict_ok r \<and> (\<forall>kv \<in> set r. bucket_ok (snd kv))"

lemma bucket_rate_pos: "bucket_ok b \<Longrightarrow> 0 < bucket_rate b"
  by (simp add: bucket_ok_def bucket_rate_def)

lemma capacity_pos [simp]: "1 \<le> capacity_of limit burst"
  by (simp add: capacity_of_def)

lemma refilled_ok:
  assumes "\<And>b. b0 = Some b \<Longrightarrow> bucket_ok b \<and> bk_updated b \<le> clock" "0 < limit" "0 < window"
  shows "bucket_ok (refilled clock limit (capacity_of limit burst) window b0)"
proof (cases b0)
  case None
  have "0 \<le> capacity_of limit burst" by (rule order_trans[OF _ capacity_pos]) simp
  with None assms(2,3) show ?thesis by (simp add: refilled_def bucket_ok_def)
next
  case (Some b)
  with assms(1)[OF Some] bucket_rate_pos[of b] have "0 \<le> bk_tokens b + (clock - bk_updated b) * bucket_rate b"
    by (simp add: bucket_ok_def)
  with Some assms show ?thesis by (simp add: refilled_def bucket_ok_def)
qed

text \<open>One request of a fixed policy, from a registry below the sweep bound.\<close>

lemma consume_run:
  assumes "0 < limit" "length r \<le> BUCKET_SWEEP_AT"
  shows "consume subject scope limit burst window clock r =
     (let b = refilled clock limit (capacity_of limit burst) window (map_of r (subject, scope)) in
      if bk_tokens b \<ge> 1
      then ((True, 0), dict_set (subject, scope) (b\<lparr>bk_tokens := bk_tokens b - 1\<rparr>) r)
      else ((False, of_int (max 1 \<lceil>(1 - bk_tokens b) / bucket_rate b\<rceil>)), dict_set (subject, scope) b r))"
  using assms by (simp add: consume_def Let_def)

section \<open>The registry invariant\<close>

text \<open>A clocked request against the registry, as the safe machine of the interface locale.\<close>

record bucket_request =
  br_subject :: string
  br_scope :: string
  br_limit :: int
  br_burst :: "int option"
  br_window :: pyfloat
  br_elapsed :: pyfloat

definition bucket_answer :: "bucket_request \<Rightarrow> pyfloat \<times> registry \<Rightarrow> (bool \<times> pyfloat) \<times> registry" where
  "bucket_answer q s = consume (br_subject q) (br_scope q) (br_limit q) (br_burst q)
     (if 0 < br_window q then br_window q else 60) (fst s + max 0 (br_elapsed q)) (snd s)"

definition bucket_step :: "bucket_request \<Rightarrow> pyfloat \<times> registry \<Rightarrow> pyfloat \<times> registry" where
  "bucket_step q s = (fst s + max 0 (br_elapsed q), snd (bucket_answer q s))"

definition clocked_registry_ok :: "pyfloat \<times> registry \<Rightarrow> bool" where
  "clocked_registry_ok s \<longleftrightarrow> registry_ok (snd s) \<and> (\<forall>kv \<in> set (snd s). bk_updated (snd kv) \<le> fst s)"

lemma consume_ok:
  assumes "clocked_registry_ok (t, r)" "t \<le> clock" "0 < window"
  shows "clocked_registry_ok (clock, snd (consume subject scope limit burst window clock r))"
proof (cases "limit \<le> 0")
  case True
  with assms show ?thesis by (fastforce simp: consume_def clocked_registry_ok_def)
next
  case False
  let ?r = "if length r > BUCKET_SWEEP_AT then bucket_sweep r else r"
  let ?b = "refilled clock limit (capacity_of limit burst) window (map_of ?r (subject, scope))"
  have sub: "set ?r \<subseteq> set r" and d: "dict_ok ?r"
    using assms(1) by (auto simp: bucket_sweep_def clocked_registry_ok_def registry_ok_def)
  have "\<And>b. map_of ?r (subject, scope) = Some b \<Longrightarrow> bucket_ok b \<and> bk_updated b \<le> clock"
    using sub assms(1,2) by (force simp: clocked_registry_ok_def registry_ok_def dest: map_of_SomeD)
  then have b: "bucket_ok ?b" using False assms(3) by (intro refilled_ok) auto
  have u: "bk_updated ?b = clock" by (auto simp: refilled_def split: option.splits)
  have set_ok: "clocked_registry_ok (clock, dict_set (subject, scope) c ?r)"
    if "bucket_ok c" "bk_updated c = clock" for c
    using that sub d assms(1,2) set_dict_set_subset[of "(subject, scope)" c ?r]
    by (fastforce simp: clocked_registry_ok_def registry_ok_def dict_ok_def distinct_update)
  have "bk_tokens ?b \<ge> 1 \<Longrightarrow> bucket_ok (?b\<lparr>bk_tokens := bk_tokens ?b - 1\<rparr>)"
    using b by (simp add: bucket_ok_def)
  then show ?thesis
    using False set_ok b u by (simp add: consume_def Let_def)
qed

interpretation buckets: safe_machine bucket_step clocked_registry_ok
proof
  fix s :: "pyfloat \<times> registry" and q
  assume "clocked_registry_ok s"
  then show "clocked_registry_ok (bucket_step q s)"
    unfolding bucket_step_def bucket_answer_def
    by (intro consume_ok[of "fst s"]) simp_all
qed

section \<open>What a run admits\<close>

text \<open>A run of the registry: clocked requests of any subjects, each under the policy of its moment, and resets.\<close>

datatype registry_op = Ask bucket_request | Reset "string option" "string option" bool

fun op_step :: "registry_op \<Rightarrow> pyfloat \<times> registry \<Rightarrow> pyfloat \<times> registry" where
  "op_step (Ask q) s = bucket_step q s"
| "op_step (Reset subject scope everything) s = (fst s, snd (reset_buckets subject scope everything (snd s)))"

fun asks :: "bucket_key \<Rightarrow> registry_op \<Rightarrow> bool" where
  "asks k (Ask q) = ((br_subject q, br_scope q) = k)"
| "asks k (Reset subject scope everything) = False"

fun granted :: "registry_op \<Rightarrow> pyfloat \<times> registry \<Rightarrow> bool" where
  "granted (Ask q) s = fst (fst (bucket_answer q s))"
| "granted (Reset subject scope everything) s = False"

text \<open>The requests of one key that a run admits.\<close>

fun admitted :: "bucket_key \<Rightarrow> registry_op list \<Rightarrow> pyfloat \<times> registry \<Rightarrow> nat" where
  "admitted k [] s = 0"
| "admitted k (op # ops) s = (if asks k op \<and> granted op s then 1 else 0) + admitted k ops (op_step op s)"

text \<open>The policy of the key stays the same and nobody resets it; the others may do what they like.\<close>

fun steady :: "bucket_key \<Rightarrow> int \<Rightarrow> int option \<Rightarrow> pyfloat \<Rightarrow> registry_op \<Rightarrow> bool" where
  "steady k limit burst window (Ask q) =
     ((br_subject q, br_scope q) = k \<longrightarrow> br_limit q = limit \<and> br_burst q = burst \<and> br_window q = window)"
| "steady k limit burst window (Reset subject scope everything) =
     (\<not> everything \<and> \<not> ((subject = None \<or> subject = Some (fst k)) \<and> (scope = None \<or> scope = Some (snd k))))"

lemma op_step_ok: "clocked_registry_ok s \<Longrightarrow> clocked_registry_ok (op_step op s)"
proof (cases op)
  case (Ask q)
  assume "clocked_registry_ok s"
  then show ?thesis using buckets.run_inv[of s "[q]"] Ask by simp
next
  case (Reset a b e)
  assume "clocked_registry_ok s"
  then show ?thesis using Reset
    by (auto simp: reset_buckets_def clocked_registry_ok_def registry_ok_def)
qed

text \<open>What a subject could take at time \<open>t\<close>.\<close>

definition budget :: "int \<Rightarrow> int \<Rightarrow> pyfloat \<Rightarrow> bucket option \<Rightarrow> pyfloat \<Rightarrow> pyfloat" where
  "budget limit capacity window b0 t = bk_tokens (refilled t limit capacity window b0)"

text \<open>A bucket of this policy, last refilled at or before \<open>t\<close>.\<close>

definition of_policy :: "int \<Rightarrow> int \<Rightarrow> pyfloat \<Rightarrow> pyfloat \<Rightarrow> bucket option \<Rightarrow> bool" where
  "of_policy limit capacity window t b0 \<longleftrightarrow>
     (\<forall>b. b0 = Some b \<longrightarrow> 0 \<le> bk_tokens b \<and> bk_updated b \<le> t \<and> bk_limit b = limit
        \<and> bk_burst b = capacity \<and> bk_window b = window)"

lemma budget_grows:
  assumes "of_policy limit capacity window t b0" "t \<le> t'" "0 < limit" "0 < window" "1 \<le> capacity"
  shows "budget limit capacity window b0 t' \<le> budget limit capacity window b0 t + (t' - t) * (of_int limit / window)"
    and "0 \<le> budget limit capacity window b0 t" "budget limit capacity window b0 t \<le> of_int capacity"
proof -
  have r: "0 < (of_int limit / window :: rat)" using assms(3,4) by simp
  then have g: "0 \<le> (t' - t) * (of_int limit / window)"
    using assms(2) by (intro mult_nonneg_nonneg) simp_all
  show "budget limit capacity window b0 t \<le> of_int capacity"
    using assms(1) by (cases b0) (auto simp: budget_def refilled_def of_policy_def)
  show "0 \<le> budget limit capacity window b0 t"
  proof (cases b0)
    case None
    with assms(5) show ?thesis by (simp add: budget_def refilled_def)
  next
    case (Some b)
    have "0 \<le> (t - bk_updated b) * (of_int limit / window)"
      using Some assms(1) r by (intro mult_nonneg_nonneg) (auto simp: of_policy_def)
    then show ?thesis
      using Some assms(1,5) by (simp add: budget_def refilled_def of_policy_def bucket_rate_def)
  qed
  show "budget limit capacity window b0 t' \<le> budget limit capacity window b0 t + (t' - t) * (of_int limit / window)"
  proof (cases b0)
    case None
    with g show ?thesis by (simp add: budget_def refilled_def)
  next
    case (Some b)
    let ?q = "of_int limit / window :: rat" and ?u = "bk_updated b"
    have d: "y + (t' - u) * q = (y + (t - u) * q) + (t' - t) * q" for u q y :: rat
      by (simp add: algebra_simps)
    have split: "bk_tokens b + (t' - ?u) * ?q = (bk_tokens b + (t - ?u) * ?q) + (t' - t) * ?q"
      by (rule d)
    have "min x (y + z) \<le> min x y + z" if "0 \<le> z" for x y z :: rat
      using that by (auto simp: min_def)
    with g split Some assms(1) show ?thesis
      by (simp add: budget_def refilled_def of_policy_def bucket_rate_def)
  qed
qed

text \<open>A sweep takes a bucket that is full but for a billionth of a token; it comes back full.\<close>

lemma sweep_get:
  assumes "dict_ok r"
  shows "map_of (bucket_sweep r) k = (case map_of r k of None \<Rightarrow> None
     | Some b \<Rightarrow> if bk_tokens b \<ge> of_int (bk_burst b) - 1 / 10 ^ 9 then None else Some b)"
  using assms unfolding dict_ok_def bucket_sweep_def
  by (induction r) (auto simp: map_of_eq_None_iff split: option.splits)

definition swept :: "registry \<Rightarrow> registry" where
  "swept r = (if length r > BUCKET_SWEEP_AT then bucket_sweep r else r)"

lemma swept_get:
  assumes "dict_ok r"
  shows "map_of (swept r) k = map_of r k
    \<or> map_of (swept r) k = None \<and> (\<exists>b. map_of r k = Some b \<and> of_int (bk_burst b) - 1 / 10 ^ 9 \<le> bk_tokens b)"
  using sweep_get[OF assms, of k] by (auto simp: swept_def split: option.splits)

text \<open>The potential: what the key could take, and the billionth a sweep may give it.\<close>

definition potential :: "int \<Rightarrow> int \<Rightarrow> pyfloat \<Rightarrow> bucket option \<Rightarrow> pyfloat \<Rightarrow> pyfloat" where
  "potential limit capacity window b0 t = budget limit capacity window b0 t + (if b0 = None then 0 else 1 / 10 ^ 9)"

lemma potential_grows:
  assumes "of_policy limit capacity window t b0" "t \<le> t'" "0 < limit" "0 < window" "1 \<le> capacity"
  shows "potential limit capacity window b0 t' \<le> potential limit capacity window b0 t + (t' - t) * (of_int limit / window)"
  using budget_grows(1)[OF assms] by (simp add: potential_def)

text \<open>A sweep never adds to the potential, and leaves a bucket of the same policy.\<close>

lemma potential_swept:
  assumes "dict_ok r" "of_policy limit capacity window t (map_of r k)" "0 < limit" "0 < window" "1 \<le> capacity"
  shows "potential limit capacity window (map_of (swept r) k) t \<le> potential limit capacity window (map_of r k) t"
    "of_policy limit capacity window t (map_of (swept r) k)"
    "budget limit capacity window (map_of (swept r) k) t \<le> potential limit capacity window (map_of r k) t"
proof -
  have full: "of_int capacity - 1 / 10 ^ 9 \<le> budget limit capacity window (Some b) t"
    if "map_of r k = Some b" "of_int (bk_burst b) - 1 / 10 ^ 9 \<le> bk_tokens b" for b
  proof -
    have "0 \<le> (t - bk_updated b) * (of_int limit / window)"
      using that(1) assms(2-4) by (intro mult_nonneg_nonneg) (auto simp: of_policy_def)
    then show ?thesis using that assms(2) by (auto simp: budget_def refilled_def of_policy_def bucket_rate_def)
  qed
  show p: "potential limit capacity window (map_of (swept r) k) t \<le> potential limit capacity window (map_of r k) t"
    using swept_get[OF assms(1), of k]
  proof (elim disjE conjE exE)
    fix b assume "map_of (swept r) k = None" "map_of r k = Some b" "of_int (bk_burst b) - 1 / 10 ^ 9 \<le> bk_tokens b"
    then show ?thesis using full by (simp add: potential_def budget_def[of _ _ _ None] refilled_def)
  qed simp
  show "of_policy limit capacity window t (map_of (swept r) k)"
    using swept_get[OF assms(1), of k] assms(2) by (auto simp: of_policy_def)
  have "budget limit capacity window b0 t \<le> potential limit capacity window b0 t" for b0 by (simp add: potential_def)
  then show "budget limit capacity window (map_of (swept r) k) t \<le> potential limit capacity window (map_of r k) t"
    using p order_trans by blast
qed

lemma consume_swept:
  "0 < limit \<Longrightarrow> consume subject scope limit burst window clock r =
     (let b = refilled clock limit (capacity_of limit burst) window (map_of (swept r) (subject, scope)) in
      if bk_tokens b \<ge> 1
      then ((True, 0), dict_set (subject, scope) (b\<lparr>bk_tokens := bk_tokens b - 1\<rparr>) (swept r))
      else ((False, of_int (max 1 \<lceil>(1 - bk_tokens b) / bucket_rate b\<rceil>)), dict_set (subject, scope) b (swept r)))"
  by (simp add: consume_def swept_def Let_def)

lemma of_policy_later: "of_policy limit capacity window t b0 \<Longrightarrow> t \<le> t' \<Longrightarrow> of_policy limit capacity window t' b0"
  by (auto simp: of_policy_def)

text \<open>One operation, paid from the potential: an own request pays a token if it is admitted and gets a billionth,
  any other operation adds at most the refill.\<close>

lemma op_pays:
  assumes "0 < limit" "0 < window" "clocked_registry_ok (t, r)" "steady k limit burst window op"
    and "of_policy limit (capacity_of limit burst) window t (map_of r k)" "op_step op (t, r) = (t1, r1)"
  shows "t \<le> t1" "of_policy limit (capacity_of limit burst) window t1 (map_of r1 k)"
    "(if asks k op \<and> granted op (t, r) then 1 else 0) + potential limit (capacity_of limit burst) window (map_of r1 k) t1
      \<le> potential limit (capacity_of limit burst) window (map_of r k) t + (t1 - t) * (of_int limit / window)
        + (if asks k op then 1 / 10 ^ 9 else 0)"
proof -
  let ?cap = "capacity_of limit burst"
  let ?P = "potential limit ?cap window" and ?pol = "of_policy limit ?cap window"
  have dict: "dict_ok r" using assms(3) by (simp add: clocked_registry_ok_def registry_ok_def)
  have le: "t \<le> t1" using assms(6) by (cases op) (auto simp: bucket_step_def bucket_answer_def Let_def)
  then show "t \<le> t1" .
  have pol: "?pol t1 (map_of r k)" by (rule of_policy_later[OF assms(5) le])
  note sw = potential_swept[OF dict pol assms(1,2) capacity_pos]
  have grow: "?P (map_of r k) t1 \<le> ?P (map_of r k) t + (t1 - t) * (of_int limit / window)"
    by (rule potential_grows[OF assms(5) le assms(1,2) capacity_pos])
  show "?pol t1 (map_of r1 k)"
    "(if asks k op \<and> granted op (t, r) then 1 else 0) + ?P (map_of r1 k) t1
      \<le> ?P (map_of r k) t + (t1 - t) * (of_int limit / window) + (if asks k op then 1 / 10 ^ 9 else 0)"
  proof (atomize (full), cases "asks k op")
    case False
    have "map_of r1 k = map_of r k \<or> map_of r1 k = map_of (swept r) k"
    proof (cases op)
      case (Reset a b e)
      have "map_of (filter (\<lambda>kv. \<not> ((a = None \<or> a = Some (fst (fst kv))) \<and> (b = None \<or> b = Some (snd (fst kv))))) r) k = map_of r k"
        using assms(4) Reset map_of_filter_key[of "\<lambda>k. \<not> ((a = None \<or> a = Some (fst k)) \<and> (b = None \<or> b = Some (snd k)))" r k] by simp
      then show ?thesis using assms(4,6) Reset by (auto simp: reset_buckets_def)
    next
      case (Ask q)
      then show ?thesis using assms(6) False
        by (auto simp: bucket_step_def bucket_answer_def consume_def swept_def Let_def split: if_splits)
    qed
    then show "?pol t1 (map_of r1 k) \<and> (if asks k op \<and> granted op (t, r) then 1 else 0) + ?P (map_of r1 k) t1
      \<le> ?P (map_of r k) t + (t1 - t) * (of_int limit / window) + (if asks k op then 1 / 10 ^ 9 else 0)"
      using sw grow pol False by auto
  next
    case True
    then obtain q where q: "op = Ask q" "k = (br_subject q, br_scope q)" by (cases op) auto
    have arg: "br_limit q = limit" "br_burst q = burst" "br_window q = window" using assms(4) q by auto
    define b where "b = refilled t1 limit ?cap window (map_of (swept r) k)"
    define c where "c = (if 1 \<le> bk_tokens b then b\<lparr>bk_tokens := bk_tokens b - 1\<rparr> else b)"
    have t1: "t1 = t + max 0 (br_elapsed q)" using assms(6) q by (auto simp: bucket_step_def bucket_answer_def Let_def)
    have run: "bucket_answer q (t, r) = consume (fst k) (snd k) limit burst window t1 r"
      using assms(2) q(2) arg t1 by (simp add: bucket_answer_def Let_def)
    have r1: "r1 = dict_set k c (swept r)" and ok: "granted op (t, r) = (1 \<le> bk_tokens b)"
      using assms(6) q run consume_swept[OF assms(1), of "fst k" "snd k" burst window t1 r]
      by (auto simp: bucket_step_def b_def c_def Let_def)
    have fields: "bk_updated b = t1" "bk_limit b = limit" "bk_burst b = ?cap" "bk_window b = window"
      by (auto simp: b_def refilled_def split: option.splits)
    have tok: "0 \<le> bk_tokens b" "bk_tokens b \<le> ?P (map_of r k) t1"
      using budget_grows(2)[OF sw(2) order_refl assms(1,2) capacity_pos] sw(3) by (simp_all add: b_def budget_def)
    have "?pol t1 (Some c)" using tok(1) fields by (simp add: of_policy_def c_def)
    moreover have "?P (Some c) t1 \<le> bk_tokens c + 1 / 10 ^ 9"
      using fields by (simp add: potential_def budget_def refilled_def c_def)
    moreover have "bk_tokens c = bk_tokens b - (if granted op (t, r) then 1 else 0)" by (simp add: c_def ok)
    ultimately show "?pol t1 (map_of r1 k) \<and> (if asks k op \<and> granted op (t, r) then 1 else 0) + ?P (map_of r1 k) t1
      \<le> ?P (map_of r k) t + (t1 - t) * (of_int limit / window) + (if asks k op then 1 / 10 ^ 9 else 0)"
      using True tok(2) grow r1 by auto
  qed
qed

lemma admitted_bound:
  assumes "0 < limit" "0 < window" "clocked_registry_ok (t, r)" "list_all (steady k limit burst window) ops"
    and "of_policy limit (capacity_of limit burst) window t (map_of r k)" "fold op_step ops (t, r) = (t', r')"
  shows "of_nat (admitted k ops (t, r)) \<le> potential limit (capacity_of limit burst) window (map_of r k) t
      + (t' - t) * (of_int limit / window) + of_nat (length (filter (asks k) ops)) / 10 ^ 9"
  using assms(3-6)
proof (induction ops arbitrary: t r)
  case Nil
  then show ?case
    using budget_grows(2)[OF Nil.prems(3) order_refl assms(1,2) capacity_pos] by (simp add: potential_def)
next
  case (Cons op ops)
  obtain t1 r1 where st: "op_step op (t, r) = (t1, r1)" by fastforce
  have steady: "steady k limit burst window op" using Cons.prems(2) by simp
  note pay = op_pays[OF assms(1,2) Cons.prems(1) steady Cons.prems(3) st]
  have ok: "clocked_registry_ok (t1, r1)" using op_step_ok[OF Cons.prems(1), of op] st by simp
  have "of_nat (admitted k ops (t1, r1)) \<le> potential limit (capacity_of limit burst) window (map_of r1 k) t1
      + (t' - t1) * (of_int limit / window) + of_nat (length (filter (asks k) ops)) / 10 ^ 9"
    by (rule Cons.IH[OF ok _ pay(2)]) (use Cons.prems(2,4) st in simp_all)
  moreover have "(t1 - t) * (of_int limit / window) + (t' - t1) * (of_int limit / window) = (t' - t) * (of_int limit / window)"
  proof -
    have "(t1 - t) * q + (t' - t1) * q = (t' - t) * q" for q :: rat by (simp add: algebra_simps)
    then show ?thesis .
  qed
  ultimately show ?case using pay(3) st by (auto simp: add_divide_distrib split: if_splits)
qed

text \<open>C9: The bucket bounds what it admits. Over any run of the registry (requests of any subjects under any
  policies, with the sweeps they set off, and resets of other subjects), a key whose own policy
  stays the same is admitted at most its burst plus the refill of the elapsed time, and a billionth of a
  token for each of its requests: that much a sweep may give back.\<close>

theorem bucket_admits_at_most_burst_plus_refill:
  assumes "0 < limit" "0 < window" "clocked_registry_ok (t, r)" "list_all (steady k limit burst window) ops"
    and "of_policy limit (capacity_of limit burst) window t (map_of r k)" "fold op_step ops (t, r) = (t', r')"
  shows "of_nat (admitted k ops (t, r)) \<le> of_int (capacity_of limit burst) + (t' - t) * (of_int limit / window)
      + of_nat (Suc (length (filter (asks k) ops))) / 10 ^ 9"
proof -
  have "potential limit (capacity_of limit burst) window (map_of r k) t \<le> of_int (capacity_of limit burst) + 1 / 10 ^ 9"
    using budget_grows(3)[OF assms(5) order_refl assms(1,2) capacity_pos] by (cases "map_of r k") (simp_all add: potential_def)
  then show ?thesis using admitted_bound[OF assms] by (simp add: add_divide_distrib)
qed

definition demo_ask :: "string \<Rightarrow> pyfloat \<Rightarrow> registry_op" where
  "demo_ask subject elapsed = Ask \<lparr>br_subject = subject, br_scope = ''api_key'', br_limit = 6, br_burst = Some 2, br_window = 60, br_elapsed = elapsed\<rparr>"

definition demo_asks :: "registry_op list" where
  "demo_asks = [demo_ask ''k'' 0, demo_ask ''k'' 1, demo_ask ''j'' 0, Reset (Some ''j'') None False, demo_ask ''k'' 1, demo_ask ''k'' 1,
     demo_ask ''k'' 7, demo_ask ''k'' 1, demo_ask ''k'' 9]"

theorem bucket_admits_at_most_burst_plus_refill_witness:
  "admitted (''k'', ''api_key'') demo_asks (0, []) = 4
   \<and> of_nat (admitted (''k'', ''api_key'') demo_asks (0, [])) \<le> (4 + 8 / 10 ^ 9 :: rat)"
proof -
  have h: "(0 :: int) < 6" "(0 :: rat) < 60" "clocked_registry_ok (0, [])"
    "list_all (steady (''k'', ''api_key'') 6 (Some 2) 60) demo_asks"
    "of_policy 6 (capacity_of 6 (Some 2)) 60 0 (map_of [] (''k'', ''api_key''))"
    by (simp_all add: clocked_registry_ok_def registry_ok_def of_policy_def demo_asks_def demo_ask_def)
  obtain r' where r: "fold op_step demo_asks (0, []) = (20, r')"
  proof -
    have "fst (fold op_step demo_asks (0, [])) = 20" by code_simp
    then show ?thesis using that by (metis prod.collapse)
  qed
  have "admitted (''k'', ''api_key'') demo_asks (0, []) = 4" by code_simp
  moreover have "length (filter (asks (''k'', ''api_key'')) demo_asks) = 7" by code_simp
  ultimately show ?thesis
    using bucket_admits_at_most_burst_plus_refill[OF h r] by (simp add: capacity_of_def)
qed

text \<open>A refusal takes no token and its Retry-After is honest: asked again after that wait, with the
  same policy and no request in between, the subject is admitted.\<close>

theorem refused_request_is_admitted_after_the_wait:
  assumes "0 < limit" "0 < window" "length r \<le> BUCKET_SWEEP_AT"
    and "consume subject scope limit burst window now r = ((False, wait), r')" "length r' \<le> BUCKET_SWEEP_AT"
  shows "map_of r' (subject, scope) =
       Some (refilled now limit (capacity_of limit burst) window (map_of r (subject, scope)))
    \<and> 1 \<le> wait
    \<and> fst (fst (consume subject scope limit burst window (now + wait) r'))"
proof -
  let ?b = "refilled now limit (capacity_of limit burst) window (map_of r (subject, scope))"
  have lt: "bk_tokens ?b < 1" and w: "wait = of_int (max 1 \<lceil>(1 - bk_tokens ?b) / bucket_rate ?b\<rceil>)"
    and r': "r' = dict_set (subject, scope) ?b r"
    using assms(4) by (auto simp: consume_run[OF assms(1,3)] Let_def split: if_splits)
  have b: "bk_updated ?b = now" "bk_limit ?b = limit" "bk_burst ?b = capacity_of limit burst" "bk_window ?b = window"
    by (auto simp: refilled_def split: option.splits)
  have q: "0 < bucket_rate ?b" using assms(1,2) b by (simp add: bucket_rate_def)
  have "(1 - bk_tokens ?b) / bucket_rate ?b \<le> wait"
    unfolding w by (rule order_trans[OF le_of_int_ceiling]) simp
  then have "1 - bk_tokens ?b \<le> wait * bucket_rate ?b" using q by (simp add: pos_divide_le_eq)
  then have "1 \<le> bk_tokens (refilled (now + wait) limit (capacity_of limit burst) window (Some ?b))"
    using b(1,3) by (simp add: refilled_def[of "now + wait"])
  moreover have m: "map_of r' (subject, scope) = Some ?b" by (simp add: r')
  ultimately have "fst (fst (consume subject scope limit burst window (now + wait) r'))"
    by (simp add: consume_run[OF assms(1,5)] Let_def)
  moreover have "1 \<le> wait" by (simp add: w)
  ultimately show ?thesis using m by blast
qed

theorem refused_request_is_admitted_after_the_wait_witness:
  "fst (fst (consume ''k'' ''ip'' 6 (Some 1) 60 10
      (snd (consume ''k'' ''ip'' 6 (Some 1) 60 0 (snd (consume ''k'' ''ip'' 6 (Some 1) 60 0 []))))))"
proof -
  let ?r = "snd (consume ''k'' ''ip'' 6 (Some 1) 60 0 [])"
  have h: "(0 :: int) < 6" "(0 :: rat) < 60" "length ?r \<le> BUCKET_SWEEP_AT"
    "consume ''k'' ''ip'' 6 (Some 1) 60 0 ?r = ((False, 10), snd (consume ''k'' ''ip'' 6 (Some 1) 60 0 ?r))"
    "length (snd (consume ''k'' ''ip'' 6 (Some 1) 60 0 ?r)) \<le> BUCKET_SWEEP_AT"
    by code_simp+
  show ?thesis
    using refused_request_is_admitted_after_the_wait[OF h] by simp
qed

text \<open>Over any clocked run no bucket goes below zero, but a lowered burst leaves more tokens than it.\<close>

lemma registry_run_ok: "clocked_registry_ok (fold bucket_step qs (0, []))"
  by (rule buckets.run_inv) (simp add: clocked_registry_ok_def registry_ok_def)

lemma lowered_burst_keeps_tokens:
  "map_option (\<lambda>b. (bk_tokens b, bk_burst b))
     (map_of (snd (consume ''k'' ''ip'' 60 (Some 2) 60 0 (snd (consume ''k'' ''ip'' 60 (Some 10) 60 0 [])))) (''k'', ''ip''))
   = Some (8, 2)"
  by code_simp

end
