(* ===== verification/Passwords.thy ===== *)
theory Passwords
  imports Http_Types
begin

text \<open>
  Models \<open>layawatch/auth/passwords.py\<close>: the scrypt encoding and its verification, and the
  password policy. scrypt itself is an argument over bytes (None is the ValueError it raises
  on parameters it refuses); base64 is written out, decoding in the strict mode of
  \<open>b64decode(validate=True)\<close>. Bytes are strings of Latin-1 characters. The deny list is an
  argument: the lines of \<open>data/common_passwords.txt\<close>, or None when the file is missing.
\<close>

section \<open>base64\<close>

definition b64_alphabet :: string where
  "b64_alphabet = ''ABCDEFGHIJKLMNOPQRSTUVWXYZabcdefghijklmnopqrstuvwxyz0123456789+/''"

definition b64_char :: "nat \<Rightarrow> char" where
  "b64_char n = b64_alphabet ! n"

text \<open>The value of one base64 character.\<close>

definition b64_index :: "char \<Rightarrow> nat option" where
  "b64_index c = (let n = length (takeWhile (\<lambda>x. x \<noteq> c) b64_alphabet) in
     if n < 64 then Some n else None)"

fun b64_encode :: "string \<Rightarrow> string" where
  "b64_encode [] = []"
| "b64_encode [a] =
     [b64_char (cp a div 4), b64_char (cp a mod 4 * 16), CHR ''='', CHR ''='']"
| "b64_encode [a, b] =
     [b64_char (cp a div 4), b64_char (cp a mod 4 * 16 + cp b div 16),
      b64_char (cp b mod 16 * 4), CHR ''='']"
| "b64_encode (a # b # c # rest) =
     [b64_char (cp a div 4), b64_char (cp a mod 4 * 16 + cp b div 16),
      b64_char (cp b mod 16 * 4 + cp c div 64), b64_char (cp c mod 64)] @ b64_encode rest"

text \<open>Padding ends the input; None is the \<open>binascii.Error\<close>.\<close>

fun b64_decode :: "string \<Rightarrow> string option" where
  "b64_decode [] = Some []"
| "b64_decode (p # q # r # s # rest) =
     (case (b64_index p, b64_index q) of
        (Some i, Some j) \<Rightarrow>
          (case (b64_index r, b64_index s) of
             (Some k, Some l) \<Rightarrow>
               map_option ((@) [char_of (i * 4 + j div 16), char_of (j mod 16 * 16 + k div 4),
                                char_of (k mod 4 * 64 + l)]) (b64_decode rest)
           | (Some k, None) \<Rightarrow>
               if s = CHR ''='' \<and> rest = []
               then Some [char_of (i * 4 + j div 16), char_of (j mod 16 * 16 + k div 4)] else None
           | (None, None) \<Rightarrow>
               if r = CHR ''='' \<and> s = CHR ''='' \<and> rest = [] then Some [char_of (i * 4 + j div 16)] else None
           | _ \<Rightarrow> None)
      | _ \<Rightarrow> None)"
| "b64_decode _ = None"

lemma b64_index_char [simp]: "n < 64 \<Longrightarrow> b64_index (b64_char n) = Some n"
proof -
  assume n: "n < 64"
  have d: "distinct b64_alphabet" and l: "length b64_alphabet = 64" by code_simp+
  from n l have "takeWhile (\<lambda>x. x \<noteq> b64_char n) b64_alphabet = take n b64_alphabet"
    unfolding b64_char_def
    by (intro takeWhile_eq_take_P_nth) (use d in \<open>auto simp: nth_eq_iff_index_eq\<close>)
  then show ?thesis using n l by (simp add: b64_index_def)
qed

lemma cp_less [simp]: "cp c < 256"
  unfolding cp_def by simp

lemma b64_index_pad [simp]: "b64_index (CHR ''='') = None"
  by code_simp

lemma b64_bounds [simp]:
  "a < 256 \<Longrightarrow> a div 4 < (64 :: nat)" "a mod 4 * 16 < (64 :: nat)" "b mod 16 * 4 < (64 :: nat)"
  "c mod 64 < (64 :: nat)"
  "b < 256 \<Longrightarrow> a mod 4 * 16 + b div 16 < (64 :: nat)"
  "c < 256 \<Longrightarrow> b mod 16 * 4 + c div 64 < (64 :: nat)"
proof -
  have "a mod 4 < 4" "b mod 16 < 16" "b < 256 \<Longrightarrow> b div 16 < 16" "c < 256 \<Longrightarrow> c div 64 < 4"
    by auto
  then show "a < 256 \<Longrightarrow> a div 4 < (64 :: nat)" "a mod 4 * 16 < (64 :: nat)" "b mod 16 * 4 < (64 :: nat)"
    "c mod 64 < (64 :: nat)" "b < 256 \<Longrightarrow> a mod 4 * 16 + b div 16 < (64 :: nat)"
    "c < 256 \<Longrightarrow> b mod 16 * 4 + c div 64 < (64 :: nat)"
    by linarith+
qed

lemma b64_joins:
  "b < 256 \<Longrightarrow> b div 16 div 16 = (0 :: nat)" "b < 256 \<Longrightarrow> b div 16 mod 16 = b div (16 :: nat)"
  "c < 256 \<Longrightarrow> c div 64 div 4 = (0 :: nat)" "c < 256 \<Longrightarrow> c div 64 mod 4 = c div (64 :: nat)"
  by auto

lemma char_of_cp [simp]: "char_of (cp c) = c"
  by (simp add: cp_def)

lemma b64_roundtrip: "b64_decode (b64_encode s) = Some s"
  by (induction s rule: b64_encode.induct) (simp_all add: b64_joins)

lemma b64_no_dollar: "CHR ''$'' \<notin> set (b64_encode s)"
proof -
  have "n < 64 \<Longrightarrow> b64_char n \<noteq> CHR ''$''" for n
  proof
    assume n: "n < 64" and e: "b64_char n = CHR ''$''"
    have "b64_index (CHR ''$'') = None" by code_simp
    with e b64_index_char[OF n] show False by simp
  qed
  then have "n < 64 \<Longrightarrow> CHR ''$'' \<noteq> b64_char n" for n by metis
  then show ?thesis by (induction s rule: b64_encode.induct) simp_all
qed

section \<open>Hashes\<close>

text \<open>\<open>hashlib.scrypt\<close>: password, salt, n, r, p, dklen; None is its ValueError.\<close>

type_synonym scrypt = "string \<Rightarrow> string \<Rightarrow> int \<Rightarrow> int \<Rightarrow> int \<Rightarrow> nat \<Rightarrow> string option"

definition hash_password :: "scrypt \<Rightarrow> string \<Rightarrow> string \<Rightarrow> exn + string" where
  "hash_password scrypt salt password =
     (case scrypt (utf8_bytes password) salt 16384 8 1 32 of
        None \<Rightarrow> Inl (PyExc ValueError)
      | Some digest \<Rightarrow>
          Inr (''scrypt$'' @ str_int 16384 @ ''$'' @ str_int 8 @ ''$'' @ str_int 1 @ ''$''
               @ b64_encode salt @ ''$'' @ b64_encode digest))"

text \<open>\<open>str(stored).split("$", 5)\<close> unpacked to six parts: exactly five separators are consumed,
  the last part keeps any further one.\<close>

fun split_at_most :: "nat \<Rightarrow> char \<Rightarrow> string \<Rightarrow> string list" where
  "split_at_most 0 c s = [s]"
| "split_at_most (Suc n) c s =
     (let (h, found, t) = py_partition c s in if found then h # split_at_most n c t else [h])"

definition verify_password :: "scrypt \<Rightarrow> string \<Rightarrow> string option \<Rightarrow> exn + bool" where
  "verify_password scrypt password stored =
     (case stored of
        None \<Rightarrow> Inr False
      | Some st \<Rightarrow>
          if st = [] then Inr False
          else (case split_at_most 5 (CHR ''$'') st of
                  [algorithm, n_s, r_s, p_s, salt_b64, hash_b64] \<Rightarrow>
                    if algorithm \<noteq> ''scrypt'' then Inr False
                    else (case (b64_decode salt_b64, b64_decode hash_b64, py_int n_s, py_int r_s, py_int p_s) of
                            (Some salt, Some expected, Some n, Some r, Some p) \<Rightarrow>
                              (case scrypt (utf8_bytes password) salt n r p (length expected) of
                                 None \<Rightarrow> Inl (PyExc ValueError)
                               | Some digest \<Rightarrow> Inr (digest = expected))
                          | _ \<Rightarrow> Inr False)
                | _ \<Rightarrow> Inr False))"

text \<open>\<open>verify_or_dummy\<close>: the scrypt round spent on the dummy changes no outcome.\<close>

definition verify_or_dummy :: "scrypt \<Rightarrow> string \<Rightarrow> string option \<Rightarrow> exn + bool" where
  "verify_or_dummy scrypt password stored =
     (case stored of
        Some st \<Rightarrow> if st = [] then Inr False else verify_password scrypt password stored
      | None \<Rightarrow> Inr False)"

section \<open>Policy\<close>

definition deny_list :: "string list option \<Rightarrow> string set" where
  "deny_list file_lines =
     (case file_lines of
        None \<Rightarrow> {}
      | Some ls \<Rightarrow> set (map (\<lambda>l. py_lower (py_strip l))
          (filter (\<lambda>l. py_strip l \<noteq> [] \<and> \<not> py_startswith (py_lstrip l) ''#'') ls)))"

text \<open>The message of the PasswordPolicyError, or None.\<close>

definition check_policy :: "string set \<Rightarrow> string \<Rightarrow> string \<Rightarrow> string option" where
  "check_policy deny email password =
     (if length password < 12 then Some ''password must be at least 12 characters''
      else (let local_part = py_lower (py_strip (fst (py_partition (CHR ''@'') email)));
                cleaned = py_lower (py_strip password)
            in if local_part \<noteq> [] \<and> cleaned = local_part
               then Some ''password must not equal the email local part''
               else if cleaned \<in> deny then Some ''password appears in the common-password list''
               else None))"

section \<open>A stored hash verifies its password\<close>

lemma split_at_most_piece:
  "c \<notin> set w \<Longrightarrow> split_at_most (Suc n) c (w @ c # rest) = w # split_at_most n c rest"
proof -
  have "c \<notin> set w \<Longrightarrow> py_partition c (w @ c # rest) = (w, True, rest)"
    by (induction w) auto
  then show "c \<notin> set w \<Longrightarrow> ?thesis" by simp
qed

lemma str_int_no_dollar: "CHR ''$'' \<notin> set (str_int i)"
proof -
  have "\<not> py_digit (CHR ''$'')" by code_simp
  then have "CHR ''$'' \<notin> set (str_nat n)" for n using str_nat_digits[of n] by blast
  then show ?thesis by (simp add: str_int_def)
qed

lemma hash_password_parts:
  assumes "hash_password scrypt salt pw = Inr st"
  obtains digest where
    "scrypt (utf8_bytes pw) salt 16384 8 1 32 = Some digest"
    "split_at_most 5 (CHR ''$'') st =
       [''scrypt'', str_int 16384, str_int 8, str_int 1, b64_encode salt, b64_encode digest]"
    "st \<noteq> []"
proof -
  from assms obtain digest where d: "scrypt (utf8_bytes pw) salt 16384 8 1 32 = Some digest"
    and st: "st = ''scrypt'' @ CHR ''$'' # str_int 16384 @ CHR ''$'' # str_int 8 @ CHR ''$'' # str_int 1
       @ CHR ''$'' # b64_encode salt @ CHR ''$'' # b64_encode digest"
    by (auto simp: hash_password_def split: option.splits)
  have five: "(5 :: nat) = Suc (Suc (Suc (Suc (Suc 0))))" by simp
  have "CHR ''$'' \<notin> set ''scrypt''" by simp
  then have "split_at_most 5 (CHR ''$'') st =
       [''scrypt'', str_int 16384, str_int 8, str_int 1, b64_encode salt, b64_encode digest]"
    unfolding st five
    by (simp only: split_at_most_piece str_int_no_dollar b64_no_dollar not_False_eq_True split_at_most.simps(1))
  with d st show thesis by (intro that[of digest]) simp_all
qed

text \<open>The encoding \<open>hash_password\<close> writes verifies exactly the passwords with the same scrypt
  digest under its salt, in particular the password itself: the parameters, the salt and the
  digest survive the text form.\<close>

theorem verify_hash_password:
  assumes "\<And>pw s n r p k d. scrypt pw s n r p k = Some d \<Longrightarrow> length d = k"
    and "hash_password scrypt salt pw = Inr st"
  shows "verify_password scrypt attempt (Some st) =
      (case scrypt (utf8_bytes attempt) salt 16384 8 1 32 of
         None \<Rightarrow> Inl (PyExc ValueError)
       | Some d \<Rightarrow> Inr (scrypt (utf8_bytes pw) salt 16384 8 1 32 = Some d))
    \<and> verify_password scrypt pw (Some st) = Inr True"
proof -
  obtain digest where d: "scrypt (utf8_bytes pw) salt 16384 8 1 32 = Some digest"
    and sp: "split_at_most 5 (CHR ''$'') st =
       [''scrypt'', str_int 16384, str_int 8, str_int 1, b64_encode salt, b64_encode digest]"
    and ne: "st \<noteq> []"
    using hash_password_parts[OF assms(2)] .
  have "length digest = 32" using assms(1)[OF d] .
  then show ?thesis
    using d sp ne by (auto simp: verify_password_def b64_roundtrip split: option.splits)
qed

definition toy_scrypt :: scrypt where
  "toy_scrypt pw salt n r p k = Some (take k (pw @ salt @ replicate k (CHR ''.'')))"

theorem verify_hash_password_witness:
  "\<exists>st. hash_password toy_scrypt ''0123456789abcdef'' ''correct horse battery'' = Inr st
     \<and> verify_password toy_scrypt ''correct horse battery'' (Some st) = Inr True
     \<and> verify_password toy_scrypt ''correct horse batterz'' (Some st) = Inr False"
proof -
  let ?s = "''0123456789abcdef''" and ?p = "''correct horse battery''" and ?q = "''correct horse batterz''"
  have len: "\<And>pw s n r p k d. toy_scrypt pw s n r p k = Some d \<Longrightarrow> length d = k"
    by (auto simp: toy_scrypt_def)
  obtain st where st: "hash_password toy_scrypt ?s ?p = Inr st"
    by (simp add: hash_password_def toy_scrypt_def)
  have "(case toy_scrypt (utf8_bytes ?q) ?s 16384 8 1 32 of None \<Rightarrow> Inl (PyExc ValueError)
     | Some d \<Rightarrow> Inr (toy_scrypt (utf8_bytes ?p) ?s 16384 8 1 32 = Some d)) = Inr False"
    by code_simp
  then show ?thesis
    using st verify_hash_password[where attempt = ?q, OF len st] by auto
qed

text \<open>Parameters scrypt refuses escape the malformed-encoding handler.\<close>

lemma verify_password_bad_parameters_raise:
  "(\<And>pw s d k. scrypt pw s 3 8 1 k = None) \<Longrightarrow>
   verify_password scrypt pw (Some ''scrypt$3$8$1$QQ==$QQ=='') = Inl (PyExc ValueError)"
proof -
  assume n: "\<And>pw s d k. scrypt pw s 3 8 1 k = None"
  have "split_at_most 5 (CHR ''$'') ''scrypt$3$8$1$QQ==$QQ=='' = [''scrypt'', ''3'', ''8'', ''1'', ''QQ=='', ''QQ=='']"
    "b64_decode ''QQ=='' = Some ''A''" "py_int ''3'' = Some 3" "py_int ''8'' = Some 8" "py_int ''1'' = Some 1"
    by code_simp+
  then show ?thesis using n by (simp add: verify_password_def)
qed

end
