(* ===== verification/Api_Base.thy ===== *)
theory Api_Base
  imports Sessions Login_Limit Rate_Limit Passwords
begin

text \<open>
  What the identity endpoints of \<open>layawatch/api\<close> share: the process state they run over (a
  database handle, the login backoff of \<open>auth/login_limit\<close> and the bucket registry of
  \<open>auth/ratelimit\<close>), and the context of one call: the configuration, the platform functions
  (json, digests, scrypt), the deny list, and the values the call draws (clocks, tokens, ids).
  The middleware's cached principal is part of the context.
\<close>

record app_state = conn +
  as_backoff :: backoff
  as_buckets :: registry

type_synonym 'a api = "(exn, app_state, 'a) act"

record ctx =
  cx_config :: config
  cx_crypto :: crypto
  cx_pepper :: string
  cx_scrypt :: scrypt
  cx_deny :: "string set"
  cx_loads :: "string \<Rightarrow> string + json"
  cx_now :: pyfloat
  cx_mono :: pyfloat
  cx_token :: string
  cx_csrf :: string
  cx_uid :: string
  cx_salt :: string
  cx_draws :: "nat list"
  cx_cached :: "principal option"

definition app_gate :: "ctx \<Rightarrow> request \<Rightarrow> string option \<Rightarrow> string option \<Rightarrow> string option \<Rightarrow> principal api" where
  "app_gate cx rq permission action target =
     gate (cx_crypto cx) (cx_now cx) (cx_pepper cx) (cx_cached cx) rq permission action target"

definition with_backoff :: "(backoff \<Rightarrow> 'a \<times> backoff) \<Rightarrow> 'a api" where
  "with_backoff f s = (let (a, b) = f (as_backoff s) in (Inr a, s\<lparr>as_backoff := b\<rparr>))"

definition with_buckets :: "(registry \<Rightarrow> 'a \<times> registry) \<Rightarrow> 'a api" where
  "with_buckets f s = (let (a, r) = f (as_buckets s) in (Inr a, s\<lparr>as_buckets := r\<rparr>))"

text \<open>\<open>_rejection\<close> of an unverified hash: \<open>hash_password\<close> lifted to a program.\<close>

definition app_hash :: "ctx \<Rightarrow> string \<Rightarrow> string api" where
  "app_hash cx password = act_lift (hash_password (cx_scrypt cx) (cx_salt cx) password)"

section \<open>Invariants of the database along a call\<close>

lemma keeps_with_backoff [keeps_rules]: "keeps I (with_backoff f)"
  by (simp add: keeps_def with_backoff_def conn_inv_def split: prod.splits)

lemma keeps_with_buckets [keeps_rules]: "keeps I (with_buckets f)"
  by (simp add: keeps_def with_buckets_def conn_inv_def split: prod.splits)

lemma keeps_app_hash [keeps_rules]: "keeps I (app_hash cx pw)"
  unfolding app_hash_def by (rule keeps_lift)

text \<open>What the gate writes (sessions, key use counts, audit rows) does not matter to the invariant.\<close>

definition same_rest :: "db \<Rightarrow> db \<Rightarrow> bool" where
  "same_rest d e \<longleftrightarrow> e = d\<lparr>db_sessions := db_sessions e, db_keys := db_keys e, db_audit := db_audit e\<rparr>"

definition gate_blind :: "(db \<Rightarrow> bool) \<Rightarrow> bool" where
  "gate_blind I \<longleftrightarrow> (\<forall>d e. same_rest d e \<longrightarrow> I d \<longrightarrow> I e)"

lemma same_restD:
  assumes "same_rest d e"
  shows "db_users e = db_users d" "db_settings e = db_settings d" "db_traces e = db_traces d"
    "db_observations e = db_observations d" "db_scores e = db_scores d" "db_logs e = db_logs d"
    "db_rollups e = db_rollups d"
proof -
  have e: "f e = f (d\<lparr>db_sessions := db_sessions e, db_keys := db_keys e, db_audit := db_audit e\<rparr>)" for f :: "db \<Rightarrow> 'x"
    using arg_cong[OF assms[unfolded same_rest_def], of f] .
  show "db_users e = db_users d" "db_settings e = db_settings d" "db_traces e = db_traces d"
    "db_observations e = db_observations d" "db_scores e = db_scores d" "db_logs e = db_logs d"
    "db_rollups e = db_rollups d"
    using e[of db_users] e[of db_settings] e[of db_traces] e[of db_observations] e[of db_scores] e[of db_logs]
      e[of db_rollups] by simp_all
qed

lemma keeps_exec_blind:
  "gate_blind I \<Longrightarrow> (\<And>d. same_rest d (f d)) \<Longrightarrow> keeps I (db_exec f)"
  unfolding gate_blind_def by (rule keeps_exec) blast

lemma keeps_audit_blind: "gate_blind I \<Longrightarrow> keeps I (audit t a b i tg r m)"
  unfolding audit_def by (rule keeps_exec_blind) (simp_all add: same_rest_def audit_entry_def)

lemma keeps_require_permission: "gate_blind I \<Longrightarrow> keeps I (require_permission now p perm a t)"
  unfolding require_permission_def Let_def
  by (intro keeps_if keeps_return keeps_bind keeps_audit_blind keeps_commit keeps_raise)

lemma keeps_resolve_session: "gate_blind I \<Longrightarrow> keeps I (resolve_session cr now token)"
  unfolding resolve_session_def
  by (auto intro!: keeps_rules keeps_exec_blind simp: touch_session_def same_rest_def split: prod.splits option.splits)

lemma keeps_verify_key: "gate_blind I \<Longrightarrow> keeps I (verify_key cr now s pepper)"
  unfolding verify_key_def
  by (auto intro!: keeps_rules keeps_exec_blind simp: same_rest_def touch_key_def)

lemma keeps_authenticate: "gate_blind I \<Longrightarrow> keeps I (authenticate cr now pepper cached rq)"
  unfolding authenticate_def
  by (auto intro!: keeps_rules keeps_resolve_session keeps_verify_key split: option.splits)

lemma keeps_gate: "gate_blind I \<Longrightarrow> keeps I (app_gate cx rq perm a t)"
  unfolding app_gate_def gate_def
  by (auto intro!: keeps_rules keeps_authenticate keeps_require_permission)

lemma keeps_revoke_where: "gate_blind I \<Longrightarrow> keeps I (revoke_where P)"
  unfolding revoke_where_def
  by (auto intro!: keeps_rules keeps_exec_blind simp: revoke_sessions_where_def same_rest_def)

lemma keeps_issue_session: "gate_blind I \<Longrightarrow> keeps I (issue_session cr now tok uid rq ttl)"
  unfolding issue_session_def
  by (auto intro!: keeps_rules keeps_exec_blind simp: same_rest_def)

lemmas keeps_session_ops = keeps_gate keeps_audit_blind keeps_resolve_session keeps_revoke_where
  keeps_issue_session

lemma conn_inv_bind:
  assumes "conn_inv I (snd (m c))" "\<And>a. keeps I (f a)"
  shows "conn_inv I (snd (act_bind m f c))"
  using assms keepsD[OF assms(2)] by (auto simp: act_bind_def split: prod.splits sum.splits)

lemma gate_blind_settings [simp]: "gate_blind (\<lambda>d. P (db_settings d))"
  unfolding gate_blind_def by (simp add: same_restD)

lemma gate_blind_traces [simp]: "gate_blind (\<lambda>d. P (db_traces d))"
  unfolding gate_blind_def by (simp add: same_restD)

lemma gate_blind_owner [simp]: "gate_blind owner_inv"
  unfolding gate_blind_def using owner_inv_cong same_restD(1) by metis

section \<open>Running the gate\<close>

lemma app_gate_bind:
  "act_bind (app_gate cx rq a b c) k s = (case app_gate cx rq a b c s of (Inl e, t) \<Rightarrow> (Inl e, t) | (Inr p, t) \<Rightarrow> k p t)"
  by (simp add: act_bind_def)

lemma gate_admits_role:
  assumes "app_gate cx rq (Some perm) a t s = (Inr p, s')"
  shows "role_allows (pr_role p) perm"
  using assms unfolding app_gate_def
  by (auto simp: gate_def act_bind_def act_simps act_when_def require_permission_Inr
      split: sum.splits option.splits prod.splits if_splits)

end
