(* ===== verification/Lifecycle.thy ===== *)
theory Lifecycle
  imports Recorder Router Api_Base
begin

text \<open>
  The state of a request in flight: the application state, the engine, the recorder and the trace
  context of the request, and what left through the recorder's callbacks. Models
  \<open>ThreadLocalSpans\<close> of \<open>layawatch/http/middleware.py\<close> and the \<open>with ctx.span(..)\<close>
  blocks: outside a trace, or under a disabled recorder, spans, events and fields do nothing. Clock
  readings and the ids of observations come from tapes that are read one position after the other.
\<close>

record 'e life = app_state +
  lf_engine :: 'e
  lf_recorder :: recorder
  lf_trace :: "trace_ctx option"
  lf_parsed :: "json option"
  lf_tick :: nat
  lf_sent :: "finished list"
  lf_notices :: "log_line list"

type_synonym ('e, 'a) live = "(exn, 'e life, 'a) act"

record env =
  ev_ctx :: ctx
  ev_render :: "pyfloat \<Rightarrow> string"
  ev_id :: "nat \<Rightarrow> string"
  ev_clock :: "nat \<Rightarrow> pyfloat"
  ev_draw :: pyfloat
  ev_str :: "json \<Rightarrow> string"
  ev_exc :: "pyexc \<Rightarrow> string"

section \<open>Spans, events and fields of the active trace\<close>

definition in_trace :: "'a \<Rightarrow> 'a rec_act \<Rightarrow> ('e, 'a) live" where
  "in_trace dflt m s = (case lf_trace s of None \<Rightarrow> (Inr dflt, s)
     | Some c \<Rightarrow> (case m c of
         (Inl e, c') \<Rightarrow> (Inl (PyExc e), s\<lparr>lf_trace := Some c'\<rparr>)
       | (Inr a, c') \<Rightarrow> (Inr a, s\<lparr>lf_trace := Some c'\<rparr>)))"

definition trace_set :: "(string \<times> json) list \<Rightarrow> ('e, unit) live" where
  "trace_set kvs = in_trace () (ctx_set kvs)"

definition trace_set_meta :: "(string \<times> json) list \<Rightarrow> ('e, unit) live" where
  "trace_set_meta kvs = in_trace () (ctx_set_meta kvs)"

definition trace_event :: "env \<Rightarrow> string \<Rightarrow> json \<Rightarrow> json \<Rightarrow> (string \<times> json) list \<Rightarrow> ('e, unit) live" where
  "trace_event ev name input output attrs s =
     in_trace () (act_bind (ctx_event (ev_render ev) (lf_recorder s) (ev_id ev (lf_tick s)) (ev_clock ev (lf_tick s))
       name input output attrs) (\<lambda>_. act_return ())) (s\<lparr>lf_tick := Suc (lf_tick s)\<rparr>)"

definition leave_span :: "env \<Rightarrow> nat \<times> pyfloat \<Rightarrow> bool \<Rightarrow> 'e life \<Rightarrow> 'e life" where
  "leave_span ev h raised s = (case lf_trace s of None \<Rightarrow> s
     | Some c \<Rightarrow> s\<lparr>lf_trace := Some (span_exit h raised (ev_clock ev (lf_tick s)) c), lf_tick := Suc (lf_tick s)\<rparr>)"

text \<open>Constructing the span and entering it; None outside a trace.\<close>

definition enter_span :: "env \<Rightarrow> string \<Rightarrow> (string \<times> json) list \<Rightarrow> ('e, (nat \<times> pyfloat) option) live" where
  "enter_span ev name attrs s = (case lf_trace s of None \<Rightarrow> (Inr None, s)
     | Some c \<Rightarrow> (case ctx_span (ev_render ev) (lf_recorder s) name JNull JNull attrs c of
         (Inl e, _) \<Rightarrow> (Inl (PyExc e), s)
       | (Inr sp, _) \<Rightarrow> (let (h, c') = span_enter sp (ev_id ev (lf_tick s)) (ev_clock ev (lf_tick s)) c in
           (Inr (Some h), s\<lparr>lf_trace := Some c', lf_tick := Suc (lf_tick s)\<rparr>))))"

text \<open>\<open>with ctx.span(name, **attrs): body\<close>\<close>

definition with_span :: "env \<Rightarrow> string \<Rightarrow> (string \<times> json) list \<Rightarrow> ('e, 'a) live \<Rightarrow> ('e, 'a) live" where
  "with_span ev name attrs body = act_bind (enter_span ev name attrs) (\<lambda>h s.
     let (r, t) = body s in (r, case h of None \<Rightarrow> t | Some h \<Rightarrow> leave_span ev h (isl r) t))"

text \<open>\<open>Context.finish\<close> with its callbacks.\<close>

definition finish_trace :: "env \<Rightarrow> int \<Rightarrow> 'e life \<Rightarrow> 'e life" where
  "finish_trace ev status s = (case lf_trace s of None \<Rightarrow> s
     | Some c \<Rightarrow> (let (out, notice, rc, c') = ctx_finish status (ev_clock ev (lf_tick s)) (cx_now (ev_ctx ev)) (ev_draw ev) (lf_recorder s) c in
         s\<lparr>lf_recorder := rc, lf_trace := Some c', lf_tick := Suc (lf_tick s),
           lf_sent := lf_sent s @ (case out of None \<Rightarrow> [] | Some t \<Rightarrow> [t]),
           lf_notices := lf_notices s @ (case notice of None \<Rightarrow> [] | Some l \<Rightarrow> [l])\<rparr>))"

section \<open>What a step carries along\<close>

text \<open>The trace of the request stays the same trace, open as it was, and its observations are only
  added to; nothing is delivered.\<close>

definition carries :: "'e life \<Rightarrow> 'e life \<Rightarrow> bool" where
  "carries s t \<longleftrightarrow> lf_sent t = lf_sent s \<and> lf_recorder t = lf_recorder s \<and>
     (case lf_trace s of None \<Rightarrow> lf_trace t = None
      | Some c \<Rightarrow> (\<exists>d. lf_trace t = Some d \<and> tx_id d = tx_id c \<and> tx_finished d = tx_finished c
          \<and> prefix (map ob_name (tx_obs c)) (map ob_name (tx_obs d))))"

definition carrying :: "('x, 'e life, 'a) act \<Rightarrow> bool" where
  "carrying m \<longleftrightarrow> (\<forall>s. carries s (snd (m s)))"

named_theorems carry \<open>programs that carry the trace of a request along\<close>

lemma carries_refl [simp]: "carries s s"
  by (simp add: carries_def split: option.splits)

lemma carries_trans: "carries s t \<Longrightarrow> carries t u \<Longrightarrow> carries s u"
  by (auto simp: carries_def split: option.splits intro: prefix_order.trans)

lemma carryingD: "carrying m \<Longrightarrow> m s = (r, t) \<Longrightarrow> carries s t"
  by (metis carrying_def snd_conv)

lemma carry_return [carry]: "carrying (act_return a)"
  by (simp add: carrying_def act_return_def)

lemma carry_raise [carry]: "carrying (act_raise e)"
  by (simp add: carrying_def act_raise_def)

lemma carry_lift [carry]: "carrying (act_lift r)"
  by (simp add: carrying_def act_lift_def)

lemma carry_bind [carry]:
  assumes "carrying m" "\<And>a. carrying (f a)"
  shows "carrying (act_bind m f)"
  unfolding carrying_def
proof
  fix s
  obtain r t where m: "m s = (r, t)" by (cases "m s")
  show "carries s (snd (act_bind m f s))"
    using carryingD[OF assms(1) m] assms(2) unfolding carrying_def
    by (cases r) (auto simp: act_bind_def m intro: carries_trans)
qed

lemma carry_if [carry]: "(b \<Longrightarrow> carrying m) \<Longrightarrow> (\<not> b \<Longrightarrow> carrying n) \<Longrightarrow> carrying (if b then m else n)"
  by simp

lemma carry_option [carry]: "carrying m \<Longrightarrow> (\<And>a. carrying (n a)) \<Longrightarrow> carrying (case r of None \<Rightarrow> m | Some a \<Rightarrow> n a)"
  by (cases r) simp_all

lemma carry_exec [carry]: "carrying (db_exec f)"
  by (simp add: carrying_def db_exec_def act_modify_def carries_def split: option.splits)

lemma carry_query [carry]: "carrying (db_query f)"
  by (simp add: carrying_def db_query_def act_get_def)

lemma carry_commit [carry]: "carrying db_commit"
  by (simp add: carrying_def db_commit_def act_modify_def carries_def split: option.splits)

lemma carries_close: "carries s t \<Longrightarrow> carries s (conn_close t)"
  by (simp add: carries_def conn_close_def split: option.splits)

lemma carry_with_conn [carry]: "carrying m \<Longrightarrow> carrying (with_conn m)"
  by (simp add: carrying_def with_conn_run carries_close)

lemma carry_in_trace:
  assumes "\<And>c. tx_id (snd (m c)) = tx_id c \<and> tx_finished (snd (m c)) = tx_finished c
     \<and> prefix (map ob_name (tx_obs c)) (map ob_name (tx_obs (snd (m c))))"
  shows "carrying (in_trace dflt m :: ('e, 'a) live)"
  unfolding carrying_def
proof
  fix s :: "'e life"
  show "carries s (snd (in_trace dflt m s))"
  proof (cases "lf_trace s")
    case (Some c)
    then show ?thesis using assms[of c] by (auto simp: in_trace_def carries_def split: prod.splits sum.splits)
  qed (simp add: in_trace_def)
qed

lemma set_loop_id: "tx_id (snd (set_loop kvs c)) = tx_id c"
proof (induction kvs arbitrary: c)
  case (Cons kv kvs)
  then show ?case by (cases kv) (simp add: act_simps act_raise_def)
qed (simp add: act_return_def)

lemma ctx_set_id: "tx_id (snd (ctx_set kvs c)) = tx_id c"
  using set_loop_id[of kvs c] by (simp add: ctx_set_def check_active_def act_simps)

lemma carry_set [carry]: "carrying (trace_set kvs)"
  unfolding trace_set_def
proof (rule carry_in_trace)
  fix c
  show "tx_id (snd (ctx_set kvs c)) = tx_id c \<and> tx_finished (snd (ctx_set kvs c)) = tx_finished c
     \<and> prefix (map ob_name (tx_obs c)) (map ob_name (tx_obs (snd (ctx_set kvs c))))"
    using ctx_set_spans[of kvs c "fst (ctx_set kvs c)" "snd (ctx_set kvs c)"] ctx_set_id[of kvs c] by (simp add: same_spans_def)
qed

lemma carry_set_meta [carry]: "carrying (trace_set_meta kvs)"
  unfolding trace_set_meta_def
  by (rule carry_in_trace) (simp add: ctx_set_meta_def check_active_def act_simps)

lemma carry_event [carry]: "carrying (trace_event ev name input output attrs)"
  unfolding carrying_def
proof
  fix s :: "'a life"
  show "carries s (snd (trace_event ev name input output attrs s))"
  proof (cases "lf_trace s")
    case (Some c)
    obtain r d where e: "ctx_event (ev_render ev) (lf_recorder s) (ev_id ev (lf_tick s)) (ev_clock ev (lf_tick s)) name input output attrs c = (r, d)"
      by fastforce
    show ?thesis using ctx_event_spans[OF e]
      by (cases r) (auto simp: trace_event_def in_trace_def Some carries_def act_bind_def e act_return_def)
  qed (simp add: trace_event_def in_trace_def carries_def)
qed

lemma closed_names [simp]: "map ob_name (obs[i := close_obs raised x (obs ! i)]) = map ob_name obs"
  by (cases "i < length obs") (simp_all add: map_update close_obs_def list_update_same_conv list_update_beyond)

lemma carries_leave: "carries s t \<Longrightarrow> carries s (leave_span ev h raised t)"
  by (auto simp: leave_span_def carries_def span_exit_def split: option.splits prod.splits)

lemma carry_enter [carry]: "carrying (enter_span ev name attrs)"
  by (auto simp: carrying_def enter_span_def carries_def span_enter_def Let_def split: option.splits prod.splits sum.splits)

lemma carry_with_span [carry]: "carrying m \<Longrightarrow> carrying (with_span ev name attrs m)"
  unfolding with_span_def
proof (rule carry_bind[OF carry_enter])
  fix h
  assume m: "carrying m"
  then show "carrying (\<lambda>s. let (r, t) = m s in (r, case h of None \<Rightarrow> t | Some h \<Rightarrow> leave_span ev h (isl r) t))"
    by (auto simp: carrying_def split: option.splits prod.splits intro: carries_leave) (metis snd_conv carries_leave)+
qed

lemma carry_when [carry]: "(b \<Longrightarrow> carrying m) \<Longrightarrow> carrying (act_when b m)"
  by (simp add: act_when_def carry_return)

section \<open>Steps that cannot fail on an open trace\<close>

definition open_trace :: "'e life \<Rightarrow> bool" where
  "open_trace s \<longleftrightarrow> (\<exists>c. lf_trace s = Some c \<and> \<not> tx_finished c)"

definition names_of :: "'e life \<Rightarrow> string list" where
  "names_of s = (case lf_trace s of None \<Rightarrow> [] | Some c \<Rightarrow> map ob_name (tx_obs c))"

lemma carries_open: "carries s t \<Longrightarrow> open_trace s \<Longrightarrow> open_trace t"
  by (auto simp: carries_def open_trace_def)

lemma set_ok:
  assumes "open_trace s" "list_all (\<lambda>(k, v). k \<in> set SETTABLE_FIELDS) kvs"
  shows "fst (trace_set kvs s) = Inr ()"
proof -
  have no: "k \<notin> set READONLY_FIELDS" if "k \<in> set SETTABLE_FIELDS" for k
    using that by (auto simp: SETTABLE_FIELDS_def READONLY_FIELDS_def)
  have loop: "fst (set_loop kvs c) = Inr ()" for c
    using assms(2)
  proof (induction kvs arbitrary: c)
    case (Cons kv kvs)
    then show ?case using no by (cases kv) (auto simp: act_simps)
  qed (simp add: act_return_def)
  obtain c where c: "lf_trace s = Some c" "\<not> tx_finished c" using assms(1) by (auto simp: open_trace_def)
  then have "fst (ctx_set kvs c) = Inr ()" using loop[of c] by (simp add: ctx_set_def check_active_def act_simps)
  then show ?thesis by (auto simp: trace_set_def in_trace_def c split: prod.splits sum.splits)
qed

lemma set_meta_ok: "open_trace s \<Longrightarrow> fst (trace_set_meta kvs s) = Inr ()"
  by (auto simp: trace_set_meta_def in_trace_def open_trace_def ctx_set_meta_def check_active_def act_simps)

end
