(* ===== verification/Keyset.thy ===== *)
theory Keyset
  imports Prelude "HOL-Library.Multiset"
begin

text \<open>
  Keyset pagination, the shape the trace, log and audit lists share: one row more than the limit is
  read in the list's order from behind the cursor, the page is the rows up to the limit, and the
  cursor of the next page is the sort key of the last row when there was one more. The interface
  is the order, the cursor predicate and the key; the result is that following the cursors of an
  unchanged table visits every row once, in order.
\<close>

definition keyset_page :: "('r list \<Rightarrow> 'r list) \<Rightarrow> ('k \<Rightarrow> 'r \<Rightarrow> bool) \<Rightarrow> ('r \<Rightarrow> 'k) \<Rightarrow> nat \<Rightarrow> 'k option \<Rightarrow> 'r list
    \<Rightarrow> 'r list \<times> 'k option" where
  "keyset_page order after key limit cursor rows =
     (let got = take (limit + 1) (order (case cursor of None \<Rightarrow> rows | Some k \<Rightarrow> filter (after k) rows));
          page = take limit got in
      (page, if limit < length got \<and> page \<noteq> [] then Some (key (last page)) else None))"

fun keyset_walk :: "('k option \<Rightarrow> 'r list \<times> 'k option) \<Rightarrow> nat \<Rightarrow> 'k option \<Rightarrow> 'r list list" where
  "keyset_walk page 0 cursor = []"
| "keyset_walk page (Suc n) cursor =
     (case page cursor of (items, next_cursor) \<Rightarrow>
        items # (case next_cursor of None \<Rightarrow> [] | Some k \<Rightarrow> keyset_walk page n (Some k)))"

locale keyset =
  fixes order :: "'r list \<Rightarrow> 'r list" and after :: "'k \<Rightarrow> 'r \<Rightarrow> bool" and key :: "'r \<Rightarrow> 'k"
    and ok :: "'r list \<Rightarrow> bool"
  assumes order_filter: "order (filter P rows) = filter P (order rows)"
    and length_order: "length (order rows) = length rows"
    and after_last: "ok rows \<Longrightarrow> order rows = xs @ r # ys \<Longrightarrow> filter (after (key r)) (order rows) = ys"
begin

definition behind :: "'r list \<Rightarrow> 'k option \<Rightarrow> 'r list \<Rightarrow> bool" where
  "behind rows cursor ys \<longleftrightarrow> (cursor = None \<and> order rows = ys)
     \<or> (\<exists>xs r. cursor = Some (key r) \<and> order rows = xs @ r # ys)"

lemma page_behind:
  assumes "ok rows" "behind rows cursor ys"
  shows "keyset_page order after key limit cursor rows =
    (take limit ys, if limit < length ys \<and> 0 < limit then Some (key (ys ! (limit - 1))) else None)"
proof -
  have got: "order (case cursor of None \<Rightarrow> rows | Some k \<Rightarrow> filter (after k) rows) = ys"
    using assms after_last[OF assms(1)] by (auto simp: behind_def order_filter split: option.splits)
  have last: "last (take limit ys) = ys ! (limit - 1)" if "limit < length ys" "0 < limit"
    using that by (subst last_conv_nth) auto
  show ?thesis unfolding keyset_page_def got by (auto simp: Let_def last)
qed

lemma behind_next:
  assumes "behind rows cursor ys" "limit < length ys" "0 < limit"
  shows "behind rows (Some (key (ys ! (limit - 1)))) (drop limit ys)"
proof -
  have "ys = take (limit - 1) ys @ ys ! (limit - 1) # drop limit ys"
    using assms(2,3) id_take_nth_drop[of "limit - 1" ys] by simp
  moreover obtain xs where "order rows = xs @ ys"
    using assms(1) unfolding behind_def by (metis append_Cons append_Nil append_assoc)
  ultimately have "order rows = (xs @ take (limit - 1) ys) @ ys ! (limit - 1) # drop limit ys" by simp
  then show ?thesis unfolding behind_def by blast
qed

text \<open>Following the cursors: every remaining row once, in order, on pages of at most the limit.\<close>

lemma walk_behind:
  assumes "ok rows" "0 < limit"
  shows "behind rows cursor ys \<Longrightarrow> length ys \<le> limit * fuel \<Longrightarrow>
    concat (keyset_walk (\<lambda>c. keyset_page order after key limit c rows) fuel cursor) = ys
    \<and> list_all (\<lambda>p. length p \<le> limit) (keyset_walk (\<lambda>c. keyset_page order after key limit c rows) fuel cursor)"
proof (induction fuel arbitrary: cursor ys)
  case (Suc n)
  note page = page_behind[OF assms(1) Suc.prems(1), of limit]
  show ?case
  proof (cases "limit < length ys")
    case True
    have "behind rows (Some (key (ys ! (limit - 1)))) (drop limit ys)"
      by (rule behind_next[OF Suc.prems(1) True assms(2)])
    moreover have "length (drop limit ys) \<le> limit * n" using Suc.prems(2) by simp
    ultimately show ?thesis using Suc.IH page True assms(2) by simp
  next
    case False
    then show ?thesis using page by simp
  qed
qed simp

lemma walk_all:
  "ok rows \<Longrightarrow> 0 < limit \<Longrightarrow> length rows \<le> limit * fuel \<Longrightarrow>
    concat (keyset_walk (\<lambda>c. keyset_page order after key limit c rows) fuel None) = order rows"
  using walk_behind[of rows limit None "order rows" fuel] by (simp add: behind_def length_order)

end

section \<open>Ascending and descending keys\<close>

lemma sorted_after:
  fixes f :: "'r \<Rightarrow> 'b::linorder"
  assumes "distinct (map f rows)" "sort_key f rows = xs @ r # ys"
  shows "filter (\<lambda>x. f r < f x) (sort_key f rows) = ys"
proof -
  have "sorted (map f (xs @ r # ys))" using sorted_sort_key[of f rows] assms(2) by simp
  moreover have "distinct (map f (xs @ r # ys))"
  proof -
    have "mset (map f (sort_key f rows)) = mset (map f rows)" by simp
    then show ?thesis using assms by (metis mset_eq_imp_distinct_iff)
  qed
  ultimately have "\<forall>x \<in> set xs. f x < f r" "\<forall>y \<in> set ys. f r < f y"
    by (fastforce simp: sorted_append le_less image_iff)+
  then have "filter (\<lambda>x. f r < f x) xs = []" "filter (\<lambda>x. f r < f x) ys = ys" by (auto simp: filter_empty_conv)
  then show ?thesis by (simp add: assms(2))
qed

lemma descending_after:
  fixes f :: "'r \<Rightarrow> 'b::linorder"
  assumes "distinct (map f rows)" "rev (sort_key f rows) = xs @ r # ys"
  shows "filter (\<lambda>x. f x < f r) (rev (sort_key f rows)) = ys"
proof -
  have s: "sort_key f rows = rev ys @ r # rev xs" using assms(2) by (metis append.assoc append_Cons append_Nil rev.simps(2) rev_append rev_rev_ident)
  have "sorted (map f (rev ys @ r # rev xs))" using sorted_sort_key[of f rows] s by simp
  moreover have "distinct (map f (rev ys @ r # rev xs))"
  proof -
    have "mset (map f (sort_key f rows)) = mset (map f rows)" by simp
    then show ?thesis using assms(1) s by (metis mset_eq_imp_distinct_iff)
  qed
  ultimately have "\<forall>y \<in> set ys. f y < f r" "\<forall>x \<in> set xs. f r < f x"
    by (fastforce simp: sorted_append le_less image_iff)+
  then have "filter (\<lambda>x. f x < f r) ys = ys" "filter (\<lambda>x. f x < f r) xs = []" by (auto simp: filter_empty_conv dest: less_asym)
  then show ?thesis unfolding assms(2) by simp
qed

lemma filter_rev_sort: "rev (sort_key f (filter P rows)) = filter P (rev (sort_key f rows))"
  by (simp add: filter_sort flip: rev_filter)

end
