(* ===== verification/Query_Params.thy ===== *)
theory Query_Params
  imports Http_Types Rollup
begin

text \<open>
  Models the parameter layer of \<open>layawatch/store/queries.py\<close>: allowlists, windows, limits, steps,
  metric names, status, order and level filters. A query is the parsed query string, name to
  values. \<open>InvalidFilter\<close> carries its message; another exception escapes as it does in the
  source. \<open>float(text)\<close> is an argument that answers a finite number, a value that is not finite,
  or its ValueError.
\<close>

section \<open>Errors and raw values\<close>

datatype query_error = InvalidFilter string | Escapes pyexc

type_synonym 'a query = "query_error + 'a"

type_synonym params = "(string \<times> string list) list"

datatype float_text = NotFloat | NonFinite | Finite pyfloat

type_synonym float_parser = "string \<Rightarrow> float_text"

text \<open>Handlers turn an \<open>InvalidFilter\<close> into 400 and let the rest pass.\<close>

definition query_exn :: "query_error \<Rightarrow> exn" where
  "query_exn e = (case e of InvalidFilter m \<Rightarrow> http_err 400 ''invalid_filter'' m None | Escapes x \<Rightarrow> PyExc x)"

definition invalid :: "string \<Rightarrow> 'a query" where
  "invalid m = Inl (InvalidFilter m)"

definition first_value :: "params \<Rightarrow> string \<Rightarrow> string option" where
  "first_value ps name = (case map_of ps name of Some (v # _) \<Rightarrow> Some v | _ \<Rightarrow> None)"

text \<open>\<open>_opt\<close>: an empty value counts as absent.\<close>

definition opt_value :: "params \<Rightarrow> string \<Rightarrow> string option" where
  "opt_value ps name = (case first_value ps name of Some v \<Rightarrow> if v = [] then None else Some v | None \<Rightarrow> None)"

fun reject_unknown :: "params \<Rightarrow> string list \<Rightarrow> unit query" where
  "reject_unknown [] allow = Inr ()"
| "reject_unknown ((k, v) # ps) allow =
     (if k \<in> set allow then reject_unknown ps allow else invalid (''unknown query parameter '' @ py_repr k))"

definition parse_float :: "float_parser \<Rightarrow> string \<Rightarrow> string \<Rightarrow> pyfloat query" where
  "parse_float flt value name = (case flt value of
     NotFloat \<Rightarrow> invalid (name @ '' must be a number'')
   | NonFinite \<Rightarrow> invalid (name @ '' must be a finite number'')
   | Finite q \<Rightarrow> Inr q)"

section \<open>Windows and limits\<close>

definition DEFAULT_LIMIT :: int where "DEFAULT_LIMIT = 50"

definition MAX_LIMIT :: int where "MAX_LIMIT = 200"

definition RANGE_SECONDS :: "(string \<times> pyfloat) list" where
  "RANGE_SECONDS = [(''15m'', 900), (''1h'', 3600), (''6h'', 21600), (''24h'', 86400), (''7d'', 604800)]"

definition parse_limit :: "string option \<Rightarrow> int \<Rightarrow> int query" where
  "parse_limit raw dflt =
     (case raw of None \<Rightarrow> Inr dflt
      | Some s \<Rightarrow> if s = [] then Inr dflt
          else (case py_int s of None \<Rightarrow> invalid ''limit must be an integer''
                | Some v \<Rightarrow> if v < 1 then invalid ''limit must be at least 1''
                    else if MAX_LIMIT < v then invalid (''limit must be at most '' @ str_int MAX_LIMIT)
                    else Inr v))"

definition parse_range :: "string \<Rightarrow> pyfloat query" where
  "parse_range raw = (case map_of RANGE_SECONDS raw of
     None \<Rightarrow> invalid (''range must be one of '' @ py_join '', '' (map fst RANGE_SECONDS))
   | Some s \<Rightarrow> Inr s)"

definition opt_float :: "float_parser \<Rightarrow> string option \<Rightarrow> string \<Rightarrow> pyfloat option query" where
  "opt_float flt raw name = (case raw of None \<Rightarrow> Inr None | Some s \<Rightarrow> res_bind (parse_float flt s name) (\<lambda>q. Inr (Some q)))"

type_synonym window = "pyfloat option \<times> pyfloat option"

definition resolve_window :: "float_parser \<Rightarrow> pyfloat \<Rightarrow> params \<Rightarrow> window query" where
  "resolve_window flt now ps =
     (let raw_range = opt_value ps ''range''; since_raw = opt_value ps ''since''; until_raw = opt_value ps ''until'' in
      if raw_range \<noteq> None \<and> (since_raw \<noteq> None \<or> until_raw \<noteq> None)
      then invalid ''range cannot be combined with since/until''
      else (case raw_range of
              Some r \<Rightarrow> res_bind (parse_range r) (\<lambda>s. Inr (Some (now - s), Some now))
            | None \<Rightarrow>
                res_bind (opt_float flt since_raw ''since'') (\<lambda>since.
                res_bind (opt_float flt until_raw ''until'') (\<lambda>until.
                  (case (since, until) of
                     (Some a, Some b) \<Rightarrow> if b \<le> a then invalid ''since must be before until'' else Inr (since, until)
                   | _ \<Rightarrow> Inr (since, until))))))"

text \<open>\<open>ts >= since AND ts < until\<close>, either bound absent.\<close>

definition in_range :: "window \<Rightarrow> pyfloat \<Rightarrow> bool" where
  "in_range w ts = (case w of (since, until) \<Rightarrow>
     (case since of None \<Rightarrow> True | Some a \<Rightarrow> a \<le> ts) \<and> (case until of None \<Rightarrow> True | Some b \<Rightarrow> ts < b))"

definition parse_step :: "string option \<Rightarrow> int option query" where
  "parse_step raw =
     (case raw of None \<Rightarrow> Inr None
      | Some s \<Rightarrow> if s = [] then Inr None
          else (case py_int s of
                  Some v \<Rightarrow> if v \<in> set ROLLUP_STEPS then Inr (Some v) else invalid ''step must be one of 10, 60, 3600''
                | None \<Rightarrow> invalid ''step must be one of 10, 60, 3600''))"

definition step_for_range :: "pyfloat \<Rightarrow> int" where
  "step_for_range seconds = (if seconds \<le> 900 then 10 else if seconds \<le> 21600 then 60 else 3600)"

section \<open>Names\<close>

definition METRIC_NAMES :: "string list" where
  "METRIC_NAMES = [''requests'', ''errors'', ''latency'', ''queue'']"

definition no_metric :: "'a query" where
  "no_metric = invalid (''metrics must name at least one of '' @ py_join '', '' METRIC_NAMES)"

fun validate_names :: "string list \<Rightarrow> string list \<Rightarrow> string list query" where
  "validate_names [] acc = Inr acc"
| "validate_names (n # ns) acc =
     (if n \<notin> set METRIC_NAMES
      then invalid (''unknown metric '' @ py_repr n @ '' in metrics; must be one of '' @ py_join '', '' METRIC_NAMES)
      else validate_names ns (if n \<in> set acc then acc else acc @ [n]))"

definition validate_metrics :: "string list \<Rightarrow> string list query" where
  "validate_metrics names = (if names = [] then no_metric else validate_names names [])"

definition parse_metrics :: "string option \<Rightarrow> string list query" where
  "parse_metrics raw = (case raw of None \<Rightarrow> no_metric
     | Some s \<Rightarrow> if py_strip s = [] then no_metric else validate_metrics (map py_strip (py_split (CHR '','') s)))"

datatype status_filter = ExactStatus int | StatusClass string

definition parse_status :: "string \<Rightarrow> status_filter query" where
  "parse_status raw =
     (if py_isdigit raw
      then (case py_int raw of
              None \<Rightarrow> Inl (Escapes ValueError)
            | Some v \<Rightarrow> if 100 \<le> v \<and> v \<le> 599 then Inr (ExactStatus v)
                else invalid ''status must be between 100 and 599 or a class like 4xx'')
      else if length raw = 3 \<and> hd raw \<in> set ''12345'' \<and> tl raw = ''xx'' then Inr (StatusClass raw)
      else invalid ''status must be an integer or a class like 4xx/5xx'')"

text \<open>The SQL of the status filter: equality, or the half-open hundred of the class.\<close>

definition status_matches :: "status_filter \<Rightarrow> int \<Rightarrow> bool" where
  "status_matches f st = (case f of
     ExactStatus v \<Rightarrow> st = v
   | StatusClass raw \<Rightarrow> (let low = int (cp (hd raw) - 48) * 100 in low \<le> st \<and> st < low + 100))"

definition ORDER_MODES :: "string list" where
  "ORDER_MODES = [''newest'', ''slowest'']"

definition parse_order :: "string option \<Rightarrow> string query" where
  "parse_order raw = (case raw of None \<Rightarrow> Inr ''newest''
     | Some s \<Rightarrow> if s = [] then Inr ''newest'' else if s \<in> set ORDER_MODES then Inr s
         else invalid ''order must be newest or slowest'')"

definition LOG_LEVELS :: "string list" where
  "LOG_LEVELS = [''debug'', ''info'', ''warning'', ''error'']"

definition parse_level :: "string option \<Rightarrow> string option query" where
  "parse_level raw = (case raw of None \<Rightarrow> Inr None
     | Some s \<Rightarrow> if s = ''warn'' then Inr (Some ''warning'')
         else if s \<in> set LOG_LEVELS then Inr (Some s)
         else invalid (''level must be one of '' @ py_join '', '' LOG_LEVELS))"

definition TRACE_FILTERS :: "string list" where
  "TRACE_FILTERS = [''route'', ''status'', ''model'', ''q'', ''min_duration_ms'', ''tag'', ''since'', ''until'', ''range'',
     ''limit'', ''cursor'', ''order'']"

definition LOG_FILTERS :: "string list" where
  "LOG_FILTERS = [''level'', ''q'', ''trace_id'', ''since'', ''until'', ''range'', ''limit'', ''cursor'']"

section \<open>What the parsers guarantee\<close>

lemma query_exn_simps [simp]:
  "query_exn (InvalidFilter m) = http_err 400 ''invalid_filter'' m None" "query_exn (Escapes x) = PyExc x"
  by (simp_all add: query_exn_def)

lemma invalid_simps [simp]: "invalid m \<noteq> Inr a" "invalid m = Inl e \<longleftrightarrow> e = InvalidFilter m"
  by (auto simp: invalid_def)

lemma reject_unknown_iff: "reject_unknown ps allow = Inr () \<longleftrightarrow> fst ` set ps \<subseteq> set allow"
  by (induction ps allow rule: reject_unknown.induct) auto

lemma reject_unknown_error: "reject_unknown ps allow = Inl e \<Longrightarrow> \<exists>m. e = InvalidFilter m"
  by (induction ps allow rule: reject_unknown.induct) (auto split: if_splits)

lemma parse_limit_bounds: "parse_limit raw d = Inr v \<Longrightarrow> 1 \<le> d \<Longrightarrow> d \<le> 200 \<Longrightarrow> 1 \<le> v \<and> v \<le> 200"
  by (auto simp: parse_limit_def MAX_LIMIT_def split: option.splits if_splits)

lemma parse_limit_error: "parse_limit raw d = Inl e \<Longrightarrow> \<exists>m. e = InvalidFilter m"
  by (auto simp: parse_limit_def split: option.splits if_splits)

lemma parse_float_error: "parse_float flt v n = Inl e \<Longrightarrow> \<exists>m. e = InvalidFilter m"
  by (auto simp: parse_float_def split: float_text.splits)

lemma resolve_window_error: "resolve_window flt now ps = Inl e \<Longrightarrow> \<exists>m. e = InvalidFilter m"
proof -
  have f: "opt_float flt raw n = Inl e \<Longrightarrow> \<exists>m. e = InvalidFilter m" for raw n
    by (auto simp: opt_float_def res_bind_Inl dest: parse_float_error split: option.splits)
  show "resolve_window flt now ps = Inl e \<Longrightarrow> ?thesis"
    by (auto simp: resolve_window_def parse_range_def Let_def res_bind_Inl dest: f split: option.splits if_splits)
qed

text \<open>A resolved window is never empty.\<close>

lemma resolve_window_ordered:
  assumes "resolve_window flt now ps = Inr (Some a, Some b)"
  shows "a < b"
proof (cases "opt_value ps ''range''")
  case (Some r)
  then show ?thesis using assms
    by (auto simp: resolve_window_def parse_range_def Let_def res_bind_Inr RANGE_SECONDS_def split: option.splits if_splits)
next
  case None
  then obtain since until where "(case (since, until) of
       (Some a, Some b) \<Rightarrow> if b \<le> a then invalid ''since must be before until'' else Inr (since, until)
     | _ \<Rightarrow> Inr (since, until)) = (Inr (Some a, Some b) :: window query)"
    using assms by (auto simp: resolve_window_def Let_def res_bind_Inr)
  then show ?thesis by (cases since; cases until) (auto split: if_splits)
qed

lemma validate_names_facts:
  "validate_names ns acc = Inr out \<Longrightarrow> distinct acc \<Longrightarrow> distinct out \<and> set out = set acc \<union> set ns \<and> set ns \<subseteq> set METRIC_NAMES"
  by (induction ns acc rule: validate_names.induct) (auto split: if_splits)

lemma status_class_low: "c \<in> set ''12345'' \<Longrightarrow> int (cp c - 48) * 100 \<in> {100, 200, 300, 400, 500}"
  by (auto simp: cp_def)


lemma parse_status_escapes: "parse_status [CHR 0xB2] = Inl (Escapes ValueError)"
  by (simp add: parse_status_def py_isdigit_def py_int_def py_strip_def py_lstrip_def py_isspace_def cp_def py_digit_def)

end
