(* ===== verification/Cursor.thy ===== *)
theory Cursor
  imports Query_Params
begin

text \<open>
  The opaque pagination cursors of \<open>layawatch/store/queries.py\<close> and \<open>api/audit.py\<close>: the URL-safe
  base64 of the compact JSON of the sort key, and the decoder with the checks on what comes back.
  Base64 is the standard library's: the encoder pads, the decoder skips characters outside its
  alphabet and stops at the padding. The JSON parser and the rendering of a float are arguments.
\<close>

section \<open>Base64\<close>

definition url64_char :: "nat \<Rightarrow> char" where
  "url64_char n = (if n < 26 then char_of (65 + n) else if n < 52 then char_of (71 + n)
     else if n < 62 then char_of (n - 4) else if n = 62 then CHR ''-'' else CHR ''_'')"

text \<open>Both alphabets are read: the URL-safe characters are translated first.\<close>

definition url64_value :: "char \<Rightarrow> nat option" where
  "url64_value c = (let n = cp c in
     if 65 \<le> n \<and> n \<le> 90 then Some (n - 65) else if 97 \<le> n \<and> n \<le> 122 then Some (n - 71)
     else if 48 \<le> n \<and> n \<le> 57 then Some (n + 4)
     else if n = 45 \<or> n = 43 then Some 62 else if n = 95 \<or> n = 47 then Some 63 else None)"

fun url64_encode :: "string \<Rightarrow> string" where
  "url64_encode [] = []"
| "url64_encode [a] = [url64_char (cp a div 4), url64_char (cp a mod 4 * 16), CHR ''='', CHR ''='']"
| "url64_encode [a, b] = [url64_char (cp a div 4), url64_char (cp a mod 4 * 16 + cp b div 16), url64_char (cp b mod 16 * 4), CHR ''='']"
| "url64_encode (a # b # c # s) =
     [url64_char (cp a div 4), url64_char (cp a mod 4 * 16 + cp b div 16), url64_char (cp b mod 16 * 4 + cp c div 64), url64_char (cp c mod 64)]
     @ url64_encode s"

text \<open>The decoder: position in the quad, left-over bits, padding seen, output. None is the error.\<close>

fun url64_scan :: "nat \<Rightarrow> nat \<Rightarrow> nat \<Rightarrow> string \<Rightarrow> string option" where
  "url64_scan q left pads [] = (if q = 0 then Some [] else None)"
| "url64_scan q left pads (c # s) =
     (if c = CHR ''=''
      then (if 2 \<le> q \<and> 4 \<le> q + pads + 1 then Some [] else url64_scan q left (pads + 1) s)
      else (case url64_value c of
              None \<Rightarrow> url64_scan q left pads s
            | Some v \<Rightarrow>
                if q = 0 then url64_scan 1 v 0 s
                else if q = 1 then map_option (Cons (char_of (left * 4 + v div 16))) (url64_scan 2 (v mod 16) 0 s)
                else if q = 2 then map_option (Cons (char_of (left * 16 + v div 4))) (url64_scan 3 (v mod 4) 0 s)
                else map_option (Cons (char_of (left * 64 + v))) (url64_scan 0 0 0 s)))"

text \<open>\<open>base64.urlsafe_b64decode(raw + "=" * (-len(raw) % 4))\<close>; text outside ASCII is refused.\<close>

definition url64_decode :: "string \<Rightarrow> string option" where
  "url64_decode raw = (if \<not> py_isascii raw then None
     else url64_scan 0 0 0 (raw @ replicate (nat ((- int (length raw)) mod 4)) (CHR ''='')))"

lemma cp_lt: "cp c < 256"
  by (simp add: cp_def)

lemma cp_char_of [simp]: "n < 256 \<Longrightarrow> cp (char_of n) = n"
  by (simp add: cp_def)

lemma url64_char_cp: "cp (url64_char n) < 128"
proof -
  consider "n < 26" | "26 \<le> n" "n < 52" | "52 \<le> n" "n < 62" | "n = 62" | "62 < n" by linarith
  then show ?thesis by cases (simp_all add: url64_char_def, simp_all add: cp_def)
qed

lemma url64_char_value: "n < 64 \<Longrightarrow> url64_value (url64_char n) = Some n"
proof -
  assume n: "n < 64"
  consider "n < 26" | "26 \<le> n" "n < 52" | "52 \<le> n" "n < 62" | "n = 62" | "n = 63" using n by linarith
  then show ?thesis
  proof cases
    case 3
    then obtain m where m: "n = 52 + m" using le_Suc_ex by blast
    with 3 have "m < 10" by linarith
    with m show ?thesis by (simp add: url64_char_def url64_value_def Let_def)
  qed (simp_all add: url64_char_def url64_value_def Let_def, simp_all add: cp_def)
qed

lemma url64_char_pad: "n < 64 \<Longrightarrow> url64_char n \<noteq> CHR ''=''"
proof
  assume "n < 64" "url64_char n = CHR ''=''"
  then have "url64_value (CHR ''='') = Some n" using url64_char_value by metis
  then show False by (simp add: url64_value_def cp_def)
qed

lemma url64_length: "length (url64_encode s) mod 4 = 0"
  by (induction s rule: url64_encode.induct) simp_all

lemma url64_ascii: "py_isascii (url64_encode s)"
  unfolding py_isascii_def
proof (induction s rule: url64_encode.induct)
  case (2 a)
  show ?case by (simp add: url64_char_cp) (simp add: cp_def)
next
  case (3 a b)
  show ?case by (simp add: url64_char_cp) (simp add: cp_def)
qed (simp_all add: url64_char_cp)

lemma url64_scan_char:
  "v < 64 \<Longrightarrow> url64_scan q left pads (url64_char v # s) =
     (if q = 0 then url64_scan 1 v 0 s
      else if q = 1 then map_option (Cons (char_of (left * 4 + v div 16))) (url64_scan 2 (v mod 16) 0 s)
      else if q = 2 then map_option (Cons (char_of (left * 16 + v div 4))) (url64_scan 3 (v mod 4) 0 s)
      else map_option (Cons (char_of (left * 64 + v))) (url64_scan 0 0 0 s))"
  by (simp add: url64_char_value url64_char_pad)

lemma url64_scan_pad:
  "url64_scan q left pads (CHR ''='' # s) = (if 2 \<le> q \<and> 4 \<le> q + pads + 1 then Some [] else url64_scan q left (pads + 1) s)"
  by simp

lemmas scan_simps = url64_scan_char url64_scan_pad url64_scan.simps(1)

declare url64_scan.simps(2) [simp del]

text \<open>The bytes come back from their six-bit groups.\<close>

lemma sextets:
  fixes x y z :: nat
  assumes "x < 256" "y < 256" "z < 256"
  shows "x div 4 < 64" "x mod 4 * 16 < 64" "x mod 4 * 16 + y div 16 < 64" "y mod 16 * 4 < 64"
    "y mod 16 * 4 + z div 64 < 64" "z mod 64 < 64"
    "y div 16 div 16 = 0" "y div 16 mod 16 = y div 16" "z div 64 div 4 = 0" "z div 64 mod 4 = z div 64"
  using assms by auto

lemma char_of_code: "char_of (cp c) = c"
  by (simp add: cp_def)

lemma url64_scan_encode: "url64_scan 0 0 0 (url64_encode s) = Some s"
proof (induction s rule: url64_encode.induct)
  case (2 a)
  note g = sextets[OF cp_lt[of a] cp_lt[of a] cp_lt[of a]]
  show ?case by (simp add: scan_simps g char_of_code)
next
  case (3 a b)
  note g = sextets[OF cp_lt[of a] cp_lt[of b] cp_lt[of b]]
  show ?case by (simp add: scan_simps g char_of_code)
next
  case (4 a b c s)
  note g = sextets[OF cp_lt[of a] cp_lt[of b] cp_lt[of c]]
  show ?case using 4 by (simp add: scan_simps g char_of_code)
qed simp

lemma url64_roundtrip: "url64_decode (url64_encode s) = Some s"
proof -
  have "(- int (length (url64_encode s))) mod 4 = 0"
    using url64_length[of s] by presburger
  then show ?thesis by (simp add: url64_decode_def url64_ascii url64_scan_encode)
qed

section \<open>Cursors\<close>

definition encode_cursor :: "(pyfloat \<Rightarrow> string) \<Rightarrow> json \<Rightarrow> string" where
  "encode_cursor fr payload = url64_encode (json_dumps fr payload)"

definition bad_cursor :: "'a query" where
  "bad_cursor = invalid ''cursor is not a valid pagination cursor''"

text \<open>\<open>queries._decode_cursor\<close>: an object with a list under \<open>k\<close>.\<close>

definition decode_cursor :: "(string \<Rightarrow> string + json) \<Rightarrow> string \<Rightarrow> ((string \<times> json) list \<times> json list) query" where
  "decode_cursor loads raw =
     (case url64_decode raw of
        None \<Rightarrow> bad_cursor
      | Some bytes \<Rightarrow>
          (case loads bytes of
             Inr (JObj kvs) \<Rightarrow> (case jget kvs ''k'' of JArr ks \<Rightarrow> Inr (kvs, ks) | _ \<Rightarrow> bad_cursor)
           | _ \<Rightarrow> bad_cursor))"

fun number_of :: "json \<Rightarrow> pyfloat option" where
  "number_of (JInt i) = Some (of_int i)"
| "number_of (JFloat q) = Some q"
| "number_of _ = None"

text \<open>Whether the value can be a parameter of a statement.\<close>

fun binds :: "json \<Rightarrow> bool" where
  "binds (JInt i) = sqlite_int i"
| "binds _ = True"

text \<open>The parser reads back what the encoder wrote.\<close>

definition reads_back :: "(string \<Rightarrow> string + json) \<Rightarrow> (pyfloat \<Rightarrow> string) \<Rightarrow> json \<Rightarrow> bool" where
  "reads_back loads fr payload \<longleftrightarrow> loads (json_dumps fr payload) = Inr payload"

lemma decode_encode_cursor:
  "reads_back loads fr (JObj kvs) \<Longrightarrow> jget kvs ''k'' = JArr ks \<Longrightarrow>
     decode_cursor loads (encode_cursor fr (JObj kvs)) = Inr (kvs, ks)"
  by (simp add: decode_cursor_def encode_cursor_def url64_roundtrip reads_back_def)

lemma url64_encode_Nil: "url64_encode s = [] \<longleftrightarrow> s = []"
  by (cases s rule: url64_encode.cases) simp_all

lemma encode_cursor_nonempty: "encode_cursor fr (JObj kvs) \<noteq> []"
  by (simp add: encode_cursor_def url64_encode_Nil)

section \<open>The audit cursor\<close>

text \<open>\<open>audit._decode_cursor\<close> indexes the payload directly; an IndexError is not among the
  exceptions it turns into 400. A boolean passes as a number.\<close>

fun audit_number :: "json \<Rightarrow> pyfloat option" where
  "audit_number (JBool b) = Some (if b then 1 else 0)"
| "audit_number v = number_of v"

fun audit_integer :: "json \<Rightarrow> int option" where
  "audit_integer (JBool b) = Some (if b then 1 else 0)"
| "audit_integer (JInt i) = Some i"
| "audit_integer _ = None"

text \<open>\<open>float(ts)\<close> of an integer beyond the floats.\<close>

fun wide_float :: "json \<Rightarrow> bool" where
  "wide_float (JInt i) = float_overflows i"
| "wide_float _ = False"

definition bad_audit_cursor :: exn where
  "bad_audit_cursor = http_err 400 ''invalid_filter'' ''cursor is not a valid pagination cursor'' None"

definition decode_audit_cursor :: "(string \<Rightarrow> string + json) \<Rightarrow> string \<Rightarrow> exn + (pyfloat \<times> int)" where
  "decode_audit_cursor loads raw =
     (case url64_decode raw of
        None \<Rightarrow> Inl bad_audit_cursor
      | Some bytes \<Rightarrow>
          (case loads bytes of
             Inr (JObj kvs) \<Rightarrow>
               (case map_of kvs ''k'' of
                  Some (JArr ks) \<Rightarrow>
                    (case ks of
                       ts # row_id # _ \<Rightarrow>
                         (case (audit_number ts, audit_integer row_id) of
                            (Some t, Some i) \<Rightarrow> if wide_float ts then Inl (PyExc OverflowError) else Inr (t, i)
                          | _ \<Rightarrow> Inl bad_audit_cursor)
                     | _ \<Rightarrow> Inl (PyExc IndexError))
                | Some (JStr s) \<Rightarrow> if length s < 2 then Inl (PyExc IndexError) else Inl bad_audit_cursor
                | _ \<Rightarrow> Inl bad_audit_cursor)
           | _ \<Rightarrow> Inl bad_audit_cursor))"

lemma decode_audit_cursor_roundtrip:
  "reads_back loads fr (JObj [(''k'', JArr [JFloat t, JInt i])]) \<Longrightarrow>
     decode_audit_cursor loads (encode_cursor fr (JObj [(''k'', JArr [JFloat t, JInt i])])) = Inr (t, i)"
  by (simp add: decode_audit_cursor_def encode_cursor_def url64_roundtrip reads_back_def)

end
