(* ===== verification/Sql_Like.thy ===== *)
theory Sql_Like
  imports Prelude
begin

text \<open>
  The substring filters of \<open>layawatch/store/queries.py\<close> and \<open>api/audit.py\<close>: the two
  \<open>_like\<close> functions and the \<open>LIKE ... ESCAPE\<close> operator they are written for, with SQLite's
  documented semantics (percent matches any sequence, underscore any character, the escape makes
  the next character literal, ASCII letters match in either case).
\<close>

definition ascii_lower :: "char \<Rightarrow> char" where
  "ascii_lower c = (if 65 \<le> cp c \<and> cp c \<le> 90 then char_of (cp c + 32) else c)"

definition like_escape :: char where
  "like_escape = CHR 92"

fun like_match :: "string \<Rightarrow> string \<Rightarrow> bool" where
  "like_match [] s = (s = [])"
| "like_match (p # ps) s =
     (if p = CHR 37 then like_match ps s \<or> (case s of [] \<Rightarrow> False | _ # t \<Rightarrow> like_match (p # ps) t)
      else if p = CHR 92 then
        (case ps of [] \<Rightarrow> False
         | q # qs \<Rightarrow> (case s of [] \<Rightarrow> False | c # t \<Rightarrow> ascii_lower c = ascii_lower q \<and> like_match qs t))
      else (case s of [] \<Rightarrow> False
            | c # t \<Rightarrow> (p = CHR 95 \<or> ascii_lower c = ascii_lower p) \<and> like_match ps t))"

text \<open>\<open>value.replace(a, b)\<close> for a single character.\<close>

definition replace_char :: "char \<Rightarrow> string \<Rightarrow> string \<Rightarrow> string" where
  "replace_char a b s = concat (map (\<lambda>c. if c = a then b else [c]) s)"

definition like_literal :: "string \<Rightarrow> string" where
  "like_literal v = replace_char (CHR 95) [CHR 92, CHR 95] (replace_char (CHR 37) [CHR 92, CHR 37]
     (replace_char (CHR 92) [CHR 92, CHR 92] v))"

text \<open>\<open>queries._like\<close>, and the pattern the audit list builds.\<close>

definition like_pattern :: "string \<Rightarrow> string" where
  "like_pattern v = [CHR 37] @ like_literal v @ [CHR 37]"

definition audit_pattern :: "string \<Rightarrow> string" where
  "audit_pattern v = [CHR 37] @ like_literal (py_lower v) @ [CHR 37]"

definition escaped :: "char \<Rightarrow> string" where
  "escaped c = (if c = CHR 92 \<or> c = CHR 37 \<or> c = CHR 95 then [CHR 92, c] else [c])"

lemma like_literal_escaped: "like_literal v = concat (map escaped v)"
proof -
  have "replace_char (CHR 95) [CHR 92, CHR 95] (replace_char (CHR 37) [CHR 92, CHR 37]
      (replace_char (CHR 92) [CHR 92, CHR 92] [c])) = escaped c" for c
    by (auto simp: replace_char_def escaped_def)
  then have c: "like_literal [c] = escaped c" for c unfolding like_literal_def .
  have "replace_char a b (x @ y) = replace_char a b x @ replace_char a b y" for a b x y
    by (simp add: replace_char_def)
  then have app: "like_literal (x @ y) = like_literal x @ like_literal y" for x y unfolding like_literal_def by (simp only:)
  show ?thesis
  proof (induction v)
    case (Cons d v)
    have "like_literal (d # v) = like_literal [d] @ like_literal v" using app[of "[d]" v] by simp
    then show ?case by (simp add: c Cons.IH)
  qed (simp add: like_literal_def replace_char_def)
qed

text \<open>A literal prefix under case folding.\<close>

definition fold_ascii :: "string \<Rightarrow> string" where
  "fold_ascii = map ascii_lower"

lemma like_literal_match:
  "like_match (concat (map escaped v) @ ps) s \<longleftrightarrow>
     (\<exists>u t. s = u @ t \<and> fold_ascii u = fold_ascii v \<and> like_match ps t)"
proof (induction v arbitrary: s)
  case (Cons c v)
  have one: "like_match (escaped c @ qs) s \<longleftrightarrow> (\<exists>d t. s = d # t \<and> ascii_lower d = ascii_lower c \<and> like_match qs t)" for qs s
    by (auto simp: escaped_def split: list.splits)
  show ?case
    unfolding list.map concat.simps append_assoc one Cons.IH
    by (auto simp: fold_ascii_def) (metis append_Cons list.simps(9), metis append_Cons)
qed (simp add: fold_ascii_def)

lemma like_any_suffix: "like_match [CHR 37] s"
  by (induction s) simp_all

lemma like_any_prefix: "like_match (CHR 37 # ps) s \<longleftrightarrow> (\<exists>u t. s = u @ t \<and> like_match ps t)"
proof (induction s)
  case (Cons c s)
  have "like_match (CHR 37 # ps) (c # s) \<longleftrightarrow> like_match ps (c # s) \<or> like_match (CHR 37 # ps) s" by simp
  then show ?case using Cons.IH by (auto simp: Cons_eq_append_conv)
qed simp

text \<open>A text filter is a literal substring search: whatever characters the value holds, the
  pattern built from it matches exactly the texts that contain the value up to ASCII case; percent,
  underscore and backslash have no special meaning left.\<close>

theorem like_is_literal_substring:
  "like_match (like_pattern v) s \<longleftrightarrow> sublist (fold_ascii v) (fold_ascii s)"
proof -
  have "like_match (like_pattern v) s \<longleftrightarrow> (\<exists>a u t. s = a @ u @ t \<and> fold_ascii u = fold_ascii v)"
    unfolding like_pattern_def append.simps like_any_prefix like_literal_escaped like_literal_match
    by (auto simp: like_any_suffix)
  also have "\<dots> \<longleftrightarrow> sublist (fold_ascii v) (fold_ascii s)"
  proof
    assume "\<exists>a u t. s = a @ u @ t \<and> fold_ascii u = fold_ascii v"
    then obtain a u t where "s = a @ u @ t" "fold_ascii u = fold_ascii v" by blast
    then have "fold_ascii s = fold_ascii a @ fold_ascii v @ fold_ascii t" by (simp add: fold_ascii_def)
    then show "sublist (fold_ascii v) (fold_ascii s)" by (auto simp: sublist_def)
  next
    assume "sublist (fold_ascii v) (fold_ascii s)"
    then obtain x y where xy: "map ascii_lower s = x @ fold_ascii v @ y" by (auto simp: sublist_def fold_ascii_def)
    obtain a b where a: "s = a @ b" "map ascii_lower b = fold_ascii v @ y" using xy by (metis map_eq_append_conv)
    then obtain u t where "b = u @ t" "map ascii_lower u = fold_ascii v" by (metis map_eq_append_conv)
    with a(1) show "\<exists>a u t. s = a @ u @ t \<and> fold_ascii u = fold_ascii v" by (auto simp: fold_ascii_def)
  qed
  finally show ?thesis .
qed

lemma fold_lower_ascii: "py_isascii v \<Longrightarrow> fold_ascii (py_lower v) = fold_ascii v"
proof -
  have "ascii_lower (py_lower_char c) = ascii_lower c" if "cp c < 128" for c
    using that by (auto simp: ascii_lower_def py_lower_char_def Let_def cp_def)
  then show "py_isascii v \<Longrightarrow> ?thesis"
    by (auto simp: py_isascii_def fold_ascii_def py_lower_def list_all_iff)
qed

text \<open>The actor filter of the audit log is the same search for ASCII values only: it lowers the
  value as Python does while the operator folds ASCII letters, so an entry whose actor has an
  upper-case letter outside ASCII is not found even by its exact name.\<close>

theorem audit_filter_is_ascii_only:
  "(py_isascii v \<longrightarrow> like_match (audit_pattern v) s = sublist (fold_ascii v) (fold_ascii s))
   \<and> \<not> like_match (audit_pattern [CHR 0xC9]) [CHR 0xC9]"
proof -
  have "audit_pattern w = like_pattern (py_lower w)" for w by (simp add: audit_pattern_def like_pattern_def)
  moreover have "\<not> like_match (audit_pattern [CHR 0xC9]) [CHR 0xC9]" by code_simp
  ultimately show ?thesis using like_is_literal_substring[of "py_lower v" s] by (simp add: fold_lower_ascii)
qed

theorem audit_filter_is_ascii_only_witness:
  "like_match (audit_pattern ''A_m'') ''x-a_M-y'' \<and> \<not> like_match (audit_pattern ''A_m'') ''x-abM-y''"
proof -
  have "py_isascii ''A_m''" by code_simp
  moreover have "sublist (fold_ascii ''A_m'') (fold_ascii ''x-a_M-y'')" "\<not> sublist (fold_ascii ''A_m'') (fold_ascii ''x-abM-y'')"
    by code_simp+
  ultimately show ?thesis using audit_filter_is_ascii_only[of "''A_m''"] by blast
qed

end
