(* ===== verification/Trace_Queries.thy ===== *)
theory Trace_Queries
  imports Keyset Cursor Sql_Like Writer
begin

text \<open>
  Models \<open>list_traces\<close> and \<open>trace_detail\<close> of \<open>layawatch/store/queries.py\<close>: the parsing of the
  query in the order of the source (the first failing parameter decides the error), the filter,
  the two orders with their cursors, and the detail with its computed summary. Parsing never
  touches the database, so a listing is a parsed query and its run.
\<close>

section \<open>The parsed query\<close>

datatype trace_cursor = NewestAt pyfloat string | SlowestAt pyfloat pyfloat string

record trace_query =
  tq_window :: window
  tq_limit :: int
  tq_order :: string
  tq_route :: "string option"
  tq_status :: "status_filter option"
  tq_model :: "string option"
  tq_text :: "string option"
  tq_min_duration :: "pyfloat option"
  tq_tag :: "string option"
  tq_cursor :: "trace_cursor option"

type_synonym cursor_payload = "(string \<times> json) list \<times> json list"

definition parse_payload :: "(string \<Rightarrow> string + json) \<Rightarrow> string option \<Rightarrow> cursor_payload option query" where
  "parse_payload loads raw = (case raw of None \<Rightarrow> Inr None | Some s \<Rightarrow> res_bind (decode_cursor loads s) (\<lambda>p. Inr (Some p)))"

text \<open>The order: the parameter, which a cursor must agree with, or else the cursor's.\<close>

definition choose_order :: "string option \<Rightarrow> cursor_payload option \<Rightarrow> string query" where
  "choose_order raw payload =
     (case raw of
        Some s \<Rightarrow> res_bind (parse_order (Some s)) (\<lambda>order.
          (case payload of
             Some (kvs, _) \<Rightarrow> if jget kvs ''o'' \<noteq> JStr order then invalid ''cursor was issued for a different order'' else Inr order
           | None \<Rightarrow> Inr order))
      | None \<Rightarrow>
          (case payload of
             Some (kvs, _) \<Rightarrow>
               (case jget kvs ''o'' of
                  JStr order \<Rightarrow> if order \<in> set ORDER_MODES then Inr order else invalid ''cursor does not carry a valid order''
                | _ \<Rightarrow> invalid ''cursor does not carry a valid order'')
           | None \<Rightarrow> Inr ''newest''))"

definition cursor_keys :: "string \<Rightarrow> cursor_payload option \<Rightarrow> trace_cursor option query" where
  "cursor_keys order payload =
     (case payload of None \<Rightarrow> Inr None
      | Some (_, keys) \<Rightarrow>
          if order = ''newest''
          then (case keys of [k0, JStr tid] \<Rightarrow> (case number_of k0 of
                    Some ts \<Rightarrow> if binds k0 then Inr (Some (NewestAt ts tid)) else Inl (Escapes OverflowError)
                  | None \<Rightarrow> bad_cursor)
                | _ \<Rightarrow> bad_cursor)
          else (case keys of
                  [k0, k1, JStr tid] \<Rightarrow>
                    (case (number_of k0, number_of k1) of 
                       (Some dur, Some ts) \<Rightarrow>
                         if binds k0 \<and> binds k1 then Inr (Some (SlowestAt dur ts tid)) else Inl (Escapes OverflowError)
                     | _ \<Rightarrow> bad_cursor)
                | _ \<Rightarrow> bad_cursor))"

text \<open>An integer key beyond 64 bits passes the checks and fails when the statement binds it.\<close>

lemma wide_cursor_escapes:
  "cursor_keys ''newest'' (Some (kvs, [JInt (2 ^ 63), JStr tid])) = Inl (Escapes OverflowError)"
  by (simp add: cursor_keys_def sqlite_int_def)

definition opt_status :: "string option \<Rightarrow> status_filter option query" where
  "opt_status raw = (case raw of None \<Rightarrow> Inr None | Some s \<Rightarrow> res_bind (parse_status s) (\<lambda>f. Inr (Some f)))"

definition parse_trace_query :: "(string \<Rightarrow> string + json) \<Rightarrow> float_parser \<Rightarrow> pyfloat \<Rightarrow> int \<Rightarrow> params \<Rightarrow> trace_query query" where
  "parse_trace_query loads flt now dflt ps =
     res_bind (reject_unknown ps TRACE_FILTERS) (\<lambda>_.
     res_bind (resolve_window flt now ps) (\<lambda>w.
     res_bind (parse_limit (first_value ps ''limit'') dflt) (\<lambda>limit.
     res_bind (parse_payload loads (opt_value ps ''cursor'')) (\<lambda>payload.
     res_bind (choose_order (opt_value ps ''order'') payload) (\<lambda>order.
     res_bind (opt_status (opt_value ps ''status'')) (\<lambda>status.
     res_bind (opt_float flt (opt_value ps ''min_duration_ms'') ''min_duration_ms'') (\<lambda>dur.
     res_bind (cursor_keys order payload) (\<lambda>cursor.
       Inr \<lparr>tq_window = w, tq_limit = limit, tq_order = order, tq_route = opt_value ps ''route'', tq_status = status,
            tq_model = opt_value ps ''model'', tq_text = opt_value ps ''q'', tq_min_duration = dur,
            tq_tag = opt_value ps ''tag'', tq_cursor = cursor\<rparr>))))))))"

section \<open>The run\<close>

text \<open>\<open>column = ?\<close>; NULL equals nothing.\<close>

definition sql_eq :: "string option \<Rightarrow> string option \<Rightarrow> bool" where
  "sql_eq wanted column = (case wanted of None \<Rightarrow> True | Some v \<Rightarrow> column = Some v)"

definition trace_matches :: "trace_query \<Rightarrow> trace \<Rightarrow> bool" where
  "trace_matches q t \<longleftrightarrow> in_range (tq_window q) (tr_ts_start t)
     \<and> sql_eq (tq_route q) (Some (tr_route t))
     \<and> (case tq_status q of None \<Rightarrow> True | Some f \<Rightarrow> status_matches f (tr_status t))
     \<and> sql_eq (tq_model q) (tr_model t)
     \<and> (case tq_text q of None \<Rightarrow> True
        | Some v \<Rightarrow> like_match (like_pattern v) (tr_id t)
            \<or> (case tr_error_message t of None \<Rightarrow> False | Some m \<Rightarrow> like_match (like_pattern v) m))
     \<and> (case tq_min_duration q of None \<Rightarrow> True | Some m \<Rightarrow> m \<le> tr_duration_ms t)
     \<and> (case tq_tag q of None \<Rightarrow> True | Some tag \<Rightarrow> tag \<in> set (tr_tags t))"

definition newest_key :: "trace \<Rightarrow> pyfloat \<times> string" where
  "newest_key t = (tr_ts_start t, tr_id t)"

definition slowest_key :: "trace \<Rightarrow> pyfloat \<times> pyfloat \<times> string" where
  "slowest_key t = (- tr_duration_ms t, - tr_ts_start t, tr_id t)"

text \<open>\<open>_ORDER_SQL\<close>\<close>

definition trace_order :: "string \<Rightarrow> trace list \<Rightarrow> trace list" where
  "trace_order order rows = (if order = ''newest'' then rev (sort_key newest_key rows) else sort_key slowest_key rows)"

fun cursor_after :: "trace_cursor \<Rightarrow> trace \<Rightarrow> bool" where
  "cursor_after (NewestAt ts tid) t = (tr_ts_start t < ts \<or> tr_ts_start t = ts \<and> tr_id t < tid)"
| "cursor_after (SlowestAt dur ts tid) t = (tr_duration_ms t < dur \<or> tr_duration_ms t = dur \<and> tr_ts_start t < ts
     \<or> tr_duration_ms t = dur \<and> tr_ts_start t = ts \<and> tid < tr_id t)"

definition cursor_at :: "string \<Rightarrow> trace \<Rightarrow> trace_cursor" where
  "cursor_at order t = (if order = ''newest'' then NewestAt (tr_ts_start t) (tr_id t)
     else SlowestAt (tr_duration_ms t) (tr_ts_start t) (tr_id t))"

fun cursor_json :: "trace_cursor \<Rightarrow> (string \<times> json) list" where
  "cursor_json (NewestAt ts tid) = [(''k'', JArr [JFloat ts, JStr tid]), (''o'', JStr ''newest'')]"
| "cursor_json (SlowestAt dur ts tid) = [(''k'', JArr [JFloat dur, JFloat ts, JStr tid]), (''o'', JStr ''slowest'')]"

record trace_page =
  tp_items :: "(trace \<times> nat) list"
  tp_next :: "string option"
  tp_total :: nat

definition span_count :: "db \<Rightarrow> trace \<Rightarrow> nat" where
  "span_count d t = length (filter (\<lambda>ob. ob_trace_id ob = tr_id t) (db_observations d))"

definition run_trace_query :: "(pyfloat \<Rightarrow> string) \<Rightarrow> trace_query \<Rightarrow> db \<Rightarrow> trace_page" where
  "run_trace_query fr q d =
     (let found = filter (trace_matches q) (db_traces d);
          (page, next_cursor) = keyset_page (trace_order (tq_order q)) cursor_after (cursor_at (tq_order q))
             (nat (tq_limit q)) (tq_cursor q) found in
      \<lparr>tp_items = map (\<lambda>t. (t, span_count d t)) page,
       tp_next = map_option (\<lambda>c. encode_cursor fr (JObj (cursor_json c))) next_cursor,
       tp_total = length found\<rparr>)"

definition list_traces :: "(string \<Rightarrow> string + json) \<Rightarrow> (pyfloat \<Rightarrow> string) \<Rightarrow> float_parser \<Rightarrow> pyfloat \<Rightarrow> int \<Rightarrow> params \<Rightarrow> db
    \<Rightarrow> trace_page query" where
  "list_traces loads fr flt now dflt ps d =
     res_bind (parse_trace_query loads flt now dflt ps) (\<lambda>q. Inr (run_trace_query fr q d))"

definition summary_json :: "trace \<times> nat \<Rightarrow> json" where
  "summary_json tn = (case tn of (t, n) \<Rightarrow>
     JObj [(''id'', JStr (tr_id t)), (''ts_start'', JFloat (tr_ts_start t)), (''duration_ms'', JFloat (tr_duration_ms t)),
       (''route'', JStr (tr_route t)), (''method'', JStr (tr_method t)), (''status'', JInt (tr_status t)),
       (''model'', json_opt_str (tr_model t)), (''route_reason'', json_opt_str (tr_route_reason t)),
       (''queue_ms'', JFloat (tr_queue_ms t)), (''forward_ms'', json_opt_float (tr_forward_ms t)),
       (''client_key_id'', json_opt_str (tr_client_key_id t)), (''error_code'', json_opt_str (tr_error_code t)),
       (''span_count'', JInt (int n))])"

definition page_json :: "json list \<Rightarrow> string option \<Rightarrow> nat \<Rightarrow> json" where
  "page_json items next_cursor n = JObj [(''items'', JArr items), (''next_cursor'', json_opt_str next_cursor),
     (''total_estimate'', JInt (int n))]"

definition trace_page_json :: "trace_page \<Rightarrow> json" where
  "trace_page_json pg = page_json (map summary_json (tp_items pg)) (tp_next pg) (tp_total pg)"

section \<open>The two lists are keyset lists\<close>

lemma newest_lex: "cursor_after (cursor_at ''newest'' r) = (\<lambda>t. newest_key t < newest_key r)"
  by (auto simp: cursor_at_def newest_key_def less_prod_def fun_eq_iff)

lemma slowest_lex: "order \<noteq> ''newest'' \<Longrightarrow> cursor_after (cursor_at order r) = (\<lambda>t. slowest_key r < slowest_key t)"
  by (auto simp: cursor_at_def slowest_key_def less_prod_def fun_eq_iff)

lemma keys_distinct:
  "distinct (map tr_id rows) \<Longrightarrow> distinct (map newest_key rows)"
  "distinct (map tr_id rows) \<Longrightarrow> distinct (map slowest_key rows)"
  by (auto simp: distinct_map inj_on_def newest_key_def slowest_key_def)

interpretation trace_pages: keyset "trace_order order" cursor_after "cursor_at order" "\<lambda>rows. distinct (map tr_id rows)" for order
proof unfold_locales
  fix P rows
  show "trace_order order (filter P rows) = filter P (trace_order order rows)"
    by (simp add: trace_order_def filter_sort filter_rev_sort)
  show "length (trace_order order rows) = length rows" by (simp add: trace_order_def)
next
  fix rows xs r ys
  assume d: "distinct (map tr_id rows)" and o: "trace_order order rows = xs @ r # ys"
  show "filter (cursor_after (cursor_at order r)) (trace_order order rows) = ys"
  proof (cases "order = ''newest''")
    case True
    show ?thesis unfolding True newest_lex using descending_after[OF keys_distinct(1)[OF d], of xs r ys] o
      by (simp add: trace_order_def True)
  next
    case False
    then show ?thesis using sorted_after[OF keys_distinct(2)[OF d], of xs r ys] o
      by (simp add: trace_order_def slowest_lex[OF False])
  qed
qed

section \<open>Following the cursors\<close>

text \<open>A client that follows \<open>next_cursor\<close>, repeating its query.\<close>

fun follow_traces :: "(params \<Rightarrow> trace_page query) \<Rightarrow> nat \<Rightarrow> params \<Rightarrow> trace list list query" where
  "follow_traces request 0 ps = Inr []"
| "follow_traces request (Suc n) ps =
     res_bind (request ps) (\<lambda>pg.
       (case tp_next pg of
          None \<Rightarrow> Inr [map fst (tp_items pg)]
        | Some c \<Rightarrow> res_bind (follow_traces request n (dict_set ''cursor'' [c] ps)) (\<lambda>rest. Inr (map fst (tp_items pg) # rest))))"

lemma first_value_set: "first_value (dict_set k [v] ps) x = (if x = k then Some v else first_value ps x)"
  by (simp add: first_value_def)

lemma opt_value_set: "opt_value (dict_set k [v] ps) x = (if x = k then (if v = [] then None else Some v) else opt_value ps x)"
  by (simp add: opt_value_def first_value_set)

lemma window_ignores_cursor: "resolve_window flt now (dict_set ''cursor'' [v] ps) = resolve_window flt now ps"
  by (simp add: resolve_window_def opt_value_set)

lemma reject_set: "reject_unknown ps allow = Inr () \<Longrightarrow> k \<in> set allow \<Longrightarrow> reject_unknown (dict_set k v ps) allow = Inr ()"
  using set_dict_set_subset[of k v ps] unfolding reject_unknown_iff by fastforce

lemma choose_order_modes: "choose_order raw payload = Inr order \<Longrightarrow> order \<in> set ORDER_MODES"
  by (auto simp: choose_order_def parse_order_def res_bind_Inr ORDER_MODES_def split: option.splits if_splits json.splits)

lemma cursor_json_order: "order \<in> set ORDER_MODES \<Longrightarrow> jget (cursor_json (cursor_at order t)) ''o'' = JStr order"
  by (auto simp: ORDER_MODES_def cursor_at_def jget_def)

lemma cursor_json_keys:
  "order \<in> set ORDER_MODES \<Longrightarrow> \<exists>ks. jget (cursor_json (cursor_at order t)) ''k'' = JArr ks
     \<and> cursor_keys order (Some (cursor_json (cursor_at order t), ks)) = Inr (Some (cursor_at order t))"
  by (auto simp: ORDER_MODES_def cursor_at_def jget_def cursor_keys_def)

text \<open>A query repeated with the cursor of a row parses to the same query behind that row.\<close>

lemma parse_with_cursor:
  assumes "parse_trace_query loads flt now dflt ps = Inr q"
    and "reads_back loads fr (JObj (cursor_json (cursor_at (tq_order q) t)))"
  shows "parse_trace_query loads flt now dflt (dict_set ''cursor'' [encode_cursor fr (JObj (cursor_json (cursor_at (tq_order q) t)))] ps)
    = Inr (q\<lparr>tq_cursor := Some (cursor_at (tq_order q) t)\<rparr>)"
proof -
  let ?c = "cursor_at (tq_order q) t"
  let ?raw = "encode_cursor fr (JObj (cursor_json ?c))"
  obtain w limit payload order status dur cursor where
    p: "reject_unknown ps TRACE_FILTERS = Inr ()" "resolve_window flt now ps = Inr w"
      "parse_limit (first_value ps ''limit'') dflt = Inr limit" "choose_order (opt_value ps ''order'') payload = Inr order"
      "opt_status (opt_value ps ''status'') = Inr status"
      "opt_float flt (opt_value ps ''min_duration_ms'') ''min_duration_ms'' = Inr dur"
    and q: "q = \<lparr>tq_window = w, tq_limit = limit, tq_order = order, tq_route = opt_value ps ''route'', tq_status = status,
            tq_model = opt_value ps ''model'', tq_text = opt_value ps ''q'', tq_min_duration = dur,
            tq_tag = opt_value ps ''tag'', tq_cursor = cursor\<rparr>"
    using assms(1) by (auto simp: parse_trace_query_def res_bind_Inr)
  have mode: "tq_order q \<in> set ORDER_MODES" using choose_order_modes[OF p(4)] by (simp add: q)
  obtain ks where ks: "jget (cursor_json ?c) ''k'' = JArr ks" "cursor_keys (tq_order q) (Some (cursor_json ?c, ks)) = Inr (Some ?c)"
    using cursor_json_keys[OF mode] by blast
  have payload: "parse_payload loads (Some ?raw) = Inr (Some (cursor_json ?c, ks))"
    using decode_encode_cursor[OF assms(2) ks(1)] by (simp add: parse_payload_def)
  have order: "choose_order (opt_value ps ''order'') (Some (cursor_json ?c, ks)) = Inr (tq_order q)"
    using p(4) cursor_json_order[OF mode, of t] mode
    by (auto simp: choose_order_def q res_bind_Inr split: option.splits if_splits prod.splits)
  have rej: "reject_unknown (dict_set ''cursor'' [?raw] ps) TRACE_FILTERS = Inr ()"
    using p(1) by (rule reject_set) (simp add: TRACE_FILTERS_def)
  show ?thesis using p rej payload order ks(2) encode_cursor_nonempty[of fr "cursor_json ?c"]
    by (simp add: parse_trace_query_def window_ignores_cursor first_value_set opt_value_set q)
qed

lemma run_page:
  "map fst (tp_items (run_trace_query fr q d)) = fst (keyset_page (trace_order (tq_order q)) cursor_after (cursor_at (tq_order q))
     (nat (tq_limit q)) (tq_cursor q) (filter (trace_matches q) (db_traces d)))"
  "tp_next (run_trace_query fr q d) = map_option (\<lambda>c. encode_cursor fr (JObj (cursor_json c)))
     (snd (keyset_page (trace_order (tq_order q)) cursor_after (cursor_at (tq_order q))
       (nat (tq_limit q)) (tq_cursor q) (filter (trace_matches q) (db_traces d))))"
  "tp_total (run_trace_query fr q d) = length (filter (trace_matches q) (db_traces d))"
  by (simp_all add: run_trace_query_def Let_def comp_def split: prod.splits)

lemma trace_matches_cursor [simp]: "trace_matches (q\<lparr>tq_cursor := c\<rparr>) = trace_matches q"
  by (simp add: trace_matches_def fun_eq_iff)

lemma keyset_page_next:
  assumes "snd (keyset_page order after key limit cursor rows) = Some k" "\<And>xs. set (order xs) \<subseteq> set xs"
  shows "\<exists>r \<in> set rows. k = key r"
proof -
  let ?rows = "case cursor of None \<Rightarrow> rows | Some k \<Rightarrow> filter (after k) rows"
  have "take limit (take (limit + 1) (order ?rows)) \<noteq> []" and k: "k = key (last (take limit (take (limit + 1) (order ?rows))))"
    using assms(1) by (auto simp: keyset_page_def Let_def split: if_splits)
  then have "last (take limit (take (limit + 1) (order ?rows))) \<in> set (order ?rows)"
    by (metis in_set_takeD last_in_set)
  then have "last (take limit (take (limit + 1) (order ?rows))) \<in> set rows"
    using assms(2)[of ?rows] by (auto split: option.splits)
  with k show ?thesis by blast
qed

lemma set_trace_order: "set (trace_order order rows) = set rows"
  by (simp add: trace_order_def)

lemma follow_is_walk:
  assumes "parse_trace_query loads flt now dflt ps = Inr q"
    and "\<forall>t \<in> set (db_traces d). reads_back loads fr (JObj (cursor_json (cursor_at (tq_order q) t)))"
  shows "follow_traces (\<lambda>ps. list_traces loads fr flt now dflt ps d) n ps = Inr (keyset_walk
    (\<lambda>c. keyset_page (trace_order (tq_order q)) cursor_after (cursor_at (tq_order q)) (nat (tq_limit q)) c
       (filter (trace_matches q) (db_traces d))) n (tq_cursor q))"
  using assms
proof (induction n arbitrary: ps q)
  case (Suc n)
  let ?found = "filter (trace_matches q) (db_traces d)"
  let ?page = "\<lambda>c. keyset_page (trace_order (tq_order q)) cursor_after (cursor_at (tq_order q)) (nat (tq_limit q)) c ?found"
  have run: "list_traces loads fr flt now dflt ps d = Inr (run_trace_query fr q d)" using Suc.prems(1) by (simp add: list_traces_def)
  obtain items nxt where pg: "?page (tq_cursor q) = (items, nxt)" by (meson surj_pair)
  show ?case
  proof (cases nxt)
    case None
    then show ?thesis by (simp add: run run_page pg)
  next
    case (Some k)
    then obtain t where t: "t \<in> set ?found" "k = cursor_at (tq_order q) t"
      using keyset_page_next[of "trace_order (tq_order q)" cursor_after "cursor_at (tq_order q)" "nat (tq_limit q)" "tq_cursor q" ?found k] pg
      by (auto simp: set_trace_order)
    let ?ps = "dict_set ''cursor'' [encode_cursor fr (JObj (cursor_json k))] ps"
    have rb: "reads_back loads fr (JObj (cursor_json (cursor_at (tq_order q) t)))" using Suc.prems(2) t(1) by simp
    have next_q: "parse_trace_query loads flt now dflt ?ps = Inr (q\<lparr>tq_cursor := Some k\<rparr>)"
      using parse_with_cursor[OF Suc.prems(1) rb] by (simp add: t(2))
    have "follow_traces (\<lambda>ps. list_traces loads fr flt now dflt ps d) n ?ps = Inr (keyset_walk ?page n (Some k))"
      using Suc.IH[OF next_q] Suc.prems(2) by simp
    then show ?thesis by (simp add: run run_page pg Some)
  qed
qed simp

text \<open>C19: Paging through the trace list shows every matching trace exactly once. For any query that
  is accepted without a cursor, a client that follows \<open>next_cursor\<close> over an unchanged store gets
  pages of at most the limit (which is between 1 and 200) whose concatenation is the list of all
  matching traces in the order of the query, and \<open>total_estimate\<close> is their number; it suffices
  to follow as many cursors as there are traces.\<close>

theorem trace_pages_cover_the_matches:
  assumes "parse_trace_query loads flt now dflt ps = Inr q" "opt_value ps ''cursor'' = None" "1 \<le> dflt" "dflt \<le> 200"
    and "\<forall>t \<in> set (db_traces d). reads_back loads fr (JObj (cursor_json (cursor_at (tq_order q) t)))"
    and "distinct (map tr_id (db_traces d))" "length (db_traces d) \<le> n"
  shows "\<exists>pages. follow_traces (\<lambda>ps. list_traces loads fr flt now dflt ps d) n ps = Inr pages
    \<and> concat pages = trace_order (tq_order q) (filter (trace_matches q) (db_traces d))
    \<and> list_all (\<lambda>p. int (length p) \<le> tq_limit q) pages \<and> 1 \<le> tq_limit q \<and> tq_limit q \<le> 200
    \<and> (\<exists>pg. list_traces loads fr flt now dflt ps d = Inr pg \<and> tp_total pg = length (concat pages))"
proof -
  let ?found = "filter (trace_matches q) (db_traces d)"
  let ?pages = "keyset_walk (\<lambda>c. keyset_page (trace_order (tq_order q)) cursor_after (cursor_at (tq_order q)) (nat (tq_limit q)) c ?found) n (tq_cursor q)"
  have lim: "1 \<le> tq_limit q \<and> tq_limit q \<le> 200"
    using assms(1,3,4) by (auto simp: parse_trace_query_def res_bind_Inr dest: parse_limit_bounds)
  have c: "tq_cursor q = None"
    using assms(1,2) by (auto simp: parse_trace_query_def res_bind_Inr parse_payload_def cursor_keys_def)
  have dist: "distinct (map tr_id ?found)" using assms(6) by (simp add: distinct_map_filter)
  have "length ?found \<le> length (db_traces d)" by simp
  also have "\<dots> \<le> 1 * n" using assms(7) by simp
  also have "\<dots> \<le> nat (tq_limit q) * n" using lim by (intro mult_right_mono) auto
  finally have len: "length (trace_order (tq_order q) ?found) \<le> nat (tq_limit q) * n" by (simp add: trace_pages.length_order)
  have beh: "trace_pages.behind (tq_order q) ?found (tq_cursor q) (trace_order (tq_order q) ?found)"
    by (simp add: trace_pages.behind_def c)
  have pos: "0 < nat (tq_limit q)" using lim by simp
  note walk = trace_pages.walk_behind[OF dist pos beh len]
  have small: "list_all (\<lambda>p. int (length p) \<le> tq_limit q) ?pages"
    using conjunct2[OF walk] lim by (auto simp: list_all_iff)
  have "tp_total (run_trace_query fr q d) = length (concat ?pages)"
    unfolding conjunct1[OF walk] by (simp add: run_page trace_pages.length_order)
  then show ?thesis using follow_is_walk[OF assms(1,5), of n] walk small lim assms(1) by (simp add: list_traces_def)
qed

definition demo_payloads :: "json list" where
  "demo_payloads = map (\<lambda>t. JObj (cursor_json (cursor_at ''newest'' (trace_row t)))) [demo_trace ''a'' 5 200, demo_trace ''b'' 7 500]"

definition demo_float :: "pyfloat \<Rightarrow> string" where
  "demo_float q = str_int \<lfloor>q\<rfloor>"

definition demo_loads :: "string \<Rightarrow> string + json" where
  "demo_loads s = (case find (\<lambda>p. json_dumps demo_float p = s) demo_payloads of None \<Rightarrow> Inl ''bad'' | Some p \<Rightarrow> Inr p)"

definition demo_traces :: db where
  "demo_traces = empty_db\<lparr>db_traces := [trace_row (demo_trace ''a'' 5 200), trace_row (demo_trace ''b'' 7 500)]\<rparr>"

theorem trace_pages_cover_the_matches_witness:
  "\<exists>pages. follow_traces (\<lambda>ps. list_traces demo_loads demo_float (\<lambda>_. NotFloat) 9 50 ps demo_traces) 2 [(''limit'', [''1''])] = Inr pages
     \<and> map tr_id (concat pages) = [''b'', ''a'']"
proof -
  let ?ps = "[(''limit'', [''1''])]"
  obtain q where q: "parse_trace_query demo_loads (\<lambda>_. NotFloat) 9 50 ?ps = Inr q" and o: "tq_order q = ''newest''"
    and m: "map tr_id (trace_order ''newest'' (filter (trace_matches q) (db_traces demo_traces))) = [''b'', ''a'']"
  proof -
    have "case parse_trace_query demo_loads (\<lambda>_. NotFloat) 9 50 ?ps of Inl e \<Rightarrow> False
      | Inr q \<Rightarrow> tq_order q = ''newest'' \<and> map tr_id (trace_order ''newest'' (filter (trace_matches q) (db_traces demo_traces))) = [''b'', ''a'']"
      by code_simp
    then show ?thesis using that by (auto split: sum.splits)
  qed
  have "list_all (\<lambda>t. demo_loads (json_dumps demo_float (JObj (cursor_json (cursor_at ''newest'' t)))) = Inr (JObj (cursor_json (cursor_at ''newest'' t))))
      (db_traces demo_traces)"
    by code_simp
  then have r: "\<forall>t \<in> set (db_traces demo_traces). reads_back demo_loads demo_float (JObj (cursor_json (cursor_at (tq_order q) t)))"
    by (simp add: reads_back_def o list_all_iff)
  have d: "distinct (map tr_id (db_traces demo_traces))" "length (db_traces demo_traces) \<le> 2"
    by (simp_all add: demo_traces_def trace_row_def demo_trace_def trace.truncate_def)
  have c: "opt_value ?ps ''cursor'' = None" by (simp add: opt_value_def first_value_def)
  show ?thesis using trace_pages_cover_the_matches[OF q c _ _ r d] m by (auto simp: o)
qed

section \<open>The detail of a trace\<close>

text \<open>\<open>round(x, n)\<close>: half to even.\<close>

definition py_round :: "nat \<Rightarrow> pyfloat \<Rightarrow> pyfloat" where
  "py_round n x = (let y = x * 10 ^ n; f = \<lfloor>y\<rfloor>; r = y - of_int f in
     of_int (if r < 1 / 2 then f else if 1 / 2 < r then f + 1 else if even f then f else f + 1) / 10 ^ n)"

record trace_summary =
  ts_framework_ms :: pyfloat
  ts_forward_ms :: "pyfloat option"
  ts_forward_share :: pyfloat
  ts_queue_share :: pyfloat
  ts_span_count :: nat
  ts_status_class :: string

record trace_detail =
  td_trace :: trace
  td_observations :: "observation list"
  td_scores :: "score list"
  td_logs :: "log_row list"
  td_summary :: trace_summary

definition DETAIL_LOG_LIMIT :: nat where
  "DETAIL_LOG_LIMIT = 100"

definition summary_of :: "trace \<Rightarrow> nat \<Rightarrow> trace_summary" where
  "summary_of t n =
     (let duration = tr_duration_ms t; queue = tr_queue_ms t;
          forward = (case tr_forward_ms t of None \<Rightarrow> 0 | Some f \<Rightarrow> f) in
      \<lparr>ts_framework_ms = py_round 3 (max (duration - forward - queue) 0), ts_forward_ms = tr_forward_ms t,
       ts_forward_share = (if 0 < duration then py_round 4 (forward / duration) else 0),
       ts_queue_share = (if 0 < duration then py_round 4 (queue / duration) else 0),
       ts_span_count = n, ts_status_class = str_int (tr_status t div 100) @ ''xx''\<rparr>)"

definition detail_of :: "string \<Rightarrow> db \<Rightarrow> trace_detail option" where
  "detail_of tid d =
     (case find (\<lambda>t. tr_id t = tid) (db_traces d) of
        None \<Rightarrow> None
      | Some t \<Rightarrow>
          let obs = sort_key (\<lambda>ob. (ob_start_ms ob, ob_id ob)) (filter (\<lambda>ob. ob_trace_id ob = tid) (db_observations d)) in
          Some \<lparr>td_trace = t, td_observations = obs,
            td_scores = sort_key (\<lambda>sc. (sc_ts sc, sc_id sc)) (filter (\<lambda>sc. sc_trace_id sc = tid) (db_scores d)),
            td_logs = take DETAIL_LOG_LIMIT (rev (sort_key (\<lambda>l. (ll_ts l, lg_id l)) (filter (\<lambda>l. ll_trace_id l = Some tid) (db_logs d)))),
            td_summary = summary_of t (length obs)\<rparr>)"

text \<open>The rows as JSON objects, column by column.\<close>

definition trace_json :: "trace \<Rightarrow> json" where
  "trace_json t = JObj [(''id'', JStr (tr_id t)), (''ts_start'', JFloat (tr_ts_start t)), (''duration_ms'', JFloat (tr_duration_ms t)),
     (''route'', JStr (tr_route t)), (''method'', JStr (tr_method t)), (''status'', JInt (tr_status t)), (''model'', json_opt_str (tr_model t)),
     (''route_reason'', json_opt_str (tr_route_reason t)), (''lang'', json_opt_str (tr_lang t)), (''queue_ms'', JFloat (tr_queue_ms t)),
     (''forward_ms'', json_opt_float (tr_forward_ms t)), (''state_bytes'', json_opt_int (tr_state_bytes t)),
     (''question_count'', json_opt_int (tr_question_count t)), (''client_key_id'', json_opt_str (tr_client_key_id t)),
     (''session_id'', json_opt_str (tr_session_id t)), (''error_code'', json_opt_str (tr_error_code t)),
     (''error_message'', json_opt_str (tr_error_message t)), (''tags'', JArr (map JStr (tr_tags t))), (''meta'', JObj (tr_meta t))]"

definition observation_json :: "observation \<Rightarrow> json" where
  "observation_json ob = JObj [(''id'', JStr (ob_id ob)), (''trace_id'', JStr (ob_trace_id ob)), (''parent_id'', json_opt_str (ob_parent_id ob)),
     (''name'', JStr (ob_name ob)), (''type'', JStr (ob_type ob)), (''start_ms'', JFloat (ob_start_ms ob)),
     (''duration_ms'', JFloat (ob_duration_ms ob)), (''status'', JStr (ob_status ob)), (''model'', json_opt_str (ob_model ob)),
     (''input'', json_opt_str (ob_input ob)), (''output'', json_opt_str (ob_output ob)),
     (''meta'', case ob_meta ob of None \<Rightarrow> JNull | Some m \<Rightarrow> JObj m)]"

definition score_json :: "score \<Rightarrow> json" where
  "score_json sc = JObj [(''id'', JStr (sc_id sc)), (''trace_id'', JStr (sc_trace_id sc)), (''name'', JStr (sc_name sc)),
     (''value'', sc_value sc), (''data_type'', JStr (sc_data_type sc)), (''source'', JStr (sc_source sc)),
     (''comment'', json_opt_str (sc_comment sc)), (''ts'', JFloat (sc_ts sc))]"

definition log_json :: "log_row \<Rightarrow> json" where
  "log_json l = JObj [(''id'', JInt (int (lg_id l))), (''ts'', JFloat (ll_ts l)), (''level'', JStr (ll_level l)),
     (''source'', JStr (ll_source l)), (''trace_id'', json_opt_str (ll_trace_id l)), (''message'', JStr (ll_message l))]"

definition detail_json :: "trace_detail \<Rightarrow> json" where
  "detail_json dt = JObj [(''trace'', trace_json (td_trace dt)), (''observations'', JArr (map observation_json (td_observations dt))),
     (''scores'', JArr (map score_json (td_scores dt))), (''logs'', JArr (map log_json (td_logs dt))),
     (''summary'', let s = td_summary dt in JObj [(''framework_ms'', JFloat (ts_framework_ms s)), (''forward_ms'', json_opt_float (ts_forward_ms s)),
       (''forward_share'', JFloat (ts_forward_share s)), (''queue_share'', JFloat (ts_queue_share s)),
       (''span_count'', JInt (int (ts_span_count s))), (''status_class'', JStr (ts_status_class s))])]"

end
