(* ===== verification/Engine.thy ===== *)
theory Engine
  imports Lifecycle Trace_Queries
begin

text \<open>
  Models the engine seam: \<open>FakeAdapter\<close> of \<open>layawatch/engine/adapter.py\<close> and the handlers of
  \<open>layawatch/api/engine.py\<close>. The handlers are written over any adapter with the operations of
  the \<open>EngineAdapter\<close> protocol; the real adapter wraps a library that is not part of the
  source. SHA-256 and the rendering of floats are arguments; the latency knob only sleeps. A call of
  the adapter changes the adapter's state only: the spans and times the real adapter reports through
  \<open>ThreadLocalSpans\<close> are the calls recorded in its own state (\<open>Real_Adapter\<close>) and are not
  spliced into the trace of the request.
\<close>

section \<open>The deterministic adapter\<close>

datatype engine_error = EnglishOnly string "json option" | EngineValue string | EngineCrash pyexc

record fake =
  fk_known :: "string list"
  fk_error :: "engine_error option"
  fk_remaining :: int
  fk_loaded :: "string list"
  fk_counters :: "(string \<times> nat) list"

definition new_fake :: "string list \<Rightarrow> engine_error option \<Rightarrow> int \<Rightarrow> string list \<Rightarrow> pyexc + fake" where
  "new_fake models err fail_times initially_loaded =
     (let known = rev (remdups (rev models)) in
      if known = [] then Inl ValueError
      else if \<not> set initially_loaded \<subseteq> set known then Inl ValueError
      else if fail_times \<noteq> 0 \<and> err = None then Inl ValueError
      else Inr \<lparr>fk_known = known, fk_error = err, fk_remaining = fail_times, fk_loaded = initially_loaded,
             fk_counters = map (\<lambda>n. (n, 0)) [''predict'', ''route'', ''loaded'', ''load'', ''unload'', ''device'']\<rparr>)"

type_synonym 'e overrides = "string option \<times> string option \<times> string option"

text \<open>\<open>_stable\<close>: keys sorted, compact separators, characters as they are.\<close>

fun stable_text :: "(pyfloat \<Rightarrow> string) \<Rightarrow> json \<Rightarrow> string"
  and stable_items :: "(pyfloat \<Rightarrow> string) \<Rightarrow> json list \<Rightarrow> string list"
  and stable_pairs :: "(pyfloat \<Rightarrow> string) \<Rightarrow> (string \<times> json) list \<Rightarrow> (string \<times> string) list" where
  "stable_text fr (JArr xs) = ''['' @ py_join '','' (stable_items fr xs) @ '']''"
| "stable_text fr (JObj kvs) = ''{'' @ py_join '','' (map snd (sort_key fst (stable_pairs fr kvs))) @ ''}''"
| "stable_text fr v = text_dumps fr v"
| "stable_items fr [] = []"
| "stable_items fr (x # xs) = stable_text fr x # stable_items fr xs"
| "stable_pairs fr [] = []"
| "stable_pairs fr ((k, v) # kvs) = (k, text_string k @ '':'' @ stable_text fr v) # stable_pairs fr kvs"

definition fake_bump :: "string \<Rightarrow> fake \<Rightarrow> fake" where
  "fake_bump name fk = fk\<lparr>fk_counters := map (\<lambda>(k, n). if k = name then (k, Suc n) else (k, n)) (fk_counters fk)\<rparr>"

text \<open>\<open>_gate\<close>: the shared error budget; a negative one never runs out.\<close>

definition fake_gate :: "fake \<Rightarrow> (engine_error + unit) \<times> fake" where
  "fake_gate fk =
     (let fk' = (if 0 < fk_remaining fk then fk\<lparr>fk_remaining := fk_remaining fk - 1\<rparr> else fk) in
      case (if fk_remaining fk \<noteq> 0 then fk_error fk else None) of
        None \<Rightarrow> (Inr (), fk') | Some e \<Rightarrow> (Inl e, fk'))"

definition english_pin :: "string \<Rightarrow> bool" where
  "english_pin lang \<longleftrightarrow> hd (py_split (CHR ''-'') (py_lower lang)) \<in> {''en'', ''eng'', ''english''}"

definition fake_decide :: "(pyfloat \<Rightarrow> string) \<Rightarrow> fake \<Rightarrow> json \<Rightarrow> string option \<Rightarrow> string option \<Rightarrow> string \<times> string \<times> string" where
  "fake_decide fr fk state override lang_pin =
     (let ascii = py_isascii (stable_text fr state);
          (lang, englishish, reason) = (case lang_pin of
             None \<Rightarrow> (if ascii then ''en'' else ''mul'', ascii, if ascii then ''state is English'' else ''state is not English'')
           | Some l \<Rightarrow> (l, english_pin l, ''explicit lang='' @ py_repr l));
          preferred = (if englishish then ''english'' else ''multilingual'') in
      case override of
        Some m \<Rightarrow> (m, ''model override: '' @ m, lang)
      | None \<Rightarrow> (if preferred \<in> set (fk_known fk) then preferred else hd (fk_known fk), reason, lang))"

definition digest_number :: "string \<Rightarrow> nat" where
  "digest_number digest = fold (\<lambda>c n. 256 * n + cp c) (take 8 digest) 0"

definition fake_answer :: "(string \<Rightarrow> string) \<Rightarrow> (pyfloat \<Rightarrow> string) \<Rightarrow> json \<Rightarrow> string \<Rightarrow> json \<Rightarrow> json" where
  "fake_answer sha fr state name spec =
     (let n = digest_number (sha (utf8_bytes (name @ [CHR 0x00] @ stable_text fr spec @ [CHR 0x00] @ stable_text fr state)));
          choice = (case spec of
             JObj kvs \<Rightarrow> (case jget kvs ''criteria'' of
                 JObj cs \<Rightarrow> if cs = [] then JNull else JStr (fst (cs ! (n mod length cs)))
               | JArr cs \<Rightarrow> if cs = [] then JNull else cs ! (n mod length cs)
               | _ \<Rightarrow> JNull)
           | _ \<Rightarrow> JNull) in
      JObj [(''choice'', choice), (''confidence'', JFloat (py_round 4 (of_nat (n mod 10001) / 10000))),
        (''noul'', JFloat (py_round 4 (of_nat (drop_bit 16 n mod 10001) / 10000)))])"

definition fake_predict :: "(string \<Rightarrow> string) \<Rightarrow> (pyfloat \<Rightarrow> string) \<Rightarrow> json \<Rightarrow> (string \<times> json) list
    \<Rightarrow> string option \<Rightarrow> string option \<Rightarrow> string option \<Rightarrow> fake \<Rightarrow> (engine_error + (string \<times> json) list) \<times> fake" where
  "fake_predict sha fr state questions model task lang fk =
     (let fk1 = fake_bump ''predict'' fk; (ok, fk2) = fake_gate fk1 in
      case ok of Inl e \<Rightarrow> (Inl e, fk2)
      | Inr _ \<Rightarrow>
          let (chosen, reason, code) = fake_decide fr fk2 state model lang in
          (Inr [(''answers'', JObj (map (\<lambda>(name, spec). (name, fake_answer sha fr state name spec)) questions)),
                (''model'', JStr chosen), (''route_reason'', JStr reason), (''lang'', JStr code)], fk2))"

definition fake_route :: "(pyfloat \<Rightarrow> string) \<Rightarrow> json \<Rightarrow> (string \<times> json) list \<Rightarrow> fake \<Rightarrow> (engine_error + (string \<times> json) list) \<times> fake" where
  "fake_route fr state questions fk =
     (let fk1 = fake_bump ''route'' fk; (ok, fk2) = fake_gate fk1 in
      case ok of Inl e \<Rightarrow> (Inl e, fk2)
      | Inr _ \<Rightarrow>
          let (chosen, reason, code) = fake_decide fr fk2 state None None in
          (Inr [(''model'', JStr chosen), (''reason'', JStr reason), (''lang'', JStr code)], fk2))"

definition fake_listing :: "fake \<Rightarrow> string list \<times> fake" where
  "fake_listing fk = (let fk1 = fake_bump ''loaded'' fk in (sort (remdups (fk_loaded fk1)), fk1))"

definition fake_load :: "string list \<Rightarrow> fake \<Rightarrow> (pyexc + unit) \<times> fake" where
  "fake_load models fk =
     (let fk1 = fake_bump ''load'' fk in
      if set models \<subseteq> set (fk_known fk1)
      then (Inr (), fk1\<lparr>fk_loaded := fk_loaded fk1 @ filter (\<lambda>m. m \<notin> set (fk_loaded fk1)) models\<rparr>)
      else (Inl ValueError, fk1))"

definition fake_unload :: "string list \<Rightarrow> fake \<Rightarrow> fake" where
  "fake_unload models fk = (let fk1 = fake_bump ''unload'' fk in
     fk1\<lparr>fk_loaded := filter (\<lambda>m. m \<notin> set models) (fk_loaded fk1)\<rparr>)"

definition fake_device :: "fake \<Rightarrow> string \<times> fake" where
  "fake_device fk = (''fake'', fake_bump ''device'' fk)"

section \<open>The endpoints\<close>

text \<open>The two operations the handlers call.\<close>

record 'e adapter =
  ad_predict :: "json \<Rightarrow> (string \<times> json) list \<Rightarrow> string option \<Rightarrow> string option \<Rightarrow> string option \<Rightarrow> 'e
    \<Rightarrow> (engine_error + (string \<times> json) list) \<times> 'e"
  ad_route :: "json \<Rightarrow> (string \<times> json) list \<Rightarrow> 'e \<Rightarrow> (engine_error + (string \<times> json) list) \<times> 'e"

definition fake_adapter :: "(string \<Rightarrow> string) \<Rightarrow> (pyfloat \<Rightarrow> string) \<Rightarrow> fake adapter" where
  "fake_adapter sha fr = \<lparr>ad_predict = fake_predict sha fr, ad_route = fake_route fr\<rparr>"

definition in_engine :: "('e \<Rightarrow> (engine_error + 'a) \<times> 'e) \<Rightarrow> ('e, engine_error + 'a) live" where
  "in_engine f s = (let (r, e) = f (lf_engine s) in (Inr r, s\<lparr>lf_engine := e\<rparr>))"

definition validated_payload :: "json option \<Rightarrow> exn + (string \<times> json) list" where
  "validated_payload parsed =
     (case parsed of
        Some (JObj kvs) \<Rightarrow>
          (case jget kvs ''state'' of
             JObj _ \<Rightarrow> (case jget kvs ''questions'' of
                 JObj _ \<Rightarrow> Inr kvs
               | _ \<Rightarrow> Inl (bad_field ''questions'' (quoted ''questions'' @ '' must be a JSON object'')))
           | _ \<Rightarrow> Inl (bad_field ''state'' (quoted ''state'' @ '' must be a JSON object'')))
      | _ \<Rightarrow> Inl (bad_field ''body'' ''request body must be a JSON object''))"

text \<open>\<open>_param\<close>: a truthy override. The adapter takes text; other truthy values go through as their text.\<close>

definition override_of :: "env \<Rightarrow> (string \<times> json) list \<Rightarrow> string \<Rightarrow> string option" where
  "override_of ev kvs name = (let v = jget kvs name in
     if \<not> py_truthy v then None else Some (case v of JStr s \<Rightarrow> s | _ \<Rightarrow> ev_str ev v))"

text \<open>\<open>_guard\<close>: 422 for a refusal, 400 for a ValueError, anything else escapes.\<close>

definition guard_engine :: "engine_error + 'a \<Rightarrow> exn + 'a" where
  "guard_engine r = (case r of
     Inr a \<Rightarrow> Inr a
   | Inl (EnglishOnly m detection) \<Rightarrow> Inl (http_err 422 ''english_only'' m
       (case detection of Some d \<Rightarrow> if py_truthy d then Some (JObj [(''detection'', d)]) else None | None \<Rightarrow> None))
   | Inl (EngineValue m) \<Rightarrow> Inl (http_err 400 ''invalid_request'' m None)
   | Inl (EngineCrash x) \<Rightarrow> Inl (PyExc x))"

definition record_request :: "request \<Rightarrow> (string \<times> json) list \<Rightarrow> ('e, unit) live" where
  "record_request rq kvs = trace_set [(''state_bytes'', JInt (int (length (rq_body rq)))),
     (''question_count'', JInt (int (length (obj_of (jget kvs ''questions'')))))]"

text \<open>\<open>_record_payload\<close>: only under capture, and it never raises.\<close>

definition payload_request :: "(string \<times> json) list \<Rightarrow> json" where
  "payload_request kvs = JObj ([(''state'', jget kvs ''state''), (''questions'', jget kvs ''questions'')]
     @ concat (map (\<lambda>name. if py_truthy (jget kvs name) then [(name, jget kvs name)] else []) [''model'', ''task'', ''lang'']))"

definition record_payload :: "env \<Rightarrow> (string \<times> json) list \<Rightarrow> json \<Rightarrow> ('e, unit) live" where
  "record_payload ev kvs result s =
     (if lf_trace s = None \<or> \<not> rc_capture (lf_recorder s) then (Inr (), s)
      else (Inr (), snd (trace_event ev ''payload'' (payload_request kvs) result [] s)))"

definition either_of :: "json \<Rightarrow> json \<Rightarrow> json" where
  "either_of v w = (if py_truthy v then v else w)"

definition record_result :: "(string \<times> json) list \<Rightarrow> ('e, unit) live" where
  "record_result result = trace_set [(''model'', jget result ''model''),
     (''route_reason'', either_of (jget result ''route_reason'') (jget result ''reason'')), (''lang'', jget result ''lang'')]"

definition predict_handler :: "env \<Rightarrow> 'e adapter \<Rightarrow> 'e life handler" where
  "predict_handler ev ad rq =
     act_bind (act_get lf_parsed) (\<lambda>parsed.
     act_bind (act_lift (validated_payload parsed)) (\<lambda>kvs.
     act_bind (record_request rq kvs) (\<lambda>_.
     act_bind (in_engine (ad_predict ad (jget kvs ''state'') (obj_of (jget kvs ''questions''))
         (override_of ev kvs ''model'') (override_of ev kvs ''task'') (override_of ev kvs ''lang''))) (\<lambda>answer.
     act_bind (record_payload ev kvs (case answer of Inl _ \<Rightarrow> JNull | Inr result \<Rightarrow> JObj result)) (\<lambda>_.
     act_bind (act_lift (guard_engine answer)) (\<lambda>result.
     act_bind (record_result result) (\<lambda>_.
     act_return (json_response (JObj result) 200 []))))))))"

definition route_handler :: "'e adapter \<Rightarrow> 'e life handler" where
  "route_handler ad rq =
     act_bind (act_get lf_parsed) (\<lambda>parsed.
     act_bind (act_lift (validated_payload parsed)) (\<lambda>kvs.
     act_bind (record_request rq kvs) (\<lambda>_.
     act_bind (in_engine (ad_route ad (jget kvs ''state'') (obj_of (jget kvs ''questions'')))) (\<lambda>answer.
     act_bind (act_lift (guard_engine answer)) (\<lambda>decision.
     act_bind (record_result decision) (\<lambda>_.
     act_return (json_response (JObj decision) 200 [])))))))"

definition engine_router :: "env \<Rightarrow> 'e adapter \<Rightarrow> 'e life router" where
  "engine_router ev ad = router_add ''POST'' ''/route'' (route_handler ad)
     (router_add ''POST'' ''/predict'' (predict_handler ev ad) empty_router)"

section \<open>The handlers carry the trace\<close>

lemma carry_get [carry]: "carrying (act_get f)"
  by (simp add: carrying_def act_get_def)

lemma carry_in_engine [carry]: "carrying (in_engine f)"
  by (simp add: carrying_def in_engine_def carries_def split: prod.splits option.splits)

lemma carry_record_payload [carry]: "carrying (record_payload ev kvs result)"
  by (simp add: carrying_def record_payload_def carry_event[unfolded carrying_def])

lemma carry_handlers: "carrying (predict_handler ev ad rq)" "carrying (route_handler ad rq)"
  unfolding predict_handler_def route_handler_def record_request_def record_result_def
  by (intro carry)+


section \<open>The deterministic adapter is deterministic\<close>

lemma stable_pairs_map: "stable_pairs fr kvs = map (\<lambda>(k, v). (k, text_string k @ '':'' @ stable_text fr v)) kvs"
  by (induction kvs) auto

text \<open>The order of the keys of an object does not matter to its canonical text.\<close>

lemma stable_text_ignores_order:
  assumes "mset kvs = mset kvs'" "distinct (map fst kvs)"
  shows "stable_text fr (JObj kvs) = stable_text fr (JObj kvs')"
proof -
  let ?f = "\<lambda>(k, v). (k, text_string k @ '':'' @ stable_text fr v)"
  have k: "map fst (map ?f l) = map fst l" for l by (induction l) auto
  have perm: "mset (map ?f kvs) = mset (map ?f kvs')" using arg_cong[OF assms(1), of "image_mset ?f"] by (simp only: mset_map)
  have d: "distinct (map fst (map ?f kvs))" unfolding k by (rule assms(2))
  have d': "distinct (map fst (map ?f kvs'))" 
    unfolding k using mset_eq_imp_distinct_iff[OF arg_cong[OF assms(1), of "image_mset fst", folded mset_map]] assms(2) by simp
  have same: "set (map ?f kvs) = set (map ?f kvs')" using perm by (rule mset_eq_setD)
  have "sort_key fst (map ?f kvs) = sort_key fst (map ?f kvs')"
  proof (rule map_sorted_distinct_set_unique)
    have "inj_on fst (set (map ?f kvs))" using d unfolding distinct_map by blast
    then show "inj_on fst (set (sort_key fst (map ?f kvs)) \<union> set (sort_key fst (map ?f kvs')))"
      unfolding set_sort same[symmetric] by simp
    show "set (sort_key fst (map ?f kvs)) = set (sort_key fst (map ?f kvs'))" unfolding set_sort by (rule same)
    show "distinct (map fst (sort_key fst (map ?f kvs)))" "distinct (map fst (sort_key fst (map ?f kvs')))"
      using d d' by (simp_all only: distinct_map distinct_sort set_sort)
  qed simp_all
  then show ?thesis by (simp add: stable_pairs_map)
qed

text \<open>The injected error is raised by exactly the next calls of the budget.\<close>

fun gate_runs :: "nat \<Rightarrow> fake \<Rightarrow> (engine_error + unit) list" where
  "gate_runs 0 fk = []"
| "gate_runs (Suc n) fk = (let (r, fk') = fake_gate fk in r # gate_runs n fk')"

lemma error_budget:
  "fk_error fk = Some e \<Longrightarrow> 0 \<le> fk_remaining fk \<Longrightarrow>
     gate_runs n fk = replicate (min n (nat (fk_remaining fk))) (Inl e) @ replicate (n - nat (fk_remaining fk)) (Inr ())"
proof (induction n arbitrary: fk)
  case (Suc n)
  show ?case
  proof (cases "fk_remaining fk = 0")
    case True
    then show ?thesis using Suc.IH[of fk] Suc.prems by (simp add: fake_gate_def)
  next
    case False
    let ?fk = "fk\<lparr>fk_remaining := fk_remaining fk - 1\<rparr>"
    obtain m where m: "nat (fk_remaining fk) = Suc m" "nat (fk_remaining fk - 1) = m" using False Suc.prems(2)
      by (metis Suc_nat_eq_nat_zadd1 add_diff_cancel_left' diff_add_cancel int_one_le_iff_zero_less linorder_not_less order_antisym_conv zle_diff1_eq)
    have "fake_gate fk = (Inl e, ?fk)" using Suc.prems False by (simp add: fake_gate_def)
    then show ?thesis using Suc.IH[of ?fk] Suc.prems False m by simp
  qed
qed simp

section \<open>What the predict endpoint does\<close>

lemma trace_set_engine [simp]:
  "lf_engine (snd (trace_set kvs s)) = lf_engine s" "lf_parsed (snd (trace_set kvs s)) = lf_parsed s"
  "lf_engine (snd (trace_event ev n i out attrs s)) = lf_engine s"
  by (auto simp: trace_set_def trace_event_def in_trace_def split: option.splits prod.splits sum.splits)

lemma record_payload_engine [simp]:
  "fst (record_payload ev kvs r s) = Inr ()" "lf_engine (snd (record_payload ev kvs r s)) = lf_engine s"
  by (simp_all add: record_payload_def)

lemma predict_handler_run:
  assumes "lf_parsed s = Some (JObj kvs)" "validated_payload (lf_parsed s) = Inr kvs'" "lf_trace s = Some c" "\<not> tx_finished c"
    and "ad_predict ad (jget kvs ''state'') (obj_of (jget kvs ''questions'')) (override_of ev kvs ''model'')
      (override_of ev kvs ''task'') (override_of ev kvs ''lang'') (lf_engine s) = (r, e)"
  shows "fst (predict_handler ev ad rq s) = (case guard_engine r of Inl x \<Rightarrow> Inl x | Inr result \<Rightarrow> Inr (json_response (JObj result) 200 []))"
    and "lf_engine (snd (predict_handler ev ad rq s)) = e"
proof -
  have kvs: "kvs' = kvs" using assms(1,2) by (auto simp: validated_payload_def split: json.splits)
  have st: "list_all (\<lambda>(k, v). k \<in> set SETTABLE_FIELDS) [(''state_bytes'', a), (''question_count'', b)]"
    "list_all (\<lambda>(k, v). k \<in> set SETTABLE_FIELDS) [(''model'', a), (''route_reason'', b), (''lang'', d)]" for a b d
    by (simp_all add: SETTABLE_FIELDS_def)
  have op: "open_trace s" using assms(3,4) by (auto simp: open_trace_def)
  obtain t where t: "record_request rq kvs s = (Inr (), t)" "lf_engine t = lf_engine s"
    using set_ok[OF op st(1)] trace_set_engine(1) unfolding record_request_def by (metis prod.collapse snd_conv)
  let ?q = "in_engine (ad_predict ad (jget kvs ''state'') (obj_of (jget kvs ''questions'')) (override_of ev kvs ''model'')
      (override_of ev kvs ''task'') (override_of ev kvs ''lang''))"
  have q: "?q t = (Inr r, t\<lparr>lf_engine := e\<rparr>)" using assms(5) by (simp add: in_engine_def t(2))
  let ?result = "case r of Inl _ \<Rightarrow> JNull | Inr result \<Rightarrow> JObj result"
  obtain u where u: "record_payload ev kvs ?result (t\<lparr>lf_engine := e\<rparr>) = (Inr (), u)" "lf_engine u = e"
    using record_payload_engine[of ev kvs ?result "t\<lparr>lf_engine := e\<rparr>"] by (metis life.select_convs(1) life.surjective life.update_convs(1) prod.collapse)
  have ou: "open_trace u"
  proof -
    have "carrying (record_request rq kvs :: ('a, unit) live)" unfolding record_request_def by (rule carry_set)
    from carries_open[OF carryingD[OF this t(1)] op] have "open_trace (t\<lparr>lf_engine := e\<rparr>)" by (simp add: open_trace_def)
    then show ?thesis by (rule carries_open[OF carryingD[OF carry_record_payload u(1)]])
  qed
  have run: "predict_handler ev ad rq s = act_bind (act_lift (guard_engine r)) (\<lambda>result.
      act_bind (record_result result) (\<lambda>_. act_return (json_response (JObj result) 200 []))) u"
    using assms(1,2) by (simp add: predict_handler_def act_bind_get kvs act_bind_lift act_bind_def[of "record_request rq kvs"] t
        act_bind_def[of ?q] q act_bind_def[of "record_payload ev kvs ?result"] u)
  have res: "fst (record_result result u) = Inr () \<and> lf_engine (snd (record_result result u)) = e" for result
    unfolding record_result_def using set_ok[OF ou st(2)] u(2) by simp
  show "fst (predict_handler ev ad rq s) = (case guard_engine r of Inl x \<Rightarrow> Inl x | Inr result \<Rightarrow> Inr (json_response (JObj result) 200 []))"
    "lf_engine (snd (predict_handler ev ad rq s)) = e"
  proof (atomize (full), cases "guard_engine r")
    case (Inr x)
    obtain w where "record_result x u = (Inr (), w)" "lf_engine w = e" using res[of x] by (metis prod.collapse)
    then show "fst (predict_handler ev ad rq s) = (case guard_engine r of Inl x \<Rightarrow> Inl x | Inr result \<Rightarrow> Inr (json_response (JObj result) 200 []))
        \<and> lf_engine (snd (predict_handler ev ad rq s)) = e"
      by (simp add: run Inr act_bind_lift act_bind_def[of "record_result _"] act_return_def)
  qed (simp add: run act_bind_lift u(2))
qed

lemma record_result_fields:
  assumes "open_trace u"
  shows "\<exists>c. lf_trace (snd (record_result result u)) = Some c \<and> jget (tx_fields c) ''model'' = jget result ''model''
    \<and> jget (tx_fields c) ''route_reason'' = either_of (jget result ''route_reason'') (jget result ''reason'')
    \<and> jget (tx_fields c) ''lang'' = jget result ''lang''"
proof -
  have v: "Recorder.field_value ''model'' v = v" "Recorder.field_value ''route_reason'' v = v" "Recorder.field_value ''lang'' v = v" for v
    by (simp_all add: Recorder.field_value_def split: json.splits)
  obtain c where c: "lf_trace u = Some c" "\<not> tx_finished c" using assms by (auto simp: open_trace_def)
  show ?thesis
    by (simp add: record_result_def trace_set_def in_trace_def c ctx_set_def check_active_def act_simps READONLY_FIELDS_def
        SETTABLE_FIELDS_def v jget_def)
qed

section \<open>The adapter interface\<close>

text \<open>What the handlers rely on of an \<open>EngineAdapter\<close>: an answered call names the checkpoint, the
  reason of the routing and the language as text.\<close>

locale engine_adapter =
  fixes ad :: "'e adapter"
  assumes predict_shape: "fst (ad_predict ad st qs m t l e) = Inr res \<Longrightarrow>
      \<exists>a b c. jget res ''model'' = JStr a \<and> jget res ''route_reason'' = JStr b \<and> jget res ''lang'' = JStr c"
    and route_shape: "fst (ad_route ad st qs e) = Inr res \<Longrightarrow>
      \<exists>a b c. jget res ''model'' = JStr a \<and> jget res ''reason'' = JStr b \<and> jget res ''lang'' = JStr c"
begin

text \<open>An answer is attributed: the trace of the request gets its checkpoint and language.\<close>

lemma answer_attributed:
  assumes "fst (ad_predict ad st qs m t l e) = Inr result" "open_trace u"
  shows "\<exists>c a b. lf_trace (snd (record_result result u)) = Some c \<and> jget result ''model'' = JStr a
    \<and> str_field ''model'' c = Some a \<and> jget result ''lang'' = JStr b \<and> str_field ''lang'' c = Some b"
proof -
  obtain c where "lf_trace (snd (record_result result u)) = Some c" "jget (tx_fields c) ''model'' = jget result ''model''"
    "jget (tx_fields c) ''lang'' = jget result ''lang''"
    using record_result_fields[OF assms(2)] by blast
  then show ?thesis using predict_shape[OF assms(1)] by (auto simp: str_field_def)
qed

end

interpretation fake_engine: engine_adapter "fake_adapter sha fr" for sha fr
proof
  show "\<exists>a b c. jget res ''model'' = JStr a \<and> jget res ''route_reason'' = JStr b \<and> jget res ''lang'' = JStr c"
    if "fst (ad_predict (fake_adapter sha fr) st qs m t l e) = Inr res" for st qs m t l e res
    using that by (auto simp: fake_adapter_def fake_predict_def Let_def jget_def split: prod.splits sum.splits)
  show "\<exists>a b c. jget res ''model'' = JStr a \<and> jget res ''reason'' = JStr b \<and> jget res ''lang'' = JStr c"
    if "fst (ad_route (fake_adapter sha fr) st qs e) = Inr res" for st qs e res
    using that by (auto simp: fake_adapter_def fake_route_def Let_def jget_def split: prod.splits sum.splits)
qed

end
