(* ===== verification/Real_Adapter.thy ===== *)
theory Real_Adapter
  imports Engine
begin

text \<open>
  Models \<open>RealAdapter\<close> of \<open>layawatch/engine/adapter.py\<close>: construction on first use, detection and
  routing, the refusals of an english-only deployment, the forward pass under its lock, and what is
  reported to the spans object. The wrapped library is not part of the source: its router is a value
  of an arbitrary type with the operations of \<open>laya\<close>. Files, environment, clock and the parser of
  floats come from \<open>host\<close>. The calls a spans object receives are kept in order in the state. A
  report to that object never raises here, as on the open trace of a request with its declared names;
  in \<open>predict\<close> the report of the queue time stands between taking the lock and the \<open>try\<close> that
  releases it, so what a raising spans object would do to the lock is outside the model.
\<close>

section \<open>The wrapped library and the host\<close>

text \<open>A routing decision. A catalog entry lists the parts of its specification, the repository first.\<close>

record decision =
  dc_model :: string
  dc_reason :: string
  dc_workflow :: bool

record 'r laya =
  la_new :: "string option \<Rightarrow> engine_error + 'r"
  la_catalog :: "'r \<Rightarrow> (string \<times> string list) list"
  la_drop :: "string \<Rightarrow> 'r \<Rightarrow> 'r"
  la_loaded :: "'r \<Rightarrow> string list"
  la_cap :: "'r \<Rightarrow> nat"
  la_set_cap :: "nat \<Rightarrow> 'r \<Rightarrow> 'r"
  la_preload :: "string list \<Rightarrow> 'r \<Rightarrow> (engine_error + unit) \<times> 'r"
  la_load :: "string \<Rightarrow> 'r \<Rightarrow> (engine_error + unit) \<times> 'r"
  la_unload :: "string \<Rightarrow> 'r \<Rightarrow> (engine_error + unit) \<times> 'r"
  la_device :: "'r \<Rightarrow> string option"
  la_normalise :: "string \<Rightarrow> engine_error + string"
  la_analyse :: "json \<Rightarrow> engine_error + (string \<times> json) list"
  la_route :: "'r \<Rightarrow> json \<Rightarrow> (string \<times> json) list \<Rightarrow> string option \<Rightarrow> string option \<Rightarrow> string option \<Rightarrow> engine_error + decision"
  la_answer :: "string \<Rightarrow> json \<Rightarrow> (string \<times> json) list \<Rightarrow> (string + engine_error) + (string \<times> json) list"

record host =
  ho_meminfo :: "string list option"
  ho_loadavg :: "string option"
  ho_cores :: nat
  ho_env :: "(string \<times> string) list"
  ho_walk :: "string \<Rightarrow> int option list"
  ho_float :: "string \<Rightarrow> pyfloat option"
  ho_clock :: "nat \<Rightarrow> pyfloat"

definition env_var :: "host \<Rightarrow> string \<Rightarrow> string" where
  "env_var h k = (case map_of (ho_env h) k of None \<Rightarrow> [] | Some v \<Rightarrow> v)"

text \<open>\<open>s.split()\<close>\<close>

definition py_words :: "string \<Rightarrow> string list" where
  "py_words s = filter (\<lambda>w. w \<noteq> []) (py_split (CHR '' '') (map (\<lambda>c. if py_isspace c then CHR '' '' else c) s))"

definition GB_PER_CHECKPOINT :: int where
  "GB_PER_CHECKPOINT = 1610612736"

definition mem_available :: "host \<Rightarrow> int option" where
  "mem_available h = (case ho_meminfo h of None \<Rightarrow> None
     | Some ls \<Rightarrow> (case filter (\<lambda>l. py_startswith l ''MemAvailable:'') ls of [] \<Rightarrow> None
         | l # _ \<Rightarrow> (case py_words l of _ # n # _ \<Rightarrow> map_option (\<lambda>i. i * 1024) (py_int n) | _ \<Rightarrow> None)))"

text \<open>\<open>os.path.join\<close> of a relative second part.\<close>

definition path_join :: "string \<Rightarrow> string \<Rightarrow> string" where
  "path_join a b = (if a = [] \<or> last a = CHR ''/'' then a @ b else a @ ''/'' @ b)"

definition hf_cache_root :: "host \<Rightarrow> string" where
  "hf_cache_root h =
     (if env_var h ''HF_HUB_CACHE'' \<noteq> [] then env_var h ''HF_HUB_CACHE''
      else if env_var h ''HUGGINGFACE_HUB_CACHE'' \<noteq> [] then env_var h ''HUGGINGFACE_HUB_CACHE''
      else if env_var h ''HF_HOME'' \<noteq> [] then path_join (env_var h ''HF_HOME'') ''hub''
      else path_join (path_join (if env_var h ''XDG_CACHE_HOME'' \<noteq> [] then env_var h ''XDG_CACHE_HOME''
             else path_join (env_var h ''HOME'') ''.cache'') ''huggingface'') ''hub'')"

text \<open>The sizes of the files below the snapshot directory, None where the size cannot be read.\<close>

definition checkpoint_location :: "host \<Rightarrow> string \<Rightarrow> string \<times> int option" where
  "checkpoint_location h repo = (let (org, sep, name) = py_partition (CHR ''/'') repo in
     if \<not> sep then (''hub'', None)
     else let sizes = List.map_filter id (ho_walk h (path_join (path_join (hf_cache_root h) (''models--'' @ org @ ''--'' @ name)) ''snapshots''))
       in if sizes = [] then (''hub'', None) else (''disk'', Some (sum_list sizes)))"

definition load_attrs :: "'r laya \<Rightarrow> host \<Rightarrow> 'r \<Rightarrow> string \<Rightarrow> (string \<times> json) list" where
  "load_attrs la h r name =
     (let spec = (case map_of (la_catalog la r) name of Some (repo # _) \<Rightarrow> repo | _ \<Rightarrow> []);
          (origin, nbytes) = (if spec = [] then (''hub'', None) else checkpoint_location h spec) in
      [(''model'', JStr name), (''from'', JStr origin)] @ (case nbytes of None \<Rightarrow> [] | Some n \<Rightarrow> [(''bytes'', JInt n)]))"

definition lang_code :: "(string \<times> json) list \<Rightarrow> string" where
  "lang_code det = (case jget det ''language'' of
     JStr (c # cs) \<Rightarrow> c # cs | _ \<Rightarrow> if py_truthy (jget det ''is_english'') then ''en'' else ''mul'')"

definition detect_confidence :: "(string \<times> json) list \<Rightarrow> pyfloat" where
  "detect_confidence det = (if py_truthy (jget det ''language_undecided'') then 1 / 2 else 1)"

section \<open>State\<close>

datatype sink_call = SpanOpened string "(string \<times> json) list" | SpanLeft string bool | FieldsSet "(string \<times> json) list"

record 'r real_engine =
  ra_device :: "string option"
  ra_models :: "string list"
  ra_english_only :: bool
  ra_router :: "'r option"
  ra_inflight :: int
  ra_locked :: bool
  ra_lifecycle :: bool
  ra_queue :: "string list"
  ra_configured :: "string list"
  ra_warmed :: "string list"
  ra_enabled :: bool
  ra_worker :: bool
  ra_spawned :: nat
  ra_calls :: "sink_call list"
  ra_tick :: nat

definition flag_on :: "string \<Rightarrow> bool" where
  "flag_on s \<longleftrightarrow> py_lower (py_strip s) \<in> {''1'', ''true'', ''yes'', ''on''}"

text \<open>The constructor; \<open>injected\<close> says whether an engine was passed in.\<close>

definition new_real :: "host \<Rightarrow> bool \<Rightarrow> string option \<Rightarrow> string list option \<Rightarrow> bool option \<Rightarrow> 'r real_engine" where
  "new_real h injected device models english_only =
     (let dev = (case device of None \<Rightarrow> if env_var h ''LAYA_DEVICE'' = [] then None else Some (env_var h ''LAYA_DEVICE'') | Some d \<Rightarrow> Some d);
          listed = (case map_of (ho_env h) ''LAYA_MODELS'' of None \<Rightarrow> ''english,multilingual'' | Some v \<Rightarrow> v) in
      \<lparr>ra_device = (case dev of Some d \<Rightarrow> if py_lower (py_strip d) = ''auto'' then None else Some d | None \<Rightarrow> None),
       ra_models = (case models of Some ms \<Rightarrow> ms | None \<Rightarrow> filter (\<lambda>m. m \<noteq> []) (map py_strip (py_split (CHR '','') listed))),
       ra_english_only = (case english_only of Some b \<Rightarrow> b | None \<Rightarrow> flag_on (env_var h ''LAYA_ENGLISH_ONLY'')),
       ra_router = None, ra_inflight = 0, ra_locked = False, ra_lifecycle = False, ra_queue = [], ra_configured = [],
       ra_warmed = [], ra_enabled = \<not> injected, ra_worker = False, ra_spawned = (if injected then 0 else 1), ra_calls = [], ra_tick = 0\<rparr>)"

type_synonym ('r, 'a) ract = "(engine_error, 'r real_engine, 'a) act"

definition emit :: "sink_call \<Rightarrow> ('r, unit) ract" where
  "emit c = act_modify (\<lambda>s. s\<lparr>ra_calls := ra_calls s @ [c]\<rparr>)"

definition spanned :: "string \<Rightarrow> (string \<times> json) list \<Rightarrow> ('r, 'a) ract \<Rightarrow> ('r, 'a) ract" where
  "spanned name attrs body = act_bind (emit (SpanOpened name attrs)) (\<lambda>_ s.
     let (r, t) = body s in (r, t\<lparr>ra_calls := ra_calls t @ [SpanLeft name (isl r)]\<rparr>))"

definition read_clock :: "host \<Rightarrow> ('r, pyfloat) ract" where
  "read_clock h s = (Inr (ho_clock h (ra_tick s)), s\<lparr>ra_tick := Suc (ra_tick s)\<rparr>)"

definition on_router :: "('r \<Rightarrow> (engine_error + 'a) \<times> 'r) \<Rightarrow> ('r, 'a) ract" where
  "on_router f s = (case ra_router s of None \<Rightarrow> (Inl (EngineCrash TypeError), s)
     | Some r \<Rightarrow> (let (x, r') = f r in (x, s\<lparr>ra_router := Some r'\<rparr>)))"

section \<open>Construction on first use\<close>

fun normalise_all :: "'r laya \<Rightarrow> string list \<Rightarrow> engine_error + string list" where
  "normalise_all la [] = Inr []"
| "normalise_all la (n # ns) = res_bind (la_normalise la n) (\<lambda>k. res_bind (normalise_all la ns) (\<lambda>ks. Inr (k # ks)))"

definition publish_router :: "'r laya \<Rightarrow> 'r \<Rightarrow> ('r, unit) ract" where
  "publish_router la r = act_modify (\<lambda>s. s\<lparr>ra_router := Some (if ra_english_only s then la_drop la ''multilingual'' r else r)\<rparr>)"

definition boot :: "'r laya \<Rightarrow> host \<Rightarrow> 'r \<Rightarrow> string list \<Rightarrow> ('r, unit) ract" where
  "boot la h r names = act_bind (act_modify (\<lambda>s. s\<lparr>ra_configured := names\<rparr>)) (\<lambda>_.
     case filter (\<lambda>n. n \<notin> set (la_loaded la r)) names of
       [] \<Rightarrow> publish_router la r
     | first # rest \<Rightarrow>
         (let r1 = la_set_cap la (max (la_cap la r) (length names)) r; (x, r2) = la_preload la [first] r1 in
          act_bind (spanned ''model.load'' (load_attrs la h r1 first) (act_lift x)) (\<lambda>_.
          act_bind (act_modify (\<lambda>s. s\<lparr>ra_queue := ra_queue s @ rest\<rparr>)) (\<lambda>_. publish_router la r2))))"

definition ensure :: "'r laya \<Rightarrow> host \<Rightarrow> ('r, unit) ract" where
  "ensure la h s = (if ra_router s \<noteq> None then (Inr (), s)
     else let requested = (if ra_english_only s then [''english''] else ra_models s) in
       case la_new la (ra_device s) of Inl e \<Rightarrow> (Inl e, s)
       | Inr r \<Rightarrow> (case (if requested = [''all''] then Inr (map fst (la_catalog la r)) else normalise_all la requested) of
           Inl e \<Rightarrow> (Inl e, s)
         | Inr names \<Rightarrow> boot la h r names s))"

section \<open>The worker is kicked\<close>

definition prefetch_gates :: "host \<Rightarrow> string list \<Rightarrow> string \<Rightarrow> bool" where
  "prefetch_gates h configured name \<longleftrightarrow> name \<in> set configured
     \<and> (case ho_loadavg h of None \<Rightarrow> False
        | Some txt \<Rightarrow> (case py_words txt of [] \<Rightarrow> False
            | w # _ \<Rightarrow> (case ho_float h w of None \<Rightarrow> False | Some load1 \<Rightarrow> load1 < of_nat (ho_cores h))))
     \<and> (case mem_available h of None \<Rightarrow> True | Some n \<Rightarrow> GB_PER_CHECKPOINT \<le> n)"

definition kick_worker :: "host \<Rightarrow> ('r, unit) ract" where
  "kick_worker h s = (Inr (), case ra_queue s of [] \<Rightarrow> s
     | name # _ \<Rightarrow> if ra_enabled s \<and> \<not> ra_worker s \<and> prefetch_gates h (ra_configured s) name
         then s\<lparr>ra_spawned := Suc (ra_spawned s)\<rparr> else s)"

section \<open>Detection and routing\<close>

definition refuse_when_english_only :: "'r laya \<Rightarrow> (string \<times> json) list \<Rightarrow> string option \<Rightarrow> bool \<Rightarrow> engine_error + unit" where
  "refuse_when_english_only la det model english_only =
     (if \<not> english_only then Inr ()
      else if \<not> py_truthy (jget det ''is_english'')
        then Inl (EnglishOnly ''english-only deployment: state did not detect as English''
          (Some (JObj (map (\<lambda>k. (k, jget det k)) [''script'', ''language'', ''non_latin_fraction'', ''diacritic_rate'']))))
      else case model of None \<Rightarrow> Inr ()
      | Some m \<Rightarrow> if m = [] then Inr () else (case la_normalise la m of
          Inr k \<Rightarrow> if k = ''multilingual'' then Inl (EnglishOnly ''english-only deployment: multilingual checkpoint not available'' None) else Inr ()
        | Inl (EngineCrash x) \<Rightarrow> Inl (EngineCrash x)
        | Inl _ \<Rightarrow> Inr ()))"

definition ignore_result :: "engine_error + 'a \<Rightarrow> engine_error + unit" where
  "ignore_result r = (case r of Inl e \<Rightarrow> Inl e | Inr _ \<Rightarrow> Inr ())"

definition analysed :: "'r laya \<Rightarrow> json \<Rightarrow> string option \<Rightarrow> ('r, string) ract" where
  "analysed la state model =
     act_bind (act_lift (la_analyse la state)) (\<lambda>det.
     act_bind (spanned ''lang.detect'' [(''lang'', JStr (lang_code det)), (''confidence'', JFloat (detect_confidence det))]
       (act_lift (ignore_result (la_analyse la state)))) (\<lambda>_.
     act_bind (act_get ra_english_only) (\<lambda>english_only.
     act_bind (act_lift (refuse_when_english_only la det model english_only)) (\<lambda>_.
     act_return (lang_code det)))))"

definition detect :: "'r laya \<Rightarrow> json \<Rightarrow> string option \<Rightarrow> string option \<Rightarrow> ('r, string) ract" where
  "detect la state model lang = act_bind (act_get ra_english_only) (\<lambda>english_only.
     case lang of
       Some pin \<Rightarrow> if english_only then analysed la state model else act_return pin
     | None \<Rightarrow> analysed la state model)"

definition routed :: "'r laya \<Rightarrow> json \<Rightarrow> (string \<times> json) list \<Rightarrow> string option \<Rightarrow> string option \<Rightarrow> string option \<Rightarrow> ('r, decision) ract" where
  "routed la state questions model task lang = on_router (\<lambda>r. (la_route la r state questions model task lang, r))"

definition decide :: "'r laya \<Rightarrow> json \<Rightarrow> (string \<times> json) list \<Rightarrow> string option \<Rightarrow> string option \<Rightarrow> string option
    \<Rightarrow> ('r, decision \<times> string) ract" where
  "decide la state questions model task lang =
     act_bind (detect la state model lang) (\<lambda>code.
     act_bind (routed la state questions model task lang) (\<lambda>d.
     act_bind (if model = None
         then spanned ''route.decide'' [(''model'', JStr (dc_model d)), (''reason'', JStr (dc_reason d)), (''typed_workflow'', JBool (dc_workflow d))]
           (act_bind (routed la state questions model task lang) (\<lambda>_. act_return ()))
         else act_return ()) (\<lambda>_.
     act_bind (emit (FieldsSet [(''model'', JStr (dc_model d)), (''route_reason'', JStr (dc_reason d)), (''lang'', JStr code)])) (\<lambda>_.
     act_return (d, code)))))"

section \<open>The forward pass\<close>

definition resident_agent :: "'r laya \<Rightarrow> host \<Rightarrow> string \<Rightarrow> ('r, unit) ract" where
  "resident_agent la h name s = (case ra_router s of None \<Rightarrow> (Inl (EngineCrash TypeError), s)
     | Some r \<Rightarrow> if name \<in> set (la_loaded la r) then on_router (la_load la name) s
                 else spanned ''model.load'' (load_attrs la h r name) (on_router (la_load la name)) s)"

definition forward_pass :: "'r laya \<Rightarrow> string \<Rightarrow> json \<Rightarrow> (string \<times> json) list \<Rightarrow> engine_error + (string \<times> json) list" where
  "forward_pass la name state questions = (case la_answer la name state questions of
     Inr result \<Rightarrow> Inr result
   | Inl (Inl key) \<Rightarrow> Inl (EngineValue (''question payload missing a required field: '' @ key))
   | Inl (Inr e) \<Rightarrow> Inl e)"

fun json_len :: "json \<Rightarrow> nat option" where
  "json_len (JStr s) = Some (length s)"
| "json_len (JArr xs) = Some (length xs)"
| "json_len (JObj kvs) = Some (length kvs)"
| "json_len _ = None"

definition device_label :: "string option \<Rightarrow> string" where
  "device_label d = (case d of Some (c # cs) \<Rightarrow> c # cs | _ \<Rightarrow> ''auto'')"

definition serialized :: "decision \<Rightarrow> string \<Rightarrow> (string \<times> json) list \<Rightarrow> ('r, (string \<times> json) list) ract" where
  "serialized d code result = (case map_of result ''answers'' of None \<Rightarrow> act_raise (EngineCrash KeyError)
     | Some answers \<Rightarrow> (case json_len answers of None \<Rightarrow> act_raise (EngineCrash TypeError)
         | Some n \<Rightarrow> spanned ''serialize'' [(''answers'', JInt (int n))] (act_return
             [(''answers'', answers), (''model'', JStr (dc_model d)), (''route_reason'', JStr (dc_reason d)),
              (''lang'', JStr code), (''usage'', jget result ''usage'')])))"

definition forwarded :: "'r laya \<Rightarrow> host \<Rightarrow> decision \<Rightarrow> string \<Rightarrow> json \<Rightarrow> (string \<times> json) list \<Rightarrow> ('r, (string \<times> json) list) ract" where
  "forwarded la h d code state questions =
     act_bind (resident_agent la h (dc_model d)) (\<lambda>_.
     act_bind (read_clock h) (\<lambda>started.
     act_bind (on_router (\<lambda>r. (Inr (device_label (la_device la r)), r))) (\<lambda>device.
     act_bind (spanned ''forward'' [(''model'', JStr (dc_model d)), (''questions'', JInt (int (length questions))), (''device'', JStr device)]
       (act_lift (forward_pass la (dc_model d) state questions))) (\<lambda>result.
     act_bind (read_clock h) (\<lambda>ended.
     act_bind (emit (FieldsSet [(''forward_ms'', JFloat ((ended - started) * 1000))])) (\<lambda>_.
     serialized d code result))))))"

definition locked :: "('r, 'a) ract \<Rightarrow> ('r, 'a) ract" where
  "locked m = act_finally m (\<lambda>s. s\<lparr>ra_locked := False\<rparr>)"

definition answered :: "'r laya \<Rightarrow> host \<Rightarrow> decision \<Rightarrow> string \<Rightarrow> json \<Rightarrow> (string \<times> json) list \<Rightarrow> int \<Rightarrow> ('r, (string \<times> json) list) ract" where
  "answered la h d code state questions depth =
     act_bind (read_clock h) (\<lambda>opened.
     act_bind (spanned ''queue.wait'' [(''depth_at_acquire'', JInt depth)] (act_modify (\<lambda>s. s\<lparr>ra_locked := True\<rparr>))) (\<lambda>_.
     act_bind (read_clock h) (\<lambda>got.
     act_bind (emit (FieldsSet [(''queue_ms'', JFloat ((got - opened) * 1000))])) (\<lambda>_.
     locked (forwarded la h d code state questions)))))"

definition real_predict :: "'r laya \<Rightarrow> host \<Rightarrow> json \<Rightarrow> (string \<times> json) list \<Rightarrow> string option \<Rightarrow> string option \<Rightarrow> string option
    \<Rightarrow> ('r, (string \<times> json) list) ract" where
  "real_predict la h state questions model task lang =
     act_bind (ensure la h) (\<lambda>_.
     act_bind (kick_worker h) (\<lambda>_.
     act_bind (decide la state questions model task lang) (\<lambda>(d, code).
     act_bind (act_get ra_inflight) (\<lambda>depth.
     act_bind (act_modify (\<lambda>s. s\<lparr>ra_inflight := ra_inflight s + 1\<rparr>)) (\<lambda>_.
     act_finally (answered la h d code state questions depth) (\<lambda>s. s\<lparr>ra_inflight := ra_inflight s - 1\<rparr>))))))"

definition real_route :: "'r laya \<Rightarrow> host \<Rightarrow> json \<Rightarrow> (string \<times> json) list \<Rightarrow> ('r, (string \<times> json) list) ract" where
  "real_route la h state questions =
     act_bind (ensure la h) (\<lambda>_.
     act_bind (decide la state questions None None None) (\<lambda>(d, code).
     act_return [(''model'', JStr (dc_model d)), (''reason'', JStr (dc_reason d)), (''lang'', JStr code)]))"

definition real_adapter :: "'r laya \<Rightarrow> host \<Rightarrow> 'r real_engine adapter" where
  "real_adapter la h = \<lparr>ad_predict = real_predict la h, ad_route = real_route la h\<rparr>"

definition real_loaded :: "'r laya \<Rightarrow> 'r real_engine \<Rightarrow> string list" where
  "real_loaded la s = (case ra_router s of None \<Rightarrow> [] | Some r \<Rightarrow> sort (la_loaded la r))"

definition real_device :: "'r laya \<Rightarrow> 'r real_engine \<Rightarrow> string" where
  "real_device la s = device_label (case ra_router s of None \<Rightarrow> ra_device s | Some r \<Rightarrow> la_device la r)"

section \<open>What every step keeps\<close>

text \<open>The spans that are still open, innermost first; None when a span is left that is not the innermost.\<close>

fun open_spans :: "string list \<Rightarrow> sink_call list \<Rightarrow> string list option" where
  "open_spans st [] = Some st"
| "open_spans st (SpanOpened n a # cs) = open_spans (n # st) cs"
| "open_spans st (SpanLeft n b # cs) = (case st of [] \<Rightarrow> None | m # ms \<Rightarrow> if m = n then open_spans ms cs else None)"
| "open_spans st (FieldsSet f # cs) = open_spans st cs"

definition opened :: "sink_call list \<Rightarrow> string list" where
  "opened cs = concat (map (\<lambda>c. case c of SpanOpened n _ \<Rightarrow> [n] | _ \<Rightarrow> []) cs)"

text \<open>A program that reports well: it appends a balanced sequence of calls and leaves the lock and the
  counter as they were.\<close>

definition reports :: "'r real_engine \<Rightarrow> 'r real_engine \<Rightarrow> bool" where
  "reports s t \<longleftrightarrow> (\<exists>cs. ra_calls t = ra_calls s @ cs \<and> (\<forall>st. open_spans st cs = Some st))
     \<and> ra_locked t = ra_locked s \<and> ra_inflight t = ra_inflight s \<and> ra_lifecycle t = ra_lifecycle s
     \<and> ra_english_only t = ra_english_only s"

definition neat :: "('r, 'a) ract \<Rightarrow> bool" where
  "neat m \<longleftrightarrow> (\<forall>s. reports s (snd (m s)))"

named_theorems neat \<open>programs that report well\<close>

lemma open_spans_append: "open_spans st (cs @ ds) = (case open_spans st cs of None \<Rightarrow> None | Some st' \<Rightarrow> open_spans st' ds)"
  by (induction st cs rule: open_spans.induct) (auto split: list.splits)

lemma reports_refl [simp]: "reports s s"
  by (simp add: reports_def exI[of _ "[]"])

lemma reports_trans: "reports s t \<Longrightarrow> reports t u \<Longrightarrow> reports s u"
  unfolding reports_def by (metis append.assoc open_spans_append option.simps(5))

lemma neat_bind [neat]:
  assumes "neat m" "\<And>a. neat (f a)"
  shows "neat (act_bind m f)"
  using assms unfolding neat_def act_bind_def
  by (auto split: prod.split sum.split) (metis reports_trans snd_conv)+

lemma neat_base [neat]:
  "neat (act_return a)" "neat (act_raise e)" "neat (act_lift x)" "neat (act_get g)" "neat (emit (FieldsSet fs))" "neat (read_clock h)"
  by (auto simp: neat_def reports_def act_simps emit_def read_clock_def)

lemma neat_state [neat]: "neat (on_router f)" "neat (kick_worker h)" "neat (publish_router la r)"
  by (auto simp: neat_def reports_def act_simps on_router_def kick_worker_def publish_router_def
      split: option.split prod.split list.split)

lemma neat_spanned [neat]:
  fixes m :: "('r, 'a) ract"
  assumes "neat m"
  shows "neat (spanned name attrs m)"
  unfolding neat_def
proof
  fix s :: "'r real_engine"
  let ?s = "s\<lparr>ra_calls := ra_calls s @ [SpanOpened name attrs]\<rparr>"
  have "reports ?s (snd (m ?s))" using assms by (simp add: neat_def)
  then obtain cs where "ra_calls (snd (m ?s)) = ra_calls ?s @ cs" "\<forall>st. open_spans st cs = Some st" "ra_locked (snd (m ?s)) = ra_locked ?s"
    "ra_inflight (snd (m ?s)) = ra_inflight ?s" "ra_lifecycle (snd (m ?s)) = ra_lifecycle ?s" "ra_english_only (snd (m ?s)) = ra_english_only ?s"
    unfolding reports_def by blast
  then show "reports s (snd (spanned name attrs m s))"
    by (auto simp: reports_def spanned_def act_bind_def emit_def act_modify_def open_spans_append split: prod.split
        intro!: exI[of _ "SpanOpened name attrs # cs @ [SpanLeft name (isl (fst (m ?s)))]"])
qed

lemma neat_if [neat]: "(b \<Longrightarrow> neat m) \<Longrightarrow> (\<not> b \<Longrightarrow> neat n) \<Longrightarrow> neat (if b then m else n)"
  by simp

lemma neat_option [neat]: "neat m \<Longrightarrow> (\<And>a. neat (n a)) \<Longrightarrow> neat (case r of None \<Rightarrow> m | Some a \<Rightarrow> n a)"
  by (cases r) simp_all

lemma neat_list [neat]: "neat m \<Longrightarrow> (\<And>a as. neat (n a as)) \<Longrightarrow> neat (case r of [] \<Rightarrow> m | a # as \<Rightarrow> n a as)"
  by (cases r) simp_all

lemma neat_prod [neat]: "(\<And>a b. neat (n a b)) \<Longrightarrow> neat (case r of (a, b) \<Rightarrow> n a b)"
  by (cases r) simp_all

lemma neat_sum [neat]: "(\<And>a. neat (m a)) \<Longrightarrow> (\<And>b. neat (n b)) \<Longrightarrow> neat (case r of Inl a \<Rightarrow> m a | Inr b \<Rightarrow> n b)"
  by (cases r) simp_all

lemma neat_boot [neat]: "neat (boot la h r names)"
proof -
  have set: "neat (act_modify (\<lambda>s. s\<lparr>ra_configured := c\<rparr>))" "neat (act_modify (\<lambda>s. s\<lparr>ra_queue := ra_queue s @ q\<rparr>))" for c q
    by (auto simp: neat_def act_modify_def reports_def)
  show ?thesis unfolding boot_def Let_def by (intro neat set)
qed

lemma neat_ensure [neat]: "neat (ensure la h)"
  using neat_boot[of la h] by (auto simp: neat_def ensure_def Let_def split: sum.split)

lemma neat_decide [neat]: "neat (decide la state questions model task lang)"
  unfolding decide_def detect_def analysed_def routed_def by (intro neat)

lemma neat_resident [neat]: "neat (resident_agent la h name)"
  using neat_state(1)[of "la_load la name"] neat_spanned[OF neat_state(1)[of "la_load la name"]]
  unfolding neat_def resident_agent_def by (auto split: option.split)

lemma neat_forwarded [neat]: "neat (forwarded la h d code state questions)"
  unfolding forwarded_def serialized_def by (intro neat)

lemma neat_route: "neat (real_route la h state questions)"
  unfolding real_route_def by (intro neat)

section \<open>The lock and the counter\<close>

lemma answered_reports:
  assumes "\<not> ra_locked s"
  shows "reports s (snd (answered la h d code state questions depth s))"
proof -
  let ?q = "[SpanOpened ''queue.wait'' [(''depth_at_acquire'', JInt depth)], SpanLeft ''queue.wait'' False,
    FieldsSet [(''queue_ms'', JFloat ((ho_clock h (Suc (ra_tick s)) - ho_clock h (ra_tick s)) * 1000))]]"
  let ?s = "s\<lparr>ra_locked := True, ra_tick := Suc (Suc (ra_tick s)), ra_calls := ra_calls s @ ?q\<rparr>"
  obtain x t where f: "forwarded la h d code state questions ?s = (x, t)" by (cases "forwarded la h d code state questions ?s")
  have run: "answered la h d code state questions depth s = (x, t\<lparr>ra_locked := False\<rparr>)"
    using f by (simp add: answered_def act_bind_def read_clock_def spanned_def emit_def act_modify_def locked_def act_finally_def)
  have "reports ?s t" using neat_forwarded[of la h d code state questions] f unfolding neat_def by (metis snd_conv)
  then obtain cs where cs: "ra_calls t = (ra_calls s @ ?q) @ cs" "\<forall>st. open_spans st cs = Some st"
    and rest: "ra_inflight t = ra_inflight s" "ra_lifecycle t = ra_lifecycle s" "ra_english_only t = ra_english_only s"
    unfolding reports_def by auto
  have "ra_calls t = ra_calls s @ (?q @ cs)" "\<forall>st. open_spans st (?q @ cs) = Some st" using cs by simp_all
  then show ?thesis using assms rest unfolding run reports_def by (simp del: append.simps)
qed

lemma predict_reports:
  fixes s :: "'r real_engine"
  assumes "\<not> ra_locked s"
  shows "reports s (snd (real_predict la h state questions model task lang s))"
proof -
  let ?before = "act_bind (ensure la h) (\<lambda>_. act_bind (kick_worker h) (\<lambda>_. decide la state questions model task lang))"
  let ?after = "\<lambda>(d, code). act_bind (act_get ra_inflight) (\<lambda>depth.
     act_bind (act_modify (\<lambda>s. s\<lparr>ra_inflight := ra_inflight s + 1\<rparr>)) (\<lambda>_.
     act_finally (answered la h d code state questions depth) (\<lambda>s. s\<lparr>ra_inflight := ra_inflight s - 1\<rparr>)))"
  have split: "real_predict la h state questions model task lang = act_bind ?before ?after"
    by (simp add: real_predict_def act_bind_assoc)
  have "neat ?before" by (intro neat)
  obtain x t where b: "?before s = (x, t)" by (cases "?before s")
  have bt: "reports s t" using \<open>neat ?before\<close> b unfolding neat_def by (metis snd_conv)
  show ?thesis
  proof (cases x)
    case (Inr dc)
    obtain d code where dc: "dc = (d, code)" by (cases dc)
    let ?t = "t\<lparr>ra_inflight := ra_inflight t + 1\<rparr>"
    obtain y u where u: "answered la h d code state questions (ra_inflight t) ?t = (y, u)"
      by (cases "answered la h d code state questions (ra_inflight t) ?t")
    have "\<not> ra_locked ?t" using bt assms by (simp add: reports_def)
    from answered_reports[OF this, of la h d code state questions "ra_inflight t"] have "reports ?t u" by (simp add: u)
    then have "reports t (u\<lparr>ra_inflight := ra_inflight u - 1\<rparr>)" by (auto simp: reports_def)
    then show ?thesis using reports_trans[OF bt]
      by (simp add: split act_bind_def[of ?before] b Inr dc act_bind_get act_bind_modify act_finally_def u)
  qed (use bt in \<open>simp add: split act_bind_def[of ?before] b\<close>)
qed

text \<open>C35: A request leaves the engine free on every path, an exception of the library included: the forward
  lock is released, the number of requests in flight is what it was, and every span that was opened is
  left, innermost first.\<close>

theorem predict_leaves_the_engine_free:
  assumes "\<not> ra_locked s"
  shows "let s' = snd (real_predict la h state questions model task lang s) in
    \<not> ra_locked s' \<and> ra_inflight s' = ra_inflight s \<and> ra_lifecycle s' = ra_lifecycle s
    \<and> (\<exists>cs. ra_calls s' = ra_calls s @ cs \<and> open_spans [] cs = Some [])"
  using predict_reports[OF assms, of la h state questions model task lang] assms by (auto simp: reports_def Let_def)

section \<open>The order of the spans\<close>

lemma opened_append [simp]: "opened (cs @ ds) = opened cs @ opened ds"
  by (simp add: opened_def)

lemma opened_simps [simp]:
  "opened [] = []" "opened (SpanOpened n a # cs) = n # opened cs" "opened (SpanLeft n b # cs) = opened cs" "opened (FieldsSet f # cs) = opened cs"
  by (simp_all add: opened_def)

text \<open>The state with more calls and another clock position.\<close>

definition grown :: "'r real_engine \<Rightarrow> 'r real_engine \<Rightarrow> string list \<Rightarrow> bool" where
  "grown s t names \<longleftrightarrow> opened (ra_calls t) = opened (ra_calls s) @ names \<and> ra_router t = ra_router s \<and> ra_english_only t = ra_english_only s"

lemma kick_grown: "\<exists>t. kick_worker h s = (Inr (), t) \<and> grown s t []"
  by (auto simp: kick_worker_def grown_def split: list.split)

lemma analysed_run:
  assumes "la_analyse la state = Inr det"
  shows "fst (analysed la state model s) = (case refuse_when_english_only la det model (ra_english_only s) of Inl e \<Rightarrow> Inl e | Inr _ \<Rightarrow> Inr (lang_code det))"
    "grown s (snd (analysed la state model s)) [''lang.detect'']"
  using assms
  by (auto simp: analysed_def act_bind_def act_simps spanned_def emit_def ignore_result_def grown_def split: sum.split)

text \<open>The language of a request: the pin, or what was detected.\<close>

definition language_of :: "'r laya \<Rightarrow> json \<Rightarrow> string option \<Rightarrow> bool \<Rightarrow> string" where
  "language_of la state lang english_only = (case lang of Some pin \<Rightarrow> if english_only then (case la_analyse la state of Inr det \<Rightarrow> lang_code det | _ \<Rightarrow> []) else pin
     | None \<Rightarrow> (case la_analyse la state of Inr det \<Rightarrow> lang_code det | _ \<Rightarrow> []))"

definition detect_spans :: "string option \<Rightarrow> bool \<Rightarrow> string list" where
  "detect_spans lang english_only = (if lang = None \<or> english_only then [''lang.detect''] else [])"

lemma detect_run:
  assumes "detect la state model lang s = (Inr code, t)"
  shows "code = language_of la state lang (ra_english_only s)" "grown s t (detect_spans lang (ra_english_only s))"
    "lang = None \<or> ra_english_only s \<Longrightarrow> \<exists>det. la_analyse la state = Inr det \<and> refuse_when_english_only la det model (ra_english_only s) = Inr ()"
proof -
  have an: "code = (case la_analyse la state of Inr det \<Rightarrow> lang_code det | _ \<Rightarrow> []) \<and> grown s t [''lang.detect'']
      \<and> (\<exists>det. la_analyse la state = Inr det \<and> refuse_when_english_only la det model (ra_english_only s) = Inr ())"
    if "analysed la state model s = (Inr code, t)"
  proof (cases "la_analyse la state")
    case (Inl e)
    then show ?thesis using that by (simp add: analysed_def act_bind_lift)
  next
    case (Inr det)
    then show ?thesis using that analysed_run[OF Inr, where model = model and s = s] by (auto split: sum.splits)
  qed
  show "code = language_of la state lang (ra_english_only s)" "grown s t (detect_spans lang (ra_english_only s))"
    "lang = None \<or> ra_english_only s \<Longrightarrow> \<exists>det. la_analyse la state = Inr det \<and> refuse_when_english_only la det model (ra_english_only s) = Inr ()"
    using assms an
    by (auto simp: detect_def act_bind_get language_of_def detect_spans_def grown_def act_return_def split: option.splits if_splits)
qed

lemma routed_run: "ra_router s = Some r \<Longrightarrow> routed la state questions model task lang s = (la_route la r state questions model task lang, s)"
  by (simp add: routed_def on_router_def)

definition decide_spans :: "string option \<Rightarrow> string option \<Rightarrow> bool \<Rightarrow> string list" where
  "decide_spans model lang english_only = detect_spans lang english_only @ (if model = None then [''route.decide''] else [])"

lemma decide_run:
  assumes "decide la state questions model task lang s = (Inr (d, code), t)" "ra_router s = Some r"
  shows "la_route la r state questions model task lang = Inr d" "code = language_of la state lang (ra_english_only s)"
    "grown s t (decide_spans model lang (ra_english_only s))"
    "lang = None \<or> ra_english_only s \<Longrightarrow> \<exists>det. la_analyse la state = Inr det \<and> refuse_when_english_only la det model (ra_english_only s) = Inr ()"
proof -
  obtain c u where u: "detect la state model lang s = (Inr c, u)"
    using assms(1) unfolding decide_def by (auto elim: act_bind_InrE)
  note du = detect_run[OF u]
  have ru: "ra_router u = Some r" using du(2) assms(2) by (simp add: grown_def)
  obtain d' where d': "la_route la r state questions model task lang = Inr d'"
    using assms(1) by (cases "la_route la r state questions model task lang") (auto simp: decide_def act_bind_def u routed_run[OF ru])
  have "d' = d \<and> c = code \<and> grown u t (if model = None then [''route.decide''] else [])"
  proof (cases "model = None")
    case True
    have "routed la state questions None task lang (u\<lparr>ra_calls := cs\<rparr>) = (Inr d', u\<lparr>ra_calls := cs\<rparr>)" for cs
      using routed_run[of "u\<lparr>ra_calls := cs\<rparr>" r] ru d' True by simp
    moreover have "routed la state questions None task lang u = (Inr d', u)" using routed_run[OF ru] d' True by simp
    ultimately show ?thesis using assms(1) u True
      by (auto simp: decide_def act_bind_def spanned_def emit_def act_modify_def act_return_def grown_def)
  next
    case False
    then show ?thesis using assms(1) u routed_run[OF ru, of la state questions model task lang] d'
      by (auto simp: decide_def act_bind_def emit_def act_modify_def act_return_def grown_def)
  qed
  then show "la_route la r state questions model task lang = Inr d" "code = language_of la state lang (ra_english_only s)"
    "grown s t (decide_spans model lang (ra_english_only s))"
    "lang = None \<or> ra_english_only s \<Longrightarrow> \<exists>det. la_analyse la state = Inr det \<and> refuse_when_english_only la det model (ra_english_only s) = Inr ()"
    using d' du by (auto simp: grown_def decide_spans_def)
qed

lemma resident_run:
  assumes "resident_agent la h name s = (Inr x, t)" "ra_router s = Some r"
  obtains r' where "la_load la name r = (Inr (), r')" "ra_router t = Some r'"
    "opened (ra_calls t) = opened (ra_calls s) @ (if name \<in> set (la_loaded la r) then [] else [''model.load''])"
  using assms
  by (auto simp: resident_agent_def on_router_def spanned_def act_bind_def emit_def act_modify_def split: prod.splits if_splits)

definition answer_of :: "decision \<Rightarrow> string \<Rightarrow> (string \<times> json) list \<Rightarrow> (string \<times> json) list" where
  "answer_of d code result = [(''answers'', jget result ''answers''), (''model'', JStr (dc_model d)),
     (''route_reason'', JStr (dc_reason d)), (''lang'', JStr code), (''usage'', jget result ''usage'')]"

lemma serialized_run:
  assumes "serialized d code result s = (Inr ans, t)"
  shows "ans = answer_of d code result" "opened (ra_calls t) = opened (ra_calls s) @ [''serialize'']" "ra_router t = ra_router s"
  using assms
  by (auto simp: serialized_def answer_of_def jget_def spanned_def act_bind_def emit_def act_modify_def act_return_def act_raise_def
      split: option.splits)

lemma forwarded_run:
  assumes "forwarded la h d code state questions s = (Inr ans, t)" "ra_router s = Some r"
  obtains r' result where "la_load la (dc_model d) r = (Inr (), r')" "ra_router t = Some r'"
    "forward_pass la (dc_model d) state questions = Inr result" "ans = answer_of d code result"
    "opened (ra_calls t) = opened (ra_calls s) @ (if dc_model d \<in> set (la_loaded la r) then [] else [''model.load'']) @ [''forward'', ''serialize'']"
proof -
  obtain x u where u: "resident_agent la h (dc_model d) s = (Inr x, u)"
    using assms(1) unfolding forwarded_def by (auto elim: act_bind_InrE)
  obtain r' where r': "la_load la (dc_model d) r = (Inr (), r')" "ra_router u = Some r'"
    "opened (ra_calls u) = opened (ra_calls s) @ (if dc_model d \<in> set (la_loaded la r) then [] else [''model.load''])"
    by (rule resident_run[OF u assms(2)])
  obtain result where f: "forward_pass la (dc_model d) state questions = Inr result"
    using assms(1) r'(2) by (cases "forward_pass la (dc_model d) state questions")
      (auto simp: forwarded_def act_bind_def u read_clock_def on_router_def spanned_def emit_def act_modify_def act_lift_def)
  obtain v where v: "serialized d code result v = (Inr ans, t)" "opened (ra_calls v) = opened (ra_calls u) @ [''forward'']"
    "ra_router v = ra_router u"
    using assms(1) r'(2) f
    by (auto simp: forwarded_def act_bind_def u read_clock_def on_router_def spanned_def emit_def act_modify_def act_lift_def)
  show thesis by (rule that[OF r'(1) _ f]) (use serialized_run[OF v(1)] v r' in simp_all)
qed

lemma answered_run:
  assumes "answered la h d code state questions depth s = (Inr ans, t)" "ra_router s = Some r"
  obtains r' result where "la_load la (dc_model d) r = (Inr (), r')" "ra_router t = Some r'"
    "forward_pass la (dc_model d) state questions = Inr result" "ans = answer_of d code result"
    "opened (ra_calls t) = opened (ra_calls s) @ [''queue.wait''] @ (if dc_model d \<in> set (la_loaded la r) then [] else [''model.load''])
       @ [''forward'', ''serialize'']"
proof -
  obtain v w where v: "forwarded la h d code state questions v = (Inr ans, w)" "ra_router v = Some r"
    "opened (ra_calls v) = opened (ra_calls s) @ [''queue.wait'']" "ra_router t = ra_router w" "ra_calls t = ra_calls w"
    using assms by (auto simp: answered_def act_bind_def read_clock_def spanned_def emit_def act_modify_def locked_def act_finally_def
        split: prod.splits)
  obtain r' result where "la_load la (dc_model d) r = (Inr (), r')" "ra_router w = Some r'"
    "forward_pass la (dc_model d) state questions = Inr result" "ans = answer_of d code result"
    "opened (ra_calls w) = opened (ra_calls v) @ (if dc_model d \<in> set (la_loaded la r) then [] else [''model.load'']) @ [''forward'', ''serialize'']"
    by (rule forwarded_run[OF v(1,2)])
  then show thesis using v by (intro that) simp_all
qed

text \<open>C36: On a running engine an answered request is answered by the checkpoint the router named, in the
  pinned or the detected language, and reports its spans in the documented order: detection unless the
  language is pinned, routing unless the checkpoint is pinned, the wait, a load only when the checkpoint
  was not resident, the forward pass and the serialization.\<close>

theorem answered_predict_is_routed_and_reported:
  assumes "ra_router s = Some r" "real_predict la h state questions model task lang s = (Inr ans, s')"
  shows "\<exists>d result r'. la_route la r state questions model task lang = Inr d
    \<and> forward_pass la (dc_model d) state questions = Inr result
    \<and> ans = answer_of d (language_of la state lang (ra_english_only s)) result
    \<and> la_load la (dc_model d) r = (Inr (), r') \<and> ra_router s' = Some r'
    \<and> opened (ra_calls s') = opened (ra_calls s)
        @ (if lang = None \<or> ra_english_only s then [''lang.detect''] else []) @ (if model = None then [''route.decide''] else [])
        @ [''queue.wait''] @ (if dc_model d \<in> set (la_loaded la r) then [] else [''model.load'']) @ [''forward'', ''serialize'']"
proof -
  obtain k where k: "kick_worker h s = (Inr (), k)" "grown s k []" using kick_grown by blast
  have kr: "ra_router k = Some r" "ra_english_only k = ra_english_only s" using k(2) assms(1) by (auto simp: grown_def)
  have en: "ensure la h s = (Inr (), s)" by (simp add: ensure_def assms(1))
  obtain d code t where d: "decide la state questions model task lang k = (Inr (d, code), t)"
    using assms(2) by (auto simp: real_predict_def act_bind_def en k split: prod.splits sum.splits)
  note dr = decide_run[OF d kr(1)]
  let ?t = "t\<lparr>ra_inflight := ra_inflight t + 1\<rparr>"
  obtain u where u: "answered la h d code state questions (ra_inflight t) ?t = (Inr ans, u)" "ra_router s' = ra_router u" "ra_calls s' = ra_calls u"
    using assms(2) by (auto simp: real_predict_def act_bind_def en k d act_get_def act_modify_def act_finally_def split: prod.splits)
  have "ra_router ?t = Some r" using dr(3) kr(1) by (simp add: grown_def)
  from answered_run[OF u(1) this] obtain r' result where a: "la_load la (dc_model d) r = (Inr (), r')" "ra_router u = Some r'"
    "forward_pass la (dc_model d) state questions = Inr result" "ans = answer_of d code result"
    "opened (ra_calls u) = opened (ra_calls ?t) @ [''queue.wait''] @ (if dc_model d \<in> set (la_loaded la r) then [] else [''model.load''])
       @ [''forward'', ''serialize'']" by metis
  show ?thesis
    by (intro exI[of _ d] exI[of _ result] exI[of _ r'] conjI)
      (use a u dr k(2) kr in \<open>simp_all add: grown_def decide_spans_def detect_spans_def\<close>)
qed

section \<open>English-only deployments\<close>

text \<open>An english-only deployment runs no forward pass for another language or for the multilingual
  checkpoint, whatever the request pins: a state that does not detect as English is refused with its
  detection, a multilingual override without one, with only the detection reported and the engine as
  it was; and an answered request was detected as English.\<close>

theorem english_only_refuses_before_the_engine:
  assumes "ra_router s = Some r" "ra_english_only s" "la_analyse la state = Inr det"
  shows "(\<not> py_truthy (jget det ''is_english'') \<longrightarrow> fst (real_predict la h state questions model task lang s)
      = Inl (EnglishOnly ''english-only deployment: state did not detect as English''
          (Some (JObj (map (\<lambda>k. (k, jget det k)) [''script'', ''language'', ''non_latin_fraction'', ''diacritic_rate''])))))
    \<and> (py_truthy (jget det ''is_english'') \<and> model = Some m \<and> m \<noteq> [] \<and> la_normalise la m = Inr ''multilingual'' \<longrightarrow>
        fst (real_predict la h state questions model task lang s)
          = Inl (EnglishOnly ''english-only deployment: multilingual checkpoint not available'' None))
    \<and> (\<forall>e. refuse_when_english_only la det model True = Inl e \<longrightarrow>
        ra_router (snd (real_predict la h state questions model task lang s)) = Some r
        \<and> opened (ra_calls (snd (real_predict la h state questions model task lang s))) = opened (ra_calls s) @ [''lang.detect''])
    \<and> (\<forall>ans. fst (real_predict la h state questions model task lang s) = Inr ans \<longrightarrow> py_truthy (jget det ''is_english''))"
proof -
  obtain k where k: "kick_worker h s = (Inr (), k)" "grown s k []" using kick_grown by blast
  have kr: "ra_router k = Some r" "ra_english_only k" using k(2) assms(1,2) by (auto simp: grown_def)
  have en: "ensure la h s = (Inr (), s)" by (simp add: ensure_def assms(1))
  have det: "detect la state model lang k = analysed la state model k"
    using kr(2) by (simp add: detect_def act_bind_get split: option.split)
  obtain x t where x: "analysed la state model k = (x, t)" by (cases "analysed la state model k")
  have an: "x = (case refuse_when_english_only la det model True of Inl e \<Rightarrow> Inl e | Inr _ \<Rightarrow> Inr (lang_code det))" "grown k t [''lang.detect'']"
    using analysed_run[OF assms(3), where model = model and s = k] x kr(2) by simp_all
  have stop: "real_predict la h state questions model task lang s = (Inl e, t)" if "refuse_when_english_only la det model True = Inl e" for e
    using that an(1) by (simp add: real_predict_def act_bind_def en k(1) decide_def det x)
  have eff: "ra_router t = Some r" "opened (ra_calls t) = opened (ra_calls s) @ [''lang.detect'']"
    using an(2) k(2) kr(1) by (simp_all add: grown_def)
  have foreign: "refuse_when_english_only la det model True = Inl (EnglishOnly ''english-only deployment: state did not detect as English''
      (Some (JObj (map (\<lambda>k. (k, jget det k)) [''script'', ''language'', ''non_latin_fraction'', ''diacritic_rate'']))))"
    if "\<not> py_truthy (jget det ''is_english'')" using that by (simp add: refuse_when_english_only_def)
  show ?thesis
  proof (intro conjI impI allI)
    show "fst (real_predict la h state questions model task lang s)
        = Inl (EnglishOnly ''english-only deployment: multilingual checkpoint not available'' None)"
      if "py_truthy (jget det ''is_english'') \<and> model = Some m \<and> m \<noteq> [] \<and> la_normalise la m = Inr ''multilingual''"
      by (subst stop) (use that in \<open>simp_all add: refuse_when_english_only_def\<close>)
    show "py_truthy (jget det ''is_english'')" if "fst (real_predict la h state questions model task lang s) = Inr ans" for ans
      using that stop foreign by fastforce
  qed (use stop foreign eff in \<open>simp_all\<close>)
qed

section \<open>The interface of the handlers\<close>

lemma predict_answer:
  assumes "fst (real_predict la h state questions model task lang s) = Inr ans"
  shows "\<exists>d code result. ans = answer_of d code result"
proof -
  obtain s' where "real_predict la h state questions model task lang s = (Inr ans, s')" using assms by (metis prod.collapse)
  then obtain d code depth u v where "answered la h d code state questions depth u = (Inr ans, v)"
    by (auto simp: real_predict_def act_finally_def split: prod.splits elim!: act_bind_InrE)
  then obtain v' w where "forwarded la h d code state questions v' = (Inr ans, w)"
    by (auto simp: answered_def locked_def act_finally_def split: prod.splits elim!: act_bind_InrE)
  then obtain result and v' w :: "'a real_engine" where "serialized d code result v' = (Inr ans, w)"
    unfolding forwarded_def by (elim act_bind_InrE) blast
  then show ?thesis using serialized_run(1) by blast
qed

lemma route_answer:
  assumes "fst (real_route la h state questions s) = Inr ans"
  shows "\<exists>(d :: decision) code. ans = [(''model'', JStr (dc_model d)), (''reason'', JStr (dc_reason d)), (''lang'', JStr code)]"
proof -
  obtain s' where "real_route la h state questions s = (Inr ans, s')" using assms by (metis prod.collapse)
  then show ?thesis unfolding real_route_def by (elim act_bind_InrE) (auto simp: act_return_def split: prod.splits)
qed

interpretation real_calls: engine_adapter "real_adapter la h" for la h
proof
  show "\<exists>a b c. jget res ''model'' = JStr a \<and> jget res ''route_reason'' = JStr b \<and> jget res ''lang'' = JStr c"
    if "fst (ad_predict (real_adapter la h) st qs m t l e) = Inr res" for st qs m t l e res
    using predict_answer[of la h st qs m t l e res] that by (auto simp: real_adapter_def answer_of_def jget_def)
  show "\<exists>a b c. jget res ''model'' = JStr a \<and> jget res ''reason'' = JStr b \<and> jget res ''lang'' = JStr c"
    if "fst (ad_route (real_adapter la h) st qs e) = Inr res" for st qs e res
    using route_answer[of la h st qs e res] that by (auto simp: real_adapter_def jget_def)
qed

section \<open>Witnesses\<close>

text \<open>A small library: two checkpoints, text states that start with \<open>e\<close> are English.\<close>

definition demo_laya :: "string list laya" where
  "demo_laya = \<lparr>la_new = (\<lambda>_. Inr []), la_catalog = (\<lambda>_. [(''english'', [''o/e'']), (''multilingual'', [''o/m''])]),
     la_drop = (\<lambda>_ r. r), la_loaded = (\<lambda>r. r), la_cap = (\<lambda>_. 8), la_set_cap = (\<lambda>_ r. r),
     la_preload = (\<lambda>ns r. (Inr (), r @ filter (\<lambda>n. n \<notin> set r) ns)),
     la_load = (\<lambda>n r. (Inr (), if n \<in> set r then r else r @ [n])), la_unload = (\<lambda>n r. (Inr (), filter (\<lambda>m. m \<noteq> n) r)),
     la_device = (\<lambda>_. None), la_normalise = Inr,
     la_analyse = (\<lambda>st. Inr [(''is_english'', JBool (st = JStr ''e''))]),
     la_route = (\<lambda>_ _ _ m _ _. Inr \<lparr>dc_model = (case m of None \<Rightarrow> ''english'' | Some n \<Rightarrow> n), dc_reason = ''r'', dc_workflow = False\<rparr>),
     la_answer = (\<lambda>_ _ _. Inr [(''answers'', JObj [])])\<rparr>"

definition demo_host :: host where
  "demo_host = \<lparr>ho_meminfo = None, ho_loadavg = Some ''0.1'', ho_cores = 4, ho_env = [], ho_walk = (\<lambda>_. []),
     ho_float = (\<lambda>_. Some 0), ho_clock = of_nat\<rparr>"

definition demo_real :: "bool \<Rightarrow> string list real_engine" where
  "demo_real only = (new_real demo_host True None (Some [''english'', ''multilingual'']) (Some only))\<lparr>ra_router := Some [''english'']\<rparr>"

lemma demo_real_simps [simp]:
  "ra_router (demo_real b) = Some [''english'']" "ra_english_only (demo_real b) = b" "\<not> ra_locked (demo_real b)"
  "ra_calls (demo_real b) = []" "ra_inflight (demo_real b) = 0" "ra_queue (demo_real b) = []"
  by (simp_all add: demo_real_def new_real_def)

theorem predict_leaves_the_engine_free_witness:
  "\<not> ra_locked (snd (real_predict demo_laya demo_host (JStr ''e'') [] None None None (demo_real False)))
   \<and> ra_inflight (snd (real_predict demo_laya demo_host (JStr ''e'') [] None None None (demo_real False))) = 0"
  using predict_leaves_the_engine_free[of "demo_real False" demo_laya demo_host "JStr ''e''" "[]" None None None] by (simp add: Let_def)

lemma demo_predict: "\<exists>ans s'. real_predict demo_laya demo_host (JStr ''e'') [] None None None (demo_real False) = (Inr ans, s')"
  by (simp add: real_predict_def ensure_def act_bind_def kick_worker_def decide_def detect_def analysed_def routed_def act_simps
      spanned_def emit_def on_router_def refuse_when_english_only_def ignore_result_def demo_laya_def act_finally_def answered_def
      read_clock_def locked_def forwarded_def resident_agent_def forward_pass_def serialized_def)

theorem answered_predict_is_routed_and_reported_witness:
  "\<exists>s'. opened (ra_calls s') = [''lang.detect'', ''route.decide'', ''queue.wait'', ''forward'', ''serialize'']
    \<and> snd (real_predict demo_laya demo_host (JStr ''e'') [] None None None (demo_real False)) = s'"
proof -
  obtain ans s' where p: "real_predict demo_laya demo_host (JStr ''e'') [] None None None (demo_real False) = (Inr ans, s')"
    using demo_predict by blast
  obtain d where "la_route demo_laya [''english''] (JStr ''e'') [] None None None = Inr d"
    "opened (ra_calls s') = [''lang.detect'', ''route.decide'', ''queue.wait''] @ (if dc_model d \<in> set (la_loaded demo_laya [''english'']) then [] else [''model.load''])
      @ [''forward'', ''serialize'']"
    using answered_predict_is_routed_and_reported[OF demo_real_simps(1) p] by auto
  then show ?thesis using p by (auto simp: demo_laya_def)
qed

theorem english_only_refuses_before_the_engine_witness:
  "fst (real_predict demo_laya demo_host (JStr ''x'') [] None None (Some ''en'') (demo_real True))
     = Inl (EnglishOnly ''english-only deployment: state did not detect as English''
          (Some (JObj [(''script'', JNull), (''language'', JNull), (''non_latin_fraction'', JNull), (''diacritic_rate'', JNull)])))
   \<and> fst (real_predict demo_laya demo_host (JStr ''e'') [] (Some ''multilingual'') None None (demo_real True))
     = Inl (EnglishOnly ''english-only deployment: multilingual checkpoint not available'' None)"
proof -
  have a: "la_analyse demo_laya (JStr ''x'') = Inr [(''is_english'', JBool False)]" "la_analyse demo_laya (JStr ''e'') = Inr [(''is_english'', JBool True)]"
    by (simp_all add: demo_laya_def)
  have n: "la_normalise demo_laya ''multilingual'' = Inr ''multilingual''" by (simp add: demo_laya_def)
  show ?thesis
    using english_only_refuses_before_the_engine[of "demo_real True" "[''english'']" demo_laya "JStr ''x''" _ demo_host "[]" None None "Some ''en''" "[]"]
      english_only_refuses_before_the_engine[of "demo_real True" "[''english'']" demo_laya "JStr ''e''" _ demo_host "[]" "Some ''multilingual''" None None "''multilingual''"]
    by (simp add: a n jget_def)
qed

end
