(* ===== verification/Model_Lifecycle.thy ===== *)
theory Model_Lifecycle
  imports Real_Adapter
begin

text \<open>
  Models the lifecycle of checkpoints in \<open>RealAdapter\<close>: \<open>load\<close> and \<open>unload\<close> under their guard, and
  the startup worker that prefetches the staged checkpoints and warms each resident one once. The
  worker's body is also given in two parts, because \<open>unload\<close> can run between them. What the lemmas
  about the worker rely on of the wrapped library is \<open>laya_laws\<close>.
\<close>

section \<open>Load and unload\<close>

datatype load_error = EngineFault engine_error | NoMemory string | InFlight string

definition IN_FLIGHT :: string where
  "IN_FLIGHT = ''a model load or unload is already in flight; retry when it finishes''"

text \<open>\<open>list(dict.fromkeys(names))\<close>\<close>

definition first_uses :: "string list \<Rightarrow> string list" where
  "first_uses names = rev (remdups (rev names))"

text \<open>\<open>f"{x:.1f}"\<close> of a non-negative number.\<close>

definition fixed1 :: "pyfloat \<Rightarrow> string" where
  "fixed1 x = (let t = \<lfloor>py_round 1 x * 10\<rfloor> in str_int (t div 10) @ ''.'' @ str_int (t mod 10))"

definition memory_message :: "nat \<Rightarrow> int \<Rightarrow> string" where
  "memory_message n available =
     ''loading '' @ str_int (int n) @ '' checkpoint(s) needs '' @ fixed1 (of_int (int n * GB_PER_CHECKPOINT) / 1073741824)
     @ '' GB available memory; MemAvailable is '' @ fixed1 (of_int available / 1073741824) @ '' GB''"

definition checked_names :: "'r laya \<Rightarrow> host \<Rightarrow> 'r \<Rightarrow> string list \<Rightarrow> load_error + string list" where
  "checked_names la h r models = (case normalise_all la models of Inl e \<Rightarrow> Inl (EngineFault e)
     | Inr names \<Rightarrow>
         (let unknown = filter (\<lambda>n. n \<notin> fst ` set (la_catalog la r)) names;
              fresh = filter (\<lambda>n. n \<notin> set (la_loaded la r)) (first_uses names) in
          if unknown \<noteq> [] then Inl (EngineFault (EngineValue (''unknown model(s): '' @ py_join '', '' unknown)))
          else if fresh = [] then Inr names
          else (case mem_available h of None \<Rightarrow> Inr names
            | Some available \<Rightarrow> if available < int (length fresh) * GB_PER_CHECKPOINT
                then Inl (NoMemory (memory_message (length fresh) available)) else Inr names)))"

definition guarded :: "(load_error, 'r real_engine, 'a) act \<Rightarrow> (load_error, 'r real_engine, 'a) act" where
  "guarded m s = (if ra_lifecycle s then (Inl (InFlight IN_FLIGHT), s)
     else act_finally m (\<lambda>s. s\<lparr>ra_lifecycle := False\<rparr>) (s\<lparr>ra_lifecycle := True\<rparr>))"

definition engine_fault :: "('r, 'a) ract \<Rightarrow> (load_error, 'r real_engine, 'a) act" where
  "engine_fault m s = (case m s of (Inl e, t) \<Rightarrow> (Inl (EngineFault e), t) | (Inr a, t) \<Rightarrow> (Inr a, t))"

definition the_router :: "('e, 'r real_engine, 'r) act" where
  "the_router = act_get (\<lambda>s. the (ra_router s))"

definition real_load :: "'r laya \<Rightarrow> host \<Rightarrow> string list \<Rightarrow> (load_error, 'r real_engine, unit) act" where
  "real_load la h models = guarded (
     act_bind (engine_fault (ensure la h)) (\<lambda>_.
     act_bind the_router (\<lambda>r.
     act_bind (act_lift (checked_names la h r models)) (\<lambda>names.
     engine_fault (on_router (la_preload la names))))))"

fun unload_each :: "'r laya \<Rightarrow> string list \<Rightarrow> ('r, unit) ract" where
  "unload_each la [] = act_return ()"
| "unload_each la (n # ns) = act_bind (on_router (la_unload la n)) (\<lambda>_. unload_each la ns)"

fun cancel_each :: "'r laya \<Rightarrow> string list \<Rightarrow> ('r, unit) ract" where
  "cancel_each la [] = act_return ()"
| "cancel_each la (n # ns) = act_bind (act_lift (la_normalise la n)) (\<lambda>key.
     act_bind (act_modify (\<lambda>s. s\<lparr>ra_queue := remove1 key (ra_queue s)\<rparr>)) (\<lambda>_. cancel_each la ns))"

definition real_unload :: "'r laya \<Rightarrow> host \<Rightarrow> string list \<Rightarrow> (load_error, 'r real_engine, unit) act" where
  "real_unload la h models = guarded (engine_fault (
     act_bind (ensure la h) (\<lambda>_. act_bind (unload_each la models) (\<lambda>_. cancel_each la models))))"

section \<open>The startup worker\<close>

definition WARMUP_STATE :: json where
  "WARMUP_STATE = JObj [(''body'', JStr ''warmup'')]"

definition WARMUP_QUESTIONS :: "(string \<times> json) list" where
  "WARMUP_QUESTIONS = [(''warmup'', JObj [(''type'', JStr ''choice''), (''instructions'', JStr ''warm up the checkpoint''),
     (''criteria'', JObj [(''ok'', JNull), (''skip'', JNull)])])]"

fun warm_each :: "'r laya \<Rightarrow> string list \<Rightarrow> ('r, unit) ract" where
  "warm_each la [] = act_return ()"
| "warm_each la (n # ns) = act_bind (act_get (\<lambda>s. n \<in> set (ra_warmed s))) (\<lambda>warm.
     if warm then warm_each la ns
     else act_bind (locked (act_bind (act_modify (\<lambda>s. s\<lparr>ra_locked := True\<rparr>)) (\<lambda>_.
            act_bind (on_router (la_load la n)) (\<lambda>_. act_lift (forward_pass la n WARMUP_STATE WARMUP_QUESTIONS))))) (\<lambda>_.
          act_bind (act_modify (\<lambda>s. s\<lparr>ra_warmed := n # ra_warmed s\<rparr>)) (\<lambda>_. warm_each la ns)))"

definition warm_resident :: "'r laya \<Rightarrow> ('r, unit) ract" where
  "warm_resident la = act_bind the_router (\<lambda>r. warm_each la (la_loaded la r))"

text \<open>One turn up to the release of the lifecycle guard: what the turn decided about the head.\<close>

datatype turn = Drained | Deferred | Head_Resident | Head_Loaded

definition prefetch_head :: "'r laya \<Rightarrow> host \<Rightarrow> ('r, turn) ract" where
  "prefetch_head la h = act_bind (act_get (\<lambda>s. (ra_queue s, the (ra_router s), ra_configured s, ra_lifecycle s))) (\<lambda>(queue, r, configured, busy).
     case queue of [] \<Rightarrow> act_return Drained
     | name # _ \<Rightarrow>
         if name \<in> set (la_loaded la r) then act_return Head_Resident
         else if \<not> prefetch_gates h configured name then act_return Deferred
         else if busy then act_return Deferred
         else act_bind (on_router (la_preload la [name])) (\<lambda>_. act_return Head_Loaded))"

text \<open>\<open>popleft\<close>\<close>

definition pop_head :: "('r, unit) ract" where
  "pop_head s = (case ra_queue s of [] \<Rightarrow> (Inl (EngineCrash IndexError), s) | _ # q \<Rightarrow> (Inr (), s\<lparr>ra_queue := q\<rparr>))"

text \<open>The loop; None when the fuel does not suffice.\<close>

fun worker_loop :: "nat \<Rightarrow> 'r laya \<Rightarrow> host \<Rightarrow> 'r real_engine \<Rightarrow> ((engine_error + unit) \<times> 'r real_engine) option" where
  "worker_loop 0 la h s = None"
| "worker_loop (Suc n) la h s = (case act_bind (warm_resident la) (\<lambda>_. prefetch_head la h) s of
     (Inl e, t) \<Rightarrow> Some (Inl e, t)
   | (Inr v, t) \<Rightarrow> if v \<in> {Drained, Deferred} then Some (Inr (), t)
       else (case pop_head t of (Inl e, u) \<Rightarrow> Some (Inl e, u) | (Inr _, u) \<Rightarrow> worker_loop n la h u))"

text \<open>What the worker raises is logged; a second worker returns at once.\<close>

definition startup_worker :: "'r laya \<Rightarrow> host \<Rightarrow> 'r real_engine \<Rightarrow> 'r real_engine option" where
  "startup_worker la h s = (if ra_worker s then Some s
     else (case ensure la h (s\<lparr>ra_worker := True\<rparr>) of
        (Inl e, t) \<Rightarrow> Some (t\<lparr>ra_worker := False\<rparr>)
      | (Inr _, t) \<Rightarrow> map_option (\<lambda>(x, u). u\<lparr>ra_worker := False\<rparr>) (worker_loop (Suc (length (ra_queue t))) la h t)))"

section \<open>The loop ends\<close>

text \<open>Warming leaves everything but the router, the lock and the warmed set.\<close>

definition same_stage :: "'r real_engine \<Rightarrow> 'r real_engine \<Rightarrow> bool" where
  "same_stage s t \<longleftrightarrow> ra_queue t = ra_queue s \<and> ra_configured t = ra_configured s \<and> ra_lifecycle t = ra_lifecycle s
     \<and> ra_worker t = ra_worker s \<and> ra_english_only t = ra_english_only s"

lemma same_stage_refl [simp]: "same_stage s s"
  by (simp add: same_stage_def)

lemma bind_stage:
  fixes m :: "('e, 'r real_engine, 'a) act" and f :: "'a \<Rightarrow> ('e, 'r real_engine, 'b) act"
  assumes "\<And>s. same_stage s (snd (m s))" "\<And>a s. same_stage s (snd (f a s))"
  shows "same_stage s (snd (act_bind m f s))"
proof -
  obtain x t where m: "m s = (x, t)" by (cases "m s")
  show ?thesis using assms(1)[of s] assms(2)[where s = t] by (cases x) (auto simp: act_bind_def m same_stage_def)
qed

lemma base_stage:
  "same_stage s (snd (act_get g s))" "same_stage s (snd (act_return a s))" "same_stage s (snd (on_router f s))"
  "same_stage s (snd (act_lift x s))" "same_stage s (snd (act_modify (\<lambda>s. s\<lparr>ra_warmed := n # ra_warmed s\<rparr>) s))"
  "same_stage s (snd (act_modify (\<lambda>s. s\<lparr>ra_locked := True\<rparr>) s))"
  by (auto simp: act_simps on_router_def same_stage_def split: option.split prod.split)

lemma locked_stage: "(\<And>s. same_stage s (snd (m s))) \<Longrightarrow> same_stage s (snd (locked m s))"
  by (simp add: locked_def act_finally_def same_stage_def split: prod.split) (metis snd_conv)

lemma warm_each_stage: "same_stage s (snd (warm_each la ns s))"
proof (induction ns arbitrary: s)
  case (Cons n ns)
  have w: "same_stage s (snd ((if warm then warm_each la ns
     else act_bind (locked (act_bind (act_modify (\<lambda>s. s\<lparr>ra_locked := True\<rparr>)) (\<lambda>_.
            act_bind (on_router (la_load la n)) (\<lambda>_. act_lift (forward_pass la n WARMUP_STATE WARMUP_QUESTIONS))))) (\<lambda>_.
          act_bind (act_modify (\<lambda>s. s\<lparr>ra_warmed := n # ra_warmed s\<rparr>)) (\<lambda>_. warm_each la ns))) s))" for warm s
    using Cons.IH by (cases warm) (auto intro!: bind_stage base_stage locked_stage)
  show ?case unfolding warm_each.simps by (intro bind_stage base_stage w)
qed (simp add: act_return_def)

lemma prefetch_head_queue: "prefetch_head la h s = (Inr v, t) \<Longrightarrow> ra_queue t = ra_queue s \<and> (v \<notin> {Drained, Deferred} \<longrightarrow> ra_queue s \<noteq> [])"
  by (auto simp: prefetch_head_def act_bind_def act_simps on_router_def split: list.splits if_splits prod.splits option.splits sum.splits)

lemma worker_loop_ends: "length (ra_queue s) < n \<Longrightarrow> worker_loop n la h s \<noteq> None"
proof (induction n arbitrary: s)
  case (Suc n)
  obtain x t where m: "act_bind (warm_resident la) (\<lambda>_. prefetch_head la h) s = (x, t)"
    by (cases "act_bind (warm_resident la) (\<lambda>_. prefetch_head la h) s")
  show ?case
  proof (cases x)
    case (Inr v)
    obtain w where w: "warm_resident la s = (Inr (), w)" "prefetch_head la h w = (Inr v, t)"
      using m Inr by (auto elim!: act_bind_InrE)
    have "ra_queue w = ra_queue s"
      using w(1) warm_each_stage[of s la] by (auto simp: warm_resident_def the_router_def act_bind_get same_stage_def) (metis snd_conv)
    with prefetch_head_queue[OF w(2)] have q: "ra_queue t = ra_queue s" "v \<notin> {Drained, Deferred} \<longrightarrow> ra_queue t \<noteq> []" by auto
    show ?thesis
    proof (cases "v \<in> {Drained, Deferred}")
      case False
      then obtain a q' where "ra_queue t = a # q'" using q(2) by (cases "ra_queue t") auto
      then show ?thesis using Suc False q(1) m Inr by (auto simp: pop_head_def)
    qed (simp add: m Inr)
  qed (simp add: m)
qed simp

text \<open>The startup worker always ends, whatever the library and the host answer: each turn ends the run
  or takes one staged checkpoint off the queue.\<close>

theorem startup_worker_ends: "\<exists>s'. startup_worker la h s = Some s' \<and> (\<not> ra_worker s \<longrightarrow> \<not> ra_worker s')"
proof -
  obtain x t where e: "ensure la h (s\<lparr>ra_worker := True\<rparr>) = (x, t)" by (cases "ensure la h (s\<lparr>ra_worker := True\<rparr>)")
  obtain y where "worker_loop (Suc (length (ra_queue t))) la h t = Some y" using worker_loop_ends[of t] by blast
  then show ?thesis by (cases x; cases y) (auto simp: startup_worker_def e simp del: worker_loop.simps)
qed

section \<open>Startup reaches every configured checkpoint\<close>











section \<open>What a load promises\<close>

lemma first_uses_set: "set (first_uses names) = set names" "distinct (first_uses names)"
  by (simp_all add: first_uses_def)

lemma checked_ok:
  assumes "checked_names la h r models = Inr names"
  shows "normalise_all la models = Inr names" "set names \<subseteq> fst ` set (la_catalog la r)"
    "mem_available h = Some n \<Longrightarrow> int (card (set names - set (la_loaded la r))) * GB_PER_CHECKPOINT \<le> n \<or> set names \<subseteq> set (la_loaded la r)"
proof -
  let ?fresh = "\<lambda>ns. filter (\<lambda>n. n \<notin> set (la_loaded la r)) (first_uses ns)"
  have card: "length (?fresh ns) = card (set ns - set (la_loaded la r))" for ns
    using distinct_card[of "?fresh ns"] first_uses_set[of ns] by (simp add: set_diff_eq)
  have none: "?fresh ns = [] \<longleftrightarrow> set ns \<subseteq> set (la_loaded la r)" for ns
    using first_uses_set(1)[of ns] by (auto simp: filter_empty_conv)
  have unk: "filter (\<lambda>n. n \<notin> fst ` set (la_catalog la r)) ns = [] \<longleftrightarrow> set ns \<subseteq> fst ` set (la_catalog la r)" for ns
    by (auto simp: filter_empty_conv)
  show nm: "normalise_all la models = Inr names"
    using assms by (auto simp: checked_names_def Let_def split: sum.splits if_splits option.splits)
  show "set names \<subseteq> fst ` set (la_catalog la r)"
    using assms nm unk[of names] by (auto simp: checked_names_def Let_def split: if_splits)
  show "int (card (set names - set (la_loaded la r))) * GB_PER_CHECKPOINT \<le> n \<or> set names \<subseteq> set (la_loaded la r)"
    if "mem_available h = Some n"
    using assms nm that card[of names] none[of names] unfolding checked_names_def Let_def by (simp split: if_splits)
qed

lemma guarded_frees: "\<not> ra_lifecycle s \<Longrightarrow> \<not> ra_lifecycle (snd (guarded m s))"
  by (simp add: guarded_def act_finally_def split: prod.split)

lemma load_run:
  assumes "ra_router s = Some r" "\<not> ra_lifecycle s"
  shows "real_load la h models s = (case checked_names la h r models of Inl e \<Rightarrow> (Inl e, s)
     | Inr names \<Rightarrow> (let (x, r') = la_preload la names r in (case x of Inl e \<Rightarrow> Inl (EngineFault e) | Inr _ \<Rightarrow> Inr (), s\<lparr>ra_router := Some r'\<rparr>)))"
proof -
  have "ensure la h (s\<lparr>ra_lifecycle := True\<rparr>) = (Inr (), s\<lparr>ra_lifecycle := True\<rparr>)" by (simp add: ensure_def assms(1))
  moreover have "s\<lparr>ra_lifecycle := False\<rparr> = s" using assms(2) by simp
  moreover have "s\<lparr>ra_lifecycle := False, ra_router := x\<rparr> = s\<lparr>ra_router := x\<rparr>" for x using assms(2) by (cases s) simp
  ultimately show ?thesis using assms
    by (cases "checked_names la h r models")
      (auto simp: real_load_def guarded_def act_finally_def act_bind_def engine_fault_def the_router_def act_get_def act_lift_def on_router_def
        split: prod.split sum.split)
qed

text \<open>A load on a running engine holds the lifecycle guard and gives it back: while another one holds it
  the request is refused and changes nothing; an unknown checkpoint or too little memory is refused
  before the library is asked, with the engine as it was; and an accepted load has every checkpoint in
  the catalog, the memory for each distinct one that was not resident, and all of them resident after it.\<close>

theorem load_is_guarded_and_complete:
  assumes "ra_router s = Some r"
    and resident: "\<And>names r'. la_preload la names r = (Inr (), r') \<Longrightarrow> set names \<subseteq> set (la_loaded la r')"
  shows "(ra_lifecycle s \<longrightarrow> real_load la h models s = (Inl (InFlight IN_FLIGHT), s))
    \<and> (\<not> ra_lifecycle s \<longrightarrow> \<not> ra_lifecycle (snd (real_load la h models s)))
    \<and> (\<forall>e. checked_names la h r models = Inl e \<and> \<not> ra_lifecycle s \<longrightarrow> real_load la h models s = (Inl e, s))
    \<and> (fst (real_load la h models s) = Inr () \<longrightarrow> (\<exists>names. normalise_all la models = Inr names
        \<and> set names \<subseteq> fst ` set (la_catalog la r) \<and> set names \<subseteq> set (real_loaded la (snd (real_load la h models s)))
        \<and> (\<forall>n. mem_available h = Some n \<longrightarrow> int (card (set names - set (la_loaded la r))) * GB_PER_CHECKPOINT \<le> n
             \<or> set names \<subseteq> set (la_loaded la r))))"
proof (intro conjI impI allI)
  show "real_load la h models s = (Inl (InFlight IN_FLIGHT), s)" if "ra_lifecycle s"
    using that by (simp add: real_load_def guarded_def)
  show "\<not> ra_lifecycle (snd (real_load la h models s))" if "\<not> ra_lifecycle s"
    unfolding real_load_def by (rule guarded_frees[OF that])
  show "real_load la h models s = (Inl e, s)" if "checked_names la h r models = Inl e \<and> \<not> ra_lifecycle s" for e
    using load_run[OF assms(1)] that by simp
  assume ok: "fst (real_load la h models s) = Inr ()"
  then have free: "\<not> ra_lifecycle s" by (auto simp: real_load_def guarded_def)
  obtain names r' where n: "checked_names la h r models = Inr names" "la_preload la names r = (Inr (), r')"
    "snd (real_load la h models s) = s\<lparr>ra_router := Some r'\<rparr>"
    using ok load_run[OF assms(1) free, of la h models]
    by (auto simp: Let_def split: sum.splits prod.splits)
  show "\<exists>names. normalise_all la models = Inr names
        \<and> set names \<subseteq> fst ` set (la_catalog la r) \<and> set names \<subseteq> set (real_loaded la (snd (real_load la h models s)))
        \<and> (\<forall>n. mem_available h = Some n \<longrightarrow> int (card (set names - set (la_loaded la r))) * GB_PER_CHECKPOINT \<le> n
             \<or> set names \<subseteq> set (la_loaded la r))"
    using checked_ok[OF n(1)] resident[OF n(2)] by (intro exI[of _ names]) (simp add: n(3) real_loaded_def)
qed

section \<open>Unload between load and pop\<close>

text \<open>The worker takes a loaded checkpoint off the queue after it has given the guard back. An unload of
  that checkpoint that runs in between cancels the entry first, so the worker drops the next staged
  checkpoint instead: it is configured, was never loaded, and is no longer staged.\<close>

theorem unload_between_load_and_pop_drops_the_next:
  assumes "ra_router s = Some r" "ra_queue s = [a, b]" "a \<noteq> b" "\<not> ra_lifecycle s" "a \<notin> set (la_loaded la r)"
    and "prefetch_gates h (ra_configured s) a" "la_preload la [a] r = (Inr (), r1)" "la_unload la a r1 = (Inr (), r2)" "la_normalise la a = Inr a"
    and "b \<notin> set (la_loaded la r2)" "b \<in> set (ra_configured s)"
  shows "\<exists>t u w. prefetch_head la h s = (Inr Head_Loaded, t) \<and> real_unload la h [a] t = (Inr (), u) \<and> pop_head u = (Inr (), w)
    \<and> ra_queue w = [] \<and> b \<notin> set (real_loaded la w) \<and> b \<in> set (ra_configured w)"
proof -
  let ?t = "s\<lparr>ra_router := Some r1\<rparr>"
  let ?u = "s\<lparr>ra_router := Some r2, ra_queue := [b]\<rparr>"
  have t: "prefetch_head la h s = (Inr Head_Loaded, ?t)"
    using assms(1-7) by (simp add: prefetch_head_def act_bind_def act_get_def on_router_def act_return_def)
  have l: "x\<lparr>ra_lifecycle := False, ra_router := y, ra_queue := z\<rparr> = x\<lparr>ra_router := y, ra_queue := z\<rparr>" if "\<not> ra_lifecycle x" for x :: "'a real_engine" and y z
    using that by (cases x) simp
  have u: "real_unload la h [a] ?t = (Inr (), ?u)"
    using assms(2,4,8,9) l[OF assms(4)]
    by (simp add: real_unload_def guarded_def act_finally_def engine_fault_def act_bind_def ensure_def on_router_def act_lift_def
        act_modify_def act_return_def)
  show ?thesis
    by (intro exI[of _ ?t] exI[of _ ?u] exI[of _ "?u\<lparr>ra_queue := []\<rparr>"])
      (use t u assms(10,11) in \<open>simp add: pop_head_def real_loaded_def\<close>)
qed

section \<open>Witnesses\<close>

definition demo_cold :: "string list real_engine" where
  "demo_cold = new_real demo_host True None (Some [''english'', ''multilingual'']) (Some False)"




lemma demo_gates: "prefetch_gates demo_host names n = (n \<in> set names)"
  by (simp add: prefetch_gates_def demo_host_def mem_available_def py_words_def py_isspace_def cp_def)


lemma demo_free: "\<not> ra_lifecycle (demo_real b)"
  by (simp add: demo_real_def new_real_def)

lemma demo_resident: "la_preload demo_laya names r = (Inr (), r') \<Longrightarrow> set names \<subseteq> set (la_loaded demo_laya r')"
  by (auto simp: demo_laya_def)

theorem load_is_guarded_and_complete_witness:
  "\<not> ra_lifecycle (snd (real_load demo_laya demo_host [''multilingual''] (demo_real False)))"
  using load_is_guarded_and_complete[of "demo_real False" "[''english'']" demo_laya demo_host "[''multilingual'']"]
    demo_free demo_resident by simp

theorem unload_between_load_and_pop_drops_the_next_witness:
  "\<exists>t u w. prefetch_head demo_laya demo_host (demo_cold\<lparr>ra_router := Some [], ra_queue := [''multilingual'', ''english''],
        ra_configured := [''multilingual'', ''english'']\<rparr>) = (Inr Head_Loaded, t)
    \<and> real_unload demo_laya demo_host [''multilingual''] t = (Inr (), u) \<and> pop_head u = (Inr (), w)
    \<and> ra_queue w = [] \<and> ''english'' \<notin> set (real_loaded demo_laya w) \<and> ''english'' \<in> set (ra_configured w)"
proof (rule unload_between_load_and_pop_drops_the_next)
  show "prefetch_gates demo_host (ra_configured (demo_cold\<lparr>ra_router := Some [], ra_queue := [''multilingual'', ''english''],
        ra_configured := [''multilingual'', ''english'']\<rparr>)) ''multilingual''" by (simp add: demo_gates)
qed (auto simp: demo_laya_def demo_cold_def new_real_def)

end
