(* ===== verification/Metrics.thy ===== *)
theory Metrics
  imports Query_Params Writer
begin

text \<open>
  Models the metrics half of \<open>layawatch/store/queries.py\<close>: the chart series and the model mix read
  from \<open>metric_rollup\<close>, the KPI strip read from \<open>traces\<close>. The bucket loop keeps its size valve,
  which is also what ends it. A row set is read in the table's order.
\<close>

definition METRICS_NOTE :: string where
  "METRICS_NOTE = ''percentiles are bucket-level''"

definition MAX_BUCKETS :: nat where
  "MAX_BUCKETS = 100000"

section \<open>Buckets\<close>

function bucket_loop :: "pyfloat \<Rightarrow> int \<Rightarrow> int \<Rightarrow> int list \<Rightarrow> int list option" where
  "bucket_loop until step bucket acc =
     (if of_int bucket < until
      then (if MAX_BUCKETS < length (acc @ [bucket]) then None
            else bucket_loop until step (bucket + step) (acc @ [bucket]))
      else Some acc)"
  by pat_completeness auto
termination by (relation "measure (\<lambda>(_, _, _, acc). Suc MAX_BUCKETS - length acc)") auto

declare bucket_loop.simps [simp del]

section \<open>Series\<close>

datatype point = Percentiles pyfloat pyfloat pyfloat pyfloat | Counted int | Level pyfloat

definition bucket_point :: "string \<Rightarrow> stats list \<Rightarrow> int \<Rightarrow> point" where
  "bucket_point metric rows step =
     (if rows = [] then
        (if metric = ''latency'' then Percentiles 0 0 0 0 else if metric = ''errors'' then Counted 0 else Level 0)
      else if metric \<in> set COUNTER_METRICS then
        (let count = sum_list (map sx_count rows) in
         if metric = ''requests'' then Level (of_int count / of_int step) else Counted count)
      else if metric = ''queue'' then
        (let count = sum_list (map sx_count rows); total = sum_list (map sx_sum rows) in
         Level (if count \<noteq> 0 then total / of_int count else 0))
      else
        (let stats = map stats_of rows;
             merged = (case stats of [s] \<Rightarrow> s | _ \<Rightarrow> merge_rows stats)
         in Percentiles (stat_p (sx_p50 merged)) (stat_p (sx_p90 merged)) (stat_p (sx_p95 merged)) (stat_p (sx_p99 merged))))"

definition truthy_text :: "string option \<Rightarrow> string option" where
  "truthy_text v = (if v = Some [] then None else v)"

text \<open>The WHERE clause of the series: the dimensions bind every metric but \<open>errors\<close>.\<close>

definition series_row :: "string list \<Rightarrow> int \<Rightarrow> int \<Rightarrow> pyfloat \<Rightarrow> string option \<Rightarrow> string option \<Rightarrow> rollup_key \<Rightarrow> bool" where
  "series_row names step start until model route k \<longleftrightarrow>
     rk_step k = step \<and> rk_metric k \<in> set names \<and> start \<le> rk_bucket k \<and> of_int (rk_bucket k) < until
   \<and> (rk_metric k = ''errors'' \<or>
      (case truthy_text model of None \<Rightarrow> True | Some m \<Rightarrow> rk_model k = m) \<and>
      (case truthy_text route of None \<Rightarrow> True | Some r \<Rightarrow> rk_route k = r))"

text \<open>\<open>by_key.get((point, name), ())\<close>\<close>

definition rows_at :: "(rollup_key \<times> stats) list \<Rightarrow> int \<Rightarrow> string \<Rightarrow> stats list" where
  "rows_at rows b name = map snd (filter (\<lambda>(k, _). rk_bucket k = b \<and> rk_metric k = name) rows)"

record series_answer =
  sa_step :: int
  sa_since :: pyfloat
  sa_until :: pyfloat
  sa_series :: "(string \<times> (int \<times> point) list) list"

text \<open>A bucket bound beyond 64 bits cannot be bound to the statement.\<close>

definition metrics_series :: "db \<Rightarrow> string list \<Rightarrow> pyfloat \<Rightarrow> pyfloat \<Rightarrow> int \<Rightarrow> string option \<Rightarrow> string option \<Rightarrow> series_answer query" where
  "metrics_series d metrics since until step model route =
     res_bind (validate_metrics metrics) (\<lambda>names.
     if step \<notin> set ROLLUP_STEPS then invalid ''step must be one of 10, 60, 3600''
     else if until \<le> since then invalid ''since must be before until''
     else
       let start = bucket_of since step in
       if \<not> sqlite_int start then Inl (Escapes OverflowError)
       else
         let rows = filter (\<lambda>(k, _). series_row names step start until model route k) (db_rollups d) in
         (case bucket_loop until step start [] of
            None \<Rightarrow> invalid ''step is too small for the requested window''
          | Some buckets \<Rightarrow> Inr \<lparr>sa_step = step, sa_since = since, sa_until = until,
              sa_series = map (\<lambda>name. (name, map (\<lambda>b. (b, bucket_point name (rows_at rows b name) step)) buckets)) names\<rparr>))"

section \<open>The KPI strip\<close>

record kpi =
  kp_rate :: pyfloat
  kp_errors :: int
  kp_by_status :: "(int \<times> int) list"
  kp_p50 :: pyfloat
  kp_p95 :: pyfloat
  kp_queue :: pyfloat

text \<open>One turn of the loop over the rows: the queue total and the errors per status.\<close>

definition count_status :: "trace \<Rightarrow> pyfloat \<times> (int \<times> int) list \<Rightarrow> pyfloat \<times> (int \<times> int) list" where
  "count_status t acc =
     (let (queue, by) = acc in
      (queue + tr_queue_ms t,
       if 400 \<le> tr_status t
       then dict_set (tr_status t) ((case map_of by (tr_status t) of None \<Rightarrow> 0 | Some n \<Rightarrow> n) + 1) by
       else by))"

definition window_stats :: "trace list \<Rightarrow> pyfloat \<Rightarrow> kpi" where
  "window_stats rows range_s =
     (let durations = map tr_duration_ms rows; (queue, by) = fold count_status rows (0, []); n = length rows in
      \<lparr>kp_rate = of_nat n / range_s, kp_errors = sum_list (map snd by),
       kp_by_status = map (\<lambda>st. (st, the (map_of by st))) (sort (map fst by)),
       kp_p50 = nearest_rank durations (1/2), kp_p95 = nearest_rank durations (95/100),
       kp_queue = (if n \<noteq> 0 then queue / of_nat n else 0)\<rparr>)"

definition traces_in :: "pyfloat \<Rightarrow> pyfloat \<Rightarrow> db \<Rightarrow> trace list" where
  "traces_in since until d = filter (\<lambda>t. since \<le> tr_ts_start t \<and> tr_ts_start t < until) (db_traces d)"

record summary_answer =
  sm_range :: pyfloat
  sm_now :: pyfloat
  sm_current :: kpi
  sm_previous :: kpi
  sm_total :: int
  sm_throttled :: int

definition metrics_summary :: "db \<Rightarrow> pyfloat \<Rightarrow> pyfloat \<Rightarrow> summary_answer query" where
  "metrics_summary d range_s now =
     (if range_s \<le> 0 then invalid ''range must be positive''
      else
        let since = now - range_s; prev = since - range_s in
        Inr \<lparr>sm_range = range_s, sm_now = now,
             sm_current = window_stats (traces_in since now d) range_s,
             sm_previous = window_stats (traces_in prev since d) range_s,
             sm_total = int (length (db_traces d)),
             sm_throttled = int (length (filter (\<lambda>t. tr_status t = 429) (traces_in (now - 300) now d)))\<rparr>)"

section \<open>The model mix\<close>

record mix_answer =
  mx_step :: int
  mx_since :: pyfloat
  mx_until :: pyfloat
  mx_buckets :: "(int \<times> (string \<times> int) list) list"
  mx_models :: "string list"
  mx_total :: int

definition mix_row :: "int \<Rightarrow> int \<Rightarrow> pyfloat \<Rightarrow> rollup_key \<Rightarrow> bool" where
  "mix_row step start until k \<longleftrightarrow> rk_step k = step \<and> rk_metric k = ''requests'' \<and> rk_model k \<noteq> []
     \<and> start \<le> rk_bucket k \<and> of_int (rk_bucket k) < until"

definition dict_count :: "('k \<times> int) list \<Rightarrow> 'k \<Rightarrow> int" where
  "dict_count counts k = (case map_of counts k of None \<Rightarrow> 0 | Some n \<Rightarrow> n)"

text \<open>One row of the query: \<open>counts_by_bucket.setdefault\<close>, the model's count in it, the set of models
  and the total.\<close>

definition count_model :: "rollup_key \<times> stats \<Rightarrow> (int \<times> (string \<times> int) list) list \<times> string list \<times> int
    \<Rightarrow> (int \<times> (string \<times> int) list) list \<times> string list \<times> int" where
  "count_model row acc =
     (let (k, s) = row; (by, models, total) = acc;
          counts = (case map_of by (rk_bucket k) of None \<Rightarrow> [] | Some c \<Rightarrow> c)
      in (dict_set (rk_bucket k) (dict_set (rk_model k) (dict_count counts (rk_model k) + sx_count s) counts) by,
          List.insert (rk_model k) models, total + sx_count s))"

definition metrics_models :: "db \<Rightarrow> window \<Rightarrow> pyfloat \<Rightarrow> mix_answer query" where
  "metrics_models d w now =
     (let until = (case snd w of None \<Rightarrow> now | Some u \<Rightarrow> u);
          since = (case fst w of None \<Rightarrow> until - 900 | Some s \<Rightarrow> s)
      in if until \<le> since then invalid ''since must be before until''
      else
        let step = step_for_range (until - since); start = bucket_of since step in
        if \<not> sqlite_int start then Inl (Escapes OverflowError)
        else
          let (by, models, total) =
            fold count_model (filter (\<lambda>(k, _). mix_row step start until k) (db_rollups d)) ([], [], 0)
          in (case bucket_loop until step start [] of
                None \<Rightarrow> invalid ''window is too large for model mix buckets''
              | Some buckets \<Rightarrow> Inr \<lparr>mx_step = step, mx_since = since, mx_until = until,
                  mx_buckets = map (\<lambda>b. (b, case map_of by b of None \<Rightarrow> [] | Some c \<Rightarrow> c)) buckets,
                  mx_models = sort models, mx_total = total\<rparr>))"

section \<open>The bucket loop\<close>

definition bucket_count :: "pyfloat \<Rightarrow> int \<Rightarrow> int \<Rightarrow> nat" where
  "bucket_count until step bucket = nat \<lceil>(until - of_int bucket) / of_int step\<rceil>"

lemma bucket_count_less:
  assumes "0 < step"
  shows "k < bucket_count until step b \<longleftrightarrow> of_int (b + int k * step) < until"
proof -
  have "k < bucket_count until step b \<longleftrightarrow> int k < \<lceil>(until - of_int b) / of_int step\<rceil>"
    by (auto simp: bucket_count_def)
  also have "\<dots> \<longleftrightarrow> of_int (int k) < (until - of_int b) / of_int step" by (simp only: less_ceiling_iff)
  also have "\<dots> \<longleftrightarrow> of_int (b + int k * step) < until" using assms by (simp add: field_simps)
  finally show ?thesis .
qed

lemma bucket_count_step:
  assumes "0 < step" "of_int b < until"
  shows "bucket_count until step b = Suc (bucket_count until step (b + step))"
proof -
  have "k < bucket_count until step b \<longleftrightarrow> k < Suc (bucket_count until step (b + step))" for k
  proof (cases k)
    case 0
    then show ?thesis using assms bucket_count_less[OF assms(1), of 0 until b] by simp
  next
    case (Suc j)
    then show ?thesis
      using bucket_count_less[OF assms(1), of k until b] bucket_count_less[OF assms(1), of j until "b + step"]
      by (simp add: algebra_simps)
  qed
  then show ?thesis by (metis linorder_neqE_nat nat_less_le)
qed

lemma bucket_loop_spec:
  assumes "0 < step" "length acc \<le> MAX_BUCKETS"
  shows "bucket_loop until step b acc =
    (let n = bucket_count until step b in
     if length acc + n \<le> MAX_BUCKETS then Some (acc @ map (\<lambda>k. b + int k * step) [0..<n]) else None)"
  using assms
proof (induction until step b acc rule: bucket_loop.induct)
  case (1 until step b acc)
  show ?case
  proof (cases "of_int b < until")
    case True
    have n: "bucket_count until step b = Suc (bucket_count until step (b + step))"
      by (rule bucket_count_step[OF 1(2) True])
    show ?thesis
    proof (cases "MAX_BUCKETS < length (acc @ [b])")
      case False
      have m: "map (\<lambda>k. b + int k * step) [0..<Suc n] = b # map (\<lambda>k. b + step + int k * step) [0..<n]" for n
        by (simp add: upt_conv_Cons map_Suc_upt[symmetric] algebra_simps del: upt_Suc)
      show ?thesis
        using 1(1)[OF True False 1(2)] False
        by (subst bucket_loop.simps) (simp add: True n Let_def m del: upt_Suc)
    qed (subst bucket_loop.simps, simp add: True n Let_def)
  next
    case False
    then have "bucket_count until step b = 0" using bucket_count_less[OF 1(2), of 0 until b] by simp
    then show ?thesis using False 1(3) by (subst bucket_loop.simps) (simp add: Let_def)
  qed
qed

lemma step_pos: "step \<in> set ROLLUP_STEPS \<Longrightarrow> 0 < step"
  by (auto simp: ROLLUP_STEPS_def)

lemma step_for_range_step: "step_for_range s \<in> set ROLLUP_STEPS"
  by (simp add: step_for_range_def ROLLUP_STEPS_def)

text \<open>The buckets of a window are the aligned bounds in it, in order, from the one that holds
  \<open>since\<close>.\<close>

definition window_buckets :: "pyfloat \<Rightarrow> pyfloat \<Rightarrow> int \<Rightarrow> int set" where
  "window_buckets since until step = {b. b mod step = 0 \<and> bucket_of since step \<le> b \<and> of_int b < until}"

lemma bucket_loop_window:
  assumes "0 < step" "bucket_loop until step (bucket_of since step) [] = Some bs"
  shows "set bs = window_buckets since until step" "sorted_wrt (<) bs" "length bs \<le> MAX_BUCKETS"
proof -
  let ?b = "bucket_of since step" and ?n = "bucket_count until step (bucket_of since step)"
  have bs: "bs = map (\<lambda>k. ?b + int k * step) [0..<?n]" and len: "?n \<le> MAX_BUCKETS"
    using bucket_loop_spec[OF assms(1), of "[]" until ?b] assms(2) by (auto simp: Let_def split: if_splits)
  show "length bs \<le> MAX_BUCKETS" using len by (simp add: bs)
  show "sorted_wrt (<) bs" using assms(1) by (auto simp: bs sorted_wrt_iff_nth_less)
  show "set bs = window_buckets since until step"
  proof (intro set_eqI iffI)
    fix x assume "x \<in> set bs"
    then have "x \<in> (\<lambda>k. ?b + int k * step) ` {0..<?n}" by (simp only: bs set_map set_upt)
    then obtain k where k: "x = ?b + int k * step" "k < ?n" unfolding image_iff by (meson atLeastLessThan_iff)
    then show "x \<in> window_buckets since until step"
      using assms(1) bucket_count_less[OF assms(1), of k until ?b]
      by (simp add: window_buckets_def bucket_of_def)
  next
    fix x assume x: "x \<in> window_buckets since until step"
    then obtain q where q: "x = q * step" by (auto simp: window_buckets_def mod_eq_0_iff_dvd dvd_def mult.commute)
    have "\<lfloor>since / of_int step\<rfloor> \<le> q" using x assms(1) by (simp add: window_buckets_def q bucket_of_def)
    then have e: "x = ?b + int (nat (q - \<lfloor>since / of_int step\<rfloor>)) * step" by (simp add: q bucket_of_def algebra_simps)
    then have "nat (q - \<lfloor>since / of_int step\<rfloor>) < ?n"
      using x bucket_count_less[OF assms(1), of "nat (q - \<lfloor>since / of_int step\<rfloor>)" until ?b]
      by (simp add: window_buckets_def)
    then show "x \<in> set bs"
      unfolding bs set_map set_upt by (intro image_eqI[where x = "nat (q - \<lfloor>since / of_int step\<rfloor>)"] e) simp
  qed
qed

section \<open>What a chart sums to\<close>

text \<open>The rows of \<open>metric_rollup\<close> keep their primary key through every step of the writer.\<close>

definition rollups_keyed :: "wstate \<times> tally \<Rightarrow> bool" where
  "rollups_keyed sy \<longleftrightarrow> rollup_inv sy \<and> dict_ok (db_rollups (wr_db (fst sy)))"

lemma fold_upsert_keyed: "dict_ok (db_rollups d) \<Longrightarrow> dict_ok (db_rollups (fold upsert_rollup rs d))"
  by (induction rs arbitrary: d) (simp_all add: upsert_rollup_def)

lemma close_due_keyed: "close_due ks w d = Inr (w', d') \<Longrightarrow> dict_ok (db_rollups d) \<Longrightarrow> dict_ok (db_rollups d')"
  by (induction ks w d rule: close_due.induct) (auto split: option.splits simp: fold_upsert_keyed)

lemma write_batch_keyed:
  assumes "write_batch batch due work d = Inr (w', d')" "tele_inv d" "dict_ok (db_rollups d)"
  shows "dict_ok (db_rollups d')"
proof -
  let ?kept = "filter is_kept (batch_traces batch)"
  obtain d1 d2 d3 where i: "insert_traces ?kept d = Inr d1" "insert_observations (concat (map fi_observations ?kept)) d1 = Inr d2"
    "insert_scores (concat (map fi_scores ?kept)) d2 = Inr d3"
    and c: "close_due due work (fold insert_log (batch_logs batch) d3) = Inr (w', d')"
    using assms(1) by (auto simp: write_batch_def Let_def res_bind_Inr)
  note a = insert_traces_inv[OF i(1) assms(2)]
  note b = insert_observations_inv[OF i(2) a(1)]
  note e = insert_scores_inv[OF i(3) b(1)]
  show ?thesis using close_due_keyed[OF c] assms(3) a b e by simp
qed

lemma rollups_keyed_step: "rollups_keyed sy \<Longrightarrow> rollups_keyed (writer_step e sy)"
proof -
  assume inv: "rollups_keyed sy"
  obtain s y where sy: "sy = (s, y)" by (cases sy)
  have r: "rollup_inv (writer_step e sy)" using inv by (simp add: rollups_keyed_def rollup_inv_step)
  have "dict_ok (db_rollups (wr_db (fst (writer_step e sy))))"
  proof (cases e)
    case (Turn now faults)
    obtain st s2 where t: "finish_turn now faults s = (st, s2)" by (meson surj_pair)
    from t have "dict_ok (db_rollups (wr_db s2))"
    proof (rule finish_turn_shape)
      fix s1 assume c: "commit now faults s = (st, s1)" and db: "wr_db s2 = wr_db s1"
      from c show ?thesis
        by (cases rule: commit_cases)
          (use inv in \<open>auto simp: db sy rollups_keyed_def rollup_inv_def drop_batch_def dest: write_batch_keyed\<close>)
    qed
    then show ?thesis using inv by (simp add: Turn sy t rollups_keyed_def)
  qed (use inv in \<open>auto simp: sy rollups_keyed_def enqueue_def resume_def enqueue_log_def flush_now_def stop_writer_def
      collect_def seal_def push_item_def count_drop_def Let_def split: sum.splits option.splits if_splits simp del: split_paired_All\<close>)
  with r show ?thesis by (simp add: rollups_keyed_def)
qed

interpretation writer_keys: safe_machine writer_step rollups_keyed
  by unfold_locales (rule rollups_keyed_step)

text \<open>Summing the counts of the rows that a condition selects, when every row counts its traces.\<close>

definition exact_rows :: "db \<Rightarrow> finished list \<Rightarrow> bool" where
  "exact_rows d ts \<longleftrightarrow> dict_ok (db_rollups d)
     \<and> (\<forall>step \<in> set ROLLUP_STEPS. \<forall>b K. row_count d (rollup_key_at b step K) = int (length (filter (contributes K b step) ts)))"

lemma drained_rows_exact:
  assumes start: "new_writer rows qmax d = Inr s0" "fresh_store d"
    and run: "fold writer_step es (s0, no_tally) = (s, y)" and drained: "wr_open s = []"
  shows "exact_rows (wr_db s) (ty_traces y)"
proof -
  have "rollups_keyed (s0, no_tally)"
    using new_writer_inv(2)[OF start] start by (auto simp: rollups_keyed_def new_writer_def fresh_store_def split: if_splits)
  then have "rollups_keyed (s, y)" using writer_keys.run_inv[of "(s0, no_tally)" es] by (simp add: run)
  then show ?thesis
    using writer_rollup_facts(2)[OF start run] drained by (simp add: exact_rows_def rollups_keyed_def del: split_paired_All)
qed

definition key_dims :: "rollup_key \<Rightarrow> dims" where
  "key_dims k = (rk_metric k, rk_model k, rk_route k, rk_status k)"

lemma key_of_dims [simp]: "rollup_key_at (rk_bucket k) (rk_step k) (key_dims k) = k"
  by (simp add: rollup_key_at_def key_dims_def)

lemma dims_of_key [simp]:
  "key_dims (rollup_key_at b s K) = K" "rk_bucket (rollup_key_at b s K) = b" "rk_step (rollup_key_at b s K) = s"
  "rk_metric (rollup_key_at b s K) = fst K" "rk_model (rollup_key_at b s K) = fst (snd K)"
  by (cases K, simp add: rollup_key_at_def key_dims_def)+

lemma one_dim_per_metric: "K \<in> set (trace_dims t) \<Longrightarrow> K' \<in> set (trace_dims t) \<Longrightarrow> fst K = fst K' \<Longrightarrow> K = K'"
  by (auto simp: trace_dims_def split: if_splits)

lemma sum_of_counts:
  assumes "finite S" "\<And>t. t \<in> set ts \<Longrightarrow> card {k \<in> S. c k t} = (if Q t then 1 else 0)"
  shows "(\<Sum>k \<in> S. int (length (filter (c k) ts))) = int (length (filter Q ts))"
  using assms(2)
proof (induction ts)
  case (Cons t ts)
  have "(\<Sum>k \<in> S. int (length (filter (c k) (t # ts)))) =
      (\<Sum>k \<in> S. (if c k t then 1 else 0) + int (length (filter (c k) ts)))"
    by (rule sum.cong) auto
  also have "\<dots> = int (card {k \<in> S. c k t}) + int (length (filter Q ts))"
    using Cons assms(1) by (simp add: sum.distrib sum.If_cases Int_def)
  finally show ?case using Cons.prems[of t] by simp
qed simp

lemma selected_rows_count:
  assumes exact: "exact_rows d ts" and step: "step \<in> set ROLLUP_STEPS"
    and P: "\<And>k. P k \<Longrightarrow> rk_step k = step \<and> rk_metric k = m"
  shows "sum_list (map (\<lambda>r. sx_count (snd r)) (filter (\<lambda>r. P (fst r)) (db_rollups d))) =
    int (length (filter (\<lambda>t. \<exists>K \<in> set (trace_dims t). P (rollup_key_at (bucket_of (tr_ts_start t) step) step K)) ts))"
proof -
  let ?rows = "filter (\<lambda>r. P (fst r)) (db_rollups d)" and ?c = "\<lambda>k. contributes (key_dims k) (rk_bucket k) step"
  let ?at = "\<lambda>t. rollup_key_at (bucket_of (tr_ts_start t) step) step"
  let ?S = "fst ` set ?rows"
  have keyed: "dict_ok (db_rollups d)" using exact by (simp add: exact_rows_def)
  then have dist: "distinct (map fst ?rows)" using dict_ok_filter by (auto simp: dict_ok_def)
  have rc: "row_count d k = int (length (filter (?c k) ts))" if "P k" for k
    using exact step P[OF that] unfolding exact_rows_def by (metis key_of_dims)
  have row: "sx_count (snd r) = row_count d (fst r)" if "r \<in> set ?rows" for r
    using that dict_in_set[OF keyed, of "fst r" "snd r"] by (simp add: row_count_def load_rollup_row_def)
  have "sum_list (map (\<lambda>r. sx_count (snd r)) ?rows) = sum_list (map (row_count d) (map fst ?rows))"
    unfolding map_map using row by (intro arg_cong[where f = sum_list] map_cong) simp_all
  also have "\<dots> = (\<Sum>k \<in> ?S. row_count d k)" using dist by (simp only: sum_list_distinct_conv_sum_set set_map)
  also have "\<dots> = (\<Sum>k \<in> ?S. int (length (filter (?c k) ts)))" by (rule sum.cong) (auto simp: rc)
  also have "\<dots> = int (length (filter (\<lambda>t. \<exists>K \<in> set (trace_dims t). P (?at t K)) ts))"
  proof (rule sum_of_counts)
    fix t assume t: "t \<in> set ts"
    have eq: "{k \<in> ?S. ?c k t} = {k. \<exists>K \<in> set (trace_dims t). k = ?at t K \<and> P k}"
    proof (intro set_eqI iffI)
      fix k assume "k \<in> {k \<in> ?S. ?c k t}"
      then have "P k" "?c k t" by auto
      then have "key_dims k \<in> set (trace_dims t) \<and> k = ?at t (key_dims k) \<and> P k"
        using P[of k] key_of_dims[of k] by (simp add: contributes_def)
      then show "k \<in> {k. \<exists>K \<in> set (trace_dims t). k = ?at t K \<and> P k}" by blast
    next
      fix k assume "k \<in> {k. \<exists>K \<in> set (trace_dims t). k = ?at t K \<and> P k}"
      then obtain K where K: "K \<in> set (trace_dims t)" "k = ?at t K" and p: "P (?at t K)" by blast
      have "contributes K (bucket_of (tr_ts_start t) step) step t" using K by (simp add: contributes_def)
      then have "row_count d (?at t K) \<noteq> 0" using t rc[OF p] by (auto simp: filter_empty_conv)
      then obtain v where "map_of (db_rollups d) (?at t K) = Some v"
        by (auto simp: row_count_def load_rollup_row_def split: option.splits)
      then show "k \<in> {k \<in> ?S. ?c k t}"
        using p K by (force simp: contributes_def dest: map_of_SomeD)
    qed
    show "card {k \<in> ?S. ?c k t} = (if \<exists>K \<in> set (trace_dims t). P (?at t K) then 1 else 0)"
    proof (cases "\<exists>K \<in> set (trace_dims t). P (?at t K)")
      case True
      then obtain K where K: "K \<in> set (trace_dims t)" "P (?at t K)" by blast
      have "{k. \<exists>K \<in> set (trace_dims t). k = ?at t K \<and> P k} = {?at t K}"
        using K one_dim_per_metric[OF K(1)] P by (auto, metis P dims_of_key(4))
      then show ?thesis unfolding eq using True by simp
    next
      case False
      then have "{k. \<exists>K \<in> set (trace_dims t). k = ?at t K \<and> P k} = {}" by blast
      then show ?thesis unfolding eq using False by simp
    qed
  qed simp
  finally show ?thesis .
qed

section \<open>The model mix counts traces\<close>

definition counts_at :: "(int \<times> (string \<times> int) list) list \<Rightarrow> int \<Rightarrow> (string \<times> int) list" where
  "counts_at by b = (case map_of by b of None \<Rightarrow> [] | Some c \<Rightarrow> c)"

abbreviation row_sums :: "(rollup_key \<times> stats) list \<Rightarrow> int" where
  "row_sums rows \<equiv> sum_list (map (\<lambda>r. sx_count (snd r)) rows)"

lemma dict_total_bump:
  "dict_ok c \<Longrightarrow> sum_list (map snd (dict_set m (dict_count c m + n) c)) = sum_list (map snd c) + n"
  for c :: "('k \<times> int) list"
  by (induction c) (auto simp: dict_count_def dict_ok_def split: option.splits, (metis image_eqI map_of_eq_None_iff option.simps(3))?)

lemma count_model_step:
  assumes "count_model r (by, ms, tot) = (by', ms', tot')" "\<And>b. dict_ok (counts_at by b)"
  shows "tot' = tot + sx_count (snd r)" "set ms' = insert (rk_model (fst r)) (set ms)" "distinct ms \<Longrightarrow> distinct ms'"
    "dict_ok (counts_at by' b)"
    "dict_count (counts_at by' b) m = dict_count (counts_at by b) m
       + (if rk_bucket (fst r) = b \<and> rk_model (fst r) = m then sx_count (snd r) else 0)"
    "sum_list (map snd (counts_at by' b)) = sum_list (map snd (counts_at by b))
       + (if rk_bucket (fst r) = b then sx_count (snd r) else 0)"
proof -
  obtain k s where r: "r = (k, s)" by (cases r)
  have n: "(case map_of by (rk_bucket k) of None \<Rightarrow> [] | Some c \<Rightarrow> c) = counts_at by (rk_bucket k)"
    by (simp add: counts_at_def)
  note e = assms(1)[unfolded r count_model_def Let_def prod.case n Pair_inject]
  show "tot' = tot + sx_count (snd r)" "set ms' = insert (rk_model (fst r)) (set ms)" "distinct ms \<Longrightarrow> distinct ms'"
    using e by (auto simp: r)
  have at: "counts_at by' b = (if rk_bucket k = b
      then dict_set (rk_model k) (dict_count (counts_at by b) (rk_model k) + sx_count s) (counts_at by b) else counts_at by b)"
    using e by (auto simp: counts_at_def)
  show "dict_ok (counts_at by' b)" using assms(2) by (simp add: at)
  show "dict_count (counts_at by' b) m = dict_count (counts_at by b) m
       + (if rk_bucket (fst r) = b \<and> rk_model (fst r) = m then sx_count (snd r) else 0)"
    unfolding at r by (simp add: dict_count_def)
  show "sum_list (map snd (counts_at by' b)) = sum_list (map snd (counts_at by b))
       + (if rk_bucket (fst r) = b then sx_count (snd r) else 0)"
    unfolding at r using dict_total_bump[OF assms(2)] by simp
qed

lemma count_models:
  assumes "fold count_model rows (by, ms, tot) = (by', ms', tot')" "\<And>b. dict_ok (counts_at by b)"
  shows "tot' = tot + row_sums rows \<and> set ms' = set ms \<union> (rk_model \<circ> fst) ` set rows \<and> (distinct ms \<longrightarrow> distinct ms')
    \<and> dict_count (counts_at by' b) m = dict_count (counts_at by b) m
       + row_sums (filter (\<lambda>r. rk_bucket (fst r) = b \<and> rk_model (fst r) = m) rows)
    \<and> sum_list (map snd (counts_at by' b)) = sum_list (map snd (counts_at by b))
       + row_sums (filter (\<lambda>r. rk_bucket (fst r) = b) rows)"
  using assms
proof (induction rows arbitrary: "by" ms tot)
  case (Cons r rows)
  obtain by1 ms1 tot1 where c: "count_model r (by, ms, tot) = (by1, ms1, tot1)" by (meson prod_cases3)
  note s = count_model_step[OF c Cons.prems(2)]
  have "fold count_model rows (by1, ms1, tot1) = (by', ms', tot')" using Cons.prems(1) by (simp add: c)
  from Cons.IH[OF this s(4)] s show ?case by auto
qed simp

text \<open>The traces of a model that fall in a bucket.\<close>

definition served :: "finished list \<Rightarrow> (finished \<Rightarrow> bool) \<Rightarrow> int \<Rightarrow> (int \<Rightarrow> bool) \<Rightarrow> int" where
  "served ts Q step B = int (length (filter (\<lambda>t. Q t \<and> B (bucket_of (tr_ts_start t) step)) ts))"

lemma served_cong:
  "(\<And>t. (Q t \<and> B (bucket_of (tr_ts_start t) step)) = (Q' t \<and> B' (bucket_of (tr_ts_start t) step))) \<Longrightarrow> served ts Q step B = served ts Q' step B'"
  by (simp add: served_def)

lemma mix_rows_served:
  assumes "exact_rows d ts" "step \<in> set ROLLUP_STEPS"
  shows "row_sums (filter (\<lambda>r. B (rk_bucket (fst r)) \<and> M (rk_model (fst r))) (filter (\<lambda>(k, _). mix_row step start until k) (db_rollups d)))
    = served ts (\<lambda>t. model_dim t \<noteq> [] \<and> M (model_dim t)) step (\<lambda>b. B b \<and> start \<le> b \<and> of_int b < until)"
proof -
  have f: "filter (\<lambda>r. B (rk_bucket (fst r)) \<and> M (rk_model (fst r))) (filter (\<lambda>(k, _). mix_row step start until k) (db_rollups d))
      = filter (\<lambda>r. B (rk_bucket (fst r)) \<and> M (rk_model (fst r)) \<and> mix_row step start until (fst r)) (db_rollups d)"
    by (auto intro!: filter_cong simp: filter_filter)
  show ?thesis
    unfolding f served_def
    by (subst selected_rows_count[OF assms, of "\<lambda>k. B (rk_bucket k) \<and> M (rk_model k) \<and> mix_row step start until k" "''requests''"])
      (auto simp: mix_row_def trace_dims_def intro!: arg_cong[where f = length] filter_cong)
qed

lemma served_buckets:
  assumes "distinct bs" "set bs = window_buckets since until step" "step \<in> set ROLLUP_STEPS"
  shows "sum_list (map (\<lambda>b. served ts Q step (\<lambda>x. x = b \<and> bucket_of since step \<le> x \<and> of_int x < until)) bs)
    = served ts Q step (\<lambda>b. bucket_of since step \<le> b \<and> of_int b < until)"
proof (induction ts)
  case (Cons t ts)
  let ?x = "bucket_of (tr_ts_start t) step" and ?w = "\<lambda>b. bucket_of since step \<le> b \<and> of_int b < until"
  have "?w ?x \<longleftrightarrow> ?x \<in> set bs" by (simp add: assms(2) window_buckets_def bucket_of_def)
  moreover have "sum_list (map (\<lambda>b. if Q t \<and> ?x = b \<and> ?w ?x then 1 else 0 :: int) bs)
      = (if Q t \<and> ?w ?x \<and> ?x \<in> set bs then 1 else 0)"
    using assms(1) by (induction bs) auto
  ultimately have one: "sum_list (map (\<lambda>b. if Q t \<and> ?x = b \<and> ?w ?x then 1 else 0 :: int) bs) = (if Q t \<and> ?w ?x then 1 else 0)"
    by simp
  have c: "served (t # ts) Q step B = (if Q t \<and> B ?x then 1 else 0) + served ts Q step B" for B
    by (simp add: served_def)
  show ?case unfolding c sum_list_addf using Cons one by simp
qed (simp add: served_def)

lemma metrics_models_Inr:
  assumes "metrics_models d w now = Inr a"
  obtains "by" models buckets where
    "fold count_model (filter (\<lambda>(k, _). mix_row (mx_step a) (bucket_of (mx_since a) (mx_step a)) (mx_until a) k) (db_rollups d)) ([], [], 0)
      = (by, models, mx_total a)"
    "bucket_loop (mx_until a) (mx_step a) (bucket_of (mx_since a) (mx_step a)) [] = Some buckets"
    "mx_buckets a = map (\<lambda>b. (b, counts_at by b)) buckets" "mx_step a = step_for_range (mx_until a - mx_since a)"
  using assms
  by (auto simp: metrics_models_def Let_def invalid_def counts_at_def split: if_splits prod.splits option.splits)

text \<open>When every observed trace has reached the rollups, the model mix counts traffic: its bars are
  the aligned buckets of the window in order, at most 100,000 of them, with no gap; the count of a
  model in a bar is the number of traces of that model in the bucket; the total is the number of
  traces with a model in the window and the sum of all bars.\<close>

theorem model_mix_counts_the_traffic:
  assumes start: "new_writer rows qmax d = Inr s0" "fresh_store d"
    and run: "fold writer_step es (s0, no_tally) = (s, y)" and drained: "wr_open s = []"
    and answer: "metrics_models (wr_db s) w now = Inr a"
  shows "(set (map fst (mx_buckets a)) = window_buckets (mx_since a) (mx_until a) (mx_step a))
    \<and> (sorted_wrt (<) (map fst (mx_buckets a)) \<and> length (mx_buckets a) \<le> 100000)
    \<and> (\<forall>(b, counts) \<in> set (mx_buckets a). \<forall>m. m \<noteq> [] \<longrightarrow>
      dict_count counts m = served (ty_traces y) (\<lambda>t. model_dim t = m) (mx_step a) (\<lambda>x. x = b))
    \<and> (mx_total a = served (ty_traces y) (\<lambda>t. model_dim t \<noteq> []) (mx_step a)
      (\<lambda>x. bucket_of (mx_since a) (mx_step a) \<le> x \<and> of_int x < mx_until a))
    \<and> (mx_total a = sum_list (map (\<lambda>(_, counts). sum_list (map snd counts)) (mx_buckets a)))"
proof -
  let ?st = "mx_step a" and ?lo = "bucket_of (mx_since a) (mx_step a)" and ?ts = "ty_traces y"
  let ?rows = "filter (\<lambda>(k, _). mix_row ?st ?lo (mx_until a) k) (db_rollups (wr_db s))"
  obtain "by" models buckets where
    f: "fold count_model ?rows ([], [], 0) = (by, models, mx_total a)"
    and bl: "bucket_loop (mx_until a) ?st ?lo [] = Some buckets"
    and bk: "mx_buckets a = map (\<lambda>b. (b, counts_at by b)) buckets" and st: "?st = step_for_range (mx_until a - mx_since a)"
    using answer by (rule metrics_models_Inr)
  have step: "?st \<in> set ROLLUP_STEPS" unfolding st by (rule step_for_range_step)
  note win = bucket_loop_window[OF step_pos[OF step] bl]
  note ex = drained_rows_exact[OF start run drained]
  have cm: "mx_total a = row_sums ?rows \<and> dict_count (counts_at by b) m
      = row_sums (filter (\<lambda>r. rk_bucket (fst r) = b \<and> rk_model (fst r) = m) ?rows)
    \<and> sum_list (map snd (counts_at by b)) = row_sums (filter (\<lambda>r. rk_bucket (fst r) = b) ?rows)" for b m
    using count_models[OF f, of b m] by (simp add: counts_at_def dict_count_def)
  have keys: "set (map fst (mx_buckets a)) = window_buckets (mx_since a) (mx_until a) ?st"
    "sorted_wrt (<) (map fst (mx_buckets a)) \<and> length (mx_buckets a) \<le> 100000"
    using win by (simp_all add: bk comp_def MAX_BUCKETS_def)
  have p1: "\<forall>(b, counts) \<in> set (mx_buckets a). \<forall>m. m \<noteq> [] \<longrightarrow>
      dict_count counts m = served ?ts (\<lambda>t. model_dim t = m) ?st (\<lambda>x. x = b)"
  proof clarify
    fix b counts and m :: string assume b: "(b, counts) \<in> set (mx_buckets a)" and m: "m \<noteq> []"
    have in_win: "b \<in> window_buckets (mx_since a) (mx_until a) ?st" and c: "counts = counts_at by b"
      using b unfolding win(1)[symmetric] bk by (simp_all add: image_iff)
    have "dict_count counts m = served ?ts (\<lambda>t. model_dim t \<noteq> [] \<and> model_dim t = m) ?st
        (\<lambda>x. x = b \<and> ?lo \<le> x \<and> of_int x < mx_until a)"
      unfolding c by (rule trans[OF cm[THEN conjunct2, THEN conjunct1] mix_rows_served[OF ex step]])
    also have "\<dots> = served ?ts (\<lambda>t. model_dim t = m) ?st (\<lambda>x. x = b)"
      using in_win m by (intro served_cong) (auto simp: window_buckets_def)
    finally show "dict_count counts m = served ?ts (\<lambda>t. model_dim t = m) ?st (\<lambda>x. x = b)" .
  qed
  have total: "mx_total a = served ?ts (\<lambda>t. model_dim t \<noteq> []) ?st (\<lambda>x. ?lo \<le> x \<and> of_int x < mx_until a)"
    using cm mix_rows_served[OF ex step, of "\<lambda>_. True" "\<lambda>_. True" ?lo "mx_until a"] by simp
  have bar: "sum_list (map snd (counts_at by b)) =
      served ?ts (\<lambda>t. model_dim t \<noteq> []) ?st (\<lambda>x. x = b \<and> ?lo \<le> x \<and> of_int x < mx_until a)" for b
    using cm[of b] mix_rows_served[OF ex step, of "\<lambda>x. x = b" "\<lambda>_. True" ?lo "mx_until a"] by simp
  have "distinct buckets" using win(2) by (simp add: strict_sorted_iff)
  then have p2: "mx_total a = sum_list (map (\<lambda>(_, counts). sum_list (map snd counts)) (mx_buckets a))"
    using served_buckets[OF _ win(1) step] by (simp add: total bk comp_def bar)
  show ?thesis by (rule conjI[OF keys(1) conjI[OF keys(2) conjI[OF p1 conjI[OF total p2]]]])
qed

section \<open>The series count traces\<close>

lemma metrics_series_Inr:
  assumes "metrics_series d names since until step model route = Inr a"
  obtains buckets where "bucket_loop until step (bucket_of since step) [] = Some buckets" "step \<in> set ROLLUP_STEPS"
    "\<And>name pts. (name, pts) \<in> set (sa_series a) \<Longrightarrow> name \<in> set names \<and>
      pts = map (\<lambda>b. (b, bucket_point name (rows_at (filter (\<lambda>(k, _). series_row names step (bucket_of since step) until model route k)
        (db_rollups d)) b name) step)) buckets"
proof -
  obtain out where v: "validate_metrics names = Inr out"
    using assms by (auto simp: metrics_series_def res_bind_Inr)
  then have out: "set out = set names"
    using validate_names_facts[of names "[]" out] by (auto simp: validate_metrics_def no_metric_def split: if_splits)
  then have row: "series_row out = series_row names" by (intro ext) (simp add: series_row_def)
  obtain buckets where b: "bucket_loop until step (bucket_of since step) [] = Some buckets" "step \<in> set ROLLUP_STEPS"
    and ss: "sa_series a = map (\<lambda>name. (name, map (\<lambda>b. (b, bucket_point name (rows_at (filter (\<lambda>(k, _).
        series_row names step (bucket_of since step) until model route k) (db_rollups d)) b name) step)) buckets)) out"
    using assms unfolding metrics_series_def v res_bind_simps row
    by (auto simp: Let_def invalid_def split: if_splits option.splits)
  show thesis by (rule that[OF b]) (auto simp: ss out)
qed

definition asked :: "string option \<Rightarrow> string option \<Rightarrow> finished \<Rightarrow> bool" where
  "asked model route t \<longleftrightarrow> (case truthy_text model of None \<Rightarrow> True | Some m \<Rightarrow> model_dim t = m)
     \<and> (case truthy_text route of None \<Rightarrow> True | Some r \<Rightarrow> tr_route t = r)"

lemma bucket_point_counters:
  "bucket_point ''requests'' rows step = Level (of_int (sum_list (map sx_count rows)) / of_int step)"
  "bucket_point ''errors'' rows step = Counted (sum_list (map sx_count rows))"
  by (simp_all add: bucket_point_def COUNTER_METRICS_def Let_def)

lemma series_rows_served:
  assumes ex: "exact_rows d ts" and step: "step \<in> set ROLLUP_STEPS" and b: "start \<le> b" "of_int b < until"
    and names: "name \<in> set names"
  shows "name = ''requests'' \<Longrightarrow> sum_list (map sx_count (rows_at (filter (\<lambda>(k, _). series_row names step start until model route k) (db_rollups d)) b name))
      = served ts (asked model route) step (\<lambda>x. x = b)"
    and "name = ''errors'' \<Longrightarrow> sum_list (map sx_count (rows_at (filter (\<lambda>(k, _). series_row names step start until model route k) (db_rollups d)) b name))
      = served ts (\<lambda>t. 400 \<le> tr_status t) step (\<lambda>x. x = b)"
proof -
  let ?P = "\<lambda>k. rk_bucket k = b \<and> rk_metric k = name \<and> series_row names step start until model route k"
  have f: "sum_list (map sx_count (rows_at (filter (\<lambda>(k, _). series_row names step start until model route k) (db_rollups d)) b name))
      = row_sums (filter (\<lambda>r. ?P (fst r)) (db_rollups d))"
    unfolding rows_at_def map_map filter_filter comp_def by (intro arg_cong[where f = sum_list] map_cong filter_cong) auto
  have c: "row_sums (filter (\<lambda>r. ?P (fst r)) (db_rollups d)) = int (length (filter
      (\<lambda>t. \<exists>K \<in> set (trace_dims t). ?P (rollup_key_at (bucket_of (tr_ts_start t) step) step K)) ts))"
    by (rule selected_rows_count[OF ex step]) (auto simp: series_row_def)
  show "name = ''requests'' \<Longrightarrow> sum_list (map sx_count (rows_at (filter (\<lambda>(k, _). series_row names step start until model route k) (db_rollups d)) b name))
      = served ts (asked model route) step (\<lambda>x. x = b)"
    unfolding f c served_def using b names
    by (intro arg_cong[where f = "\<lambda>xs. int (length xs)"] filter_cong refl)
      (auto simp: series_row_def trace_dims_def asked_def rollup_key_at_def split: option.splits)
  show "name = ''errors'' \<Longrightarrow> sum_list (map sx_count (rows_at (filter (\<lambda>(k, _). series_row names step start until model route k) (db_rollups d)) b name))
      = served ts (\<lambda>t. 400 \<le> tr_status t) step (\<lambda>x. x = b)"
    unfolding f c served_def using b names
    by (intro arg_cong[where f = "\<lambda>xs. int (length xs)"] filter_cong refl)
      (auto simp: series_row_def trace_dims_def rollup_key_at_def split: option.splits)
qed

text \<open>C27: When every observed trace has reached the rollups, the charts of requests and errors count
  traffic: a series has one point per aligned bucket of the window, in order and with no gap; a
  request point is the number of traces of the asked model and route in the bucket over the step; an
  error point is the number of traces with a status of 400 or more, whatever model or route is asked.\<close>

theorem series_count_the_traffic:
  assumes start: "new_writer rows qmax d = Inr s0" "fresh_store d"
    and run: "fold writer_step es (s0, no_tally) = (s, y)" and drained: "wr_open s = []"
    and answer: "metrics_series (wr_db s) names since until step model route = Inr a"
    and series: "(name, pts) \<in> set (sa_series a)"
  shows "(set (map fst pts) = window_buckets since until step \<and> sorted_wrt (<) (map fst pts))
    \<and> (name = ''requests'' \<longrightarrow> (\<forall>(b, p) \<in> set pts.
      p = Level (of_int (served (ty_traces y) (asked model route) step (\<lambda>x. x = b)) / of_int step)))
    \<and> (name = ''errors'' \<longrightarrow> (\<forall>(b, p) \<in> set pts.
      p = Counted (served (ty_traces y) (\<lambda>t. 400 \<le> tr_status t) step (\<lambda>x. x = b))))"
proof -
  obtain buckets where bl: "bucket_loop until step (bucket_of since step) [] = Some buckets" and step: "step \<in> set ROLLUP_STEPS"
    and pts: "name \<in> set names" "pts = map (\<lambda>b. (b, bucket_point name (rows_at (filter (\<lambda>(k, _).
      series_row names step (bucket_of since step) until model route k) (db_rollups (wr_db s))) b name) step)) buckets"
    using answer by (rule metrics_series_Inr) (use series in blast)
  note win = bucket_loop_window[OF step_pos[OF step] bl]
  have inside: "bucket_of since step \<le> b \<and> of_int b < until" if "b \<in> set buckets" for b
    using that win(1) by (simp add: window_buckets_def)
  have p1: "set (map fst pts) = window_buckets since until step \<and> sorted_wrt (<) (map fst pts)"
    using win by (simp add: pts(2) comp_def)
  note counted = series_rows_served[OF drained_rows_exact[OF start run drained] step _ _ pts(1)]
  have p2: "name = ''requests'' \<longrightarrow> (\<forall>(b, p) \<in> set pts.
      p = Level (of_int (served (ty_traces y) (asked model route) step (\<lambda>x. x = b)) / of_int step))"
    "name = ''errors'' \<longrightarrow> (\<forall>(b, p) \<in> set pts.
      p = Counted (served (ty_traces y) (\<lambda>t. 400 \<le> tr_status t) step (\<lambda>x. x = b)))"
    using counted inside by (auto simp: pts(2) bucket_point_counters)
  show ?thesis by (rule conjI[OF p1 conjI[OF p2(1) p2(2)]])
qed

section \<open>The KPI strip counts the stored traces\<close>

lemma count_status_fold:
  assumes "fold count_status ts (q, by) = (q', by')" "dict_ok by"
  shows "q' = q + sum_list (map tr_queue_ms ts) \<and> dict_ok by'
    \<and> dict_count by' st = dict_count by st + int (length (filter (\<lambda>t. 400 \<le> tr_status t \<and> tr_status t = st) ts))
    \<and> sum_list (map snd by') = sum_list (map snd by) + int (length (filter (\<lambda>t. 400 \<le> tr_status t) ts))
    \<and> fst ` set by' = fst ` set by \<union> {s \<in> tr_status ` set ts. 400 \<le> s}"
  using assms
proof (induction ts arbitrary: q "by")
  case (Cons t ts)
  define by1 where "by1 = (if 400 \<le> tr_status t then dict_set (tr_status t) (dict_count by (tr_status t) + 1) by else by)"
  have step: "count_status t (q, by) = (q + tr_queue_ms t, by1)" by (simp add: count_status_def by1_def dict_count_def)
  have "fold count_status ts (q + tr_queue_ms t, by1) = (q', by')" using Cons.prems(1) by (simp add: step)
  moreover have ok: "dict_ok by1" using Cons.prems(2) by (simp add: by1_def)
  moreover have "sum_list (map snd by1) = sum_list (map snd by) + (if 400 \<le> tr_status t then 1 else 0)"
    using dict_total_bump[OF Cons.prems(2)] by (simp add: by1_def)
  moreover have "dict_count by1 st = dict_count by st + (if 400 \<le> tr_status t \<and> tr_status t = st then 1 else 0)"
    by (simp add: by1_def dict_count_def)
  moreover have "fst ` set by1 = fst ` set by \<union> (if 400 \<le> tr_status t then {tr_status t} else {})"
    by (simp add: by1_def dom_update)
  ultimately show ?case using Cons.IH[of "q + tr_queue_ms t" by1] by auto
qed simp

text \<open>The strip counts exactly the traces of its window: the errors are the traces with a status of 400
  or more, broken down by status in increasing order without a zero entry, and the window before it
  is the adjacent one of the same width, so no trace is in both.\<close>

theorem strip_counts_its_window:
  assumes "metrics_summary d range_s now = Inr a"
  shows "(kp_errors (sm_current a) = int (length (filter (\<lambda>t. 400 \<le> tr_status t) (traces_in (now - range_s) now d))))
    \<and> (\<forall>(st, n) \<in> set (kp_by_status (sm_current a)). 0 < n \<and> 400 \<le> st
      \<and> n = int (length (filter (\<lambda>t. tr_status t = st) (traces_in (now - range_s) now d))))
    \<and> (sorted_wrt (<) (map fst (kp_by_status (sm_current a)))
      \<and> fst ` set (kp_by_status (sm_current a)) = {st \<in> tr_status ` set (traces_in (now - range_s) now d). 400 \<le> st})
    \<and> (sm_current a = window_stats (traces_in (now - range_s) now d) range_s
      \<and> sm_previous a = window_stats (traces_in (now - range_s - range_s) (now - range_s) d) range_s
      \<and> set (traces_in (now - range_s - range_s) (now - range_s) d) \<inter> set (traces_in (now - range_s) now d) = {})"
proof -
  let ?ts = "traces_in (now - range_s) now d"
  have a: "sm_current a = window_stats ?ts range_s"
    "sm_previous a = window_stats (traces_in (now - range_s - range_s) (now - range_s) d) range_s"
    using assms by (auto simp: metrics_summary_def invalid_def Let_def split: if_splits)
  have p1: "sm_current a = window_stats ?ts range_s
      \<and> sm_previous a = window_stats (traces_in (now - range_s - range_s) (now - range_s) d) range_s
      \<and> set (traces_in (now - range_s - range_s) (now - range_s) d) \<inter> set ?ts = {}"
    using a by (auto simp: traces_in_def)
  obtain q "by" where f: "fold count_status ?ts (0, []) = (q, by)" by (meson surj_pair)
  have c: "dict_ok by" "dict_count by st = int (length (filter (\<lambda>t. 400 \<le> tr_status t \<and> tr_status t = st) ?ts))"
    "sum_list (map snd by) = int (length (filter (\<lambda>t. 400 \<le> tr_status t) ?ts))"
    "fst ` set by = {s \<in> tr_status ` set ?ts. 400 \<le> s}" for st
    using count_status_fold[OF f, of st] by (simp_all add: dict_count_def)
  have k: "kp_errors (sm_current a) = sum_list (map snd by)"
    "kp_by_status (sm_current a) = map (\<lambda>st. (st, the (map_of by st))) (sort (map fst by))"
    by (simp_all add: a(1) window_stats_def Let_def f)
  have p2: "kp_errors (sm_current a) = int (length (filter (\<lambda>t. 400 \<le> tr_status t) ?ts))" by (simp only: k c(3))
  have p3: "sorted_wrt (<) (map fst (kp_by_status (sm_current a)))
      \<and> fst ` set (kp_by_status (sm_current a)) = {st \<in> tr_status ` set ?ts. 400 \<le> st}"
    using c(1,4) by (simp add: k(2) comp_def strict_sorted_iff dict_ok_def image_image)
  have p4: "\<forall>(st, n) \<in> set (kp_by_status (sm_current a)). 0 < n \<and> 400 \<le> st
      \<and> n = int (length (filter (\<lambda>t. tr_status t = st) ?ts))"
  proof clarify
    fix st n assume "(st, n) \<in> set (kp_by_status (sm_current a))"
    then have n: "n = the (map_of by st)" and st: "st \<in> fst ` set by" by (auto simp: k(2))
    have big: "400 \<le> st" "st \<in> tr_status ` set ?ts" using st c(4) by auto
    have "n = dict_count by st" using st n by (auto simp: dict_count_def map_of_eq_None_iff split: option.splits)
    also have "\<dots> = int (length (filter (\<lambda>t. tr_status t = st) ?ts))"
      using big by (auto simp: c(2) intro!: arg_cong[where f = length] filter_cong)
    finally show "0 < n \<and> 400 \<le> st \<and> n = int (length (filter (\<lambda>t. tr_status t = st) ?ts))"
      using big by (auto simp: length_pos_if_in_set filter_empty_conv)
  qed
  show ?thesis by (rule conjI[OF p2 conjI[OF p4 conjI[OF p3 p1]]])
qed

section \<open>Witnesses\<close>

abbreviation demo_run :: "wstate \<times> tally" where
  "demo_run \<equiv> fold writer_step demo_events (demo_writer, no_tally)"

lemma demo_drained:
  "new_writer 2 4 empty_db = Inr demo_writer" "fresh_store empty_db" "wr_open (fst demo_run) = []"
  "demo_run = (fst demo_run, snd demo_run)"
proof -
  show "new_writer 2 4 empty_db = Inr demo_writer" "fresh_store empty_db"
    by (simp_all add: demo_writer_def new_writer_def fresh_store_def empty_db_def)
  have "length (wr_open (fst demo_run)) = 0" by code_simp
  then show "wr_open (fst demo_run) = []" by simp
qed simp

lemma demo_buckets: "bucket_loop 20 10 0 [] = Some [0, 10]"
  by (simp add: bucket_loop.simps[of 20 10] MAX_BUCKETS_def)

lemma demo_mix:
  "\<exists>a. metrics_models d (Some 0, Some 20) 30 = Inr a \<and> mx_step a = 10 \<and> mx_since a = 0 \<and> mx_until a = 20"
  by (simp add: metrics_models_def Let_def step_for_range_def bucket_of_def sqlite_int_def demo_buckets split: prod.splits)

theorem model_mix_counts_the_traffic_witness:
  "\<exists>a. metrics_models (wr_db (fst demo_run)) (Some 0, Some 20) 30 = Inr a \<and> mx_total a = 1
     \<and> set (map fst (mx_buckets a)) = window_buckets 0 20 10"
proof -
  obtain a where a: "metrics_models (wr_db (fst demo_run)) (Some 0, Some 20) 30 = Inr a"
    "mx_step a = 10" "mx_since a = 0" "mx_until a = 20" using demo_mix by blast
  have one: "served (ty_traces (snd demo_run)) (\<lambda>t. model_dim t \<noteq> []) 10 (\<lambda>x. bucket_of 0 10 \<le> x \<and> of_int x < (20 :: rat)) = 1"
    by code_simp
  from model_mix_counts_the_traffic[OF demo_drained(1,2,4,3) a(1)] a one show ?thesis by auto
qed

theorem series_count_the_traffic_witness:
  "\<exists>pts. (\<exists>a. metrics_series (wr_db (fst demo_run)) [''requests''] 0 20 10 (Some ''en'') None = Inr a
       \<and> sa_series a = [(''requests'', pts)])
     \<and> (\<forall>(b, p) \<in> set pts. p = Level (if b = 0 then 1 / 10 else 0)) \<and> set (map fst pts) = window_buckets 0 20 10"
proof -
  obtain a pts where a: "metrics_series (wr_db (fst demo_run)) [''requests''] 0 20 10 (Some ''en'') None = Inr a"
    "sa_series a = [(''requests'', pts)]"
    by (simp add: metrics_series_def validate_metrics_def METRIC_NAMES_def ROLLUP_STEPS_def Let_def bucket_of_def
        sqlite_int_def demo_buckets)
  have one: "served (ty_traces (snd demo_run)) (asked (Some ''en'') None) 10 (\<lambda>x. x = 0) = 1"
    "served (ty_traces (snd demo_run)) (asked (Some ''en'') None) 10 (\<lambda>x. x = 10) = 0"
    by code_simp+
  have w: "b \<in> {0, 10}" if "b \<in> window_buckets 0 20 10" for b
    using that by (auto simp: window_buckets_def bucket_of_def mod_eq_0_iff_dvd elim!: dvdE)
  have m: "(''requests'', pts) \<in> set (sa_series a)" by (simp add: a(2))
  note f = series_count_the_traffic[OF demo_drained(1,2,4,3) a(1) m]
  have "p = Level (if b = 0 then 1 / 10 else 0)" if "(b, p) \<in> set pts" for b p
  proof -
    have "b \<in> {0, 10}" using that f w by force
    then show ?thesis using that f one by auto
  qed
  then show ?thesis using a f by blast
qed

definition demo_strip :: db where
  "demo_strip = empty_db\<lparr>db_traces := [trace_row (demo_trace ''a'' 3 200), trace_row (demo_trace ''b'' 14 503)]\<rparr>"

theorem strip_counts_its_window_witness:
  "\<exists>a. metrics_summary demo_strip 10 20 = Inr a \<and> kp_errors (sm_current a) = 1
     \<and> fst ` set (kp_by_status (sm_current a)) = {503}"
proof -
  obtain a where a: "metrics_summary demo_strip 10 20 = Inr a" by (simp add: metrics_summary_def Let_def)
  have t: "traces_in 10 20 demo_strip = [trace_row (demo_trace ''b'' 14 503)]" "tr_status (trace_row (demo_trace ''b'' 14 503)) = 503"
    by (simp_all add: traces_in_def demo_strip_def demo_trace_def trace_row_def trace.truncate_def)
  note f = strip_counts_its_window[OF a]
  have "fst ` set (kp_by_status (sm_current a)) = {st \<in> tr_status ` set (traces_in (20 - 10) 20 demo_strip). 400 \<le> st}"
    using f by blast
  also have "\<dots> = {503}" by (auto simp: t)
  finally have st: "fst ` set (kp_by_status (sm_current a)) = {503}" .
  have "kp_errors (sm_current a) = int (length (filter (\<lambda>t. 400 \<le> tr_status t) (traces_in (20 - 10) 20 demo_strip)))"
    using f by blast
  then show ?thesis using a st by (simp add: t)
qed

end
