(* ===== verification/Middleware.thy ===== *)
theory Middleware
  imports Engine
begin

text \<open>
  Models \<open>layawatch/http/middleware.py\<close>: the lifecycle of an engine request (trace, credential,
  body, dispatch, failure event, closing) and the passthrough of every other path, in both closing
  modes. A failure is tagged with the phase it happened in. The traceback log line is left out, and
  the principal of a browser session reaches the handlers through their context.
\<close>

definition AUTH_CODE :: string where
  "AUTH_CODE = ''missing_or_invalid_credential''"

definition ENGINE_PATHS :: "string list" where
  "ENGINE_PATHS = [''/predict'', ''/route'']"

section \<open>Credential and body\<close>

definition presented_credential :: "request \<Rightarrow> string option \<times> string" where
  "presented_credential rq = (case presented_key rq of None \<Rightarrow> (None, ''none'') | Some k \<Rightarrow> (Some k, ''api_key''))"

definition check_credential :: "env \<Rightarrow> string option \<Rightarrow> ('e, bool \<times> string option) live" where
  "check_credential ev presented = with_conn (act_bind (db_query auth_armed) (\<lambda>armed.
     case presented of
       None \<Rightarrow> act_return (armed, None)
     | Some k \<Rightarrow> if armed
         then act_bind (verify_key (cx_crypto (ev_ctx ev)) (cx_now (ev_ctx ev)) k (cx_pepper (ev_ctx ev))) (\<lambda>kid. act_return (armed, kid))
         else act_return (armed, None)))"

definition auth_error :: exn where
  "auth_error = http_err 401 AUTH_CODE ''missing or invalid credential'' None"

definition verify_auth :: "env \<Rightarrow> request \<Rightarrow> ('e, unit) live" where
  "verify_auth ev rq =
     (let (presented, scheme) = presented_credential rq in
      act_bind (check_credential ev presented) (\<lambda>(armed, key_id).
      act_bind (trace_set_meta [(''armed'', JBool armed)]) (\<lambda>_.
      act_bind (case key_id of None \<Rightarrow> act_return () | Some k \<Rightarrow> trace_set [(''client_key_id'', JStr k)]) (\<lambda>_.
      with_span ev ''auth.verify''
        ([(''scheme'', JStr (if armed then scheme else ''none'')), (''ok'', JBool (\<not> armed \<or> key_id \<noteq> None))]
          @ (case key_id of None \<Rightarrow> [] | Some k \<Rightarrow> [(''key_id'', JStr k)]))
        (if \<not> armed \<or> key_id \<noteq> None then act_return () else act_raise auth_error)))))"

definition str_of_json :: "env \<Rightarrow> json \<Rightarrow> string" where
  "str_of_json ev v = (case v of JStr s \<Rightarrow> s | _ \<Rightarrow> ev_str ev v)"

definition body_attrs :: "env \<Rightarrow> request \<Rightarrow> json \<Rightarrow> (string \<times> json) list" where
  "body_attrs ev rq parsed =
     [(''state_bytes'', JInt (int (length (rq_body rq))))]
     @ (case parsed of
          JObj kvs \<Rightarrow>
            (case jget kvs ''questions'' of
               JObj qs \<Rightarrow> [(''question_count'', JInt (int (length qs)))]
             | JArr qs \<Rightarrow> [(''question_count'', JInt (int (length qs)))]
             | _ \<Rightarrow> [])
            @ (if jget kvs ''model'' \<noteq> JNull then [(''model_param'', JStr (str_of_json ev (jget kvs ''model'')))] else [])
            @ (if jget kvs ''lang'' \<noteq> JNull then [(''lang_param'', JStr (str_of_json ev (jget kvs ''lang'')))] else [])
        | _ \<Rightarrow> [])"

definition parse_body :: "env \<Rightarrow> request \<Rightarrow> ('e, unit) live" where
  "parse_body ev rq = (case request_json (cx_loads (ev_ctx ev)) rq of
     Inl e \<Rightarrow> with_span ev ''body.parse'' [(''state_bytes'', JInt (int (length (rq_body rq))))] (act_raise e)
   | Inr parsed \<Rightarrow> act_bind (with_span ev ''body.parse'' (body_attrs ev rq parsed) (act_return ())) (\<lambda>_.
       act_modify (\<lambda>s. s\<lparr>lf_parsed := Some parsed\<rparr>)))"

section \<open>Failures\<close>

text \<open>\<open>_envelope_error\<close>: code and message of an error envelope, or the status.\<close>

definition envelope_error :: "env \<Rightarrow> response \<Rightarrow> string \<times> string" where
  "envelope_error ev resp =
     (let fallback = (''http_'' @ str_int (rs_status resp), []) in
      case cx_loads (ev_ctx ev) (body_bytes (ev_render ev) (rs_body resp)) of
        Inr (JObj kvs) \<Rightarrow> (case map_of kvs ''error'' of
            Some (JObj err) \<Rightarrow> (case map_of err ''code'' of
                Some code \<Rightarrow> (str_of_json ev code,
                  case map_of err ''message'' of Some m \<Rightarrow> str_of_json ev m | None \<Rightarrow> [])
              | None \<Rightarrow> fallback)
          | _ \<Rightarrow> fallback)
      | _ \<Rightarrow> fallback)"

definition note_error :: "env \<Rightarrow> string \<Rightarrow> string \<Rightarrow> string \<Rightarrow> string \<Rightarrow> ('e, unit) live" where
  "note_error ev code message shown ph =
     act_bind (trace_event ev ''error'' JNull JNull [(''code'', JStr code), (''message'', JStr message), (''where'', JStr ph)]) (\<lambda>_.
     trace_set [(''error_code'', JStr code), (''error_message'', JStr shown)])"

definition record_failure_of :: "env \<Rightarrow> response \<Rightarrow> string \<Rightarrow> ('e, unit) live" where
  "record_failure_of ev resp ph = (case envelope_error ev resp of (code, message) \<Rightarrow> note_error ev code message message ph)"

definition failure_response :: "request \<Rightarrow> exn \<Rightarrow> response" where
  "failure_response rq e = (case e of HttpErr he \<Rightarrow> error_response he (rq_id rq) | PyExc _ \<Rightarrow> error_response internal_error (rq_id rq))"

definition note_failure :: "env \<Rightarrow> string \<Rightarrow> exn \<Rightarrow> ('e, unit) live" where
  "note_failure ev ph e = (case e of
     HttpErr he \<Rightarrow> note_error ev (he_code he) (he_message he) (he_message he) ph
   | PyExc x \<Rightarrow> note_error ev (he_code internal_error) (he_message internal_error) (ev_exc ev x) ph)"

section \<open>The lifecycle\<close>

definition phased :: "string \<Rightarrow> ('e, 'a) live \<Rightarrow> (string \<times> exn, 'e life, 'a) act" where
  "phased ph m s = (case m s of (Inl e, t) \<Rightarrow> (Inl (ph, e), t) | (Inr a, t) \<Rightarrow> (Inr a, t))"

definition dispatched :: "env \<Rightarrow> 'e life router \<Rightarrow> request \<Rightarrow> ('e, response) live" where
  "dispatched ev router rq s = (let (resp, t) = dispatch (ev_render ev) router rq s in (Inr resp, t))"

definition receive_attrs :: "request \<Rightarrow> (string \<times> json) list" where
  "receive_attrs rq = [(''method'', JStr (rq_method rq)), (''path'', JStr (rq_path rq)), (''remote'', JStr (rq_client_ip rq)),
     (''content_length'', JInt (int (length (rq_body rq))))]"

definition engine_stages :: "env \<Rightarrow> 'e life router \<Rightarrow> request \<Rightarrow> (string \<times> exn, 'e life, response) act" where
  "engine_stages ev router rq =
     act_bind (phased ''http.receive'' (with_span ev ''http.receive'' (receive_attrs rq) (act_return ()))) (\<lambda>_.
     act_bind (phased ''auth.verify'' (verify_auth ev rq)) (\<lambda>_.
     act_bind (phased ''body.parse'' (parse_body ev rq)) (\<lambda>_.
     phased ''handler'' (act_bind (dispatched ev router rq) (\<lambda>resp.
       act_bind (act_when (400 \<le> rs_status resp) (record_failure_of ev resp ''handler'')) (\<lambda>_.
       act_return resp))))))"

datatype closing = Closed | OnSent "(nat \<times> pyfloat) option"

definition send_attrs :: "env \<Rightarrow> int \<Rightarrow> response \<Rightarrow> (string \<times> json) list" where
  "send_attrs ev status resp = [(''status'', JInt status), (''bytes'', JInt (int (length (body_bytes (ev_render ev) (rs_body resp)))))]"

definition close_now :: "env \<Rightarrow> int \<Rightarrow> response \<Rightarrow> ('e, unit) live" where
  "close_now ev status resp = act_bind (with_span ev ''response.send'' (send_attrs ev status resp) (act_return ())) (\<lambda>_ s.
     (Inr (), finish_trace ev status s))"

definition begin_request :: "env \<Rightarrow> request \<Rightarrow> 'e life \<Rightarrow> 'e life" where
  "begin_request ev rq s = s\<lparr>lf_trace := start_trace (lf_recorder s) (ev_id ev (lf_tick s)) (rq_path rq) (rq_method rq) (Some (rq_id rq)) None None
     (ev_clock ev (lf_tick s)) (cx_now (ev_ctx ev)), lf_parsed := None, lf_tick := Suc (lf_tick s)\<rparr>"

definition close_request :: "env \<Rightarrow> bool \<Rightarrow> response \<Rightarrow> ('e, response \<times> closing) live" where
  "close_request ev close_on_sent resp =
     (if close_on_sent
      then (\<lambda>s. case enter_span ev ''response.send'' (send_attrs ev (rs_status resp) resp) s of
              (Inr h, t) \<Rightarrow> (Inr (resp, OnSent h), t)
            | (Inl x, t) \<Rightarrow> act_bind (close_now ev (rs_status resp) resp) (\<lambda>_. act_raise x) t)
      else act_bind (close_now ev (rs_status resp) resp) (\<lambda>_. act_return (resp, Closed)))"

definition engine_request :: "env \<Rightarrow> bool \<Rightarrow> 'e life router \<Rightarrow> request \<Rightarrow> ('e, response \<times> closing) live" where
  "engine_request ev close_on_sent router rq s =
     (case engine_stages ev router rq (begin_request ev rq s) of
        (Inr resp, t) \<Rightarrow> close_request ev close_on_sent resp t
      | (Inl (ph, e), t) \<Rightarrow> (case note_failure ev ph e t of
            (Inr _, u) \<Rightarrow> close_request ev close_on_sent (failure_response rq e) u
          | (Inl x, u) \<Rightarrow> act_bind (close_now ev 500 (failure_response rq e)) (\<lambda>_. act_raise x) u))"

definition passthrough :: "env \<Rightarrow> 'e life router \<Rightarrow> request \<Rightarrow> ('e, response \<times> closing) live" where
  "passthrough ev router rq s =
     (case enforce_browser_session (cx_crypto (ev_ctx ev)) (cx_now (ev_ctx ev)) rq s of
        (Inl (HttpErr e), t) \<Rightarrow> (Inr (error_response e (rq_id rq), Closed), t)
      | (Inl (PyExc x), t) \<Rightarrow> (Inl (PyExc x), t)
      | (Inr _, t) \<Rightarrow> (let (resp, u) = dispatch (ev_render ev) router rq t in (Inr (resp, Closed), u)))"

definition handle :: "env \<Rightarrow> bool \<Rightarrow> 'e life router \<Rightarrow> request \<Rightarrow> ('e, response \<times> closing) live" where
  "handle ev close_on_sent router rq =
     (if rq_path rq \<in> set ENGINE_PATHS then engine_request ev close_on_sent router rq else passthrough ev router rq)"

text \<open>The hook the server calls after writing the body.\<close>

definition sent_hook :: "env \<Rightarrow> int \<Rightarrow> (nat \<times> pyfloat) option \<Rightarrow> 'e life \<Rightarrow> 'e life" where
  "sent_hook ev status h s = finish_trace ev status (case h of None \<Rightarrow> s | Some h \<Rightarrow> leave_span ev h False s)"


lemma carries_names: "carries s t \<Longrightarrow> prefix (names_of s) (names_of t)"
  by (auto simp: carries_def names_of_def split: option.splits)

section \<open>Spans that cannot fail on an open trace\<close>

text \<open>The spans of the lifecycle are in the vocabulary with the attributes they are given.\<close>

definition good_span :: "string \<Rightarrow> (string \<times> json) list \<Rightarrow> bool" where
  "good_span name attrs \<longleftrightarrow> (\<exists>ty meta. observation_type name = Inr ty \<and> ty \<noteq> ''event'' \<and> validate name attrs = Inr meta)"

lemma good_spans:
  "good_span ''http.receive'' (receive_attrs rq)"
  "good_span ''auth.verify'' ([(''scheme'', JStr a), (''ok'', JBool b)] @ (case k of None \<Rightarrow> [] | Some k \<Rightarrow> [(''key_id'', JStr k)]))"
  "good_span ''body.parse'' [(''state_bytes'', JInt n)]"
  "good_span ''body.parse'' (body_attrs ev rq parsed)"
  "good_span ''response.send'' (send_attrs ev st resp)"
  by (auto simp: good_span_def observation_type_def validate_def span_entry_def TABLE_def receive_attrs_def send_attrs_def
      body_attrs_def split: option.splits json.splits)

lemma enter_ok:
  assumes "open_trace s" "good_span name attrs"
  shows "\<exists>h t. enter_span ev name attrs s = (Inr (Some h), t) \<and> names_of t = names_of s @ [name]"
proof -
  obtain c where c: "lf_trace s = Some c" "\<not> tx_finished c" using assms(1) by (auto simp: open_trace_def)
  have "\<exists>sp. ctx_span (ev_render ev) (lf_recorder s) name JNull JNull attrs c = (Inr sp, c) \<and> os_name sp = name"
    using assms(2) c by (auto simp: good_span_def ctx_span_def check_active_def act_simps capture_payload_def)
  then show ?thesis using c
    by (auto simp: enter_span_def span_enter_def Let_def names_of_def)
qed

lemma leave_names [simp]: "names_of (leave_span ev h raised s) = names_of s"
  by (auto simp: leave_span_def names_of_def span_exit_def split: option.splits prod.splits)

lemma span_names:
  assumes "open_trace s" "good_span name attrs"
  obtains t where "with_span ev name attrs (act_return ()) s = (Inr (), t)" "names_of t = names_of s @ [name]"
    "with_span ev name attrs (act_raise e :: ('e, unit) live) s = (Inl e, snd (with_span ev name attrs (act_raise e :: ('e, unit) live) s))"
    "names_of (snd (with_span ev name attrs (act_raise e :: ('e, unit) live) s)) = names_of s @ [name]"
  using enter_ok[OF assms, of ev] that
  by (auto simp: with_span_def act_bind_def act_return_def act_raise_def)

lemma set_names [simp]: "names_of (snd (trace_set kvs s)) = names_of s"
proof (cases "lf_trace s")
  case (Some c)
  then show ?thesis using ctx_set_spans[of kvs c "fst (ctx_set kvs c)" "snd (ctx_set kvs c)"]
    by (auto simp: trace_set_def in_trace_def names_of_def same_spans_def split: prod.splits sum.splits)
qed (simp add: trace_set_def in_trace_def names_of_def)

lemma event_ok:
  assumes "open_trace s"
  shows "fst (trace_event ev ''error'' JNull JNull [(''code'', JStr a), (''message'', JStr b), (''where'', JStr w)] s) = Inr ()"
  using assms
  by (auto simp: trace_event_def in_trace_def open_trace_def ctx_event_def check_active_def act_simps capture_payload_def
      observation_type_def validate_def span_entry_def TABLE_def)

lemma carry_note [carry]: "carrying (note_error ev a b c w)"
  unfolding note_error_def by (intro carry)

lemma note_error_ok:
  assumes "open_trace s"
  shows "fst (note_error ev a b c w s) = Inr ()"
proof -
  obtain t where e: "trace_event ev ''error'' JNull JNull [(''code'', JStr a), (''message'', JStr b), (''where'', JStr w)] s = (Inr (), t)"
    using event_ok[OF assms] by (metis prod.collapse)
  have "open_trace t" using carries_open[OF carryingD[OF carry_event e] assms] .
  then show ?thesis using set_ok[of t] by (simp add: note_error_def act_bind_def e SETTABLE_FIELDS_def)
qed


section \<open>Every stage carries the trace\<close>

lemma carry_prod [carry]: "(\<And>a b. r = (a, b) \<Longrightarrow> carrying (m a b)) \<Longrightarrow> carrying (case r of (a, b) \<Rightarrow> m a b)"
  by (cases r) simp

lemma carry_verify_key [carry]: "carrying (verify_key cr now k pepper)"
  unfolding verify_key_def by (intro carry)

lemma carry_check [carry]: "carrying (check_credential ev k)"
  unfolding check_credential_def by (intro carry)

lemma carry_verify_auth [carry]: "carrying (verify_auth ev rq)"
  unfolding verify_auth_def Let_def by (intro carry)

lemma carry_parsed [carry]: "carrying (act_modify (\<lambda>s. s\<lparr>lf_parsed := p\<rparr>))"
  by (simp add: carrying_def act_modify_def carries_def split: option.splits)

lemma carry_sum [carry]: "(\<And>a. carrying (m a)) \<Longrightarrow> (\<And>b. carrying (n b)) \<Longrightarrow> carrying (case r of Inl a \<Rightarrow> m a | Inr b \<Rightarrow> n b)"
  by (cases r) simp_all

lemma carry_parse_body [carry]: "carrying (parse_body ev rq)"
  unfolding parse_body_def by (intro carry)

lemma carry_record_failure [carry]: "carrying (record_failure_of ev resp ph)"
  unfolding record_failure_of_def by (intro carry)

lemma carry_note_failure [carry]: "carrying (note_failure ev ph e)"
  unfolding note_failure_def by (cases e) (auto intro: carry)

lemma carry_phased [carry]: "carrying m \<Longrightarrow> carrying (phased ph m)"
  by (auto simp: carrying_def phased_def split: prod.splits sum.splits) (metis snd_conv)+

text \<open>A handler that carries the trace is dispatched to without losing it.\<close>

lemma carry_dispatched:
  assumes "carrying (route (ev_render ev) router rq)"
  shows "carrying (dispatched ev router rq)"
  using assms by (auto simp: carrying_def dispatched_def dispatch_def Let_def split: prod.splits) (metis snd_conv)

lemma carry_stages:
  assumes "carrying (route (ev_render ev) router rq)"
  shows "carrying (engine_stages ev router rq)"
  unfolding engine_stages_def by (intro carry carry_dispatched assms)

text \<open>The answer of the stages and their trace: failures are noted on it.\<close>

definition settled :: "env \<Rightarrow> 'e life router \<Rightarrow> request \<Rightarrow> ('e, response) live" where
  "settled ev router rq s = (case engine_stages ev router rq s of
     (Inr resp, t) \<Rightarrow> (Inr resp, t)
   | (Inl (ph, e), t) \<Rightarrow> (case note_failure ev ph e t of (Inr _, u) \<Rightarrow> (Inr (failure_response rq e), u) | (Inl x, u) \<Rightarrow> (Inl x, u)))"

lemma carry_settled:
  assumes "carrying (route (ev_render ev) router rq)"
  shows "carrying (settled ev router rq)"
  unfolding carrying_def
proof
  fix s :: "'a life"
  obtain r t where st: "engine_stages ev router rq s = (r, t)" by (cases "engine_stages ev router rq s")
  have c: "carries s t" by (rule carryingD[OF carry_stages[OF assms] st])
  show "carries s (snd (settled ev router rq s))"
  proof (cases r)
    case (Inl pe)
    obtain ph e where pe: "pe = (ph, e)" by (cases pe)
    obtain x u where n: "note_failure ev ph e t = (x, u)" by (cases "note_failure ev ph e t")
    have "carries s u" using carries_trans[OF c carryingD[OF carry_note_failure n]] .
    then show ?thesis by (cases x) (simp_all add: settled_def st Inl pe n)
  qed (use c in \<open>simp add: settled_def st\<close>)
qed

lemma engine_request_settled:
  assumes "carrying (route (ev_render ev) router rq)" "open_trace (begin_request ev rq s)"
  obtains resp t where "settled ev router rq (begin_request ev rq s) = (Inr resp, t)"
    "engine_request ev mode router rq s = close_request ev mode resp t" "carries (begin_request ev rq s) t" "open_trace t"
proof -
  let ?s = "begin_request ev rq s"
  obtain r t where st: "engine_stages ev router rq ?s = (r, t)" by (cases "engine_stages ev router rq ?s")
  have op: "open_trace t" using carries_open[OF carryingD[OF carry_stages[OF assms(1)] st] assms(2)] .
  note wit = that
  have fin: thesis if "settled ev router rq ?s = (Inr resp, u)" "engine_request ev mode router rq s = close_request ev mode resp u"
    for resp u
    using wit[OF that] carryingD[OF carry_settled[OF assms(1)] that(1)] carries_open[OF _ assms(2)] by blast
  show thesis
  proof (cases r)
    case (Inl pe)
    obtain ph e where pe: "pe = (ph, e)" by (cases pe)
    have "fst (note_failure ev ph e t) = Inr ()"
      unfolding note_failure_def by (cases e) (simp_all add: note_error_ok[OF op])
    then obtain u where n: "note_failure ev ph e t = (Inr (), u)" by (metis prod.collapse)
    show thesis by (rule fin) (simp_all add: settled_def engine_request_def st Inl pe n)
  next
    case (Inr resp)
    show thesis by (rule fin) (simp_all add: settled_def engine_request_def st Inr)
  qed
qed

lemma begin_open:
  assumes "rc_enabled (lf_recorder s)" "rq_id rq \<noteq> []"
  shows "open_trace (begin_request ev rq s)" "names_of (begin_request ev rq s) = []"
    "lf_sent (begin_request ev rq s) = lf_sent s" "lf_recorder (begin_request ev rq s) = lf_recorder s"
    "\<exists>c. lf_trace (begin_request ev rq s) = Some c \<and> tx_id c = rq_id rq"
  using assms by (auto simp: begin_request_def start_trace_def open_trace_def names_of_def)

text \<open>Delivering an open trace.\<close>

lemma finish_open:
  assumes "lf_trace s = Some c" "\<not> tx_finished c"
  obtains t where "lf_sent (finish_trace ev status s) = lf_sent s @ [t]" "tr_id t = tx_id c" "tr_status t = status"
    "400 \<le> status \<longrightarrow> is_kept t" "is_kept t \<longrightarrow> map ob_name (fi_observations t) = names_of s"
    "finish_trace ev st2 (finish_trace ev status s) = (finish_trace ev status s)\<lparr>lf_tick := Suc (lf_tick (finish_trace ev status s))\<rparr>"
proof -
  obtain out notice rc c' where f: "ctx_finish status (ev_clock ev (lf_tick s)) (cx_now (ev_ctx ev)) (ev_draw ev) (lf_recorder s) c = (out, notice, rc, c')"
    by (metis prod_cases4)
  have names: "map ob_name (settle d st os) = map ob_name os" for d st os
  proof (induction st arbitrary: os)
    case (Cons i st)
    have "map ob_name (os[i := (os ! i)\<lparr>ob_duration_ms := x\<rparr>]) = map ob_name os" for x
      by (cases "i < length os") (simp_all add: map_update list_update_same_conv list_update_beyond)
    then show ?case using Cons.IH by (simp add: settle_def)
  qed (simp add: settle_def)
  have kept: "fi_observations (finished_trace rc st keep d obs cx) = (if keep then obs else [])" for rc st keep d obs cx
    by (simp add: finished_trace_def)
  obtain t where t: "out = Some t" "tr_id t = tx_id c" "tr_status t = status" "is_kept t \<longleftrightarrow> always_keep status c \<or> ev_draw ev < rc_sample_rate (lf_recorder s)"
    and again: "\<And>now2 wall2 draw2. ctx_finish st2 now2 wall2 draw2 rc c' = (None, None, rc, c')"
    using sampling_keeps_what_matters[OF f assms(2)] by blast
  have obs: "is_kept t \<longrightarrow> map ob_name (fi_observations t) = map ob_name (tx_obs c)"
    using f assms(2) t(1) names kept by (auto simp: ctx_finish_def Let_def writer_sees_flag split: if_splits)
  show thesis
    by (rule that[of t]) (use assms t obs again in \<open>auto simp: finish_trace_def f names_of_def always_keep_def Let_def\<close>)
qed

text \<open>Closing before the answer: the send span, then the delivery.\<close>

lemma close_delivers:
  assumes "lf_trace s = Some c" "\<not> tx_finished c"
  obtains t s' where "close_request ev False resp s = (Inr (resp, Closed), s')" "lf_sent s' = lf_sent s @ [t]" "tr_id t = tx_id c"
    "tr_status t = rs_status resp" "400 \<le> rs_status resp \<longrightarrow> is_kept t"
    "is_kept t \<longrightarrow> map ob_name (fi_observations t) = names_of s @ [''response.send'']"
proof -
  have op: "open_trace s" using assms by (simp add: open_trace_def)
  obtain u where u: "with_span ev ''response.send'' (send_attrs ev (rs_status resp) resp) (act_return ()) s = (Inr (), u)"
    "names_of u = names_of s @ [''response.send'']"
    by (rule span_names[OF op good_spans(5)])
  have "carrying (with_span ev ''response.send'' (send_attrs ev (rs_status resp) resp) (act_return () :: ('a, unit) live))"
    by (intro carry)
  from carryingD[OF this u(1)] obtain d where d: "lf_trace u = Some d" "\<not> tx_finished d" "tx_id d = tx_id c" "lf_sent u = lf_sent s"
    using assms by (auto simp: carries_def)
  show thesis
    by (rule finish_open[OF d(1,2), of ev "rs_status resp"], rule that)
       (use u d in \<open>auto simp: close_request_def close_now_def act_bind_def act_return_def\<close>)
qed


section \<open>The engine requests\<close>

lemma carry_engine_router: "carrying (route fr (engine_router ev ad) rq)"
proof -
  have m: "router_match (engine_router ev ad) (rq_path rq) =
      (if rq_path rq = ''/predict'' then Some [(''POST'', predict_handler ev ad)]
       else if rq_path rq = ''/route'' then Some [(''POST'', route_handler ad)] else None)"
    by (simp add: router_match_def engine_router_def router_add_def empty_router_def is_prefix_pattern_def methods_in_def
        py_upper_ascii_def cp_def)
  show ?thesis
    unfolding route_def m Let_def by (auto intro!: carry carry_handlers)
qed

lemma verify_auth_run:
  fixes s :: "'e life"
  assumes "open_trace s"
  shows "names_of (snd (verify_auth ev rq s)) = names_of s @ [''auth.verify'']"
    "\<exists>armed key. fst (check_credential ev (fst (presented_credential rq)) s) = Inr (armed, key)
       \<and> fst (verify_auth ev rq s) = (if \<not> armed \<or> key \<noteq> None then Inr () else Inl auth_error)"
proof -
  obtain presented scheme where p: "presented_credential rq = (presented, scheme)" by (cases "presented_credential rq")
  obtain r t where ck: "check_credential ev presented s = (r, t)" by (cases "check_credential ev presented s")
  have "isl r = False \<and> lf_trace t = lf_trace s"
    using ck by (auto simp: check_credential_def with_conn_run act_simps verify_key_def conn_close_def
        split: option.splits if_splits)
  then obtain armed key where r: "r = Inr (armed, key)" and tr: "lf_trace t = lf_trace s" by (cases r) auto
  have op: "open_trace t" "names_of t = names_of s" using assms tr by (simp_all add: open_trace_def names_of_def)
  have nm: "names_of (snd (trace_set_meta kvs t)) = names_of t" for kvs
    by (auto simp: trace_set_meta_def in_trace_def names_of_def ctx_set_meta_def check_active_def act_simps split: option.splits)
  obtain u where u: "trace_set_meta [(''armed'', JBool armed)] t = (Inr (), u)" using set_meta_ok[OF op(1)] by (metis prod.collapse)
  have ou: "open_trace u" "names_of u = names_of s"
    using carries_open[OF carryingD[OF carry_set_meta u] op(1)] nm[of "[(''armed'', JBool armed)]"] op(2) by (simp_all add: u)
  define m :: "('e, unit) live" where "m = (case key of None \<Rightarrow> act_return () | Some k \<Rightarrow> trace_set [(''client_key_id'', JStr k)])"
  have "fst (m u) = Inr () \<and> names_of (snd (m u)) = names_of u"
    using set_ok[OF ou(1)] by (simp add: m_def act_return_def SETTABLE_FIELDS_def split: option.splits)
  then obtain v where v: "m u = (Inr (), v)" "names_of v = names_of u" by (metis prod.collapse snd_conv)
  have cm: "carrying m" by (auto simp: m_def split: option.splits intro: carry)
  have ov: "open_trace v" using cm v(1) ou(1) by (meson carries_open carryingD)
  let ?attrs = "[(''scheme'', JStr (if armed then scheme else ''none'')), (''ok'', JBool (\<not> armed \<or> key \<noteq> None))]
      @ (case key of None \<Rightarrow> [] | Some k \<Rightarrow> [(''key_id'', JStr k)])"
  obtain w where w: "with_span ev ''auth.verify'' ?attrs (act_return ()) v = (Inr (), w)" "names_of w = names_of v @ [''auth.verify'']"
    "with_span ev ''auth.verify'' ?attrs (act_raise auth_error :: ('e, unit) live) v
       = (Inl auth_error, snd (with_span ev ''auth.verify'' ?attrs (act_raise auth_error :: ('e, unit) live) v))"
    "names_of (snd (with_span ev ''auth.verify'' ?attrs (act_raise auth_error :: ('e, unit) live) v)) = names_of v @ [''auth.verify'']"
    by (rule span_names[OF ov good_spans(2), where e = auth_error])
  have run: "verify_auth ev rq s = with_span ev ''auth.verify'' ?attrs
      (if \<not> armed \<or> key \<noteq> None then act_return () else act_raise auth_error) v"
    by (simp add: verify_auth_def p act_bind_def[of "check_credential ev presented"] ck r
        act_bind_def[of "trace_set_meta [(''armed'', JBool armed)]"] u m_def[symmetric] act_bind_def[of m] v(1))
  show "names_of (snd (verify_auth ev rq s)) = names_of s @ [''auth.verify'']"
    unfolding run using w v(2) ou(2) by (cases "\<not> armed \<or> key \<noteq> None") (simp_all only: if_True if_False snd_conv)
  have "fst (verify_auth ev rq s) = (if \<not> armed \<or> key \<noteq> None then Inr () else Inl auth_error)"
    unfolding run using arg_cong[OF w(1), of fst] arg_cong[OF w(3), of fst]
    by (cases "\<not> armed \<or> key \<noteq> None") (simp_all only: if_True if_False fst_conv)
  then show "\<exists>armed key. fst (check_credential ev (fst (presented_credential rq)) s) = Inr (armed, key)
       \<and> fst (verify_auth ev rq s) = (if \<not> armed \<or> key \<noteq> None then Inr () else Inl auth_error)"
    using ck r p by auto
qed

lemma settled_names:
  fixes s :: "'e life"
  assumes "carrying (route (ev_render ev) router rq)" "open_trace s" "names_of s = []"
  shows "prefix [''http.receive'', ''auth.verify''] (names_of (snd (settled ev router rq s)))"
proof -
  obtain t where t: "with_span ev ''http.receive'' (receive_attrs rq) (act_return ()) s = (Inr (), t)" "names_of t = names_of s @ [''http.receive'']"
    by (rule span_names[OF assms(2) good_spans(1)])
  have recv: "carrying (with_span ev ''http.receive'' (receive_attrs rq) (act_return () :: ('e, unit) live))" by (intro carry)
  have op: "open_trace t" by (rule carries_open[OF carryingD[OF recv t(1)] assms(2)])
  obtain r u where u: "verify_auth ev rq t = (r, u)" by (cases "verify_auth ev rq t")
  have n: "names_of u = [''http.receive'', ''auth.verify'']" using verify_auth_run(1)[OF op, of ev rq] t(2) assms(3) by (simp add: u)
  define rest where "rest = act_bind (phased ''body.parse'' (parse_body ev rq)) (\<lambda>_.
     phased ''handler'' (act_bind (dispatched ev router rq) (\<lambda>resp.
       act_bind (act_when (400 \<le> rs_status resp) (record_failure_of ev resp ''handler'')) (\<lambda>_. act_return resp))))"
  have cr: "carrying rest" unfolding rest_def by (intro carry carry_dispatched assms)
  have st: "engine_stages ev router rq s = (case r of Inl e \<Rightarrow> (Inl (''auth.verify'', e), u) | Inr _ \<Rightarrow> rest u)"
    by (cases r) (simp_all add: engine_stages_def act_bind_def phased_def t u rest_def)
  obtain r2 v where v: "engine_stages ev router rq s = (r2, v)" by (cases "engine_stages ev router rq s")
  have "carries u v" using carryingD[OF cr, of u r2 v] st v by (cases r) auto
  moreover have "carries v (snd (settled ev router rq s))"
  proof (cases r2)
    case (Inl pe)
    obtain ph e where pe: "pe = (ph, e)" by (cases pe)
    obtain x w where w: "note_failure ev ph e v = (x, w)" by (cases "note_failure ev ph e v")
    show ?thesis using carryingD[OF carry_note_failure w] by (cases x) (simp_all add: settled_def v Inl pe w)
  qed (simp add: settled_def v)
  ultimately show ?thesis using carries_names[OF carries_trans] n by metis
qed

text \<open>The trace of a request and its answer.\<close>

definition traces_request :: "request \<Rightarrow> response \<Rightarrow> finished \<Rightarrow> bool" where
  "traces_request rq resp t \<longleftrightarrow> tr_id t = rq_id rq \<and> tr_status t = rs_status resp \<and> (400 \<le> rs_status resp \<longrightarrow> is_kept t)
     \<and> (is_kept t \<longrightarrow> (\<exists>mid. map ob_name (fi_observations t) = [''http.receive'', ''auth.verify''] @ mid @ [''response.send'']))"

text \<open>Closing after the answer: the send span is opened, nothing is delivered before the hook, and the
  hook delivers once, however often it runs.\<close>

lemma close_defers:
  assumes "lf_trace s = Some c" "\<not> tx_finished c"
  obtains h v t where "close_request ev True resp s = (Inr (resp, OnSent (Some h)), v)" "lf_sent v = lf_sent s"
    "lf_sent (sent_hook ev (rs_status resp) (Some h) v) = lf_sent s @ [t]"
    "lf_sent (sent_hook ev (rs_status resp) None (sent_hook ev (rs_status resp) (Some h) v)) = lf_sent s @ [t]"
    "tr_id t = tx_id c" "tr_status t = rs_status resp" "400 \<le> rs_status resp \<longrightarrow> is_kept t"
    "is_kept t \<longrightarrow> map ob_name (fi_observations t) = names_of s @ [''response.send'']"
proof -
  have op: "open_trace s" using assms by (simp add: open_trace_def)
  obtain h v where v: "enter_span ev ''response.send'' (send_attrs ev (rs_status resp) resp) s = (Inr (Some h), v)"
    "names_of v = names_of s @ [''response.send'']"
    using enter_ok[OF op good_spans(5)] by blast
  have cv: "carries s v" by (rule carryingD[OF carry_enter v(1)])
  then have cl: "carries s (leave_span ev h False v)" by (rule carries_leave)
  obtain d where d: "lf_trace (leave_span ev h False v) = Some d" "\<not> tx_finished d" "tx_id d = tx_id c"
    "lf_sent (leave_span ev h False v) = lf_sent s" "lf_sent v = lf_sent s"
    using cl cv assms by (auto simp: carries_def)
  obtain y where y: "lf_sent (finish_trace ev (rs_status resp) (leave_span ev h False v)) = lf_sent (leave_span ev h False v) @ [y]"
      "tr_id y = tx_id d" "tr_status y = rs_status resp" "400 \<le> rs_status resp \<longrightarrow> is_kept y"
      "is_kept y \<longrightarrow> map ob_name (fi_observations y) = names_of (leave_span ev h False v)"
      "finish_trace ev (rs_status resp) (finish_trace ev (rs_status resp) (leave_span ev h False v))
        = (finish_trace ev (rs_status resp) (leave_span ev h False v))\<lparr>lf_tick := Suc (lf_tick (finish_trace ev (rs_status resp) (leave_span ev h False v)))\<rparr>"
    by (rule finish_open[OF d(1,2)])
  show thesis
    by (rule that[of h v y]) (use v y d in \<open>simp_all add: close_request_def sent_hook_def\<close>)
qed

text \<open>C24: While recording is on, every engine request is answered and leaves exactly one trace, whatever
  the credential, the body, the adapter or the handler do, in both closing modes, with the same
  answer. Closing immediately, the trace is delivered before the answer; closing after the answer, as
  the server runs it, nothing is delivered until the hook, which delivers it once however often it
  runs. The trace carries the request id and the status of the answer, is kept whenever that status is
  400 or more, and when kept its observations begin with the receive and auth spans and end with the
  send span.\<close>

theorem engine_request_leaves_one_trace:
  assumes "rq_path rq \<in> set ENGINE_PATHS" "rc_enabled (lf_recorder s)" "rq_id rq \<noteq> []"
  shows "\<exists>resp. (\<exists>t s'. handle ev False (engine_router ev ad) rq s = (Inr (resp, Closed), s')
        \<and> lf_sent s' = lf_sent s @ [t] \<and> traces_request rq resp t)
    \<and> (\<exists>h t s'. handle ev True (engine_router ev ad) rq s = (Inr (resp, OnSent (Some h)), s') \<and> lf_sent s' = lf_sent s
        \<and> lf_sent (sent_hook ev (rs_status resp) (Some h) s') = lf_sent s @ [t]
        \<and> lf_sent (sent_hook ev (rs_status resp) None (sent_hook ev (rs_status resp) (Some h) s')) = lf_sent s @ [t]
        \<and> traces_request rq resp t)"
proof -
  note b = begin_open[OF assms(2,3), of ev]
  have settles: "\<exists>resp t. settled ev (engine_router ev ad) rq (begin_request ev rq s) = (Inr resp, t)
      \<and> engine_request ev m (engine_router ev ad) rq s = close_request ev m resp t
      \<and> carries (begin_request ev rq s) t \<and> open_trace t" for m
  proof -
    obtain resp t where "settled ev (engine_router ev ad) rq (begin_request ev rq s) = (Inr resp, t)"
      "engine_request ev m (engine_router ev ad) rq s = close_request ev m resp t" "carries (begin_request ev rq s) t" "open_trace t"
      by (rule engine_request_settled[OF carry_engine_router b(1)])
    then show ?thesis by blast
  qed
  obtain resp t where t: "settled ev (engine_router ev ad) rq (begin_request ev rq s) = (Inr resp, t)"
    "carries (begin_request ev rq s) t" "open_trace t"
    using settles by blast
  have modes: "handle ev m (engine_router ev ad) rq s = close_request ev m resp t" for m
    using settles[of m] t(1) assms(1) by (auto simp: handle_def)
  obtain mid where mid: "names_of t = [''http.receive'', ''auth.verify''] @ mid"
    using settled_names[OF carry_engine_router b(1,2), of ev ev ad rq] t(1) by (auto elim: prefixE)
  obtain c where c: "lf_trace t = Some c" "\<not> tx_finished c" using t(3) by (auto simp: open_trace_def)
  have id: "tx_id c = rq_id rq" "lf_sent t = lf_sent s" using t(2) b(3,5) c(1) by (auto simp: carries_def)
  obtain x u where now: "close_request ev False resp t = (Inr (resp, Closed), u)" "lf_sent u = lf_sent t @ [x]" "tr_id x = tx_id c"
      "tr_status x = rs_status resp" "400 \<le> rs_status resp \<longrightarrow> is_kept x"
      "is_kept x \<longrightarrow> map ob_name (fi_observations x) = names_of t @ [''response.send'']"
    by (rule close_delivers[OF c])
  obtain h v y where later: "close_request ev True resp t = (Inr (resp, OnSent (Some h)), v)" "lf_sent v = lf_sent t"
    "lf_sent (sent_hook ev (rs_status resp) (Some h) v) = lf_sent t @ [y]"
    "lf_sent (sent_hook ev (rs_status resp) None (sent_hook ev (rs_status resp) (Some h) v)) = lf_sent t @ [y]"
    "tr_id y = tx_id c" "tr_status y = rs_status resp" "400 \<le> rs_status resp \<longrightarrow> is_kept y"
    "is_kept y \<longrightarrow> map ob_name (fi_observations y) = names_of t @ [''response.send'']"
    by (rule close_defers[OF c])
  have "traces_request rq resp x" "traces_request rq resp y"
    using now later id mid by (simp_all add: traces_request_def)
  then show ?thesis using now(1,2) later(1-4) id(2) unfolding modes by auto
qed


section \<open>No engine without a credential\<close>

text \<open>The switch is off, or a stored key grants the presented secret.\<close>

definition credential_ok :: "env \<Rightarrow> request \<Rightarrow> db \<Rightarrow> bool" where
  "credential_ok ev rq d \<longleftrightarrow> \<not> auth_armed d \<or> (case presented_key rq of None \<Rightarrow> False
     | Some secret \<Rightarrow> \<exists>k \<in> set (db_keys d). key_grants (cx_crypto (ev_ctx ev)) (cx_now (ev_ctx ev)) (cx_pepper (ev_ctx ev)) secret k)"

lemma check_credential_exact:
  assumes "fst (check_credential ev (fst (presented_credential rq)) s) = Inr (armed, key)"
  shows "\<not> armed \<or> key \<noteq> None \<longleftrightarrow> credential_ok ev rq (cn_work s)"
proof (cases "presented_key rq")
  case None
  then show ?thesis using assms
    by (auto simp: check_credential_def presented_credential_def with_conn_run act_simps credential_ok_def)
next
  case (Some secret)
  have ne: "secret \<noteq> []" using Some by (auto simp: presented_key_def Let_def split: if_splits)
  then show ?thesis
    using assms Some find_None[of "key_accepts (cx_crypto (ev_ctx ev)) (cx_now (ev_ctx ev)) (cx_pepper (ev_ctx ev)) secret" "db_keys (cn_work s)"]
    by (auto simp: check_credential_def presented_credential_def with_conn_run act_simps act_bind_def[of "verify_key _ _ _ _"]
        verify_key_run ne key_accepts_iff credential_ok_def split: if_splits option.splits)
qed

lemma span_db [simp]:
  "cn_work (snd (with_span ev name attrs (act_return a) s)) = cn_work s"
  "cn_work (begin_request ev rq s) = cn_work s"
  by (auto simp: with_span_def enter_span_def act_bind_def act_return_def leave_span_def begin_request_def Let_def
      split: option.splits prod.splits sum.splits)



section \<open>What comes before the method\<close>

text \<open>The body is parsed before the method is looked at: a GET, HEAD or OPTIONS of an engine path
  without a body is answered 400 \<open>invalid_json\<close> once the credential is accepted, never by the router's
  405 or its OPTIONS answer.\<close>

theorem engine_path_parses_before_method:
  assumes "rq_path rq \<in> set ENGINE_PATHS" "rc_enabled (lf_recorder s)" "rq_id rq \<noteq> []"
    and "rq_body rq = []" "\<not> auth_armed (cn_work s)"
  shows "fst (handle ev False (engine_router ev ad) rq s) = Inr (error_response \<lparr>he_status = 400, he_code = ''invalid_json'',
     he_message = ''request body is empty'', he_details = None\<rparr> (rq_id rq), Closed)"
proof -
  note b = begin_open[OF assms(2,3), of ev]
  obtain t where t: "with_span ev ''http.receive'' (receive_attrs rq) (act_return ()) (begin_request ev rq s) = (Inr (), t)"
    by (rule span_names[OF b(1) good_spans(1)])
  have recv: "carrying (with_span ev ''http.receive'' (receive_attrs rq) (act_return () :: ('a, unit) live))" by (intro carry)
  have op: "open_trace t" by (rule carries_open[OF carryingD[OF recv t] b(1)])
  have "cn_work t = cn_work s" using span_db(1)[of ev "''http.receive''" "receive_attrs rq" "()" "begin_request ev rq s"] t by simp
  then have "credential_ok ev rq (cn_work t)" using assms(5) by (simp add: credential_ok_def)
  then have "fst (verify_auth ev rq t) = Inr ()"
    using verify_auth_run(2)[OF op, of ev rq] check_credential_exact by metis
  then obtain u where u: "verify_auth ev rq t = (Inr (), u)" by (metis prod.collapse)
  have ou: "open_trace u" by (rule carries_open[OF carryingD[OF carry_verify_auth u] op])
  let ?e = "http_err 400 ''invalid_json'' ''request body is empty'' None"
  obtain w where w: "parse_body ev rq u = (Inl ?e, w)"
    by (rule span_names[OF ou good_spans(3), of _ _ ?e]) (simp add: parse_body_def request_json_def assms(4))
  have st: "engine_stages ev router rq (begin_request ev rq s) = (Inl (''body.parse'', ?e), w)" for router
    by (simp add: engine_stages_def act_bind_def phased_def t u w)
  obtain resp v where v: "settled ev (engine_router ev ad) rq (begin_request ev rq s) = (Inr resp, v)"
    "engine_request ev False (engine_router ev ad) rq s = close_request ev False resp v" "open_trace v"
    by (rule engine_request_settled[OF carry_engine_router b(1)])
  have resp: "resp = failure_response rq ?e" using v(1) by (auto simp: settled_def st split: prod.splits sum.splits)
  obtain c where c: "lf_trace v = Some c" "\<not> tx_finished c" using v(3) by (auto simp: open_trace_def)
  obtain s' where "close_request ev False resp v = (Inr (resp, Closed), s')" by (rule close_delivers[OF c])
  then show ?thesis using assms(1) v(2) by (simp add: handle_def resp failure_response_def http_err_def)
qed


section \<open>Witnesses\<close>

definition demo_env :: "string \<Rightarrow> env" where
  "demo_env bodytext = \<lparr>ev_ctx = \<lparr>cx_config = default_config, cx_crypto = \<lparr>cr_sha256 = (\<lambda>m. ''s'' @ m), cr_hmac = (\<lambda>p m. ''h'' @ p @ m)\<rparr>,
       cx_pepper = ''P'', cx_scrypt = (\<lambda>_ _ _ _ _ _. None), cx_deny = {}, cx_loads = (\<lambda>b. Inr (JObj [(''state'', JObj []), (''questions'', JObj [])])),
       cx_now = 50, cx_mono = 50, cx_token = ''tok'', cx_csrf = ''csrf'', cx_uid = ''u9'', cx_salt = [], cx_draws = [], cx_cached = None\<rparr>,
     ev_render = (\<lambda>_. ''0''), ev_id = (\<lambda>_. ''o''), ev_clock = of_nat, ev_draw = 0, ev_str = (\<lambda>_. []), ev_exc = (\<lambda>_. bodytext)\<rparr>"

definition demo_engine :: fake where
  "demo_engine = \<lparr>fk_known = [''english''], fk_error = None, fk_remaining = 0, fk_loaded = [], fk_counters = []\<rparr>"

definition demo_life :: "bool \<Rightarrow> fake life" where
  "demo_life armed = (let d = if armed then put_setting AUTH_SETTINGS_KEY ''true'' 0 None empty_db else empty_db in
     \<lparr>cn_committed = d, cn_work = d, as_backoff = new_backoff 5 900, as_buckets = [], lf_engine = demo_engine,
      lf_recorder = demo_recorder, lf_trace = None, lf_parsed = None, lf_tick = 0, lf_sent = [], lf_notices = []\<rparr>)"

definition engine_rq :: request where
  "engine_rq = \<lparr>rq_method = ''GET'', rq_path = ''/predict'', rq_query = [], rq_headers = [], rq_body = [], rq_id = ''r1'', rq_client_ip = ''ip''\<rparr>"

lemma demo_life_ok: "rq_path engine_rq \<in> set ENGINE_PATHS" "rc_enabled (lf_recorder (demo_life b))" "rq_id engine_rq \<noteq> []"
  by (simp_all add: engine_rq_def ENGINE_PATHS_def demo_life_def demo_recorder_def Let_def)

theorem engine_request_leaves_one_trace_witness:
  "\<exists>resp t h u. map tr_id (lf_sent (snd (handle (demo_env []) False (engine_router (demo_env []) (fake_adapter id (\<lambda>_. ''0''))) engine_rq (demo_life False)))) = [t]
     \<and> handle (demo_env []) True (engine_router (demo_env []) (fake_adapter id (\<lambda>_. ''0''))) engine_rq (demo_life False) = (Inr (resp, OnSent (Some h)), u)
     \<and> lf_sent u = [] \<and> map tr_id (lf_sent (sent_hook (demo_env []) (rs_status resp) (Some h) u)) = [''r1'']"
proof -
  have e: "lf_sent (demo_life False) = []" "rq_id engine_rq = ''r1''" by (simp_all add: demo_life_def engine_rq_def Let_def)
  show ?thesis
    using engine_request_leaves_one_trace[OF demo_life_ok(1) demo_life_ok(2)[of False] demo_life_ok(3), where ev = "demo_env []" and ad = "fake_adapter id (\<lambda>_. ''0'')"]
    unfolding e traces_request_def by fastforce
qed


theorem engine_path_parses_before_method_witness:
  "\<exists>resp. fst (handle (demo_env []) False (engine_router (demo_env []) (fake_adapter id (\<lambda>_. ''0''))) engine_rq (demo_life False)) = Inr (resp, Closed)
     \<and> rs_status resp = 400"
proof -
  have "rq_body engine_rq = []" "\<not> auth_armed (cn_work (demo_life False))" by code_simp+
  from engine_path_parses_before_method[OF demo_life_ok(1) demo_life_ok(2)[of False] demo_life_ok(3) this]
  show ?thesis by simp
qed

end
