(* ===== verification/Api_Models.thy ===== *)
theory Api_Models
  imports Model_Lifecycle Metrics Middleware
begin

text \<open>
  Models \<open>layawatch/api/models.py\<close>: the list with its statistics block, and the load and unload
  endpoints over any adapter with the lifecycle operations of the \<open>EngineAdapter\<close> protocol. Both
  adapters of the source provide them. The stream event of a change is part of the result. The two
  clock readings of the statistics are one value, and the resident set size is an argument.
\<close>

section \<open>The lifecycle operations of an adapter\<close>

datatype model_fault = MemoryFault string | BusyFault string | ValueFault string | CrashFault pyexc

record 'e checkpoints =
  ck_listing :: "'e \<Rightarrow> string list \<times> 'e"
  ck_load :: "string list \<Rightarrow> 'e \<Rightarrow> (model_fault + unit) \<times> 'e"
  ck_unload :: "string list \<Rightarrow> 'e \<Rightarrow> (model_fault + unit) \<times> 'e"
  ck_device :: "'e \<Rightarrow> string \<times> 'e"

text \<open>The message of the fake's refusal; its \<open>unload\<close> never fails.\<close>

definition fake_unknown :: "fake \<Rightarrow> string list \<Rightarrow> string" where
  "fake_unknown fk models = ''unknown model(s): '' @ py_join '', '' (filter (\<lambda>m. m \<notin> set (fk_known fk)) models)"

definition fake_checkpoints :: "fake checkpoints" where
  "fake_checkpoints = \<lparr>ck_listing = fake_listing,
     ck_load = (\<lambda>ms fk. case fake_load ms fk of (Inr u, fk') \<Rightarrow> (Inr u, fk') | (Inl _, fk') \<Rightarrow> (Inl (ValueFault (fake_unknown fk ms)), fk')),
     ck_unload = (\<lambda>ms fk. (Inr (), fake_unload ms fk)), ck_device = fake_device\<rparr>"

text \<open>The exceptions of the real adapter by class: every RuntimeError reads as a busy engine, every
  ValueError as a bad request. The text of a bare exception of the library is an argument.\<close>

definition fault_of :: "(pyexc \<Rightarrow> string) \<Rightarrow> load_error \<Rightarrow> model_fault" where
  "fault_of txt e = (case e of
     NoMemory m \<Rightarrow> MemoryFault m
   | InFlight m \<Rightarrow> BusyFault m
   | EngineFault (EnglishOnly m _) \<Rightarrow> ValueFault m
   | EngineFault (EngineValue m) \<Rightarrow> ValueFault m
   | EngineFault (EngineCrash x) \<Rightarrow> if x = RuntimeError then BusyFault (txt x)
       else if x \<in> {ValueError, UnicodeEncodeError} then ValueFault (txt x) else CrashFault x)"

definition faulty :: "(pyexc \<Rightarrow> string) \<Rightarrow> (load_error + 'a) \<times> 's \<Rightarrow> (model_fault + 'a) \<times> 's" where
  "faulty txt p = (case p of (Inl e, s) \<Rightarrow> (Inl (fault_of txt e), s) | (Inr a, s) \<Rightarrow> (Inr a, s))"

definition real_checkpoints :: "'r laya \<Rightarrow> host \<Rightarrow> (pyexc \<Rightarrow> string) \<Rightarrow> 'r real_engine checkpoints" where
  "real_checkpoints la h txt = \<lparr>ck_listing = (\<lambda>s. (real_loaded la s, s)),
     ck_load = (\<lambda>ms s. faulty txt (real_load la h ms s)), ck_unload = (\<lambda>ms s. faulty txt (real_unload la h ms s)),
     ck_device = (\<lambda>s. (real_device la s, s))\<rparr>"

section \<open>Statistics\<close>

text \<open>The \<open>model.load\<close> spans that can be read, with the start of their trace.\<close>

definition load_spans :: "db \<Rightarrow> (pyfloat \<times> observation \<times> (string \<times> json) list) list" where
  "load_spans d = concat (map (\<lambda>ob. case ob_meta ob of None \<Rightarrow> []
     | Some meta \<Rightarrow> if ob_name ob = ''model.load''
         then map (\<lambda>t. (tr_ts_start t, ob, meta)) (filter (\<lambda>t. tr_id t = ob_trace_id ob) (db_traces d)) else []) (db_observations d))"

text \<open>The newest span of a checkpoint; among equal ones SQL may return any.\<close>

definition newer :: "pyfloat \<times> observation \<times> 'a \<Rightarrow> pyfloat \<times> observation \<times> 'a \<Rightarrow> bool" where
  "newer x y \<longleftrightarrow> fst y < fst x \<or> fst x = fst y \<and> ob_start_ms (fst (snd y)) < ob_start_ms (fst (snd x))"

definition latest_load :: "db \<Rightarrow> string \<Rightarrow> (pyfloat \<times> observation \<times> (string \<times> json) list) option" where
  "latest_load d name = fold (\<lambda>x acc. case acc of None \<Rightarrow> Some x | Some y \<Rightarrow> if newer x y then Some x else acc)
     (filter (\<lambda>(_, _, meta). jget meta ''model'' = JStr name) (load_spans d)) None"

text \<open>\<open>int(row["bytes"])\<close>\<close>

definition size_of :: "json \<Rightarrow> pyexc + int option" where
  "size_of v = (case v of JNull \<Rightarrow> Inr None | JInt n \<Rightarrow> Inr (Some n) | JBool b \<Rightarrow> Inr (Some (if b then 1 else 0))
     | JFloat q \<Rightarrow> Inr (Some (if q < 0 then \<lceil>q\<rceil> else \<lfloor>q\<rfloor>))
     | JStr s \<Rightarrow> (case py_int s of Some n \<Rightarrow> Inr (Some n) | None \<Rightarrow> Inl ValueError)
     | _ \<Rightarrow> Inl ValueError)"

record model_stats =
  mo_size :: "int option"
  mo_load_ms :: "pyfloat option"
  mo_requests :: int
  mo_p50 :: "pyfloat option"

definition stats_row :: "pyfloat \<Rightarrow> string \<Rightarrow> string \<Rightarrow> rollup_key \<Rightarrow> bool" where
  "stats_row now name metric k \<longleftrightarrow> rk_step k = 60 \<and> rk_metric k = metric \<and> rk_model k = name
     \<and> now - 86400 \<le> of_int (rk_bucket k) \<and> of_int (rk_bucket k) \<le> now"

definition requests_24h :: "pyfloat \<Rightarrow> db \<Rightarrow> string \<Rightarrow> int" where
  "requests_24h now d name = sum_list (map (\<lambda>r. sx_count (snd r)) (filter (\<lambda>r. stats_row now name ''requests'' (fst r)) (db_rollups d)))"

definition p50_24h :: "pyfloat \<Rightarrow> db \<Rightarrow> string \<Rightarrow> pyfloat option" where
  "p50_24h now d name =
     (let rows = concat (map (\<lambda>r. case sx_p50 (snd r) of None \<Rightarrow> [] | Some p \<Rightarrow> [(p, sx_count (snd r))])
            (filter (\<lambda>r. stats_row now name ''latency'' (fst r)) (db_rollups d)));
          n = sum_list (map snd rows) in
      if n = 0 then None else Some (sum_list (map (\<lambda>(p, c). p * of_int c) rows) / of_int n))"

definition model_stats_of :: "pyfloat \<Rightarrow> db \<Rightarrow> string \<Rightarrow> pyexc + model_stats" where
  "model_stats_of now d name =
     (let latest = latest_load d name in
      res_bind (case latest of None \<Rightarrow> Inr None | Some (_, _, meta) \<Rightarrow> size_of (jget meta ''bytes'')) (\<lambda>size.
      Inr \<lparr>mo_size = size, mo_load_ms = map_option (\<lambda>(_, ob, _). ob_duration_ms ob) latest,
           mo_requests = requests_24h now d name, mo_p50 = p50_24h now d name\<rparr>))"

fun stats_block :: "pyfloat \<Rightarrow> db \<Rightarrow> string list \<Rightarrow> pyexc + (string \<times> model_stats) list" where
  "stats_block now d [] = Inr []"
| "stats_block now d (n # ns) = res_bind (model_stats_of now d n) (\<lambda>x. res_bind (stats_block now d ns) (\<lambda>xs. Inr ((n, x) # xs)))"

definition stats_json :: "model_stats \<Rightarrow> json" where
  "stats_json m = JObj [(''size_bytes'', json_opt_int (mo_size m)), (''load_ms'', json_opt_float (mo_load_ms m)),
     (''requests_24h'', JInt (mo_requests m)), (''p50_ms'', json_opt_float (mo_p50 m))]"

section \<open>Handlers\<close>

definition with_engine :: "('e \<Rightarrow> 'a \<times> 'e) \<Rightarrow> ('e, 'a) live" where
  "with_engine f s = (let (a, e) = f (lf_engine s) in (Inr a, s\<lparr>lf_engine := e\<rparr>))"

definition available_models :: "config \<Rightarrow> string list" where
  "available_models c = (if cf_english_only c then [''english''] else cf_models c)"

definition list_models :: "env \<Rightarrow> 'e checkpoints \<Rightarrow> pyfloat \<Rightarrow> 'e life handler" where
  "list_models ev ck rss rq =
     (let available = available_models (cx_config (ev_ctx ev)) in
      act_bind (with_engine (ck_listing ck)) (\<lambda>loaded.
      act_bind (with_conn (act_bind (db_query (\<lambda>d. stats_block (cx_now (ev_ctx ev)) d (sort (remdups (available @ loaded))))) (\<lambda>r.
        act_lift (case r of Inl x \<Rightarrow> Inl (PyExc x) | Inr b \<Rightarrow> Inr b)))) (\<lambda>block.
      act_bind (with_engine (ck_device ck)) (\<lambda>device.
      act_return (json_response (JObj [(''loaded'', JArr (map JStr loaded)), (''available'', JArr (map JStr available)),
        (''default'', JArr (map JStr available)), (''device'', JStr device), (''rss_mb'', JFloat rss),
        (''stats'', JObj (map (\<lambda>(n, m). (n, stats_json m)) block))]) 200 [])))))"

definition apply_fault :: "model_fault \<Rightarrow> exn" where
  "apply_fault f = (case f of
     MemoryFault m \<Rightarrow> http_err 503 ''insufficient_memory'' m (Some (JObj [(''message'', JStr m)]))
   | BusyFault m \<Rightarrow> http_err 409 ''load_in_progress'' m None
   | ValueFault m \<Rightarrow> http_err 400 ''invalid_request'' m None
   | CrashFault x \<Rightarrow> PyExc x)"

fun name_list :: "json \<Rightarrow> string list option" where
  "name_list (JArr vs) = (if vs \<noteq> [] \<and> list_all (\<lambda>v. case v of JStr s \<Rightarrow> s \<noteq> [] | _ \<Rightarrow> False) vs
     then Some (map (\<lambda>v. case v of JStr s \<Rightarrow> s | _ \<Rightarrow> []) vs) else None)"
| "name_list _ = None"

text \<open>The validated body: action and names.\<close>

definition mutation_of :: "(string \<Rightarrow> string + json) \<Rightarrow> request \<Rightarrow> string option \<Rightarrow> exn + (string \<times> string list)" where
  "mutation_of loads rq forced =
     res_bind (request_json loads rq) (\<lambda>j. case json_obj j of
       None \<Rightarrow> Inl (bad_field ''body'' ''request body must be a JSON object'')
     | Some kvs \<Rightarrow>
         res_bind (case forced of Some a \<Rightarrow> Inr a
           | None \<Rightarrow> (case jget kvs ''action'' of
               JStr a \<Rightarrow> if a \<in> {''load'', ''unload''} then Inr a else Inl (bad_field ''action'' (py_repr ''action'' @ '' must be load or unload''))
             | _ \<Rightarrow> Inl (bad_field ''action'' (py_repr ''action'' @ '' must be load or unload'')))) (\<lambda>action.
         case name_list (jget kvs ''models'') of
           None \<Rightarrow> Inl (bad_field ''models'' (py_repr ''models'' @ '' must be a non-empty list of strings''))
         | Some names \<Rightarrow> Inr (action, names)))"

definition apply_mutation :: "'e checkpoints \<Rightarrow> string \<Rightarrow> string list \<Rightarrow> ('e, unit) live" where
  "apply_mutation ck action names =
     act_bind (with_engine (if action = ''load'' then ck_load ck names else ck_unload ck names)) (\<lambda>r.
     act_lift (case r of Inl f \<Rightarrow> Inl (apply_fault f) | Inr u \<Rightarrow> Inr u))"

text \<open>The answer and the stream event \<open>{loaded, action}\<close>.\<close>

definition mutate :: "env \<Rightarrow> 'e checkpoints \<Rightarrow> string option \<Rightarrow> request \<Rightarrow> ('e, response \<times> string list \<times> string) live" where
  "mutate ev ck forced rq =
     act_bind (act_lift (mutation_of (cx_loads (ev_ctx ev)) rq forced)) (\<lambda>(action, names).
     act_bind (apply_mutation ck action names) (\<lambda>_.
     act_bind (with_conn (act_bind (db_exec (insert_audit (cx_now (ev_ctx ev)) ''api'' (''model.'' @ action) (Some (py_join '','' names)) ''ok'' None)) (\<lambda>_.
       db_commit))) (\<lambda>_.
     act_bind (with_engine (ck_listing ck)) (\<lambda>loaded.
     act_return (json_response (JObj [(''loaded'', JArr (map JStr loaded))]) 200 [], loaded, action)))))"

section \<open>The lifecycle interface\<close>

text \<open>What the endpoints rely on: the listing is sorted, an accepted load has its checkpoints listed under
  their catalog names, an accepted unload has them gone.\<close>

locale checkpoint_host =
  fixes ck :: "'e checkpoints" and canon :: "string \<Rightarrow> string"
  assumes listing_sorted: "sorted (fst (ck_listing ck e))"
    and load_listed: "ck_load ck ms e = (Inr (), e') \<Longrightarrow> canon ` set ms \<subseteq> set (fst (ck_listing ck e'))"
    and unload_gone: "ck_unload ck ms e = (Inr (), e') \<Longrightarrow> canon ` set ms \<inter> set (fst (ck_listing ck e')) = {}"
begin

text \<open>An answered mutation: its names, the listing it answers with, and the audit row it committed.\<close>

lemma mutate_answer:
  assumes "mutate ev ck forced rq s = (Inr (resp, loaded, action), s')"
  obtains names where "mutation_of (cx_loads (ev_ctx ev)) rq forced = Inr (action, names)"
    "resp = json_response (JObj [(''loaded'', JArr (map JStr loaded))]) 200 []" "sorted loaded"
    "action = ''load'' \<Longrightarrow> canon ` set names \<subseteq> set loaded" "action \<noteq> ''load'' \<Longrightarrow> canon ` set names \<inter> set loaded = {}"
    "cn_committed s' = insert_audit (cx_now (ev_ctx ev)) ''api'' (''model.'' @ action) (Some (py_join '','' names)) ''ok'' None (cn_work s)"
proof -
  obtain act names where m: "mutation_of (cx_loads (ev_ctx ev)) rq forced = Inr (act, names)"
    using assms by (cases "mutation_of (cx_loads (ev_ctx ev)) rq forced") (auto simp: mutate_def act_bind_lift)
  obtain e where e: "(if act = ''load'' then ck_load ck names else ck_unload ck names) (lf_engine s) = (Inr (), e)"
    using assms m by (cases "fst ((if act = ''load'' then ck_load ck names else ck_unload ck names) (lf_engine s))")
      (auto simp: mutate_def act_bind_lift apply_mutation_def with_engine_def act_bind_def act_lift_def split: prod.splits)
  have r: "resp = json_response (JObj [(''loaded'', JArr (map JStr loaded))]) 200 []" "loaded = fst (ck_listing ck e)" "action = act"
    "cn_committed s' = insert_audit (cx_now (ev_ctx ev)) ''api'' (''model.'' @ act) (Some (py_join '','' names)) ''ok'' None (cn_work s)"
    using assms e
    by (auto simp: mutate_def act_bind_lift m apply_mutation_def with_engine_def act_bind_def act_lift_def with_conn_def act_finally_def
        conn_close_def db_exec_def db_commit_def act_modify_def act_return_def split: prod.splits)
  show thesis
    by (rule that[of names]) (use m r e listing_sorted[of e] load_listed[of names "lf_engine s" e] unload_gone[of names "lf_engine s" e] in \<open>simp_all split: if_splits\<close>)
qed

end

lemma fake_load_run: "fake_load ms fk = (Inr u, fk') \<Longrightarrow> set ms \<subseteq> set (fk_loaded fk')"
  by (auto simp: fake_load_def Let_def fake_bump_def split: if_splits)

interpretation fake_host: checkpoint_host fake_checkpoints id
proof
  show "sorted (fst (ck_listing fake_checkpoints e))" for e
    by (simp add: fake_checkpoints_def fake_listing_def Let_def)
  show "id ` set ms \<subseteq> set (fst (ck_listing fake_checkpoints e'))" if "ck_load fake_checkpoints ms e = (Inr (), e')" for ms e e'
    using that fake_load_run[of ms e "()" e']
    by (auto simp: fake_checkpoints_def fake_listing_def Let_def fake_bump_def split: prod.splits sum.splits)
  show "id ` set ms \<inter> set (fst (ck_listing fake_checkpoints e')) = {}" if "ck_unload fake_checkpoints ms e = (Inr (), e')" for ms e e'
    using that by (auto simp: fake_checkpoints_def fake_listing_def Let_def fake_bump_def fake_unload_def)
qed

text \<open>What the real adapter needs of the library for the same contract.\<close>

definition residency_laws :: "'r laya \<Rightarrow> bool" where
  "residency_laws la \<longleftrightarrow>
     (\<forall>names r r'. la_preload la names r = (Inr (), r') \<longrightarrow> set names \<subseteq> set (la_loaded la r'))
   \<and> (\<forall>n r r'. la_unload la n r = (Inr (), r') \<longrightarrow>
        set (la_loaded la r') = set (la_loaded la r) - {case la_normalise la n of Inr k \<Rightarrow> k | Inl _ \<Rightarrow> n})"

definition canonical :: "'r laya \<Rightarrow> string \<Rightarrow> string" where
  "canonical la n = (case la_normalise la n of Inr k \<Rightarrow> k | Inl _ \<Rightarrow> n)"

lemma normalise_all_canonical: "normalise_all la ns = Inr ks \<Longrightarrow> ks = map (canonical la) ns"
  by (induction ns arbitrary: ks) (auto simp: res_bind_Inr canonical_def)

lemma real_load_resident:
  assumes "residency_laws la" "real_load la h ms s = (Inr (), s')"
  shows "canonical la ` set ms \<subseteq> set (real_loaded la s')"
proof -
  obtain r names r' where n: "checked_names la h r ms = Inr names" "la_preload la names r = (Inr (), r')" "ra_router s' = Some r'"
    using assms(2)
    by (auto simp: real_load_def guarded_def act_finally_def engine_fault_def the_router_def act_get_def act_lift_def on_router_def
        split: prod.splits sum.splits if_splits option.splits elim!: act_bind_InrE)
  have "names = map (canonical la) ms" using checked_ok(1)[OF n(1)] normalise_all_canonical by blast
  moreover have "set names \<subseteq> set (la_loaded la r')" using assms(1) n(2) unfolding residency_laws_def by blast
  ultimately show ?thesis by (simp add: real_loaded_def n(3))
qed

lemma unload_each_gone:
  assumes "residency_laws la"
  shows "unload_each la ns s = (Inr (), t) \<Longrightarrow> ns \<noteq> [] \<Longrightarrow> \<exists>r r'. ra_router s = Some r \<and> ra_router t = Some r'
    \<and> set (la_loaded la r') = set (la_loaded la r) - canonical la ` set ns"
proof (induction ns arbitrary: s)
  case (Cons n ns)
  obtain u where u: "on_router (la_unload la n) s = (Inr (), u)" "unload_each la ns u = (Inr (), t)"
    using Cons.prems(1) by (auto elim!: act_bind_InrE)
  obtain r r1 where r: "ra_router s = Some r" "la_unload la n r = (Inr (), r1)" "ra_router u = Some r1"
    using u(1) by (auto simp: on_router_def split: option.splits prod.splits)
  have l: "set (la_loaded la r1) = set (la_loaded la r) - {canonical la n}"
    using assms r(2) unfolding residency_laws_def canonical_def by blast
  show ?case
  proof (cases "ns = []")
    case True
    then show ?thesis using u(2) r l by (auto simp: act_return_def)
  next
    case False
    then show ?thesis using Cons.IH[OF u(2)] r l by auto
  qed
qed simp

lemma cancel_each_router: "cancel_each la ns s = (Inr (), t) \<Longrightarrow> ra_router t = ra_router s"
  by (induction ns arbitrary: s) (auto simp: act_return_def act_lift_def act_modify_def elim!: act_bind_InrE)

lemma real_unload_gone:
  assumes "residency_laws la" "real_unload la h ms s = (Inr (), s')"
  shows "canonical la ` set ms \<inter> set (real_loaded la s') = {}"
proof (cases "ms = []")
  case False
  obtain t u v where u: "unload_each la ms t = (Inr (), u)" "cancel_each la ms u = (Inr (), v)" "ra_router s' = ra_router v"
    using assms(2)
    by (auto simp: real_unload_def guarded_def act_finally_def engine_fault_def split: prod.splits sum.splits if_splits elim!: act_bind_InrE)
  then show ?thesis using unload_each_gone[OF assms(1) u(1) False] cancel_each_router[OF u(2)] by (auto simp: real_loaded_def)
qed simp

lemma faulty_Inr: "faulty txt p = (Inr a, s) \<longleftrightarrow> p = (Inr a, s)"
  by (auto simp: faulty_def split: prod.splits sum.splits)

lemma real_host:
  assumes "residency_laws la"
  shows "checkpoint_host (real_checkpoints la h txt) (canonical la)"
proof
  show "sorted (fst (ck_listing (real_checkpoints la h txt) e))" for e
    by (simp add: real_checkpoints_def real_loaded_def split: option.split)
  show "canonical la ` set ms \<subseteq> set (fst (ck_listing (real_checkpoints la h txt) e'))"
    if "ck_load (real_checkpoints la h txt) ms e = (Inr (), e')" for ms e e'
    using that real_load_resident[OF assms, of h ms e e'] by (simp add: real_checkpoints_def faulty_Inr)
  show "canonical la ` set ms \<inter> set (fst (ck_listing (real_checkpoints la h txt) e')) = {}"
    if "ck_unload (real_checkpoints la h txt) ms e = (Inr (), e')" for ms e e'
    using that real_unload_gone[OF assms, of h ms e e'] by (simp add: real_checkpoints_def faulty_Inr)
qed

section \<open>Mutations\<close>

lemma mutate_refused:
  assumes "mutate ev ck forced rq s = (Inl e, s')"
  shows "\<exists>e'. s' = s\<lparr>lf_engine := e'\<rparr>"
proof (cases "mutation_of (cx_loads (ev_ctx ev)) rq forced")
  case (Inl x)
  then show ?thesis using assms by (intro exI[of _ "lf_engine s"]) (simp add: mutate_def act_bind_lift)
next
  case (Inr an)
  then show ?thesis using assms
    by (cases an) (auto simp: mutate_def act_bind_lift apply_mutation_def with_engine_def act_bind_def act_lift_def with_conn_def act_finally_def
        conn_close_def db_exec_def db_commit_def act_modify_def act_return_def split: prod.splits sum.splits)
qed

text \<open>C38: On the real adapter an answered load lists every requested checkpoint under its catalog name and an
  answered unload lists none of them; the answer is the sorted listing after the change, and exactly one
  audit row naming the action and the checkpoints is committed; a refused mutation leaves the database
  as it was.\<close>

theorem model_mutation_is_complete_and_audited:
  assumes "residency_laws la"
    and run: "mutate ev (real_checkpoints la h txt) forced rq s = (out, s')"
  shows "(case out of
     Inr (resp, loaded, action) \<Rightarrow> (\<exists>names. mutation_of (cx_loads (ev_ctx ev)) rq forced = Inr (action, names)
        \<and> resp = json_response (JObj [(''loaded'', JArr (map JStr loaded))]) 200 [] \<and> sorted loaded
        \<and> (if action = ''load'' then canonical la ` set names \<subseteq> set loaded else canonical la ` set names \<inter> set loaded = {})
        \<and> cn_committed s' = insert_audit (cx_now (ev_ctx ev)) ''api'' (''model.'' @ action) (Some (py_join '','' names)) ''ok'' None (cn_work s))
   | Inl e \<Rightarrow> cn_committed s' = cn_committed s \<and> cn_work s' = cn_work s)"
proof (cases out)
  case (Inl e)
  then show ?thesis using mutate_refused[of ev "real_checkpoints la h txt" forced rq s e s'] run by auto
next
  case (Inr p)
  obtain resp loaded action where p: "p = (resp, loaded, action)" by (cases p)
  obtain names where "mutation_of (cx_loads (ev_ctx ev)) rq forced = Inr (action, names)"
    "resp = json_response (JObj [(''loaded'', JArr (map JStr loaded))]) 200 []" "sorted loaded"
    "action = ''load'' \<Longrightarrow> canonical la ` set names \<subseteq> set loaded" "action \<noteq> ''load'' \<Longrightarrow> canonical la ` set names \<inter> set loaded = {}"
    "cn_committed s' = insert_audit (cx_now (ev_ctx ev)) ''api'' (''model.'' @ action) (Some (py_join '','' names)) ''ok'' None (cn_work s)"
    by (rule checkpoint_host.mutate_answer[OF real_host[OF assms(1)] run[unfolded Inr p]], rule that) simp_all
  then show ?thesis by (auto simp: Inr p)
qed

text \<open>The model endpoints ask for no credential: whatever headers, session or key a request carries or
  lacks, a load or unload and the list have the same effect and the same answer.\<close>

theorem model_endpoints_need_no_credential:
  "mutate ev ck forced (rq\<lparr>rq_headers := hs, rq_client_ip := ip\<rparr>) s = mutate ev ck forced rq s
   \<and> list_models ev ck rss (rq\<lparr>rq_headers := hs, rq_client_ip := ip\<rparr>) s = list_models ev ck rss rq s"
  by (simp add: mutate_def list_models_def mutation_of_def request_json_def)

text \<open>The refusals of a mutation on a running engine: 409 while another load or unload is in flight,
  whatever is asked; 503 with the message in the details when a load needs more memory than is
  available; 400 for a checkpoint the catalog does not have; the engine and the database are untouched.\<close>

theorem model_refusals_are_mapped:
  assumes "ra_router (lf_engine s) = Some r" "mutation_of (cx_loads (ev_ctx ev)) rq forced = Inr (action, names)" "action \<in> {''load'', ''unload''}"
  shows "(ra_lifecycle (lf_engine s) \<longrightarrow>
      mutate ev (real_checkpoints la h txt) forced rq s = (Inl (http_err 409 ''load_in_progress'' IN_FLIGHT None), s))
    \<and> (\<forall>m. \<not> ra_lifecycle (lf_engine s) \<and> action = ''load'' \<and> checked_names la h r names = Inl (NoMemory m) \<longrightarrow>
      mutate ev (real_checkpoints la h txt) forced rq s = (Inl (http_err 503 ''insufficient_memory'' m (Some (JObj [(''message'', JStr m)]))), s))
    \<and> (\<forall>ks. \<not> ra_lifecycle (lf_engine s) \<and> action = ''load'' \<and> normalise_all la names = Inr ks \<and> \<not> set ks \<subseteq> fst ` set (la_catalog la r) \<longrightarrow>
      (\<exists>m. mutate ev (real_checkpoints la h txt) forced rq s = (Inl (http_err 400 ''invalid_request'' m None), s)))"
proof -
  have fail: "mutate ev (real_checkpoints la h txt) forced rq s = (Inl (apply_fault (fault_of txt e)), s)"
    if "(if action = ''load'' then real_load la h names (lf_engine s) else real_unload la h names (lf_engine s)) = (Inl e, lf_engine s)" for e
    using that assms(2)
    by (auto simp: mutate_def act_bind_lift apply_mutation_def with_engine_def act_bind_def act_lift_def real_checkpoints_def faulty_def
        split: if_splits)
  have load: "real_load la h names (lf_engine s) = (Inl e, lf_engine s)"
    if "checked_names la h r names = Inl e" "\<not> ra_lifecycle (lf_engine s)" for e
    using load_run[OF assms(1) that(2), of la h names] that(1) by simp
  have unknown: "\<exists>m. checked_names la h r names = Inl (EngineFault (EngineValue m))"
    if "normalise_all la names = Inr ks" "\<not> set ks \<subseteq> fst ` set (la_catalog la r)" for ks
    using that by (auto simp: checked_names_def Let_def filter_empty_conv subset_eq)
  show ?thesis
  proof (intro conjI impI allI; (elim conjE)?)
    show "mutate ev (real_checkpoints la h txt) forced rq s = (Inl (http_err 409 ''load_in_progress'' IN_FLIGHT None), s)"
      if "ra_lifecycle (lf_engine s)"
      using fail[of "InFlight IN_FLIGHT"] that by (simp add: real_load_def real_unload_def guarded_def fault_of_def apply_fault_def)
    show "mutate ev (real_checkpoints la h txt) forced rq s = (Inl (http_err 503 ''insufficient_memory'' m (Some (JObj [(''message'', JStr m)]))), s)"
      if "\<not> ra_lifecycle (lf_engine s)" "action = ''load''" "checked_names la h r names = Inl (NoMemory m)" for m
      using fail[of "NoMemory m"] load[OF that(3,1)] that(2) by (simp add: fault_of_def apply_fault_def)
    show "\<exists>m. mutate ev (real_checkpoints la h txt) forced rq s = (Inl (http_err 400 ''invalid_request'' m None), s)"
      if free: "\<not> ra_lifecycle (lf_engine s)" and act: "action = ''load''"
        and ks: "normalise_all la names = Inr ks" "\<not> set ks \<subseteq> fst ` set (la_catalog la r)" for ks
    proof -
      obtain m where m: "checked_names la h r names = Inl (EngineFault (EngineValue m))" using unknown[OF ks] by blast
      show ?thesis using fail[of "EngineFault (EngineValue m)"] load[OF m free] act by (auto simp: fault_of_def apply_fault_def)
    qed
  qed
qed

section \<open>The statistics\<close>

text \<open>When every observed trace has reached the rollups, the request count of a checkpoint is the
  number of traces it answered whose minute starts within the last 24 hours.\<close>

theorem requests_24h_counts_the_traffic:
  assumes start: "new_writer rows qmax d = Inr s0" "fresh_store d"
    and run: "fold writer_step es (s0, no_tally) = (s, y)" and drained: "wr_open s = []"
  shows "requests_24h now (wr_db s) name = served (ty_traces y) (\<lambda>t. model_dim t = name) 60
    (\<lambda>b. now - 86400 \<le> of_int b \<and> of_int b \<le> now)"
proof -
  have "requests_24h now (wr_db s) name = int (length (filter (\<lambda>t. \<exists>K \<in> set (trace_dims t).
      stats_row now name ''requests'' (rollup_key_at (bucket_of (tr_ts_start t) 60) 60 K)) (ty_traces y)))"
    unfolding requests_24h_def
    by (rule selected_rows_count[OF drained_rows_exact[OF start run drained]]) (auto simp: stats_row_def ROLLUP_STEPS_def)
  also have "\<dots> = served (ty_traces y) (\<lambda>t. model_dim t = name) 60 (\<lambda>b. now - 86400 \<le> of_int b \<and> of_int b \<le> now)"
    unfolding served_def
    by (intro arg_cong[where f = "\<lambda>xs. int (length xs)"] filter_cong refl)
      (auto simp: stats_row_def trace_dims_def rollup_key_at_def)
  finally show ?thesis .
qed

text \<open>Nothing refuses to unload the last checkpoint.\<close>

lemma last_checkpoint_can_be_unloaded:
  assumes "mutation_of (cx_loads (ev_ctx ev)) rq (Some ''unload'') = Inr (''unload'', names)" "set (fk_loaded (lf_engine s)) \<subseteq> set names"
  shows "\<exists>s'. mutate ev fake_checkpoints (Some ''unload'') rq s = (Inr (json_response (JObj [(''loaded'', JArr [])]) 200 [], [], ''unload''), s')"
proof -
  have "filter (\<lambda>m. m \<notin> set names) (fk_loaded (lf_engine s)) = []" using assms(2) by (auto simp: filter_empty_conv)
  then show ?thesis using assms(1)
    by (simp add: mutate_def act_bind_lift apply_mutation_def with_engine_def act_bind_def act_lift_def with_conn_def act_finally_def
        conn_close_def db_exec_def db_commit_def act_modify_def act_return_def fake_checkpoints_def fake_unload_def fake_bump_def Let_def
        fake_listing_def)
qed

section \<open>Witnesses\<close>

definition demo_models_env :: env where
  "demo_models_env = (demo_env [])\<lparr>ev_ctx := (ev_ctx (demo_env []))\<lparr>cx_loads :=
     (\<lambda>_. Inr (JObj [(''models'', JArr [JStr ''multilingual''])]))\<rparr>\<rparr>"

definition demo_models_life :: "bool \<Rightarrow> string list real_engine life" where
  "demo_models_life busy = \<lparr>cn_committed = empty_db, cn_work = empty_db, as_backoff = new_backoff 5 900, as_buckets = [],
      lf_engine = (demo_real False)\<lparr>ra_lifecycle := busy\<rparr>,
      lf_recorder = demo_recorder, lf_trace = None, lf_parsed = None, lf_tick = 0, lf_sent = [], lf_notices = []\<rparr>"

definition models_rq :: request where
  "models_rq = \<lparr>rq_method = ''POST'', rq_path = ''/api/v1/models/load'', rq_query = [], rq_headers = [], rq_body = ''x'', rq_id = ''r1'', rq_client_ip = ''ip''\<rparr>"

lemma demo_mutation: "mutation_of (cx_loads (ev_ctx demo_models_env)) models_rq (Some ''load'') = Inr (''load'', [''multilingual''])"
  by (simp add: mutation_of_def request_json_def models_rq_def demo_models_env_def demo_env_def jget_def)

lemma demo_residency: "residency_laws demo_laya"
  by (auto simp: residency_laws_def demo_laya_def)

theorem model_mutation_is_complete_and_audited_witness:
  "\<exists>resp loaded s'. mutate demo_models_env (real_checkpoints demo_laya demo_host (\<lambda>_. [])) (Some ''load'') models_rq (demo_models_life False)
      = (Inr (resp, loaded, ''load''), s') \<and> ''multilingual'' \<in> set loaded \<and> length (db_audit (cn_committed s')) = 1"
proof -
  have r: "real_load demo_laya demo_host [''multilingual''] (demo_real False) = (Inr (), (demo_real False)\<lparr>ra_router := Some [''english'', ''multilingual'']\<rparr>)"
    by (simp add: load_run[OF demo_real_simps(1) demo_free] checked_names_def Let_def demo_laya_def mem_available_def demo_host_def)
  have e: "lf_engine (demo_models_life False) = demo_real False" by (simp add: demo_models_life_def demo_real_def new_real_def)
  obtain out s' where o: "mutate demo_models_env (real_checkpoints demo_laya demo_host (\<lambda>_. [])) (Some ''load'') models_rq (demo_models_life False) = (out, s')"
    by fastforce
  have "\<exists>resp loaded. out = Inr (resp, loaded, ''load'')"
    using o by (auto simp: mutate_def act_bind_lift demo_mutation apply_mutation_def with_engine_def act_bind_def act_lift_def with_conn_def act_finally_def
        conn_close_def db_exec_def db_commit_def act_modify_def act_return_def real_checkpoints_def faulty_def e r)
  then obtain resp loaded where out: "out = Inr (resp, loaded, ''load'')" by blast
  have "canonical demo_laya ''multilingual'' = ''multilingual''" by (simp add: canonical_def demo_laya_def)
  moreover have "cn_work (demo_models_life False) = empty_db" by (simp add: demo_models_life_def)
  ultimately show ?thesis
    using model_mutation_is_complete_and_audited[OF demo_residency o] o demo_mutation
    by (auto simp: out insert_audit_def audit_entry_def empty_db_def)
qed

theorem model_refusals_are_mapped_witness:
  "mutate demo_models_env (real_checkpoints demo_laya demo_host (\<lambda>_. [])) (Some ''load'') models_rq (demo_models_life True)
     = (Inl (http_err 409 ''load_in_progress'' IN_FLIGHT None), demo_models_life True)"
  using model_refusals_are_mapped[of "demo_models_life True" "[''english'']" demo_models_env models_rq "Some ''load''" "''load''"
      "[''multilingual'']" demo_laya demo_host "\<lambda>_. []"] demo_mutation
  by (simp add: demo_models_life_def)

theorem requests_24h_counts_the_traffic_witness:
  "requests_24h 100 (wr_db (fst demo_run)) ''en'' = served (ty_traces (snd demo_run)) (\<lambda>t. model_dim t = ''en'') 60 (\<lambda>b. - 86300 \<le> (of_int b :: rat) \<and> (of_int b :: rat) \<le> 100)"
  using requests_24h_counts_the_traffic[OF demo_drained(1,2,4,3), of 100 "''en''"] by simp

end
