(* ===== verification/Api_Users.thy ===== *)
theory Api_Users
  imports Api_Base
begin

text \<open>
  Models \<open>layawatch/api/users.py\<close>: the user and session endpoints, handler by handler, with
  the order of their checks, and the validation of their bodies.
\<close>

definition USERS_PREFIX :: string where
  "USERS_PREFIX = ''/api/v1/users/''"

definition path_parts :: "string \<Rightarrow> request \<Rightarrow> string list" where
  "path_parts pre rq = py_split (CHR ''/'') (drop (length pre) (rq_path rq))"

section \<open>Validation\<close>

definition valid_name :: "json \<Rightarrow> exn + string" where
  "valid_name v =
     (case v of
        JStr s \<Rightarrow> if py_strip s = [] then Inl (bad_field ''name'' (quoted ''name'' @ '' is required''))
                  else Inr (take 120 (py_strip s))
      | _ \<Rightarrow> Inl (bad_field ''name'' (quoted ''name'' @ '' is required'')))"

definition valid_role :: "json \<Rightarrow> exn + string" where
  "valid_role v =
     (case v of
        JStr s \<Rightarrow> if s \<in> set ROLES then Inr s
                  else Inl (bad_field ''role'' (quoted ''role'' @ '' must be one of '' @ py_join '', '' ROLES))
      | _ \<Rightarrow> Inl (bad_field ''role'' (quoted ''role'' @ '' must be one of '' @ py_join '', '' ROLES)))"

definition valid_password :: "string \<Rightarrow> json \<Rightarrow> exn + string" where
  "valid_password field v =
     (case v of
        JStr s \<Rightarrow> if s = [] then Inl (bad_field field (quoted field @ '' is required'')) else Inr s
      | _ \<Rightarrow> Inl (bad_field field (quoted field @ '' is required'')))"

definition user_policy :: "string set \<Rightarrow> string \<Rightarrow> string \<Rightarrow> string \<Rightarrow> exn + unit" where
  "user_policy deny field email password =
     (case check_policy deny email password of None \<Rightarrow> Inr () | Some msg \<Rightarrow> Inl (bad_field field msg))"

text \<open>The create body: email, name, role and the hash of the password.\<close>

definition validated_create :: "ctx \<Rightarrow> request \<Rightarrow> exn + (string \<times> string \<times> string \<times> string)" where
  "validated_create cx rq =
     res_bind (request_object (cx_loads cx) rq) (\<lambda>payload.
     res_bind (normalize_email (jget payload ''email'')) (\<lambda>email.
     res_bind (valid_name (jget payload ''name'')) (\<lambda>name.
     res_bind (valid_role (jget payload ''role'')) (\<lambda>role.
     res_bind (valid_password ''password'' (jget payload ''password'')) (\<lambda>password.
     res_bind (user_policy (cx_deny cx) ''password'' email password) (\<lambda>_.
     res_bind (hash_password (cx_scrypt cx) (cx_salt cx) password) (\<lambda>h.
       Inr (email, name, role, h))))))))"

definition PATCH_FIELDS :: "string list" where
  "PATCH_FIELDS = [''name'', ''role'', ''disabled'', ''must_change'']"

definition valid_flag :: "string \<Rightarrow> (string \<times> json) list \<Rightarrow> exn + bool option" where
  "valid_flag field payload =
     (case map_of payload field of
        None \<Rightarrow> Inr None
      | Some v \<Rightarrow> (case v of JBool b \<Rightarrow> Inr (Some b)
                     | _ \<Rightarrow> Inl (bad_field field (quoted field @ '' must be true or false''))))"

definition optional :: "(json \<Rightarrow> exn + 'a) \<Rightarrow> json option \<Rightarrow> exn + 'a option" where
  "optional f x = (case x of None \<Rightarrow> Inr None | Some v \<Rightarrow> map_sum id Some (f v))"

definition validated_patch :: "(string \<times> json) list \<Rightarrow> exn + user_patch" where
  "validated_patch payload =
     (case filter (\<lambda>k. k \<notin> set PATCH_FIELDS) (map fst payload) of
        k # _ \<Rightarrow> Inl (bad_field k (''unknown field '' @ py_repr k))
      | [] \<Rightarrow>
          if payload = [] then Inl (bad_field ''name'' ''no fields to update'')
          else
            res_bind (optional valid_name (map_of payload ''name'')) (\<lambda>name.
            res_bind (optional valid_role (map_of payload ''role'')) (\<lambda>role.
            res_bind (valid_flag ''disabled'' payload) (\<lambda>dis.
            res_bind (valid_flag ''must_change'' payload) (\<lambda>mc.
              Inr \<lparr>up_name = name, up_role = role, up_disabled = dis, up_must_change = mc\<rparr>)))))"

definition intent_action :: "(string \<times> json) list \<Rightarrow> string option" where
  "intent_action payload =
     (if map_of payload ''role'' \<noteq> None then Some ''user.role_changed''
      else if map_of payload ''disabled'' \<noteq> None then Some ''user.disabled'' else None)"

definition unknown_user :: "string \<Rightarrow> exn" where
  "unknown_user uid = http_err 404 ''not_found'' (''user '' @ uid @ '' not found'') None"

section \<open>Handlers\<close>

definition list_users :: "ctx \<Rightarrow> request \<Rightarrow> response api" where
  "list_users cx rq =
     act_bind (act_lift (reject_unknown_query rq))
     (\<lambda>_. act_bind (with_conn (act_bind (app_gate cx rq (Some ''users.read'') None None)
            (\<lambda>_. db_query (\<lambda>d. sort_key (\<lambda>u. (us_created_at u, us_id u)) (db_users d)))))
     (\<lambda>rows. act_return (items_page (map user_payload rows))))"

definition create_user :: "ctx \<Rightarrow> request \<Rightarrow> response api" where
  "create_user cx rq =
     act_bind (with_conn
       (act_bind (app_gate cx rq (Some ''users.write'') (Some ''user.created'') None) (\<lambda>p.
        act_bind (act_lift (validated_create cx rq)) (\<lambda>(email, name, role, h).
        act_bind (insert_user (cx_uid cx) (cx_now cx) email name role h True) (\<lambda>u.
        act_bind (audit (cx_now cx) (pr_actor p) ''user.created'' (pr_actor_id p) (Some (us_id u)) ''ok''
           (Some (JObj [(''email'', JStr email), (''role'', JStr role), (''must_change'', JBool True)]))) (\<lambda>_.
        act_bind db_commit (\<lambda>_. act_return u)))))))
     (\<lambda>u. act_return (json_response (user_payload u) 200 []))"

text \<open>The part of \<open>_patch_user\<close> after its gate.\<close>

definition patch_user_body :: "ctx \<Rightarrow> (string \<times> json) list \<Rightarrow> string \<Rightarrow> principal \<Rightarrow> json api" where
  "patch_user_body cx payload uid p =
     act_bind (db_query (fetch_user uid)) (\<lambda>r.
       case r of
         None \<Rightarrow> act_raise (unknown_user uid)
       | Some target \<Rightarrow>
           (case validated_patch payload of
              Inl e \<Rightarrow> act_raise e
            | Inr patch \<Rightarrow>
                act_bind (apply_user_update (cx_now cx) p target patch) (\<lambda>updated.
                act_bind (with_backoff (clear_email (us_email target))) (\<lambda>_.
                act_bind db_commit (\<lambda>_. act_return updated)))))"

definition patch_user_route :: "ctx \<Rightarrow> request \<Rightarrow> string \<Rightarrow> response api" where
  "patch_user_route cx rq uid =
     act_bind (act_lift (request_object (cx_loads cx) rq)) (\<lambda>payload.
     act_bind (with_conn
       (act_bind (app_gate cx rq (Some ''users.write'') (intent_action payload) (Some uid))
          (patch_user_body cx payload uid)))
     (\<lambda>updated. act_return (json_response updated 200 [])))"

definition user_wildcard :: "ctx \<Rightarrow> request \<Rightarrow> response api" where
  "user_wildcard cx rq =
     (case path_parts USERS_PREFIX rq of
        [uid] \<Rightarrow> if uid = [] then act_raise (unmatched rq) else patch_user_route cx rq uid
      | _ \<Rightarrow> act_raise (unmatched rq))"

definition delete_user_body :: "ctx \<Rightarrow> string \<Rightarrow> principal \<Rightarrow> unit api" where
  "delete_user_body cx uid p =
     act_bind (db_query (fetch_user uid)) (\<lambda>r.
       case r of
         None \<Rightarrow> act_raise (unknown_user uid)
       | Some target \<Rightarrow>
           act_bind (delete_user (cx_now cx) p target) (\<lambda>_.
           act_bind (with_backoff (clear_email (us_email target))) (\<lambda>_. db_commit)))"

definition delete_user_handler :: "ctx \<Rightarrow> request \<Rightarrow> string \<Rightarrow> response api" where
  "delete_user_handler cx rq uid =
     act_bind (with_conn
       (act_bind (app_gate cx rq (Some ''users.write'') (Some ''user.deleted'') (Some uid))
          (delete_user_body cx uid)))
     (\<lambda>_. act_return (json_response (JObj [(''id'', JStr uid), (''deleted'', JBool True)]) 200 []))"

definition delete_user_route :: "ctx \<Rightarrow> request \<Rightarrow> response api" where
  "delete_user_route cx rq =
     (case path_parts USERS_PREFIX rq of
        [uid] \<Rightarrow> if uid = [] then act_raise (unmatched rq) else delete_user_handler cx rq uid
      | _ \<Rightarrow> act_raise (unmatched rq))"

definition session_payload :: "session \<Rightarrow> json" where
  "session_payload s =
     JObj [(''id'', JStr (se_id s)), (''created_at'', JFloat (se_created_at s)),
       (''expires_at'', JFloat (se_expires_at s)), (''last_seen'', JFloat (se_last_seen s)),
       (''user_agent'', json_opt_str (se_user_agent s)), (''ip'', json_opt_str (se_ip s))]"

definition user_sessions :: "ctx \<Rightarrow> request \<Rightarrow> string \<Rightarrow> response api" where
  "user_sessions cx rq uid =
     act_bind (with_conn
       (act_bind (app_gate cx rq (Some ''sessions.read'') None (Some uid)) (\<lambda>_.
        act_bind (db_query (fetch_user uid)) (\<lambda>r.
          case r of
            None \<Rightarrow> act_raise (unknown_user uid)
          | Some _ \<Rightarrow> db_query (\<lambda>d. sort_key (\<lambda>s. - se_created_at s)
              (filter (\<lambda>s. se_user_id s = uid \<and> \<not> se_revoked s \<and> se_expires_at s > cx_now cx) (db_sessions d)))))))
     (\<lambda>rows. act_return (items_page (map session_payload rows)))"

definition get_user_wildcard :: "ctx \<Rightarrow> request \<Rightarrow> response api" where
  "get_user_wildcard cx rq =
     (case path_parts USERS_PREFIX rq of
        [uid, leaf] \<Rightarrow> if leaf = ''sessions'' then user_sessions cx rq uid else act_raise (unmatched rq)
      | _ \<Rightarrow> act_raise (unmatched rq))"

definition revoke_other_sessions_route :: "ctx \<Rightarrow> request \<Rightarrow> response api" where
  "revoke_other_sessions_route cx rq =
     act_bind (with_conn
       (act_bind (app_gate cx rq (Some ''sessions.revoke_all'') (Some ''session.revoked_all'') None) (\<lambda>p.
        act_bind (revoke_all_sessions (pr_session_id p)) (\<lambda>n.
        act_bind (audit (cx_now cx) (pr_actor p) ''session.revoked_all'' (pr_actor_id p) None ''ok''
           (Some (JObj [(''revoked'', JInt (int n)), (''scope'', JStr ''all'')]))) (\<lambda>_.
        act_bind db_commit (\<lambda>_. act_return n))))))
     (\<lambda>n. act_return (json_response (JObj [(''revoked'', JInt (int n))]) 200 []))"

section \<open>The handlers keep an enabled owner\<close>

lemma keeps_list_users: "keeps owner_inv (list_users cx rq)"
  unfolding list_users_def by (intro keeps_rules keeps_session_ops gate_blind_owner)

lemma keeps_create_user: "keeps owner_inv (create_user cx rq)"
  unfolding create_user_def
  by (auto intro!: keeps_rules keeps_session_ops gate_blind_owner split: prod.splits)

lemma keeps_user_sessions: "keeps owner_inv (user_sessions cx rq uid)"
  unfolding user_sessions_def by (intro keeps_rules keeps_session_ops gate_blind_owner)

lemma keeps_revoke_others: "keeps owner_inv (revoke_other_sessions_route cx rq)"
  unfolding revoke_other_sessions_route_def revoke_all_sessions_def
  by (intro keeps_rules keeps_session_ops gate_blind_owner)

lemma keeps_patch_user_body: "keeps owner_inv (patch_user_body cx payload uid p)"
  unfolding patch_user_body_def
proof (rule keeps_query_bind)
  fix c :: app_state
  assume c: "conn_inv owner_inv c"
  have "conn_inv owner_inv (snd (act_bind (apply_user_update (cx_now cx) p t patch) (\<lambda>updated.
      act_bind (with_backoff (clear_email (us_email t))) (\<lambda>_.
      act_bind db_commit (\<lambda>_. act_return updated))) c))"
    if "fetch_user uid (cn_work c) = Some t" for t patch
    using that fetch_user_Some[OF that]
    by (intro conn_inv_bind apply_user_update_keeps[OF c] keeps_rules) simp
  with c show "conn_inv owner_inv (snd ((case fetch_user uid (cn_work c) of
         None \<Rightarrow> act_raise (unknown_user uid)
       | Some target \<Rightarrow>
           (case validated_patch payload of
              Inl e \<Rightarrow> act_raise e
            | Inr patch \<Rightarrow>
                act_bind (apply_user_update (cx_now cx) p target patch) (\<lambda>updated.
                act_bind (with_backoff (clear_email (us_email target))) (\<lambda>_.
                act_bind db_commit (\<lambda>_. act_return updated))))) c))"
    by (auto simp: act_simps split: option.splits sum.splits)
qed

lemma keeps_delete_user_body: "keeps owner_inv (delete_user_body cx uid p)"
  unfolding delete_user_body_def
proof (rule keeps_query_bind)
  fix c :: app_state
  assume c: "conn_inv owner_inv c"
  have "conn_inv owner_inv (snd (act_bind (delete_user (cx_now cx) p t) (\<lambda>_.
      act_bind (with_backoff (clear_email (us_email t))) (\<lambda>_. db_commit)) c))"
    if "fetch_user uid (cn_work c) = Some t" for t
    using that fetch_user_Some[OF that]
    by (intro conn_inv_bind delete_user_keeps[OF c] keeps_rules) simp
  with c show "conn_inv owner_inv (snd ((case fetch_user uid (cn_work c) of
         None \<Rightarrow> act_raise (unknown_user uid)
       | Some target \<Rightarrow>
           act_bind (delete_user (cx_now cx) p target) (\<lambda>_.
           act_bind (with_backoff (clear_email (us_email target))) (\<lambda>_. db_commit))) c))"
    by (auto simp: act_simps split: option.splits)
qed

lemma keeps_patch_user: "keeps owner_inv (patch_user_route cx rq uid)"
  unfolding patch_user_route_def
  by (intro keeps_rules keeps_session_ops gate_blind_owner keeps_patch_user_body)

lemma keeps_delete_user: "keeps owner_inv (delete_user_handler cx rq uid)"
  unfolding delete_user_handler_def
  by (intro keeps_rules keeps_session_ops gate_blind_owner keeps_delete_user_body)

lemma keeps_user_wildcards:
  "keeps owner_inv (user_wildcard cx rq)" "keeps owner_inv (delete_user_route cx rq)"
  "keeps owner_inv (get_user_wildcard cx rq)"
  unfolding user_wildcard_def delete_user_route_def get_user_wildcard_def
  by (auto intro!: keeps_raise keeps_patch_user keeps_delete_user keeps_user_sessions split: list.splits)

lemmas keeps_user_handlers = keeps_list_users keeps_create_user keeps_user_wildcards keeps_revoke_others

end
