(* ===== verification/Api_Policy.thy ===== *)
theory Api_Policy
  imports Api_Users
begin

text \<open>
  Models \<open>layawatch/api/ratelimits.py\<close> and \<open>layawatch/api/settings.py\<close> (with the safe
  configuration snapshot of \<open>api/health.py\<close>): the rate-limit policy, usage and reset
  endpoints, and the runtime settings read view and write path. The text of a float and its
  parser are arguments where a stored sample fraction needs them.
\<close>

section \<open>Rate limits\<close>

definition SCOPES :: "string list" where
  "SCOPES = [''api_key'', ''ip'', ''login'', ''session'', ''playground'', ''sse'', ''engine'']"

fun value_json :: "pvalue \<Rightarrow> json" where
  "value_json (VInt i) = JInt i"
| "value_json (VBool b) = JBool b"

definition policy_json :: "(string \<times> pvalue) list \<Rightarrow> (string \<times> json) list" where
  "policy_json policy = map (\<lambda>(n, v). (n, value_json v)) policy"

definition key_overrides :: "db \<Rightarrow> json" where
  "key_overrides d = JArr (map (\<lambda>k. JObj
       [(''id'', JStr (ak_id k)), (''prefix'', JStr (ak_prefix k)),
        (''rate_limit_per_min'', json_opt_int (ak_rate_limit k)), (''burst'', json_opt_int (ak_burst k))])
     (sort_key (\<lambda>k. (ak_created_at k, ak_id k)) (db_keys d)))"

definition policy_payload :: "config \<Rightarrow> db \<Rightarrow> json" where
  "policy_payload cf d = JObj (policy_json (effective_policy d cf) @ [(''keys'', key_overrides d)])"

definition get_policy :: "ctx \<Rightarrow> request \<Rightarrow> response api" where
  "get_policy cx rq =
     act_bind (act_lift (reject_unknown_query rq)) (\<lambda>_.
     act_bind (with_conn (act_bind (app_gate cx rq (Some ''settings.read'') None None)
        (\<lambda>_. db_query (policy_payload (cx_config cx))))) (\<lambda>j.
     act_return (json_response j 200 [])))"

text \<open>\<open>{**current, **updates}\<close> and the projection to the updated names, in their order.\<close>

definition merged_policy :: "(string \<times> pvalue) list \<Rightarrow> (string \<times> pvalue) list \<Rightarrow> (string \<times> pvalue) list" where
  "merged_policy current updates = dict_update current updates"

definition pick :: "(string \<times> pvalue) list \<Rightarrow> (string \<times> pvalue) list \<Rightarrow> (string \<times> pvalue) list" where
  "pick names policy = concat (map (\<lambda>(n, _). case map_of policy n of None \<Rightarrow> [] | Some v \<Rightarrow> [(n, v)]) names)"

definition policy_update_fields :: "ctx \<Rightarrow> request \<Rightarrow> exn + (string \<times> pvalue) list" where
  "policy_update_fields cx rq =
     res_bind (request_json (cx_loads cx) rq) (\<lambda>j.
       case validated_update j of
         Inl (field, msg) \<Rightarrow> Inl (bad_field field msg) | Inr ups \<Rightarrow> Inr ups)"

definition int_field :: "(string \<times> pvalue) list \<Rightarrow> string \<Rightarrow> int" where
  "int_field policy name = (case map_of policy name of Some (VInt i) \<Rightarrow> i | _ \<Rightarrow> 0)"

text \<open>After the commit a changed login limit or window is pushed into the backoff.\<close>

definition update_policy :: "ctx \<Rightarrow> request \<Rightarrow> response api" where
  "update_policy cx rq =
     act_bind (act_lift (policy_update_fields cx rq)) (\<lambda>updates.
     act_bind (with_conn
       (act_bind (app_gate cx rq (Some ''settings.write'') (Some ''ratelimit.updated'') None) (\<lambda>p.
        act_bind (db_query (\<lambda>d. effective_policy d (cx_config cx))) (\<lambda>current.
          let merged = merged_policy current updates in
          act_bind (db_exec (upsert_policy (cx_now cx) updates (pr_actor p))) (\<lambda>_.
          act_bind (audit (cx_now cx) (pr_actor p) ''ratelimit.updated'' (pr_actor_id p) (Some ''policy'') ''ok''
            (Some (JObj [(''before'', JObj (policy_json (pick updates current))),
               (''after'', JObj (policy_json (pick updates merged)))]))) (\<lambda>_.
          act_bind db_commit (\<lambda>_.
          act_bind (db_query key_overrides) (\<lambda>keys. act_return (merged, keys))))))))) (\<lambda>(merged, keys).
     act_bind (act_when (map_of updates ''login'' \<noteq> None \<or> map_of updates ''login_window'' \<noteq> None)
       (with_backoff (\<lambda>b. ((), configure (int_field merged ''login'') (of_int (int_field merged ''login_window'')) b)))) (\<lambda>_.
     act_return (json_response (JObj (policy_json merged @ [(''keys'', keys)])) 200 []))))"

definition usage_json :: "usage_row \<Rightarrow> json" where
  "usage_json r = JObj [(''subject'', JStr (ur_subject r)), (''scope'', JStr (ur_scope r)),
     (''used'', JFloat (ur_used r)), (''limit'', JInt (ur_limit r)), (''resets_in'', JInt (ur_resets_in r))]"

definition usage_panel :: "ctx \<Rightarrow> request \<Rightarrow> response api" where
  "usage_panel cx rq =
     act_bind (with_conn (app_gate cx rq (Some ''settings.read'') None None)) (\<lambda>_.
     act_bind (with_buckets (\<lambda>r. (usage r, r))) (\<lambda>rows.
     act_return (json_response (JObj [(''items'', JArr (map usage_json (take 10 rows))),
        (''next_cursor'', JNull), (''total_estimate'', JInt (int (length rows)))]) 200 [])))"

text \<open>None is \<open>{all: true}\<close>, otherwise subject and scope.\<close>

definition validated_reset :: "json \<Rightarrow> exn + (string \<times> string) option" where
  "validated_reset payload =
     (case json_obj payload of
        None \<Rightarrow> Inl (bad_field ''body'' ''request body must be a JSON object'')
      | Some d \<Rightarrow>
          (case find (\<lambda>k. k \<notin> {''all'', ''subject'', ''scope''}) (map fst d) of
             Some k \<Rightarrow> Inl (bad_field k (''unknown field '' @ py_repr k))
           | None \<Rightarrow>
               if jget d ''all'' = JBool True
               then (if map_of d ''subject'' \<noteq> None \<or> map_of d ''scope'' \<noteq> None
                     then Inl (bad_field ''all'' (quoted ''all'' @ '' cannot be combined with '' @ quoted ''subject'' @ '' or '' @ quoted ''scope''))
                     else Inr None)
               else if map_of d ''all'' \<noteq> None
               then Inl (bad_field ''all'' (quoted ''all'' @ '' must be true when present''))
               else (case jget d ''subject'' of
                       JStr sub \<Rightarrow>
                         if py_strip sub = [] then Inl (bad_field ''subject'' (quoted ''subject'' @ '' is required''))
                         else (case jget d ''scope'' of
                                 JStr sc \<Rightarrow>
                                   if sc \<in> set SCOPES then Inr (Some (take 200 (py_strip sub), sc))
                                   else Inl (bad_field ''scope'' (quoted ''scope'' @ '' must be one of [''
                                          @ py_join '', '' (map py_repr SCOPES) @ '']''))
                               | _ \<Rightarrow> Inl (bad_field ''scope'' (quoted ''scope'' @ '' must be one of [''
                                          @ py_join '', '' (map py_repr SCOPES) @ '']'')))
                     | _ \<Rightarrow> Inl (bad_field ''subject'' (quoted ''subject'' @ '' is required'')))))"

definition reset_form_json :: "(string \<times> string) option \<Rightarrow> json" where
  "reset_form_json form =
     (case form of None \<Rightarrow> JObj [(''all'', JBool True)]
      | Some (sub, sc) \<Rightarrow> JObj [(''subject'', JStr sub), (''scope'', JStr sc)])"

definition reset_limits :: "ctx \<Rightarrow> request \<Rightarrow> response api" where
  "reset_limits cx rq =
     act_bind (act_lift (res_bind (request_json (cx_loads cx) rq) validated_reset)) (\<lambda>form.
     act_bind (with_conn
       (act_bind (app_gate cx rq (Some ''settings.write'') (Some ''ratelimit.reset'') None) (\<lambda>p.
        act_bind (with_buckets (case form of None \<Rightarrow> reset_buckets None None True
            | Some (sub, sc) \<Rightarrow> reset_buckets (Some sub) (Some sc) False)) (\<lambda>cleared.
        act_bind (audit (cx_now cx) (pr_actor p) ''ratelimit.reset'' (pr_actor_id p)
            (Some (case form of None \<Rightarrow> ''all'' | Some (sub, _) \<Rightarrow> sub)) ''ok'' (Some (reset_form_json form))) (\<lambda>_.
        act_bind db_commit (\<lambda>_. act_return cleared)))))) (\<lambda>cleared.
     act_return (json_response (JObj [(''reset'', JInt (int cleared))]) 200 [])))"

section \<open>Settings\<close>

definition CONTROLS :: "string list" where
  "CONTROLS = [''retention_traces'', ''retention_days'', ''log_ring_size'', ''trace_sample'',
     ''stream_tick'', ''capture_payloads'']"

definition INT_MINIMUMS :: "(string \<times> int) list" where
  "INT_MINIMUMS = [(''retention_traces'', 1), (''retention_days'', 1), (''log_ring_size'', 100), (''stream_tick'', 1)]"

definition secret_key :: "string \<Rightarrow> bool" where
  "secret_key key \<longleftrightarrow> (let low = py_lower key in
     list_ex (py_contains low) [''secret'', ''token'', ''password''])"

text \<open>The configured default of a control, as the value the API shows.\<close>

definition control_default :: "config \<Rightarrow> string \<Rightarrow> json" where
  "control_default cf name =
     (if name = ''retention_traces'' then JInt (cf_retention_traces cf)
      else if name = ''retention_days'' then JInt (cf_retention_days cf)
      else if name = ''log_ring_size'' then JInt (cf_log_ring_size cf)
      else if name = ''trace_sample'' then JFloat (cf_trace_sample cf)
      else if name = ''stream_tick'' then JInt (cf_stream_tick cf)
      else JBool (cf_capture_payloads cf))"

text \<open>\<open>_typed\<close>: None is the ValueError.\<close>

definition typed_control :: "(string \<Rightarrow> pyfloat option) \<Rightarrow> string \<Rightarrow> string \<Rightarrow> json option" where
  "typed_control flt name txt =
     (if name = ''capture_payloads'' then Some (JBool (true_text txt))
      else if name = ''trace_sample'' then map_option JFloat (flt txt)
      else map_option JInt (py_int txt))"

definition control_text :: "(pyfloat \<Rightarrow> string) \<Rightarrow> string \<Rightarrow> json \<Rightarrow> exn + string" where
  "control_text fr name v =
     (if name = ''capture_payloads'' then
        (case v of JBool b \<Rightarrow> Inr (if b then ''1'' else ''0'')
           | _ \<Rightarrow> Inl (bad_field name (quoted ''capture_payloads'' @ '' must be a boolean'')))
      else if name = ''trace_sample'' then
        (let check = (\<lambda>q :: pyfloat. if 0 \<le> q \<and> q \<le> 1 then Inr (fr q)
                        else Inl (bad_field name (quoted ''trace_sample'' @ '' must be between 0 and 1''))) in
         case v of JInt i \<Rightarrow> check (of_int i) | JFloat q \<Rightarrow> check q
           | _ \<Rightarrow> Inl (bad_field name (quoted ''trace_sample'' @ '' must be a number between 0 and 1'')))
      else
        (case v of
           JInt i \<Rightarrow>
             (case map_of INT_MINIMUMS name of
                Some lo \<Rightarrow> if i < lo then Inl (bad_field name (quoted name @ '' must be at least '' @ str_int lo))
                           else Inr (str_int i)
              | None \<Rightarrow> Inl (PyExc KeyError))
         | _ \<Rightarrow> Inl (bad_field name (quoted name @ '' must be an integer''))))"

definition effective_value :: "(string \<Rightarrow> pyfloat option) \<Rightarrow> config \<Rightarrow> db \<Rightarrow> string \<Rightarrow> json" where
  "effective_value flt cf d name =
     (case get_setting name d of
        None \<Rightarrow> control_default cf name
      | Some txt \<Rightarrow> (case typed_control flt name txt of None \<Rightarrow> control_default cf name | Some v \<Rightarrow> v))"

definition safe_config_snapshot :: "config \<Rightarrow> json" where
  "safe_config_snapshot cf =
     JObj [(''bind'', JStr (cf_bind cf)), (''port'', JInt (cf_port cf)), (''device'', JStr (cf_device cf)),
       (''models'', JArr (map JStr (cf_models cf))), (''english_only'', JBool (cf_english_only cf)),
       (''record'', JBool (cf_record cf)), (''api'', JBool (cf_api cf)), (''trust_proxy'', JBool (cf_trust_proxy cf)),
       (''trace_sample'', JFloat (cf_trace_sample cf)), (''capture_payloads'', JBool (cf_capture_payloads cf)),
       (''payload_max'', JInt (cf_payload_max cf)), (''retention_traces'', JInt (cf_retention_traces cf)),
       (''retention_days'', JInt (cf_retention_days cf)), (''ring_traces'', JInt (cf_ring_traces cf)),
       (''stream_tick'', JInt (cf_stream_tick cf)), (''max_body_bytes'', JInt (cf_max_body_bytes cf)),
       (''socket_timeout'', JFloat (cf_socket_timeout cf)), (''log_level'', JStr (cf_log_level cf))]"

definition SETTINGS_NOTE :: string where
  "SETTINGS_NOTE = ''runtime settings override config where present; writes gated by settings.write (admin+)''"

definition settings_payload :: "(string \<Rightarrow> pyfloat option) \<Rightarrow> config \<Rightarrow> db \<Rightarrow> json" where
  "settings_payload flt cf d =
     JObj [(''config'', safe_config_snapshot cf),
       (''settings'', JObj (map (\<lambda>(k, s). (k, JStr (st_value s)))
          (filter (\<lambda>kv. \<not> secret_key (fst kv)) (sort_key fst (db_settings d))))),
       (''effective'', JObj (map (\<lambda>n. (n, effective_value flt cf d n)) CONTROLS)),
       (''note'', JStr SETTINGS_NOTE)]"

definition read_settings :: "(string \<Rightarrow> pyfloat option) \<Rightarrow> ctx \<Rightarrow> request \<Rightarrow> response api" where
  "read_settings flt cx rq =
     act_bind (act_lift (reject_unknown_query rq)) (\<lambda>_.
       with_conn (act_bind (db_query (settings_payload flt (cx_config cx)))
         (\<lambda>j. act_return (json_response j 200 []))))"

fun stored_controls :: "(pyfloat \<Rightarrow> string) \<Rightarrow> (string \<times> json) list \<Rightarrow> (string \<times> string) list \<Rightarrow> exn + (string \<times> string) list" where
  "stored_controls fr [] acc = Inr acc"
| "stored_controls fr ((name, v) # rest) acc =
     (if name \<notin> set CONTROLS then Inl (bad_field name (''unknown setting '' @ py_repr name))
      else res_bind (control_text fr name v) (\<lambda>t. stored_controls fr rest (dict_set name t acc)))"

definition settings_fields :: "(pyfloat \<Rightarrow> string) \<Rightarrow> ctx \<Rightarrow> request \<Rightarrow> exn + (string \<times> string) list" where
  "settings_fields fr cx rq =
     res_bind (reject_unknown_query rq) (\<lambda>_.
     res_bind (request_json (cx_loads cx) rq) (\<lambda>j.
       case json_obj j of
         None \<Rightarrow> Inl (bad_field ''body'' ''request body must be a JSON object'')
       | Some d \<Rightarrow> if d = [] then Inl (bad_field ''body'' ''no settings to update'') else stored_controls fr d []))"

definition write_controls :: "pyfloat \<Rightarrow> string \<Rightarrow> (string \<times> string) list \<Rightarrow> db \<Rightarrow> db" where
  "write_controls now actor stored d = fold (\<lambda>(n, t). put_setting n t now (Some actor)) stored d"

text \<open>The transaction of an update, after the gate.\<close>

definition settings_transaction :: "(string \<Rightarrow> pyfloat option) \<Rightarrow> ctx \<Rightarrow> principal \<Rightarrow> (string \<times> string) list \<Rightarrow> json api" where
  "settings_transaction flt cx p stored =
     act_bind (act_when (map_of stored ''capture_payloads'' \<noteq> None)
       (require_permission (cx_now cx) p ''settings.capture'' (Some ''payload_capture.toggled'') None)) (\<lambda>_.
     act_bind (db_query (\<lambda>d. map (\<lambda>n. (n, effective_value flt (cx_config cx) d n)) (sort (map fst stored)))) (\<lambda>before.
       let after = map (\<lambda>(n, t). (n, case typed_control flt n t of Some v \<Rightarrow> v | None \<Rightarrow> JNull)) (sort_key fst stored) in
       act_bind (db_exec (write_controls (cx_now cx) (pr_actor p) stored)) (\<lambda>_.
       act_bind (audit (cx_now cx) (pr_actor p) ''settings.updated'' (pr_actor_id p)
         (Some (py_join '','' (sort (map fst stored)))) ''ok''
         (Some (JObj [(''before'', JObj before), (''after'', JObj after)]))) (\<lambda>_.
       act_bind (act_when (map_of stored ''capture_payloads'' \<noteq> None)
         (audit (cx_now cx) (pr_actor p) ''payload_capture.toggled'' (pr_actor_id p) (Some ''capture_payloads'') ''ok''
           (Some (JObj [(''before'', jget before ''capture_payloads''), (''after'', jget after ''capture_payloads'')])))) (\<lambda>_.
       act_bind db_commit (\<lambda>_.
       db_query (settings_payload flt (cx_config cx))))))))"

definition update_settings :: "(pyfloat \<Rightarrow> string) \<Rightarrow> (string \<Rightarrow> pyfloat option) \<Rightarrow> ctx \<Rightarrow> request \<Rightarrow> response api" where
  "update_settings fr flt cx rq =
     act_bind (act_lift (settings_fields fr cx rq)) (\<lambda>stored.
     act_bind (with_conn
       (act_bind (app_gate cx rq (Some ''settings.write'') (Some ''settings.updated'') None) (\<lambda>p.
        settings_transaction flt cx p stored)))
     (\<lambda>j. act_return (json_response j 200 [])))"

section \<open>A written setting is the effective value\<close>

lemma get_setting_write:
  assumes "dict_ok stored"
  shows "get_setting n (write_controls now actor stored d) =
    (case map_of stored n of None \<Rightarrow> get_setting n d | Some t \<Rightarrow> Some t)"
  using assms
proof (induction stored arbitrary: d)
  case Nil
  then show ?case by (simp add: write_controls_def)
next
  case (Cons nt stored)
  obtain m t where nt: "nt = (m, t)" by (cases nt)
  have ok: "dict_ok stored" and fresh: "map_of stored m = None"
    using Cons.prems by (auto simp: nt dict_ok_def map_of_eq_None_iff)
  have w: "write_controls now actor (nt # stored) d = write_controls now actor stored (put_setting m t now (Some actor) d)"
    by (simp add: write_controls_def nt)
  show ?case unfolding w Cons.IH[OF ok] using fresh by (auto simp: nt split: option.splits)
qed

text \<open>The JSON value a control text stands for: the value itself, an integer fraction as a float.\<close>

definition control_value :: "string \<Rightarrow> json \<Rightarrow> json" where
  "control_value name v = (if name = ''trace_sample'' then (case v of JInt i \<Rightarrow> JFloat (of_int i) | w \<Rightarrow> w) else v)"

lemma typed_control_text:
  assumes "\<And>q. flt (fr q) = Some q" "control_text fr name v = Inr t"
  shows "typed_control flt name t = Some (control_value name v)"
proof -
  have tt: "true_text ''1''" "\<not> true_text ''0''" by code_simp+
  show ?thesis
    using assms by (auto simp: control_text_def typed_control_def control_value_def Let_def tt
        split: if_splits json.splits option.splits)
qed

lemma stored_controls_spec:
  assumes "stored_controls fr d acc = Inr stored" "dict_ok d" "dict_ok acc" "\<forall>k \<in> fst ` set d. map_of acc k = None"
  shows "dict_ok stored \<and> (\<forall>n. map_of stored n =
    (case map_of d n of None \<Rightarrow> map_of acc n | Some v \<Rightarrow> (case control_text fr n v of Inr t \<Rightarrow> Some t | Inl _ \<Rightarrow> None)))
    \<and> (\<forall>n v. map_of d n = Some v \<longrightarrow> (\<exists>t. control_text fr n v = Inr t))"
  using assms
proof (induction fr d acc rule: stored_controls.induct)
  case (1 fr acc)
  then show ?case by simp
next
  case (2 fr name v rest acc)
  obtain t where n: "name \<in> set CONTROLS" and t: "control_text fr name v = Inr t"
    and r: "stored_controls fr rest (dict_set name t acc) = Inr stored"
    using "2.prems"(1) by (auto simp: res_bind_Inr split: if_splits)
  have rest: "dict_ok rest" "name \<notin> fst ` set rest" using "2.prems"(2) by (auto simp: dict_ok_def)
  have acc: "dict_ok (dict_set name t acc)" "\<forall>k \<in> fst ` set rest. map_of (dict_set name t acc) k = None"
    using "2.prems"(3,4) rest(2) by (auto simp: dict_ok_def distinct_update update_conv')
  have none: "map_of rest name = None" using rest(2) by (simp add: map_of_eq_None_iff)
  have IH: "dict_ok stored \<and> (\<forall>n. map_of stored n =
      (case map_of rest n of None \<Rightarrow> map_of (dict_set name t acc) n
       | Some v \<Rightarrow> (case control_text fr n v of Inr t \<Rightarrow> Some t | Inl _ \<Rightarrow> None)))
      \<and> (\<forall>n v. map_of rest n = Some v \<longrightarrow> (\<exists>t. control_text fr n v = Inr t))"
    using "2.IH"[OF _ r rest(1) acc] n by blast
  then show ?case using t none by (auto simp: update_conv' split: option.splits)
qed


lemma settings_fields_payload:
  assumes "settings_fields fr cx rq = Inr stored" "request_json (cx_loads cx) rq = Inr (JObj d)" "dict_ok d"
  shows "dict_ok stored" "map_of stored n =
    (case map_of d n of None \<Rightarrow> None | Some v \<Rightarrow> (case control_text fr n v of Inr t \<Rightarrow> Some t | Inl _ \<Rightarrow> None))"
    "map_of d n = Some v \<Longrightarrow> \<exists>t. control_text fr n v = Inr t"
proof -
  have "stored_controls fr d [] = Inr stored"
    using assms(1,2) by (auto simp: settings_fields_def res_bind_Inr split: if_splits)
  note sp = stored_controls_spec[OF this assms(3) dict_ok_Nil]
  from sp show "dict_ok stored" "map_of d n = Some v \<Longrightarrow> \<exists>t. control_text fr n v = Inr t" by simp_all
  from sp show "map_of stored n =
      (case map_of d n of None \<Rightarrow> None | Some v \<Rightarrow> (case control_text fr n v of Inr t \<Rightarrow> Some t | Inl _ \<Rightarrow> None))"
    by (cases "map_of d n") auto
qed

lemma effective_after_write:
  assumes "settings_fields fr cx rq = Inr stored" "request_json (cx_loads cx) rq = Inr (JObj d)" "dict_ok d"
    and "\<And>q. flt (fr q) = Some q" "db_settings e = db_settings (write_controls now who stored db)"
  shows "effective_value flt cf e n =
    (case map_of d n of Some v \<Rightarrow> control_value n v | None \<Rightarrow> effective_value flt cf db n)"
proof -
  note sp = settings_fields_payload[OF assms(1-3)]
  have g: "get_setting n e = (case map_of stored n of None \<Rightarrow> get_setting n db | Some t \<Rightarrow> Some t)"
    using get_setting_write[OF sp(1), of n now who db] assms(5) by (simp add: get_setting_def)
  show ?thesis
  proof (cases "map_of d n")
    case None
    with g sp(2)[of n] show ?thesis by (simp add: effective_value_def)
  next
    case (Some v)
    with sp(3) obtain t where t: "control_text fr n v = Inr t" by blast
    with g Some sp(2)[of n] typed_control_text[OF assms(4) t] show ?thesis by (simp add: effective_value_def)
  qed
qed

lemma db_query_end: "db_query g c = (Inr (g (cn_work c)), c)"
  by (simp add: db_query_def act_simps)

lemma settings_transaction_commits:
  assumes "settings_transaction flt cx p stored s = (Inr j, s')"
  shows "db_settings (cn_committed s') = db_settings (write_controls (cx_now cx) (pr_actor p) stored (cn_work s))"
    "map_of stored ''capture_payloads'' \<noteq> None \<Longrightarrow> role_allows (pr_role p) ''settings.capture''"
proof -
  have cap: "map_of stored ''capture_payloads'' = None \<or> role_allows (pr_role p) ''settings.capture''"
  proof (rule ccontr)
    assume "\<not> ?thesis"
    then have "fst (settings_transaction flt cx p stored s) \<noteq> Inr j"
      by (auto simp: settings_transaction_def require_permission_def act_simps Let_def act_when_def)
    with assms show False by simp
  qed
  show "db_settings (cn_committed s') = db_settings (write_controls (cx_now cx) (pr_actor p) stored (cn_work s))"
  proof (cases "map_of stored ''capture_payloads'' = None")
    case True
    then show ?thesis
      using assms by (auto simp: settings_transaction_def act_simps Let_def act_when_def db_query_end)
  next
    case False
    with cap have "role_allows (pr_role p) ''settings.capture''" by blast
    with False show ?thesis
      using assms by (auto simp: settings_transaction_def act_simps Let_def act_when_def db_query_end require_permission_def)
  qed
  show "map_of stored ''capture_payloads'' \<noteq> None \<Longrightarrow> role_allows (pr_role p) ''settings.capture''"
    using cap by auto
qed

lemma gate_keeps_settings:
  assumes "conn_idle c" "app_gate cx rq perm a t c = (r, c')"
  shows "db_settings (cn_work c') = db_settings (cn_committed c)"
proof -
  have "keeps (\<lambda>d. db_settings d = db_settings (cn_committed c)) (app_gate cx rq perm a t)"
    by (rule keeps_gate) (rule gate_blind_settings[of "\<lambda>s. s = db_settings (cn_committed c)"])
  from keepsD[OF this, of c] assms show ?thesis by (simp add: conn_inv_def conn_idle_def)
qed

lemma settings_update_facts:
  assumes answered: "update_settings fr flt cx rq c = (Inr rs, c')" and idle: "conn_idle c"
    and payload: "request_json (cx_loads cx) rq = Inr (JObj d)" "dict_ok d"
    and floats: "\<And>q. flt (fr q) = Some q"
  shows "rs_status rs = 200"
    and "effective_value flt (cx_config cx) (cn_committed c') n =
      (case map_of d n of Some v \<Rightarrow> control_value n v
       | None \<Rightarrow> effective_value flt (cx_config cx) (cn_committed c) n)"
    and "map_of d ''capture_payloads'' \<noteq> None \<longrightarrow>
      (\<exists>p t. app_gate cx rq (Some ''settings.write'') (Some ''settings.updated'') None c = (Inr p, t)
        \<and> role_allows (pr_role p) ''settings.capture'')"
proof -
  obtain stored j s where f: "settings_fields fr cx rq = Inr stored"
    and w: "with_conn (act_bind (app_gate cx rq (Some ''settings.write'') (Some ''settings.updated'') None)
        (\<lambda>p. settings_transaction flt cx p stored)) c = (Inr j, s)"
    and rs: "rs = json_response j 200 []" "c' = s"
    using answered by (auto simp: update_settings_def act_simps elim!: act_bind_InrE split: sum.splits)
  from w obtain u where u: "act_bind (app_gate cx rq (Some ''settings.write'') (Some ''settings.updated'') None)
      (\<lambda>p. settings_transaction flt cx p stored) c = (Inr j, u)" and s: "s = conn_close u"
    unfolding with_conn_run by (metis prod.collapse prod.inject)
  from u obtain p t where g: "app_gate cx rq (Some ''settings.write'') (Some ''settings.updated'') None c = (Inr p, t)"
    and tr: "settings_transaction flt cx p stored t = (Inr j, u)" by (rule act_bind_InrE)
  note sp = settings_fields_payload[OF f payload]
  show "rs_status rs = 200" by (simp add: rs json_response_def)
  have "db_settings (cn_committed c') = db_settings (write_controls (cx_now cx) (pr_actor p) stored (cn_work t))"
    using settings_transaction_commits(1)[OF tr] by (simp add: rs s)
  moreover have "effective_value flt (cx_config cx) (cn_work t) n = effective_value flt (cx_config cx) (cn_committed c) n"
    using gate_keeps_settings[OF idle g] by (simp add: effective_value_def get_setting_def)
  ultimately show "effective_value flt (cx_config cx) (cn_committed c') n =
      (case map_of d n of Some v \<Rightarrow> control_value n v
       | None \<Rightarrow> effective_value flt (cx_config cx) (cn_committed c) n)"
    using effective_after_write[OF f payload floats, of "cn_committed c'" "cx_now cx" "pr_actor p" "cn_work t" "cx_config cx" n]
    by (simp split: option.splits)
  show "map_of d ''capture_payloads'' \<noteq> None \<longrightarrow>
      (\<exists>p t. app_gate cx rq (Some ''settings.write'') (Some ''settings.updated'') None c = (Inr p, t)
        \<and> role_allows (pr_role p) ''settings.capture'')"
  proof
    assume "map_of d ''capture_payloads'' \<noteq> None"
    then obtain v where v: "map_of d ''capture_payloads'' = Some v" by blast
    from sp(3)[OF v] sp(2)[of "''capture_payloads''"] v have "map_of stored ''capture_payloads'' \<noteq> None" by auto
    from settings_transaction_commits(2)[OF tr this] g
    show "\<exists>p t. app_gate cx rq (Some ''settings.write'') (Some ''settings.updated'') None c = (Inr p, t)
        \<and> role_allows (pr_role p) ''settings.capture''" by blast
  qed
qed

text \<open>An answered settings update is in force: the answer is 200, every control of the payload has
  in the committed database exactly the value that was sent as its effective value, every other control
  keeps the value it had, and payload capture was only touched by a role that holds
  \<open>settings.capture\<close>.\<close>

theorem settings_update_is_effective:
  assumes answered: "update_settings fr flt cx rq c = (Inr rs, c')" and idle: "conn_idle c"
    and payload: "request_json (cx_loads cx) rq = Inr (JObj d)" "dict_ok d"
    and floats: "\<And>q. flt (fr q) = Some q"
  shows "(rs_status rs = 200)
    \<and> (effective_value flt (cx_config cx) (cn_committed c') n =
      (case map_of d n of Some v \<Rightarrow> control_value n v
       | None \<Rightarrow> effective_value flt (cx_config cx) (cn_committed c) n))
    \<and> (map_of d ''capture_payloads'' \<noteq> None \<longrightarrow>
      (\<exists>p t. app_gate cx rq (Some ''settings.write'') (Some ''settings.updated'') None c = (Inr p, t)
        \<and> role_allows (pr_role p) ''settings.capture''))"
  using settings_update_facts[OF assms] by blast

text \<open>A float written as the fraction it is, and read back.\<close>

definition frac_text :: "pyfloat \<Rightarrow> string" where
  "frac_text q = (let (a, b) = quotient_of q in str_int a @ ''/'' @ str_int b)"

definition frac_value :: "string \<Rightarrow> pyfloat option" where
  "frac_value s = (case map py_int (py_split (CHR ''/'') s) of [Some a, Some b] \<Rightarrow> Some (Fract a b) | _ \<Rightarrow> None)"

lemma frac_round: "frac_value (frac_text q) = Some q"
proof -
  obtain a b where q: "quotient_of q = (a, b)" by (cases "quotient_of q")
  have no: "CHR ''/'' \<notin> set (str_int i)" for i
  proof -
    have "\<not> py_digit (CHR ''/'')" by code_simp
    then show ?thesis
      using str_nat_digits[of "nat i"] str_nat_digits[of "nat (- i)"] by (auto simp: str_int_def)
  qed
  have "py_split (CHR ''/'') (str_int a @ CHR ''/'' # str_int b) = [str_int a, str_int b]"
    by (simp add: py_split_append no py_split_single)
  then have "frac_value (frac_text q) = Some (Fract a b)" by (simp add: frac_text_def frac_value_def q)
  then show ?thesis using quotient_of_div[OF q] by (simp add: Fract_of_int_quotient)
qed

definition settings_ctx :: ctx where
  "settings_ctx = \<lparr>cx_config = default_config, cx_crypto = toy_crypto, cx_pepper = ''P'',
     cx_scrypt = (\<lambda>_ _ _ _ _ _. None), cx_deny = {},
     cx_loads = (\<lambda>b. Inr (JObj [(''retention_days'', JInt 7), (''trace_sample'', JFloat (1/2))])), cx_now = 50, cx_mono = 50,
     cx_token = ''tok'', cx_csrf = ''csrf'', cx_uid = ''u9'', cx_salt = [], cx_draws = [], cx_cached = None\<rparr>"

definition settings_rq :: request where
  "settings_rq = (demo_request ''POST'' ''/api/v1/settings'' [(''cookie'', ''lw_session=1; lw_csrf=t''), (''x-csrf-token'', ''t'')])
     \<lparr>rq_body := ''x''\<rparr>"

definition settings_state :: app_state where
  "settings_state = \<lparr>cn_committed = two_owners, cn_work = two_owners, as_backoff = new_backoff 5 900, as_buckets = []\<rparr>"

theorem settings_update_is_effective_witness:
  "let d = cn_committed (snd (update_settings frac_text frac_value settings_ctx settings_rq settings_state))
   in effective_value frac_value default_config d ''retention_days'' = JInt 7
     \<and> effective_value frac_value default_config d ''trace_sample'' = JFloat (1/2)
     \<and> effective_value frac_value default_config d ''stream_tick'' = JInt (cf_stream_tick default_config)"
proof -
  let ?u = "update_settings frac_text frac_value settings_ctx settings_rq settings_state"
  have g: "app_gate settings_ctx settings_rq (Some ''settings.write'') (Some ''settings.updated'') None settings_state
      = (Inr (session_principal (demo_session ''s1'' ''a'') (demo_user ''a'' ''owner'')), settings_state)"
    by code_simp
  have f: "settings_fields frac_text settings_ctx settings_rq = Inr [(''retention_days'', ''7''), (''trace_sample'', ''1/2'')]"
    by code_simp
  obtain rs c' where u: "?u = (Inr rs, c')"
    by (auto simp: update_settings_def f act_simps with_conn_run act_bind_def[of "app_gate _ _ _ _ _"] g
        settings_transaction_def Let_def act_when_def db_query_end act_bind_def[of "with_conn _"])
  have pl: "request_json (cx_loads settings_ctx) settings_rq = Inr (JObj [(''retention_days'', JInt 7), (''trace_sample'', JFloat (1/2))])"
    "dict_ok [(''retention_days'', JInt 7), (''trace_sample'', JFloat (1/2))]" "conn_idle settings_state"
    "cx_config settings_ctx = default_config"
    by (simp_all add: request_json_def settings_ctx_def settings_rq_def dict_ok_def settings_state_def conn_idle_def)
  note e = settings_update_is_effective[OF u pl(3,1,2) frac_round, unfolded pl(4), THEN conjunct2, THEN conjunct1]
  have "get_setting ''stream_tick'' (cn_committed settings_state) = None" by code_simp
  then show ?thesis unfolding u Let_def snd_conv e by (simp add: control_value_def effective_value_def control_default_def)
qed

end
