(* ===== verification/Health.thy ===== *)
theory Health
  imports Static_Files Api_Models Api_Policy
begin

text \<open>
  Models \<open>layawatch/api/health.py\<close>: liveness, the service descriptor beside the console, and the
  metadata document. The allowlisted configuration is \<open>safe_config_snapshot\<close> of theory
  \<open>Api_Policy\<close>. What the process reads of the host (clock, file size, \<open>/proc/self/status\<close>)
  and the counters of the writer are a record.
\<close>

definition healthz :: "'e checkpoints \<Rightarrow> bool \<Rightarrow> 'e life handler" where
  "healthz ck auth_enabled rq =
     act_bind (with_engine (ck_listing ck)) (\<lambda>loaded.
     act_bind (with_engine (ck_device ck)) (\<lambda>device.
     act_return (json_response (JObj [(''status'', JStr ''ok''), (''models'', JArr (map JStr loaded)),
       (''device'', JStr device), (''auth_enabled'', JBool auth_enabled)]) 200 [])))"

definition media_types :: "request \<Rightarrow> string list" where
  "media_types rq = map (\<lambda>part. py_lower (py_strip (hd (py_split (CHR '';'') part))))
     (py_split (CHR '','') (case map_of (rq_headers rq) ''accept'' of None \<Rightarrow> [] | Some a \<Rightarrow> a))"

definition service_info :: json where
  "service_info = JObj [(''service'', JStr ''layawatch''), (''version'', JStr ''0.1.0''),
     (''docs'', JStr ''https://github.com/BLANCO-11/LayaWatch''), (''ui'', JStr ''/'')]"

definition root_page :: "disk \<Rightarrow> segments \<Rightarrow> request \<Rightarrow> exn + response" where
  "root_page dk web_root rq =
     (if ''application/json'' \<in> set (media_types rq) \<and> ''text/html'' \<notin> set (media_types rq)
      then Inr (json_response service_info 200 [])
      else res_bind (resolve_path dk web_root ''/'' []) (\<lambda>r. case r of None \<Rightarrow> Inl not_found | Some resp \<Rightarrow> Inr resp))"

record figures =
  fg_started :: pyfloat
  fg_now :: pyfloat
  fg_size :: "int option"
  fg_status :: "string list option"
  fg_counters :: "(string \<times> json) list"

definition db_size :: "figures \<Rightarrow> int" where
  "db_size fg = (case fg_size fg of None \<Rightarrow> 0 | Some n \<Rightarrow> n)"

definition rss_mb :: "figures \<Rightarrow> pyfloat" where
  "rss_mb fg = (case fg_status fg of None \<Rightarrow> 0
     | Some ls \<Rightarrow> (case filter (\<lambda>l. py_startswith l ''VmRSS:'') ls of [] \<Rightarrow> 0
         | l # _ \<Rightarrow> (case py_words l of
               _ # n # _ \<Rightarrow> (case py_int n of None \<Rightarrow> 0 | Some k \<Rightarrow> py_round 1 (of_int k / 1024)) | _ \<Rightarrow> 0)))"

definition meta_json :: "figures \<Rightarrow> nat \<Rightarrow> config \<Rightarrow> json" where
  "meta_json fg clients cf = JObj (dict_update
     [(''version'', JStr ''0.1.0''), (''uptime_s'', JFloat (py_round 3 (fg_now fg - fg_started fg))), (''started_at'', JFloat (fg_started fg)),
      (''db_size_bytes'', JInt (db_size fg)), (''rss_mb'', JFloat (rss_mb fg)), (''sse_clients'', JInt (int clients)),
      (''config'', safe_config_snapshot cf)] (fg_counters fg))"

text \<open>The console root goes past the handler of the static files: it is not revalidated, whatever tag the
  client sends.\<close>

lemma root_is_never_revalidated: "root_page dk web_root rq = Inr resp \<Longrightarrow> rs_status resp = 200"
proof -
  have "rs_status r = 200" if "resolve_path dk web_root ''/'' [] = Inr (Some r)" for r
  proof -
    have s: "serve_file dk c q b a = Some r \<Longrightarrow> rs_status r = 200" for c q b a
      by (auto simp: serve_file_def Let_def split: if_splits option.splits)
    have f: "first_served dk cs q b a = Some r \<Longrightarrow> rs_status r = 200" for cs q b a
    proof -
      assume "first_served dk cs q b a = Some r"
      then have "r \<in> set (List.map_filter (\<lambda>c. serve_file dk c q b a) cs)" by (auto simp: first_served_def split: list.splits)
      then show ?thesis using s by (auto simp: List.map_filter_def)
    qed
    have "deep_link dk q b a = Some r \<Longrightarrow> rs_status r = 200" for q b a
      using f by (auto simp: deep_link_def List.map_filter_def DEEP_LINK_FALLBACKS_def Let_def split: if_splits option.splits)
    with f that show ?thesis by (auto simp: resolve_path_def Let_def page_def split: if_splits option.splits)
  qed
  then show "root_page dk web_root rq = Inr resp \<Longrightarrow> rs_status resp = 200"
    by (auto simp: root_page_def res_bind_Inr json_response_def split: if_splits option.splits)
qed

end
