(* ===== verification/Openapi.thy ===== *)
theory Openapi
  imports Router
begin

text \<open>
  Models \<open>layawatch/api/openapi.py\<close>: the schema constructors, the table of operations and the
  assembly of the document, with the comparison against a router table
  (\<open>documented_paths\<close>, \<open>undocumented\<close>) and \<open>Router.routes\<close> of
  \<open>layawatch/http/router.py\<close>. A dict of the source is a JSON object with its keys in order of
  insertion; the table is one definition per operation.
\<close>

section \<open>Constructors\<close>

definition obj_schema :: "(string \<times> json) list \<Rightarrow> string list \<Rightarrow> json" where
  "obj_schema props required = JObj ([(''type'', JStr ''object''), (''properties'', JObj props)]
     @ (if required = [] then [] else [(''required'', JArr (map JStr required))]))"

definition arr_schema :: "json \<Rightarrow> json" where
  "arr_schema items = JObj [(''type'', JStr ''array''), (''items'', items)]"

definition ref_schema :: "string \<Rightarrow> json" where
  "ref_schema name = JObj [(''$ref'', JStr (''#/components/schemas/'' @ name))]"

text \<open>\<open>_str\<close>, \<open>_int\<close>, \<open>_num\<close> and \<open>_bool\<close> differ in the type alone.\<close>

definition typed_schema :: "string \<Rightarrow> string \<Rightarrow> json" where
  "typed_schema ty description = JObj ([(''type'', JStr ty)] @ (if description = [] then [] else [(''description'', JStr description)]))"

definition str_schema :: "string \<Rightarrow> json" where "str_schema = typed_schema ''string''"

definition int_schema :: "string \<Rightarrow> json" where "int_schema = typed_schema ''integer''"

definition num_schema :: "string \<Rightarrow> json" where "num_schema = typed_schema ''number''"

definition bool_schema :: "string \<Rightarrow> json" where "bool_schema = typed_schema ''boolean''"

definition nullable :: "json \<Rightarrow> json" where
  "nullable schema = (case schema of JObj kvs \<Rightarrow> JObj (dict_set ''nullable'' (JBool True) kvs) | _ \<Rightarrow> schema)"

definition query_param :: "string \<Rightarrow> string \<Rightarrow> string \<Rightarrow> bool \<Rightarrow> string list \<Rightarrow> json" where
  "query_param name kind description required values =
     JObj [(''name'', JStr name), (''in'', JStr ''query''), (''required'', JBool required), (''description'', JStr description),
       (''schema'', JObj ([(''type'', JStr kind)] @ (if values = [] then [] else [(''enum'', JArr (map JStr values))])))]"

definition page_schema :: "json \<Rightarrow> json" where
  "page_schema items = obj_schema [(''items'', items),
      (''next_cursor'', nullable (str_schema ''Opaque cursor; null on the last page.'')),
      (''total_estimate'', int_schema ''Filtered row count.'')] [''items'', ''next_cursor'', ''total_estimate'']"

definition json_content :: "json \<Rightarrow> json" where
  "json_content schema = JObj [(''application/json'', JObj [(''schema'', schema)])]"

definition ok_entry :: "string \<Rightarrow> json option \<Rightarrow> json" where
  "ok_entry note schema = JObj ([(''description'', JStr note)]
     @ (case schema of None \<Rightarrow> [] | Some sc \<Rightarrow> [(''content'', json_content sc)]))"

definition error_entry :: "string \<Rightarrow> json" where
  "error_entry note = JObj [(''description'', JStr note), (''content'', json_content (ref_schema ''ErrorEnvelope''))]"

text \<open>\<open>responses.setdefault\<close>: the first note of a status is kept.\<close>

definition set_default :: "string \<Rightarrow> json \<Rightarrow> (string \<times> json) list \<Rightarrow> (string \<times> json) list" where
  "set_default k v kvs = (if map_of kvs k = None then kvs @ [(k, v)] else kvs)"

definition responses_of :: "(int \<times> string \<times> json option) option \<Rightarrow> (int \<times> string) list \<Rightarrow> (string \<times> json) list" where
  "responses_of ok errors = foldl (\<lambda>acc (status, note). set_default (str_int status) (error_entry note) acc)
     (case ok of None \<Rightarrow> [] | Some (status, note, schema) \<Rightarrow> [(str_int status, ok_entry note schema)]) errors"

definition operation :: "string \<Rightarrow> string \<Rightarrow> string \<Rightarrow> string \<Rightarrow> json list \<Rightarrow> (json \<times> bool \<times> string) option
    \<Rightarrow> (int \<times> string \<times> json option) option \<Rightarrow> (int \<times> string) list \<Rightarrow> json option \<Rightarrow> json" where
  "operation tag operation_id summary description query body ok errors security =
     JObj ([(''tags'', JArr [JStr tag]), (''summary'', JStr summary), (''description'', JStr description),
        (''operationId'', JStr operation_id), (''responses'', JObj (responses_of ok errors))]
      @ (if query = [] then [] else [(''parameters'', JArr query)])
      @ (case body of None \<Rightarrow> [] | Some (schema, required, note) \<Rightarrow>
          [(''requestBody'', JObj [(''required'', JBool required), (''description'', JStr note), (''content'', json_content schema)])])
      @ (case security of None \<Rightarrow> [] | Some s \<Rightarrow> [(''security'', s)]))"

section \<open>Credentials and schemas\<close>

definition TITLE :: "string" where \<open>
  TITLE = ''LayaWatch API''
\<close>

definition DESCRIPTION :: "string" where \<open>
  DESCRIPTION = py_join [CHR 10]
    [''Self-hosted observability console and decision-engine host: traces, metrics, logs, live'',
     ''SSE, checkpoints, API keys, users and the playground.'',
     [],
     ''**Credentials.** Console calls use the `lw_session` cookie (HttpOnly, SameSite=Lax) plus'',
     ''the `X-CSRF-Token` header echoing the `lw_csrf` cookie on every mutation. Engine and CI'',
     ''callers use `X-API-Key: lay_...` or `Authorization: Bearer lay_...`. Engine endpoints'',
     ''(`POST /predict`, `POST /route`) verify keys only while key auth is armed.'',
     [],
     ''**Conventions.** Errors are `{"error": {"code", "message", "details?"}}` with stable'',
     ''snake_case codes. Lists are cursor paginated (`limit` max 200, default 50) and answer'',
     ''`{"items", "next_cursor", "total_estimate"}`. Unknown query parameters are a `400'',
     ''invalid_filter`, never ignored. Time windows take `since`/`until` epoch seconds or the'',
     ''`range` shorthand (`15m`, `1h`, `6h`, `24h`, `7d`). Every response carries `X-Request-Id`.'',
     [],
     ''**Enforcement note.** Operations marked "no credential is enforced" pass through the'',
     ''browser-session check when no `lw_session` cookie is presented, exactly as the handlers'',
     ''behave today; the deployment default binds loopback. A cookie that *is* presented is'',
     ''always validated (401 dead session, 403 password change required, 403 missing CSRF echo).'',
     []]
\<close>

definition TAGS :: "(string \<times> string) list" where \<open>
  TAGS = [(''Service'', ''Liveness, service info, runtime metadata and the live event stream.''),
     (''Engine'', ''The laya-compatible inference surface: predict and route.''),
     (''Traces'', ''Recorded requests with their spans, scores, tags and deletion.''),
     (''Metrics'', ''Rollup series, the KPI summary and model mix buckets.''),
     (''Logs'', ''The log ring and its JSONL export.''),
     (''Audit'', ''The append-only audit trail.''),
     (''Settings'', ''Runtime controls and the rate-limit policy surface.''),
     (''Auth'', ''Sign-in, sign-out, session identity and the first-run wizard.''),
     (''Users'', ''User administration and active sessions.''),
     (''API keys'', ''Engine credentials and the key-auth switch.''),
     (''Models'', ''Checkpoint inventory, loading and unloading.''),
     (''Playground'', ''Built-in templates and one-off in-process runs.'')]
\<close>

definition SECURITY_SCHEMES :: "(string \<times> json) list" where \<open>
  SECURITY_SCHEMES = [(''sessionCookie'', JObj [(''type'', JStr ''apiKey''), (''in'', JStr ''cookie''), (''name'', JStr ''lw_session''), (''description'', JStr (''Console session cookie (HttpOnly, SameSite=Lax, Secure behind TLS). Set by ''
        @ ''`POST /api/v1/auth/login` and by the first-run setup.''))]),
     (''csrfToken'', JObj [(''type'', JStr ''apiKey''), (''in'', JStr ''header''), (''name'', JStr ''X-CSRF-Token''), (''description'', JStr (''Double-submit token: must echo the `lw_csrf` cookie on every mutating request ''
        @ ''made with a session cookie. API-key callers do not send it.''))]),
     (''apiKey'', JObj [(''type'', JStr ''apiKey''), (''in'', JStr ''header''), (''name'', JStr ''X-API-Key''), (''description'', JStr (''Engine credential, `lay_` plus 32 base62 characters. `Authorization: Bearer ''
        @ ''lay_...` is accepted as an alternative.''))])]
\<close>

definition SEC_READ :: "json" where \<open>
  SEC_READ = JArr [JObj [(''sessionCookie'', JArr [])], JObj [(''apiKey'', JArr [])]]
\<close>

definition SEC_WRITE :: "json" where \<open>
  SEC_WRITE = JArr [JObj [(''sessionCookie'', JArr []), (''csrfToken'', JArr [])], JObj [(''apiKey'', JArr [])]]
\<close>

definition SEC_ENGINE :: "json" where \<open>
  SEC_ENGINE = JArr [JObj [(''apiKey'', JArr [])]]
\<close>

definition RANGE_SCHEMA :: "json" where \<open>
  RANGE_SCHEMA = JObj [(''type'', JStr ''string''), (''enum'', JArr [JStr ''15m'', JStr ''1h'', JStr ''6h'', JStr ''24h'', JStr ''7d''])]
\<close>

definition EVENT_ITEM :: "json" where \<open>
  EVENT_ITEM = obj_schema [(''subject'', str_schema ''Rate-limit subject: key id, ip, email or session id.''),
      (''scope'', str_schema ''Bucket scope.''),
      (''used'', num_schema ''Tokens taken since the last full refill.''),
      (''limit'', int_schema ''Bucket capacity for the window.''),
      (''resets_in'', int_schema ''Seconds until the bucket is full again.'')] []
\<close>

definition schema_ErrorEnvelope :: "json" where \<open>
  schema_ErrorEnvelope = obj_schema [(''error'', obj_schema [(''code'', str_schema ''Stable snake_case error code.''),
      (''message'', str_schema ''Human-readable message; never a stack trace.''),
      (''details'', nullable (obj_schema [] []))] [''code'', ''message''])] [''error'']
\<close>

definition schema_TraceSummary :: "json" where \<open>
  schema_TraceSummary = obj_schema [(''id'', str_schema ''Trace id; equals `X-Request-Id` for engine calls.''),
      (''ts_start'', num_schema ''Epoch seconds.''),
      (''duration_ms'', num_schema ''Total handled duration.''),
      (''route'', str_schema ''Request path.''),
      (''method'', str_schema ''HTTP method.''),
      (''status'', int_schema ''Response status.''),
      (''model'', nullable (str_schema ''Checkpoint that answered.'')),
      (''route_reason'', nullable (str_schema ''Why the router picked that checkpoint.'')),
      (''queue_ms'', nullable (num_schema ''Time waiting for the inference slot.'')),
      (''forward_ms'', nullable (num_schema ''Forward-pass time.'')),
      (''client_key_id'', nullable (str_schema ''Presented API key id, when any.'')),
      (''error_code'', nullable (str_schema ''Error code when the request failed.'')),
      (''span_count'', int_schema ''Observation count.'')] [''id'', ''ts_start'', ''duration_ms'', ''route'', ''method'', ''status'']
\<close>

definition schema_Observation :: "json" where \<open>
  schema_Observation = obj_schema [(''id'', str_schema ''Observation id.''),
      (''trace_id'', str_schema ''Owning trace.''),
      (''parent_id'', nullable (str_schema ''Parent span id.'')),
      (''type'', str_schema ''`span` or `generation` in this endpoint.''),
      (''name'', str_schema ''Span name, e.g. `forward`.''),
      (''started_at'', num_schema ''Epoch seconds.''),
      (''ended_at'', nullable (num_schema ''Epoch seconds.'')),
      (''duration_ms'', nullable (num_schema ''Span duration.'')),
      (''status'', str_schema ''`ok` or `error`.''),
      (''attributes'', nullable (obj_schema [] [])),
      (''events'', nullable (arr_schema (obj_schema [] [])))] [''id'', ''trace_id'', ''type'', ''name'']
\<close>

definition schema_LogEntry :: "json" where \<open>
  schema_LogEntry = obj_schema [(''id'', int_schema ''Ring id.''),
      (''ts'', num_schema ''Epoch seconds.''),
      (''level'', str_schema ''Log level.''),
      (''source'', str_schema ''Emitting component.''),
      (''trace_id'', nullable (str_schema ''Trace this line belongs to.'')),
      (''message'', str_schema ''Log line.'')] [''id'', ''ts'', ''level'', ''source'', ''message'']
\<close>

definition schema_AuditEntry :: "json" where \<open>
  schema_AuditEntry = obj_schema [(''id'', int_schema ''Row id.''),
      (''ts'', num_schema ''Epoch seconds.''),
      (''actor_id'', nullable (str_schema ''Acting user id.'')),
      (''actor'', str_schema ''Acting principal (email or `api`).''),
      (''action'', str_schema ''Audit action, e.g. `key.created`.''),
      (''target'', nullable (str_schema ''Affected object.'')),
      (''result'', str_schema ''`ok` or `denied`.''),
      (''meta'', nullable (obj_schema [] []))] [''id'', ''ts'', ''actor'', ''action'', ''result'']
\<close>

definition schema_KeyRecord :: "json" where \<open>
  schema_KeyRecord = obj_schema [(''id'', str_schema ''Key id.''),
      (''name'', str_schema ''Operator label.''),
      (''prefix'', str_schema ''First 8 characters of the secret.''),
      (''created_at'', num_schema ''Epoch seconds.''),
      (''last_used'', nullable (num_schema ''Epoch seconds.'')),
      (''revoked_at'', nullable (num_schema ''Epoch seconds; soft delete.'')),
      (''request_count'', int_schema ''Requests presented with this key.''),
      (''rate_limit_per_min'', nullable (int_schema ''Per-key override; null uses the policy.'')),
      (''burst'', nullable (int_schema ''Per-key burst override.''))] [''id'', ''name'', ''prefix'', ''created_at'']
\<close>

definition schema_User :: "json" where \<open>
  schema_User = obj_schema [(''id'', str_schema ''User id.''),
      (''email'', str_schema ''Normalized email.''),
      (''name'', str_schema ''Display name.''),
      (''role'', str_schema ''`owner`, `admin` or `viewer`.''),
      (''created_at'', num_schema ''Epoch seconds.''),
      (''last_login_at'', nullable (num_schema ''Epoch seconds.'')),
      (''disabled'', bool_schema ''Sign-in refused while true.''),
      (''must_change'', bool_schema ''Every action refused until the password changes.'')] [''id'', ''email'', ''name'', ''role'']
\<close>

definition schema_Session :: "json" where \<open>
  schema_Session = obj_schema [(''id'', str_schema ''Session id.''),
      (''created_at'', num_schema ''Epoch seconds.''),
      (''expires_at'', num_schema ''Epoch seconds.''),
      (''last_seen'', nullable (num_schema ''Epoch seconds.'')),
      (''user_agent'', nullable (str_schema ''Client user agent.'')),
      (''ip'', nullable (str_schema ''Client ip.''))] [''id'', ''created_at'', ''expires_at'']
\<close>

definition schema_RatelimitPolicy :: "json" where \<open>
  schema_RatelimitPolicy = obj_schema [(''enabled'', bool_schema ''Master switch; read per request by the login backoff.''),
      (''engine_per_min'', int_schema ''Engine requests per minute per key. >= 0.''),
      (''ip_per_min'', int_schema ''Requests per minute per ip. >= 0.''),
      (''mutation_per_min'', int_schema ''Mutations per minute per session. >= 0.''),
      (''playground_per_min'', int_schema ''Playground runs per minute. >= 0.''),
      (''login'', int_schema ''Failed logins allowed per window. >= 1.''),
      (''login_window'', JObj [(''type'', JStr ''integer''), (''enum'', JArr [JInt 300, JInt 900, JInt 3600])]),
      (''engine_max_inflight'', int_schema ''Concurrent forward passes. >= 1.''),
      (''engine_queue_max'', int_schema ''Queued engine requests. >= 1.''),
      (''loopback_exempt'', bool_schema ''Skip ip limits for loopback callers.''),
      (''keys'', arr_schema (obj_schema [(''id'', str_schema ''Key id.''),
      (''prefix'', str_schema ''Secret prefix.''),
      (''rate_limit_per_min'', nullable (int_schema [])),
      (''burst'', nullable (int_schema []))] []))] []
\<close>

definition schema_SettingsPayload :: "json" where \<open>
  schema_SettingsPayload = obj_schema [(''config'', obj_schema [] []),
      (''settings'', obj_schema [] []),
      (''effective'', obj_schema [(''retention_traces'', int_schema []),
      (''retention_days'', int_schema []),
      (''log_ring_size'', int_schema []),
      (''trace_sample'', num_schema []),
      (''stream_tick'', int_schema []),
      (''capture_payloads'', bool_schema [])] []),
      (''note'', str_schema ''Read-time precedence note.'')] [''config'', ''settings'', ''effective'']
\<close>

definition schema_PredictRequest :: "json" where \<open>
  schema_PredictRequest = obj_schema [(''state'', obj_schema [] []),
      (''questions'', obj_schema [] []),
      (''model'', str_schema ''Checkpoint override.''),
      (''task'', str_schema ''Engine task name.''),
      (''lang'', str_schema ''Language hint recorded on the span.'')] [''state'', ''questions'']
\<close>

definition schema_PredictResponse :: "json" where \<open>
  schema_PredictResponse = obj_schema [(''answers'', obj_schema [] []),
      (''model'', str_schema ''Checkpoint that answered.''),
      (''route_reason'', str_schema ''Why that checkpoint was chosen.''),
      (''lang'', nullable (str_schema ''Detected language.''))] [''answers'', ''model'']
\<close>

definition schema_ModelStats :: "json" where \<open>
  schema_ModelStats = obj_schema [(''size_bytes'', nullable (int_schema ''From the newest `model.load` span.'')),
      (''load_ms'', nullable (num_schema ''Load duration.'')),
      (''requests_24h'', int_schema ''Step-60 rollup counter over 24 h; 0 until recorded.''),
      (''p50_ms'', nullable (num_schema ''Count-weighted mean of bucket p50s.''))] []
\<close>

definition SCHEMAS :: "(string \<times> json) list" where \<open>
  SCHEMAS = [(''ErrorEnvelope'', schema_ErrorEnvelope),
     (''TraceSummary'', schema_TraceSummary),
     (''Observation'', schema_Observation),
     (''LogEntry'', schema_LogEntry),
     (''AuditEntry'', schema_AuditEntry),
     (''KeyRecord'', schema_KeyRecord),
     (''User'', schema_User),
     (''Session'', schema_Session),
     (''RatelimitPolicy'', schema_RatelimitPolicy),
     (''SettingsPayload'', schema_SettingsPayload),
     (''PredictRequest'', schema_PredictRequest),
     (''PredictResponse'', schema_PredictResponse),
     (''ModelStats'', schema_ModelStats)]
\<close>


section \<open>The operations\<close>

definition GATE_ERRORS :: "(int \<times> string) list" where \<open>
  GATE_ERRORS = [(401, ''`missing_or_invalid_credential`: no session cookie and no verifiable API key.''),
     (403, ''`forbidden`: the role or permission table refused; or `password_change_required`.''),
     (500, ''`internal_error`: unexpected failure; detail is logged, never returned.'')]
\<close>

definition BAD_FILTER :: "int \<times> string" where \<open>
  BAD_FILTER = (400, ''`invalid_filter`: unknown or malformed query parameter.'')
\<close>

definition op_serviceInfo :: "json" where \<open>
  op_serviceInfo = operation ''Service'' ''serviceInfo'' ''Service info or the console''
      (''Answers the JSON service descriptor when `Accept` explicitly includes ''
        @ ''`application/json` and not `text/html`; every other request serves the console's ''
        @ ''`index.html` (or the build-instructions page when the export is absent). No ''
        @ ''credential is enforced.'')
      []
      None
      (Some (200, ''Service descriptor, or the console HTML.'', Some (obj_schema [(''service'', str_schema []),
      (''version'', str_schema []),
      (''docs'', str_schema ''Project URL.''),
      (''ui'', str_schema ''Console path.'')] [])))
      []
      None
\<close>

definition op_healthz :: "json" where \<open>
  op_healthz = operation ''Service'' ''healthz'' ''Liveness probe''
      (''Container and systemd liveness probe. Answers without touching SQLite and never ''
        @ ''requires a credential; `device` is `fake` when the laya package is not importable.'')
      []
      None
      (Some (200, ''Liveness payload.'', Some (obj_schema [(''status'', str_schema ''Always `ok` while the process serves.''),
      (''models'', arr_schema (str_schema [])),
      (''device'', str_schema ''`auto`, `cpu`, `cuda` or `fake`.''),
      (''auth_enabled'', bool_schema ''Whether engine key auth is armed.'')] [''status''])))
      []
      None
\<close>

definition op_meta :: "json" where \<open>
  op_meta = operation ''Service'' ''meta'' ''Runtime metadata''
      (''Version, uptime and the writer's self-observability counters. `config` is reduced ''
        @ ''to an allowlist of safe fields: no path and no secret is ever included. No ''
        @ ''credential is enforced (the console sends its session cookie).'')
      []
      None
      (Some (200, ''Metadata and counters.'', Some (obj_schema [(''version'', str_schema []),
      (''uptime_s'', num_schema []),
      (''started_at'', num_schema ''Epoch seconds.''),
      (''db_size_bytes'', int_schema []),
      (''rss_mb'', num_schema []),
      (''sse_clients'', int_schema ''Connected stream clients.''),
      (''config'', obj_schema [] [])] [''version'', ''uptime_s'', ''started_at''])))
      []
      None
\<close>

definition op_stream :: "json" where \<open>
  op_stream = operation ''Service'' ''stream'' ''Live event stream (SSE)''
      (''Server-sent events for the console: `hello` on connect, `pulse` every tick ''
        @ ''(default 3 s), `trace` as traces flush, `log` per line, `model` on checkpoint ''
        @ ''change and `ping` every 15 s to keep proxies open. Reconnect with the ''
        @ ''`Last-Event-ID` header or the `last_event_id` query parameter (an EventSource ''
        @ ''cannot set headers on reconnect; the header wins when both are present) to replay ''
        @ ''up to 200 missed trace events. No credential is enforced.'')
      [query_param ''last_event_id'' ''integer'' ''Replay trace events newer than this id; unparseable or absent means no replay.'' False []]
      None
      (Some (200, ''`text/event-stream` of framed events.'', None))
      []
      None
\<close>

definition op_predict :: "json" where \<open>
  op_predict = operation ''Engine'' ''predict'' ''Run a prediction''
      (''The laya-compatible inference call. The body must be a JSON object with object ''
        @ ''`state` and object `questions`; `model` and `task` are passed to the adapter ''
        @ ''verbatim and `lang` is recorded on the trace (a `temperature` field is ignored by ''
        @ ''this handler). Records one trace whose id is the response's `X-Request-Id`. Keys ''
        @ ''are verified only while key auth is armed.'')
      []
      (Some (ref_schema ''PredictRequest'', True, ''`state` and `questions` are required objects; `model`, `task` and `lang` are optional.''))
      (Some (200, ''The adapter's answer payload.'', Some (ref_schema ''PredictResponse'')))
      ([(400, ''`invalid_request`: missing `state`/`questions`, or the engine rejected the call.''),
      (401, ''`missing_or_invalid_credential`: key auth is armed and the key is absent or unknown.''),
      (422, ''`english_only`: non-English state in an english-only deployment; `details.detection`.''),
      (500, ''`internal_error`: unexpected engine failure.'')])
      (Some SEC_ENGINE)
\<close>

definition op_route :: "json" where \<open>
  op_route = operation ''Engine'' ''route'' ''Routing decision only''
      (''Answers the routing decision without a forward pass: same body shape as `POST ''
        @ ''/predict`, same trace recording, no inference. Keys are verified only while key ''
        @ ''auth is armed.'')
      []
      (Some (ref_schema ''PredictRequest'', True, ''Same shape as `POST /predict`.''))
      (Some (200, ''The adapter's routing decision.'', Some (ref_schema ''PredictResponse'')))
      ([(400, ''`invalid_request`: missing `state`/`questions`, or the engine rejected the call.''),
      (401, ''`missing_or_invalid_credential`: key auth is armed and the key is absent or unknown.''),
      (422, ''`english_only`: non-English state in an english-only deployment.''),
      (500, ''`internal_error`: unexpected engine failure.'')])
      (Some SEC_ENGINE)
\<close>

definition op_listTraces :: "json" where \<open>
  op_listTraces = operation ''Traces'' ''listTraces'' ''List traces''
      (''Keyset-paginated trace list, newest first by default. `status` accepts an integer ''
        @ ''or a class (`4xx`); `q` matches the id or the error message; a cursor issued for a ''
        @ ''different `order` is rejected. No credential is enforced.'')
      [query_param ''route'' ''string'' ''Exact request path, e.g. `/predict`.'' False [],
       query_param ''status'' ''string'' ''Integer status or a class such as `4xx`/`5xx`.'' False [],
       query_param ''model'' ''string'' ''Checkpoint name.'' False [],
       query_param ''q'' ''string'' ''Substring of the trace id or the error message.'' False [],
       query_param ''min_duration_ms'' ''number'' ''Lower bound on total duration.'' False [],
       query_param ''tag'' ''string'' ''Traces carrying this tag.'' False [],
       query_param ''since'' ''number'' ''Epoch seconds, inclusive.'' False [],
       query_param ''until'' ''number'' ''Epoch seconds, exclusive.'' False [],
       query_param ''range'' ''string'' ''Window shorthand.'' False [''15m'', ''1h'', ''6h'', ''24h'', ''7d''],
       query_param ''limit'' ''integer'' ''Page size, 1-200 (default 50).'' False [],
       query_param ''cursor'' ''string'' ''Opaque cursor from the previous page.'' False [],
       query_param ''order'' ''string'' ''Sort order.'' False [''newest'', ''slowest'']]
      None
      (Some (200, ''Trace summaries plus `span_count`.'', Some (page_schema (ref_schema ''TraceSummary''))))
      ([BAD_FILTER,
      (500, ''`internal_error`.'')])
      None
\<close>

definition op_getTrace :: "json" where \<open>
  op_getTrace = operation ''Traces'' ''getTrace'' ''Trace detail''
      (''One trace with its observations, scores, related log lines and `meta`. No ''
        @ ''credential is enforced.'')
      [query_param ''id'' ''string'' ''Trace id (path).'' True []]
      None
      (Some (200, ''Trace detail.'', Some (obj_schema [(''trace'', ref_schema ''TraceSummary''),
      (''observations'', arr_schema (ref_schema ''Observation'')),
      (''scores'', arr_schema (obj_schema [] [])),
      (''logs'', arr_schema (ref_schema ''LogEntry'')),
      (''meta'', obj_schema [] [])] [])))
      ([(404, ''`not_found`: no such trace.''),
      (500, ''`internal_error`.'')])
      None
\<close>

definition op_listTraceObservations :: "json" where \<open>
  op_listTraceObservations = operation ''Traces'' ''listTraceObservations'' ''Trace observations''
      (''Span-shaped observations only (`span` and `generation`); instantaneous `event` rows ''
        @ ''stay detail-only. Used to lazy-load the waterfall. No credential is enforced.'')
      [query_param ''id'' ''string'' ''Trace id (path).'' True []]
      None
      (Some (200, ''`{items: [...]}` of span-shaped observations.'', Some (obj_schema [(''items'', arr_schema (ref_schema ''Observation''))] [''items''])))
      ([(404, ''`not_found`: no such trace.''),
      (500, ''`internal_error`.'')])
      None
\<close>

definition op_createTraceScore :: "json" where \<open>
  op_createTraceScore = operation ''Traces'' ''createTraceScore'' ''Attach a score''
      (''Appends one score to a trace and audits `trace.scored`. `name` and a scalar ''
        @ ''`value` are required; `data_type` is inferred from the value when omitted; ''
        @ ''`comment` is capped at 500 characters and `source` is fixed to `api`. No ''
        @ ''credential is enforced.'')
      [query_param ''id'' ''string'' ''Trace id (path).'' True []]
      (Some (obj_schema [(''name'', str_schema ''Score name.''),
      (''value'', str_schema ''Scalar: bool, finite number or string.''),
      (''data_type'', str_schema ''Stored kind.''),
      (''comment'', str_schema ''At most 500 characters.'')] [''name'', ''value''], True, ''`name` and `value` are required; `data_type` and `comment` are optional.''))
      (Some (201, ''The stored score.'', Some (obj_schema [(''id'', str_schema []),
      (''name'', str_schema []),
      (''value'', nullable (JObj [])),
      (''data_type'', str_schema ''`numeric`, `boolean` or `categorical`.''),
      (''source'', str_schema ''Always `api`.''),
      (''comment'', nullable (str_schema [])),
      (''ts'', num_schema ''Epoch seconds.'')] [])))
      ([(400, ''`invalid_request`: bad field, non-scalar value, over-long comment.''),
      (404, ''`not_found`: no such trace.''),
      (500, ''`internal_error`.'')])
      None
\<close>

definition op_tagTrace :: "json" where \<open>
  op_tagTrace = operation ''Traces'' ''tagTrace'' ''Add or remove tags''
      (''Adds and removes free-form tags in one call and audits `trace.tagged`. Tags are ''
        @ ''free-form strings; a trace may carry at most 10. No credential is enforced.'')
      [query_param ''id'' ''string'' ''Trace id (path).'' True []]
      (Some (obj_schema [(''add'', arr_schema (str_schema [])),
      (''remove'', arr_schema (str_schema []))] [], True, ''Both lists optional; `add` appends when absent, `remove` filters first.''))
      (Some (200, ''The resulting tag list.'', Some (obj_schema [(''tags'', arr_schema (str_schema []))] [''tags''])))
      ([(400, ''`invalid_request`: more than 10 tags or a bad list.''),
      (404, ''`not_found`: no such trace.''),
      (500, ''`internal_error`.'')])
      None
\<close>

definition op_deleteTrace :: "json" where \<open>
  op_deleteTrace = operation ''Traces'' ''deleteTrace'' ''Delete one trace''
      (''Deletes a trace; observations and scores cascade through their foreign keys, ''
        @ ''`log_entry` rows are kept (no foreign key) and metric rollups are untouched. ''
        @ ''Audits `trace.deleted`. No credential is enforced by this handler.'')
      [query_param ''id'' ''string'' ''Trace id (path).'' True []]
      None
      (Some (204, ''Deleted; no body.'', None))
      ([(404, ''`not_found`: no such trace.''),
      (500, ''`internal_error`.'')])
      None
\<close>

definition op_deleteTraceRange :: "json" where \<open>
  op_deleteTraceRange = operation ''Traces'' ''deleteTraceRange'' ''Bulk delete by time window''
      (''Danger-zone range delete: at least one time bound is required (an unbounded delete ''
        @ ''is a 400, never an accident), `since` inclusive and `until` exclusive, `since < ''
        @ ''until` when both are given. Requires `traces.delete` (admin+), audits ''
        @ ''`trace.deleted` with the range and the deleted count in the same transaction, and ''
        @ ''leaves log rows and metric rollups in place.'')
      [query_param ''since'' ''number'' ''Epoch seconds, inclusive.'' False [],
       query_param ''until'' ''number'' ''Epoch seconds, exclusive.'' False [],
       query_param ''range'' ''string'' ''Window shorthand; cannot be combined with since/until.'' False [''15m'', ''1h'', ''6h'', ''24h'', ''7d'']]
      None
      (Some (200, ''Deleted row count and the window actually applied.'', Some (obj_schema [(''deleted'', int_schema []),
      (''since'', nullable (num_schema [])),
      (''until'', nullable (num_schema []))] [''deleted''])))
      ([BAD_FILTER,
      (400, ''`invalid_filter`: no time bound, `since >= until`, or range plus bounds.'')] @ GATE_ERRORS)
      (Some SEC_WRITE)
\<close>

definition op_metricsSeries :: "json" where \<open>
  op_metricsSeries = operation ''Metrics'' ''metricsSeries'' ''Rollup series''
      (''Bucket series for one or more metrics. Percentiles are bucket-level and the step ''
        @ ''is server-chosen unless it is one of the persisted rollup steps. No credential is ''
        @ ''enforced.'')
      [query_param ''metrics'' ''string'' (''Comma-separated names; at least one of `requests`, ''
        @ ''`latency`, `errors`, `queue`.'') True [],
       query_param ''range'' ''string'' ''Window shorthand.'' False [''15m'', ''1h'', ''6h'', ''24h'', ''7d''],
       query_param ''since'' ''number'' ''Epoch seconds, inclusive.'' False [],
       query_param ''until'' ''number'' ''Epoch seconds, exclusive.'' False [],
       query_param ''step'' ''integer'' ''Rollup step.'' False [''10'', ''60'', ''3600''],
       query_param ''model'' ''string'' ''Restrict to one checkpoint.'' False [],
       query_param ''route'' ''string'' ''Restrict to one route.'' False []]
      None
      (Some (200, ''Series with their window and step.'', Some (obj_schema [(''step'', int_schema []),
      (''window'', obj_schema [(''since'', num_schema []),
      (''until'', num_schema [])] [''since'', ''until'']),
      (''series'', arr_schema (obj_schema [(''metric'', str_schema []),
      (''points'', arr_schema (arr_schema (JObj [])))] [''metric'', ''points''])),
      (''note'', str_schema ''Percentiles are bucket-level.'')] [''step'', ''window'', ''series''])))
      ([BAD_FILTER,
      (500, ''`internal_error`.'')])
      None
\<close>

definition op_metricsSummary :: "json" where \<open>
  op_metricsSummary = operation ''Metrics'' ''metricsSummary'' ''KPI strip''
      (''KPI values plus deltas against the previous window of the same length. Defaults to ''
        @ ''the 15-minute window. No credential is enforced.'')
      [query_param ''range'' ''string'' ''Window shorthand.'' False [''15m'', ''1h'', ''6h'', ''24h'', ''7d'']]
      None
      (Some (200, ''KPI strip values and deltas.'', Some (obj_schema [] [])))
      ([BAD_FILTER,
      (500, ''`internal_error`.'')])
      None
\<close>

definition op_metricsModels :: "json" where \<open>
  op_metricsModels = operation ''Metrics'' ''metricsModels'' ''Model mix buckets''
      (''Model mix for the stacked bar chart. The window must fit the bucket count. No ''
        @ ''credential is enforced.'')
      [query_param ''range'' ''string'' ''Window shorthand.'' False [''15m'', ''1h'', ''6h'', ''24h'', ''7d''],
       query_param ''since'' ''number'' ''Epoch seconds, inclusive.'' False [],
       query_param ''until'' ''number'' ''Epoch seconds, exclusive.'' False []]
      None
      (Some (200, ''Model mix buckets.'', Some (obj_schema [] [])))
      ([BAD_FILTER,
      (400, ''`invalid_filter`: window too large for the bucket count.''),
      (500, ''`internal_error`.'')])
      None
\<close>

definition op_listLogs :: "json" where \<open>
  op_listLogs = operation ''Logs'' ''listLogs'' ''Tail the log ring''
      (''Newest-first log lines with the standard pagination envelope. Items carry exactly ''
        @ ''`id, ts, level, source, trace_id, message`. No credential is enforced.'')
      [query_param ''level'' ''string'' ''Log level, e.g. `info`, `warning`, `error`.'' False [],
       query_param ''q'' ''string'' ''Substring match on the message.'' False [],
       query_param ''trace_id'' ''string'' ''Lines belonging to one trace.'' False [],
       query_param ''since'' ''number'' ''Epoch seconds, inclusive.'' False [],
       query_param ''until'' ''number'' ''Epoch seconds, exclusive.'' False [],
       query_param ''range'' ''string'' ''Window shorthand.'' False [''15m'', ''1h'', ''6h'', ''24h'', ''7d''],
       query_param ''limit'' ''integer'' ''Page size, 1-200 (default 50).'' False [],
       query_param ''cursor'' ''string'' ''Opaque cursor from the previous page.'' False []]
      None
      (Some (200, ''Log page.'', Some (page_schema (ref_schema ''LogEntry''))))
      ([BAD_FILTER,
      (500, ''`internal_error`.'')])
      None
\<close>

definition op_exportLogs :: "json" where \<open>
  op_exportLogs = operation ''Logs'' ''exportLogs'' ''Export logs as JSONL''
      (''Downloads up to 10 000 newest matching lines as a `text/plain` attachment with one ''
        @ ''JSON object per line. The window is resolved once so every internal page reads the ''
        @ ''same slice; an empty result is an empty 200 body. The documented owner/admin gate ''
        @ ''is not enforced by this handler yet.'')
      [query_param ''range'' ''string'' ''Window shorthand; defaults to `1h`.'' False [''15m'', ''1h'', ''6h'', ''24h'', ''7d''],
       query_param ''format'' ''string'' ''Only `jsonl` is accepted.'' True [''jsonl'']]
      None
      (Some (200, ''`text/plain` JSONL attachment.'', None))
      ([BAD_FILTER,
      (500, ''`internal_error`.'')])
      None
\<close>

definition op_listAudit :: "json" where \<open>
  op_listAudit = operation ''Audit'' ''listAudit'' ''Audit trail''
      (''Append-only audit entries, newest first, with the standard pagination envelope and ''
        @ ''keyset cursors. `action` is an exact match and `actor` a case-insensitive ''
        @ ''substring. `meta` is returned already parsed. Requires `audit.read` (admin+).'')
      [query_param ''actor'' ''string'' ''Case-insensitive substring of the actor.'' False [],
       query_param ''action'' ''string'' ''Exact action name, e.g. `key.created`.'' False [],
       query_param ''since'' ''number'' ''Epoch seconds, inclusive.'' False [],
       query_param ''until'' ''number'' ''Epoch seconds, exclusive.'' False [],
       query_param ''range'' ''string'' ''Window shorthand.'' False [''15m'', ''1h'', ''6h'', ''24h'', ''7d''],
       query_param ''limit'' ''integer'' ''Page size, 1-200 (default 50).'' False [],
       query_param ''cursor'' ''string'' ''Opaque cursor from the previous page.'' False []]
      None
      (Some (200, ''Audit page.'', Some (page_schema (ref_schema ''AuditEntry''))))
      ([BAD_FILTER] @ GATE_ERRORS)
      (Some SEC_READ)
\<close>

definition op_getSettings :: "json" where \<open>
  op_getSettings = operation ''Settings'' ''getSettings'' ''Read runtime controls''
      (''`config` is the safe env-driven snapshot, `settings` the raw override rows ''
        @ ''(secret-looking keys omitted) and `effective` the typed merged value of every ''
        @ ''runtime-editable control. No credential is enforced by this handler.'')
      []
      None
      (Some (200, ''Config, rows and effective controls.'', Some (ref_schema ''SettingsPayload'')))
      ([BAD_FILTER,
      (500, ''`internal_error`.'')])
      None
\<close>

definition op_updateSettings :: "json" where \<open>
  op_updateSettings = operation ''Settings'' ''updateSettings'' ''Update runtime controls''
      (''Partial update of the six runtime-editable controls; rows win over config at read ''
        @ ''time, so a write holds immediately and across restarts. Requires `settings.write` ''
        @ ''(admin+); `capture_payloads` additionally requires the owner-only ''
        @ ''`settings.capture`. Audits `settings.updated` (plus `payload_capture.toggled`) with ''
        @ ''before/after values in the same transaction and answers the full GET payload.'')
      []
      (Some (obj_schema [(''retention_traces'', int_schema ''>= 1.''),
      (''retention_days'', int_schema ''>= 1.''),
      (''log_ring_size'', int_schema ''>= 100.''),
      (''trace_sample'', num_schema ''Between 0 and 1.''),
      (''stream_tick'', int_schema ''>= 1.''),
      (''capture_payloads'', bool_schema [])] [], True, ''A non-empty partial object of the runtime-editable controls only.''))
      (Some (200, ''The full settings payload after the write.'', Some (ref_schema ''SettingsPayload'')))
      ([BAD_FILTER,
      (400, ''`invalid_request`: unknown control, empty body, or a value out of range.'')] @ GATE_ERRORS)
      (Some SEC_WRITE)
\<close>

definition op_getRatelimitPolicy :: "json" where \<open>
  op_getRatelimitPolicy = operation ''Settings'' ''getRatelimitPolicy'' ''Read the rate-limit policy''
      (''Effective policy (settings rows over config defaults) plus the per-key overrides. ''
        @ ''Requires `settings.read` (viewer+).'')
      []
      None
      (Some (200, ''Policy fields plus `keys`.'', Some (ref_schema ''RatelimitPolicy'')))
      ([BAD_FILTER] @ GATE_ERRORS)
      (Some SEC_READ)
\<close>

definition op_updateRatelimitPolicy :: "json" where \<open>
  op_updateRatelimitPolicy = operation ''Settings'' ''updateRatelimitPolicy'' ''Update the rate-limit policy''
      (''Partial, validated update. Audits `ratelimit.updated` with before/after values and ''
        @ ''stores the rows so the change binds from the next request with no restart; a ''
        @ ''`login`/`login_window` edit is pushed into the login backoff on the spot. Requires ''
        @ ''`settings.write` (admin+).'')
      []
      (Some (obj_schema [(''enabled'', bool_schema []),
      (''engine_per_min'', int_schema ''>= 0.''),
      (''ip_per_min'', int_schema ''>= 0.''),
      (''mutation_per_min'', int_schema ''>= 0.''),
      (''playground_per_min'', int_schema ''>= 0.''),
      (''login'', int_schema ''>= 1.''),
      (''login_window'', JObj [(''type'', JStr ''integer''), (''enum'', JArr [JInt 300, JInt 900, JInt 3600])]),
      (''engine_max_inflight'', int_schema ''>= 1.''),
      (''engine_queue_max'', int_schema ''>= 1.''),
      (''loopback_exempt'', bool_schema [])] [], True, ''A non-empty partial object of policy fields.''))
      (Some (200, ''The merged policy plus `keys`.'', Some (ref_schema ''RatelimitPolicy'')))
      ([(400, ''`invalid_request`: unknown field or a value outside its bound.'')] @ GATE_ERRORS)
      (Some SEC_WRITE)
\<close>

definition op_ratelimitUsage :: "json" where \<open>
  op_ratelimitUsage = operation ''Settings'' ''ratelimitUsage'' ''Live bucket usage''
      (''Top 10 buckets by usage ratio with usage above 0, in the standard envelope. ''
        @ ''Buckets populate once enforcement wires into the request path. Requires ''
        @ ''`settings.read` (viewer+).'')
      []
      None
      (Some (200, ''Usage rows.'', Some (page_schema EVENT_ITEM)))
      GATE_ERRORS
      (Some SEC_READ)
\<close>

definition op_resetRatelimitBuckets :: "json" where \<open>
  op_resetRatelimitBuckets = operation ''Settings'' ''resetRatelimitBuckets'' ''Reset buckets''
      (''Clears one `{subject, scope}` bucket or every bucket with `{"all": true}`; the two ''
        @ ''forms are mutually exclusive. Audits `ratelimit.reset`. Requires `settings.write` ''
        @ ''(admin+).'')
      []
      (Some (obj_schema [(''subject'', str_schema ''Bucket subject.''),
      (''scope'', str_schema ''Bucket scope.''),
      (''all'', bool_schema ''Clear every bucket; never combined with subject/scope.'')] [], True, ''Exactly one of `{subject, scope}` or `{all: true}`.''))
      (Some (200, ''Number of cleared buckets.'', Some (obj_schema [(''reset'', int_schema [])] [''reset''])))
      ([(400, ''`invalid_request`: both forms, neither form, or an unknown scope.'')] @ GATE_ERRORS)
      (Some SEC_WRITE)
\<close>

definition op_login :: "json" where \<open>
  op_login = operation ''Auth'' ''login'' ''Sign in''
      (''Verifies the password and sets the `lw_session` (HttpOnly) and `lw_csrf` cookies. ''
        @ ''Any previous session of the browser is revoked first, so the session id rotates on ''
        @ ''every sign-in. Audits `auth.login`, `auth.login_failed` and `auth.login_blocked`; ''
        @ ''five failures per 15 minutes per ip+email answer 429 with `Retry-After`.'')
      []
      (Some (obj_schema [(''email'', str_schema []),
      (''password'', str_schema [])] [''email'', ''password''], True, ''Email and password.''))
      (Some (200, ''The signed-in user and their permissions.'', Some (obj_schema [(''id'', str_schema []),
      (''email'', str_schema []),
      (''name'', str_schema []),
      (''role'', str_schema []),
      (''permissions'', arr_schema (str_schema []))] [''id'', ''email'', ''role''])))
      ([(400, ''`invalid_request`: missing email or password.''),
      (401, ''`missing_or_invalid_credential`: unknown email or wrong password.''),
      (429, ''`rate_limited`: too many failures; `Retry-After` carries the wait.''),
      (500, ''`internal_error`.'')])
      None
\<close>

definition op_logout :: "json" where \<open>
  op_logout = operation ''Auth'' ''logout'' ''Sign out''
      (''Revokes the current session, audits `auth.logout` and clears the session cookie. ''
        @ ''Requires a session (an API key has no session to log out of: 401).'')
      []
      None
      (Some (200, ''Always `{"ok": true}`.'', Some (obj_schema [(''ok'', bool_schema [])] [''ok''])))
      ([(401, ''`missing_or_invalid_credential`: no session, or an API-key principal.''),
      (500, ''`internal_error`.'')])
      (Some SEC_WRITE)
\<close>

definition op_me :: "json" where \<open>
  op_me = operation ''Auth'' ''me'' ''Current identity''
      (''The signed-in user with their permission list. A session cookie is required (an ''
        @ ''API key is refused); the response re-issues the `lw_csrf` cookie.'')
      []
      None
      (Some (200, ''Current user.'', Some (obj_schema [(''id'', str_schema []),
      (''email'', str_schema []),
      (''name'', str_schema []),
      (''role'', str_schema []),
      (''permissions'', arr_schema (str_schema []))] [''id'', ''email'', ''role''])))
      ([(401, ''`missing_or_invalid_credential`: no session cookie, or an API-key principal.''),
      (403, ''`password_change_required`: a new password is required first.''),
      (500, ''`internal_error`.'')])
      (Some SEC_READ)
\<close>

definition op_changePassword :: "json" where \<open>
  op_changePassword = operation ''Auth'' ''changePassword'' ''Change own password''
      (''Verifies the current password, applies the password policy, clears `must_change` ''
        @ ''and revokes every other session of the user (audited `session.revoked_all` with ''
        @ ''`via: password_change`). The only endpoint a `must_change` user may call.'')
      []
      (Some (obj_schema [(''current_password'', str_schema []),
      (''new_password'', str_schema [])] [''current_password'', ''new_password''], True, ''Current password plus the new one.''))
      (Some (200, ''Always `{"ok": true}`.'', Some (obj_schema [(''ok'', bool_schema [])] [''ok''])))
      ([(400, ''`invalid_request`: missing field, or the new password fails the policy.''),
      (401, ''`missing_or_invalid_credential`: no session, or the current password is wrong.''),
      (500, ''`internal_error`.'')])
      (Some SEC_WRITE)
\<close>

definition op_setup :: "json" where \<open>
  op_setup = operation ''Auth'' ''setup'' ''First-run owner wizard''
      (''Creates the first owner on an empty database and then closes permanently: once any ''
        @ ''user exists the call answers 403 `setup_closed` (serialized with a write lock, so ''
        @ ''concurrent first-runs cannot race). Audits `user.created` with `via: setup`.'')
      []
      (Some (obj_schema [(''email'', str_schema []),
      (''name'', str_schema []),
      (''password'', str_schema [])] [''email'', ''name'', ''password''], True, ''Owner email, display name and password.''))
      (Some (200, ''The created owner.'', Some (ref_schema ''User'')))
      ([(400, ''`invalid_request`: missing field, or the password fails the policy.''),
      (403, ''`setup_closed`: setup has already been completed.''),
      (500, ''`internal_error`.'')])
      None
\<close>

definition op_listUsers :: "json" where \<open>
  op_listUsers = operation ''Users'' ''listUsers'' ''List users''
      ''Every user, oldest first, in the standard envelope. Requires `users.read` (admin+).''
      []
      None
      (Some (200, ''User page.'', Some (page_schema (ref_schema ''User''))))
      ([BAD_FILTER] @ GATE_ERRORS)
      (Some SEC_READ)
\<close>

definition op_createUser :: "json" where \<open>
  op_createUser = operation ''Users'' ''createUser'' ''Create a user''
      (''Creates a user with `must_change` set, so the first sign-in must change the ''
        @ ''password. Requires `users.write` (owner); audits `user.created`.'')
      []
      (Some (obj_schema [(''email'', str_schema []),
      (''name'', str_schema []),
      (''role'', str_schema ''`owner`, `admin` or `viewer`.''),
      (''password'', str_schema ''Must satisfy the password policy.'')] [''email'', ''name'', ''role'', ''password''], True, ''Email, name, role and initial password.''))
      (Some (200, ''The created user.'', Some (ref_schema ''User'')))
      ([(400, ''`invalid_request`: missing or invalid field, weak password, duplicate email.'')] @ GATE_ERRORS)
      (Some SEC_WRITE)
\<close>

definition op_updateUser :: "json" where \<open>
  op_updateUser = operation ''Users'' ''updateUser'' ''Update a user''
      (''Partial update of `name`, `role`, `disabled` and `must_change`. Requires ''
        @ ''`users.write` (owner); audits `user.role_changed`, `user.disabled` or the matching ''
        @ ''action, and clears that account's login backoff.'')
      [query_param ''id'' ''string'' ''User id (path).'' True []]
      (Some (obj_schema [(''name'', str_schema []),
      (''role'', str_schema ''`owner`, `admin` or `viewer`.''),
      (''disabled'', bool_schema []),
      (''must_change'', bool_schema [])] [], True, ''A non-empty partial object of those four fields.''))
      (Some (200, ''The updated user.'', Some (ref_schema ''User'')))
      ([(400, ''`invalid_request`: unknown field, empty body, or an invalid role.''),
      (404, ''`not_found`: no such user.'')] @ GATE_ERRORS)
      (Some SEC_WRITE)
\<close>

definition op_deleteUser :: "json" where \<open>
  op_deleteUser = operation ''Users'' ''deleteUser'' ''Delete a user''
      (''Deletes a user; the last owner and the acting user itself are refused. Requires ''
        @ ''`users.write` (owner); audits `user.deleted`.'')
      [query_param ''id'' ''string'' ''User id (path).'' True []]
      None
      (Some (200, ''Deleted.'', Some (obj_schema [(''id'', str_schema []),
      (''deleted'', bool_schema [])] [''id'', ''deleted''])))
      ([(400, ''`invalid_request`: the last owner or the acting user cannot be deleted.''),
      (404, ''`not_found`: no such user.'')] @ GATE_ERRORS)
      (Some SEC_WRITE)
\<close>

definition op_listUserSessions :: "json" where \<open>
  op_listUserSessions = operation ''Users'' ''listUserSessions'' ''Active sessions''
      ''Unrevoked, unexpired sessions of one user. Requires `sessions.read` (owner).''
      [query_param ''id'' ''string'' ''User id (path).'' True []]
      None
      (Some (200, ''Session page.'', Some (page_schema (ref_schema ''Session''))))
      ([(404, ''`not_found`: no such user.'')] @ GATE_ERRORS)
      (Some SEC_READ)
\<close>

definition op_revokeOtherSessions :: "json" where \<open>
  op_revokeOtherSessions = operation ''Users'' ''revokeOtherSessions'' ''Revoke other sessions''
      (''Revokes every session except the caller's own. Requires `sessions.revoke_all` ''
        @ ''(owner); audits `session.revoked_all` with `scope: all`.'')
      []
      None
      (Some (200, ''Number of revoked sessions.'', Some (obj_schema [(''revoked'', int_schema [])] [''revoked''])))
      GATE_ERRORS
      (Some SEC_WRITE)
\<close>

definition op_listKeys :: "json" where \<open>
  op_listKeys = operation ''API keys'' ''listKeys'' ''List keys''
      (''Every key including revoked ones, newest first; only the 8-character prefix is ''
        @ ''exposed, never the secret. Requires `keys.list` (viewer+).'')
      []
      None
      (Some (200, ''Key page.'', Some (page_schema (ref_schema ''KeyRecord''))))
      ([BAD_FILTER] @ GATE_ERRORS)
      (Some SEC_READ)
\<close>

definition op_createKey :: "json" where \<open>
  op_createKey = operation ''API keys'' ''createKey'' ''Create a key''
      (''Creates a key and returns the plaintext secret exactly once. `name` is required ''
        @ ''(trimmed to 120 characters); `rate_limit_per_min` and `burst` are optional ''
        @ ''overrides. Requires `keys.write` (admin+); audits `key.created`.'')
      []
      (Some (obj_schema [(''name'', str_schema ''Operator label.''),
      (''rate_limit_per_min'', nullable (int_schema ''Override; null uses the policy.'')),
      (''burst'', nullable (int_schema ''Override; null uses the policy.''))] [''name''], True, ''`name` required; the two limit fields are optional overrides.''))
      (Some (200, ''The key plus its one-time secret.'', Some (obj_schema [(''id'', str_schema []),
      (''name'', str_schema []),
      (''key'', str_schema ''Plaintext secret, shown once.''),
      (''prefix'', str_schema []),
      (''rate_limit_per_min'', nullable (int_schema [])),
      (''burst'', nullable (int_schema [])),
      (''note'', str_schema ''Store this key now; it is not shown again.'')] [''id'', ''name'', ''key''])))
      ([(400, ''`invalid_request`: missing name or a bad limit value.'')] @ GATE_ERRORS)
      (Some SEC_WRITE)
\<close>

definition op_revokeKeyByBody :: "json" where \<open>
  op_revokeKeyByBody = operation ''API keys'' ''revokeKeyByBody'' ''Revoke a key (body)''
      (''Revokes the key named by the JSON body. Same semantics as the path form: soft ''
        @ ''delete (the row stays listed as revoked), rotation state cleared, audits ''
        @ ''`key.revoked`. Requires `keys.write` (admin+).'')
      []
      (Some (obj_schema [(''id'', str_schema ''Key id.'')] [''id''], True, ''The key id.''))
      (Some (200, ''Revoked.'', Some (obj_schema [(''id'', str_schema []),
      (''revoked'', bool_schema [])] [''id'', ''revoked''])))
      ([(400, ''`invalid_request`: missing `id`.''),
      (404, ''`not_found`: no such key.'')] @ GATE_ERRORS)
      (Some SEC_WRITE)
\<close>

definition op_revokeKey :: "json" where \<open>
  op_revokeKey = operation ''API keys'' ''revokeKey'' ''Revoke a key''
      (''Soft delete: the row stays in the list as revoked, the rotation grace state is ''
        @ ''cleared, and audits `key.revoked`. Requires `keys.write` (admin+).'')
      [query_param ''id'' ''string'' ''Key id (path).'' True []]
      None
      (Some (200, ''Revoked.'', Some (obj_schema [(''id'', str_schema []),
      (''revoked'', bool_schema [])] [''id'', ''revoked''])))
      ([(404, ''`not_found`: no such key.'')] @ GATE_ERRORS)
      (Some SEC_WRITE)
\<close>

definition op_rotateKey :: "json" where \<open>
  op_rotateKey = operation ''API keys'' ''rotateKey'' ''Rotate a key''
      (''Issues a new secret and keeps the previous one valid for a 300-second grace ''
        @ ''window; a revoked key cannot be rotated. Returns the new secret once. Requires ''
        @ ''`keys.write` (admin+); audits `key.rotated`.'')
      [query_param ''id'' ''string'' ''Key id (path).'' True []]
      None
      (Some (200, ''The new secret.'', Some (obj_schema [(''id'', str_schema []),
      (''key'', str_schema ''Plaintext secret, shown once.''),
      (''prefix'', str_schema []),
      (''grace'', int_schema ''Seconds the previous secret stays valid.''),
      (''note'', str_schema ''Store this key now; it is not shown again.'')] [''id'', ''key''])))
      ([(400, ''`invalid_request`: cannot rotate a revoked key.''),
      (404, ''`not_found`: no such key.'')] @ GATE_ERRORS)
      (Some SEC_WRITE)
\<close>

definition op_setKeyLimits :: "json" where \<open>
  op_setKeyLimits = operation ''API keys'' ''setKeyLimits'' ''Set per-key limits''
      (''Sets `rate_limit_per_min` and/or `burst` for one key; `null` clears an override so ''
        @ ''the policy applies again. At least one limit field is required and unknown fields ''
        @ ''are refused. Requires `keys.write` (admin+); audits `ratelimit.updated` with ''
        @ ''before/after values.'')
      [query_param ''id'' ''string'' ''Key id (path).'' True []]
      (Some (obj_schema [(''rate_limit_per_min'', nullable (int_schema [])),
      (''burst'', nullable (int_schema []))] [], True, ''At least one of the two limit fields; `null` clears the override.''))
      (Some (200, ''The stored limits.'', Some (obj_schema [(''id'', str_schema []),
      (''rate_limit_per_min'', nullable (int_schema [])),
      (''burst'', nullable (int_schema []))] [''id''])))
      ([(400, ''`invalid_request`: unknown field, or no limit field present.''),
      (404, ''`not_found`: no such key.'')] @ GATE_ERRORS)
      (Some SEC_WRITE)
\<close>

definition op_getKeyAuth :: "json" where \<open>
  op_getKeyAuth = operation ''API keys'' ''getKeyAuth'' ''Read the key-auth switch''
      ''Whether engine key verification is armed. Requires `keys.read_auth` (viewer+).''
      []
      None
      (Some (200, ''The switch state.'', Some (obj_schema [(''enabled'', bool_schema [])] [''enabled''])))
      ([BAD_FILTER] @ GATE_ERRORS)
      (Some SEC_READ)
\<close>

definition op_setKeyAuth :: "json" where \<open>
  op_setKeyAuth = operation ''API keys'' ''setKeyAuth'' ''Arm or disarm key auth''
      (''Turns engine key verification on or off. Arming is refused while no active key ''
        @ ''exists. Requires `keys.write` (admin+); audits `key.auth_changed`.'')
      []
      (Some (obj_schema [(''enabled'', bool_schema [])] [''enabled''], True, ''The desired state.''))
      (Some (200, ''The stored state.'', Some (obj_schema [(''enabled'', bool_schema [])] [''enabled''])))
      ([(400, ''`invalid_request`: `enabled` is not a boolean, or no active key exists.'')] @ GATE_ERRORS)
      (Some SEC_WRITE)
\<close>

definition op_listModels :: "json" where \<open>
  op_listModels = operation ''Models'' ''listModels'' ''Checkpoint inventory''
      (''Loaded, available and default checkpoints with device, RSS and the per-checkpoint ''
        @ ''`stats` block. Reads SQLite only and never touches the engine. No credential is ''
        @ ''enforced by this handler.'')
      []
      None
      (Some (200, ''Inventory and stats.'', Some (obj_schema [(''loaded'', arr_schema (str_schema [])),
      (''available'', arr_schema (str_schema [])),
      (''default'', arr_schema (str_schema [])),
      (''device'', str_schema []),
      (''rss_mb'', num_schema []),
      (''stats'', obj_schema [] [])] [''loaded'', ''available''])))
      ([(500, ''`internal_error`.'')])
      None
\<close>

definition op_mutateModels :: "json" where \<open>
  op_mutateModels = operation ''Models'' ''mutateModels'' ''Load or unload by action''
      (''Generic form of the two explicit endpoints: the body carries `action` (`load` or ''
        @ ''`unload`) plus `models`. Serialized with the other model mutations, audited ''
        @ ''`model.load`/`model.unload` and published on the stream. No credential is enforced ''
        @ ''by this handler.'')
      []
      (Some (obj_schema [(''action'', str_schema ''`load` or `unload`.''),
      (''models'', arr_schema (str_schema ''Non-empty checkpoint names.''))] [''action'', ''models''], True, ''`action` and a non-empty `models` list.''))
      (Some (200, ''The loaded set after the change.'', Some (obj_schema [(''loaded'', arr_schema (str_schema []))] [''loaded''])))
      ([(400, ''`invalid_request`: `action` is not load/unload, or `models` is empty.''),
      (409, ''`conflict`: blocked by `LAYA_ENGLISH_ONLY` or a load already in flight.''),
      (500, ''`internal_error`.'')])
      None
\<close>

definition op_loadModels :: "json" where \<open>
  op_loadModels = operation ''Models'' ''loadModels'' ''Load checkpoints''
      (''Loads the named checkpoints. Refused with 409 while an english-only deployment ''
        @ ''blocks the checkpoint or another load is in flight. No credential is enforced by ''
        @ ''this handler.'')
      []
      (Some (obj_schema [(''models'', arr_schema (str_schema ''Non-empty checkpoint names.''))] [''models''], True, ''A non-empty `models` list.''))
      (Some (200, ''The loaded set after the change.'', Some (obj_schema [(''loaded'', arr_schema (str_schema []))] [''loaded''])))
      ([(400, ''`invalid_request`: `models` missing or empty.''),
      (409, ''`conflict`: blocked by `LAYA_ENGLISH_ONLY` or a load already in flight.''),
      (500, ''`internal_error`.'')])
      None
\<close>

definition op_unloadModels :: "json" where \<open>
  op_unloadModels = operation ''Models'' ''unloadModels'' ''Unload checkpoints''
      (''Unloads the named checkpoints and refuses to unload the last loaded one. No ''
        @ ''credential is enforced by this handler.'')
      []
      (Some (obj_schema [(''models'', arr_schema (str_schema ''Non-empty checkpoint names.''))] [''models''], True, ''A non-empty `models` list.''))
      (Some (200, ''The loaded set after the change.'', Some (obj_schema [(''loaded'', arr_schema (str_schema []))] [''loaded''])))
      ([(400, ''`invalid_request`: `models` missing or empty.''),
      (409, ''`conflict`: refuses to unload the last loaded checkpoint.''),
      (500, ''`internal_error`.'')])
      None
\<close>

definition op_listPlaygroundTemplates :: "json" where \<open>
  op_listPlaygroundTemplates = operation ''Playground'' ''listPlaygroundTemplates'' ''Built-in templates''
      (''The three canonical templates (department, urgency, churn) with the question specs ''
        @ ''the playground seeds its editor with. Any authenticated principal (viewer+).'')
      []
      None
      (Some (200, ''Template list.'', Some (obj_schema [(''items'', arr_schema (obj_schema [] []))] [''items''])))
      ([BAD_FILTER] @ GATE_ERRORS)
      (Some SEC_READ)
\<close>

definition op_runPlayground :: "json" where \<open>
  op_runPlayground = operation ''Playground'' ''runPlayground'' ''Run a prediction in-process''
      (''Mirrors `POST /predict` in-process: same body shape, same rejection mapping, same ''
        @ ''response shape. Records one trace with `meta.source = "playground"`, so the run ''
        @ ''appears in the trace list within one stream tick and its `X-Request-Id` (the trace ''
        @ ''id) links the status badge to the detail page. Requires `playground.run` (admin+).'')
      []
      (Some (ref_schema ''PredictRequest'', True, ''Same shape as `POST /predict`.''))
      (Some (200, ''The adapter's answer payload.'', Some (ref_schema ''PredictResponse'')))
      ([(400, ''`invalid_request`: missing `state`/`questions`, or the engine rejected the call.''),
      (422, ''`english_only`: non-English state in an english-only deployment.'')] @ GATE_ERRORS)
      (Some SEC_WRITE)
\<close>

definition OPERATIONS :: "((string \<times> string) \<times> json) list" where \<open>
  OPERATIONS = [((''GET'', ''/''), op_serviceInfo),
     ((''GET'', ''/healthz''), op_healthz),
     ((''GET'', ''/api/v1/meta''), op_meta),
     ((''GET'', ''/api/v1/stream''), op_stream),
     ((''POST'', ''/predict''), op_predict),
     ((''POST'', ''/route''), op_route),
     ((''GET'', ''/api/v1/traces''), op_listTraces),
     ((''GET'', ''/api/v1/traces/{id}''), op_getTrace),
     ((''GET'', ''/api/v1/traces/{id}/observations''), op_listTraceObservations),
     ((''POST'', ''/api/v1/traces/{id}/scores''), op_createTraceScore),
     ((''POST'', ''/api/v1/traces/{id}/tags''), op_tagTrace),
     ((''DELETE'', ''/api/v1/traces/{id}''), op_deleteTrace),
     ((''DELETE'', ''/api/v1/traces''), op_deleteTraceRange),
     ((''GET'', ''/api/v1/metrics''), op_metricsSeries),
     ((''GET'', ''/api/v1/metrics/summary''), op_metricsSummary),
     ((''GET'', ''/api/v1/metrics/models''), op_metricsModels),
     ((''GET'', ''/api/v1/logs''), op_listLogs),
     ((''GET'', ''/api/v1/logs/export''), op_exportLogs),
     ((''GET'', ''/api/v1/audit''), op_listAudit),
     ((''GET'', ''/api/v1/settings''), op_getSettings),
     ((''POST'', ''/api/v1/settings''), op_updateSettings),
     ((''GET'', ''/api/v1/ratelimits''), op_getRatelimitPolicy),
     ((''POST'', ''/api/v1/ratelimits''), op_updateRatelimitPolicy),
     ((''GET'', ''/api/v1/ratelimits/usage''), op_ratelimitUsage),
     ((''POST'', ''/api/v1/ratelimits/reset''), op_resetRatelimitBuckets),
     ((''POST'', ''/api/v1/auth/login''), op_login),
     ((''POST'', ''/api/v1/auth/logout''), op_logout),
     ((''GET'', ''/api/v1/auth/me''), op_me),
     ((''POST'', ''/api/v1/auth/password''), op_changePassword),
     ((''POST'', ''/api/v1/auth/setup''), op_setup),
     ((''GET'', ''/api/v1/users''), op_listUsers),
     ((''POST'', ''/api/v1/users''), op_createUser),
     ((''PATCH'', ''/api/v1/users/{id}''), op_updateUser),
     ((''DELETE'', ''/api/v1/users/{id}''), op_deleteUser),
     ((''GET'', ''/api/v1/users/{id}/sessions''), op_listUserSessions),
     ((''DELETE'', ''/api/v1/sessions''), op_revokeOtherSessions),
     ((''GET'', ''/api/v1/keys''), op_listKeys),
     ((''POST'', ''/api/v1/keys''), op_createKey),
     ((''DELETE'', ''/api/v1/keys''), op_revokeKeyByBody),
     ((''DELETE'', ''/api/v1/keys/{id}''), op_revokeKey),
     ((''POST'', ''/api/v1/keys/{id}/rotate''), op_rotateKey),
     ((''PATCH'', ''/api/v1/keys/{id}''), op_setKeyLimits),
     ((''GET'', ''/api/v1/keys/auth''), op_getKeyAuth),
     ((''POST'', ''/api/v1/keys/auth''), op_setKeyAuth),
     ((''GET'', ''/api/v1/models''), op_listModels),
     ((''POST'', ''/api/v1/models''), op_mutateModels),
     ((''POST'', ''/api/v1/models/load''), op_loadModels),
     ((''POST'', ''/api/v1/models/unload''), op_unloadModels),
     ((''GET'', ''/api/v1/playground/templates''), op_listPlaygroundTemplates),
     ((''POST'', ''/api/v1/playground/run''), op_runPlayground)]
\<close>

section \<open>The document\<close>

definition VERSION :: string where "VERSION = ''0.1.0''"

text \<open>\<open>paths.setdefault(path, {})[method.lower()] = operation\<close>\<close>

definition add_operation :: "(string \<times> string) \<times> json \<Rightarrow> (string \<times> (string \<times> json) list) list \<Rightarrow> (string \<times> (string \<times> json) list) list" where
  "add_operation entry paths = (case entry of ((meth, path), oper) \<Rightarrow>
     dict_set path (dict_set (py_lower meth) oper (case map_of paths path of None \<Rightarrow> [] | Some ms \<Rightarrow> ms)) paths)"

definition paths_of :: "((string \<times> string) \<times> json) list \<Rightarrow> (string \<times> (string \<times> json) list) list" where
  "paths_of operations = sort_key fst (fold add_operation operations [])"

definition document_of :: "((string \<times> string) \<times> json) list \<Rightarrow> json" where
  "document_of operations = JObj
     [(''openapi'', JStr ''3.1.0''),
      (''info'', JObj [(''title'', JStr TITLE), (''version'', JStr VERSION), (''description'', JStr DESCRIPTION)]),
      (''servers'', JArr [JObj [(''url'', JStr ''/''), (''description'', JStr ''Same origin as the console.'')]]),
      (''tags'', JArr (map (\<lambda>(name, note). JObj [(''name'', JStr name), (''description'', JStr note)]) TAGS)),
      (''paths'', JObj (map (\<lambda>(path, ms). (path, JObj ms)) (paths_of operations))),
      (''components'', JObj [(''schemas'', JObj SCHEMAS), (''securitySchemes'', JObj SECURITY_SCHEMES)])]"

definition build :: json where
  "build = document_of OPERATIONS"

definition documented_paths :: "string list" where
  "documented_paths = map (snd \<circ> fst) OPERATIONS"

definition is_covered :: "string \<times> string \<Rightarrow> bool" where
  "is_covered mp = (case mp of (meth, pat) \<Rightarrow>
     pat = ''/*'' \<or> (meth, pat) \<in> set (map fst OPERATIONS)
     \<or> (is_prefix_pattern pat \<and> (\<exists>path \<in> set documented_paths. py_startswith path (butlast pat))))"

definition undocumented :: "(string \<times> string) list \<Rightarrow> string list" where
  "undocumented routes = sort (map (\<lambda>(meth, pat). meth @ '' '' @ pat) (filter (\<lambda>mp. \<not> is_covered mp) routes))"

text \<open>\<open>Router.routes\<close>: every registered pair, by pattern and method.\<close>

definition pairs_of :: "(string \<times> 's methods) list \<Rightarrow> (string \<times> string) list" where
  "pairs_of table = concat (map (\<lambda>(pat, ms). map (\<lambda>(m, _). (m, pat)) ms) table)"

definition router_routes :: "'s router \<Rightarrow> (string \<times> string) list" where
  "router_routes r = sort_key (\<lambda>(m, pat). (pat, m)) (pairs_of (rt_exact r) @ pairs_of (rt_prefixes r))"

end
