(* ===== verification/Playground.thy ===== *)
theory Playground
  imports Middleware
begin

text \<open>
  Models \<open>layawatch/api/playground.py\<close>: the built-in templates behind the gate, and the in-process run
  that owns the lifecycle of its trace. It reuses the engine handlers' validation, guard and trace
  fields, which the source repeats word for word.
\<close>

section \<open>Templates\<close>

definition question_json :: "string \<Rightarrow> string \<Rightarrow> (string \<times> json) list \<Rightarrow> json" where
  "question_json kind instructions extra = JObj ([(''type'', JStr kind), (''instructions'', JStr instructions)] @ extra)"

definition template_json :: "string \<Rightarrow> string \<Rightarrow> string \<Rightarrow> json \<Rightarrow> json" where
  "template_json ident title question spec = JObj [(''id'', JStr ident), (''name'', JStr title), (''questions'', JObj [(question, spec)])]"

definition TEMPLATES :: "json list" where
  "TEMPLATES =
     [template_json ''department'' ''Department'' ''department''
        (question_json ''choice'' ''Which department should handle this request?''
          [(''criteria'', JObj [(''billing'', JStr ''invoices, payments, refunds''), (''technical'', JStr ''bugs, outages, system errors''),
             (''sales'', JStr ''pricing, new contracts''), (''other'', JStr ''everything else'')])]),
      template_json ''urgency'' ''Urgency'' ''urgency''
        (question_json ''score'' ''How urgent is this request?''
          [(''criteria'', JArr [JStr ''not urgent'', JStr ''soon'', JStr ''critical deadline or blocking issue''])]),
      template_json ''churn'' ''Churn'' ''churn_risk''
        (question_json ''noul'' ''Does the user threaten to cancel or leave?'' [])]"

definition play_gate :: "env \<Rightarrow> request \<Rightarrow> string option \<Rightarrow> ('e, principal) live" where
  "play_gate ev rq permission = with_conn (gate (cx_crypto (ev_ctx ev)) (cx_now (ev_ctx ev)) (cx_pepper (ev_ctx ev)) (cx_cached (ev_ctx ev))
     rq permission None None)"

definition templates_handler :: "env \<Rightarrow> 'e life handler" where
  "templates_handler ev rq = act_bind (act_lift (reject_unknown_query rq)) (\<lambda>_.
     act_bind (play_gate ev rq None) (\<lambda>_. act_return (json_response (JObj [(''items'', JArr TEMPLATES)]) 200 [])))"

section \<open>Run\<close>

definition probe_attrs :: "env \<Rightarrow> request \<Rightarrow> json \<Rightarrow> (string \<times> json) list" where
  "probe_attrs ev rq parsed =
     [(''state_bytes'', JInt (int (length (rq_body rq))))]
     @ (case parsed of
          JObj kvs \<Rightarrow>
            (case jget kvs ''questions'' of JObj qs \<Rightarrow> [(''question_count'', JInt (int (length qs)))] | _ \<Rightarrow> [])
            @ (if jget kvs ''model'' \<noteq> JNull then [(''model_param'', JStr (str_of_json ev (jget kvs ''model'')))] else [])
            @ (if jget kvs ''lang'' \<noteq> JNull then [(''lang_param'', JStr (str_of_json ev (jget kvs ''lang'')))] else [])
        | _ \<Rightarrow> [])"

definition probe :: "env \<Rightarrow> request \<Rightarrow> ('e, (string \<times> json) list) live" where
  "probe ev rq = act_bind (act_lift (request_json (cx_loads (ev_ctx ev)) rq)) (\<lambda>parsed.
     with_span ev ''body.parse'' (probe_attrs ev rq parsed) (act_lift (validated_payload (Some parsed))))"

definition played :: "env \<Rightarrow> 'e adapter \<Rightarrow> request \<Rightarrow> ('e, response) live" where
  "played ev ad rq =
     act_bind (with_span ev ''http.receive'' (receive_attrs rq) (act_return ())) (\<lambda>_.
     act_bind (probe ev rq) (\<lambda>kvs.
     act_bind (record_request rq kvs) (\<lambda>_.
     act_bind (in_engine (ad_predict ad (jget kvs ''state'') (obj_of (jget kvs ''questions''))
         (override_of ev kvs ''model'') (override_of ev kvs ''task'') (override_of ev kvs ''lang''))) (\<lambda>answer.
     act_bind (act_lift (guard_engine answer)) (\<lambda>result.
     act_bind (record_result result) (\<lambda>_.
     act_return (json_response (JObj result) 200 [])))))))"

text \<open>The two except clauses: only an \<open>HttpError\<close> sets the error fields of the trace.\<close>

definition note_play :: "env \<Rightarrow> exn \<Rightarrow> ('e, unit) live" where
  "note_play ev e = (case e of
     HttpErr he \<Rightarrow> note_error ev (he_code he) (he_message he) (he_message he) ''handler''
   | PyExc x \<Rightarrow> trace_event ev ''error'' JNull JNull [(''code'', JStr ''internal_error''),
       (''message'', JStr ''internal server error''), (''where'', JStr ''handler'')])"

definition play_status :: "exn \<Rightarrow> int" where
  "play_status e = (case e of HttpErr he \<Rightarrow> he_status he | PyExc _ \<Rightarrow> 500)"

definition close_play :: "env \<Rightarrow> int \<Rightarrow> nat \<Rightarrow> ('e, unit) live" where
  "close_play ev status n = act_bind (with_span ev ''response.send'' [(''status'', JInt status), (''bytes'', JInt (int n))] (act_return ())) (\<lambda>_ s.
     (Inr (), finish_trace ev status s))"

definition play_run :: "env \<Rightarrow> 'e adapter \<Rightarrow> request \<Rightarrow> ('e, response) live" where
  "play_run ev ad rq s = (case trace_set_meta [(''source'', JStr ''playground'')] (begin_request ev rq s) of
     (Inl e, t) \<Rightarrow> (Inl e, t)
   | (Inr _, t) \<Rightarrow> (case played ev ad rq t of
       (Inr resp, u) \<Rightarrow> act_bind (close_play ev 200 (length (body_bytes (ev_render ev) (rs_body resp)))) (\<lambda>_. act_return resp) u
     | (Inl e, u) \<Rightarrow> (case note_play ev e u of
         (Inr _, v) \<Rightarrow> act_bind (close_play ev (play_status e) 0) (\<lambda>_. act_raise e) v
       | (Inl x, v) \<Rightarrow> act_bind (close_play ev 500 0) (\<lambda>_. act_raise x) v)))"

definition run_handler :: "env \<Rightarrow> 'e adapter \<Rightarrow> 'e life handler" where
  "run_handler ev ad rq = act_bind (play_gate ev rq (Some ''playground.run'')) (\<lambda>_. play_run ev ad rq)"

definition add_playground_routes :: "env \<Rightarrow> 'e adapter \<Rightarrow> 'e life router \<Rightarrow> 'e life router" where
  "add_playground_routes ev ad router = router_add ''POST'' ''/api/v1/playground/run'' (run_handler ev ad)
     (router_add ''GET'' ''/api/v1/playground/templates'' (templates_handler ev) router)"

section \<open>One trace per run\<close>

lemma good_play_spans: "good_span ''body.parse'' (probe_attrs ev rq parsed)" "good_span ''response.send'' [(''status'', JInt st), (''bytes'', JInt n)]"
  by (auto simp: good_span_def observation_type_def validate_def span_entry_def TABLE_def probe_attrs_def split: option.splits json.splits)











section \<open>A run answers what predict answers\<close>

lemma span_lift:
  assumes "open_trace s" "good_span name attrs"
  obtains t where "with_span ev name attrs (act_lift r) s = (r, t)" "lf_engine t = lf_engine s" "open_trace t"
proof -
  obtain h t where e: "enter_span ev name attrs s = (Inr (Some h), t)" using enter_ok[OF assms, of ev] by blast
  have run: "with_span ev name attrs (act_lift r) s = (r, leave_span ev h (isl r) t)"
    by (cases r) (simp_all add: with_span_def act_bind_def e act_lift_def act_simps)
  have c: "carries s (leave_span ev h (isl r) t)"
  proof -
    have "carrying (with_span ev name attrs (act_lift r))" by (intro carry)
    from carryingD[OF this run] show ?thesis .
  qed
  have "lf_engine (leave_span ev h (isl r) t) = lf_engine s"
    using e by (auto simp: enter_span_def leave_span_def Let_def split: option.splits prod.splits sum.splits if_splits)
  with run show thesis using carries_open[OF c assms(1)] that by blast
qed

lemma played_run:
  assumes "open_trace s" "request_json (cx_loads (ev_ctx ev)) rq = Inr parsed"
  obtains t where "lf_engine t = lf_engine s" "open_trace t" "played ev ad rq s = (case validated_payload (Some parsed) of Inl x \<Rightarrow> (Inl x, t)
    | Inr kvs \<Rightarrow> act_bind (record_request rq kvs) (\<lambda>_.
     act_bind (in_engine (ad_predict ad (jget kvs ''state'') (obj_of (jget kvs ''questions''))
         (override_of ev kvs ''model'') (override_of ev kvs ''task'') (override_of ev kvs ''lang''))) (\<lambda>answer.
     act_bind (act_lift (guard_engine answer)) (\<lambda>result.
     act_bind (record_result result) (\<lambda>_.
     act_return (json_response (JObj result) 200 []))))) t)"
proof -
  obtain u where u: "with_span ev ''http.receive'' (receive_attrs rq) (act_lift (Inr ())) s = (Inr (), u)" "lf_engine u = lf_engine s" "open_trace u"
    by (rule span_lift[OF assms(1) good_spans(1)])
  have ret: "act_return () = act_lift (Inr ())" by (rule ext) (simp add: act_lift_def act_return_def)
  obtain t where t: "with_span ev ''body.parse'' (probe_attrs ev rq parsed) (act_lift (validated_payload (Some parsed))) u
      = (validated_payload (Some parsed), t)" "lf_engine t = lf_engine u" "open_trace t"
    by (rule span_lift[OF u(3) good_play_spans(1)])
  show thesis
    by (rule that[of t]) (use u t assms(2) in \<open>auto simp: played_def probe_def ret act_bind_def[of "with_span _ _ _ _"]
        act_bind_lift act_bind_def[of "act_bind _ _"] split: sum.splits\<close>)
qed

lemma record_result_ok:
  assumes "open_trace s"
  obtains t where "record_result x s = (Inr (), t)" "lf_engine t = lf_engine s"
proof -
  have "fst (record_result x s) = Inr ()" unfolding record_result_def by (rule set_ok[OF assms]) (simp add: SETTABLE_FIELDS_def)
  moreover have "lf_engine (snd (record_result x s)) = lf_engine s" by (simp add: record_result_def)
  ultimately show thesis using that by (metis prod.collapse)
qed

lemma played_valid:
  assumes "open_trace s" "request_json (cx_loads (ev_ctx ev)) rq = Inr parsed" "validated_payload (Some parsed) = Inr kvs"
    and "ad_predict ad (jget kvs ''state'') (obj_of (jget kvs ''questions'')) (override_of ev kvs ''model'')
      (override_of ev kvs ''task'') (override_of ev kvs ''lang'') (lf_engine s) = (r, e)"
  shows "fst (played ev ad rq s) = (case guard_engine r of Inl x \<Rightarrow> Inl x | Inr result \<Rightarrow> Inr (json_response (JObj result) 200 []))
    \<and> lf_engine (snd (played ev ad rq s)) = e"
proof -
  obtain t where t: "lf_engine t = lf_engine s" "open_trace t" and run: "played ev ad rq s =
    act_bind (record_request rq kvs) (\<lambda>_.
     act_bind (in_engine (ad_predict ad (jget kvs ''state'') (obj_of (jget kvs ''questions''))
         (override_of ev kvs ''model'') (override_of ev kvs ''task'') (override_of ev kvs ''lang''))) (\<lambda>answer.
     act_bind (act_lift (guard_engine answer)) (\<lambda>result.
     act_bind (record_result result) (\<lambda>_.
     act_return (json_response (JObj result) 200 []))))) t"
    by (rule played_run[OF assms(1,2), of ad]) (simp add: assms(3))
  have st: "list_all (\<lambda>(k, v). k \<in> set SETTABLE_FIELDS) [(''state_bytes'', a), (''question_count'', b)]"
    "list_all (\<lambda>(k, v). k \<in> set SETTABLE_FIELDS) [(''model'', a), (''route_reason'', b), (''lang'', d)]" for a b d
    by (simp_all add: SETTABLE_FIELDS_def)
  obtain u where u: "record_request rq kvs t = (Inr (), u)" "lf_engine u = lf_engine t"
    using set_ok[OF t(2) st(1)] trace_set_engine(1) unfolding record_request_def by (metis prod.collapse snd_conv)
  have "carrying (record_request rq kvs :: ('a, unit) live)" unfolding record_request_def by (rule carry_set)
  from carries_open[OF carryingD[OF this u(1)] t(2)] have ou: "open_trace (u\<lparr>lf_engine := e\<rparr>)" by (simp add: open_trace_def)
  let ?q = "in_engine (ad_predict ad (jget kvs ''state'') (obj_of (jget kvs ''questions'')) (override_of ev kvs ''model'')
      (override_of ev kvs ''task'') (override_of ev kvs ''lang''))"
  have q: "?q u = (Inr r, u\<lparr>lf_engine := e\<rparr>)" using assms(4) by (simp add: in_engine_def u(2) t(1))
  have run2: "played ev ad rq s = act_bind (act_lift (guard_engine r)) (\<lambda>result.
      act_bind (record_result result) (\<lambda>_. act_return (json_response (JObj result) 200 []))) (u\<lparr>lf_engine := e\<rparr>)"
    by (simp add: run act_bind_def[of "record_request rq kvs"] u(1) act_bind_def[of ?q] q)
  show ?thesis
  proof (cases "guard_engine r")
    case (Inr x)
    obtain w where "record_result x (u\<lparr>lf_engine := e\<rparr>) = (Inr (), w)" "lf_engine w = e"
      by (rule record_result_ok[OF ou, of x]) simp
    then show ?thesis by (simp add: run2 Inr act_bind_lift act_bind_def[of "record_result _"] act_return_def)
  qed (simp add: run2 act_bind_lift)
qed

text \<open>On a body that parses, a playground run answers exactly what the predict endpoint answers for the same
  body and engine, errors included, and leaves the engine in the same state.\<close>

theorem playground_answers_like_predict:
  assumes "open_trace s" "request_json (cx_loads (ev_ctx ev)) rq = Inr parsed"
  shows "fst (played ev ad rq s) = fst (predict_handler ev ad rq (s\<lparr>lf_parsed := Some parsed\<rparr>))
    \<and> lf_engine (snd (played ev ad rq s)) = lf_engine (snd (predict_handler ev ad rq (s\<lparr>lf_parsed := Some parsed\<rparr>)))"
proof (cases "validated_payload (Some parsed)")
  case (Inl x)
  obtain t where "lf_engine t = lf_engine s" "played ev ad rq s = (Inl x, t)"
    by (rule played_run[OF assms, of ad]) (simp add: Inl)
  then show ?thesis by (simp add: predict_handler_def act_bind_get act_bind_lift Inl)
next
  case (Inr kvs)
  obtain r e where p: "ad_predict ad (jget kvs ''state'') (obj_of (jget kvs ''questions'')) (override_of ev kvs ''model'')
      (override_of ev kvs ''task'') (override_of ev kvs ''lang'') (lf_engine s) = (r, e)"
    by (metis surj_pair)
  obtain c where c: "lf_trace s = Some c" "\<not> tx_finished c" using assms(1) by (auto simp: open_trace_def)
  have parsed: "parsed = JObj kvs" using Inr by (auto simp: validated_payload_def split: json.splits if_splits)
  have "fst (predict_handler ev ad rq (s\<lparr>lf_parsed := Some parsed\<rparr>)) = (case guard_engine r of Inl x \<Rightarrow> Inl x | Inr result \<Rightarrow> Inr (json_response (JObj result) 200 []))
    \<and> lf_engine (snd (predict_handler ev ad rq (s\<lparr>lf_parsed := Some parsed\<rparr>))) = e"
    using predict_handler_run[of "s\<lparr>lf_parsed := Some parsed\<rparr>" kvs kvs c ad ev r e rq] Inr parsed c p by simp
  then show ?thesis using played_valid[OF assms Inr p] by simp
qed

section \<open>Witnesses\<close>

definition play_rq :: request where
  "play_rq = engine_rq\<lparr>rq_method := ''POST'', rq_path := ''/api/v1/playground/run'', rq_body := ''{}''\<rparr>"

lemma play_rq_ok: "rq_id play_rq \<noteq> []" "request_json (cx_loads (ev_ctx (demo_env []))) play_rq = Inr (JObj [(''state'', JObj []), (''questions'', JObj [])])"
  by code_simp+



theorem playground_answers_like_predict_witness:
  "fst (played (demo_env []) (fake_adapter id (\<lambda>_. ''0'')) play_rq (begin_request (demo_env []) play_rq (demo_life False)))
    = fst (predict_handler (demo_env []) (fake_adapter id (\<lambda>_. ''0'')) play_rq
        ((begin_request (demo_env []) play_rq (demo_life False))\<lparr>lf_parsed := Some (JObj [(''state'', JObj []), (''questions'', JObj [])])\<rparr>))"
  using playground_answers_like_predict[OF begin_open(1)[OF demo_life_ok(2) play_rq_ok(1)] play_rq_ok(2)] by blast

end
