(* ===== verification/Stream_Hub.thy ===== *)
theory Stream_Hub
  imports Http_Types
begin

text \<open>
  Models \<open>layawatch/api/stream.py\<close>: the registry of live streams, the replay ring, the fan-out, the
  tick of a stream and the shared pulse frame with its prefetch timer. A definition is one critical
  section of the hub's condition variable, so the sections of publishers, streams and timers
  interleave freely. Clocks, the pulse provider's answer and the rendering of floats are arguments.
\<close>

definition PING_S :: pyfloat where
  "PING_S = 15"

type_synonym sse_event = "string \<times> json \<times> nat option"

record client =
  cl_no :: nat
  cl_queue :: "sse_event list"
  cl_last_pulse :: pyfloat
  cl_last_ping :: pyfloat

text \<open>\<open>hb_replay\<close> is the bound of the ring; the two serials number streams and timers.\<close>

record hub =
  hb_clients :: "client list"
  hb_ring :: "(nat \<times> json) list"
  hb_next :: nat
  hb_stopping :: bool
  hb_tick :: pyfloat
  hb_ring_size :: int
  hb_replay :: nat
  hb_max :: nat
  hb_frame :: "string option"
  hb_frame_at :: pyfloat
  hb_computing :: bool
  hb_timer :: "nat option"
  hb_serial :: nat
  hb_timers :: nat

definition new_hub :: hub where
  "new_hub = \<lparr>hb_clients = [], hb_ring = [], hb_next = 1, hb_stopping = False, hb_tick = 3, hb_ring_size = 1000,
     hb_replay = 200, hb_max = 20, hb_frame = None, hb_frame_at = 0, hb_computing = False, hb_timer = None,
     hb_serial = 0, hb_timers = 0\<rparr>"

definition attach :: "pyfloat \<Rightarrow> int \<Rightarrow> nat \<Rightarrow> nat \<Rightarrow> hub \<Rightarrow> hub" where
  "attach tick ring_size replay max_clients h = h\<lparr>hb_tick := tick, hb_ring_size := ring_size, hb_max := max_clients,
     hb_ring := [], hb_replay := replay, hb_next := 1, hb_stopping := False, hb_frame := None, hb_frame_at := 0,
     hb_computing := False, hb_timer := None\<rparr>"

section \<open>Publishers\<close>

definition enqueue_all :: "sse_event \<Rightarrow> hub \<Rightarrow> hub" where
  "enqueue_all e h = h\<lparr>hb_clients := map (\<lambda>c. c\<lparr>cl_queue := cl_queue c @ [e]\<rparr>) (hb_clients h)\<rparr>"

definition publish_trace :: "json \<Rightarrow> hub \<Rightarrow> nat \<times> hub" where
  "publish_trace summary h =
     (let i = hb_next h in
      (i, enqueue_all (''trace'', summary, Some i)
            (h\<lparr>hb_next := Suc i, hb_ring := ring_push (hb_replay h) (i, summary) (hb_ring h)\<rparr>)))"

definition publish :: "string \<Rightarrow> json \<Rightarrow> hub \<Rightarrow> hub" where
  "publish name payload h = enqueue_all (name, payload, None) h"

definition client_count :: "hub \<Rightarrow> nat" where
  "client_count h = length (hb_clients h)"

definition stop :: "hub \<Rightarrow> hub" where
  "stop h = h\<lparr>hb_stopping := True, hb_timer := None\<rparr>"

section \<open>Frames\<close>

definition newline :: char where
  "newline = CHR 0x0A"

text \<open>The text is ASCII: names are constants and \<open>json.dumps\<close> escapes the rest.\<close>

definition encode :: "(pyfloat \<Rightarrow> string) \<Rightarrow> sse_event \<Rightarrow> string" where
  "encode fr e = (case e of (name, payload, event_id) \<Rightarrow>
     (case event_id of None \<Rightarrow> [] | Some i \<Rightarrow> ''id: '' @ str_nat i @ [newline])
     @ ''event: '' @ name @ [newline] @ ''data: '' @ json_dumps fr payload @ [newline, newline])"

definition hello :: "pyfloat \<Rightarrow> hub \<Rightarrow> sse_event" where
  "hello server_time h = (''hello'', JObj [(''server_time'', JFloat server_time), (''tick'', JFloat (hb_tick h)),
     (''ring_size'', JInt (hb_ring_size h))], None)"

section \<open>A stream\<close>

definition parse_last_event_id :: "string option \<Rightarrow> int option" where
  "parse_last_event_id raw = (case raw of None \<Rightarrow> None | Some s \<Rightarrow> py_int s)"

text \<open>\<open>headers.get("last-event-id") or param("last_event_id")\<close>\<close>

definition last_event_id :: "request \<Rightarrow> int option" where
  "last_event_id rq = parse_last_event_id
     (case map_of (rq_headers rq) ''last-event-id'' of
        Some (c # cs) \<Rightarrow> Some (c # cs) | _ \<Rightarrow> request_param rq ''last_event_id'')"

definition replay_from :: "int option \<Rightarrow> hub \<Rightarrow> (nat \<times> json) list" where
  "replay_from last_id h = (case last_id of None \<Rightarrow> [] | Some l \<Rightarrow> filter (\<lambda>(i, _). l < int i) (hb_ring h))"

text \<open>The registration of \<open>_handle\<close>: the number of the stream and its replay window.\<close>

definition register :: "pyfloat \<Rightarrow> int option \<Rightarrow> hub \<Rightarrow> (exn + nat \<times> (nat \<times> json) list) \<times> hub" where
  "register now last_id h =
     (if hb_max h \<le> length (hb_clients h)
      then (Inl (http_err 503 ''sse_unavailable'' (''stream client capacity reached ('' @ str_nat (hb_max h) @ '')'') None), h)
      else (Inr (hb_serial h, replay_from last_id h),
            h\<lparr>hb_clients := hb_clients h @ [\<lparr>cl_no = hb_serial h, cl_queue = [], cl_last_pulse = now, cl_last_ping = now\<rparr>],
              hb_serial := Suc (hb_serial h)\<rparr>))"

definition head_text :: "(pyfloat \<Rightarrow> string) \<Rightarrow> pyfloat \<Rightarrow> hub \<Rightarrow> (nat \<times> json) list \<Rightarrow> string" where
  "head_text fr server_time h replay =
     encode fr (hello server_time h) @ concat (map (\<lambda>(i, s). encode fr (''trace'', s, Some i)) replay)"

text \<open>The \<open>finally\<close> of a stream.\<close>

definition unregister :: "nat \<Rightarrow> hub \<Rightarrow> hub" where
  "unregister no h = h\<lparr>hb_clients := filter (\<lambda>c. cl_no c \<noteq> no) (hb_clients h)\<rparr>"

datatype pulse = NoPulse | Shared "string option" | AwaitFrame | ComputeFrame

datatype tick = Leave | Sleep pyfloat | Batch "sse_event list" pulse bool

definition set_client :: "client \<Rightarrow> hub \<Rightarrow> hub" where
  "set_client c h = h\<lparr>hb_clients := map (\<lambda>x. if cl_no x = cl_no c then c else x) (hb_clients h)\<rparr>"

text \<open>One turn of the locked part of \<open>_tick_batch\<close>: leave, sleep, or drain the queue. \<open>now0\<close> is the
  clock of the cadence test, \<open>now\<close> the one read after it.\<close>

definition collect :: "nat \<Rightarrow> pyfloat \<Rightarrow> pyfloat \<Rightarrow> hub \<Rightarrow> tick \<times> hub" where
  "collect no now0 now h =
     (case find (\<lambda>c. cl_no c = no) (hb_clients h) of
        None \<Rightarrow> (Leave, h)
      | Some c \<Rightarrow>
          if hb_stopping h then (Leave, h)
          else if \<not> hb_tick h \<le> now0 - cl_last_pulse c \<and> \<not> PING_S \<le> now0 - cl_last_ping c
          then (Sleep (min (cl_last_pulse c + hb_tick h) (cl_last_ping c + PING_S) - now0), h)
          else
            let pulse_due = hb_tick h \<le> now - cl_last_pulse c; ping_due = PING_S \<le> now - cl_last_ping c;
                h1 = set_client (c\<lparr>cl_queue := [], cl_last_pulse := (if pulse_due then now else cl_last_pulse c),
                                   cl_last_ping := (if ping_due then now else cl_last_ping c)\<rparr>) h;
                fresh = (hb_frame h \<noteq> None \<and> now - hb_frame_at h < hb_tick h);
                source = (if \<not> pulse_due then NoPulse
                          else if fresh then Shared (hb_frame h)
                          else if hb_computing h then AwaitFrame else ComputeFrame)
            in (Batch (cl_queue c) source ping_due,
                if source = ComputeFrame then h1\<lparr>hb_computing := True\<rparr> else h1))"

text \<open>A stream that waits for the frame wakes: \<open>None\<close> while the computation lasts.\<close>

definition resume_wait :: "hub \<Rightarrow> tick option" where
  "resume_wait h = (if hb_stopping h then Some Leave
     else if hb_computing h then None else Some (Batch [] (Shared (hb_frame h)) False))"

definition batch_text :: "(pyfloat \<Rightarrow> string) \<Rightarrow> sse_event list \<Rightarrow> string option \<Rightarrow> bool \<Rightarrow> string" where
  "batch_text fr pending frame ping_due =
     concat (map (encode fr) pending) @ (case frame of None \<Rightarrow> [] | Some f \<Rightarrow> f)
     @ (if ping_due then encode fr (''ping'', JObj [], None) else [])"

section \<open>The pulse\<close>

text \<open>A provider that raises gives an empty pulse.\<close>

definition pulse_text :: "(pyfloat \<Rightarrow> string) \<Rightarrow> json option \<Rightarrow> string" where
  "pulse_text fr answer = encode fr (''pulse'', (case answer of None \<Rightarrow> JObj [] | Some p \<Rightarrow> p), None)"

definition store_frame :: "string \<Rightarrow> pyfloat \<Rightarrow> hub \<Rightarrow> hub" where
  "store_frame frame now h = h\<lparr>hb_frame := Some frame, hb_frame_at := now, hb_computing := False\<rparr>"

definition arm_prefetch :: "hub \<Rightarrow> hub" where
  "arm_prefetch h = (if hb_stopping h \<or> hb_clients h = [] \<or> hb_timer h \<noteq> None then h
     else h\<lparr>hb_timer := Some (hb_timers h), hb_timers := Suc (hb_timers h)\<rparr>)"

text \<open>The start of a timer callback: whether it goes on to compute the frame.\<close>

definition prefetch :: "nat \<Rightarrow> hub \<Rightarrow> bool \<times> hub" where
  "prefetch t h =
     (if hb_timer h \<noteq> Some t then (False, h)
      else
        let h1 = h\<lparr>hb_timer := None\<rparr> in
        if hb_stopping h \<or> hb_clients h = [] \<or> hb_computing h then (False, h1)
        else (True, h1\<lparr>hb_computing := True\<rparr>))"

section \<open>Runs of the hub\<close>

text \<open>A run interleaves the sections of publishers, streams and timers. Beside the hub, a run keeps per
  stream what it was registered with and the trace ids it has been handed, and the number of pulse
  computations under way: \<open>StoreFrame\<close> ends one of them.\<close>

record history =
  hy_asked :: "nat \<Rightarrow> int option"
  hy_oldest :: "nat \<Rightarrow> nat"
  hy_next :: "nat \<Rightarrow> nat"
  hy_handed :: "nat \<Rightarrow> nat list"
  hy_computing :: nat

definition no_history :: history where
  "no_history = \<lparr>hy_asked = (\<lambda>_. None), hy_oldest = (\<lambda>_. 0), hy_next = (\<lambda>_. 0), hy_handed = (\<lambda>_. []), hy_computing = 0\<rparr>"

datatype hub_event = Publish json | Fan string json | Register pyfloat "int option" | Unregister nat
  | Collect nat pyfloat pyfloat | StoreFrame string pyfloat | Arm | Prefetch nat | Halt

fun trace_ids :: "sse_event list \<Rightarrow> nat list" where
  "trace_ids [] = []"
| "trace_ids ((_, _, None) # es) = trace_ids es"
| "trace_ids ((_, _, Some i) # es) = i # trace_ids es"

definition oldest_id :: "hub \<Rightarrow> nat" where
  "oldest_id h = (case hb_ring h of [] \<Rightarrow> hb_next h | (i, _) # _ \<Rightarrow> i)"

fun hub_step :: "hub_event \<Rightarrow> hub \<times> history \<Rightarrow> hub \<times> history" where
  "hub_step (Publish summary) (h, y) = (snd (publish_trace summary h), y)"
| "hub_step (Fan name payload) (h, y) = (publish name payload h, y)"
| "hub_step (Register now last_id) (h, y) =
     (case register now last_id h of
        (Inl _, h') \<Rightarrow> (h', y)
      | (Inr (no, replay), h') \<Rightarrow> (h', y\<lparr>hy_asked := (hy_asked y)(no := last_id), hy_oldest := (hy_oldest y)(no := oldest_id h),
          hy_next := (hy_next y)(no := hb_next h), hy_handed := (hy_handed y)(no := map fst replay)\<rparr>))"
| "hub_step (Unregister no) (h, y) = (unregister no h, y)"
| "hub_step (Collect no now0 now) (h, y) =
     (case collect no now0 now h of
        (Batch pending source _, h') \<Rightarrow>
          (h', y\<lparr>hy_handed := (hy_handed y)(no := hy_handed y no @ trace_ids pending),
                 hy_computing := hy_computing y + (if source = ComputeFrame then 1 else 0)\<rparr>)
      | (_, h') \<Rightarrow> (h', y))"
| "hub_step (StoreFrame frame now) (h, y) =
     (if hy_computing y = 0 then (h, y) else (store_frame frame now h, y\<lparr>hy_computing := hy_computing y - 1\<rparr>))"
| "hub_step Arm (h, y) = (arm_prefetch h, y)"
| "hub_step (Prefetch t) (h, y) =
     (case prefetch t h of (go, h') \<Rightarrow> (h', if go then y\<lparr>hy_computing := Suc (hy_computing y)\<rparr> else y))"
| "hub_step Halt (h, y) = (stop h, y)"

text \<open>The first trace id a stream is owed: after the id it asked for, as far back as the ring goes.\<close>

definition owed_from :: "history \<Rightarrow> nat \<Rightarrow> nat" where
  "owed_from y no = (case hy_asked y no of
     None \<Rightarrow> hy_next y no
   | Some l \<Rightarrow> min (hy_next y no) (max (nat (l + 1)) (hy_oldest y no)))"

definition ring_inv :: "hub \<Rightarrow> bool" where
  "ring_inv h \<longleftrightarrow> map fst (hb_ring h) = [hb_next h - length (hb_ring h) ..< hb_next h]
   \<and> length (hb_ring h) \<le> hb_replay h \<and> length (hb_ring h) < hb_next h"

definition stream_inv :: "hub \<Rightarrow> history \<Rightarrow> client \<Rightarrow> bool" where
  "stream_inv h y c \<longleftrightarrow> cl_no c < hb_serial h \<and> owed_from y (cl_no c) \<le> hb_next h
   \<and> hy_handed y (cl_no c) @ trace_ids (cl_queue c) = [owed_from y (cl_no c) ..< hb_next h]"

definition hub_inv :: "hub \<times> history \<Rightarrow> bool" where
  "hub_inv hy \<longleftrightarrow> (case hy of (h, y) \<Rightarrow> ring_inv h \<and> distinct (map cl_no (hb_clients h))
   \<and> length (hb_clients h) \<le> hb_max h \<and> (\<forall>c \<in> set (hb_clients h). stream_inv h y c)
   \<and> hy_computing y = (if hb_computing h then 1 else 0))"

lemma trace_ids_append [simp]: "trace_ids (xs @ ys) = trace_ids xs @ trace_ids ys"
  by (induction xs rule: trace_ids.induct) auto

lemma owed_from_upd [simp]:
  "owed_from (y\<lparr>hy_handed := f\<rparr>) no = owed_from y no" "owed_from (y\<lparr>hy_computing := n\<rparr>) no = owed_from y no"
  by (simp_all add: owed_from_def split: option.split)

lemma hub_inv_publish:
  assumes "hub_inv (h, y)"
  shows "hub_inv (hub_step (Publish s) (h, y))"
proof -
  let ?n = "hb_next h" and ?r = "hb_ring h"
  have ring: "map fst ?r = [?n - length ?r ..< ?n]" "length ?r \<le> hb_replay h" "length ?r < ?n"
    using assms by (simp_all add: hub_inv_def ring_inv_def)
  let ?r' = "ring_push (hb_replay h) (?n, s) ?r"
  have len: "length ?r' = min (hb_replay h) (Suc (length ?r))" by (simp add: ring_push_def)
  have "map fst ?r' = drop (Suc (length ?r) - hb_replay h) ([?n - length ?r ..< ?n] @ [?n])"
    by (simp only: ring_push_def drop_map[symmetric] map_append ring(1) list.map fst_conv)
  also have "[?n - length ?r ..< ?n] @ [?n] = [?n - length ?r ..< Suc ?n]" using ring(3) by simp
  finally have ids: "map fst ?r' = [Suc ?n - length ?r' ..< Suc ?n]"
    using ring(2,3) by (simp add: len drop_upt min_def del: upt_Suc)
  have "stream_inv h' y (c\<lparr>cl_queue := cl_queue c @ [(''trace'', s, Some ?n)]\<rparr>)"
    if "stream_inv h y c" "hb_serial h' = hb_serial h" "hb_next h' = Suc ?n" for c h'
    using that by (auto simp: stream_inv_def)
  then show ?thesis
    using assms ids len ring(2,3)
    by (auto simp: hub_inv_def ring_inv_def publish_trace_def enqueue_all_def Let_def comp_def simp del: upt_Suc)
qed

lemma filter_upt_ge: "filter (\<lambda>i. k \<le> i) [m ..< n] = [max k m ..< n]"
proof (induction n)
  case (Suc n)
  then show ?case by (auto simp: max_def)
qed simp

lemma replay_ids:
  assumes "ring_inv h"
  shows "map fst (replay_from last_id h) = [(case last_id of None \<Rightarrow> hb_next h
     | Some l \<Rightarrow> min (hb_next h) (max (nat (l + 1)) (oldest_id h))) ..< hb_next h]"
proof (cases last_id)
  case (Some l)
  let ?n = "hb_next h" and ?r = "hb_ring h"
  have ring: "map fst ?r = [?n - length ?r ..< ?n]" "length ?r < ?n" using assms by (simp_all add: ring_inv_def)
  have old: "oldest_id h = ?n - length ?r"
  proof (cases ?r)
    case (Cons p rest)
    then have "fst p = hd [?n - length ?r ..< ?n]" using ring(1) by (metis list.sel(1) list.simps(9))
    then show ?thesis using Cons ring(2) by (cases p) (simp add: oldest_id_def)
  qed (simp add: oldest_id_def)
  have "map fst (replay_from last_id h) = filter (\<lambda>i. l < int i) (map fst ?r)"
    by (simp add: replay_from_def Some filter_map comp_def case_prod_unfold)
  also have "\<dots> = filter (\<lambda>i. nat (l + 1) \<le> i) [?n - length ?r ..< ?n]"
    unfolding ring(1) by (rule filter_cong) auto
  also have "\<dots> = [max (nat (l + 1)) (?n - length ?r) ..< ?n]" for a
    by (rule filter_upt_ge)
  finally show ?thesis by (simp add: Some old min_def) 
qed (simp add: replay_from_def)

lemma hub_inv_register:
  assumes "hub_inv (h, y)"
  shows "hub_inv (hub_step (Register now last_id) (h, y))"
proof (cases "hb_max h \<le> length (hb_clients h)")
  case True
  then show ?thesis using assms by (simp add: register_def)
next
  case False
  let ?no = "hb_serial h"
  let ?y = "y\<lparr>hy_asked := (hy_asked y)(?no := last_id), hy_oldest := (hy_oldest y)(?no := oldest_id h),
    hy_next := (hy_next y)(?no := hb_next h), hy_handed := (hy_handed y)(?no := map fst (replay_from last_id h))\<rparr>"
  let ?c = "\<lparr>cl_no = ?no, cl_queue = [], cl_last_pulse = now, cl_last_ping = now\<rparr>"
  let ?h = "h\<lparr>hb_clients := hb_clients h @ [?c], hb_serial := Suc ?no\<rparr>"
  have r: "ring_inv h" using assms by (simp add: hub_inv_def)
  have "stream_inv ?h ?y ?c"
    using replay_ids[OF r, of last_id] by (auto simp: stream_inv_def owed_from_def split: option.split)
  moreover have "stream_inv ?h ?y c" if "c \<in> set (hb_clients h)" for c
    using assms that by (auto simp: hub_inv_def stream_inv_def owed_from_def split: option.split)
  moreover have "?no \<notin> cl_no ` set (hb_clients h)" using assms by (auto simp: hub_inv_def stream_inv_def)
  ultimately show ?thesis using assms False by (simp add: register_def hub_inv_def ring_inv_def)
qed

lemma find_client: "find (\<lambda>c. cl_no c = no) cs = Some c \<Longrightarrow> c \<in> set cs \<and> cl_no c = no"
  by (induction cs) (auto split: if_splits)

lemma hub_inv_collect:
  assumes "hub_inv (h, y)"
  shows "hub_inv (hub_step (Collect no now0 now) (h, y))"
proof (cases "fst (collect no now0 now h)")
  case (Batch pending source ping)
  then obtain c where f: "find (\<lambda>c. cl_no c = no) (hb_clients h) = Some c" and p: "pending = cl_queue c"
    by (auto simp: collect_def Let_def split: option.splits if_splits)
  note c = find_client[OF f]
  let ?y = "y\<lparr>hy_handed := (hy_handed y)(no := hy_handed y no @ trace_ids pending),
    hy_computing := hy_computing y + (if source = ComputeFrame then 1 else 0)\<rparr>"
  define d where "d = c\<lparr>cl_queue := [], cl_last_pulse := (if hb_tick h \<le> now - cl_last_pulse c then now else cl_last_pulse c),
    cl_last_ping := (if PING_S \<le> now - cl_last_ping c then now else cl_last_ping c)\<rparr>"
  have d: "cl_no d = no" "cl_queue d = []" using c by (simp_all add: d_def)
  define src where "src = (if \<not> hb_tick h \<le> now - cl_last_pulse c then NoPulse
    else if hb_frame h \<noteq> None \<and> now - hb_frame_at h < hb_tick h then Shared (hb_frame h)
    else if hb_computing h then AwaitFrame else ComputeFrame)"
  define after where "after = (if src = ComputeFrame then (set_client d h)\<lparr>hb_computing := True\<rparr> else set_client d h)"
  have e: "collect no now0 now h = (if hb_stopping h then (Leave, h)
    else if \<not> hb_tick h \<le> now0 - cl_last_pulse c \<and> \<not> PING_S \<le> now0 - cl_last_ping c
    then (Sleep (min (cl_last_pulse c + hb_tick h) (cl_last_ping c + PING_S) - now0), h)
    else (Batch (cl_queue c) src (PING_S \<le> now - cl_last_ping c), after))"
    by (simp only: collect_def f option.case Let_def d_def src_def after_def)
  have src: "source = src" and h': "collect no now0 now h = (Batch pending source ping, after)"
    using Batch unfolding e by (auto split: if_splits)
  have free: "source = ComputeFrame \<longrightarrow> \<not> hb_computing h" unfolding src src_def by (simp split: if_splits)
  have ok: "stream_inv h y x" if "x \<in> set (hb_clients h)" for x using assms that by (simp add: hub_inv_def)
  have sel: "hb_clients after = map (\<lambda>x. if cl_no x = no then d else x) (hb_clients h)" "hb_ring after = hb_ring h"
    "hb_next after = hb_next h" "hb_serial after = hb_serial h" "hb_max after = hb_max h" "hb_replay after = hb_replay h"
    "hb_computing after = (source = ComputeFrame \<or> hb_computing h)"
    by (simp_all add: after_def set_client_def d src)
  have one: "stream_inv after ?y (if cl_no x = no then d else x)" if "x \<in> set (hb_clients h)" for x
    using ok[OF that] ok[OF c[THEN conjunct1]] c d by (auto simp: stream_inv_def sel p)
  have "\<forall>x \<in> set (hb_clients after). stream_inv after ?y x" unfolding sel(1) set_map using one by blast
  moreover have "map cl_no (hb_clients after) = map cl_no (hb_clients h)" unfolding sel(1) using d(1) by simp
  moreover have "hy_computing ?y = (if hb_computing after then 1 else 0)"
    using assms free by (simp add: sel hub_inv_def)
  moreover have "ring_inv after" "length (hb_clients after) \<le> hb_max after"
    using assms by (simp_all add: sel ring_inv_def hub_inv_def)
  ultimately have "hub_inv (after, ?y)" using assms unfolding hub_inv_def prod.case by metis
  then show ?thesis unfolding hub_step.simps h' prod.case tick.case .
next
  case Leave
  then have "collect no now0 now h = (Leave, h)" by (auto simp: collect_def Let_def split: option.splits if_splits)
  then show ?thesis using assms by simp
next
  case (Sleep t)
  then have "collect no now0 now h = (Sleep t, h)" by (auto simp: collect_def Let_def split: option.splits if_splits)
  then show ?thesis using assms by simp
qed

lemma hub_inv_step: "hub_inv hy \<Longrightarrow> hub_inv (hub_step e hy)"
proof -
  assume inv: "hub_inv hy"
  obtain h y where hy: "hy = (h, y)" by (cases hy)
  show ?thesis
  proof (cases e)
    case (Publish s)
    then show ?thesis using hub_inv_publish inv by (simp only: hy)
  next
    case (Register now l)
    then show ?thesis using hub_inv_register inv by (simp only: hy)
  next
    case (Collect no a b)
    then show ?thesis using hub_inv_collect inv by (simp only: hy)
  next
    case (Unregister no)
    then show ?thesis using inv
      by (auto simp: hy unregister_def hub_inv_def ring_inv_def stream_inv_def distinct_map_filter
          intro: order_trans[OF length_filter_le])
  qed (use inv in \<open>auto simp: hy hub_inv_def ring_inv_def stream_inv_def publish_def enqueue_all_def store_frame_def
      arm_prefetch_def prefetch_def stop_def Let_def comp_def split: if_splits\<close>)
qed

interpretation hub_machine: safe_machine hub_step hub_inv
  by unfold_locales (rule hub_inv_step)

definition started_hub :: "pyfloat \<Rightarrow> int \<Rightarrow> nat \<Rightarrow> nat \<Rightarrow> hub \<times> history" where
  "started_hub tick ring_size replay max_clients = (attach tick ring_size replay max_clients new_hub, no_history)"

lemma started_inv: "hub_inv (started_hub tick ring_size replay max_clients)"
  by (simp add: started_hub_def hub_inv_def ring_inv_def attach_def new_hub_def no_history_def)

lemma hub_settings:
  "hb_max (fst (fold hub_step es hy)) = hb_max (fst hy)"
proof (induction es arbitrary: hy)
  case (Cons e es)
  obtain h y where "hy = (h, y)" by (cases hy)
  then have "hb_max (fst (hub_step e hy)) = hb_max (fst hy)"
    by (cases e) (auto simp: publish_trace_def publish_def enqueue_all_def register_def unregister_def collect_def set_client_def
        store_frame_def arm_prefetch_def prefetch_def stop_def Let_def split: option.splits if_splits)
  then show ?case by (simp add: Cons.IH)
qed simp

text \<open>C29: However publishers, streams and timers interleave, a connected stream is handed every trace exactly
  once and in order: what it was given together with what waits in its queue are the consecutive ids
  from the first one it is owed to the newest. A stream that asks for the events after an id the ring
  still reaches is owed the next one, so no trace falls between the replay and the live events or is
  sent twice. There are never more streams than the limit.\<close>

theorem stream_hands_over_each_trace_once:
  assumes "fold hub_step es (started_hub tick ring_size replay max_clients) = (h, y)" "c \<in> set (hb_clients h)"
  shows "hy_handed y (cl_no c) @ trace_ids (cl_queue c) = [owed_from y (cl_no c) ..< hb_next h]
    \<and> (\<forall>l. hy_asked y (cl_no c) = Some l \<and> int (hy_oldest y (cl_no c)) \<le> l + 1 \<and> l < int (hy_next y (cl_no c))
        \<longrightarrow> int (owed_from y (cl_no c)) = l + 1)
    \<and> length (hb_clients h) \<le> max_clients"
proof -
  have "hub_inv (fold hub_step es (started_hub tick ring_size replay max_clients))" by (rule hub_machine.run_inv[OF started_inv])
  then have inv: "hub_inv (h, y)" by (simp only: assms(1))
  have max: "hb_max h = max_clients"
    using hub_settings[of es "started_hub tick ring_size replay max_clients"] assms(1) by (simp add: started_hub_def attach_def)
  show ?thesis using inv assms(2) max by (auto simp: hub_inv_def stream_inv_def owed_from_def)
qed

text \<open>At most one pulse computation is under way, whatever the ticks and the timers do: a tick or a timer
  that starts one finds none running, and the frame that ends it frees the claim.\<close>

theorem one_pulse_computation_at_a_time:
  "case fold hub_step es (started_hub tick ring_size replay max_clients) of (h, y) \<Rightarrow>
     hy_computing y \<le> 1 \<and> (hb_computing h \<longleftrightarrow> hy_computing y = 1)"
proof -
  have "hub_inv (fold hub_step es (started_hub tick ring_size replay max_clients))" by (rule hub_machine.run_inv[OF started_inv])
  then show ?thesis by (auto simp: hub_inv_def split: prod.splits)
qed

section \<open>Frames on the wire\<close>

lemma hex_digit_newline: "n < 16 \<Longrightarrow> hex_digit n \<noteq> newline"
proof
  assume n: "n < 16" and e: "hex_digit n = newline"
  have "cp (hex_digit n) = (if n < 10 then 48 + n else 87 + n)" using n by (simp add: hex_digit_def cp_def)
  moreover have "cp newline = 10" by (simp add: newline_def cp_def)
  ultimately show False using e by (simp split: if_splits)
qed

lemma json_escape_newline: "newline \<notin> set (json_escape c)"
proof -
  have n: "cp newline = 10" "cp c < 256" by (simp_all add: newline_def cp_def of_char_def)
  have "newline \<noteq> c" if "32 \<le> cp c" using that n by auto
  moreover have "hex_digit (cp c div 16) \<noteq> newline" "hex_digit (cp c mod 16) \<noteq> newline"
    using n(2) by (auto intro!: hex_digit_newline)
  ultimately show ?thesis by (auto simp: json_escape_def Let_def newline_def)
qed

lemma json_string_newline: "newline \<notin> set (json_string s)"
  using json_escape_newline by (auto simp: json_string_def newline_def)

lemma digits_newline: "newline \<notin> set (str_nat n)" "newline \<notin> set (str_int i)"
proof -
  have d: "py_digit c \<Longrightarrow> c \<noteq> newline" for c by (auto simp: py_digit_def newline_def cp_def)
  then show n: "newline \<notin> set (str_nat n)" for n using str_nat_digits by blast
  show "newline \<notin> set (str_int i)" using n by (auto simp: str_int_def newline_def)
qed

lemma json_dumps_newline:
  "(\<forall>q. newline \<notin> set (fr q)) \<longrightarrow> newline \<notin> set (json_dumps fr j)"
  "(\<forall>q. newline \<notin> set (fr q)) \<longrightarrow> newline \<notin> set (json_dumps_items fr js)"
  "(\<forall>q. newline \<notin> set (fr q)) \<longrightarrow> newline \<notin> set (json_dumps_pairs fr kvs)"
  by (induction fr j and fr js and fr kvs rule: json_dumps_json_dumps_items_json_dumps_pairs.induct)
    (use digits_newline json_string_newline in \<open>auto simp: newline_def\<close>)

text \<open>Whatever the payload holds, an event is one frame of the stream: an optional id line, one event
  line, one data line with the whole payload, and the blank line that ends it. No payload can end its
  frame early or start another one.\<close>

theorem event_is_one_frame:
  assumes "\<And>q. newline \<notin> set (fr q)" "newline \<notin> set name"
  shows "py_split newline (encode fr (name, payload, event_id)) =
    (case event_id of None \<Rightarrow> [] | Some i \<Rightarrow> [''id: '' @ str_nat i])
      @ [''event: '' @ name, ''data: '' @ json_dumps fr payload, [], []]"
proof -
  have d: "newline \<notin> set (''data: '' @ json_dumps fr payload)" using json_dumps_newline(1)[of fr payload] assms(1) by (simp add: newline_def)
  have n: "newline \<notin> set (''event: '' @ name)" using assms(2) by (simp add: newline_def)
  have i: "newline \<notin> set (''id: '' @ str_nat i)" for i using digits_newline(1) by (simp add: newline_def)
  have body: "py_split newline ((''event: '' @ name) @ newline # ((''data: '' @ json_dumps fr payload) @ newline # newline # []))
      = [''event: '' @ name, ''data: '' @ json_dumps fr payload, [], []]"
    unfolding py_split_append[OF n] py_split_append[OF d] by simp
  show ?thesis
  proof (cases event_id)
    case None
    then show ?thesis using body by (simp add: encode_def)
  next
    case (Some k)
    have "encode fr (name, payload, event_id) = (''id: '' @ str_nat k) @ newline #
        ((''event: '' @ name) @ newline # ((''data: '' @ json_dumps fr payload) @ newline # newline # []))"
      by (simp add: encode_def Some)
    then show ?thesis unfolding Some by (simp only: py_split_append[OF i] body) simp
  qed
qed

section \<open>Witnesses\<close>

definition demo_events :: "hub_event list" where
  "demo_events = [Publish JNull, Register 0 (Some 0), Publish JNull]"

definition demo_client :: client where
  "demo_client = \<lparr>cl_no = 0, cl_queue = [(''trace'', JNull, Some 2)], cl_last_pulse = 0, cl_last_ping = 0\<rparr>"

lemma demo_run:
  "\<exists>h y. fold hub_step demo_events (started_hub 3 1000 5 2) = (h, y) \<and> hb_clients h = [demo_client] \<and> hb_next h = 3
     \<and> hy_asked y 0 = Some 0 \<and> hy_oldest y 0 = 1 \<and> hy_next y 0 = 2"
  by (simp add: demo_events_def demo_client_def started_hub_def attach_def new_hub_def no_history_def publish_trace_def
      enqueue_all_def Let_def ring_push_def register_def oldest_id_def)

theorem stream_hands_over_each_trace_once_witness:
  "\<exists>h y. fold hub_step demo_events (started_hub 3 1000 5 2) = (h, y) \<and> demo_client \<in> set (hb_clients h)
     \<and> hy_handed y 0 @ trace_ids (cl_queue demo_client) = [1, 2]"
proof -
  obtain h y where r: "fold hub_step demo_events (started_hub 3 1000 5 2) = (h, y)" "hb_clients h = [demo_client]" "hb_next h = 3"
    "hy_asked y 0 = Some 0" "hy_oldest y 0 = 1" "hy_next y 0 = 2" using demo_run by blast
  have c: "demo_client \<in> set (hb_clients h)" and no: "cl_no demo_client = 0" by (simp_all add: r demo_client_def)
  have o: "owed_from y 0 = 1" by (simp add: owed_from_def r)
  have "hy_handed y (cl_no demo_client) @ trace_ids (cl_queue demo_client) = [owed_from y (cl_no demo_client) ..< hb_next h]"
    using stream_hands_over_each_trace_once[OF r(1) c] by blast
  then have "hy_handed y 0 @ trace_ids (cl_queue demo_client) = [1, 2]"
    unfolding no o r(3) by (simp add: upt_rec)
  then show ?thesis using r(1) c by blast
qed

theorem event_is_one_frame_witness:
  "py_split newline (encode (\<lambda>_. ''0.5'') (''trace'', JStr [newline], Some 7)) =
     [''id: 7'', ''event: trace'', ''data: '' @ [CHR 34, CHR 92, CHR ''n'', CHR 34], [], []]"
proof -
  have n: "newline \<notin> set ''0.5''" "newline \<notin> set ''trace''" by (simp_all add: newline_def)
  have d: "json_string [newline] = [CHR 34, CHR 92, CHR ''n'', CHR 34]"
    by (simp add: json_string_def json_escape_def newline_def cp_def)
  have i: "str_nat 7 = ''7''" by code_simp
  show ?thesis using event_is_one_frame[of "\<lambda>_. ''0.5''" "''trace''" "JStr [newline]" "Some 7"] n by (simp add: d i)
qed

end
