(* ===== verification/Api_Traces.thy ===== *)
theory Api_Traces
  imports Trace_Queries Api_Users
begin

text \<open>
  Models \<open>layawatch/api/traces.py\<close>: list, detail, observations, scores, tags, delete and the range
  delete. A request reads or writes through one connection that is closed whatever happens. The
  float parser of the query, the rendering of a float and the text that the REAL affinity of
  \<open>scores.value\<close> reads as a number are arguments, gathered in \<open>platform\<close>.
\<close>

record platform =
  pf_float :: float_parser
  pf_render :: "pyfloat \<Rightarrow> string"
  pf_affinity :: "string \<Rightarrow> pyfloat option"

definition TRACES_PREFIX :: string where
  "TRACES_PREFIX = ''/api/v1/traces/''"

definition RANGE_PARAMS :: "string list" where
  "RANGE_PARAMS = [''since'', ''until'', ''range'']"

definition WATERFALL_TYPES :: "string list" where
  "WATERFALL_TYPES = [''span'', ''generation'']"

definition MAX_TAGS :: nat where "MAX_TAGS = 10"

definition MAX_TAG_LEN :: nat where "MAX_TAG_LEN = 32"

definition MAX_COMMENT :: nat where "MAX_COMMENT = 500"

definition DATA_TYPES :: "string list" where
  "DATA_TYPES = [''numeric'', ''boolean'', ''categorical'']"

definition SCORE_SOURCE :: string where
  "SCORE_SOURCE = ''api''"

definition unknown_trace :: "string \<Rightarrow> exn" where
  "unknown_trace tid = http_err 404 ''not_found'' (''trace '' @ tid @ '' not found'') None"

definition query_result :: "'a query \<Rightarrow> exn + 'a" where
  "query_result r = (case r of Inl e \<Rightarrow> Inl (query_exn e) | Inr a \<Rightarrow> Inr a)"

section \<open>Reads\<close>

definition list_route :: "ctx \<Rightarrow> platform \<Rightarrow> request \<Rightarrow> response api" where
  "list_route cx pf rq =
     act_bind (with_conn (act_bind (db_query (list_traces (cx_loads cx) (pf_render pf) (pf_float pf) (cx_now cx) DEFAULT_LIMIT (rq_query rq)))
       (\<lambda>r. act_lift (query_result r)))) (\<lambda>pg.
     act_return (json_response (trace_page_json pg) 200 []))"

definition load_detail :: "string \<Rightarrow> trace_detail api" where
  "load_detail tid = act_bind (with_conn (db_query (detail_of tid))) (\<lambda>r.
     case r of None \<Rightarrow> act_raise (unknown_trace tid) | Some dt \<Rightarrow> act_return dt)"

definition detail_route :: "string \<Rightarrow> response api" where
  "detail_route tid = act_bind (load_detail tid) (\<lambda>dt. act_return (json_response (detail_json dt) 200 []))"

definition observations_route :: "string \<Rightarrow> response api" where
  "observations_route tid = act_bind (load_detail tid) (\<lambda>dt.
     act_return (json_response (JObj [(''items'', JArr (map observation_json
       (filter (\<lambda>ob. ob_type ob \<in> set WATERFALL_TYPES) (td_observations dt))))]) 200 []))"

definition get_route :: "request \<Rightarrow> response api" where
  "get_route rq = (case path_parts TRACES_PREFIX rq of
     [tid] \<Rightarrow> detail_route tid
   | [tid, leaf] \<Rightarrow> if leaf = ''observations'' then observations_route tid else act_raise (unmatched rq)
   | _ \<Rightarrow> act_raise (unmatched rq))"

section \<open>Scores\<close>

definition trace_body :: "ctx \<Rightarrow> request \<Rightarrow> exn + (string \<times> json) list" where
  "trace_body cx rq = res_bind (request_json (cx_loads cx) rq) (\<lambda>j.
     case json_obj j of None \<Rightarrow> Inl (bad_field ''body'' ''request body must be a JSON object'') | Some d \<Rightarrow> Inr d)"

text \<open>The stored value and the data type inferred from it.\<close>

fun score_value :: "json \<Rightarrow> exn + (json \<times> string)" where
  "score_value (JBool b) = Inr (JFloat (if b then 1 else 0), ''boolean'')"
| "score_value (JInt i) = (if float_overflows i then Inl (PyExc OverflowError) else Inr (JFloat (of_int i), ''numeric''))"
| "score_value (JFloat q) = Inr (JFloat q, ''numeric'')"
| "score_value (JStr s) = Inr (JStr s, ''categorical'')"
| "score_value _ = Inl (bad_field ''value'' (quoted ''value'' @ '' must be a string, number or boolean''))"

definition score_data_type :: "json \<Rightarrow> string \<Rightarrow> exn + string" where
  "score_data_type given inferred =
     (case given of
        JNull \<Rightarrow> Inr inferred
      | JStr s \<Rightarrow> if s \<in> set DATA_TYPES then Inr s
          else Inl (bad_field ''data_type'' (quoted ''data_type'' @ '' must be numeric, boolean or categorical''))
      | _ \<Rightarrow> Inl (bad_field ''data_type'' (quoted ''data_type'' @ '' must be numeric, boolean or categorical'')))"

definition score_comment :: "json \<Rightarrow> exn + string option" where
  "score_comment given =
     (let bad = Inl (bad_field ''comment'' (quoted ''comment'' @ '' must be a string of at most 500 characters'')) in
      case given of JNull \<Rightarrow> Inr None | JStr s \<Rightarrow> if MAX_COMMENT < length s then bad else Inr (Some s) | _ \<Rightarrow> bad)"

definition validated_score :: "ctx \<Rightarrow> request \<Rightarrow> exn + (string \<times> json \<times> string \<times> string option)" where
  "validated_score cx rq =
     res_bind (trace_body cx rq) (\<lambda>payload.
     res_bind (case jget payload ''name'' of
         JStr s \<Rightarrow> if s = [] then Inl (bad_field ''name'' (quoted ''name'' @ '' must be a non-empty string'')) else Inr s
       | _ \<Rightarrow> Inl (bad_field ''name'' (quoted ''name'' @ '' must be a non-empty string''))) (\<lambda>name.
     if map_of payload ''value'' = None then Inl (bad_field ''value'' (quoted ''value'' @ '' is required''))
     else
     res_bind (score_value (jget payload ''value'')) (\<lambda>(stored, inferred).
     res_bind (score_data_type (jget payload ''data_type'') inferred) (\<lambda>data_type.
     res_bind (score_comment (jget payload ''comment'')) (\<lambda>comment.
     if jget payload ''source'' \<noteq> JNull \<and> jget payload ''source'' \<noteq> JStr SCORE_SOURCE
     then Inl (bad_field ''source'' (quoted ''source'' @ '' must be '' @ quoted SCORE_SOURCE))
     else Inr (name, stored, data_type, comment))))))"

text \<open>What the REAL column keeps of a value: text that reads as a number becomes one.\<close>

definition real_column :: "platform \<Rightarrow> json \<Rightarrow> json" where
  "real_column pf v = (case v of JStr s \<Rightarrow> (case pf_affinity pf s of Some q \<Rightarrow> JFloat q | None \<Rightarrow> v) | _ \<Rightarrow> v)"

definition db_try :: "(db \<Rightarrow> exn + db) \<Rightarrow> unit api" where
  "db_try f = act_bind (db_query f) (\<lambda>r. case r of Inl e \<Rightarrow> act_raise e | Inr d \<Rightarrow> db_exec (\<lambda>_. d))"

definition scores_route :: "ctx \<Rightarrow> platform \<Rightarrow> string \<Rightarrow> request \<Rightarrow> response api" where
  "scores_route cx pf tid rq =
     act_bind (act_lift (validated_score cx rq)) (\<lambda>(name, stored, data_type, comment).
     act_bind (with_conn
       (act_bind (db_query (detail_of tid)) (\<lambda>r.
        if r = None then act_raise (unknown_trace tid)
        else
          act_bind (db_try (insert_scores [\<lparr>sc_id = cx_uid cx, sc_trace_id = tid, sc_name = name, sc_value = real_column pf stored,
            sc_data_type = data_type, sc_source = SCORE_SOURCE, sc_comment = comment, sc_ts = cx_now cx\<rparr>])) (\<lambda>_.
          act_bind (db_exec (insert_audit (cx_now cx) ''api'' ''trace.scored'' (Some tid) ''ok'' None)) (\<lambda>_.
          db_commit))))) (\<lambda>_.
     act_return (json_response (JObj [(''id'', JStr (cx_uid cx)), (''name'', JStr name), (''value'', stored),
       (''data_type'', JStr data_type), (''source'', JStr SCORE_SOURCE), (''comment'', json_opt_str comment),
       (''ts'', JFloat (cx_now cx))]) 201 [])))"

section \<open>Tags\<close>

definition tag_array :: "string \<Rightarrow> (string \<times> json) list \<Rightarrow> exn + json list" where
  "tag_array key payload = (case map_of payload key of
     None \<Rightarrow> Inr []
   | Some (JArr xs) \<Rightarrow> Inr xs
   | _ \<Rightarrow> Inl (bad_field key (quoted key @ '' must be an array of strings'')))"

fun tag_strings :: "json list \<Rightarrow> exn + string list" where
  "tag_strings [] = Inr []"
| "tag_strings (JStr s # xs) =
     (if MAX_TAG_LEN < length s then Inl (bad_field ''tags'' ''tags must be at most 32 characters'')
      else res_bind (tag_strings xs) (\<lambda>ss. Inr (s # ss)))"
| "tag_strings (_ # xs) = Inl (bad_field ''tags'' ''tags must be strings'')"

definition validated_tags :: "ctx \<Rightarrow> request \<Rightarrow> exn + (string list \<times> string list)" where
  "validated_tags cx rq =
     res_bind (trace_body cx rq) (\<lambda>payload.
     res_bind (tag_array ''add'' payload) (\<lambda>add.
     res_bind (tag_array ''remove'' payload) (\<lambda>remove.
     res_bind (tag_strings (add @ remove)) (\<lambda>ss. Inr (take (length add) ss, drop (length add) ss)))))"

definition merge_tags :: "string list \<Rightarrow> string list \<Rightarrow> string list \<Rightarrow> string list" where
  "merge_tags stored add remove =
     fold (\<lambda>tag tags. if tag \<in> set tags then tags else tags @ [tag]) add (filter (\<lambda>t. t \<notin> set remove) stored)"

definition tags_route :: "ctx \<Rightarrow> string \<Rightarrow> request \<Rightarrow> response api" where
  "tags_route cx tid rq =
     act_bind (act_lift (validated_tags cx rq)) (\<lambda>(add, remove).
     act_bind (with_conn
       (act_bind (db_query (detail_of tid)) (\<lambda>r.
        case r of None \<Rightarrow> act_raise (unknown_trace tid)
        | Some dt \<Rightarrow>
            let tags = merge_tags (tr_tags (td_trace dt)) add remove in
            if MAX_TAGS < length tags then act_raise (bad_field ''tags'' ''a trace may carry at most 10 tags'')
            else
              act_bind (db_exec (set_trace_tags tid tags)) (\<lambda>_.
              act_bind (db_exec (insert_audit (cx_now cx) ''api'' ''trace.tagged'' (Some tid) ''ok'' None)) (\<lambda>_.
              act_bind db_commit (\<lambda>_. act_return tags)))))) (\<lambda>tags.
     act_return (json_response (JObj [(''tags'', JArr (map JStr tags))]) 200 [])))"

definition post_route :: "ctx \<Rightarrow> platform \<Rightarrow> request \<Rightarrow> response api" where
  "post_route cx pf rq = (case path_parts TRACES_PREFIX rq of
     [tid, leaf] \<Rightarrow> if leaf = ''scores'' then scores_route cx pf tid rq
        else if leaf = ''tags'' then tags_route cx tid rq else act_raise (unmatched rq)
   | _ \<Rightarrow> act_raise (unmatched rq))"

section \<open>Deletes\<close>

definition delete_one :: "ctx \<Rightarrow> string \<Rightarrow> response api" where
  "delete_one cx tid =
     act_bind (with_conn
       (act_bind (db_query (delete_trace tid)) (\<lambda>(found, d).
        act_bind (db_exec (\<lambda>_. d)) (\<lambda>_.
        if \<not> found then act_raise (unknown_trace tid)
        else
          act_bind (db_exec (insert_audit (cx_now cx) ''api'' ''trace.deleted'' (Some tid) ''ok''
            (Some (JObj [(''id'', JStr tid)])))) (\<lambda>_.
          db_commit))))) (\<lambda>_.
     act_return (empty_response 204 []))"

definition delete_route :: "ctx \<Rightarrow> request \<Rightarrow> response api" where
  "delete_route cx rq = (case path_parts TRACES_PREFIX rq of
     [tid] \<Rightarrow> delete_one cx tid | _ \<Rightarrow> act_raise (unmatched rq))"

definition delete_window :: "ctx \<Rightarrow> platform \<Rightarrow> request \<Rightarrow> exn + window" where
  "delete_window cx pf rq =
     res_bind (query_result (reject_unknown (rq_query rq) RANGE_PARAMS)) (\<lambda>_.
     res_bind (query_result (resolve_window (pf_float pf) (cx_now cx) (rq_query rq))) (\<lambda>w.
       case w of
         (None, None) \<Rightarrow> Inl (http_err 400 ''invalid_filter'' ''a time range is required: pass since, until or range'' None)
       | (Some a, Some b) \<Rightarrow> if b \<le> a then Inl (http_err 400 ''invalid_filter'' ''since must be before until'' None) else Inr w
       | _ \<Rightarrow> Inr w))"

definition window_json :: "window \<Rightarrow> (string \<times> json) list" where
  "window_json w = [(''since'', json_opt_float (fst w)), (''until'', json_opt_float (snd w))]"

definition delete_range :: "ctx \<Rightarrow> platform \<Rightarrow> request \<Rightarrow> response api" where
  "delete_range cx pf rq =
     act_bind (act_lift (delete_window cx pf rq)) (\<lambda>w.
     act_bind (with_conn
       (act_bind (app_gate cx rq (Some ''traces.delete'') (Some ''trace.deleted'') None) (\<lambda>p.
        act_bind (db_query (delete_traces_where (\<lambda>t. in_range w (tr_ts_start t)))) (\<lambda>(n, d).
        act_bind (db_exec (\<lambda>_. d)) (\<lambda>_.
        act_bind (audit (cx_now cx) (pr_actor p) ''trace.deleted'' (pr_actor_id p) None ''ok''
          (Some (JObj (window_json w @ [(''count'', JInt (int n))])))) (\<lambda>_.
        act_bind db_commit (\<lambda>_. act_return n))))))) (\<lambda>n.
     act_return (json_response (JObj ((''deleted'', JInt (int n)) # window_json w)) 200 [])))"


section \<open>The endpoints keep referential integrity\<close>

lemma tele_inv_audit [simp]: "tele_inv (audit_entry t a b c e f g d) = tele_inv d"
  by (simp add: tele_inv_def)

lemma tele_inv_insert_audit [simp]: "tele_inv (insert_audit t a b c e f d) = tele_inv d"
  by (simp add: insert_audit_def)

lemma gate_blind_tele [simp]: "gate_blind tele_inv"
  unfolding gate_blind_def tele_inv_def by (simp add: same_restD)

lemma keeps_prod: "(\<And>a b. r = (a, b) \<Longrightarrow> keeps I (p a b)) \<Longrightarrow> keeps I (case r of (a, b) \<Rightarrow> p a b)"
  by (cases r) simp

lemma keeps_db_try: "(\<And>d e. I d \<Longrightarrow> f d = Inr e \<Longrightarrow> I e) \<Longrightarrow> keeps I (db_try f)"
  unfolding db_try_def
  by (rule keeps_query_bind) (auto simp: act_simps conn_inv_def split: sum.splits)

lemma keeps_replace:
  assumes "\<And>d. I d \<Longrightarrow> I (snd (g d))" "\<And>n. keeps I (k n :: ('z, 'a) prog)"
  shows "keeps I (act_bind (db_query g) (\<lambda>(n, d). act_bind (db_exec (\<lambda>_. d)) (\<lambda>_. k n)))"
proof (rule keeps_query_bind)
  fix c :: "'z conn_scheme" assume c: "conn_inv I c"
  obtain n d where g: "g (cn_work c) = (n, d)" by (cases "g (cn_work c)")
  have "conn_inv I (c\<lparr>cn_work := d\<rparr>)" using c assms(1)[of "cn_work c"] g by (simp add: conn_inv_def)
  then show "conn_inv I (snd ((case g (cn_work c) of (n, d) \<Rightarrow> act_bind (db_exec (\<lambda>_. d)) (\<lambda>_. k n)) c))"
    using keepsD[OF assms(2)] by (simp add: g act_simps)
qed

lemma delete_trace_inv: "tele_inv d \<Longrightarrow> tele_inv (snd (delete_trace tid d))"
  by (simp add: delete_trace_def case_prod_beta delete_traces_where_inv)

lemma keeps_scores: "keeps tele_inv (scores_route cx pf tid rq)"
  unfolding scores_route_def
  by (intro keeps_rules keeps_prod keeps_db_try keeps_exec) (simp_all add: insert_scores_inv(1))

lemma keeps_tags: "keeps tele_inv (tags_route cx tid rq)"
  unfolding tags_route_def Let_def
  by (intro keeps_rules keeps_prod keeps_exec) (simp_all add: set_trace_tags_inv)

lemma keeps_delete_one: "keeps tele_inv (delete_one cx tid)"
  unfolding delete_one_def
  by (intro keeps_rules keeps_replace keeps_exec) (simp_all add: delete_trace_inv)

lemma keeps_delete_range: "keeps tele_inv (delete_range cx pf rq)"
  unfolding delete_range_def
  by (intro keeps_rules keeps_replace keeps_gate keeps_audit_blind) (simp_all add: delete_traces_where_inv)


text \<open>The trace endpoints never leave an observation or a score without its trace, nor two rows
  with one id: whatever the request and whatever the outcome, a store with that property has it
  afterwards, in the committed state and in the open work.\<close>

theorem trace_endpoints_keep_integrity:
  assumes "conn_inv tele_inv s"
  shows "conn_inv tele_inv (snd (post_route cx pf rq s)) \<and> conn_inv tele_inv (snd (delete_route cx rq s))
    \<and> conn_inv tele_inv (snd (delete_range cx pf rq s))"
proof -
  have "keeps tele_inv (post_route cx pf rq)" unfolding post_route_def
    by (auto intro!: keeps_raise keeps_scores keeps_tags split: list.splits)
  moreover have "keeps tele_inv (delete_route cx rq)" unfolding delete_route_def
    by (auto intro!: keeps_raise keeps_delete_one split: list.splits)
  ultimately show ?thesis using keeps_delete_range assms by (blast intro: keepsD)
qed

section \<open>Deleting\<close>

text \<open>What is left when the traces of a predicate are gone: their observations and scores went with
  them; logs and rollups stay.\<close>

definition without_traces :: "(trace \<Rightarrow> bool) \<Rightarrow> db \<Rightarrow> db \<Rightarrow> bool" where
  "without_traces P d e \<longleftrightarrow> db_traces e = filter (\<lambda>t. \<not> P t) (db_traces d)
     \<and> db_observations e = filter (\<lambda>ob. ob_trace_id ob \<notin> tr_id ` {t \<in> set (db_traces d). P t}) (db_observations d)
     \<and> db_scores e = filter (\<lambda>sc. sc_trace_id sc \<notin> tr_id ` {t \<in> set (db_traces d). P t}) (db_scores d)
     \<and> db_logs e = db_logs d \<and> db_rollups e = db_rollups d"

lemma without_delete: "delete_traces_where P d = (n, e) \<Longrightarrow> without_traces P d e \<and> n = length (filter P (db_traces d))"
  using delete_traces_where_simps[of P d] by (simp add: without_traces_def)

lemma without_audit [simp]: "without_traces P d (audit_entry t a b c x f g e) = without_traces P d e"
  by (simp add: without_traces_def)

definition same_telemetry :: "db \<Rightarrow> db \<Rightarrow> bool" where
  "same_telemetry d e \<longleftrightarrow> db_traces e = db_traces d \<and> db_observations e = db_observations d \<and> db_scores e = db_scores d
     \<and> db_logs e = db_logs d \<and> db_rollups e = db_rollups d"

lemma gate_blind_telemetry [simp]: "gate_blind (same_telemetry d)"
  unfolding gate_blind_def same_telemetry_def by (simp add: same_restD)

lemma without_same: "same_telemetry d d' \<Longrightarrow> without_traces P d' e \<Longrightarrow> without_traces P d e"
  by (simp add: without_traces_def same_telemetry_def)

text \<open>\<open>DELETE /traces/{id}\<close> needs no credential: for every request to the path, whatever its headers,
  a stored trace is gone with its observations and scores, committed together with the audit row
  of the actor api and answered 204, while its log lines and every rollup stay; an unknown id
  is a 404 that changes nothing.\<close>

theorem trace_delete_needs_no_credential:
  assumes "conn_idle s" "path_parts TRACES_PREFIX rq = [tid]"
  shows "(if tid \<in> tr_id ` set (db_traces (cn_committed s))
     then fst (delete_route cx rq s) = Inr (empty_response 204 [])
       \<and> without_traces (\<lambda>t. tr_id t = tid) (cn_committed s) (cn_committed (snd (delete_route cx rq s)))
       \<and> map au_action (db_audit (cn_committed (snd (delete_route cx rq s)))) =
           map au_action (db_audit (cn_committed s)) @ [''trace.deleted'']
     else delete_route cx rq s = (Inl (unknown_trace tid), s))"
proof -
  let ?P = "\<lambda>t. tr_id t = tid" and ?d = "cn_committed s"
  obtain n e where del: "delete_traces_where ?P ?d = (n, e)" by (cases "delete_traces_where ?P ?d")
  have w: "without_traces ?P ?d e" "n = length (filter ?P (db_traces ?d))" using without_delete[OF del] by simp_all
  have audit: "db_audit e = db_audit ?d" using delete_traces_where_simps(6)[of ?P ?d] del by simp
  have work: "cn_work s = ?d" using assms(1) by (simp add: conn_idle_def)
  have found: "0 < n \<longleftrightarrow> tid \<in> tr_id ` set (db_traces ?d)"
    using w(2) by (auto simp: filter_empty_conv image_iff)
  have del1: "delete_trace tid ?d = (0 < n, e)" by (simp add: delete_trace_def del)
  have "delete_route cx rq s = (if 0 < n
      then (Inr (empty_response 204 []), s\<lparr>cn_committed := insert_audit (cx_now cx) ''api'' ''trace.deleted'' (Some tid) ''ok''
            (Some (JObj [(''id'', JStr tid)])) e, cn_work := insert_audit (cx_now cx) ''api'' ''trace.deleted'' (Some tid) ''ok''
            (Some (JObj [(''id'', JStr tid)])) e\<rparr>)
      else (Inl (unknown_trace tid), s))"
    using assms(1) by (simp add: delete_route_def assms(2) delete_one_def act_bind_def[of "with_conn _"] with_conn_run act_simps work del1
      conn_close_def conn_idle_def split: if_splits)
  then show ?thesis using w(1) by (simp add: found insert_audit_def audit_entry_def[of _ _ _ _ _ _ _ e] audit without_traces_def)
qed

lemma query_result_Inr: "query_result r = Inr a \<longleftrightarrow> r = Inr a"
  by (simp add: query_result_def split: sum.splits)

lemma delete_window_Inr:
  assumes "delete_window cx pf rq = Inr w"
  shows "resolve_window (pf_float pf) (cx_now cx) (rq_query rq) = Inr w \<and> w \<noteq> (None, None)
    \<and> (case w of (Some a, Some b) \<Rightarrow> a < b | _ \<Rightarrow> True)"
proof -
  obtain v where v: "resolve_window (pf_float pf) (cx_now cx) (rq_query rq) = Inr v"
    and c: "(case v of
         (None, None) \<Rightarrow> Inl (http_err 400 ''invalid_filter'' ''a time range is required: pass since, until or range'' None)
       | (Some a, Some b) \<Rightarrow> if b \<le> a then Inl (http_err 400 ''invalid_filter'' ''since must be before until'' None) else Inr v
       | _ \<Rightarrow> Inr v) = Inr w"
    using assms unfolding delete_window_def res_bind_Inr query_result_Inr by blast
  obtain a b where ab: "v = (a, b)" by (cases v)
  from c have "v = w" unfolding ab by (cases a; cases b) (simp_all split: if_splits)
  with v c show ?thesis unfolding ab by (cases a; cases b) (simp_all split: if_splits, fastforce+)
qed

lemma same_rest_cases: "same_rest d e \<longleftrightarrow> (\<exists>S K A. e = d\<lparr>db_sessions := S, db_keys := K, db_audit := A\<rparr>)"
proof
  assume "same_rest d e"
  then show "\<exists>S K A. e = d\<lparr>db_sessions := S, db_keys := K, db_audit := A\<rparr>" unfolding same_rest_def by blast
next
  assume "\<exists>S K A. e = d\<lparr>db_sessions := S, db_keys := K, db_audit := A\<rparr>"
  then show "same_rest d e" by (auto simp: same_rest_def)
qed

lemma gate_blind_rest [simp]: "gate_blind (same_rest d)"
  unfolding gate_blind_def same_rest_cases by (clarsimp; blast)

lemma same_rest_telemetry: "same_rest d e \<Longrightarrow> same_telemetry d e"
  by (simp add: same_telemetry_def same_restD)

text \<open>C23: The range delete is gated and exact. An answer 200 means that the request named a bound, in
  order, that the caller passed the gate with a role allowed to delete traces, and that exactly
  the traces of the window (since inclusive, until exclusive) are gone with their observations
  and scores, committed and counted in the answer; logs, rollups, users and settings stay. A refused
  window leaves the committed database as it was. A refusal of the gate leaves all of it but what the
  gate itself writes: sessions, keys (their use counts) and the audit row of the denial.\<close>

theorem range_delete_is_gated_and_exact:
  assumes "conn_idle s"
  shows "(case delete_range cx pf rq s of
      (Inl e, s') \<Rightarrow> same_rest (cn_committed s) (cn_committed s')
        \<and> (\<not> isl (delete_window cx pf rq) \<or> cn_committed s' = cn_committed s)
    | (Inr rs, s') \<Rightarrow> \<exists>w p n. resolve_window (pf_float pf) (cx_now cx) (rq_query rq) = Inr w \<and> w \<noteq> (None, None)
        \<and> (case w of (Some a, Some b) \<Rightarrow> a < b | _ \<Rightarrow> True)
        \<and> fst (app_gate cx rq (Some ''traces.delete'') (Some ''trace.deleted'') None s) = Inr p
        \<and> role_allows (pr_role p) ''traces.delete''
        \<and> without_traces (\<lambda>t. in_range w (tr_ts_start t)) (cn_committed s) (cn_committed s')
        \<and> db_users (cn_committed s') = db_users (cn_committed s) \<and> db_settings (cn_committed s') = db_settings (cn_committed s)
        \<and> n = length (filter (\<lambda>t. in_range w (tr_ts_start t)) (db_traces (cn_committed s)))
        \<and> rs = json_response (JObj ((''deleted'', JInt (int n)) # window_json w)) 200 [])"
proof (cases "delete_window cx pf rq")
  case (Inl e)
  then show ?thesis by (simp add: delete_range_def act_simps same_rest_def)
next
  case (Inr w)
  obtain r t where g: "app_gate cx rq (Some ''traces.delete'') (Some ''trace.deleted'') None s = (r, t)"
    by (cases "app_gate cx rq (Some ''traces.delete'') (Some ''trace.deleted'') None s")
  have "conn_inv (same_rest (cn_committed s)) s" using assms by (simp add: conn_inv_def conn_idle_def same_rest_def)
  from keepsD[OF keeps_gate[OF gate_blind_rest] this] g
  have rest: "same_rest (cn_committed s) (cn_committed t)" "same_rest (cn_committed s) (cn_work t)"
    by (metis conn_inv_def snd_conv)+
  note same = rest[THEN same_rest_telemetry]
  show ?thesis
  proof (cases r)
    case (Inl e)
    then show ?thesis using rest(1) by (simp add: delete_range_def \<open>delete_window cx pf rq = Inr w\<close> act_bind_lift
      act_bind_def[of "with_conn _"] with_conn_run app_gate_bind g)
  next
    case (Inr p)
    let ?P = "\<lambda>t. in_range w (tr_ts_start t)"
    obtain n e where del: "delete_traces_where ?P (cn_work t) = (n, e)" by (cases "delete_traces_where ?P (cn_work t)")
    have n: "n = length (filter ?P (db_traces (cn_committed s)))" "without_traces ?P (cn_committed s) e"
      using without_delete[OF del] without_same[OF same(2)] same(2) by (simp_all add: same_telemetry_def)
    have role: "role_allows (pr_role p) ''traces.delete''"
      using gate_admits_role[of cx rq "''traces.delete''"] g Inr by simp
    have win: "resolve_window (pf_float pf) (cx_now cx) (rq_query rq) = Inr w \<and> w \<noteq> (None, None)
        \<and> (case w of (Some a, Some b) \<Rightarrow> a < b | _ \<Rightarrow> True)"
      using \<open>delete_window cx pf rq = Inr w\<close> by (rule delete_window_Inr)
    have e: "db_users e = db_users (cn_committed s)" "db_settings e = db_settings (cn_committed s)"
      using del same_restD(1,2)[OF rest(2)] by (auto simp: delete_traces_where_def Let_def)
    show ?thesis using n win role e
      by (simp add: delete_range_def \<open>delete_window cx pf rq = Inr w\<close> act_bind_lift act_bind_def[of "with_conn _"] with_conn_run
        app_gate_bind g Inr act_simps del)
  qed
qed

section \<open>Tags and scores\<close>

lemma merge_tags_facts:
  "set (merge_tags stored add remove) = (set stored - set remove) \<union> set add"
  "distinct stored \<Longrightarrow> distinct (merge_tags stored add remove)"
proof -
  let ?f = "fold (\<lambda>tag tags. if tag \<in> set tags then tags else tags @ [tag]) add"
  have "set (?f ts) = set ts \<union> set add \<and> (distinct ts \<longrightarrow> distinct (?f ts))" for ts :: "string list"
    by (induction add arbitrary: ts) auto
  then show "set (merge_tags stored add remove) = (set stored - set remove) \<union> set add"
    "distinct stored \<Longrightarrow> distinct (merge_tags stored add remove)"
    by (auto simp: merge_tags_def)
qed

lemma tag_strings_short: "tag_strings xs = Inr ss \<Longrightarrow> map JStr ss = xs \<and> list_all (\<lambda>s. length s \<le> MAX_TAG_LEN) ss"
  by (induction xs arbitrary: ss rule: tag_strings.induct) (auto simp: res_bind_Inr split: if_splits)

lemma validated_tags_short:
  "validated_tags cx rq = Inr (add, remove) \<Longrightarrow> list_all (\<lambda>s. length s \<le> MAX_TAG_LEN) (add @ remove)"
  by (auto simp: validated_tags_def res_bind_Inr list_all_iff dest!: tag_strings_short dest: in_set_takeD in_set_dropD)

lemma detail_trace: "detail_of tid d = Some dt \<Longrightarrow> td_trace dt \<in> set (db_traces d) \<and> tr_id (td_trace dt) = tid"
  by (auto simp: detail_of_def Let_def find_Some_iff split: option.splits)

text \<open>An answered tag request rewrites the tags of the one trace and nothing else of the telemetry.
  The stored tags become the old ones without the removed ones and with the added ones, free of
  duplicates when the old ones were, at most ten, each new one of at most 32 characters.\<close>

theorem tag_update_is_exact:
  assumes "tags_route cx tid rq s = (Inr rs, s')" "conn_idle s" "distinct (map tr_id (db_traces (cn_committed s)))"
  shows "\<exists>add remove t tags. validated_tags cx rq = Inr (add, remove) \<and> t \<in> set (db_traces (cn_committed s)) \<and> tr_id t = tid
    \<and> same_telemetry (set_trace_tags tid tags (cn_committed s)) (cn_committed s')
    \<and> set tags = (set (tr_tags t) - set remove) \<union> set add \<and> (distinct (tr_tags t) \<longrightarrow> distinct tags)
    \<and> length tags \<le> 10 \<and> (\<forall>tag \<in> set tags - set (tr_tags t). length tag \<le> 32)
    \<and> rs = json_response (JObj [(''tags'', JArr (map JStr tags))]) 200 []"
proof -
  obtain add remove where v: "validated_tags cx rq = Inr (add, remove)"
    using assms(1) by (auto simp: tags_route_def act_bind_lift split: sum.splits)
  have work: "cn_work s = cn_committed s" using assms(2) by (simp add: conn_idle_def)
  obtain dt where dt: "detail_of tid (cn_committed s) = Some dt"
    using assms(1) by (auto simp: tags_route_def act_bind_lift v act_bind_def[of "with_conn _"] with_conn_run act_simps work
        split: option.splits)
  let ?tags = "merge_tags (tr_tags (td_trace dt)) add remove"
  have small: "\<not> MAX_TAGS < length ?tags"
    using assms(1) by (auto simp: tags_route_def act_bind_lift v act_bind_def[of "with_conn _"] with_conn_run act_simps work dt Let_def
        split: if_splits)
  have r: "rs = json_response (JObj [(''tags'', JArr (map JStr ?tags))]) 200 []"
    "cn_committed s' = insert_audit (cx_now cx) ''api'' ''trace.tagged'' (Some tid) ''ok'' None (set_trace_tags tid ?tags (cn_committed s))"
    using assms(1) by (auto simp: tags_route_def act_bind_lift v act_bind_def[of "with_conn _"] with_conn_run act_simps work dt Let_def small)
  have "\<forall>tag \<in> set ?tags - set (tr_tags (td_trace dt)). length tag \<le> 32"
    using validated_tags_short[OF v] by (auto simp: merge_tags_facts(1) list_all_iff MAX_TAG_LEN_def)
  then show ?thesis
    using v detail_trace[OF dt] r small merge_tags_facts[of "tr_tags (td_trace dt)" add remove]
    by (intro exI[of _ add] exI[of _ remove] exI[of _ "td_trace dt"] exI[of _ ?tags])
       (simp add: same_telemetry_def insert_audit_def MAX_TAGS_def)
qed

lemma score_value_type: "score_value j = Inr (v, ty) \<Longrightarrow> ty \<in> set DATA_TYPES"
  by (cases j) (auto simp: DATA_TYPES_def split: if_splits)

lemma score_data_type_given: "score_data_type given inferred = Inr ty \<Longrightarrow> ty = inferred \<or> ty \<in> set DATA_TYPES"
  by (cases given) (auto simp: score_data_type_def split: if_splits)

lemma validated_score_type:
  assumes "validated_score cx rq = Inr (name, stored, data_type, comment)"
  shows "data_type \<in> set DATA_TYPES"
proof -
  obtain v inferred given w where "score_value v = Inr (w, inferred)" "score_data_type given inferred = Inr data_type"
    using assms unfolding validated_score_def res_bind_Inr by (auto simp: res_bind_Inr split: if_splits)
  then show ?thesis using score_value_type score_data_type_given by metis
qed

text \<open>An answered score is stored: the trace existed, exactly one score row is appended with the
  fields of the answer, and the answer carries the value that was stored unless the value is text
  that the REAL column reads as a number.\<close>

theorem posted_score_is_stored:
  assumes "scores_route cx pf tid rq s = (Inr rs, s')" "conn_idle s"
  shows "\<exists>name stored data_type comment. validated_score cx rq = Inr (name, stored, data_type, comment)
    \<and> data_type \<in> set DATA_TYPES \<and> tid \<in> tr_id ` set (db_traces (cn_committed s))
    \<and> db_scores (cn_committed s') = db_scores (cn_committed s) @ [\<lparr>sc_id = cx_uid cx, sc_trace_id = tid, sc_name = name,
        sc_value = real_column pf stored, sc_data_type = data_type, sc_source = ''api'', sc_comment = comment, sc_ts = cx_now cx\<rparr>]
    \<and> db_traces (cn_committed s') = db_traces (cn_committed s)
    \<and> (real_column pf stored = stored \<or> (\<exists>text q. stored = JStr text \<and> pf_affinity pf text = Some q))"
proof -
  obtain name stored data_type comment where v: "validated_score cx rq = Inr (name, stored, data_type, comment)"
    using assms(1) by (auto simp: scores_route_def act_bind_lift split: sum.splits)
  have work: "cn_work s = cn_committed s" using assms(2) by (simp add: conn_idle_def)
  let ?sc = "\<lparr>sc_id = cx_uid cx, sc_trace_id = tid, sc_name = name,
        sc_value = real_column pf stored, sc_data_type = data_type, sc_source = SCORE_SOURCE, sc_comment = comment, sc_ts = cx_now cx\<rparr>"
  have dt: "detail_of tid (cn_committed s) \<noteq> None"
    using assms(1) by (auto simp: scores_route_def act_bind_lift v act_bind_def[of "with_conn _"] with_conn_run act_simps work
        split: if_splits)
  obtain e where e: "insert_scores [?sc] (cn_committed s) = Inr e"
    using assms(1) dt by (auto simp: scores_route_def act_bind_lift v act_bind_def[of "with_conn _"] with_conn_run act_simps work db_try_def
        split: if_splits sum.splits)
  have "cn_committed s' = insert_audit (cx_now cx) ''api'' ''trace.scored'' (Some tid) ''ok'' None e"
    using assms(1) dt by (auto simp: scores_route_def act_bind_lift v act_bind_def[of "with_conn _"] with_conn_run act_simps work db_try_def e)
  moreover have "data_type \<in> set DATA_TYPES"
    by (rule validated_score_type[OF v])
  moreover have "real_column pf stored = stored \<or> (\<exists>text q. stored = JStr text \<and> pf_affinity pf text = Some q)"
    by (auto simp: real_column_def split: json.splits option.splits)
  ultimately show ?thesis using v e
    by (intro exI[of _ name] exI[of _ stored] exI[of _ data_type] exI[of _ comment])
       (auto simp: insert_scores_def insert_audit_def SCORE_SOURCE_def split: if_splits)
qed

section \<open>Witnesses\<close>

definition demo_platform :: platform where
  "demo_platform = \<lparr>pf_float = (\<lambda>s. if s = ''6'' then Finite 6 else NotFloat), pf_render = demo_float, pf_affinity = (\<lambda>_. None)\<rparr>"

definition traces_db :: db where
  "traces_db = two_owners\<lparr>db_traces := db_traces demo_traces\<rparr>"

definition traces_state :: app_state where
  "traces_state = \<lparr>cn_committed = traces_db, cn_work = traces_db, as_backoff = new_backoff 5 900, as_buckets = []\<rparr>"

definition traces_ctx :: "json \<Rightarrow> ctx" where
  "traces_ctx body = \<lparr>cx_config = default_config, cx_crypto = toy_crypto, cx_pepper = ''P'',
     cx_scrypt = (\<lambda>_ _ _ _ _ _. None), cx_deny = {}, cx_loads = (\<lambda>b. Inr body), cx_now = 50, cx_mono = 50,
     cx_token = ''tok'', cx_csrf = ''csrf'', cx_uid = ''u9'', cx_salt = [], cx_draws = [], cx_cached = None\<rparr>"

definition traces_rq :: "string \<Rightarrow> string \<Rightarrow> request" where
  "traces_rq meth path = (demo_request meth path [(''cookie'', ''lw_session=1; lw_csrf=t''), (''x-csrf-token'', ''t'')])
     \<lparr>rq_body := ''x'', rq_query := [(''since'', [''6''])]\<rparr>"

lemma traces_demo: "conn_idle traces_state" "conn_inv tele_inv traces_state" "distinct (map tr_id (db_traces (cn_committed traces_state)))"
  by (simp_all add: conn_idle_def conn_inv_def traces_state_def traces_db_def tele_inv_def demo_traces_def two_owners_def
      empty_db_def trace_row_def demo_trace_def trace.truncate_def)

theorem trace_endpoints_keep_integrity_witness:
  "conn_inv tele_inv (snd (delete_route (traces_ctx JNull) (traces_rq ''DELETE'' ''/api/v1/traces/a'') traces_state))"
  by (rule trace_endpoints_keep_integrity[OF traces_demo(2), THEN conjunct2, THEN conjunct1])

theorem trace_delete_needs_no_credential_witness:
  "fst (delete_route (traces_ctx JNull) (demo_request ''DELETE'' ''/api/v1/traces/a'' []) traces_state) = Inr (empty_response 204 [])"
proof -
  have "path_parts TRACES_PREFIX (demo_request ''DELETE'' ''/api/v1/traces/a'' []) = [''a'']" by code_simp
  moreover have "''a'' \<in> tr_id ` set (db_traces (cn_committed traces_state))"
    by (simp add: traces_state_def traces_db_def demo_traces_def trace_row_def demo_trace_def trace.truncate_def)
  ultimately show ?thesis using trace_delete_needs_no_credential[OF traces_demo(1), of _ "''a''" "traces_ctx JNull"] by simp
qed

theorem range_delete_is_gated_and_exact_witness:
  "map tr_id (db_traces (cn_committed (snd (delete_range (traces_ctx JNull) demo_platform
      (traces_rq ''DELETE'' ''/api/v1/traces'') traces_state)))) = [''a'']"
proof -
  let ?rq = "traces_rq ''DELETE'' ''/api/v1/traces''"
  have w: "delete_window (traces_ctx JNull) demo_platform ?rq = Inr (Some 6, None)" by code_simp
  have g: "app_gate (traces_ctx JNull) ?rq (Some ''traces.delete'') (Some ''trace.deleted'') None traces_state
      = (Inr (session_principal (demo_session ''s1'' ''a'') (demo_user ''a'' ''owner'')), traces_state)"
    by code_simp
  obtain n e where del: "delete_traces_where (\<lambda>t. in_range (Some 6, None) (tr_ts_start t)) (cn_work traces_state) = (n, e)"
    by (cases "delete_traces_where (\<lambda>t. in_range (Some 6, None) (tr_ts_start t)) (cn_work traces_state)")
  obtain rs s' where r: "delete_range (traces_ctx JNull) demo_platform ?rq traces_state = (Inr rs, s')"
    by (auto simp: delete_range_def w act_bind_lift act_bind_def[of "with_conn _"] with_conn_run app_gate_bind g act_simps del)
  have "resolve_window (pf_float demo_platform) (cx_now (traces_ctx JNull)) (rq_query ?rq) = Inr (Some 6, None)"
    using delete_window_Inr[OF w] by simp
  then have "without_traces (\<lambda>t. in_range (Some 6, None) (tr_ts_start t)) (cn_committed traces_state) (cn_committed s')"
    using range_delete_is_gated_and_exact[OF traces_demo(1), where cx = "traces_ctx JNull" and pf = demo_platform and rq = ?rq] unfolding r by fastforce
  then show ?thesis unfolding r
    by (simp add: without_traces_def traces_state_def traces_db_def demo_traces_def trace_row_def demo_trace_def trace.truncate_def in_range_def)
qed

theorem tag_update_is_exact_witness:
  "\<exists>tags. same_telemetry (set_trace_tags ''a'' tags traces_db)
     (cn_committed (snd (tags_route (traces_ctx (JObj [(''add'', JArr [JStr ''x''])])) ''a'' (traces_rq ''POST'' ''/x'') traces_state)))
   \<and> ''x'' \<in> set tags"
proof -
  let ?r = "tags_route (traces_ctx (JObj [(''add'', JArr [JStr ''x''])])) ''a'' (traces_rq ''POST'' ''/x'') traces_state"
  have v: "validated_tags (traces_ctx (JObj [(''add'', JArr [JStr ''x''])])) (traces_rq ''POST'' ''/x'') = Inr ([''x''], [])" by code_simp
  have "case fst ?r of Inl e \<Rightarrow> False | Inr rs \<Rightarrow> True" by code_simp
  then obtain rs s' where r: "?r = (Inr rs, s')" by (metis old.sum.simps(5) prod.collapse sum.exhaust)
  show ?thesis using tag_update_is_exact[OF r traces_demo(1,3)] unfolding r v by (auto simp: traces_state_def)
qed

theorem posted_score_is_stored_witness:
  "map sc_trace_id (db_scores (cn_committed (snd (scores_route (traces_ctx (JObj [(''name'', JStr ''q''), (''value'', JInt 3)]))
     demo_platform ''a'' (traces_rq ''POST'' ''/x'') traces_state)))) = [''a'']"
proof -
  let ?r = "scores_route (traces_ctx (JObj [(''name'', JStr ''q''), (''value'', JInt 3)])) demo_platform ''a'' (traces_rq ''POST'' ''/x'') traces_state"
  have "case fst ?r of Inl e \<Rightarrow> False | Inr rs \<Rightarrow> True" by code_simp
  then obtain rs s' where r: "?r = (Inr rs, s')" by (metis old.sum.simps(5) prod.collapse sum.exhaust)
  show ?thesis using posted_score_is_stored[OF r traces_demo(1)] unfolding r
    by (auto simp: traces_state_def traces_db_def two_owners_def empty_db_def)
qed

end
