(* ===== verification/Api_Metrics.thy ===== *)
theory Api_Metrics
  imports Metrics Api_Traces
begin

text \<open>
  Models \<open>layawatch/api/metrics.py\<close>: the three read endpoints over the metrics queries, their
  parameter allowlists, the server-chosen step and the JSON of the answers. None of them is gated.
\<close>

definition SERIES_PARAMS :: "string list" where
  "SERIES_PARAMS = [''metrics'', ''range'', ''since'', ''until'', ''step'', ''model'', ''route'']"

definition SUMMARY_PARAMS :: "string list" where
  "SUMMARY_PARAMS = [''range'']"

definition MODELS_PARAMS :: "string list" where
  "MODELS_PARAMS = [''range'', ''since'', ''until'']"

section \<open>The answers as JSON\<close>

definition metrics_window_json :: "pyfloat \<Rightarrow> pyfloat \<Rightarrow> json" where
  "metrics_window_json since until = JObj [(''since'', JFloat since), (''until'', JFloat until)]"

definition point_json :: "point \<Rightarrow> json" where
  "point_json p = (case p of
     Percentiles a b c d \<Rightarrow> JObj [(''p50'', JFloat a), (''p90'', JFloat b), (''p95'', JFloat c), (''p99'', JFloat d)]
   | Counted n \<Rightarrow> JInt n
   | Level q \<Rightarrow> JFloat q)"

definition series_json :: "series_answer \<Rightarrow> json" where
  "series_json a = JObj [(''step'', JInt (sa_step a)), (''window'', metrics_window_json (sa_since a) (sa_until a)),
     (''series'', JArr (map (\<lambda>(name, pts). JObj [(''metric'', JStr name),
        (''points'', JArr (map (\<lambda>(b, p). JArr [JInt b, point_json p]) pts))]) (sa_series a))),
     (''note'', JStr METRICS_NOTE)]"

definition status_counts_json :: "(int \<times> int) list \<Rightarrow> json" where
  "status_counts_json counts = JObj (map (\<lambda>(st, n). (str_int st, JInt n)) counts)"

definition kpi_json :: "summary_answer \<Rightarrow> json" where
  "kpi_json a =
     (let cur = sm_current a; prev = sm_previous a; since = sm_now a - sm_range a in
      JObj ([(''range_s'', JFloat (sm_range a)), (''window'', metrics_window_json since (sm_now a)),
        (''prev_window'', metrics_window_json (since - sm_range a) since),
        (''requests_per_s'', JFloat (kp_rate cur)), (''requests_per_s_prev'', JFloat (kp_rate prev)),
        (''errors'', JInt (kp_errors cur)), (''errors_prev'', JInt (kp_errors prev)),
        (''errors_by_status'', status_counts_json (kp_by_status cur)),
        (''p50'', JFloat (kp_p50 cur)), (''p50_prev'', JFloat (kp_p50 prev)),
        (''p95'', JFloat (kp_p95 cur)), (''p95_prev'', JFloat (kp_p95 prev)),
        (''queue_ms'', JFloat (kp_queue cur)), (''queue_ms_prev'', JFloat (kp_queue prev)),
        (''deltas'', JObj [(''requests_per_s'', JFloat (kp_rate cur - kp_rate prev)),
           (''errors'', JInt (kp_errors cur - kp_errors prev)), (''p50'', JFloat (kp_p50 cur - kp_p50 prev)),
           (''p95'', JFloat (kp_p95 cur - kp_p95 prev)), (''queue_ms'', JFloat (kp_queue cur - kp_queue prev))]),
        (''total_requests'', JInt (sm_total a))]
       @ (if 0 < sm_throttled a then [(''throttled_5m'', JInt (sm_throttled a))] else [])))"

definition mix_json :: "mix_answer \<Rightarrow> json" where
  "mix_json a = JObj [(''step'', JInt (mx_step a)), (''window'', metrics_window_json (mx_since a) (mx_until a)),
     (''buckets'', JArr (map (\<lambda>(b, counts). JObj [(''ts'', JInt b),
        (''counts'', JObj (map (\<lambda>(m, n). (m, JInt n)) counts))]) (mx_buckets a))),
     (''models'', JArr (map JStr (mx_models a))), (''total'', JInt (mx_total a))]"

section \<open>Handlers\<close>

text \<open>\<open>_window\<close>: the last quarter of an hour when a bound is missing.\<close>

definition window_or_default :: "platform \<Rightarrow> pyfloat \<Rightarrow> params \<Rightarrow> (pyfloat \<times> pyfloat) query" where
  "window_or_default pf now ps =
     res_bind (resolve_window (pf_float pf) now ps) (\<lambda>(since, until).
       let until = (case until of None \<Rightarrow> now | Some u \<Rightarrow> u)
       in Inr (case since of None \<Rightarrow> until - 900 | Some s \<Rightarrow> s, until))"

definition series_query :: "platform \<Rightarrow> pyfloat \<Rightarrow> params \<Rightarrow> db \<Rightarrow> series_answer query" where
  "series_query pf now ps d =
     res_bind (reject_unknown ps SERIES_PARAMS) (\<lambda>_.
     res_bind (parse_metrics (first_value ps ''metrics'')) (\<lambda>names.
     res_bind (window_or_default pf now ps) (\<lambda>(since, until).
     res_bind (parse_step (first_value ps ''step'')) (\<lambda>step.
     metrics_series d names since until (case step of None \<Rightarrow> step_for_range (until - since) | Some s \<Rightarrow> s)
       (first_value ps ''model'') (first_value ps ''route'')))))"

definition summary_query :: "pyfloat \<Rightarrow> params \<Rightarrow> db \<Rightarrow> summary_answer query" where
  "summary_query now ps d =
     res_bind (reject_unknown ps SUMMARY_PARAMS) (\<lambda>_.
     res_bind (case first_value ps ''range'' of None \<Rightarrow> Inr 900
       | Some raw \<Rightarrow> if raw = [] then Inr 900 else parse_range raw) (\<lambda>range_s.
     metrics_summary d range_s now))"

definition mix_query :: "platform \<Rightarrow> pyfloat \<Rightarrow> params \<Rightarrow> db \<Rightarrow> mix_answer query" where
  "mix_query pf now ps d =
     res_bind (reject_unknown ps MODELS_PARAMS) (\<lambda>_.
     res_bind (resolve_window (pf_float pf) now ps) (\<lambda>w. metrics_models d w now))"

definition read_route :: "(db \<Rightarrow> 'a query) \<Rightarrow> ('a \<Rightarrow> json) \<Rightarrow> response api" where
  "read_route query to_json =
     act_bind (with_conn (act_bind (db_query query) (\<lambda>r. act_lift (query_result r)))) (\<lambda>a.
     act_return (json_response (to_json a) 200 []))"

definition series_route :: "ctx \<Rightarrow> platform \<Rightarrow> request \<Rightarrow> response api" where
  "series_route cx pf rq = read_route (series_query pf (cx_now cx) (rq_query rq)) series_json"

definition summary_route :: "ctx \<Rightarrow> request \<Rightarrow> response api" where
  "summary_route cx rq = read_route (summary_query (cx_now cx) (rq_query rq)) kpi_json"

definition models_route :: "ctx \<Rightarrow> platform \<Rightarrow> request \<Rightarrow> response api" where
  "models_route cx pf rq = read_route (mix_query pf (cx_now cx) (rq_query rq)) mix_json"

section \<open>What the endpoints answer\<close>

lemma metrics_series_ordered: "metrics_series d names since until step m r = Inr a \<Longrightarrow> since < until"
  by (auto simp: metrics_series_def res_bind_Inr Let_def invalid_def split: if_splits option.splits)

lemma window_or_default_Inr:
  assumes "window_or_default pf now ps = Inr (a, b)"
  obtains w where "resolve_window (pf_float pf) now ps = Inr w"
    "b = (case snd w of None \<Rightarrow> now | Some u \<Rightarrow> u)" "a = (case fst w of None \<Rightarrow> b - 900 | Some s \<Rightarrow> s)"
  using assms by (auto simp: window_or_default_def res_bind_Inr Let_def)

text \<open>The step the client gets is one the rollups hold, and without a \<open>step\<close> it is the one of the
  window's width: at most 15 minutes get 10 s buckets, at most 6 hours get minutes, the rest hours.
  So a chart with a server-chosen step of at most 6 hours has at most 361 points.\<close>

lemma served_step:
  assumes "series_query pf now ps d = Inr a"
  shows "sa_step a \<in> set ROLLUP_STEPS" "sa_since a < sa_until a"
    "first_value ps ''step'' = None \<Longrightarrow> sa_step a = step_for_range (sa_until a - sa_since a)"
proof -
  obtain names since until step where q: "parse_step (first_value ps ''step'') = Inr step"
    "metrics_series d names since until (case step of None \<Rightarrow> step_for_range (until - since) | Some s \<Rightarrow> s)
       (first_value ps ''model'') (first_value ps ''route'') = Inr a"
    using assms by (auto simp: series_query_def res_bind_Inr)
  have a: "sa_step a = (case step of None \<Rightarrow> step_for_range (until - since) | Some s \<Rightarrow> s)" "sa_since a = since" "sa_until a = until"
    "sa_step a \<in> set ROLLUP_STEPS" "since < until"
    using q(2) by (auto simp: metrics_series_def res_bind_Inr Let_def invalid_def split: if_splits option.splits)
  then show "sa_step a \<in> set ROLLUP_STEPS" "sa_since a < sa_until a" by simp_all
  show "first_value ps ''step'' = None \<Longrightarrow> sa_step a = step_for_range (sa_until a - sa_since a)"
    using a q(1) by (simp add: parse_step_def)
qed

text \<open>A window whose first bucket does not fit 64 bits is not refused as a bad parameter.\<close>

lemma wide_window_escapes:
  "metrics_models d (Some (10 * 2 ^ 64), Some (10 * 2 ^ 64 + 900)) now = Inl (Escapes OverflowError)"
  by (simp add: metrics_models_def Let_def step_for_range_def bucket_of_def sqlite_int_def)

end
