(* ===== verification/Api_Logs.thy ===== *)
theory Api_Logs
  imports Api_Traces Api_Policy
begin

text \<open>
  Models \<open>logs_list\<close> of \<open>layawatch/store/queries.py\<close> and \<open>layawatch/api/logs.py\<close>: the keyset
  list of log lines, newest first, and the export that pages through it into one JSON object per
  line. The export loop stops by itself; its fuel is shown to suffice.
\<close>

section \<open>The list\<close>

type_synonym log_key = "pyfloat \<times> pyfloat"

record log_query =
  lq_window :: window
  lq_limit :: int
  lq_level :: "string option"
  lq_text :: "string option"
  lq_trace :: "string option"
  lq_cursor :: "log_key option"

definition log_cursor :: "(string \<Rightarrow> string + json) \<Rightarrow> string option \<Rightarrow> log_key option query" where
  "log_cursor loads raw = (case raw of None \<Rightarrow> Inr None
     | Some s \<Rightarrow> res_bind (decode_cursor loads s) (\<lambda>(_, keys).
         case keys of
           [k0, k1] \<Rightarrow> (case (number_of k0, number_of k1) of
               (Some ts, Some i) \<Rightarrow> if binds k0 \<and> binds k1 then Inr (Some (ts, i)) else Inl (Escapes OverflowError)
             | _ \<Rightarrow> bad_cursor)
         | _ \<Rightarrow> bad_cursor))"

definition parse_log_query :: "(string \<Rightarrow> string + json) \<Rightarrow> float_parser \<Rightarrow> pyfloat \<Rightarrow> params \<Rightarrow> log_query query" where
  "parse_log_query loads flt now ps =
     res_bind (reject_unknown ps LOG_FILTERS) (\<lambda>_.
     res_bind (resolve_window flt now ps) (\<lambda>w.
     res_bind (parse_limit (first_value ps ''limit'') DEFAULT_LIMIT) (\<lambda>limit.
     res_bind (parse_level (opt_value ps ''level'')) (\<lambda>level.
     res_bind (log_cursor loads (opt_value ps ''cursor'')) (\<lambda>cursor.
       Inr \<lparr>lq_window = w, lq_limit = limit, lq_level = level, lq_text = opt_value ps ''q'',
            lq_trace = opt_value ps ''trace_id'', lq_cursor = cursor\<rparr>)))))"

definition log_matches :: "log_query \<Rightarrow> log_row \<Rightarrow> bool" where
  "log_matches q l \<longleftrightarrow> in_range (lq_window q) (ll_ts l) \<and> sql_eq (lq_level q) (Some (ll_level l))
     \<and> (case lq_text q of None \<Rightarrow> True | Some v \<Rightarrow> like_match (like_pattern v) (ll_message l))
     \<and> sql_eq (lq_trace q) (ll_trace_id l)"

definition log_key :: "log_row \<Rightarrow> log_key" where
  "log_key l = (ll_ts l, of_nat (lg_id l))"

definition log_order :: "log_row list \<Rightarrow> log_row list" where
  "log_order rows = rev (sort_key log_key rows)"

definition log_after :: "log_key \<Rightarrow> log_row \<Rightarrow> bool" where
  "log_after k l \<longleftrightarrow> log_key l < k"

definition log_key_json :: "log_row \<Rightarrow> json" where
  "log_key_json l = JObj [(''k'', JArr [JFloat (ll_ts l), JInt (int (lg_id l))])]"

record log_page =
  lp_items :: "log_row list"
  lp_next :: "string option"
  lp_total :: nat

definition run_log_query :: "(pyfloat \<Rightarrow> string) \<Rightarrow> log_query \<Rightarrow> db \<Rightarrow> log_page" where
  "run_log_query fr q d =
     (let found = filter (log_matches q) (db_logs d);
          (page, more) = keyset_page log_order log_after log_key (nat (lq_limit q)) (lq_cursor q) found in
      \<lparr>lp_items = page, lp_next = (case more of None \<Rightarrow> None | Some _ \<Rightarrow> Some (encode_cursor fr (log_key_json (last page)))),
       lp_total = length found\<rparr>)"

definition logs_list :: "(string \<Rightarrow> string + json) \<Rightarrow> (pyfloat \<Rightarrow> string) \<Rightarrow> float_parser \<Rightarrow> pyfloat \<Rightarrow> params \<Rightarrow> db \<Rightarrow> log_page query" where
  "logs_list loads fr flt now ps d = res_bind (parse_log_query loads flt now ps) (\<lambda>q. Inr (run_log_query fr q d))"

definition log_page_json :: "log_page \<Rightarrow> json" where
  "log_page_json pg = page_json (map log_json (lp_items pg)) (lp_next pg) (lp_total pg)"

section \<open>The endpoints\<close>

definition EXPORT_PARAMS :: "string list" where
  "EXPORT_PARAMS = [''range'', ''format'']"

definition EXPORT_LIMIT :: nat where
  "EXPORT_LIMIT = 10000"

definition list_logs :: "ctx \<Rightarrow> platform \<Rightarrow> request \<Rightarrow> response api" where
  "list_logs cx pf rq =
     act_bind (with_conn (act_bind (db_query (logs_list (cx_loads cx) (pf_render pf) (pf_float pf) (cx_now cx) (rq_query rq)))
       (\<lambda>r. act_lift (query_result r)))) (\<lambda>pg. act_return (json_response (log_page_json pg) 200 []))"

text \<open>The while loop of the export: pages until the cap or the last page. None is running out of fuel.\<close>

fun export_loop :: "(params \<Rightarrow> log_page query) \<Rightarrow> params \<Rightarrow> nat \<Rightarrow> string option \<Rightarrow> log_row list \<Rightarrow> log_row list query option" where
  "export_loop list_page win fuel cursor items =
     (if EXPORT_LIMIT \<le> length items then Some (Inr items)
      else case fuel of 0 \<Rightarrow> None
      | Suc n \<Rightarrow> (case list_page (case cursor of None \<Rightarrow> win | Some c \<Rightarrow> dict_set ''cursor'' [c] win) of
            Inl e \<Rightarrow> Some (Inl e)
          | Inr pg \<Rightarrow> (case lp_next pg of
                None \<Rightarrow> Some (Inr (items @ lp_items pg))
              | Some c \<Rightarrow> export_loop list_page win n (Some c) (items @ lp_items pg))))"

declare export_loop.simps [simp del]

definition EXPORT_FUEL :: nat where
  "EXPORT_FUEL = 50"

definition export_token :: "request \<Rightarrow> string query" where
  "export_token rq =
     res_bind (reject_unknown (rq_query rq) EXPORT_PARAMS) (\<lambda>_.
     if request_param rq ''format'' \<noteq> Some ''jsonl'' then invalid ''format must be jsonl''
     else Inr (case request_param rq ''range'' of None \<Rightarrow> ''1h'' | Some r \<Rightarrow> if r = [] then ''1h'' else r))"

definition export_window :: "platform \<Rightarrow> pyfloat \<Rightarrow> pyfloat \<Rightarrow> params" where
  "export_window pf now range_s = [(''since'', [pf_render pf (now - range_s)]), (''until'', [pf_render pf now]), (''limit'', [str_int MAX_LIMIT])]"

definition export_items :: "ctx \<Rightarrow> platform \<Rightarrow> string \<Rightarrow> db \<Rightarrow> log_row list query option" where
  "export_items cx pf token d = (case parse_range token of
     Inl e \<Rightarrow> Some (Inl e)
   | Inr range_s \<Rightarrow> export_loop (\<lambda>ps. logs_list (cx_loads cx) (pf_render pf) (pf_float pf) (cx_now cx) ps d)
       (export_window pf (cx_now cx) range_s) EXPORT_FUEL None [])"

definition export_body :: "platform \<Rightarrow> log_row list \<Rightarrow> string" where
  "export_body pf items = concat (map (\<lambda>l. json_dumps (pf_render pf) (log_json l) @ [CHR 10]) (take EXPORT_LIMIT items))"

definition export_response :: "platform \<Rightarrow> string \<Rightarrow> log_row list \<Rightarrow> response" where
  "export_response pf token items = text_response (export_body pf items) 200 ''text/plain; charset=utf-8''
     [(''Content-Disposition'', ''attachment; filename=logs-'' @ token @ ''.jsonl'')]"

definition export_logs :: "ctx \<Rightarrow> platform \<Rightarrow> request \<Rightarrow> app_state \<Rightarrow> ((exn + response) \<times> app_state) option" where
  "export_logs cx pf rq s = (case export_token rq of
     Inl e \<Rightarrow> Some (Inl (query_exn e), s)
   | Inr token \<Rightarrow> (case export_items cx pf token (cn_work s) of
         None \<Rightarrow> None
       | Some (Inl e) \<Rightarrow> Some (Inl (query_exn e), conn_close s)
       | Some (Inr items) \<Rightarrow> Some (Inr (export_response pf token items), conn_close s)))"

section \<open>The log list is a keyset list\<close>

lemma log_keys_distinct: "distinct (map lg_id rows) \<Longrightarrow> distinct (map log_key rows)"
  by (auto simp: distinct_map inj_on_def log_key_def)

interpretation log_pages: keyset log_order log_after log_key "\<lambda>rows. distinct (map lg_id rows)"
proof unfold_locales
  fix P rows
  show "log_order (filter P rows) = filter P (log_order rows)" by (simp add: log_order_def filter_rev_sort)
  show "length (log_order rows) = length rows" by (simp add: log_order_def)
next
  fix rows xs r ys
  assume d: "distinct (map lg_id rows)" and o: "log_order rows = xs @ r # ys"
  show "filter (log_after (log_key r)) (log_order rows) = ys"
    using descending_after[OF log_keys_distinct[OF d], of xs r ys] o by (simp add: log_order_def log_after_def[abs_def])
qed

section \<open>The export is the window\<close>

text \<open>The platform reads back the numbers it writes and the cursors of the stored lines; row ids are
  SQLite integers.\<close>

definition reads_logs_back :: "ctx \<Rightarrow> platform \<Rightarrow> db \<Rightarrow> bool" where
  "reads_logs_back cx pf d \<longleftrightarrow> (\<forall>q. pf_render pf q \<noteq> [] \<and> pf_float pf (pf_render pf q) = Finite q)
     \<and> (\<forall>l \<in> set (db_logs d). reads_back (cx_loads cx) (pf_render pf) (log_key_json l) \<and> lg_id l < 2 ^ 63)"

lemma py_int_limit: "py_int (str_int MAX_LIMIT) = Some 200" "str_int MAX_LIMIT \<noteq> []"
  by code_simp+

definition window_query :: "pyfloat \<Rightarrow> pyfloat \<Rightarrow> log_key option \<Rightarrow> log_query" where
  "window_query a b c = \<lparr>lq_window = (Some a, Some b), lq_limit = 200, lq_level = None, lq_text = None, lq_trace = None, lq_cursor = c\<rparr>"

lemma parse_export_page:
  assumes reads: "reads_logs_back cx pf d" and r: "0 < r"
    and c: "case cursor of None \<Rightarrow> raw = None | Some l \<Rightarrow> l \<in> set (db_logs d) \<and> raw = Some (encode_cursor (pf_render pf) (log_key_json l))"
  shows "parse_log_query (cx_loads cx) (pf_float pf) now (case raw of None \<Rightarrow> export_window pf now r | Some x \<Rightarrow> dict_set ''cursor'' [x] (export_window pf now r))
    = Inr (window_query (now - r) now (map_option log_key cursor))"
proof -
  let ?ps = "case raw of None \<Rightarrow> export_window pf now r | Some x \<Rightarrow> dict_set ''cursor'' [x] (export_window pf now r)"
  have num: "pf_render pf q \<noteq> []" "pf_float pf (pf_render pf q) = Finite q" for q using reads by (simp_all add: reads_logs_back_def)
  have opts: "opt_value (export_window pf now r) ''range'' = None" "opt_value (export_window pf now r) ''level'' = None"
    "opt_value (export_window pf now r) ''q'' = None" "opt_value (export_window pf now r) ''trace_id'' = None"
    "opt_value (export_window pf now r) ''cursor'' = None"
    "opt_value (export_window pf now r) ''since'' = Some (pf_render pf (now - r))" "opt_value (export_window pf now r) ''until'' = Some (pf_render pf now)"
    "first_value (export_window pf now r) ''limit'' = Some (str_int MAX_LIMIT)"
    using num py_int_limit(2) by (simp_all add: opt_value_def first_value_def export_window_def)
  have rej: "reject_unknown (export_window pf now r) LOG_FILTERS = Inr ()"
    by (simp add: reject_unknown_iff export_window_def LOG_FILTERS_def)
  have win: "resolve_window (pf_float pf) now (export_window pf now r) = Inr (Some (now - r), Some now)"
    using r num by (simp add: resolve_window_def opts Let_def opt_float_def parse_float_def)
  have lim: "parse_limit (Some (str_int MAX_LIMIT)) DEFAULT_LIMIT = Inr 200"
    using py_int_limit by (simp add: parse_limit_def MAX_LIMIT_def)
  show ?thesis
  proof (cases cursor)
    case None
    then show ?thesis using c
      by (simp add: parse_log_query_def opts rej win lim parse_level_def log_cursor_def window_query_def)
  next
    case (Some l)
    have raw: "raw = Some (encode_cursor (pf_render pf) (log_key_json l))" and l: "l \<in> set (db_logs d)" using c Some by simp_all
    have rb: "reads_back (cx_loads cx) (pf_render pf) (log_key_json l)" and small: "lg_id l < 2 ^ 63"
      using reads l by (simp_all add: reads_logs_back_def)
    have dec: "decode_cursor (cx_loads cx) (encode_cursor (pf_render pf) (log_key_json l))
        = Inr ([(''k'', JArr [JFloat (ll_ts l), JInt (int (lg_id l))])], [JFloat (ll_ts l), JInt (int (lg_id l))])"
      using rb unfolding log_key_json_def by (rule decode_encode_cursor) (simp add: jget_def)
    have "int (lg_id l) < 2 ^ 63" using small by (metis of_nat_less_iff of_nat_numeral of_nat_power)
    then have bind: "sqlite_int (int (lg_id l))" unfolding sqlite_int_def by linarith
    have ne: "encode_cursor (pf_render pf) (log_key_json l) \<noteq> []" unfolding log_key_json_def by (rule encode_cursor_nonempty)
    show ?thesis unfolding raw option.case
      using ne reject_set[OF rej, of "''cursor''"]
      by (simp add: parse_log_query_def opt_value_set first_value_set opts win window_ignores_cursor lim parse_level_def log_cursor_def dec
          bind window_query_def Some log_key_def LOG_FILTERS_def)
  qed
qed


lemma run_window:
  "run_log_query fr (window_query a b c) d =
     (let (page, more) = keyset_page log_order log_after log_key 200 c (filter (log_matches (window_query a b None)) (db_logs d)) in
      \<lparr>lp_items = page, lp_next = (case more of None \<Rightarrow> None | Some _ \<Rightarrow> Some (encode_cursor fr (log_key_json (last page)))),
       lp_total = length (filter (log_matches (window_query a b None)) (db_logs d))\<rparr>)"
proof -
  have "log_matches (window_query a b c) = log_matches (window_query a b None)"
    by (simp add: log_matches_def window_query_def fun_eq_iff)
  then show ?thesis by (simp add: run_log_query_def window_query_def Let_def)
qed

lemma export_walk:
  assumes reads: "reads_logs_back cx pf d" and r: "0 < r" and dist: "distinct (map lg_id (db_logs d))"
    and found: "found = filter (log_matches (window_query (now - r) now None)) (db_logs d)"
  shows "(case cursor of None \<Rightarrow> raw = None | Some l \<Rightarrow> l \<in> set (db_logs d) \<and> raw = Some (encode_cursor (pf_render pf) (log_key_json l)))
    \<Longrightarrow> log_pages.behind found (map_option log_key cursor) ys \<Longrightarrow> 10000 \<le> length items + 200 * fuel
    \<Longrightarrow> \<exists>out. export_loop (\<lambda>ps. logs_list (cx_loads cx) (pf_render pf) (pf_float pf) now ps d) (export_window pf now r) fuel raw items
        = Some (Inr out) \<and> take 10000 out = take 10000 (items @ ys)"
proof (induction fuel arbitrary: cursor raw ys items)
  case 0
  then show ?case by (subst export_loop.simps) (simp add: EXPORT_LIMIT_def)
next
  case (Suc n)
  let ?list = "\<lambda>ps. logs_list (cx_loads cx) (pf_render pf) (pf_float pf) now ps d"
  have dfound: "distinct (map lg_id found)" using dist by (simp add: found distinct_map_filter)
  show ?case
  proof (cases "10000 \<le> length items")
    case True
    then show ?thesis by (subst export_loop.simps) (simp add: EXPORT_LIMIT_def)
  next
    case False
    let ?ps = "case raw of None \<Rightarrow> export_window pf now r | Some x \<Rightarrow> dict_set ''cursor'' [x] (export_window pf now r)"
    note page = log_pages.page_behind[OF dfound Suc.prems(2), of 200]
    have listed: "?list ?ps = Inr (run_log_query (pf_render pf) (window_query (now - r) now (map_option log_key cursor)) d)"
      by (simp add: logs_list_def parse_export_page[OF reads r Suc.prems(1)])
    show ?thesis
    proof (cases "200 < length ys")
      case True
      let ?l = "ys ! 199"
      have last: "last (take 200 ys) = ?l" using True by (subst last_conv_nth) auto
      have beh: "log_pages.behind found (map_option log_key (Some ?l)) (drop 200 ys)"
        using log_pages.behind_next[OF Suc.prems(2) True] by simp
      have "set ys \<subseteq> set (log_order found)" using Suc.prems(2) by (auto simp: log_pages.behind_def)
      then have "?l \<in> set (log_order found)" using True by auto
      then have l: "?l \<in> set (db_logs d)" by (simp add: log_order_def found)
      have step: "export_loop ?list (export_window pf now r) (Suc n) raw items
          = export_loop ?list (export_window pf now r) n (Some (encode_cursor (pf_render pf) (log_key_json ?l))) (items @ take 200 ys)"
        using False True by (subst export_loop.simps) (simp add: EXPORT_LIMIT_def listed run_window found[symmetric] page last)
      have "10000 \<le> length (items @ take 200 ys) + 200 * n" using Suc.prems(3) True by simp
      then show ?thesis unfolding step
        using Suc.IH[where cursor = "Some ?l" and raw = "Some (encode_cursor (pf_render pf) (log_key_json ?l))"
            and ys = "drop 200 ys" and items = "items @ take 200 ys"] l beh by simp
    next
      case short: False
      then show ?thesis
        using False by (subst export_loop.simps) (simp add: EXPORT_LIMIT_def listed run_window found[symmetric] page)
    qed
  qed
qed

text \<open>C26: The export is the window. For a known range token the loop stops within its fuel and the body
  holds, one JSON object per line, exactly the newest 10 000 lines that are not older than the
  range, newest first, however many pages that takes.\<close>

theorem export_is_the_window:
  assumes "export_token rq = Inr token" "parse_range token = Inr r" "reads_logs_back cx pf (cn_work s)"
    and "distinct (map lg_id (db_logs (cn_work s)))"
  shows "\<exists>items. export_logs cx pf rq s = Some (Inr (export_response pf token items), conn_close s)
    \<and> take 10000 items = take 10000 (log_order (filter (\<lambda>l. cx_now cx - r \<le> ll_ts l \<and> ll_ts l < cx_now cx) (db_logs (cn_work s))))"
proof -
  let ?found = "filter (log_matches (window_query (cx_now cx - r) (cx_now cx) None)) (db_logs (cn_work s))"
  have r: "0 < r" using assms(2) by (auto simp: parse_range_def RANGE_SECONDS_def split: option.splits if_splits)
  have m: "log_matches (window_query (cx_now cx - r) (cx_now cx) None) = (\<lambda>l. cx_now cx - r \<le> ll_ts l \<and> ll_ts l < cx_now cx)"
    by (auto simp: log_matches_def window_query_def in_range_def sql_eq_def fun_eq_iff)
  have b: "log_pages.behind ?found (map_option log_key None) (log_order ?found)" by (simp add: log_pages.behind_def)
  obtain out where "export_loop (\<lambda>ps. logs_list (cx_loads cx) (pf_render pf) (pf_float pf) (cx_now cx) ps (cn_work s))
      (export_window pf (cx_now cx) r) EXPORT_FUEL None [] = Some (Inr out)" "take 10000 out = take 10000 (log_order ?found)"
    using export_walk[OF assms(3) r assms(4) refl, where cursor = None and raw = None and ys = "log_order ?found" and items = "[]" and fuel = EXPORT_FUEL
        and now = "cx_now cx"] b
    by (auto simp: EXPORT_FUEL_def)
  then show ?thesis by (intro exI[of _ out]) (simp add: export_logs_def assms(1,2) export_items_def m)
qed

definition demo_log :: "nat \<Rightarrow> pyfloat \<Rightarrow> log_row" where
  "demo_log i t = \<lparr>ll_ts = t, ll_level = ''info'', ll_source = ''http'', ll_trace_id = None, ll_message = ''m'', lg_id = i\<rparr>"

definition logs_state :: app_state where
  "logs_state = \<lparr>cn_committed = empty_db\<lparr>db_logs := [demo_log 1 5, demo_log 2 7]\<rparr>, cn_work = empty_db\<lparr>db_logs := [demo_log 1 5, demo_log 2 7]\<rparr>,
     as_backoff = new_backoff 5 900, as_buckets = []\<rparr>"

text \<open>A platform that reads back what it writes: a rational as numerator and denominator.\<close>

definition frac_platform :: platform where
  "frac_platform = \<lparr>pf_float = (\<lambda>s. case frac_value s of Some q \<Rightarrow> Finite q | None \<Rightarrow> NotFloat), pf_render = frac_text, pf_affinity = (\<lambda>_. None)\<rparr>"

definition logs_ctx :: ctx where
  "logs_ctx = (traces_ctx JNull)\<lparr>cx_loads := (\<lambda>b. case find (\<lambda>l. json_dumps frac_text (log_key_json l) = b) [demo_log 1 5, demo_log 2 7] of
     None \<Rightarrow> Inl ''bad'' | Some l \<Rightarrow> Inr (log_key_json l))\<rparr>"

definition export_rq :: request where
  "export_rq = \<lparr>rq_method = ''GET'', rq_path = ''/api/v1/logs/export'', rq_query = [(''format'', [''jsonl''])], rq_headers = [], rq_body = [],
     rq_id = ''r1'', rq_client_ip = ''ip''\<rparr>"

theorem export_is_the_window_witness:
  "\<exists>items s'. export_logs logs_ctx frac_platform export_rq logs_state = Some (Inr (export_response frac_platform ''1h'' items), s')
     \<and> map lg_id (take 10000 items) = [2, 1]"
proof -
  have t: "export_token export_rq = Inr ''1h''" "parse_range ''1h'' = Inr 3600" by code_simp+
  have ne: "frac_text q \<noteq> []" for q by (simp add: frac_text_def split: prod.splits)
  have "list_all (\<lambda>l. cx_loads logs_ctx (json_dumps frac_text (log_key_json l)) = Inr (log_key_json l) \<and> lg_id l < 9) (db_logs (cn_work logs_state))"
    by code_simp
  then have r: "reads_logs_back logs_ctx frac_platform (cn_work logs_state)"
    by (auto simp: reads_logs_back_def frac_platform_def frac_round ne reads_back_def list_all_iff intro: less_trans)
  have d: "distinct (map lg_id (db_logs (cn_work logs_state)))" by (simp add: logs_state_def demo_log_def)
  have "map lg_id (log_order (filter (\<lambda>l. cx_now logs_ctx - 3600 \<le> ll_ts l \<and> ll_ts l < cx_now logs_ctx) (db_logs (cn_work logs_state)))) = [2, 1]"
    by code_simp
  then have "map lg_id (take 10000 (log_order (filter (\<lambda>l. cx_now logs_ctx - 3600 \<le> ll_ts l \<and> ll_ts l < cx_now logs_ctx) (db_logs (cn_work logs_state))))) = [2, 1]"
    by (simp add: take_map[symmetric])
  then show ?thesis using export_is_the_window[OF t r d] by metis
qed

end
