(* ===== verification/Api_Audit.thy ===== *)
theory Api_Audit
  imports Api_Logs
begin

text \<open>
  Models \<open>layawatch/api/audit.py\<close>: the gated keyset list of the audit log, newest first, with its own
  filter escaping and cursor decoding. The meta column holds the value it was written from.
\<close>

definition AUDIT_PARAMS :: "string list" where
  "AUDIT_PARAMS = [''actor'', ''action'', ''since'', ''until'', ''range'', ''limit'', ''cursor'']"

type_synonym audit_key = "pyfloat \<times> int"

record audit_query =
  aq_window :: window
  aq_limit :: int
  aq_actor :: "string option"
  aq_action :: "string option"
  aq_cursor :: "audit_key option"

definition parse_audit_query :: "ctx \<Rightarrow> platform \<Rightarrow> request \<Rightarrow> exn + audit_query" where
  "parse_audit_query cx pf rq =
     (let ps = rq_query rq in
      res_bind (query_result (reject_unknown ps AUDIT_PARAMS)) (\<lambda>_.
      res_bind (query_result (resolve_window (pf_float pf) (cx_now cx) ps)) (\<lambda>w.
      res_bind (query_result (parse_limit (first_value ps ''limit'') DEFAULT_LIMIT)) (\<lambda>limit.
      res_bind (case opt_value ps ''cursor'' of None \<Rightarrow> Inr None
          | Some raw \<Rightarrow> res_bind (decode_audit_cursor (cx_loads cx) raw) (\<lambda>k. Inr (Some k))) (\<lambda>cursor.
        Inr \<lparr>aq_window = w, aq_limit = limit, aq_actor = opt_value ps ''actor'', aq_action = opt_value ps ''action'',
             aq_cursor = cursor\<rparr>)))))"

definition audit_matches :: "audit_query \<Rightarrow> audit_row \<Rightarrow> bool" where
  "audit_matches q a \<longleftrightarrow> in_range (aq_window q) (au_ts a)
     \<and> (case aq_actor q of None \<Rightarrow> True | Some v \<Rightarrow> like_match (audit_pattern v) (au_actor a))
     \<and> sql_eq (aq_action q) (Some (au_action a))"

definition audit_key :: "audit_row \<Rightarrow> audit_key" where
  "audit_key a = (au_ts a, int (au_id a))"

definition audit_order :: "audit_row list \<Rightarrow> audit_row list" where
  "audit_order rows = rev (sort_key audit_key rows)"

definition audit_after :: "audit_key \<Rightarrow> audit_row \<Rightarrow> bool" where
  "audit_after k a \<longleftrightarrow> au_ts a < fst k \<or> au_ts a = fst k \<and> int (au_id a) < snd k"

definition audit_key_json :: "audit_key \<Rightarrow> json" where
  "audit_key_json k = JObj [(''k'', JArr [JFloat (fst k), JInt (snd k)])]"

definition audit_json :: "audit_row \<Rightarrow> json" where
  "audit_json a = JObj [(''id'', JInt (int (au_id a))), (''ts'', JFloat (au_ts a)), (''actor_id'', json_opt_str (au_actor_id a)),
     (''actor'', JStr (au_actor a)), (''action'', JStr (au_action a)), (''target'', json_opt_str (au_target a)),
     (''result'', JStr (au_result a)), (''meta'', case au_meta a of None \<Rightarrow> JNull | Some m \<Rightarrow> m)]"

record audit_page =
  ap_items :: "audit_row list"
  ap_next :: "string option"
  ap_total :: nat

text \<open>An integer key beyond 64 bits fails when the statement binds it.\<close>

definition run_audit_query :: "(pyfloat \<Rightarrow> string) \<Rightarrow> audit_query \<Rightarrow> db \<Rightarrow> exn + audit_page" where
  "run_audit_query fr q d =
     (if (case aq_cursor q of None \<Rightarrow> False | Some k \<Rightarrow> \<not> sqlite_int (snd k)) then Inl (PyExc OverflowError)
      else let found = filter (audit_matches q) (db_audit d);
               (page, more) = keyset_page audit_order audit_after audit_key (nat (aq_limit q)) (aq_cursor q) found in
        Inr \<lparr>ap_items = page, ap_next = map_option (\<lambda>k. encode_cursor fr (audit_key_json k)) more, ap_total = length found\<rparr>)"

definition list_audit :: "ctx \<Rightarrow> platform \<Rightarrow> request \<Rightarrow> response api" where
  "list_audit cx pf rq =
     act_bind (act_lift (parse_audit_query cx pf rq)) (\<lambda>q.
     act_bind (with_conn (act_bind (app_gate cx rq (Some ''audit.read'') None None) (\<lambda>_.
       act_bind (db_query (run_audit_query (pf_render pf) q)) act_lift))) (\<lambda>pg.
     act_return (json_response (page_json (map audit_json (ap_items pg)) (ap_next pg) (ap_total pg)) 200 [])))"

section \<open>The audit list is a keyset list\<close>

lemma audit_after_lex: "audit_after (audit_key r) = (\<lambda>a. audit_key a < audit_key r)"
  by (auto simp: audit_after_def audit_key_def less_prod_def fun_eq_iff)

interpretation audit_pages: keyset audit_order audit_after audit_key "\<lambda>rows. distinct (map au_id rows)"
proof unfold_locales
  fix P rows
  show "audit_order (filter P rows) = filter P (audit_order rows)" by (simp add: audit_order_def filter_rev_sort)
  show "length (audit_order rows) = length rows" by (simp add: audit_order_def)
next
  fix rows xs r ys
  assume d: "distinct (map au_id rows)" and o: "audit_order rows = xs @ r # ys"
  have "distinct (map audit_key rows)" using d by (auto simp: distinct_map inj_on_def audit_key_def)
  from descending_after[OF this, of xs r ys] o
  show "filter (audit_after (audit_key r)) (audit_order rows) = ys" by (simp add: audit_order_def audit_after_lex)
qed

text \<open>A client that repeats its query with the cursor of each answer.\<close>

lemma audit_cursor_roundtrip:
  assumes "reads_back (cx_loads cx) fr (audit_key_json k)"
  shows "decode_audit_cursor (cx_loads cx) (encode_cursor fr (audit_key_json k)) = Inr k"
  using decode_audit_cursor_roundtrip[of "cx_loads cx" fr "fst k" "snd k"] assms by (simp add: audit_key_json_def)

text \<open>What a client that holds the cursor has still to see.\<close>

definition audit_rest :: "audit_row list \<Rightarrow> audit_key option \<Rightarrow> audit_row list \<Rightarrow> bool" where
  "audit_rest rows cursor rest \<longleftrightarrow> (cursor = None \<and> audit_order rows = rest)
     \<or> (\<exists>xs r. cursor = Some (audit_key r) \<and> audit_order rows = xs @ r # rest)"

lemma audit_rest_behind: "audit_rest = audit_pages.behind"
  by (simp add: audit_rest_def audit_pages.behind_def fun_eq_iff)

text \<open>The audit log is read only by callers the gate admits with a role that may read it, and a page is
  exact: the answer holds the newest matching rows behind the cursor, up to the limit, with the total
  of the matching rows; when rows are left, its cursor decodes to the key of the last row shown, and
  the matching rows behind that key are exactly the ones not yet shown.\<close>

theorem audit_pages_are_gated_and_exact:
  assumes "list_audit cx pf rq s = (Inr resp, s')" "parse_audit_query cx pf rq = Inr q"
    and "app_gate cx rq (Some ''audit.read'') None None s = (Inr p, s1)"
    and "audit_rest (filter (audit_matches q) (db_audit (cn_work s1))) (aq_cursor q) rest"
    and "distinct (map au_id (db_audit (cn_work s1)))" "1 \<le> aq_limit q"
    and "\<forall>a \<in> set (db_audit (cn_work s1)). reads_back (cx_loads cx) (pf_render pf) (audit_key_json (audit_key a))"
  shows "role_allows (pr_role p) ''audit.read''
    \<and> (\<exists>cursor. resp = json_response (page_json (map audit_json (take (nat (aq_limit q)) rest)) cursor
          (length (filter (audit_matches q) (db_audit (cn_work s1))))) 200 []
      \<and> (cursor = None \<longleftrightarrow> length rest \<le> nat (aq_limit q))
      \<and> (\<forall>c. cursor = Some c \<longrightarrow> decode_audit_cursor (cx_loads cx) c = Inr (audit_key (rest ! (nat (aq_limit q) - 1)))
          \<and> audit_rest (filter (audit_matches q) (db_audit (cn_work s1))) (Some (audit_key (rest ! (nat (aq_limit q) - 1))))
              (drop (nat (aq_limit q)) rest)))"
proof -
  let ?rows = "filter (audit_matches q) (db_audit (cn_work s1))" and ?n = "nat (aq_limit q)"
  have d: "distinct (map au_id ?rows)" using assms(5) by (simp add: distinct_map_filter)
  note rest = assms(4)[unfolded audit_rest_behind]
  note page = audit_pages.page_behind[OF d rest, of ?n]
  obtain pg where pg: "run_audit_query (pf_render pf) q (cn_work s1) = Inr pg"
    and resp: "resp = json_response (page_json (map audit_json (ap_items pg)) (ap_next pg) (ap_total pg)) 200 []"
    using assms(1) by (auto simp: list_audit_def act_bind_lift assms(2) act_bind_def[of "with_conn _"] with_conn_run app_gate_bind assms(3)
        act_simps split: sum.splits)
  have pn: "ap_items pg = take ?n rest" "ap_total pg = length ?rows"
    "ap_next pg = (if ?n < length rest then Some (encode_cursor (pf_render pf) (audit_key_json (audit_key (rest ! (?n - 1))))) else None)"
    using pg assms(6) by (auto simp: run_audit_query_def page Let_def split: if_splits)
  have beh: "audit_rest ?rows (Some (audit_key (rest ! (?n - 1)))) (drop ?n rest)" if "?n < length rest"
    unfolding audit_rest_behind using audit_pages.behind_next[OF rest that] assms(6) by simp
  have dec: "decode_audit_cursor (cx_loads cx) (encode_cursor (pf_render pf) (audit_key_json (audit_key (rest ! (?n - 1)))))
      = Inr (audit_key (rest ! (?n - 1)))" if "?n < length rest"
  proof (rule audit_cursor_roundtrip)
    have "set rest \<subseteq> set (audit_order ?rows)" using assms(4) by (auto simp: audit_rest_def)
    moreover have "rest ! (?n - 1) \<in> set rest" using that by simp
    ultimately have "rest ! (?n - 1) \<in> set (db_audit (cn_work s1))" by (auto simp: audit_order_def)
    then show "reads_back (cx_loads cx) (pf_render pf) (audit_key_json (audit_key (rest ! (?n - 1))))" using assms(7) by blast
  qed
  show ?thesis using gate_admits_role[OF assms(3)] beh dec by (auto simp: resp pn)
qed

definition audit_db :: db where
  "audit_db = audit_entry 7 ''b'' ''key.created'' None None ''ok'' None (audit_entry 5 ''a'' ''user.updated'' None None ''ok'' None two_owners)"

definition audit_state :: app_state where
  "audit_state = \<lparr>cn_committed = audit_db, cn_work = audit_db, as_backoff = new_backoff 5 900, as_buckets = []\<rparr>"

definition audit_rq :: request where
  "audit_rq = (demo_request ''GET'' ''/api/v1/audit'' [(''cookie'', ''lw_session=1'')])\<lparr>rq_query := [(''limit'', [''1''])]\<rparr>"

definition audit_ctx :: ctx where
  "audit_ctx = (traces_ctx JNull)\<lparr>cx_loads := (\<lambda>b. case find (\<lambda>k. json_dumps frac_text (audit_key_json k) = b) [(5, 1), (7, 2)] of
     None \<Rightarrow> Inl ''bad'' | Some k \<Rightarrow> Inr (audit_key_json k))\<rparr>"

theorem audit_pages_are_gated_and_exact_witness:
  "\<exists>resp s' cursor a. list_audit audit_ctx frac_platform audit_rq audit_state = (Inr resp, s')
     \<and> au_id a = 2 \<and> resp = json_response (page_json [audit_json a] (Some cursor) 2) 200 []
     \<and> decode_audit_cursor (cx_loads audit_ctx) cursor = Inr (7, 2)"
proof -
  let ?p = "session_principal (demo_session ''s1'' ''a'') (demo_user ''a'' ''owner'')"
  let ?q = "\<lparr>aq_window = (None, None), aq_limit = 1, aq_actor = None, aq_action = None, aq_cursor = None\<rparr>"
  have q: "parse_audit_query audit_ctx frac_platform audit_rq = Inr ?q" by code_simp
  have g: "app_gate audit_ctx audit_rq (Some ''audit.read'') None None audit_state = (Inr ?p, audit_state)" by code_simp
  have rows: "db_audit (cn_work audit_state) =
      [\<lparr>au_id = 1, au_ts = 5, au_actor_id = None, au_actor = ''a'', au_action = ''user.updated'', au_target = None, au_result = ''ok'', au_meta = None\<rparr>,
       \<lparr>au_id = 2, au_ts = 7, au_actor_id = None, au_actor = ''b'', au_action = ''key.created'', au_target = None, au_result = ''ok'', au_meta = None\<rparr>]"
    by (simp add: audit_state_def audit_db_def audit_entry_def two_owners_def empty_db_def)
  have found: "filter (audit_matches ?q) (db_audit (cn_work audit_state)) = db_audit (cn_work audit_state)"
    by (simp add: rows audit_matches_def in_range_def sql_eq_def)
  have ord: "audit_order (db_audit (cn_work audit_state)) = [db_audit (cn_work audit_state) ! 1, db_audit (cn_work audit_state) ! 0]"
    by (simp add: rows audit_order_def audit_key_def less_prod_def)
  have rest: "audit_rest (filter (audit_matches ?q) (db_audit (cn_work audit_state))) (aq_cursor ?q)
      [db_audit (cn_work audit_state) ! 1, db_audit (cn_work audit_state) ! 0]"
    unfolding found by (simp add: audit_rest_def ord)
  have "list_all (\<lambda>k. cx_loads audit_ctx (json_dumps frac_text (audit_key_json k)) = Inr (audit_key_json k)) [(5, 1), (7, 2)]" by code_simp
  then have rb: "\<forall>a \<in> set (db_audit (cn_work audit_state)). reads_back (cx_loads audit_ctx) (pf_render frac_platform) (audit_key_json (audit_key a))"
    by (simp add: rows reads_back_def frac_platform_def audit_key_def)
  have d: "distinct (map au_id (db_audit (cn_work audit_state)))" by (simp add: rows)
  have "case fst (list_audit audit_ctx frac_platform audit_rq audit_state) of Inl e \<Rightarrow> False | Inr r \<Rightarrow> True" by code_simp
  then obtain resp s' where r: "list_audit audit_ctx frac_platform audit_rq audit_state = (Inr resp, s')"
    by (metis old.sum.simps(5) prod.collapse sum.exhaust)
  obtain cursor where c: "resp = json_response (page_json [audit_json (db_audit (cn_work audit_state) ! 1)] cursor 2) 200 []"
      "\<forall>c. cursor = Some c \<longrightarrow> decode_audit_cursor (cx_loads audit_ctx) c = Inr (7, 2)" "cursor \<noteq> None"
    using audit_pages_are_gated_and_exact[OF r q g rest d _ rb] unfolding found by (auto simp: rows audit_key_def numeral_2_eq_2)
  then show ?thesis
    by (intro exI[of _ resp] exI[of _ s'] exI[of _ "the cursor"] exI[of _ "db_audit (cn_work audit_state) ! 1"]) (auto simp: r rows)
qed

end
