(* ===== verification/Api_Keys.thy ===== *)
theory Api_Keys
  imports Api_Users
begin

text \<open>
  Models \<open>layawatch/api/keys.py\<close>: listing, creation, rotation with its grace, revocation,
  per-key limits and the arming switch, handler by handler. The random draws of a fresh
  secret and the key id come from the call context.
\<close>

definition GRACE_SECONDS :: pyfloat where
  "GRACE_SECONDS = 300"

definition KEYS_PREFIX :: string where
  "KEYS_PREFIX = ''/api/v1/keys/''"

definition NOTE_ONCE :: string where
  "NOTE_ONCE = ''store this key now; it is not shown again''"

definition LIMIT_FIELDS :: "string list" where
  "LIMIT_FIELDS = [''rate_limit_per_min'', ''burst'']"

section \<open>Rows\<close>

definition fetch_key :: "string \<Rightarrow> db \<Rightarrow> api_key option" where
  "fetch_key kid d = find (\<lambda>k. ak_id k = kid) (db_keys d)"

definition load_key :: "string \<Rightarrow> api_key api" where
  "load_key kid =
     act_bind (db_query (fetch_key kid)) (\<lambda>r.
       case r of None \<Rightarrow> act_raise (http_err 404 ''not_found'' (''key '' @ kid @ '' not found'') None)
       | Some k \<Rightarrow> act_return k)"

definition map_key :: "string \<Rightarrow> (api_key \<Rightarrow> api_key) \<Rightarrow> db \<Rightarrow> db" where
  "map_key kid f d = d\<lparr>db_keys := map (\<lambda>k. if ak_id k = kid then f k else k) (db_keys d)\<rparr>"

definition has_active_key :: "db \<Rightarrow> bool" where
  "has_active_key d \<longleftrightarrow> (\<exists>k \<in> set (db_keys d). ak_revoked_at k = None)"

definition key_payload :: "api_key \<Rightarrow> json" where
  "key_payload k =
     JObj [(''id'', JStr (ak_id k)), (''name'', JStr (ak_name k)), (''prefix'', JStr (ak_prefix k)),
       (''created'', JFloat (ak_created_at k)), (''last_used'', json_opt_float (ak_last_used k)),
       (''request_count'', JInt (ak_request_count k)), (''revoked'', JBool (ak_revoked_at k \<noteq> None)),
       (''rate_limit_per_min'', json_opt_int (ak_rate_limit k)), (''burst'', json_opt_int (ak_burst k))]"

text \<open>The three UPDATE statements.\<close>

definition revoke_row :: "pyfloat \<Rightarrow> api_key \<Rightarrow> api_key" where
  "revoke_row now k = k\<lparr>ak_revoked_at := Some now, ak_prev_hash := None, ak_prev_prefix := None,
     ak_prev_expires_at := None\<rparr>"

definition rotate_row :: "pyfloat \<Rightarrow> string \<Rightarrow> string \<Rightarrow> api_key \<Rightarrow> api_key" where
  "rotate_row now h pre k = k\<lparr>ak_prev_hash := Some (ak_hash k), ak_prev_prefix := Some (ak_prefix k),
     ak_prev_expires_at := Some (now + GRACE_SECONDS), ak_hash := h, ak_prefix := pre\<rparr>"

definition limit_row :: "int option \<Rightarrow> int option \<Rightarrow> api_key \<Rightarrow> api_key" where
  "limit_row l b k = k\<lparr>ak_rate_limit := l, ak_burst := b\<rparr>"

section \<open>Validation\<close>

definition limit_field :: "string \<Rightarrow> (string \<times> json) list \<Rightarrow> exn + int option" where
  "limit_field field payload =
     (let bad = Inl (bad_field field (quoted field @ '' must be a non-negative integer or null'')) in
      case map_of payload field of
        None \<Rightarrow> Inr None
      | Some v \<Rightarrow> (case v of JNull \<Rightarrow> Inr None | JInt i \<Rightarrow> if i < 0 then bad else Inr (Some i) | _ \<Rightarrow> bad))"

definition key_limits :: "(string \<times> json) list \<Rightarrow> exn + (int option \<times> int option)" where
  "key_limits payload =
     res_bind (limit_field ''rate_limit_per_min'' payload) (\<lambda>l.
     res_bind (limit_field ''burst'' payload) (\<lambda>b. Inr (l, b)))"

definition patch_limits :: "(string \<times> json) list \<Rightarrow> exn + (int option \<times> int option)" where
  "patch_limits payload =
     (case filter (\<lambda>k. k \<notin> set LIMIT_FIELDS) (map fst payload) of
        k # _ \<Rightarrow> Inl (bad_field k (''unknown field '' @ py_repr k))
      | [] \<Rightarrow>
          if \<not> (\<exists>f \<in> set LIMIT_FIELDS. map_of payload f \<noteq> None)
          then Inl (bad_field ''rate_limit_per_min'' ''no limit fields to update'')
          else key_limits payload)"

text \<open>The name as given, and the limits.\<close>

definition create_fields :: "ctx \<Rightarrow> request \<Rightarrow> exn + (string \<times> int option \<times> int option)" where
  "create_fields cx rq =
     res_bind (request_object (cx_loads cx) rq) (\<lambda>payload.
       case jget payload ''name'' of
         JStr n \<Rightarrow>
           if py_strip n = [] then Inl (bad_field ''name'' (quoted ''name'' @ '' is required''))
           else map_sum id (Pair n) (key_limits payload)
       | _ \<Rightarrow> Inl (bad_field ''name'' (quoted ''name'' @ '' is required'')))"

section \<open>Handlers\<close>

definition list_keys :: "ctx \<Rightarrow> request \<Rightarrow> response api" where
  "list_keys cx rq =
     act_bind (act_lift (reject_unknown_query rq)) (\<lambda>_.
     act_bind (with_conn (act_bind (app_gate cx rq (Some ''keys.list'') None None)
        (\<lambda>_. db_query (\<lambda>d. sort_key (\<lambda>k. (- ak_created_at k, ak_id k)) (db_keys d))))) (\<lambda>rows.
     act_return (items_page (map key_payload rows))))"

text \<open>A primary-key clash is an IntegrityError no handler catches.\<close>

definition insert_key :: "api_key \<Rightarrow> unit api" where
  "insert_key k =
     act_bind (db_query (\<lambda>d. \<exists>x \<in> set (db_keys d). ak_id x = ak_id k)) (\<lambda>clash.
       if clash then act_raise (PyExc IntegrityError)
       else db_exec (\<lambda>d. d\<lparr>db_keys := db_keys d @ [k]\<rparr>))"

definition create_key :: "ctx \<Rightarrow> request \<Rightarrow> response api" where
  "create_key cx rq =
     act_bind (act_lift (create_fields cx rq)) (\<lambda>(name, limit, burst).
     (let secret = generate_secret (cx_draws cx) in
     act_bind (with_conn
       (act_bind (app_gate cx rq (Some ''keys.write'') (Some ''key.created'') None) (\<lambda>p.
        act_bind (insert_key
          \<lparr>ak_id = cx_uid cx, ak_name = take 120 (py_strip name), ak_prefix = prefix_of secret,
           ak_hash = hash_secret (cx_crypto cx) secret (cx_pepper cx), ak_created_at = cx_now cx,
           ak_last_used = None, ak_revoked_at = None, ak_request_count = 0, ak_rate_limit = limit,
           ak_burst = burst, ak_prev_hash = None, ak_prev_prefix = None, ak_prev_expires_at = None\<rparr>) (\<lambda>_.
        act_bind (audit (cx_now cx) (pr_actor p) ''key.created'' (pr_actor_id p) (Some (cx_uid cx)) ''ok''
          (Some (JObj [(''name'', JStr (py_strip name)), (''prefix'', JStr (prefix_of secret))]))) (\<lambda>_.
        db_commit))))) (\<lambda>_.
     act_return (json_response (JObj
       [(''id'', JStr (cx_uid cx)), (''name'', JStr (py_strip name)), (''key'', JStr secret),
        (''prefix'', JStr (prefix_of secret)), (''rate_limit_per_min'', json_opt_int limit),
        (''burst'', json_opt_int burst), (''note'', JStr NOTE_ONCE)]) 200 []))))"

definition revoke_key :: "ctx \<Rightarrow> request \<Rightarrow> string \<Rightarrow> response api" where
  "revoke_key cx rq kid =
     act_bind (with_conn
       (act_bind (app_gate cx rq (Some ''keys.write'') (Some ''key.revoked'') (Some kid)) (\<lambda>p.
        act_bind (load_key kid) (\<lambda>row.
        act_bind (act_when (ak_revoked_at row = None)
          (act_bind (db_exec (map_key kid (revoke_row (cx_now cx)))) (\<lambda>_.
           audit (cx_now cx) (pr_actor p) ''key.revoked'' (pr_actor_id p) (Some kid) ''ok''
             (Some (JObj [(''name'', JStr (ak_name row)), (''prefix'', JStr (ak_prefix row))]))))) (\<lambda>_.
        db_commit))))) (\<lambda>_.
     act_return (json_response (JObj [(''id'', JStr kid), (''revoked'', JBool True)]) 200 []))"

definition rotate_key :: "ctx \<Rightarrow> request \<Rightarrow> string \<Rightarrow> response api" where
  "rotate_key cx rq kid =
     (let secret = generate_secret (cx_draws cx) in
     act_bind (with_conn
       (act_bind (app_gate cx rq (Some ''keys.write'') (Some ''key.rotated'') (Some kid)) (\<lambda>p.
        act_bind (load_key kid) (\<lambda>row.
          if ak_revoked_at row \<noteq> None
          then act_raise (http_err 400 ''invalid_request'' ''cannot rotate a revoked key'' None)
          else
            act_bind (db_exec (map_key kid (rotate_row (cx_now cx)
              (hash_secret (cx_crypto cx) secret (cx_pepper cx)) (prefix_of secret)))) (\<lambda>_.
            act_bind (audit (cx_now cx) (pr_actor p) ''key.rotated'' (pr_actor_id p) (Some kid) ''ok''
              (Some (JObj [(''prefix'', JStr (prefix_of secret)), (''grace_seconds'', JInt 300)]))) (\<lambda>_.
            db_commit)))))) (\<lambda>_.
     act_return (json_response (JObj
       [(''id'', JStr kid), (''key'', JStr secret), (''prefix'', JStr (prefix_of secret)),
        (''grace'', JInt 300), (''note'', JStr NOTE_ONCE)]) 200 [])))"

definition limits_json :: "int option \<Rightarrow> int option \<Rightarrow> (string \<times> json) list" where
  "limits_json l b = [(''rate_limit_per_min'', json_opt_int l), (''burst'', json_opt_int b)]"

definition set_limits :: "ctx \<Rightarrow> request \<Rightarrow> string \<Rightarrow> response api" where
  "set_limits cx rq kid =
     act_bind (act_lift (res_bind (request_object (cx_loads cx) rq) patch_limits)) (\<lambda>(l, b).
     act_bind (with_conn
       (act_bind (app_gate cx rq (Some ''keys.write'') (Some ''ratelimit.updated'') (Some (''key:'' @ kid))) (\<lambda>p.
        act_bind (load_key kid) (\<lambda>row.
        act_bind (db_exec (map_key kid (limit_row l b))) (\<lambda>_.
        act_bind (audit (cx_now cx) (pr_actor p) ''ratelimit.updated'' (pr_actor_id p) (Some (''key:'' @ kid)) ''ok''
          (Some (JObj [(''before'', JObj (limits_json (ak_rate_limit row) (ak_burst row))),
             (''after'', JObj (limits_json l b))]))) (\<lambda>_.
        db_commit)))))) (\<lambda>_.
     act_return (json_response (JObj ((''id'', JStr kid) # limits_json l b)) 200 [])))"

definition get_auth_state :: "ctx \<Rightarrow> request \<Rightarrow> response api" where
  "get_auth_state cx rq =
     act_bind (act_lift (reject_unknown_query rq)) (\<lambda>_.
     act_bind (with_conn (act_bind (app_gate cx rq (Some ''keys.read_auth'') None None) (\<lambda>_. db_query auth_armed))) (\<lambda>on.
     act_return (json_response (JObj [(''enabled'', JBool on)]) 200 [])))"

definition enabled_field :: "ctx \<Rightarrow> request \<Rightarrow> exn + bool" where
  "enabled_field cx rq =
     res_bind (request_object (cx_loads cx) rq) (\<lambda>payload.
       case jget payload ''enabled'' of
         JBool b \<Rightarrow> Inr b
       | _ \<Rightarrow> Inl (bad_field ''enabled'' (quoted ''enabled'' @ '' must be true or false'')))"

definition set_auth_state :: "ctx \<Rightarrow> request \<Rightarrow> response api" where
  "set_auth_state cx rq =
     act_bind (act_lift (enabled_field cx rq)) (\<lambda>on.
     act_bind (with_conn
       (act_bind (app_gate cx rq (Some ''keys.write'') (Some ''key.auth_changed'') (Some ''keys.auth'')) (\<lambda>p.
        act_bind (db_query has_active_key) (\<lambda>active.
          if on \<and> \<not> active
          then act_raise (bad_field ''enabled'' ''cannot arm key auth without at least one active key'')
          else
            act_bind (db_exec (put_setting AUTH_SETTINGS_KEY (if on then ''true'' else ''false'') (cx_now cx)
              (Some (pr_actor p)))) (\<lambda>_.
            act_bind (audit (cx_now cx) (pr_actor p) ''key.auth_changed'' (pr_actor_id p) (Some ''keys.auth'') ''ok''
              (Some (JObj [(''enabled'', JBool on)]))) (\<lambda>_.
            db_commit)))))) (\<lambda>_.
     act_return (json_response (JObj [(''enabled'', JBool on)]) 200 [])))"

section \<open>Routes\<close>

definition delete_by_path :: "ctx \<Rightarrow> request \<Rightarrow> response api" where
  "delete_by_path cx rq =
     (case path_parts KEYS_PREFIX rq of
        [kid] \<Rightarrow> if kid = [] then act_raise (unmatched rq) else revoke_key cx rq kid
      | _ \<Rightarrow> act_raise (unmatched rq))"

definition delete_by_body :: "ctx \<Rightarrow> request \<Rightarrow> response api" where
  "delete_by_body cx rq =
     act_bind (act_lift (res_bind (request_object (cx_loads cx) rq) (\<lambda>payload.
        valid_password ''id'' (jget payload ''id'')))) (\<lambda>kid. revoke_key cx rq kid)"

definition post_wildcard :: "ctx \<Rightarrow> request \<Rightarrow> response api" where
  "post_wildcard cx rq =
     (case path_parts KEYS_PREFIX rq of
        [kid, leaf] \<Rightarrow> if kid \<noteq> [] \<and> leaf = ''rotate'' then rotate_key cx rq kid else act_raise (unmatched rq)
      | _ \<Rightarrow> act_raise (unmatched rq))"

definition patch_key :: "ctx \<Rightarrow> request \<Rightarrow> response api" where
  "patch_key cx rq =
     (case path_parts KEYS_PREFIX rq of
        [kid] \<Rightarrow> if kid = [] then act_raise (unmatched rq) else set_limits cx rq kid
      | _ \<Rightarrow> act_raise (unmatched rq))"

section \<open>Rotation and revocation\<close>

lemma fetch_key_Some: "fetch_key kid d = Some k \<Longrightarrow> k \<in> set (db_keys d) \<and> ak_id k = kid"
  unfolding fetch_key_def by (drule find_Some_in) simp

text \<open>A secret the row grants by its current digest.\<close>

definition current_secret :: "crypto \<Rightarrow> string \<Rightarrow> string \<Rightarrow> api_key \<Rightarrow> bool" where
  "current_secret cr pepper s k \<longleftrightarrow> ak_revoked_at k = None \<and> ak_prefix k = prefix_of s
     \<and> ak_hash k \<in> {hash_secret cr s pepper, legacy_hash cr s}"

lemma rotated_grants:
  assumes "current_secret cr pepper old k" "ak_hash k \<noteq> []"
    and "hash_secret cr new pepper \<notin> {hash_secret cr old pepper, legacy_hash cr old}"
  shows "key_grants cr t pepper new (rotate_row now (hash_secret cr new pepper) (prefix_of new) k)"
    and "key_grants cr t pepper old (rotate_row now (hash_secret cr new pepper) (prefix_of new) k)
           \<longleftrightarrow> t < now + GRACE_SECONDS"
  using assms by (auto simp: key_grants_def rotate_row_def current_secret_def prefix_of_def)

lemma revoked_grants_nothing: "\<not> key_grants cr t pepper s (revoke_row now k)"
  by (simp add: key_grants_def revoke_row_def)

lemma load_key_run:
  "load_key kid s = (case fetch_key kid (cn_work s) of
     None \<Rightarrow> (Inl (http_err 404 ''not_found'' (''key '' @ kid @ '' not found'') None), s) | Some k \<Rightarrow> (Inr k, s))"
  by (simp add: load_key_def act_simps split: option.splits)

lemma load_key_bind:
  "act_bind (load_key kid) k s = (case fetch_key kid (cn_work s) of
     None \<Rightarrow> (Inl (http_err 404 ''not_found'' (''key '' @ kid @ '' not found'') None), s) | Some r \<Rightarrow> k r s)"
  by (simp add: act_bind_def load_key_run split: option.splits)

text \<open>What a rotation commits.\<close>

lemma rotate_key_commits:
  assumes "rotate_key cx rq kid s = (Inr resp, s')"
  shows "\<exists>p t k. app_gate cx rq (Some ''keys.write'') (Some ''key.rotated'') (Some kid) s = (Inr p, t)
    \<and> fetch_key kid (cn_work t) = Some k \<and> ak_revoked_at k = None
    \<and> db_keys (cn_committed s') = db_keys (map_key kid (rotate_row (cx_now cx)
         (hash_secret (cx_crypto cx) (generate_secret (cx_draws cx)) (cx_pepper cx))
         (prefix_of (generate_secret (cx_draws cx)))) (cn_work t))"
proof -
  obtain g t where g: "app_gate cx rq (Some ''keys.write'') (Some ''key.rotated'') (Some kid) s = (g, t)"
    by (cases "app_gate cx rq (Some ''keys.write'') (Some ''key.rotated'') (Some kid) s")
  show ?thesis
    using assms
    by (cases g; cases "fetch_key kid (cn_work t)")
      (auto simp: rotate_key_def Let_def act_bind_def[of "with_conn _"] with_conn_run app_gate_bind g load_key_bind
        act_simps act_raise_def split: if_splits)
qed

text \<open>C13: After a rotation the new secret is granted at any time, and the old one exactly until five
  minutes after the rotation: the row the handler commits carries both digests.\<close>

theorem rotation_keeps_the_old_secret_for_the_grace:
  assumes "rotate_key cx rq kid s = (Inr resp, s')"
    and "app_gate cx rq (Some ''keys.write'') (Some ''key.rotated'') (Some kid) s = (Inr p, t)"
    and "fetch_key kid (cn_work t) = Some k" "current_secret (cx_crypto cx) (cx_pepper cx) old k" "ak_hash k \<noteq> []"
    and "hash_secret (cx_crypto cx) (generate_secret (cx_draws cx)) (cx_pepper cx)
           \<notin> {hash_secret (cx_crypto cx) old (cx_pepper cx), legacy_hash (cx_crypto cx) old}"
  shows "\<exists>k' \<in> set (db_keys (cn_committed s')). ak_id k' = kid
    \<and> key_grants (cx_crypto cx) now (cx_pepper cx) (generate_secret (cx_draws cx)) k'
    \<and> (key_grants (cx_crypto cx) now (cx_pepper cx) old k' \<longleftrightarrow> now < cx_now cx + 300)"
proof -
  let ?new = "generate_secret (cx_draws cx)"
  let ?k = "rotate_row (cx_now cx) (hash_secret (cx_crypto cx) ?new (cx_pepper cx)) (prefix_of ?new) k"
  have "db_keys (cn_committed s') = db_keys (map_key kid (rotate_row (cx_now cx)
       (hash_secret (cx_crypto cx) ?new (cx_pepper cx)) (prefix_of ?new)) (cn_work t))"
    using rotate_key_commits[OF assms(1)] assms(2) by auto
  then have "?k \<in> set (db_keys (cn_committed s')) \<and> ak_id ?k = kid"
    using fetch_key_Some[OF assms(3)] by (auto simp: map_key_def rotate_row_def)
  then show ?thesis
    using rotated_grants[OF assms(4,5,6)] by (auto simp: GRACE_SECONDS_def)
qed

definition key_db :: db where
  "key_db = two_owners\<lparr>db_keys := [demo_key\<lparr>ak_prefix := ''lay_old0'', ak_hash := ''hPlay_old0''\<rparr>]\<rparr>"

text \<open>Creation time 50 in the demonstration context; the fresh secret draws 32 zeros.\<close>

definition key_ctx :: ctx where
  "key_ctx = \<lparr>cx_config = default_config, cx_crypto = toy_crypto, cx_pepper = ''P'',
     cx_scrypt = (\<lambda>_ _ _ _ _ _. None), cx_deny = {},
     cx_loads = (\<lambda>b. Inr (JObj [(''burst'', JInt 5)])), cx_now = 50, cx_mono = 50,
     cx_token = ''tok'', cx_csrf = ''csrf'', cx_uid = ''u9'', cx_salt = [], cx_draws = replicate 32 0, cx_cached = None\<rparr>"

definition key_state :: app_state where
  "key_state = \<lparr>cn_committed = key_db, cn_work = key_db, as_backoff = new_backoff 5 900, as_buckets = []\<rparr>"

definition key_rq :: "string \<Rightarrow> request" where
  "key_rq meth = (demo_request meth ''/api/v1/keys/k1'' [(''cookie'', ''lw_session=1; lw_csrf=t''), (''x-csrf-token'', ''t'')])
     \<lparr>rq_body := ''x''\<rparr>"

theorem rotation_keeps_the_old_secret_for_the_grace_witness:
  "\<exists>k' \<in> set (db_keys (cn_committed (snd (rotate_key key_ctx (key_rq ''POST'') ''k1'' key_state)))).
     key_grants toy_crypto 349 ''P'' ''lay_old0'' k' \<and> \<not> key_grants toy_crypto 350 ''P'' ''lay_old0'' k'"
proof -
  let ?rq = "key_rq ''POST''" and ?k = "hd (db_keys key_db)"
  let ?r = "rotate_key key_ctx ?rq ''k1'' key_state"
  have g: "app_gate key_ctx ?rq (Some ''keys.write'') (Some ''key.rotated'') (Some ''k1'') key_state
      = (Inr (session_principal (demo_session ''s1'' ''a'') (demo_user ''a'' ''owner'')), key_state)"
    by code_simp
  have f: "fetch_key ''k1'' (cn_work key_state) = Some ?k" "current_secret (cx_crypto key_ctx) (cx_pepper key_ctx) ''lay_old0'' ?k"
    "ak_hash ?k \<noteq> []" "ak_revoked_at ?k = None"
    by code_simp+
  have h: "hash_secret (cx_crypto key_ctx) (generate_secret (cx_draws key_ctx)) (cx_pepper key_ctx)
      \<notin> {hash_secret (cx_crypto key_ctx) ''lay_old0'' (cx_pepper key_ctx), legacy_hash (cx_crypto key_ctx) ''lay_old0''}"
    by code_simp
  obtain resp s' where r: "?r = (Inr resp, s')"
    using f(1,4) by (auto simp: rotate_key_def Let_def act_bind_def[of "with_conn _"] with_conn_run app_gate_bind g load_key_bind act_simps)
  have c: "cx_crypto key_ctx = toy_crypto" "cx_pepper key_ctx = ''P''" "cx_now key_ctx = 50" by (simp_all add: key_ctx_def)
  obtain k' where k': "k' \<in> set (db_keys (cn_committed s'))" "ak_id k' = ''k1''"
    "key_grants toy_crypto 349 ''P'' ''lay_old0'' k' \<longleftrightarrow> (349 :: rat) < 50 + 300"
    using rotation_keeps_the_old_secret_for_the_grace[OF r g f(1,2,3) h, of 349] unfolding c by blast
  obtain k2 where k2: "k2 \<in> set (db_keys (cn_committed s'))" "ak_id k2 = ''k1''"
    "key_grants toy_crypto 350 ''P'' ''lay_old0'' k2 \<longleftrightarrow> (350 :: rat) < 50 + 300"
    using rotation_keeps_the_old_secret_for_the_grace[OF r g f(1,2,3) h, of 350] unfolding c by blast
  have "map ak_id (db_keys (cn_committed s')) = [''k1'']"
    using rotate_key_commits[OF r] g by (auto simp: map_key_def key_state_def key_db_def demo_key_def rotate_row_def)
  then obtain q where "db_keys (cn_committed s') = [q]" by (cases "db_keys (cn_committed s')") auto
  then have "k2 = k'" using k' k2 by auto
  with k' k2 have "key_grants toy_crypto 349 ''P'' ''lay_old0'' k' \<and> \<not> key_grants toy_crypto 350 ''P'' ''lay_old0'' k'" by simp
  with k'(1) show ?thesis unfolding r by auto
qed

text \<open>A PATCH of one limit is not partial: setting only the burst of a key clears its rate limit,
  although an absent field is documented to stay unchanged.\<close>

theorem patch_of_one_limit_clears_the_other:
  "(let s = snd (set_limits key_ctx (key_rq ''PATCH'') ''k1''
       (key_state\<lparr>cn_committed := map_key ''k1'' (limit_row (Some 60) (Some 2)) key_db,
                  cn_work := map_key ''k1'' (limit_row (Some 60) (Some 2)) key_db\<rparr>))
    in map (\<lambda>k. (ak_rate_limit k, ak_burst k)) (db_keys (cn_committed s))) = [(None, Some 5)]"
  by code_simp

end
