(* ===== verification/Api_Auth.thy ===== *)
theory Api_Auth
  imports Api_Users
begin

text \<open>
  Models \<open>layawatch/api/auth.py\<close>: login with its backoff and session rotation, logout, me,
  password change, first-run setup and the bootstrap owner. The \<open>BEGIN IMMEDIATE\<close> of setup
  only serialises writers, which a single run does not show. Log lines are left out.
\<close>

section \<open>Helpers\<close>

definition RATELIMIT_ENABLED_KEY :: string where
  "RATELIMIT_ENABLED_KEY = ''ratelimit.enabled''"

definition login_limited :: "config \<Rightarrow> db \<Rightarrow> bool" where
  "login_limited cf d =
     (case get_setting RATELIMIT_ENABLED_KEY d of None \<Rightarrow> cf_ratelimit_enabled cf | Some v \<Rightarrow> true_text v)"

definition rate_limited :: "config \<Rightarrow> int \<Rightarrow> response" where
  "rate_limited cf retry =
     json_response (JObj [(''error'', JObj
       [(''code'', JStr ''rate_limited''),
        (''message'', JStr (''too many failed login attempts; retry in '' @ str_int retry @ '' seconds'')),
        (''details'', JObj [(''retry_after'', JInt retry), (''scope'', JStr ''login''),
           (''limit'', JInt (cf_ratelimit_login cf)), (''window'', JInt (cf_ratelimit_login_window cf))])])])
       429 [(''Retry-After'', str_int retry)]"

definition me_payload :: "user \<Rightarrow> json" where
  "me_payload u =
     JObj [(''id'', JStr (us_id u)), (''email'', JStr (us_email u)), (''name'', JStr (us_name u)),
       (''role'', JStr (us_role u)), (''permissions'', JArr (map JStr (permissions_for (us_role u))))]"

definition behind_tls :: "request \<Rightarrow> bool" where
  "behind_tls rq \<longleftrightarrow> py_lower (py_strip (hd (py_split (CHR '','') (header rq ''x-forwarded-proto'')))) = ''https''"

definition session_cookie :: "string \<Rightarrow> int \<Rightarrow> bool \<Rightarrow> string" where
  "session_cookie token ttl secure = py_join ''; ''
     ([''lw_session='' @ token, ''Max-Age='' @ str_int ttl, ''Path=/'', ''SameSite=Lax'', ''HttpOnly'']
      @ (if secure then [''Secure''] else []))"

definition csrf_cookie :: "string \<Rightarrow> int \<Rightarrow> bool \<Rightarrow> string" where
  "csrf_cookie token ttl secure = py_join ''; ''
     ([CSRF_COOKIE @ ''='' @ token, ''Max-Age='' @ str_int ttl, ''Path=/'', ''SameSite=Lax'']
      @ (if secure then [''Secure''] else []))"

definition cleared_session_cookie :: "bool \<Rightarrow> string" where
  "cleared_session_cookie secure = py_join ''; ''
     ([''lw_session='', ''Max-Age=0'', ''Path=/'', ''SameSite=Lax'', ''HttpOnly'']
      @ (if secure then [''Secure''] else []))"

definition ip_meta :: "request \<Rightarrow> json option" where
  "ip_meta rq = Some (JObj [(''ip'', JStr (rq_client_ip rq))])"

section \<open>Login\<close>

definition user_by_email :: "string \<Rightarrow> db \<Rightarrow> user option" where
  "user_by_email email d = find (\<lambda>u. us_email u = email) (db_users d)"

definition bad_credentials :: exn where
  "bad_credentials = http_err 401 ''missing_or_invalid_credential'' ''invalid email or password'' None"

definition login_fields :: "ctx \<Rightarrow> request \<Rightarrow> exn + (string \<times> string)" where
  "login_fields cx rq =
     res_bind (request_object (cx_loads cx) rq) (\<lambda>payload.
       (case jget payload ''email'' of
          JStr e \<Rightarrow>
            if py_strip e = [] then Inl (bad_field ''email'' ''email is required'')
            else (case jget payload ''password'' of
                    JStr pw \<Rightarrow>
                      if pw = [] then Inl (bad_field ''password'' ''password is required'')
                      else map_sum id (\<lambda>email. (email, pw)) (normalize_email (JStr e))
                  | _ \<Rightarrow> Inl (bad_field ''password'' ''password is required''))
        | _ \<Rightarrow> Inl (bad_field ''email'' ''email is required'')))"

text \<open>The branch of a wrong password: counted, audited, committed, then the uniform 401.\<close>

definition login_failed :: "ctx \<Rightarrow> request \<Rightarrow> string \<Rightarrow> bool \<Rightarrow> user option \<Rightarrow> 'a api" where
  "login_failed cx rq email limited u =
     act_bind (act_when limited (act_bind (with_backoff (record_failure (rq_client_ip rq) email (cx_mono cx)))
        (\<lambda>_. act_return ()))) (\<lambda>_.
     act_bind (audit (cx_now cx) email ''auth.login_failed'' (map_option us_id u) (Some email) ''ok'' (ip_meta rq)) (\<lambda>_.
     act_bind db_commit (\<lambda>_. act_raise bad_credentials)))"

text \<open>Rotation: the session of the presented cookie, when it is live, is revoked.\<close>

definition revoke_previous :: "ctx \<Rightarrow> request \<Rightarrow> unit api" where
  "revoke_previous cx rq =
     (case session_token_from rq of
        None \<Rightarrow> act_return ()
      | Some previous \<Rightarrow>
          act_bind (resolve_session (cx_crypto cx) (cx_now cx) previous) (\<lambda>r.
            case r of None \<Rightarrow> act_return ()
            | Some (s, _) \<Rightarrow> act_bind (revoke_session (se_id s)) (\<lambda>_. act_return ())))"

definition touch_login :: "pyfloat \<Rightarrow> user \<Rightarrow> user" where
  "touch_login now u = u\<lparr>us_last_login_at := Some now\<rparr>"

definition login_ok :: "ctx \<Rightarrow> request \<Rightarrow> string \<Rightarrow> bool \<Rightarrow> user \<Rightarrow> string api" where
  "login_ok cx rq email limited u =
     act_bind (act_when limited (with_backoff (\<lambda>b. ((), clear (rq_client_ip rq) email b)))) (\<lambda>_.
     act_bind (revoke_previous cx rq) (\<lambda>_.
     act_bind (issue_session (cx_crypto cx) (cx_now cx) (cx_token cx) (us_id u) rq (cf_session_ttl (cx_config cx))) (\<lambda>token.
     act_bind (db_exec (map_user (us_id u) (touch_login (cx_now cx)))) (\<lambda>_.
     act_bind (audit (cx_now cx) (us_email u) ''auth.login'' (Some (us_id u)) (Some (us_email u)) ''ok'' (ip_meta rq)) (\<lambda>_.
     act_bind db_commit (\<lambda>_. act_return token))))))"

text \<open>The password check and its two outcomes.\<close>

definition login_verify :: "ctx \<Rightarrow> request \<Rightarrow> string \<Rightarrow> string \<Rightarrow> bool \<Rightarrow> (user \<times> string) api" where
  "login_verify cx rq email password limited =
     act_bind (db_query (user_by_email email)) (\<lambda>u.
     act_bind (act_lift (verify_or_dummy (cx_scrypt cx) password
        (case u of Some v \<Rightarrow> if us_disabled v then None else Some (us_password_hash v) | None \<Rightarrow> None))) (\<lambda>ok.
       case u of
         None \<Rightarrow> login_failed cx rq email limited None
       | Some v \<Rightarrow>
           if \<not> ok then login_failed cx rq email limited (Some v)
           else act_bind (login_ok cx rq email limited v) (\<lambda>token. act_return (v, token))))"

definition login_blocked :: "ctx \<Rightarrow> request \<Rightarrow> string \<Rightarrow> int \<Rightarrow> response api" where
  "login_blocked cx rq email w =
     act_bind (audit (cx_now cx) email ''auth.login_blocked'' None (Some email) ''ok''
        (Some (JObj [(''ip'', JStr (rq_client_ip rq)), (''retry_after'', JInt w)]))) (\<lambda>_.
     act_bind db_commit (\<lambda>_. act_return (rate_limited (cx_config cx) w)))"

text \<open>The connection part of login: a refusal to render, or the user and the fresh token.\<close>

definition login_body :: "ctx \<Rightarrow> request \<Rightarrow> string \<Rightarrow> string \<Rightarrow> (response + user \<times> string) api" where
  "login_body cx rq email password =
     act_bind (db_query (login_limited (cx_config cx))) (\<lambda>limited.
     act_bind (if limited then with_backoff (refused (rq_client_ip rq) email (cx_mono cx)) else act_return None) (\<lambda>retry.
       case retry of
         Some w \<Rightarrow> act_bind (login_blocked cx rq email w) (\<lambda>resp. act_return (Inl resp))
       | None \<Rightarrow> act_bind (login_verify cx rq email password limited) (\<lambda>r. act_return (Inr r))))"

definition login :: "ctx \<Rightarrow> request \<Rightarrow> response api" where
  "login cx rq =
     act_bind (act_lift (login_fields cx rq)) (\<lambda>(email, password).
     act_bind (with_conn (login_body cx rq email password)) (\<lambda>r.
       case r of
         Inl resp \<Rightarrow> act_return resp
       | Inr (u, token) \<Rightarrow>
           (let secure = behind_tls rq; ttl = cf_session_ttl (cx_config cx) in
            act_return (json_response (me_payload u) 200
              [(''Set-Cookie'', session_cookie token ttl secure),
               (''set-cookie'', csrf_cookie (cx_csrf cx) ttl secure)]))))"

section \<open>Logout, me, password change\<close>

definition auth_error :: "string \<Rightarrow> exn" where
  "auth_error msg = http_err 401 ''missing_or_invalid_credential'' msg None"

definition logout :: "ctx \<Rightarrow> request \<Rightarrow> response api" where
  "logout cx rq =
     act_bind (with_conn
       (act_bind (app_gate cx rq None (Some ''auth.logout'') None) (\<lambda>p.
          case pr_session_id p of
            None \<Rightarrow> act_raise (auth_error ''no session to log out of'')
          | Some sid \<Rightarrow>
              if pr_kind p \<noteq> ''session'' then act_raise (auth_error ''no session to log out of'')
              else
                act_bind (revoke_session sid) (\<lambda>_.
                act_bind (audit (cx_now cx) (pr_actor p) ''auth.logout'' (pr_actor_id p) (Some (pr_actor p)) ''ok'' (ip_meta rq)) (\<lambda>_.
                db_commit)))))
     (\<lambda>_. act_return (json_response (JObj [(''ok'', JBool True)]) 200
        [(''Set-Cookie'', cleared_session_cookie (behind_tls rq))]))"

text \<open>The user of a session principal; the other kinds are refused.\<close>

definition session_user :: "principal \<Rightarrow> exn + user" where
  "session_user p =
     (if pr_kind p \<noteq> ''session'' then Inl (auth_error ''session cookie required'')
      else (case pr_user p of None \<Rightarrow> Inl (PyExc TypeError) | Some u \<Rightarrow> Inr u))"

definition me :: "ctx \<Rightarrow> request \<Rightarrow> response api" where
  "me cx rq =
     act_bind (with_conn (act_bind (app_gate cx rq None None None) (\<lambda>p. act_lift (session_user p)))) (\<lambda>u.
     (let csrf = (case cookie_value rq CSRF_COOKIE of Some v \<Rightarrow> v | None \<Rightarrow> cx_csrf cx) in
      act_return (json_response (me_payload u) 200
        [(''Set-Cookie'', csrf_cookie csrf (cf_session_ttl (cx_config cx)) (behind_tls rq))])))"

definition set_password :: "string \<Rightarrow> user \<Rightarrow> user" where
  "set_password h u = u\<lparr>us_password_hash := h, us_must_change := False\<rparr>"

definition change_password_body :: "ctx \<Rightarrow> request \<Rightarrow> string \<Rightarrow> string \<Rightarrow> unit api" where
  "change_password_body cx rq current new =
     act_bind (app_gate cx rq None None None) (\<lambda>p.
     act_bind (act_lift (session_user p)) (\<lambda>u.
     act_bind (act_lift (verify_password (cx_scrypt cx) current (Some (us_password_hash u)))) (\<lambda>ok.
       if \<not> ok then act_raise (auth_error ''current password is incorrect'')
       else
         act_bind (act_lift (user_policy (cx_deny cx) ''new_password'' (us_email u) new)) (\<lambda>_.
         act_bind (app_hash cx new) (\<lambda>h.
         act_bind (db_exec (map_user (us_id u) (set_password h))) (\<lambda>_.
         act_bind (revoke_other_sessions (us_id u) (pr_session_id p)) (\<lambda>n.
         act_bind (act_when (n > 0)
           (audit (cx_now cx) (pr_actor p) ''session.revoked_all'' (pr_actor_id p) (Some (us_id u)) ''ok''
              (Some (JObj [(''revoked'', JInt (int n)), (''via'', JStr ''password_change'')])))) (\<lambda>_.
         db_commit))))))))"

definition change_password :: "ctx \<Rightarrow> request \<Rightarrow> response api" where
  "change_password cx rq =
     act_bind (act_lift (request_object (cx_loads cx) rq)) (\<lambda>payload.
     act_bind (act_lift (valid_password ''current_password'' (jget payload ''current_password''))) (\<lambda>current.
     act_bind (act_lift (valid_password ''new_password'' (jget payload ''new_password''))) (\<lambda>new.
     act_bind (with_conn (change_password_body cx rq current new)) (\<lambda>_.
     act_return (json_response (JObj [(''ok'', JBool True)]) 200 [])))))"

section \<open>First run\<close>

definition setup_fields :: "ctx \<Rightarrow> request \<Rightarrow> exn + (string \<times> string \<times> string)" where
  "setup_fields cx rq =
     res_bind (request_object (cx_loads cx) rq) (\<lambda>payload.
     res_bind (normalize_email (jget payload ''email'')) (\<lambda>email.
     res_bind (valid_name (jget payload ''name'')) (\<lambda>name.
     res_bind (valid_password ''password'' (jget payload ''password'')) (\<lambda>password.
     res_bind (user_policy (cx_deny cx) ''password'' email password) (\<lambda>_.
       Inr (email, name, password))))))"

definition setup_body :: "ctx \<Rightarrow> string \<Rightarrow> string \<Rightarrow> string \<Rightarrow> user api" where
  "setup_body cx email name password =
     act_bind (db_query (\<lambda>d. db_users d \<noteq> [])) (\<lambda>any.
       if any then act_raise (http_err 403 ''setup_closed'' ''setup has already been completed'' None)
       else
         act_bind (app_hash cx password) (\<lambda>h.
         act_bind (insert_user (cx_uid cx) (cx_now cx) email name ''owner'' h False) (\<lambda>u.
         act_bind (audit (cx_now cx) email ''user.created'' (Some (us_id u)) (Some (us_id u)) ''ok''
            (Some (JObj [(''email'', JStr email), (''role'', JStr ''owner''), (''via'', JStr ''setup'')]))) (\<lambda>_.
         act_bind db_commit (\<lambda>_. act_return u)))))"

definition setup_owner :: "ctx \<Rightarrow> request \<Rightarrow> response api" where
  "setup_owner cx rq =
     act_bind (act_lift (setup_fields cx rq)) (\<lambda>(email, name, password).
     act_bind (with_conn (setup_body cx email name password)) (\<lambda>u.
     act_return (json_response (user_payload u) 200 [])))"

text \<open>\<open>_bootstrap_owner\<close>: every rejection leaves the database alone and returns.\<close>

definition bootstrap_fields :: "ctx \<Rightarrow> string \<Rightarrow> (string \<times> string) option" where
  "bootstrap_fields cx spec =
     (let (email_raw, found, password) = py_partition (CHR '':'') spec in
      if \<not> found \<or> py_strip email_raw = [] \<or> password = [] then None
      else (case normalize_email (JStr email_raw) of
              Inl _ \<Rightarrow> None
            | Inr email \<Rightarrow> if check_policy (cx_deny cx) email password = None then Some (email, password) else None))"

definition bootstrap_owner :: "ctx \<Rightarrow> unit api" where
  "bootstrap_owner cx =
     (case cf_bootstrap_owner (cx_config cx) of
        None \<Rightarrow> act_return ()
      | Some spec \<Rightarrow>
          if spec = [] then act_return ()
          else with_conn
            (act_bind (db_query (\<lambda>d. db_users d \<noteq> [])) (\<lambda>any.
               if any then act_return ()
               else (case bootstrap_fields cx spec of
                       None \<Rightarrow> act_return ()
                     | Some (email, password) \<Rightarrow>
                         act_bind (app_hash cx password) (\<lambda>h.
                         act_bind (insert_user (cx_uid cx) (cx_now cx) email (fst (py_partition (CHR ''@'') email)) ''owner'' h False) (\<lambda>u.
                         act_bind (audit (cx_now cx) ''system'' ''user.created'' None (Some (us_id u)) ''ok''
                            (Some (JObj [(''email'', JStr email), (''role'', JStr ''owner''), (''via'', JStr ''bootstrap_owner'')]))) (\<lambda>_.
                         db_commit)))))))"

text \<open>The two side effects of \<open>add_auth_routes\<close>.\<close>

definition start_auth :: "ctx \<Rightarrow> unit api" where
  "start_auth cx =
     act_bind (with_backoff (\<lambda>b. ((), configure (cf_ratelimit_login (cx_config cx))
        (of_int (cf_ratelimit_login_window (cx_config cx))) b))) (\<lambda>_. bootstrap_owner cx)"

section \<open>The endpoints as one machine\<close>

lemma map_user_keeps:
  "(\<And>u. us_id (f u) = us_id u) \<Longrightarrow> (\<And>u. enabled_owner (f u) = enabled_owner u) \<Longrightarrow>
   owner_inv d \<Longrightarrow> owner_inv (map_user uid f d)"
proof -
  assume f: "\<And>u. us_id (f u) = us_id u" "\<And>u. enabled_owner (f u) = enabled_owner u" and d: "owner_inv d"
  have "map us_id (map (\<lambda>u. if us_id u = uid then f u else u) (db_users d)) = map us_id (db_users d)"
    using f(1) by simp
  moreover have "has_owner (map_user uid f d)"
  proof -
    obtain u where u: "u \<in> set (db_users d)" "enabled_owner u"
      using d by (auto simp: owner_inv_def has_owner_def)
    then have "(if us_id u = uid then f u else u) \<in> set (db_users (map_user uid f d))"
      "enabled_owner (if us_id u = uid then f u else u)"
      using f(2) by (auto simp: map_user_def)
    then show ?thesis unfolding has_owner_def by blast
  qed
  ultimately show ?thesis using d by (simp add: owner_inv_def map_user_def del: map_map)
qed

lemma keeps_login_ops:
  "keeps owner_inv (db_exec (map_user uid (touch_login now)))"
  "keeps owner_inv (db_exec (map_user uid (set_password h)))"
  by (intro keeps_exec map_user_keeps; simp add: touch_login_def set_password_def enabled_owner_def)+

lemma keeps_revoke_session: "keeps owner_inv (revoke_session sid)"
  unfolding revoke_session_def by (intro keeps_rules keeps_session_ops gate_blind_owner)

lemma keeps_login: "keeps owner_inv (login cx rq)"
  unfolding login_def login_body_def login_verify_def login_blocked_def login_failed_def login_ok_def revoke_previous_def Let_def
  by (auto intro!: keeps_rules keeps_session_ops keeps_login_ops keeps_revoke_session split: sum.splits option.splits)

lemma keeps_logout: "keeps owner_inv (logout cx rq)"
  unfolding logout_def
  by (auto intro!: keeps_rules keeps_session_ops keeps_revoke_session)

lemma keeps_me: "keeps owner_inv (me cx rq)"
  unfolding me_def Let_def by (auto intro!: keeps_rules keeps_session_ops)

lemma keeps_change_password: "keeps owner_inv (change_password cx rq)"
  unfolding change_password_def change_password_body_def revoke_other_sessions_def
  by (auto intro!: keeps_rules keeps_session_ops keeps_login_ops)

lemma keeps_setup: "keeps owner_inv (setup_owner cx rq)"
  unfolding setup_owner_def setup_body_def
  by (auto intro!: keeps_rules keeps_session_ops split: prod.splits)

lemma keeps_start: "keeps owner_inv (start_auth cx)"
  unfolding start_auth_def bootstrap_owner_def
  by (auto intro!: keeps_rules keeps_session_ops split: prod.splits)

datatype auth_route = Login | Logout | Me | ChangePassword | SetupOwner | ListUsers | CreateUser
  | GetUser | PatchUser | DeleteUser | RevokeOthers

fun auth_handler :: "auth_route \<Rightarrow> ctx \<Rightarrow> request \<Rightarrow> response api" where
  "auth_handler Login = login"
| "auth_handler Logout = logout"
| "auth_handler Me = me"
| "auth_handler ChangePassword = change_password"
| "auth_handler SetupOwner = setup_owner"
| "auth_handler ListUsers = list_users"
| "auth_handler CreateUser = create_user"
| "auth_handler GetUser = get_user_wildcard"
| "auth_handler PatchUser = user_wildcard"
| "auth_handler DeleteUser = delete_user_route"
| "auth_handler RevokeOthers = revoke_other_sessions_route"

lemma keeps_auth_handler: "keeps owner_inv (auth_handler rt cx rq)"
  by (cases rt) (simp_all add: keeps_user_handlers keeps_login keeps_logout keeps_me keeps_change_password keeps_setup)

definition auth_step :: "auth_route \<times> ctx \<times> request \<Rightarrow> app_state \<Rightarrow> app_state" where
  "auth_step e s = (case e of (rt, cx, rq) \<Rightarrow> snd (auth_handler rt cx rq s))"

interpretation auth_api: safe_machine auth_step "conn_inv owner_inv"
proof
  fix s :: app_state and e
  assume "conn_inv owner_inv s"
  then show "conn_inv owner_inv (auth_step e s)"
    by (cases e) (simp add: auth_step_def keepsD[OF keeps_auth_handler])
qed

section \<open>Properties\<close>

text \<open>Whatever requests the user and session endpoints serve, in any order and with any outcome, the
  committed database keeps distinct user ids and at least one enabled owner.\<close>

theorem auth_run_keeps_an_owner:
  assumes "owner_inv (cn_committed s)" "conn_idle s"
  shows "owner_inv (cn_committed (fold auth_step es s))"
proof -
  have "conn_inv owner_inv s" using assms by (simp add: conn_inv_def conn_idle_def)
  then show ?thesis using auth_api.run_inv[of s es] by (simp add: conn_inv_def)
qed

definition demo_ctx :: ctx where
  "demo_ctx = \<lparr>cx_config = default_config, cx_crypto = toy_crypto, cx_pepper = ''P'', cx_scrypt = toy_scrypt,
     cx_deny = {}, cx_loads = (\<lambda>b. Inr (JObj [(''role'', JStr ''viewer'')])), cx_now = 50, cx_mono = 50,
     cx_token = ''tok'', cx_csrf = ''csrf'', cx_uid = ''u9'', cx_salt = ''0123456789abcdef'',
     cx_draws = [], cx_cached = None\<rparr>"

definition demo_state :: "db \<Rightarrow> app_state" where
  "demo_state d = \<lparr>cn_committed = d, cn_work = d, as_backoff = new_backoff 5 900, as_buckets = []\<rparr>"

definition with_cookies :: "string \<Rightarrow> string \<Rightarrow> request" where
  "with_cookies meth path = demo_request meth path [(''cookie'', ''lw_session=1; lw_csrf=t''), (''x-csrf-token'', ''t'')]"

definition demo_calls :: "(auth_route \<times> ctx \<times> request) list" where
  "demo_calls =
      [(PatchUser, demo_ctx, (with_cookies ''PATCH'' ''/api/v1/users/b'')\<lparr>rq_body := ''x''\<rparr>),
       (DeleteUser, demo_ctx, with_cookies ''DELETE'' ''/api/v1/users/b''),
       (DeleteUser, demo_ctx, with_cookies ''DELETE'' ''/api/v1/users/a'')]"

theorem auth_run_keeps_an_owner_witness:
  "has_owner (cn_committed (fold auth_step demo_calls (demo_state two_owners)))"
proof -
  have h: "owner_inv (cn_committed (demo_state two_owners))" "conn_idle (demo_state two_owners)"
    by (simp_all add: demo_state_def conn_idle_def owner_inv_def has_owner_def two_owners_def demo_user_def enabled_owner_def)
  show ?thesis using auth_run_keeps_an_owner[OF h, of demo_calls] by (simp add: owner_inv_def)
qed

definition first_owner :: "ctx \<Rightarrow> string \<Rightarrow> string \<Rightarrow> string \<Rightarrow> user" where
  "first_owner cx email name h = \<lparr>us_id = cx_uid cx, us_email = email, us_name = name, us_role = ''owner'',
     us_password_hash = h, us_created_at = cx_now cx, us_last_login_at = None, us_disabled = False,
     us_must_change = False\<rparr>"

lemma setup_body_run:
  "setup_body cx email name pw s =
     (if db_users (cn_work s) \<noteq> []
      then (Inl (http_err 403 ''setup_closed'' ''setup has already been completed'' None), s)
      else (case hash_password (cx_scrypt cx) (cx_salt cx) pw of
          Inl e \<Rightarrow> (Inl e, s)
        | Inr h \<Rightarrow>
            (let u = first_owner cx email name h;
                 d = audit_entry (cx_now cx) email ''user.created'' (Some (us_id u)) (Some (us_id u)) ''ok''
                   (Some (JObj [(''email'', JStr email), (''role'', JStr ''owner''), (''via'', JStr ''setup'')]))
                   ((cn_work s)\<lparr>db_users := [u]\<rparr>)
             in (Inr u, s\<lparr>cn_work := d, cn_committed := d\<rparr>))))"
  by (auto simp: setup_body_def act_simps app_hash_def insert_user_def Let_def first_owner_def split: sum.splits)

text \<open>C11: Setup is open exactly while there is no user. When it answers, the committed database holds one
  user, an enabled owner who need not change the password; once a user exists it changes
  nothing.\<close>

theorem setup_creates_the_first_owner_once:
  assumes "conn_idle s" "setup_owner cx rq s = (r, s')"
  shows "(db_users (cn_committed s) \<noteq> [] \<longrightarrow> cn_committed s' = cn_committed s \<and> isl r)
    \<and> (\<not> isl r \<longrightarrow> db_users (cn_committed s) = [] \<and> owner_inv (cn_committed s')
         \<and> (\<exists>u. db_users (cn_committed s') = [u] \<and> enabled_owner u \<and> \<not> us_must_change u
              \<and> hash_password (cx_scrypt cx) (cx_salt cx)
                  (case setup_fields cx rq of Inr (_, _, pw) \<Rightarrow> pw | Inl _ \<Rightarrow> []) = Inr (us_password_hash u)))"
proof (cases "setup_fields cx rq")
  case (Inl e)
  with assms(2) show ?thesis by (auto simp: setup_owner_def act_simps)
next
  case (Inr f)
  obtain email name pw where f: "f = (email, name, pw)" by (cases f)
  have w: "cn_work s = cn_committed s" using assms(1) by (simp add: conn_idle_def)
  have run: "(r, s') = (map_sum id (\<lambda>u. json_response (user_payload u) 200 []) (fst (setup_body cx email name pw s)),
      conn_close (snd (setup_body cx email name pw s)))"
    using assms(2) by (auto simp: setup_owner_def act_bind_lift Inr f act_bind_def[of "with_conn _"] with_conn_run
        act_return_def split: sum.splits)
  show ?thesis
    using run w by (auto simp: setup_body_run Inr f Let_def owner_inv_def has_owner_def enabled_owner_def
        first_owner_def split: if_splits sum.splits)
qed

definition setup_ctx :: ctx where
  "setup_ctx = demo_ctx\<lparr>cx_loads := (\<lambda>b. Inr (JObj [(''email'', JStr '' Ada@X.io''), (''name'', JStr ''Ada''),
     (''password'', JStr ''correct horse battery'')])), cx_scrypt := (\<lambda>_ _ _ _ _ _. Some ''d''), cx_salt := ''s''\<rparr>"

theorem setup_creates_the_first_owner_once_witness:
  "owner_inv (cn_committed (snd (setup_owner setup_ctx (demo_request ''POST'' ''/api/v1/auth/setup'' []\<lparr>rq_body := ''x''\<rparr>)
       (demo_state empty_db))))
   \<and> cn_committed (snd (setup_owner setup_ctx (demo_request ''POST'' ''/api/v1/auth/setup'' []\<lparr>rq_body := ''x''\<rparr>)
       (demo_state two_owners))) = two_owners"
proof -
  let ?rq = "demo_request ''POST'' ''/api/v1/auth/setup'' []\<lparr>rq_body := ''x''\<rparr>"
  let ?run = "\<lambda>d. setup_owner setup_ctx ?rq (demo_state d)"
  have idle: "conn_idle (demo_state d)" for d by (simp add: demo_state_def conn_idle_def)
  have fields: "setup_fields setup_ctx ?rq = Inr (''ada@x.io'', ''Ada'', ''correct horse battery'')"
    by code_simp
  have hash: "\<exists>h. hash_password (cx_scrypt setup_ctx) (cx_salt setup_ctx) ''correct horse battery'' = Inr h"
    by (simp add: setup_ctx_def hash_password_def)
  have 1: "\<not> isl (fst (?run empty_db))"
    using hash by (auto simp: setup_owner_def fields act_bind_lift act_bind_def[of "with_conn _"] with_conn_run
        setup_body_run Let_def demo_state_def act_return_def empty_db_def)
  have 2: "db_users (cn_committed (demo_state two_owners)) \<noteq> []" "cn_committed (demo_state two_owners) = two_owners"
    by (simp_all add: demo_state_def two_owners_def)
  note first = setup_creates_the_first_owner_once[where cx = setup_ctx and rq = ?rq, OF idle[of empty_db] surjective_pairing]
  note again = setup_creates_the_first_owner_once[where cx = setup_ctx and rq = ?rq, OF idle[of two_owners] surjective_pairing]
  have "owner_inv (cn_committed (snd (?run empty_db)))"
    by (rule conjunct1[OF conjunct2[OF mp[OF conjunct2[OF first] 1]]])
  moreover have "cn_committed (snd (?run two_owners)) = two_owners"
    using conjunct1[OF mp[OF conjunct1[OF again] 2(1)]] unfolding 2(2) .
  ultimately show ?thesis by (rule conjI)
qed

section \<open>Login\<close>

lemma with_backoff_run: "act_bind (with_backoff f) k s = k (fst (f (as_backoff s))) (s\<lparr>as_backoff := snd (f (as_backoff s))\<rparr>)"
  by (simp add: act_bind_def with_backoff_def split: prod.splits)

lemma with_backoff_end: "with_backoff f s = (Inr (fst (f (as_backoff s))), s\<lparr>as_backoff := snd (f (as_backoff s))\<rparr>)"
  by (simp add: with_backoff_def split: prod.splits)

lemma with_conn_bind_Inr:
  assumes "act_bind (with_conn m) k s = (Inr x, s')"
  shows "\<exists>r t. m s = (Inr r, t) \<and> k r (conn_close t) = (Inr x, s')"
proof -
  obtain o' t where m: "m s = (o', t)" by (cases "m s")
  with assms show ?thesis by (cases o') (simp_all add: act_bind_def with_conn_run)
qed

lemma login_failed_Inl: "fst (login_failed cx rq email limited u s) = Inl bad_credentials"
  by (simp add: login_failed_def act_simps with_backoff_run)

lemma login_failed_not_Inr [simp]: "login_failed cx rq email limited u s \<noteq> (Inr x, t)"
  by (metis Inl_Inr_False fst_conv login_failed_Inl)

lemma login_verify_Inr:
  assumes "login_verify cx rq email pw limited s = (Inr (v, token), t)"
  shows "user_by_email email (cn_work s) = Some v \<and> \<not> us_disabled v
    \<and> verify_password (cx_scrypt cx) pw (Some (us_password_hash v)) = Inr True
    \<and> login_ok cx rq email limited v s = (Inr token, t)"
proof -
  obtain v' where v': "user_by_email email (cn_work s) = Some v'"
    using assms by (cases "user_by_email email (cn_work s)") (auto simp: login_verify_def act_simps split: sum.splits)
  let ?st = "if us_disabled v' then None else Some (us_password_hash v')"
  have ok: "verify_or_dummy (cx_scrypt cx) pw ?st = Inr True"
    using assms v' by (auto simp: login_verify_def db_query_run act_bind_lift split: sum.splits if_splits)
  then have "act_bind (login_ok cx rq email limited v') (\<lambda>token. act_return (v', token)) s = (Inr (v, token), t)"
    using assms v' by (simp add: login_verify_def db_query_run act_bind_lift del: act_bind_assoc)
  then have "v' = v \<and> login_ok cx rq email limited v s = (Inr token, t)"
    by (auto elim!: act_bind_InrE simp: act_return_def)
  then show ?thesis using ok v' by (auto simp: verify_or_dummy_def split: if_splits)
qed

lemma login_body_Inr:
  assumes "login_body cx rq email pw s = (Inr r, t)"
  shows "(\<exists>w. r = Inl (rate_limited (cx_config cx) w)) \<or>
    (\<exists>limited s1 v token. r = Inr (v, token) \<and> cn_work s1 = cn_work s
       \<and> login_verify cx rq email pw limited s1 = (Inr (v, token), t))"
proof -
  let ?l = "login_limited (cx_config cx) (cn_work s)"
  let ?k = "if ?l then with_backoff (refused (rq_client_ip rq) email (cx_mono cx)) else act_return None"
  from assms obtain retry s1 where k: "?k s = (Inr retry, s1)"
    and c: "(case retry of
         Some w \<Rightarrow> act_bind (login_blocked cx rq email w) (\<lambda>resp. act_return (Inl resp))
       | None \<Rightarrow> act_bind (login_verify cx rq email pw ?l) (\<lambda>r. act_return (Inr r))) s1 = (Inr r, t)"
    unfolding login_body_def db_query_run by (rule act_bind_InrE)
  have s1: "cn_work s1 = cn_work s" using k by (auto simp: with_backoff_end act_return_def split: if_splits)
  show ?thesis
  proof (cases retry)
    case (Some w)
    with c show ?thesis by (auto simp: login_blocked_def act_simps)
  next
    case None
    with c have "act_bind (login_verify cx rq email pw ?l) (\<lambda>r. act_return (Inr r)) s1 = (Inr r, t)" by simp
    then obtain x where "login_verify cx rq email pw ?l s1 = (Inr x, t)" "r = Inr x"
      by (rule act_bind_InrE) (auto simp: act_return_def)
    with s1 show ?thesis by (cases x) blast
  qed
qed

lemma revoke_where_run:
  "revoke_where P c = (Inr (length (filter (\<lambda>s. P s \<and> \<not> se_revoked s) (db_sessions (cn_work c)))),
     c\<lparr>cn_work := revoke_sessions_where P (cn_work c)\<rparr>)"
  by (simp add: revoke_where_def act_simps)

lemma live_session_revoked:
  "live_session now sid (revoke_sessions_where (\<lambda>s. se_id s = sid) d) = None"
proof -
  have "find (\<lambda>s. se_id s = sid \<and> \<not> se_revoked s \<and> se_expires_at s > now)
      (db_sessions (revoke_sessions_where (\<lambda>s. se_id s = sid) d)) = None"
    unfolding find_None
  proof
    fix s
    assume "s \<in> set (db_sessions (revoke_sessions_where (\<lambda>s. se_id s = sid) d))"
    then have "s \<in> (\<lambda>s0. if se_id s0 = sid \<and> \<not> se_revoked s0 then s0\<lparr>se_revoked := True\<rparr> else s0)
        ` set (db_sessions d)"
      by (simp add: revoke_sessions_where_def)
    then obtain s0 where "s = (if se_id s0 = sid \<and> \<not> se_revoked s0 then s0\<lparr>se_revoked := True\<rparr> else s0)"
      by (rule imageE)
    then show "\<not> (se_id s = sid \<and> \<not> se_revoked s \<and> now < se_expires_at s)" by (simp split: if_splits)
  qed
  then show ?thesis by (simp add: live_session_def)
qed

lemma revoke_previous_run:
  "\<exists>d. revoke_previous cx rq c = (Inr (), c\<lparr>cn_work := d\<rparr>) \<and> db_users d = db_users (cn_work c)
     \<and> map se_id (db_sessions d) = map se_id (db_sessions (cn_work c))
     \<and> (\<forall>prev. session_token_from rq = Some prev \<longrightarrow>
          live_session (cx_now cx) (token_digest (cx_crypto cx) prev) d = None)"
proof (cases "session_token_from rq")
  case None
  then show ?thesis by (intro exI[of _ "cn_work c"]) (simp add: revoke_previous_def act_simps)
next
  case (Some prev)
  let ?sid = "token_digest (cx_crypto cx) prev"
  have ne: "prev \<noteq> []" using Some cookie_value_nonempty by (simp add: session_token_from_def)
  show ?thesis
  proof (cases "live_session (cx_now cx) ?sid (cn_work c)")
    case n: None
    then show ?thesis using Some ne
      by (intro exI[of _ "cn_work c"]) (simp add: revoke_previous_def act_bind_def resolve_session_run act_simps)
  next
    case l: (Some su)
    obtain s u where su: "su = (s, u)" by (cases su)
    have sid: "se_id s = ?sid" using live_session_Some[of "cx_now cx" ?sid "cn_work c" s u] l su by simp
    let ?d = "if cx_now cx - se_last_seen s \<ge> 60 then touch_session (cx_now cx) ?sid (cn_work c) else cn_work c"
    let ?e = "revoke_sessions_where (\<lambda>s. se_id s = ?sid) ?d"
    have "revoke_previous cx rq c = (Inr (), c\<lparr>cn_work := ?e\<rparr>)"
      using Some ne l su sid
      by (simp add: revoke_previous_def act_bind_def resolve_session_run revoke_session_def revoke_where_run act_simps)
    moreover have "db_users ?e = db_users (cn_work c)" "map se_id (db_sessions ?e) = map se_id (db_sessions (cn_work c))"
      by (auto simp: revoke_sessions_where_def touch_session_def)
    ultimately show ?thesis using Some live_session_revoked by (intro exI[of _ ?e]) simp
  qed
qed

lemma live_session_append:
  "se_id n \<noteq> sid \<Longrightarrow> live_session now sid (d\<lparr>db_sessions := db_sessions d @ [n]\<rparr>) = live_session now sid d"
proof -
  have "find P (xs @ [n]) = find P xs" if "\<not> P n" for P and xs :: "session list"
    using that by (induction xs) auto
  then show "se_id n \<noteq> sid \<Longrightarrow> ?thesis" by (simp add: live_session_def cong: option.case_cong)
qed

lemma live_session_touch_login:
  "live_session now sid (map_user uid (touch_login t) d) = None \<longleftrightarrow> live_session now sid d = None"
proof -
  have "find (\<lambda>u. us_id u = k \<and> \<not> us_disabled u) (map (\<lambda>u. if us_id u = uid then touch_login t u else u) us) = None
     \<longleftrightarrow> find (\<lambda>u. us_id u = k \<and> \<not> us_disabled u) us = None" for k us
    by (induction us) (auto simp: touch_login_def)
  then show ?thesis by (simp add: live_session_def map_user_def split: option.splits)
qed

lemma live_session_cong:
  "db_users d = db_users e \<Longrightarrow> db_sessions d = db_sessions e \<Longrightarrow> live_session now sid d = live_session now sid e"
  by (simp add: live_session_def cong: option.case_cong)

text \<open>C6: A login answers 200 only for an enabled user with the normalised email whose stored hash verifies
  the password. It commits a fresh session of that user under the digest of the new token, and
  the session of the cookie the browser presented, if it was live, is live no more.\<close>

theorem login_admits_and_rotates:
  assumes "conn_idle s" "login cx rq s = (Inr resp, s')" "rs_status resp = 200"
  shows "\<exists>email pw u. login_fields cx rq = Inr (email, pw)
    \<and> u \<in> set (db_users (cn_committed s)) \<and> us_email u = email \<and> \<not> us_disabled u
    \<and> verify_password (cx_scrypt cx) pw (Some (us_password_hash u)) = Inr True
    \<and> (\<exists>n \<in> set (db_sessions (cn_committed s')). se_id n = token_digest (cx_crypto cx) (cx_token cx)
         \<and> se_user_id n = us_id u \<and> \<not> se_revoked n
         \<and> se_expires_at n = cx_now cx + of_int (cf_session_ttl (cx_config cx)))
    \<and> (\<forall>prev. session_token_from rq = Some prev \<longrightarrow>
         token_digest (cx_crypto cx) prev \<noteq> token_digest (cx_crypto cx) (cx_token cx) \<longrightarrow>
         live_session (cx_now cx) (token_digest (cx_crypto cx) prev) (cn_committed s') = None)"
proof -
  obtain email pw where f: "login_fields cx rq = Inr (email, pw)"
    using assms(2) by (cases "login_fields cx rq") (auto simp: login_def act_simps)
  define K :: "response + user \<times> string \<Rightarrow> response api" where
    "K = (\<lambda>r. case r of Inl resp \<Rightarrow> act_return resp
       | Inr (u, token) \<Rightarrow>
           (let secure = behind_tls rq; ttl = cf_session_ttl (cx_config cx) in
            act_return (json_response (me_payload u) 200
              [(''Set-Cookie'', session_cookie token ttl secure),
               (''set-cookie'', csrf_cookie (cx_csrf cx) ttl secure)])))"
  have run: "act_bind (with_conn (login_body cx rq email pw)) K s = (Inr resp, s')"
    using assms(2) by (simp add: login_def f act_bind_lift K_def)
  obtain r t where b: "login_body cx rq email pw s = (Inr r, t)" and k: "K r (conn_close t) = (Inr resp, s')"
    using with_conn_bind_Inr[OF run] by blast
  have s': "s' = conn_close t"
    using k by (auto simp: K_def act_return_def Let_def split: sum.splits prod.splits)
  have "r \<noteq> Inl (rate_limited (cx_config cx) w)" for w
    using k assms(3) by (auto simp: K_def act_return_def rate_limited_def json_response_def)
  then obtain limited s1 u token where s1: "cn_work s1 = cn_work s"
    and v: "login_verify cx rq email pw limited s1 = (Inr (u, token), t)"
    using login_body_Inr[OF b] by blast
  have u: "user_by_email email (cn_work s) = Some u" "\<not> us_disabled u"
      "verify_password (cx_scrypt cx) pw (Some (us_password_hash u)) = Inr True"
    and lg: "login_ok cx rq email limited u s1 = (Inr token, t)"
    using login_verify_Inr[OF v] s1 by auto
  define s2 where "s2 = (if limited then s1\<lparr>as_backoff := clear (rq_client_ip rq) email (as_backoff s1)\<rparr> else s1)"
  obtain d where d: "revoke_previous cx rq s2 = (Inr (), s2\<lparr>cn_work := d\<rparr>)" "db_users d = db_users (cn_work s2)"
    "\<forall>prev. session_token_from rq = Some prev \<longrightarrow> live_session (cx_now cx) (token_digest (cx_crypto cx) prev) d = None"
    using revoke_previous_run[of cx rq s2] by blast
  let ?n = "\<lparr>se_id = token_digest (cx_crypto cx) (cx_token cx), se_user_id = us_id u, se_created_at = cx_now cx,
      se_expires_at = cx_now cx + of_int (cf_session_ttl (cx_config cx)), se_last_seen = cx_now cx,
      se_user_agent = nonempty (take 256 (header rq ''user-agent'')), se_ip = nonempty (rq_client_ip rq),
      se_revoked = False\<rparr>"
  let ?e = "map_user (us_id u) (touch_login (cx_now cx)) (d\<lparr>db_sessions := db_sessions d @ [?n]\<rparr>)"
  have t: "\<exists>a. cn_committed t = ?e\<lparr>db_audit := a\<rparr>"
    using lg d(1) by (auto simp: login_ok_def act_when_bind with_backoff_run s2_def act_bind_def[of "revoke_previous _ _"]
        issue_session_def act_simps audit_entry_def split: if_splits)
  then have c: "db_users (cn_committed s') = db_users ?e" "db_sessions (cn_committed s') = db_sessions ?e"
    by (auto simp: s')
  have "u \<in> set (db_users (cn_committed s)) \<and> us_email u = email"
    using u(1) assms(1) find_Some_in by (fastforce simp: user_by_email_def conn_idle_def)
  moreover have "?n \<in> set (db_sessions (cn_committed s'))"
    unfolding c by (simp add: map_user_def)
  moreover have "live_session (cx_now cx) (token_digest (cx_crypto cx) prev) (cn_committed s') = None"
    if "session_token_from rq = Some prev" "token_digest (cx_crypto cx) prev \<noteq> token_digest (cx_crypto cx) (cx_token cx)" for prev
    using that d(3) unfolding live_session_cong[OF c] live_session_touch_login
    by (subst live_session_append) auto
  ultimately show ?thesis using f u(2,3) by (intro exI[of _ email] exI[of _ pw] exI[of _ u]) force
qed

definition login_ctx :: ctx where
  "login_ctx = demo_ctx\<lparr>cx_loads := (\<lambda>b. Inr (JObj [(''email'', JStr ''A@x.io''), (''password'', JStr ''pw'')])),
     cx_scrypt := (\<lambda>_ _ _ _ _ _. Some ''d''), cx_salt := ''s''\<rparr>"

definition login_db :: db where
  "login_db = two_owners\<lparr>db_users := [(demo_user ''a'' ''owner'')\<lparr>us_email := ''a@x.io'',
     us_password_hash := ''scrypt$2$8$1$cw==$ZA==''\<rparr>]\<rparr>"

definition login_rq :: request where
  "login_rq = (with_cookies ''POST'' ''/api/v1/auth/login'')\<lparr>rq_body := ''x''\<rparr>"

text \<open>Conversely, an attempt that is not refused, with the right password of an enabled user and an
  unused token, is answered 200.\<close>

lemma login_succeeds:
  assumes "login_fields cx rq = Inr (email, pw)"
    and "fst (refused (rq_client_ip rq) email (cx_mono cx) (as_backoff s)) = None"
    and "user_by_email email (cn_work s) = Some u" "\<not> us_disabled u"
    and "verify_or_dummy (cx_scrypt cx) pw (Some (us_password_hash u)) = Inr True"
    and "token_digest (cx_crypto cx) (cx_token cx) \<notin> se_id ` set (db_sessions (cn_work s))"
  shows "\<exists>hs s'. login cx rq s = (Inr (json_response (me_payload u) 200 hs), s')"
proof -
  have lg: "\<exists>t. login_ok cx rq email limited u s1 = (Inr (cx_token cx), t)" if "cn_work s1 = cn_work s" for limited s1
  proof -
    define s2 where "s2 = (if limited then s1\<lparr>as_backoff := clear (rq_client_ip rq) email (as_backoff s1)\<rparr> else s1)"
    obtain d where d: "revoke_previous cx rq s2 = (Inr (), s2\<lparr>cn_work := d\<rparr>)"
      "map se_id (db_sessions d) = map se_id (db_sessions (cn_work s2))"
      using revoke_previous_run[of cx rq s2] by blast
    have "cn_work s2 = cn_work s" using that by (simp add: s2_def)
    then have "set (map se_id (db_sessions d)) = set (map se_id (db_sessions (cn_work s)))"
      using d(2) by simp
    then have "\<forall>x \<in> set (db_sessions d). se_id x \<noteq> token_digest (cx_crypto cx) (cx_token cx)"
      using assms(6) by (metis image_eqI set_map)
    then show ?thesis
      using d(1) by (auto simp: login_ok_def act_when_bind with_backoff_run s2_def act_bind_def[of "revoke_previous _ _"]
          issue_session_def act_simps)
  qed
  define limited where "limited = login_limited (cx_config cx) (cn_work s)"
  define k where "k = (if limited then with_backoff (refused (rq_client_ip rq) email (cx_mono cx)) else act_return None)"
  define s1 where "s1 = snd (k s)"
  have k: "k s = (Inr None, s1)" "cn_work s1 = cn_work s"
    using assms(2) by (simp_all add: s1_def k_def with_backoff_end act_return_def)
  obtain t where "login_ok cx rq email limited u s1 = (Inr (cx_token cx), t)" using lg[OF k(2)] by blast
  then have "login_verify cx rq email pw limited s1 = (Inr (u, cx_token cx), t)"
    using assms(3-5) k(2) by (simp add: login_verify_def db_query_run act_bind_lift act_bind_def[of "login_ok _ _ _ _ _"] act_return_def)
  then have "login_body cx rq email pw s = (Inr (Inr (u, cx_token cx)), t)"
    using k by (simp add: login_body_def db_query_run act_bind_def[of k]
        act_bind_def[of "login_verify _ _ _ _ _"] act_return_def flip: limited_def k_def)
  then show ?thesis
    by (auto simp: login_def assms(1) act_bind_lift act_bind_def[of "with_conn _"] with_conn_run act_return_def Let_def)
qed

theorem login_admits_and_rotates_witness:
  "rs_status (projr (fst (login login_ctx login_rq (demo_state login_db)))) = 200
   \<and> live_session 50 ''s1'' (cn_committed (snd (login login_ctx login_rq (demo_state login_db)))) = None"
proof -
  let ?r = "login login_ctx login_rq (demo_state login_db)"
  let ?u = "(demo_user ''a'' ''owner'')\<lparr>us_email := ''a@x.io'', us_password_hash := ''scrypt$2$8$1$cw==$ZA==''\<rparr>"
  have idle: "conn_idle (demo_state login_db)" by (simp add: demo_state_def conn_idle_def)
  have "login_fields login_ctx login_rq = Inr (''a@x.io'', ''pw'')"
    "verify_or_dummy (cx_scrypt login_ctx) ''pw'' (Some (us_password_hash ?u)) = Inr True"
    "token_digest (cx_crypto login_ctx) (cx_token login_ctx) \<notin> se_id ` set (db_sessions (cn_work (demo_state login_db)))"
    "fst (refused (rq_client_ip login_rq) ''a@x.io'' (cx_mono login_ctx) (as_backoff (demo_state login_db))) = None"
    by code_simp+
  moreover have "user_by_email ''a@x.io'' (cn_work (demo_state login_db)) = Some ?u" "\<not> us_disabled ?u"
    by (simp_all add: user_by_email_def demo_state_def login_db_def demo_user_def)
  ultimately obtain hs s' where r: "?r = (Inr (json_response (me_payload ?u) 200 hs), s')"
    using login_succeeds by metis
  have st: "rs_status (json_response (me_payload ?u) 200 hs) = 200" by (simp add: json_response_def)
  have p: "session_token_from login_rq = Some ''1''" "cx_now login_ctx = 50"
    "token_digest (cx_crypto login_ctx) ''1'' = ''s1''" "token_digest (cx_crypto login_ctx) (cx_token login_ctx) = ''stok''"
    by code_simp+
  have "live_session (cx_now login_ctx) (token_digest (cx_crypto login_ctx) ''1'') (cn_committed s') = None"
    using login_admits_and_rotates[OF idle r st] p by auto
  then show ?thesis unfolding p using r st by simp
qed

section \<open>Password change\<close>

lemma session_user_Inr: "session_user p = Inr u \<Longrightarrow> pr_kind p = ''session'' \<and> pr_user p = Some u"
  by (auto simp: session_user_def split: if_splits option.splits)

text \<open>A password change answers only after the current password verified; it commits the new hash,
  lifts the must-change flag, and leaves the user no unrevoked session but the one that made
  the request.\<close>

theorem change_password_revokes_the_other_sessions:
  assumes "change_password_body cx rq current new s = (Inr x, t)"
  shows "\<exists>p u h. fst (app_gate cx rq None None None s) = Inr p \<and> session_user p = Inr u
    \<and> verify_password (cx_scrypt cx) current (Some (us_password_hash u)) = Inr True
    \<and> check_policy (cx_deny cx) (us_email u) new = None
    \<and> hash_password (cx_scrypt cx) (cx_salt cx) new = Inr h
    \<and> (\<forall>v \<in> set (db_users (cn_committed t)). us_id v = us_id u \<longrightarrow> us_password_hash v = h \<and> \<not> us_must_change v)
    \<and> (\<forall>n \<in> set (db_sessions (cn_committed t)). se_user_id n = us_id u \<longrightarrow> \<not> se_revoked n \<longrightarrow>
         pr_session_id p = Some (se_id n))"
proof -
  obtain r s1 where g: "app_gate cx rq None None None s = (r, s1)" by (cases "app_gate cx rq None None None s")
  have run: "act_bind (app_gate cx rq None None None) k s = (case r of Inl e \<Rightarrow> (Inl e, s1) | Inr p \<Rightarrow> k p s1)"
    for k :: "principal \<Rightarrow> unit api" by (simp add: act_bind_def g)
  obtain p where p: "r = Inr p" using assms by (cases r) (auto simp: change_password_body_def run)
  obtain u where u: "session_user p = Inr u"
    using assms by (cases "session_user p") (auto simp: change_password_body_def run p act_bind_lift)
  have v: "verify_password (cx_scrypt cx) current (Some (us_password_hash u)) = Inr True"
    using assms by (auto simp: change_password_body_def run p u act_bind_lift act_raise_def split: sum.splits if_splits)
  have pol: "check_policy (cx_deny cx) (us_email u) new = None"
    using assms by (auto simp: change_password_body_def run p u v act_bind_lift user_policy_def split: sum.splits option.splits)
  obtain h where h: "hash_password (cx_scrypt cx) (cx_salt cx) new = Inr h"
    using assms by (auto simp: change_password_body_def run p u v pol act_bind_lift app_hash_def user_policy_def split: sum.splits)
  let ?d = "map_user (us_id u) (set_password h) (cn_work s1)"
  let ?P = "\<lambda>s. se_user_id s = us_id u \<and> (case pr_session_id p of None \<Rightarrow> True | Some k \<Rightarrow> se_id s \<noteq> k)"
  have "db_users (cn_committed t) = db_users (revoke_sessions_where ?P ?d)
      \<and> db_sessions (cn_committed t) = db_sessions (revoke_sessions_where ?P ?d)"
    using assms by (auto simp: change_password_body_def run p u v pol h act_bind_lift app_hash_def user_policy_def
        act_simps revoke_other_sessions_def act_bind_def[of "revoke_where _"] revoke_where_run split: if_splits)
  moreover have "\<forall>v \<in> set (db_users ?d). us_id v = us_id u \<longrightarrow> us_password_hash v = h \<and> \<not> us_must_change v"
    by (auto simp: map_user_def set_password_def)
  moreover have "\<forall>n \<in> set (db_sessions (revoke_sessions_where ?P ?d)). se_user_id n = us_id u \<longrightarrow> \<not> se_revoked n \<longrightarrow>
      pr_session_id p = Some (se_id n)"
    by (auto simp: revoke_sessions_where_def split: option.splits)
  ultimately show ?thesis
    using g p u v pol h by (intro exI[of _ p] exI[of _ u] exI[of _ h]) (simp add: revoke_sessions_where_def)
qed

theorem change_password_revokes_the_other_sessions_witness:
  "\<exists>t. change_password_body login_ctx login_rq ''pw'' ''a longer password'' (demo_state login_db) = (Inr (), t)
    \<and> (\<exists>u h. hash_password (cx_scrypt login_ctx) ''s'' ''a longer password'' = Inr h)"
proof -
  let ?r = "change_password_body login_ctx login_rq ''pw'' ''a longer password'' (demo_state login_db)"
  let ?p = "session_principal (demo_session ''s1'' ''a'') (hd (db_users login_db))"
  have g: "app_gate login_ctx login_rq None None None (demo_state login_db) = (Inr ?p, demo_state login_db)"
    by code_simp
  have u: "session_user ?p = Inr (hd (db_users login_db))"
    by (simp add: session_user_def session_principal_def)
  have v: "verify_password (cx_scrypt login_ctx) ''pw'' (Some (us_password_hash (hd (db_users login_db)))) = Inr True"
    "user_policy (cx_deny login_ctx) ''new_password'' (us_email (hd (db_users login_db))) ''a longer password'' = Inr ()"
    by code_simp+
  obtain h where h: "hash_password (cx_scrypt login_ctx) (cx_salt login_ctx) ''a longer password'' = Inr h"
    by (simp add: login_ctx_def hash_password_def)
  have "\<not> isl (fst ?r)"
    by (simp add: change_password_body_def act_bind_def[of "app_gate _ _ _ _ _"] g u v h app_hash_def act_simps act_bind_lift
        revoke_other_sessions_def act_bind_def[of "revoke_where _"] revoke_where_run)
  then have r: "?r = (Inr (), snd ?r)" by (cases ?r; cases "fst ?r") auto
  have "cx_salt login_ctx = ''s''" by (simp add: login_ctx_def)
  then show ?thesis using change_password_revokes_the_other_sessions[OF r] r by metis
qed

end
