(* ===== verification/Service.thy ===== *)
theory Service
  imports Health Openapi Playground Stream_Hub Api_Metrics Api_Audit Api_Keys Api_Auth
begin

text \<open>
  The program as \<open>layawatch/__main__.py\<close> puts it together: the routes of every component in the
  order \<open>main\<close> registers them, one router over one state, and the middleware in front of it.
  The engine of the state is a pair: the adapter's own state and the hub of the live stream.
  What the components take from outside (float text, disk, figures of the host) is the record
  \<open>service\<close>. A request is one step: the server runs requests in a pool of threads, and how the
  database transactions of two requests interleave is outside this theory (theory \<open>Users\<close> shows the
  interleaving in which the guard of the last owner fails).
\<close>

record 'a service =
  sc_platform :: platform
  sc_float_text :: "pyfloat \<Rightarrow> string"
  sc_float_of :: "string \<Rightarrow> pyfloat option"
  sc_adapter :: "'a adapter"
  sc_host :: "'a checkpoints"
  sc_disk :: disk
  sc_web_root :: segments
  sc_armed :: bool
  sc_figures :: figures

type_synonym 'a world = "('a \<times> hub) life"

section \<open>Bringing the components to one state\<close>

text \<open>A handler of the identity and telemetry endpoints sees the application part of the state.\<close>

definition with_app :: "'r api \<Rightarrow> ('e, 'r) live" where
  "with_app m s = (let (r, t) = m (app_state.truncate s) in
     (r, s\<lparr>cn_committed := cn_committed t, cn_work := cn_work t, as_backoff := as_backoff t, as_buckets := as_buckets t\<rparr>))"

definition api :: "env \<Rightarrow> (ctx \<Rightarrow> request \<Rightarrow> response api) \<Rightarrow> 'e life handler" where
  "api ev h rq = with_app (h (ev_ctx ev) rq)"

definition on_engine :: "('a \<Rightarrow> 'r \<times> 'a) \<Rightarrow> 'a \<times> hub \<Rightarrow> 'r \<times> 'a \<times> hub" where
  "on_engine f xh = (let (r, x) = f (fst xh) in (r, x, snd xh))"

definition beside_hub :: "'a adapter \<Rightarrow> ('a \<times> hub) adapter" where
  "beside_hub ad = \<lparr>ad_predict = (\<lambda>st qs m t l. on_engine (ad_predict ad st qs m t l)), ad_route = (\<lambda>st qs. on_engine (ad_route ad st qs))\<rparr>"

definition host_beside_hub :: "'a checkpoints \<Rightarrow> ('a \<times> hub) checkpoints" where
  "host_beside_hub ck = \<lparr>ck_listing = on_engine (ck_listing ck), ck_load = (\<lambda>ms. on_engine (ck_load ck ms)),
     ck_unload = (\<lambda>ms. on_engine (ck_unload ck ms)), ck_device = on_engine (ck_device ck)\<rparr>"

definition on_hub :: "(hub \<Rightarrow> 'r \<times> hub) \<Rightarrow> ('a \<times> hub, 'r) live" where
  "on_hub f s = (let (r, h) = f (snd (lf_engine s)) in (Inr r, s\<lparr>lf_engine := (fst (lf_engine s), h)\<rparr>))"

section \<open>Handlers that need more than one component\<close>

text \<open>The export stops within its fuel (\<open>export_always_returns\<close>).\<close>

definition export_handler :: "ctx \<Rightarrow> platform \<Rightarrow> request \<Rightarrow> response api" where
  "export_handler cx pf rq s = (case export_logs cx pf rq s of None \<Rightarrow> (Inl (PyExc RuntimeError), s) | Some r \<Rightarrow> r)"

text \<open>The change of the loaded set is published before the answer.\<close>

definition mutate_route :: "env \<Rightarrow> 'a checkpoints \<Rightarrow> string option \<Rightarrow> ('a \<times> hub) life handler" where
  "mutate_route ev ck forced rq = act_bind (mutate ev (host_beside_hub ck) forced rq) (\<lambda>(resp, loaded, action).
     act_bind (on_hub (\<lambda>h. ((), publish ''model'' (JObj [(''loaded'', JArr (map JStr loaded)), (''action'', JStr action)]) h))) (\<lambda>_.
     act_return resp))"

definition stream_route :: "env \<Rightarrow> ('a \<times> hub) life handler" where
  "stream_route ev rq = act_bind (on_hub (register (cx_mono (ev_ctx ev)) (last_event_id rq))) (\<lambda>r.
     act_bind (act_lift r) (\<lambda>_. act_return \<lparr>rs_status = 200,
       rs_headers = [(''Content-Type'', ''text/event-stream''), (''Cache-Control'', ''no-cache''), (''X-Accel-Buffering'', ''no'')],
       rs_body = RawBody [], rs_stream = True\<rparr>))"

definition meta_route :: "'a service \<Rightarrow> env \<Rightarrow> ('a \<times> hub) life handler" where
  "meta_route sc ev rq = act_bind (on_hub (\<lambda>h. (client_count h, h))) (\<lambda>n.
     act_return (json_response (meta_json (sc_figures sc) n (cx_config (ev_ctx ev))) 200 []))"

section \<open>The routes in the order of registration\<close>

type_synonym 'a route = "string \<times> string \<times> ('a \<times> hub) life handler"

definition health_routes :: "'a service \<Rightarrow> 'a route list" where
  "health_routes sc = [(''GET'', ''/healthz'', healthz (host_beside_hub (sc_host sc)) (sc_armed sc))]"

definition root_routes :: "'a service \<Rightarrow> 'a route list" where
  "root_routes sc = [(''GET'', ''/'', \<lambda>rq. act_lift (root_page (sc_disk sc) (sc_web_root sc) rq))]"

definition meta_routes :: "'a service \<Rightarrow> env \<Rightarrow> 'a route list" where
  "meta_routes sc ev = [(''GET'', ''/api/v1/meta'', meta_route sc ev)]"

definition trace_routes :: "'a service \<Rightarrow> env \<Rightarrow> 'a route list" where
  "trace_routes sc ev =
     [(''GET'', ''/api/v1/traces'', api ev (\<lambda>cx. list_route cx (sc_platform sc))),
      (''GET'', ''/api/v1/traces/*'', api ev (\<lambda>cx. get_route)),
      (''POST'', ''/api/v1/traces/*'', api ev (\<lambda>cx. post_route cx (sc_platform sc))),
      (''DELETE'', ''/api/v1/traces/*'', api ev delete_route)]"

definition range_delete_routes :: "'a service \<Rightarrow> env \<Rightarrow> 'a route list" where
  "range_delete_routes sc ev = [(''DELETE'', ''/api/v1/traces'', api ev (\<lambda>cx. delete_range cx (sc_platform sc)))]"

definition metrics_routes :: "'a service \<Rightarrow> env \<Rightarrow> 'a route list" where
  "metrics_routes sc ev =
     [(''GET'', ''/api/v1/metrics'', api ev (\<lambda>cx. series_route cx (sc_platform sc))),
      (''GET'', ''/api/v1/metrics/summary'', api ev summary_route),
      (''GET'', ''/api/v1/metrics/models'', api ev (\<lambda>cx. models_route cx (sc_platform sc)))]"

definition logs_routes :: "'a service \<Rightarrow> env \<Rightarrow> 'a route list" where
  "logs_routes sc ev =
     [(''GET'', ''/api/v1/logs'', api ev (\<lambda>cx. list_logs cx (sc_platform sc))),
      (''GET'', ''/api/v1/logs/export'', api ev (\<lambda>cx. export_handler cx (sc_platform sc)))]"

definition settings_routes :: "'a service \<Rightarrow> env \<Rightarrow> 'a route list" where
  "settings_routes sc ev =
     [(''GET'', ''/api/v1/settings'', api ev (read_settings (sc_float_of sc))),
      (''POST'', ''/api/v1/settings'', api ev (update_settings (sc_float_text sc) (sc_float_of sc)))]"

definition ratelimit_routes :: "env \<Rightarrow> 'a route list" where
  "ratelimit_routes ev =
     [(''GET'', ''/api/v1/ratelimits'', api ev get_policy),
      (''POST'', ''/api/v1/ratelimits'', api ev update_policy),
      (''GET'', ''/api/v1/ratelimits/usage'', api ev usage_panel),
      (''POST'', ''/api/v1/ratelimits/reset'', api ev reset_limits)]"

definition audit_routes :: "'a service \<Rightarrow> env \<Rightarrow> 'a route list" where
  "audit_routes sc ev = [(''GET'', ''/api/v1/audit'', api ev (\<lambda>cx. list_audit cx (sc_platform sc)))]"

definition playground_routes :: "'a service \<Rightarrow> env \<Rightarrow> 'a route list" where
  "playground_routes sc ev =
     [(''GET'', ''/api/v1/playground/templates'', templates_handler ev),
      (''POST'', ''/api/v1/playground/run'', run_handler ev (beside_hub (sc_adapter sc)))]"

definition user_routes :: "env \<Rightarrow> 'a route list" where
  "user_routes ev =
     [(''GET'', ''/api/v1/users'', api ev list_users),
      (''POST'', ''/api/v1/users'', api ev create_user),
      (''GET'', ''/api/v1/users/*'', api ev get_user_wildcard),
      (''PATCH'', ''/api/v1/users/*'', api ev user_wildcard),
      (''DELETE'', ''/api/v1/users/*'', api ev delete_user_route),
      (''DELETE'', ''/api/v1/sessions'', api ev revoke_other_sessions_route)]"

definition key_routes :: "env \<Rightarrow> 'a route list" where
  "key_routes ev =
     [(''GET'', ''/api/v1/keys'', api ev list_keys),
      (''POST'', ''/api/v1/keys'', api ev create_key),
      (''DELETE'', ''/api/v1/keys'', api ev delete_by_body),
      (''DELETE'', ''/api/v1/keys/*'', api ev delete_by_path),
      (''POST'', ''/api/v1/keys/*'', api ev post_wildcard),
      (''PATCH'', ''/api/v1/keys/*'', api ev patch_key),
      (''GET'', ''/api/v1/keys/auth'', api ev get_auth_state),
      (''POST'', ''/api/v1/keys/auth'', api ev set_auth_state)]"

definition auth_routes :: "env \<Rightarrow> 'a route list" where
  "auth_routes ev =
     [(''POST'', ''/api/v1/auth/login'', api ev login),
      (''POST'', ''/api/v1/auth/logout'', api ev logout),
      (''GET'', ''/api/v1/auth/me'', api ev me),
      (''POST'', ''/api/v1/auth/password'', api ev change_password),
      (''POST'', ''/api/v1/auth/setup'', api ev setup_owner)] @ user_routes ev @ key_routes ev"

definition model_routes :: "'a service \<Rightarrow> env \<Rightarrow> 'a route list" where
  "model_routes sc ev =
     [(''GET'', ''/api/v1/models'', list_models ev (host_beside_hub (sc_host sc)) (rss_mb (sc_figures sc))),
      (''POST'', ''/api/v1/models'', mutate_route ev (sc_host sc) None),
      (''POST'', ''/api/v1/models/load'', mutate_route ev (sc_host sc) (Some ''load'')),
      (''POST'', ''/api/v1/models/unload'', mutate_route ev (sc_host sc) (Some ''unload''))]"

definition engine_routes :: "'a service \<Rightarrow> env \<Rightarrow> 'a route list" where
  "engine_routes sc ev =
     [(''POST'', ''/predict'', predict_handler ev (beside_hub (sc_adapter sc))),
      (''POST'', ''/route'', route_handler (beside_hub (sc_adapter sc)))]"

definition service_routes :: "'a service \<Rightarrow> env \<Rightarrow> 'a route list" where
  "service_routes sc ev = health_routes sc @ root_routes sc @ meta_routes sc ev @ trace_routes sc ev @ range_delete_routes sc ev
     @ metrics_routes sc ev @ logs_routes sc ev @ settings_routes sc ev @ ratelimit_routes ev @ audit_routes sc ev
     @ playground_routes sc ev @ auth_routes ev @ model_routes sc ev @ engine_routes sc ev
     @ [(''GET'', ''/api/v1/stream'', stream_route ev)] @ [(''GET'', ''/*'', static_handler (sc_disk sc) (sc_web_root sc))]"

definition add_route :: "'a route \<Rightarrow> ('a \<times> hub) life router \<Rightarrow> ('a \<times> hub) life router" where
  "add_route e r = (case e of (meth, pat, h) \<Rightarrow> router_add meth pat h r)"

definition service_router :: "'a service \<Rightarrow> env \<Rightarrow> ('a \<times> hub) life router" where
  "service_router sc ev = fold add_route (service_routes sc ev) empty_router"

section \<open>One request\<close>

text \<open>The middleware caches the principal of a browser session on the request.\<close>

definition as_principal :: "principal option \<Rightarrow> env \<Rightarrow> env" where
  "as_principal p ev = ev\<lparr>ev_ctx := (ev_ctx ev)\<lparr>cx_cached := p\<rparr>\<rparr>"

definition service_request :: "'a service \<Rightarrow> env \<Rightarrow> request \<Rightarrow> ('a \<times> hub, response \<times> closing) live" where
  "service_request sc ev rq s =
     (if rq_path rq \<in> set ENGINE_PATHS
      then engine_request (as_principal None ev) True (service_router sc (as_principal None ev)) rq s
      else (case enforce_browser_session (cx_crypto (ev_ctx ev)) (cx_now (ev_ctx ev)) rq s of
          (Inl (HttpErr e), t) \<Rightarrow> (Inr (error_response e (rq_id rq), Closed), t)
        | (Inl (PyExc x), t) \<Rightarrow> (Inl (PyExc x), t)
        | (Inr p, t) \<Rightarrow> (let (resp, u) = dispatch (ev_render ev) (service_router sc (as_principal p ev)) rq t in (Inr (resp, Closed), u))))"

section \<open>The export returns\<close>

lemma page_full:
  assumes "logs_list loads fr flt now ps d = Inr pg" "lp_next pg = Some c" "first_value ps ''limit'' = Some (str_int MAX_LIMIT)"
  shows "length (lp_items pg) = 200"
proof -
  obtain q where q: "parse_log_query loads flt now ps = Inr q" "pg = run_log_query fr q d"
    using assms(1) by (auto simp: logs_list_def res_bind_Inr)
  have "parse_limit (first_value ps ''limit'') DEFAULT_LIMIT = Inr 200"
    unfolding assms(3) parse_limit_def using py_int_limit by (simp add: MAX_LIMIT_def)
  then have "lq_limit q = 200" using q(1) by (auto simp: parse_log_query_def res_bind_Inr)
  then show ?thesis using assms(2) q(2)
    by (auto simp: run_log_query_def keyset_page_def Let_def split: if_splits option.splits)
qed

lemma export_loop_returns:
  assumes "\<And>raw. first_value (case raw of None \<Rightarrow> win | Some x \<Rightarrow> dict_set ''cursor'' [x] win) ''limit'' = Some (str_int MAX_LIMIT)"
  shows "10000 \<le> length items + 200 * fuel \<Longrightarrow> \<exists>r. export_loop (\<lambda>ps. logs_list loads fr flt now ps d) win fuel raw items = Some r"
proof (induction fuel arbitrary: raw items)
  case 0
  then show ?case by (subst export_loop.simps) (simp add: EXPORT_LIMIT_def)
next
  case (Suc n)
  let ?list = "\<lambda>ps. logs_list loads fr flt now ps d"
  let ?ps = "case raw of None \<Rightarrow> win | Some x \<Rightarrow> dict_set ''cursor'' [x] win"
  have onward: "\<exists>r. export_loop ?list win n (Some c) (items @ lp_items pg) = Some r" if "?list ?ps = Inr pg" "lp_next pg = Some c" for pg c
    by (rule Suc.IH) (use page_full[OF that assms] Suc.prems in simp)
  show ?case
    by (subst export_loop.simps) (use onward in \<open>auto simp: split: sum.splits option.splits\<close>)
qed

text \<open>Whatever the request, the cursors of the pages and the database: a page with a successor is full, so
  the fuel covers the cap.\<close>

lemma export_always_returns: "\<exists>r. export_logs cx pf rq s = Some r"
proof -
  have w: "first_value (case raw of None \<Rightarrow> export_window pf now r | Some x \<Rightarrow> dict_set ''cursor'' [x] (export_window pf now r)) ''limit''
      = Some (str_int MAX_LIMIT)" for raw now r
    by (simp add: first_value_def export_window_def split: option.splits)
  have "\<exists>r. export_items cx pf token d = Some r" for token d
    using export_loop_returns[OF w, of "[]" EXPORT_FUEL] by (auto simp: export_items_def EXPORT_FUEL_def split: sum.splits)
  then obtain f where "\<And>token d. export_items cx pf token d = Some (f token d)" by metis
  then show ?thesis by (simp add: export_logs_def split: sum.splits)
qed

end
