(* ===== verification/Service_Db.thy ===== *)
theory Service_Db
  imports Service
begin

text \<open>
  What a request of the assembled program does to the database. The rules of \<open>keeps\<close> go through
  the spans, the engine and the hub, then through the router and the middleware; the contract of
  a request is a locale.
\<close>

section \<open>Programs of a request in flight\<close>

lemma keeps_sum [keeps_rules]:
  "(\<And>a. keeps I (m a)) \<Longrightarrow> (\<And>b. keeps I (n b)) \<Longrightarrow> keeps I (case r of Inl a \<Rightarrow> m a | Inr b \<Rightarrow> n b)"
  by (cases r) simp_all

lemma keeps_get [keeps_rules]: "keeps I (act_get f)"
  by (simp add: keeps_def act_get_def)

lemma keeps_same:
  assumes "\<And>s. cn_committed (snd (m s)) = cn_committed s \<and> cn_work (snd (m s)) = cn_work s"
  shows "keeps I m"
  using assms by (simp add: keeps_def conn_inv_def)

lemma keeps_in_trace [keeps_rules]: "keeps I (in_trace d m)"
  by (rule keeps_same) (auto simp: in_trace_def split: option.splits prod.splits sum.splits)

lemma keeps_trace [keeps_rules]:
  "keeps I (trace_set kvs)" "keeps I (trace_set_meta kvs)" "keeps I (trace_event ev name i out attrs)" "keeps I (enter_span ev name attrs)"
  unfolding trace_set_def trace_set_meta_def
  by (rule keeps_in_trace keeps_same, auto simp: trace_event_def in_trace_def enter_span_def Let_def split: option.splits prod.splits sum.splits)+

lemma leave_same [simp]: "cn_committed (leave_span ev h raised s) = cn_committed s" "cn_work (leave_span ev h raised s) = cn_work s"
  by (auto simp: leave_span_def split: option.splits)

lemma finish_same [simp]: "cn_committed (finish_trace ev st s) = cn_committed s" "cn_work (finish_trace ev st s) = cn_work s"
  by (auto simp: finish_trace_def Let_def split: option.splits prod.splits)

lemma begin_same [simp]: "cn_committed (begin_request ev rq s) = cn_committed s" "cn_work (begin_request ev rq s) = cn_work s"
  by (simp_all add: begin_request_def)

lemma conn_inv_same: "cn_committed t = cn_committed s \<Longrightarrow> cn_work t = cn_work s \<Longrightarrow> conn_inv I t = conn_inv I s"
  by (simp add: conn_inv_def)

lemma keeps_with_span [keeps_rules]: "keeps I m \<Longrightarrow> keeps I (with_span ev name attrs m)"
  unfolding with_span_def
proof (rule keeps_bind[OF keeps_trace(4)])
  fix h
  assume m: "keeps I m"
  show "keeps I (\<lambda>s. let (r, t) = m s in (r, case h of None \<Rightarrow> t | Some h \<Rightarrow> leave_span ev h (isl r) t))"
    unfolding keeps_def using keepsD[OF m] by (auto simp: conn_inv_def split: prod.splits option.splits) (metis snd_conv)+
qed

lemma keeps_engine [keeps_rules]: "keeps I (in_engine f)" "keeps I (with_engine g)" "keeps I (on_hub u)"
  by (rule keeps_same, simp add: in_engine_def with_engine_def on_hub_def split: prod.splits)+

lemma keeps_parsed [keeps_rules]: "keeps I (act_modify (\<lambda>s. s\<lparr>lf_parsed := p\<rparr>))"
  by (simp add: keeps_def act_modify_def conn_inv_def)

lemma keeps_with_app [keeps_rules]: "keeps I m \<Longrightarrow> keeps I (with_app m)"
  unfolding keeps_def
proof (intro allI impI)
  fix s :: "'b life"
  assume m: "\<forall>c. conn_inv I c \<longrightarrow> conn_inv I (snd (m c))" and s: "conn_inv I s"
  then have "conn_inv I (snd (m (app_state.truncate s)))" by (simp add: conn_inv_def app_state.truncate_def)
  then show "conn_inv I (snd (with_app m s))" by (cases "m (app_state.truncate s)") (simp add: with_app_def conn_inv_def)
qed

section \<open>The router and the middleware\<close>

definition guards :: "(db \<Rightarrow> bool) \<Rightarrow> ('x, 'z conn_scheme, 'a) act \<Rightarrow> bool" where
  "guards I m \<longleftrightarrow> (\<forall>s. conn_inv I s \<longrightarrow> conn_inv I (snd (m s)))"

lemma guardsD: "guards I m \<Longrightarrow> m s = (r, t) \<Longrightarrow> conn_inv I s \<Longrightarrow> conn_inv I t"
  by (metis guards_def snd_conv)

lemma guards_keeps: "keeps I m \<Longrightarrow> guards I m"
  by (simp add: guards_def keeps_def)

lemma guards_phased: "keeps I m \<Longrightarrow> guards I (phased ph m)"
  using keepsD by (fastforce simp: guards_def phased_def split: prod.splits sum.splits)

lemma guards_bind:
  assumes "guards I m" "\<And>a. guards I (f a)"
  shows "guards I (act_bind m f)"
  using assms by (fastforce simp: guards_def act_bind_def split: prod.splits sum.splits)

text \<open>The handler the router runs is one of the routes, with a pattern that covers the path.\<close>

definition covers :: "string \<Rightarrow> string \<Rightarrow> bool" where
  "covers pat path \<longleftrightarrow> (if is_prefix_pattern pat then prefix (butlast pat) path else pat = path)"

definition entries_from :: "'a route list \<Rightarrow> ('a \<times> hub) life router \<Rightarrow> bool" where
  "entries_from rs r \<longleftrightarrow>
     (\<forall>pat ms m h. (pat, ms) \<in> set (rt_exact r) \<and> (m, h) \<in> set ms \<longrightarrow> \<not> is_prefix_pattern pat \<and> (\<exists>meth. (meth, pat, h) \<in> set rs \<and> py_upper_ascii meth = m))
     \<and> (\<forall>pat ms m h. (pat, ms) \<in> set (rt_prefixes r) \<and> (m, h) \<in> set ms \<longrightarrow> is_prefix_pattern pat \<and> (\<exists>meth. (meth, pat, h) \<in> set rs \<and> py_upper_ascii meth = m))"

lemma dict_set_in: "(k, v) \<in> set (dict_set a b d) \<Longrightarrow> (k, v) = (a, b) \<or> (k, v) \<in> set d"
  using set_dict_set_subset[of a b d] by auto

lemma methods_in_entry: "(m, h) \<in> set (methods_in table pat) \<Longrightarrow> \<exists>ms. (pat, ms) \<in> set table \<and> (m, h) \<in> set ms"
  by (cases "map_of table pat") (auto simp: methods_in_def dest: map_of_SomeD)

lemma entries_add:
  assumes "entries_from rs r" "e \<in> set rs"
  shows "entries_from rs (add_route e r)"
  using assms
  by (cases e) (fastforce simp: add_route_def router_add_def entries_from_def dest!: dict_set_in methods_in_entry)

lemma entries_fold:
  assumes "entries_from rs r" "set es \<subseteq> set rs"
  shows "entries_from rs (fold add_route es r)"
  using assms by (induction es arbitrary: r) (simp_all add: entries_add)

lemma entries_service: "entries_from (service_routes sc ev) (service_router sc ev)"
  unfolding service_router_def by (rule entries_fold) (simp_all add: entries_from_def empty_router_def)

lemma matched_route:
  assumes "entries_from rs r" "router_match r path = Some ms" "map_of ms m = Some h"
  obtains meth pat where "(meth, pat, h) \<in> set rs" "covers pat path"
proof (cases "map_of (rt_exact r) path")
  case (Some es)
  then have "(path, ms) \<in> set (rt_exact r)" "(m, h) \<in> set ms" using assms(2,3) by (auto simp: router_match_def dest: map_of_SomeD)
  then have "\<not> is_prefix_pattern path" "\<exists>meth. (meth, path, h) \<in> set rs" using assms(1) unfolding entries_from_def by blast+
  then show ?thesis using that by (auto simp: covers_def)
next
  case None
  then obtain pat where b: "best_prefix path (rt_prefixes r) None (-1) = Some (pat, ms)"
    using assms(2) by (auto simp: router_match_def)
  have "(pat, ms) \<in> set (rt_prefixes r)" "prefix (butlast pat) path"
    using best_prefix_spec[of path "rt_prefixes r"] unfolding b by (auto simp: prefix_matches_def)
  moreover have "(m, h) \<in> set ms" using assms(3) by (rule map_of_SomeD)
  ultimately have "is_prefix_pattern pat" "\<exists>meth. (meth, pat, h) \<in> set rs" "prefix (butlast pat) path"
    using assms(1) unfolding entries_from_def by blast+
  then show ?thesis using that by (auto simp: covers_def)
qed

lemma keeps_route:
  assumes "entries_from rs r" "\<And>meth pat h. (meth, pat, h) \<in> set rs \<Longrightarrow> covers pat (rq_path rq) \<Longrightarrow> keeps I (h rq)"
  shows "keeps I (route fr r rq)"
proof (cases "router_match r (rq_path rq)")
  case None
  then show ?thesis by (simp add: route_def keeps_return)
next
  case (Some ms)
  have h: "keeps I (h rq)" if "map_of ms m = Some h" for m h
    using matched_route[OF assms(1) Some that] assms(2) by metis
  show ?thesis unfolding route_def Some option.case Let_def
    by (auto intro!: keeps_return keeps_bind dest!: h split: option.splits)
qed

lemma dispatch_inv:
  assumes "keeps I (route fr r rq)" "conn_inv I s"
  shows "conn_inv I (snd (dispatch fr r rq s))"
  using keepsD[OF assms] by (cases "route fr r rq s") (simp add: dispatch_def Let_def)

lemma keeps_dispatched: "keeps I (route (ev_render ev) r rq) \<Longrightarrow> keeps I (dispatched ev r rq)"
  using dispatch_inv[of I "ev_render ev" r rq]
  by (simp add: keeps_def[of I "dispatched ev r rq"] dispatched_def case_prod_beta Let_def)

lemma keeps_notes [keeps_rules]: "keeps I (note_error ev a b c w)" "keeps I (record_failure_of ev resp ph)" "keeps I (note_failure ev ph e)"
proof -
  show n: "keeps I (note_error ev a b c w)" for a b c w unfolding note_error_def by (intro keeps_rules)
  show "keeps I (record_failure_of ev resp ph)" unfolding record_failure_of_def by (cases "envelope_error ev resp") (simp add: n)
  show "keeps I (note_failure ev ph e)" unfolding note_failure_def by (cases e) (simp_all add: n)
qed

lemma keeps_parse_body: "keeps I (parse_body ev rq)"
  unfolding parse_body_def by (intro keeps_rules)

lemma keeps_close_now: "keeps I (close_now ev st resp)"
  unfolding close_now_def
  by (intro keeps_bind keeps_with_span keeps_return) (simp add: keeps_def conn_inv_def)

lemma keeps_close_request: "keeps I (close_request ev b resp)"
  unfolding keeps_def
proof (intro allI impI)
  fix s :: "'a life"
  assume s: "conn_inv I s"
  show "conn_inv I (snd (close_request ev b resp s))"
  proof (cases b)
    case True
    obtain r t where e: "enter_span ev ''response.send'' (send_attrs ev (rs_status resp) resp) s = (r, t)" by fastforce
    have t: "conn_inv I t" using keepsD[OF keeps_trace(4) s] e by (metis snd_conv)
    have "conn_inv I (snd (act_bind (close_now ev (rs_status resp) resp) (\<lambda>_. act_raise x :: ('a, response \<times> closing) live) t))" for x
      by (rule keepsD[OF _ t]) (intro keeps_bind keeps_close_now keeps_raise)
    then show ?thesis using t True by (cases r) (simp_all add: close_request_def e)
  next
    case False
    have "keeps I (act_bind (close_now ev (rs_status resp) resp) (\<lambda>_. act_return (resp, Closed)))"
      by (intro keeps_bind keeps_close_now keeps_return)
    from keepsD[OF this s] show ?thesis using False by (simp add: close_request_def)
  qed
qed

lemma guards_stages:
  fixes r :: "'e life router"
  assumes "keeps I (verify_auth ev rq :: ('e, unit) live)" "keeps I (route (ev_render ev) r rq)"
  shows "guards I (engine_stages ev r rq)"
  unfolding engine_stages_def
  by (intro guards_bind guards_phased keeps_with_span keeps_return assms(1) keeps_parse_body keeps_bind keeps_dispatched[OF assms(2)]
      keeps_when keeps_notes)

lemma keeps_engine_request:
  fixes r :: "'e life router"
  assumes "keeps I (verify_auth ev rq :: ('e, unit) live)" "keeps I (route (ev_render ev) r rq)"
  shows "keeps I (engine_request ev b r rq)"
  unfolding keeps_def
proof (intro allI impI)
  fix s :: "'e life"
  assume s: "conn_inv I s"
  obtain x t where st: "engine_stages ev r rq (begin_request ev rq s) = (x, t)" by fastforce
  have t: "conn_inv I t" using guardsD[OF guards_stages[OF assms] st] s by (simp add: conn_inv_def)
  show "conn_inv I (snd (engine_request ev b r rq s))"
  proof (cases x)
    case (Inr resp)
    then show ?thesis using keepsD[OF keeps_close_request t] by (simp add: engine_request_def st)
  next
    case (Inl pe)
    obtain ph e where pe: "pe = (ph, e)" by fastforce
    obtain y u where n: "note_failure ev ph e t = (y, u)" by fastforce
    have u: "conn_inv I u" using keepsD[OF keeps_notes(3) t] n by (metis snd_conv)
    have "conn_inv I (snd (act_bind (close_now ev 500 (failure_response rq e)) (\<lambda>_. act_raise x :: ('e, response \<times> closing) live) u))" for x
      by (rule keepsD[OF _ u]) (intro keeps_bind keeps_close_now keeps_raise)
    then show ?thesis using keepsD[OF keeps_close_request u]
      by (cases y) (simp_all add: engine_request_def st Inl pe n)
  qed
qed

section \<open>The contract of a request\<close>

text \<open>What is asked of the components for an invariant to survive one request: its handlers keep it, under
  every principal the session check may cache, and so do the session check and the key check.\<close>

locale request_contract =
  fixes I :: "db \<Rightarrow> bool" and sc :: "'a service" and ev :: env and rq :: request
  assumes handlers: "(meth, pat, h) \<in> set (service_routes sc (as_principal p ev)) \<Longrightarrow> covers pat (rq_path rq)
      \<Longrightarrow> p = None \<or> (\<exists>s :: 'a world. fst (enforce_browser_session (cx_crypto (ev_ctx ev)) (cx_now (ev_ctx ev)) rq s) = Inr p)
      \<Longrightarrow> keeps I (h rq)"
    and session_check: "keeps I (enforce_browser_session (cx_crypto (ev_ctx ev)) (cx_now (ev_ctx ev)) rq :: ('a \<times> hub, principal option) live)"
    and key_check: "keeps I (verify_auth (as_principal None ev) rq :: ('a \<times> hub, unit) live)"
begin

lemma routed:
  assumes "p = None \<or> (\<exists>s :: 'a world. fst (enforce_browser_session (cx_crypto (ev_ctx ev)) (cx_now (ev_ctx ev)) rq s) = Inr p)"
  shows "keeps I (route fr (service_router sc (as_principal p ev)) rq)"
  by (rule keeps_route[OF entries_service]) (rule handlers, assumption+, rule assms)

lemma request_keeps: "keeps I (service_request sc ev rq)"
  unfolding keeps_def
proof (intro allI impI)
  fix s :: "'a world"
  assume s: "conn_inv I s"
  have engine: "keeps I (engine_request (as_principal None ev) True (service_router sc (as_principal None ev)) rq)"
    by (rule keeps_engine_request[OF key_check routed]) simp
  obtain r t where e: "enforce_browser_session (cx_crypto (ev_ctx ev)) (cx_now (ev_ctx ev)) rq s = (r, t)" by fastforce
  have t: "conn_inv I t" using keepsD[OF session_check s] e by (metis snd_conv)
  have out: "conn_inv I (snd (dispatch (ev_render ev) (service_router sc (as_principal p ev)) rq t))" if "r = Inr p" for p
    by (rule dispatch_inv[OF routed t]) (use e that in \<open>metis fst_conv\<close>)
  show "conn_inv I (snd (service_request sc ev rq s))"
  proof (cases "rq_path rq \<in> set ENGINE_PATHS")
    case True
    then show ?thesis using keepsD[OF engine s] by (simp add: service_request_def)
  next
    case False
    then show ?thesis using out t by (cases r) (auto simp: service_request_def e split: exn.splits prod.splits)
  qed
qed

end

end
