(* ===== verification/Service_Access.thy ===== *)
theory Service_Access
  imports Service_Db
begin

text \<open>
  Who may do what to the assembled program: an enabled owner survives every request, a request
  without a credential reaches no account, session, key or setting outside signing in and the
  first run, and the operations documented with a credential refuse it.
\<close>

section \<open>Handlers that leave the identity tables alone\<close>

definition identity_of :: "db \<Rightarrow> user list \<times> session list \<times> api_key list \<times> (string \<times> setting) list" where
  "identity_of d = (db_users d, db_sessions d, db_keys d, db_settings d)"

definition identity_only :: "(db \<Rightarrow> bool) \<Rightarrow> bool" where
  "identity_only I \<longleftrightarrow> (\<forall>d e. identity_of e = identity_of d \<longrightarrow> I d \<longrightarrow> I e)"

lemma identity_only_rules: "identity_only owner_inv" "identity_only (\<lambda>d. identity_of d = k)"
  unfolding identity_only_def identity_of_def using owner_inv_cong by (metis prod.inject) simp

lemma keeps_exec_identity: "identity_only I \<Longrightarrow> (\<And>d. identity_of (f d) = identity_of d) \<Longrightarrow> keeps I (db_exec f)"
  by (rule keeps_exec) (auto simp: identity_only_def)

lemma identity_simps [simp]:
  "identity_of (insert_audit now a b c e f d) = identity_of d"
  "identity_of (set_trace_tags tid tags d) = identity_of d"
  "identity_of (snd (delete_traces_where P d)) = identity_of d"
  "identity_of (snd (delete_trace tid d)) = identity_of d"
  by (simp_all add: identity_of_def insert_audit_def audit_entry_def set_trace_tags_def delete_trace_def delete_traces_where_def Let_def)

lemma identity_scores: "insert_scores ss d = Inr e \<Longrightarrow> identity_of e = identity_of d"
  by (auto simp: insert_scores_def identity_of_def split: if_splits)

lemma keeps_identity_writes:
  assumes "identity_only I"
  shows "keeps I (db_exec (insert_audit now a b c e f))" "keeps I (db_exec (set_trace_tags tid tags))"
    "keeps I (db_try (insert_scores ss))"
  using assms identity_scores by (auto intro!: keeps_exec_identity keeps_db_try simp: identity_only_def)

lemma keeps_read: "keeps I (read_route q f)"
  unfolding read_route_def by (intro keeps_rules)

lemma keeps_trace_reads: "keeps I (list_route cx pf rq)" "keeps I (get_route rq)"
  unfolding list_route_def get_route_def detail_route_def observations_route_def load_detail_def
  by (intro keeps_rules | simp add: keeps_return keeps_raise split: list.splits option.splits | intro conjI allI impI)+

lemma keeps_trace_posts: "identity_only I \<Longrightarrow> keeps I (post_route cx pf rq)"
  unfolding post_route_def scores_route_def tags_route_def Let_def
  by (auto split: list.splits intro!: keeps_rules keeps_prod keeps_identity_writes)

lemma keeps_trace_delete: "identity_only I \<Longrightarrow> keeps I (delete_route cx rq)"
  unfolding delete_route_def delete_one_def
  by (auto split: list.splits intro!: keeps_rules keeps_replace keeps_identity_writes simp: identity_only_def)

lemma keeps_logs: "keeps I (list_logs cx pf rq)" "keeps I (export_handler cx pf rq)"
proof -
  show "keeps I (list_logs cx pf rq)" unfolding list_logs_def by (intro keeps_rules)
  show "keeps I (export_handler cx pf rq)"
    by (auto simp: keeps_def export_handler_def export_logs_def conn_inv_def conn_close_def split: option.splits sum.splits)
qed

lemma keeps_read_settings: "keeps I (read_settings flt cx rq)"
  unfolding read_settings_def by (intro keeps_rules)

lemma keeps_host: "keeps I (healthz ck armed rq)" "keeps I (list_models ev ck rss rq)" "keeps I (meta_route sc ev rq)" "keeps I (stream_route ev rq)"
  unfolding healthz_def list_models_def meta_route_def stream_route_def Let_def by (intro keeps_rules)+

lemma keeps_mutate: "identity_only I \<Longrightarrow> keeps I (mutate_route ev ck forced rq)"
  unfolding mutate_route_def mutate_def apply_mutation_def
  by (intro keeps_rules keeps_prod keeps_identity_writes)

lemma keeps_predictions: "keeps I (predict_handler ev ad rq)" "keeps I (route_handler ad rq)" "keeps I (played ev ad rq)"
proof -
  have pay: "keeps I (record_payload ev kvs r)" for kvs r
    by (rule keeps_same) (auto simp: record_payload_def trace_event_def in_trace_def split: option.splits prod.splits sum.splits)
  show "keeps I (predict_handler ev ad rq)" "keeps I (route_handler ad rq)" "keeps I (played ev ad rq)"
    unfolding predict_handler_def route_handler_def played_def probe_def record_request_def record_result_def
    by (intro keeps_rules pay)+
qed

lemma keeps_play_run: "keeps I (play_run ev ad rq)"
  unfolding keeps_def
proof (intro allI impI)
  fix s :: "'a life"
  assume s: "conn_inv I s"
  have b: "conn_inv I (begin_request ev rq s)" using s by (simp add: conn_inv_def)
  obtain r t where m: "trace_set_meta [(''source'', JStr ''playground'')] (begin_request ev rq s) = (r, t)" by fastforce
  have t: "conn_inv I t" using keepsD[OF keeps_trace(2) b] m by (metis snd_conv)
  obtain x u where p: "played ev ad rq t = (x, u)" by fastforce
  have u: "conn_inv I u" using keepsD[OF keeps_predictions(3) t] p by (metis snd_conv)
  have close: "keeps I (act_bind (close_play ev st n) f)" if "\<And>a. keeps I (f a)" for st n and f :: "unit \<Rightarrow> ('a, response) live"
    unfolding close_play_def
    by (intro keeps_bind keeps_with_span keeps_return that) (simp add: keeps_def conn_inv_def)
  have ok: "conn_inv I (snd (act_bind (close_play ev st n) (\<lambda>_. act_return resp) u))" for st n and resp :: response
    by (rule keepsD[OF close u]) (rule keeps_return)
  have bad: "conn_inv I (snd (act_bind (close_play ev st n) (\<lambda>_. act_raise e :: ('a, response) live) v))" if "conn_inv I v" for st n e v
    by (rule keepsD[OF close that]) (rule keeps_raise)
  show "conn_inv I (snd (play_run ev ad rq s))"
  proof (cases r)
    case (Inl e)
    then show ?thesis using t by (simp add: play_run_def m)
  next
    case (Inr z)
    show ?thesis
    proof (cases x)
      case (Inr resp)
      then show ?thesis using ok \<open>r = Inr z\<close> by (simp add: play_run_def m p)
    next
      case (Inl e)
      obtain y v where n: "note_play ev e u = (y, v)" by fastforce
      have "keeps I (note_play ev e)" unfolding note_play_def by (cases e) (simp_all add: keeps_notes keeps_trace)
      from keepsD[OF this u] have "conn_inv I v" using n by (metis snd_conv)
      then show ?thesis using bad Inl \<open>r = Inr z\<close> by (cases y) (simp_all add: play_run_def m p n)
    qed
  qed
qed

section \<open>The owner\<close>

lemma keeps_exec_owner: "(\<And>d. db_users (f d) = db_users d) \<Longrightarrow> keeps owner_inv (db_exec f)"
  using owner_inv_cong by (intro keeps_exec) metis

lemma put_setting_users [simp]: "db_users (put_setting k v now by d) = db_users d"
  by (simp add: put_setting_def)

lemma fold_put_users: "(\<And>x d. db_users (f x d) = db_users d) \<Longrightarrow> db_users (fold f xs d) = db_users d"
  by (induction xs arbitrary: d) simp_all

lemma written_users [simp]:
  "db_users (write_controls now a stored d) = db_users d" "db_users (upsert_policy now ups a d) = db_users d"
  "db_users (map_key kid g d) = db_users d" "db_users (snd (delete_traces_where P d)) = db_users d"
  unfolding write_controls_def upsert_policy_def
  by (auto intro!: fold_put_users simp: upsert_field_def map_key_def delete_traces_where_def Let_def split: option.splits prod.splits)

lemmas owner_rules = keeps_rules keeps_prod keeps_session_ops gate_blind_owner keeps_exec_owner

lemma keeps_load_key: "keeps I (load_key kid)"
  unfolding load_key_def by (intro keeps_rules)

lemma keeps_insert_key: "keeps owner_inv (insert_key k)"
  unfolding insert_key_def by (intro owner_rules) simp

lemma owner_keys:
  "keeps owner_inv (list_keys cx rq)" "keeps owner_inv (create_key cx rq)" "keeps owner_inv (delete_by_path cx rq)"
  "keeps owner_inv (delete_by_body cx rq)" "keeps owner_inv (post_wildcard cx rq)" "keeps owner_inv (patch_key cx rq)"
  "keeps owner_inv (get_auth_state cx rq)" "keeps owner_inv (set_auth_state cx rq)"
  unfolding list_keys_def create_key_def delete_by_path_def delete_by_body_def post_wildcard_def patch_key_def get_auth_state_def
    set_auth_state_def revoke_key_def rotate_key_def set_limits_def Let_def
  by (auto intro!: owner_rules keeps_load_key keeps_insert_key split: list.splits)

lemma owner_policy:
  "keeps owner_inv (get_policy cx rq)" "keeps owner_inv (update_policy cx rq)" "keeps owner_inv (usage_panel cx rq)"
  "keeps owner_inv (reset_limits cx rq)" "keeps owner_inv (update_settings fr flt cx rq)"
  unfolding get_policy_def update_policy_def usage_panel_def reset_limits_def update_settings_def settings_transaction_def Let_def
  by (auto intro!: owner_rules keeps_require_permission split: option.splits prod.splits)

lemma owner_gated_reads: "keeps owner_inv (list_audit cx pf rq)" "keeps owner_inv (delete_range cx pf rq)"
proof -
  show "keeps owner_inv (list_audit cx pf rq)" unfolding list_audit_def by (intro owner_rules)
  have "owner_inv (snd (delete_traces_where P d))" if "owner_inv d" for P d
    using that owner_inv_cong[OF written_users(4)] by metis
  then show "keeps owner_inv (delete_range cx pf rq)"
    unfolding delete_range_def by (intro keeps_rules keeps_replace keeps_gate keeps_audit_blind gate_blind_owner)
qed

lemma owner_play: "keeps owner_inv (play_gate ev rq perm)" "keeps owner_inv (templates_handler ev rq)" "keeps owner_inv (run_handler ev ad rq)"
proof -
  show g: "keeps owner_inv (play_gate ev rq perm)" for perm
    unfolding play_gate_def gate_def
    by (auto intro!: keeps_rules keeps_authenticate keeps_require_permission)
  show "keeps owner_inv (templates_handler ev rq)" "keeps owner_inv (run_handler ev ad rq)"
    unfolding templates_handler_def run_handler_def by (intro keeps_rules g keeps_play_run)+
qed

text \<open>Every route of the program.\<close>

lemma owner_static: "keeps owner_inv (static_handler dk web_root rq)"
  unfolding static_handler_def by (rule keeps_lift)

lemmas ungated_kept = keeps_trace_reads keeps_read keeps_logs keeps_read_settings keeps_host keeps_predictions(1,2) keeps_lift

lemma owner_routes: "(meth, pat, h) \<in> set (service_routes sc ev) \<Longrightarrow> keeps owner_inv (h rq)"
  unfolding service_routes_def health_routes_def root_routes_def meta_routes_def trace_routes_def range_delete_routes_def metrics_routes_def
    logs_routes_def settings_routes_def ratelimit_routes_def audit_routes_def playground_routes_def auth_routes_def user_routes_def
    key_routes_def model_routes_def engine_routes_def
  by (auto simp: api_def series_route_def summary_route_def models_route_def
      intro!: keeps_with_app owner_static ungated_kept owner_keys owner_policy owner_gated_reads owner_play keeps_user_handlers
        keeps_login keeps_logout keeps_me keeps_change_password keeps_setup keeps_trace_posts keeps_trace_delete keeps_mutate identity_only_rules)

interpretation owner_contract: request_contract owner_inv sc ev rq for sc :: "'a service" and ev rq
proof
  show "keeps owner_inv (h rq)" if "(meth, pat, h) \<in> set (service_routes sc (as_principal p ev))" for meth pat p and h :: "('a \<times> hub) life handler"
    using owner_routes that .
  show "keeps owner_inv (enforce_browser_session (cx_crypto (ev_ctx ev)) (cx_now (ev_ctx ev)) rq :: ('a \<times> hub, principal option) live)"
    unfolding enforce_browser_session_def Let_def
    by (auto intro!: keeps_rules keeps_resolve_session split: prod.splits option.splits)
  show "keeps owner_inv (verify_auth (as_principal None ev) rq :: ('a \<times> hub, unit) live)"
    unfolding verify_auth_def check_credential_def Let_def
    by (auto intro!: keeps_rules keeps_prod keeps_verify_key split: prod.splits)
qed

definition served :: "'a service \<Rightarrow> env \<times> request \<Rightarrow> 'a world \<Rightarrow> 'a world" where
  "served sc e s = snd (service_request sc (fst e) (snd e) s)"

text \<open>C1: Whatever requests arrive, in whatever order, on whatever route of the assembled program and with whatever
  credentials, drawn values and engine: an instance that has an enabled owner has one after all of
  them, in the committed state and in the open work. Requests run one after the other here.\<close>

theorem service_keeps_an_owner:
  assumes "conn_inv owner_inv s"
  shows "conn_inv owner_inv (fold (served sc) requests s)"
  using assms
proof (induction requests arbitrary: s)
  case (Cons e es)
  have "conn_inv owner_inv (served sc e s)"
    unfolding served_def by (rule keepsD[OF owner_contract.request_keeps Cons.prems])
  then show ?case using Cons.IH by simp
qed simp

section \<open>Requests without a credential\<close>

definition anonymous :: "request \<Rightarrow> bool" where
  "anonymous rq \<longleftrightarrow> session_token_from rq = None \<and> presented_key rq = None"

text \<open>A program that always raises, and has at most closed its handle.\<close>

definition refuses :: "('z, 'a) prog \<Rightarrow> bool" where
  "refuses m \<longleftrightarrow> (\<forall>s. \<exists>e. fst (m s) = Inl e \<and> (snd (m s) = s \<or> snd (m s) = conn_close s))"

lemma refuses_raise: "refuses (act_raise e)"
  by (simp add: refuses_def act_raise_def)

lemma refuses_bind: "refuses m \<Longrightarrow> refuses (act_bind m f)"
  unfolding refuses_def
proof
  fix s
  assume m: "\<forall>s. \<exists>e. fst (m s) = Inl e \<and> (snd (m s) = s \<or> snd (m s) = conn_close s)"
  obtain e t where "m s = (Inl e, t)" "t = s \<or> t = conn_close s" using m by (metis prod.collapse)
  then show "\<exists>e. fst (act_bind m f s) = Inl e \<and> (snd (act_bind m f s) = s \<or> snd (act_bind m f s) = conn_close s)"
    by (simp add: act_bind_def)
qed

lemma refuses_after_lift: "(\<And>a. refuses (f a)) \<Longrightarrow> refuses (act_bind (act_lift r) f)"
  by (cases r) (simp_all add: refuses_def act_bind_lift)

lemma refuses_with_conn: "refuses m \<Longrightarrow> refuses (with_conn m)"
  unfolding refuses_def
proof
  fix s
  assume m: "\<forall>s. \<exists>e. fst (m s) = Inl e \<and> (snd (m s) = s \<or> snd (m s) = conn_close s)"
  obtain e t where r: "m s = (Inl e, t)" "t = s \<or> t = conn_close s" using m by (metis prod.collapse)
  have "conn_close t = conn_close s" using r(2) by (auto simp: conn_close_def)
  then show "\<exists>e. fst (with_conn m s) = Inl e \<and> (snd (with_conn m s) = s \<or> snd (with_conn m s) = conn_close s)"
    by (simp add: with_conn_def act_finally_def r(1))
qed

lemma refuses_if: "refuses m \<Longrightarrow> refuses n \<Longrightarrow> refuses (if b then m else n)"
  by simp

lemma refuses_prod: "(\<And>a b. refuses (m a b)) \<Longrightarrow> refuses (case p of (a, b) \<Rightarrow> m a b)"
  by (cases p) simp

lemma refuses_let: "refuses (f x) \<Longrightarrow> refuses (let y = x in f y)"
  by simp

lemma refuses_gate:
  assumes "anonymous rq" "cached = None"
  shows "refuses (gate cr now pepper cached rq perm a t)"
  using assms by (simp add: refuses_def gate_def authenticate_def anonymous_def act_bind_def act_return_def act_raise_def)

lemma refuses_app_gate: "anonymous rq \<Longrightarrow> cx_cached cx = None \<Longrightarrow> refuses (app_gate cx rq perm a t)"
  unfolding app_gate_def by (rule refuses_gate)

lemma refuses_with_app: "refuses m \<Longrightarrow> refuses (with_app m)"
  unfolding refuses_def
proof
  fix s :: "'b life"
  assume m: "\<forall>s. \<exists>e. fst (m s) = Inl e \<and> (snd (m s) = s \<or> snd (m s) = conn_close s)"
  obtain e where e: "fst (m (app_state.truncate s)) = Inl e"
    "snd (m (app_state.truncate s)) = app_state.truncate s \<or> snd (m (app_state.truncate s)) = conn_close (app_state.truncate s)"
    using m by blast
  have same: "s\<lparr>cn_committed := cn_committed s, cn_work := cn_work s, as_backoff := as_backoff s, as_buckets := as_buckets s\<rparr> = s" by simp
  show "\<exists>e. fst (with_app m s) = Inl e \<and> (snd (with_app m s) = s \<or> snd (with_app m s) = conn_close s)"
    using e by (cases "m (app_state.truncate s)") (auto simp: with_app_def app_state.truncate_def conn_close_def)
qed

lemma refuses_keeps:
  fixes m :: "('z, 'a) prog"
  assumes "refuses m"
  shows "keeps I m"
  unfolding keeps_def
proof (intro allI impI)
  fix s :: "'z conn_scheme"
  assume "conn_inv I s"
  have "snd (m s) = s \<or> snd (m s) = conn_close s" using assms by (auto simp: refuses_def)
  then show "conn_inv I (snd (m s))" using \<open>conn_inv I s\<close> by (auto simp: conn_inv_def conn_close_def)
qed

lemmas refuse_rules = refuses_raise refuses_after_lift refuses_with_conn refuses_prod refuses_let refuses_if

lemma refuses_identity:
  assumes "anonymous rq" "cx_cached cx = None"
  shows "refuses (list_users cx rq)" "refuses (create_user cx rq)" "refuses (get_user_wildcard cx rq)" "refuses (user_wildcard cx rq)"
    "refuses (delete_user_route cx rq)" "refuses (revoke_other_sessions_route cx rq)" "refuses (logout cx rq)" "refuses (me cx rq)"
    "refuses (change_password cx rq)"
  unfolding list_users_def create_user_def get_user_wildcard_def user_wildcard_def delete_user_route_def revoke_other_sessions_route_def
    logout_def me_def change_password_def change_password_body_def user_sessions_def patch_user_route_def delete_user_handler_def
  by (auto split: list.splits intro!: refuses_raise refuses_after_lift refuses_bind[OF refuses_with_conn] refuses_bind[OF refuses_app_gate] assms)

lemma refuses_keys:
  assumes "anonymous rq" "cx_cached cx = None"
  shows "refuses (list_keys cx rq)" "refuses (create_key cx rq)" "refuses (delete_by_path cx rq)" "refuses (delete_by_body cx rq)"
    "refuses (post_wildcard cx rq)" "refuses (patch_key cx rq)" "refuses (get_auth_state cx rq)" "refuses (set_auth_state cx rq)"
  unfolding list_keys_def create_key_def delete_by_path_def delete_by_body_def post_wildcard_def patch_key_def get_auth_state_def
    set_auth_state_def revoke_key_def rotate_key_def set_limits_def Let_def
  by (auto split: list.splits intro!: refuses_prod refuses_raise refuses_after_lift refuses_bind[OF refuses_with_conn] refuses_bind[OF refuses_app_gate] assms)

lemma refuses_policy:
  assumes "anonymous rq" "cx_cached cx = None"
  shows "refuses (get_policy cx rq)" "refuses (update_policy cx rq)" "refuses (usage_panel cx rq)" "refuses (reset_limits cx rq)"
    "refuses (update_settings fr flt cx rq)" "refuses (list_audit cx pf rq)" "refuses (delete_range cx pf rq)"
  unfolding get_policy_def update_policy_def usage_panel_def reset_limits_def update_settings_def list_audit_def delete_range_def
  by (auto intro!: refuses_after_lift refuses_bind[OF refuses_with_conn] refuses_bind[OF refuses_app_gate] refuses_app_gate assms)

lemma refuses_play:
  assumes "anonymous rq" "cx_cached (ev_ctx ev) = None"
  shows "refuses (templates_handler ev rq)" "refuses (run_handler ev ad rq)"
  unfolding templates_handler_def run_handler_def play_gate_def
  by (auto intro!: refuses_after_lift refuses_bind[OF refuses_with_conn] refuses_gate assms)

definition OPEN_SESAME :: "string list" where
  "OPEN_SESAME = [''/api/v1/auth/login'', ''/api/v1/auth/setup'']"

lemma anonymous_routes:
  assumes "(meth, pat, h) \<in> set (service_routes sc ev)" "anonymous rq" "cx_cached (ev_ctx ev) = None" "pat \<notin> set OPEN_SESAME" "identity_only I"
  shows "keeps I (h rq)"
proof -
  note gated = refuses_identity[OF assms(2,3), THEN refuses_keeps, of I] refuses_keys[OF assms(2,3), THEN refuses_keeps, of I]
    refuses_policy[OF assms(2,3), THEN refuses_keeps, of I]
  have auth: "keeps I (h rq)" if "(meth, pat, h) \<in> set (auth_routes ev)"
  proof -
    have "pat \<in> set OPEN_SESAME \<or> (\<exists>k. h = api ev k \<and> keeps I (k (ev_ctx ev) rq))"
      using that unfolding auth_routes_def user_routes_def key_routes_def OPEN_SESAME_def
      by (simp only: set_append list.set Un_iff insert_iff empty_iff prod.inject) (elim disjE conjE; insert gated; simp?; blast)
    then show ?thesis using assms(4) by (auto simp: api_def keeps_with_app)
  qed
  have policy: "keeps I (h rq)" if "(meth, pat, h) \<in> set (settings_routes sc ev @ ratelimit_routes ev @ audit_routes sc ev @ range_delete_routes sc ev)"
    using that unfolding settings_routes_def ratelimit_routes_def audit_routes_def range_delete_routes_def
    by (auto simp: api_def intro!: keeps_with_app gated keeps_read_settings)
  have play: "keeps I (h rq)" if "(meth, pat, h) \<in> set (playground_routes sc ev)"
    using that refuses_play[OF assms(2,3), THEN refuses_keeps, of I] unfolding playground_routes_def by auto
  have rest: "keeps I (h rq)" if "(meth, pat, h) \<in> set (health_routes sc @ root_routes sc @ meta_routes sc ev @ trace_routes sc ev
      @ metrics_routes sc ev @ logs_routes sc ev @ model_routes sc ev @ engine_routes sc ev
      @ [(''GET'', ''/api/v1/stream'', stream_route ev)] @ [(''GET'', ''/*'', static_handler (sc_disk sc) (sc_web_root sc))])"
    using that unfolding health_routes_def root_routes_def meta_routes_def trace_routes_def metrics_routes_def
      logs_routes_def model_routes_def engine_routes_def
    by (auto simp: api_def series_route_def summary_route_def models_route_def static_handler_def
        intro!: keeps_with_app ungated_kept keeps_trace_posts[OF assms(5)] keeps_trace_delete[OF assms(5)] keeps_mutate[OF assms(5)])
  show ?thesis using assms(1) auth policy play rest unfolding service_routes_def set_append by blast
qed

lemma anonymous_contract:
  assumes "anonymous rq" "rq_path rq \<notin> set OPEN_SESAME" "identity_only I"
  shows "request_contract I (sc :: 'a service) ev rq"
proof
  have none: "enforce_browser_session cr now rq s = (Inr None, s)" for cr now and s :: "'a world"
    using assms(1) by (simp add: enforce_browser_session_def anonymous_def act_return_def)
  show "keeps I (h rq)" if "(meth, pat, h) \<in> set (service_routes sc (as_principal p ev))" "covers pat (rq_path rq)"
    "p = None \<or> (\<exists>s :: 'a world. fst (enforce_browser_session (cx_crypto (ev_ctx ev)) (cx_now (ev_ctx ev)) rq s) = Inr p)"
    for meth pat p and h :: "('a \<times> hub) life handler"
  proof (rule anonymous_routes[OF that(1) assms(1) _ _ assms(3)])
    show "cx_cached (ev_ctx (as_principal p ev)) = None" using that(3) by (auto simp: none as_principal_def)
    show "pat \<notin> set OPEN_SESAME"
      using that(2) assms(2) by (auto simp: OPEN_SESAME_def covers_def is_prefix_pattern_def)
  qed
  show "keeps I (enforce_browser_session (cx_crypto (ev_ctx ev)) (cx_now (ev_ctx ev)) rq :: ('a \<times> hub, principal option) live)"
    by (simp add: keeps_def none)
  have "presented_credential rq = (None, ''none'')" using assms(1) by (simp add: presented_credential_def anonymous_def)
  then show "keeps I (verify_auth (as_principal None ev) rq :: ('a \<times> hub, unit) live)"
    unfolding verify_auth_def check_credential_def Let_def by (auto intro!: keeps_rules keeps_prod)
qed

text \<open>C2: Requests that carry neither a session cookie nor an API key, however many, to whatever routes, with whatever
  bodies: outside signing in and the first run they change no user, no session, no key and no
  setting, neither in the committed state nor in the open work. Requests run one after the other.\<close>

theorem anonymous_requests_reach_no_identity:
  assumes "\<forall>(ev, rq) \<in> set requests. anonymous rq \<and> rq_path rq \<notin> set OPEN_SESAME" "conn_idle s"
  shows "identity_of (cn_committed (fold (served sc) requests s)) = identity_of (cn_committed s)
    \<and> identity_of (cn_work (fold (served sc) requests s)) = identity_of (cn_committed s)"
proof -
  let ?I = "\<lambda>d. identity_of d = identity_of (cn_committed s)"
  have one: "conn_inv ?I (served sc (ev, rq) t)" if "anonymous rq" "rq_path rq \<notin> set OPEN_SESAME" "conn_inv ?I t" for ev rq t
    using keepsD[OF request_contract.request_keeps[OF anonymous_contract[OF that(1,2) identity_only_rules(2)]] that(3)]
    by (simp add: served_def)
  have "conn_inv ?I t \<Longrightarrow> conn_inv ?I (fold (served sc) requests t)" for t
    using assms(1) by (induction requests arbitrary: t) (auto simp: one)
  moreover have "conn_inv ?I s" using assms(2) by (simp add: conn_inv_def conn_idle_def)
  ultimately show ?thesis by (simp add: conn_inv_def)
qed

section \<open>Witnesses\<close>

definition demo_service :: "fake service" where
  "demo_service = \<lparr>sc_platform = \<lparr>pf_float = (\<lambda>_. NotFloat), pf_render = (\<lambda>_. ''0''), pf_affinity = (\<lambda>_. None)\<rparr>,
     sc_float_text = (\<lambda>_. ''0''), sc_float_of = (\<lambda>_. None), sc_adapter = fake_adapter id (\<lambda>_. ''0''), sc_host = fake_checkpoints,
     sc_disk = demo_disk, sc_web_root = [''w''], sc_armed = False,
     sc_figures = \<lparr>fg_started = 0, fg_now = 1, fg_size = None, fg_status = None, fg_counters = []\<rparr>\<rparr>"

definition demo_world :: "db \<Rightarrow> fake world" where
  "demo_world d = \<lparr>cn_committed = d, cn_work = d, as_backoff = new_backoff 5 900, as_buckets = [], lf_engine = (demo_engine, new_hub),
      lf_recorder = demo_recorder, lf_trace = None, lf_parsed = None, lf_tick = 0, lf_sent = [], lf_notices = []\<rparr>"

definition demo_arrivals :: "(env \<times> request) list" where
  "demo_arrivals = [(demo_env [], engine_rq), (demo_env [], demo_get), (demo_env [], demo_get\<lparr>rq_path := ''/api/v1/users''\<rparr>)]"

theorem service_keeps_an_owner_witness:
  "conn_inv owner_inv (fold (served demo_service) demo_arrivals (demo_world two_owners))"
proof (rule service_keeps_an_owner)
  show "conn_inv owner_inv (demo_world two_owners)"
    by (simp add: conn_inv_def demo_world_def owner_inv_def has_owner_def two_owners_def demo_user_def enabled_owner_def)
qed

theorem anonymous_requests_reach_no_identity_witness:
  "identity_of (cn_committed (fold (served demo_service) demo_arrivals (demo_world two_owners))) = identity_of two_owners"
proof -
  have a: "anonymous engine_rq" "anonymous demo_get" "anonymous (demo_get\<lparr>rq_path := ''/api/v1/users''\<rparr>)" by code_simp+
  have "\<forall>(ev, rq) \<in> set demo_arrivals. anonymous rq \<and> rq_path rq \<notin> set OPEN_SESAME"
    using a by (simp add: demo_arrivals_def OPEN_SESAME_def engine_rq_def demo_get_def)
  moreover have "conn_idle (demo_world two_owners)" by (simp add: conn_idle_def demo_world_def)
  ultimately show ?thesis
    using anonymous_requests_reach_no_identity[of demo_arrivals "demo_world two_owners" demo_service] by (simp add: demo_world_def)
qed

end
