(* ===== verification/Service_Docs.thy ===== *)
theory Service_Docs
  imports Service_Access "HOL-Library.Multiset"
begin

text \<open>
  The documented surface of \<open>layawatch/api/openapi.py\<close> against the assembled router: nothing is
  registered that the document misses, every documented operation reaches a route of its own, the
  document has no dangling reference, and what it marks with a credential refuses to work
  without one.
\<close>

section \<open>The document\<close>

text \<open>The arguments of an operation stay as written when it is simplified.\<close>

lemma operation_cong [cong]:
  "operation t i s d q b k e sec = operation t i s d q b k e sec"
  by (rule refl)

definition needs_credential :: "json \<Rightarrow> bool" where
  "needs_credential oper = (case oper of JObj kvs \<Rightarrow> map_of kvs ''security'' \<noteq> None | _ \<Rightarrow> False)"

definition operation_id :: "json \<Rightarrow> json" where
  "operation_id oper = (case oper of JObj kvs \<Rightarrow> jget kvs ''operationId'' | _ \<Rightarrow> JNull)"

lemma needs_operation [simp]: "needs_credential (operation t i s d q b k e sec) = (sec \<noteq> None)"
  by (auto simp: needs_credential_def operation_def split: option.splits)

lemma operation_id_operation [simp]: "operation_id (operation t i s d q b k e sec) = JStr i"
  by (simp add: operation_id_def operation_def jget_def)

lemmas operation_defs = op_serviceInfo_def op_healthz_def op_meta_def op_stream_def op_predict_def op_route_def op_listTraces_def
  op_getTrace_def op_listTraceObservations_def op_createTraceScore_def op_tagTrace_def op_deleteTrace_def op_deleteTraceRange_def
  op_metricsSeries_def op_metricsSummary_def op_metricsModels_def op_listLogs_def op_exportLogs_def op_listAudit_def op_getSettings_def
  op_updateSettings_def op_getRatelimitPolicy_def op_updateRatelimitPolicy_def op_ratelimitUsage_def op_resetRatelimitBuckets_def
  op_login_def op_logout_def op_me_def op_changePassword_def op_setup_def op_listUsers_def op_createUser_def op_updateUser_def
  op_deleteUser_def op_listUserSessions_def op_revokeOtherSessions_def op_listKeys_def op_createKey_def op_revokeKeyByBody_def
  op_revokeKey_def op_rotateKey_def op_setKeyLimits_def op_getKeyAuth_def op_setKeyAuth_def op_listModels_def op_mutateModels_def
  op_loadModels_def op_unloadModels_def op_listPlaygroundTemplates_def op_runPlayground_def

lemma open_operations:
  "\<not> needs_credential op_serviceInfo" "\<not> needs_credential op_healthz" "\<not> needs_credential op_meta" "\<not> needs_credential op_stream"
  "\<not> needs_credential op_listTraces" "\<not> needs_credential op_getTrace" "\<not> needs_credential op_createTraceScore" "\<not> needs_credential op_deleteTrace"
  "\<not> needs_credential op_metricsSeries" "\<not> needs_credential op_metricsSummary" "\<not> needs_credential op_metricsModels"
  "\<not> needs_credential op_listLogs" "\<not> needs_credential op_exportLogs" "\<not> needs_credential op_getSettings"
  "\<not> needs_credential op_login" "\<not> needs_credential op_setup" "\<not> needs_credential op_listModels" "\<not> needs_credential op_mutateModels"
  "\<not> needs_credential op_loadModels" "\<not> needs_credential op_unloadModels"
  by (simp_all only: operation_defs needs_operation simp_thms)

lemma operation_ids: "map (operation_id \<circ> snd) OPERATIONS = map JStr
  [''serviceInfo'', ''healthz'', ''meta'', ''stream'', ''predict'', ''route'', ''listTraces'', ''getTrace'', ''listTraceObservations'',
   ''createTraceScore'', ''tagTrace'', ''deleteTrace'', ''deleteTraceRange'', ''metricsSeries'', ''metricsSummary'', ''metricsModels'',
   ''listLogs'', ''exportLogs'', ''listAudit'', ''getSettings'', ''updateSettings'', ''getRatelimitPolicy'', ''updateRatelimitPolicy'',
   ''ratelimitUsage'', ''resetRatelimitBuckets'', ''login'', ''logout'', ''me'', ''changePassword'', ''setup'', ''listUsers'',
   ''createUser'', ''updateUser'', ''deleteUser'', ''listUserSessions'', ''revokeOtherSessions'', ''listKeys'', ''createKey'',
   ''revokeKeyByBody'', ''revokeKey'', ''rotateKey'', ''setKeyLimits'', ''getKeyAuth'', ''setKeyAuth'', ''listModels'', ''mutateModels'',
   ''loadModels'', ''unloadModels'', ''listPlaygroundTemplates'', ''runPlayground'']"
  by (simp only: OPERATIONS_def list.map comp_apply snd_conv operation_defs operation_id_operation)

definition own_ref :: "string \<times> json \<Rightarrow> string list" where
  "own_ref kv = (if fst kv = ''$ref'' then (case snd kv of JStr s \<Rightarrow> [s] | _ \<Rightarrow> []) else [])"

fun refs_of :: "json \<Rightarrow> string list"
  and refs_items :: "json list \<Rightarrow> string list"
  and refs_pairs :: "(string \<times> json) list \<Rightarrow> string list" where
  "refs_of (JArr vs) = refs_items vs"
| "refs_of (JObj kvs) = refs_pairs kvs"
| "refs_of _ = []"
| "refs_items [] = []"
| "refs_items (v # vs) = refs_of v @ refs_items vs"
| "refs_pairs [] = []"
| "refs_pairs ((k, v) # kvs) = own_ref (k, v) @ refs_of v @ refs_pairs kvs"

definition declared :: "string set" where
  "declared = (\<lambda>(name, _). ''#/components/schemas/'' @ name) ` set SCHEMAS"

text \<open>A part of the document whose references are declared, and which is not a bare string.\<close>

definition sound :: "json \<Rightarrow> bool" where
  "sound j \<longleftrightarrow> set (refs_of j) \<subseteq> declared \<and> (\<forall>s. j \<noteq> JStr s)"

lemma own_ref_sound: "sound v \<Longrightarrow> own_ref (k, v) = []"
  by (cases v) (simp_all add: own_ref_def sound_def)

lemma refs_append [simp]: "refs_pairs (xs @ ys) = refs_pairs xs @ refs_pairs ys"
  by (induction xs) auto

lemma refs_strings [simp]: "refs_items (map JStr xs) = []"
  by (induction xs) simp_all

lemma own_ref_other [simp]: "k \<noteq> ''$ref'' \<Longrightarrow> own_ref (k, v) = []"
  by (simp add: own_ref_def)

lemma refs_sound_pairs: "list_all (\<lambda>(k, v). sound v) kvs \<Longrightarrow> set (refs_pairs kvs) \<subseteq> declared"
  by (induction kvs) (auto simp: own_ref_sound, auto simp: sound_def)

lemma refs_sound_items: "list_all sound vs \<Longrightarrow> set (refs_items vs) \<subseteq> declared"
  by (induction vs) (auto simp: sound_def)

lemma sound_obj: "list_all (\<lambda>(k, v). sound v) kvs \<Longrightarrow> sound (JObj kvs)"
  using refs_sound_pairs by (simp add: sound_def[of "JObj kvs"])

lemma sound_object [simp]: "list_all (\<lambda>(k, v). sound v) ps \<Longrightarrow> sound (obj_schema ps req)"
  using refs_sound_pairs[of ps] by (simp add: obj_schema_def sound_def[of "JObj _"])

lemma sound_typed [simp]:
  "sound (str_schema d)" "sound (int_schema d)" "sound (num_schema d)" "sound (bool_schema d)"
  "sound (nullable (str_schema d))" "sound (nullable (int_schema d))" "sound (nullable (num_schema d))" "sound (nullable (bool_schema d))"
  by (simp_all add: sound_def str_schema_def int_schema_def num_schema_def bool_schema_def typed_schema_def nullable_def)

lemma sound_nullable [simp]: "sound (nullable (obj_schema [] []))" "sound (nullable (JObj []))" "sound (JObj [])"
  "sound x \<Longrightarrow> sound (nullable (arr_schema x))" "sound x \<Longrightarrow> sound (arr_schema x)"
  by (auto simp: sound_def nullable_def obj_schema_def arr_schema_def)

lemma sound_page [simp]: "sound items \<Longrightarrow> sound (page_schema items)"
  unfolding page_schema_def by simp

lemma sound_ref: "name \<in> fst ` set SCHEMAS \<Longrightarrow> sound (ref_schema name)"
  by (auto simp: sound_def ref_schema_def declared_def own_ref_def)

lemma sound_query [simp]: "sound (query_param n k d r vs)"
  by (simp add: sound_def query_param_def)

lemma sound_enum [simp]: "sound (JObj [(''type'', JStr ''integer''), (''enum'', JArr [JInt a, JInt b, JInt c])])"
  by (simp add: sound_def)

lemma sound_responses:
  assumes "\<forall>st note sc. k = Some (st, note, Some sc) \<longrightarrow> sound sc"
  shows "list_all (\<lambda>(k, v). sound v) (responses_of k e)"
proof -
  have env: "sound (error_entry n)" for n
    using sound_ref[of "''ErrorEnvelope''"] by (auto simp: error_entry_def json_content_def sound_def SCHEMAS_def)
  have start: "list_all (\<lambda>(k, v). sound v) (case k of None \<Rightarrow> [] | Some (st, note, sc) \<Rightarrow> [(str_int st, ok_entry note sc)])"
    using assms by (auto simp: ok_entry_def json_content_def sound_def split: option.splits)
  have "list_all (\<lambda>(k, v). sound v) acc \<Longrightarrow>
      list_all (\<lambda>(k, v). sound v) (foldl (\<lambda>acc (status, note). set_default (str_int status) (error_entry note) acc) acc e)" for acc
    by (induction e arbitrary: acc) (auto simp: set_default_def env split: prod.splits)
  then show ?thesis unfolding responses_of_def using start .
qed

lemma sound_operation:
  assumes "list_all sound q" "\<forall>sc r n. b = Some (sc, r, n) \<longrightarrow> sound sc" "\<forall>st note sc. k = Some (st, note, Some sc) \<longrightarrow> sound sc"
    "sec = None \<or> sec = Some SEC_READ \<or> sec = Some SEC_WRITE \<or> sec = Some SEC_ENGINE"
  shows "sound (operation t i s d q b k e sec)"
proof -
  have "sound (JObj (responses_of k e))" by (rule sound_obj) (rule sound_responses[OF assms(3)])
  moreover have "set (refs_of (JArr q)) \<subseteq> declared" using refs_sound_items[OF assms(1)] by simp
  ultimately show ?thesis using assms(2,4)
    by (auto simp: operation_def sound_def json_content_def SEC_READ_def SEC_WRITE_def SEC_ENGINE_def split: option.splits)
qed

lemma names_declared [simp]:
  "sound (ref_schema ''TraceSummary'')" "sound (ref_schema ''Observation'')" "sound (ref_schema ''LogEntry'')" "sound (ref_schema ''AuditEntry'')"
  "sound (ref_schema ''KeyRecord'')" "sound (ref_schema ''User'')" "sound (ref_schema ''Session'')" "sound (ref_schema ''RatelimitPolicy'')"
  "sound (ref_schema ''SettingsPayload'')" "sound (ref_schema ''PredictRequest'')" "sound (ref_schema ''PredictResponse'')"
  by (rule sound_ref, simp add: SCHEMAS_def)+

lemma sound_item [simp]: "sound EVENT_ITEM"
  by (simp add: EVENT_ITEM_def)

lemma sound_schemas: "list_all (\<lambda>(k, v). sound v) SCHEMAS"
  by (simp add: SCHEMAS_def schema_ErrorEnvelope_def schema_TraceSummary_def schema_Observation_def schema_LogEntry_def schema_AuditEntry_def
      schema_KeyRecord_def schema_User_def schema_Session_def schema_RatelimitPolicy_def schema_SettingsPayload_def schema_PredictRequest_def
      schema_PredictResponse_def schema_ModelStats_def)

lemma sound_operations: "list_all (\<lambda>(k, oper). sound oper) OPERATIONS"
  by (simp only: OPERATIONS_def list.pred_inject prod.case operation_defs simp_thms) (intro conjI; (rule sound_operation; simp))

section \<open>The assembled document\<close>

text \<open>Grouping by path loses no operation as long as no two share a path and a method.\<close>

definition slot :: "(string \<times> string) \<times> json \<Rightarrow> string \<times> string" where
  "slot entry = (snd (fst entry), py_lower (fst (fst entry)))"

definition found_at :: "(string \<times> (string \<times> json) list) list \<Rightarrow> string \<times> string \<Rightarrow> json option" where
  "found_at paths k = (case map_of paths (fst k) of None \<Rightarrow> None | Some ms \<Rightarrow> map_of ms (snd k))"

lemma found_add: "found_at (add_operation e paths) k = (if k = slot e then Some (snd e) else found_at paths k)"
  by (cases e; cases k) (auto simp: add_operation_def found_at_def slot_def split: option.splits if_splits)

lemma found_fold:
  "distinct (map slot es) \<Longrightarrow> e \<in> set es \<Longrightarrow> found_at (fold add_operation es paths) (slot e) = Some (snd e)"
proof (induction es arbitrary: paths)
  case (Cons x xs)
  have old: "found_at (fold add_operation xs ps) k = found_at ps k" if "k \<notin> slot ` set xs" for ps k
    using that by (induction xs arbitrary: ps) (auto simp: found_add)
  show ?case
  proof (cases "e = x")
    case True
    then show ?thesis using Cons.prems(1) by (simp add: old found_add)
  next
    case False
    then show ?thesis using Cons by simp
  qed
qed simp

lemma paths_distinct: "distinct (map fst paths) \<Longrightarrow> distinct (map fst (fold add_operation es paths))"
  by (induction es arbitrary: paths) (auto simp: add_operation_def distinct_update split: prod.splits)

lemma found_paths_of: "found_at (paths_of es) k = found_at (fold add_operation es []) k"
proof -
  have d: "distinct (map fst (fold add_operation es []))" by (rule paths_distinct) simp
  have "map_of (sort_key fst (fold add_operation es [])) = map_of (fold add_operation es [])"
  proof (subst map_of_inject_set)
    have "mset (map fst (sort_key fst (fold add_operation es []))) = mset (map fst (fold add_operation es []))"
      unfolding mset_map mset_sort ..
    then show "distinct (map fst (sort_key fst (fold add_operation es [])))" using d mset_eq_imp_distinct_iff by blast
  qed (use d in simp_all)
  then show ?thesis by (simp add: found_at_def paths_of_def)
qed

definition TABLE_SLOTS :: "(string \<times> string) list" where
  "TABLE_SLOTS = map (slot \<circ> (\<lambda>k. (k, JNull)) \<circ> fst) OPERATIONS"

lemma table_slots: "map slot OPERATIONS = TABLE_SLOTS"
  by (simp add: TABLE_SLOTS_def slot_def)

lemma table_distinct: "distinct TABLE_SLOTS"
  unfolding TABLE_SLOTS_def OPERATIONS_def list.map comp_apply fst_conv by code_simp

lemma ids_distinct: "distinct (map (operation_id \<circ> snd) OPERATIONS)"
proof -
  have inj: "distinct (map JStr xs) = distinct xs" for xs by (simp add: distinct_map inj_on_def)
  show ?thesis unfolding operation_ids inj by code_simp
qed

lemma sound_plain: "list_all sound (map (\<lambda>(name, note). JObj [(''name'', JStr name), (''description'', JStr note)]) xs)"
  by (induction xs) (auto simp: sound_def)

lemma refs_paths:
  assumes "\<forall>e \<in> set es. sound (snd e)" "\<forall>(p, ms) \<in> set paths. list_all (\<lambda>(m, v). sound v) ms"
  shows "\<forall>(p, ms) \<in> set (fold add_operation es paths). list_all (\<lambda>(m, v). sound v) ms"
  using assms
proof (induction es arbitrary: paths)
  case (Cons e es)
  obtain m p v where e: "e = ((m, p), v)" by (metis surj_pair)
  have v: "sound v" using Cons.prems(1) e by simp
  have upd: "list_all (\<lambda>(m, v). sound v) (dict_set (py_lower m) v ms)" if "list_all (\<lambda>(m, v). sound v) ms" for ms
    using that v set_dict_set_subset[of "py_lower m" v ms] by (fastforce simp: list_all_iff)
  have old: "list_all (\<lambda>(m, v). sound v) (case map_of paths p of None \<Rightarrow> [] | Some ms \<Rightarrow> ms)"
    using Cons.prems(2) by (auto split: option.splits dest: map_of_SomeD)
  have "\<forall>(q, ms) \<in> set (add_operation e paths). list_all (\<lambda>(m, v). sound v) ms"
    using Cons.prems(2) upd[OF old] set_dict_set_subset[of p _ paths] by (fastforce simp: add_operation_def e)
  then show ?case using Cons.IH[of "add_operation e paths"] Cons.prems(1) by simp
qed simp

text \<open>Following names into a JSON value.\<close>

fun member_at :: "json \<Rightarrow> string list \<Rightarrow> json option" where
  "member_at j [] = Some j"
| "member_at (JObj kvs) (k # ks) = (case map_of kvs k of None \<Rightarrow> None | Some v \<Rightarrow> member_at v ks)"
| "member_at _ (k # ks) = None"

lemma found_only: "found_at (fold add_operation es []) k = Some v \<Longrightarrow> \<exists>e \<in> set es. slot e = k \<and> snd e = v"
proof (induction es rule: rev_induct)
  case Nil
  then show ?case by (simp add: found_at_def)
next
  case (snoc e es)
  then show ?case by (auto simp: found_add split: if_splits)
qed

lemma found_exact: "distinct (map slot es) \<Longrightarrow> found_at (paths_of es) k = Some v \<longleftrightarrow> (\<exists>e \<in> set es. slot e = k \<and> snd e = v)"
proof (intro iffI)
  assume d: "distinct (map slot es)" and "\<exists>e \<in> set es. slot e = k \<and> snd e = v"
  then obtain e where "e \<in> set es" "slot e = k" "snd e = v" by blast
  then show "found_at (paths_of es) k = Some v" using found_fold[OF d, of e "[]"] by (simp add: found_paths_of)
qed (simp add: found_paths_of found_only)

lemma member_paths: "member_at (document_of es) [''paths'', p, m] = found_at (paths_of es) (p, m)"
proof -
  have "map_of (map (\<lambda>(path, ms). (path, JObj ms)) xs) p = map_option JObj (map_of xs p)" for xs :: "(string \<times> (string \<times> json) list) list"
    by (induction xs) auto
  then show ?thesis by (simp add: document_of_def found_at_def split: option.split)
qed

lemma member_schemas: "member_at (document_of es) [''components'', ''schemas'', name] = map_of SCHEMAS name"
  by (simp add: document_of_def split: option.split)

lemma schemas_distinct: "distinct (map fst SCHEMAS)"
  unfolding SCHEMAS_def by simp

lemma refs_closed: "set (refs_of build) \<subseteq> declared"
proof -
  have "sound (JObj (map (\<lambda>(path, ms). (path, JObj ms)) (paths_of OPERATIONS)))"
  proof (rule sound_obj)
    have "\<forall>e \<in> set OPERATIONS. sound (snd e)" using sound_operations by (auto simp: list_all_iff)
    from refs_paths[OF this, of "[]"] have "\<forall>(p, ms) \<in> set (paths_of OPERATIONS). list_all (\<lambda>(m, v). sound v) ms"
      by (simp add: paths_of_def)
    then show "list_all (\<lambda>(k, v). sound v) (map (\<lambda>(path, ms). (path, JObj ms)) (paths_of OPERATIONS))"
      by (fastforce simp: list_all_iff intro: sound_obj)
  qed
  moreover have "set (refs_items (map (\<lambda>(name, note). JObj [(''name'', JStr name), (''description'', JStr note)]) xs)) \<subseteq> declared" for xs
    by (rule refs_sound_items[OF sound_plain])
  moreover have "set (refs_pairs SCHEMAS) \<subseteq> declared" by (rule refs_sound_pairs[OF sound_schemas])
  moreover have "refs_pairs SECURITY_SCHEMES = []" by (simp add: SECURITY_SCHEMES_def)
  ultimately show ?thesis by (simp add: build_def document_of_def sound_def)
qed

text \<open>C5: The document that is built is complete and closed: what it holds under \<open>paths\<close> is, path by path and
  method by method, exactly the operations of the table, no two of which share an operation id; what
  it holds under \<open>components/schemas\<close> is exactly the table of schemas; and every reference
  anywhere in it names one of them.\<close>

theorem document_is_complete_and_closed:
  "{(p, m, oper). member_at build [''paths'', p, m] = Some oper} = (\<lambda>((m, p), oper). (p, py_lower m, oper)) ` set OPERATIONS
   \<and> distinct (map (operation_id \<circ> snd) OPERATIONS)
   \<and> {(name, sc). member_at build [''components'', ''schemas'', name] = Some sc} = set SCHEMAS
   \<and> list_all (\<lambda>r. \<exists>name sc. r = ''#/components/schemas/'' @ name
        \<and> member_at build [''components'', ''schemas'', name] = Some sc) (refs_of build)"
proof (intro conjI ids_distinct)
  have d: "distinct (map slot OPERATIONS)" unfolding table_slots by (rule table_distinct)
  show "{(p, m, oper). member_at build [''paths'', p, m] = Some oper} = (\<lambda>((m, p), oper). (p, py_lower m, oper)) ` set OPERATIONS"
    unfolding build_def member_paths found_exact[OF d] by (force simp: slot_def)
  have sc: "member_at build [''components'', ''schemas'', name] = Some v \<longleftrightarrow> (name, v) \<in> set SCHEMAS" for name v
    unfolding build_def member_schemas using map_of_eq_Some_iff[OF schemas_distinct] by blast
  then show "{(name, v). member_at build [''components'', ''schemas'', name] = Some v} = set SCHEMAS" by auto
  show "list_all (\<lambda>r. \<exists>name sc. r = ''#/components/schemas/'' @ name
        \<and> member_at build [''components'', ''schemas'', name] = Some sc) (refs_of build)"
    unfolding list_all_iff
  proof
    fix r assume "r \<in> set (refs_of build)"
    then have "r \<in> declared" using refs_closed by blast
    then obtain x where x: "r = (case x of (name, _) \<Rightarrow> ''#/components/schemas/'' @ name)" "x \<in> set SCHEMAS"
      unfolding declared_def by (rule imageE)
    obtain name v where pair: "x = (name, v)" by (rule prod.exhaust)
    have "r = ''#/components/schemas/'' @ name" using x(1) unfolding pair prod.case .
    moreover have "member_at build [''components'', ''schemas'', name] = Some v" unfolding sc using x(2) unfolding pair .
    ultimately show "\<exists>name sc. r = ''#/components/schemas/'' @ name \<and> member_at build [''components'', ''schemas'', name] = Some sc"
      by (intro exI conjI)
  qed
qed

section \<open>The document against the router\<close>

definition slots_of :: "'a route list \<Rightarrow> (string \<times> string) list" where
  "slots_of rs = map (\<lambda>(meth, pat, _). (meth, pat)) rs"

definition ROUTE_SLOTS :: "(string \<times> string) list" where
  "ROUTE_SLOTS =
     [(''GET'', ''/healthz''), (''GET'', ''/''), (''GET'', ''/api/v1/meta''), (''GET'', ''/api/v1/traces''), (''GET'', ''/api/v1/traces/*''),
      (''POST'', ''/api/v1/traces/*''), (''DELETE'', ''/api/v1/traces/*''), (''DELETE'', ''/api/v1/traces''), (''GET'', ''/api/v1/metrics''),
      (''GET'', ''/api/v1/metrics/summary''), (''GET'', ''/api/v1/metrics/models''), (''GET'', ''/api/v1/logs''),
      (''GET'', ''/api/v1/logs/export''), (''GET'', ''/api/v1/settings''), (''POST'', ''/api/v1/settings''), (''GET'', ''/api/v1/ratelimits''),
      (''POST'', ''/api/v1/ratelimits''), (''GET'', ''/api/v1/ratelimits/usage''), (''POST'', ''/api/v1/ratelimits/reset''),
      (''GET'', ''/api/v1/audit''), (''GET'', ''/api/v1/playground/templates''), (''POST'', ''/api/v1/playground/run''),
      (''POST'', ''/api/v1/auth/login''), (''POST'', ''/api/v1/auth/logout''), (''GET'', ''/api/v1/auth/me''),
      (''POST'', ''/api/v1/auth/password''), (''POST'', ''/api/v1/auth/setup''), (''GET'', ''/api/v1/users''), (''POST'', ''/api/v1/users''),
      (''GET'', ''/api/v1/users/*''), (''PATCH'', ''/api/v1/users/*''), (''DELETE'', ''/api/v1/users/*''), (''DELETE'', ''/api/v1/sessions''),
      (''GET'', ''/api/v1/keys''), (''POST'', ''/api/v1/keys''), (''DELETE'', ''/api/v1/keys''), (''DELETE'', ''/api/v1/keys/*''),
      (''POST'', ''/api/v1/keys/*''), (''PATCH'', ''/api/v1/keys/*''), (''GET'', ''/api/v1/keys/auth''), (''POST'', ''/api/v1/keys/auth''),
      (''GET'', ''/api/v1/models''), (''POST'', ''/api/v1/models''), (''POST'', ''/api/v1/models/load''), (''POST'', ''/api/v1/models/unload''),
      (''POST'', ''/predict''), (''POST'', ''/route''), (''GET'', ''/api/v1/stream''), (''GET'', ''/*'')]"

lemmas route_groups = health_routes_def root_routes_def meta_routes_def trace_routes_def range_delete_routes_def metrics_routes_def
  logs_routes_def settings_routes_def ratelimit_routes_def audit_routes_def playground_routes_def auth_routes_def user_routes_def
  key_routes_def model_routes_def engine_routes_def

lemma slots_service: "slots_of (service_routes sc ev) = ROUTE_SLOTS"
  by (simp add: slots_of_def service_routes_def route_groups ROUTE_SLOTS_def)

text \<open>The methods a table offers under a pattern, after the routes have been added.\<close>

definition offered :: "(string \<times> 's methods) list \<Rightarrow> string \<Rightarrow> string set option" where
  "offered table pat = map_option (\<lambda>ms. fst ` set ms) (map_of table pat)"

definition joined :: "string set option \<Rightarrow> string set \<Rightarrow> string set option" where
  "joined old added = (if added = {} then old else Some (added \<union> (case old of None \<Rightarrow> {} | Some names \<Rightarrow> names)))"

definition names_under :: "(string \<times> string) list \<Rightarrow> string \<Rightarrow> string set" where
  "names_under slots pat = (\<lambda>(m, _). py_upper_ascii m) ` {e \<in> set slots. snd e = pat}"

lemma keys_dict_set: "fst ` set (dict_set k v d) = insert k (fst ` set d)"
  by (induction d) auto

lemma offered_add:
  "offered (rt_exact (add_route (meth, pat, h) r)) q
     = (if q = pat \<and> \<not> is_prefix_pattern pat then joined (offered (rt_exact r) q) {py_upper_ascii meth} else offered (rt_exact r) q)"
  "offered (rt_prefixes (add_route (meth, pat, h) r)) q
     = (if q = pat \<and> is_prefix_pattern pat then joined (offered (rt_prefixes r) q) {py_upper_ascii meth} else offered (rt_prefixes r) q)"
  by (auto simp: add_route_def router_add_def offered_def joined_def methods_in_def keys_dict_set split: option.splits)

lemma names_cons: "names_under ((m, pat) # slots) q = (if q = pat then insert (py_upper_ascii m) (names_under slots q) else names_under slots q)"
  by (auto simp: names_under_def)

lemma joined_again: "joined (joined old {x}) more_names = joined old (insert x more_names)"
  by (auto simp: joined_def split: option.splits)

lemma offered_fold:
  "offered (rt_exact (fold add_route es r)) q = joined (offered (rt_exact r) q) (if is_prefix_pattern q then {} else names_under (slots_of es) q)"
  "offered (rt_prefixes (fold add_route es r)) q = joined (offered (rt_prefixes r) q) (if is_prefix_pattern q then names_under (slots_of es) q else {})"
  by (induction es arbitrary: r)
    (auto simp: offered_add slots_of_def names_cons joined_again, simp_all add: joined_def names_under_def)

lemma patterns_distinct:
  "distinct (map fst (rt_exact r)) \<and> distinct (map fst (rt_prefixes r))
    \<Longrightarrow> distinct (map fst (rt_exact (fold add_route es r))) \<and> distinct (map fst (rt_prefixes (fold add_route es r)))"
  by (induction es arbitrary: r) (auto simp: add_route_def router_add_def distinct_update split: prod.splits)

text \<open>The pattern the router settles on for a path: the exact one, else the longest that covers it.\<close>

definition chosen :: "string \<Rightarrow> string \<Rightarrow> bool" where
  "chosen path pat \<longleftrightarrow> covers pat path \<and> list_all (\<lambda>(_, q). covers q path \<longrightarrow>
     q = pat \<or> (is_prefix_pattern q \<and> (is_prefix_pattern pat \<longrightarrow> length q < length pat))) ROUTE_SLOTS"

definition upper_slots :: bool where
  "upper_slots \<longleftrightarrow> list_all (\<lambda>(m, _). py_upper_ascii m = m) ROUTE_SLOTS"

lemma upper_slots: "(m, pat) \<in> set ROUTE_SLOTS \<Longrightarrow> py_upper_ascii m = m"
proof -
  have "upper_slots" by code_simp
  then show "(m, pat) \<in> set ROUTE_SLOTS \<Longrightarrow> py_upper_ascii m = m" by (auto simp: upper_slots_def list_all_iff)
qed

lemma names_slots: "names_under ROUTE_SLOTS q = {m. (m, q) \<in> set ROUTE_SLOTS}"
  using upper_slots by (force simp: names_under_def)

lemma offered_service:
  "offered (rt_exact (service_router sc ev)) q = joined None {m. (m, q) \<in> set ROUTE_SLOTS \<and> \<not> is_prefix_pattern q}"
  "offered (rt_prefixes (service_router sc ev)) q = joined None {m. (m, q) \<in> set ROUTE_SLOTS \<and> is_prefix_pattern q}"
  unfolding service_router_def offered_fold slots_service names_slots by (simp_all add: offered_def empty_router_def)

lemma chosen_reached:
  assumes "(m, pat) \<in> set ROUTE_SLOTS" "chosen path pat"
  shows "\<exists>ms. router_match (service_router sc ev) path = Some ms \<and> m \<in> fst ` set ms"
proof (cases "is_prefix_pattern pat")
  case False
  then have "offered (rt_exact (service_router sc ev)) path = Some {m. (m, path) \<in> set ROUTE_SLOTS}" "path = pat"
    using assms by (auto simp: offered_service joined_def chosen_def covers_def)
  then show ?thesis using assms(1) by (auto simp: offered_def router_match_def)
next
  case True
  let ?r = "service_router sc ev"
  have only: "q = pat \<or> (is_prefix_pattern q \<and> length q < length pat)" if "(m', q) \<in> set ROUTE_SLOTS" "covers q path" for m' q
    using assms(2) True that unfolding chosen_def list_all_iff by auto
  have pre: "prefix (butlast pat) path" using assms(2) True by (simp add: chosen_def covers_def)
  have "offered (rt_prefixes ?r) pat = Some {m. (m, pat) \<in> set ROUTE_SLOTS}"
    using assms(1) True by (auto simp: offered_service joined_def)
  then obtain ms where ms: "map_of (rt_prefixes ?r) pat = Some ms" "fst ` set ms = {m. (m, pat) \<in> set ROUTE_SLOTS}"
    by (auto simp: offered_def)
  have exact: "map_of (rt_exact ?r) path = None"
  proof (rule ccontr)
    assume "map_of (rt_exact ?r) path \<noteq> None"
    then have "offered (rt_exact ?r) path \<noteq> None" by (simp add: offered_def)
    then obtain m' where m': "(m', path) \<in> set ROUTE_SLOTS" "\<not> is_prefix_pattern path"
      by (auto simp: offered_service joined_def split: if_splits)
    then have "covers path path" by (simp add: covers_def)
    from only[OF m'(1) this] m'(2) True show False by auto
  qed
  have here: "(pat, ms) \<in> set (prefix_matches path (rt_prefixes ?r))"
    using pre map_of_SomeD[OF ms(1)] by (simp add: prefix_matches_def)
  obtain pm where b: "best_prefix path (rt_prefixes ?r) None (-1) = Some pm"
    using best_prefix_spec[of path "rt_prefixes ?r"] here by (auto split: option.splits)
  have pm: "pm \<in> set (prefix_matches path (rt_prefixes ?r))" "length (butlast pat) \<le> length (butlast (fst pm))"
    using best_prefix_spec[of path "rt_prefixes ?r"] here unfolding b by auto
  have d: "distinct (map fst (rt_prefixes ?r))"
    using patterns_distinct[of empty_router "service_routes sc ev"] by (simp add: service_router_def empty_router_def)
  have found: "map_of (rt_prefixes ?r) (fst pm) = Some (snd pm)" "prefix (butlast (fst pm)) path"
    using pm(1) d by (auto simp: prefix_matches_def map_of_eq_Some_iff)
  then have "offered (rt_prefixes ?r) (fst pm) \<noteq> None" by (simp add: offered_def)
  then obtain m' where m': "(m', fst pm) \<in> set ROUTE_SLOTS" "is_prefix_pattern (fst pm)"
    by (auto simp: offered_service joined_def split: if_splits)
  then have "covers (fst pm) path" using found(2) by (simp add: covers_def)
  from only[OF m'(1) this] have "fst pm = pat"
    using pm(2) m'(2) by (cases "fst pm") (auto simp: is_prefix_pattern_def Suc_le_eq simp del: butlast.simps last.simps)
  then have "snd pm = ms" using found(1) ms(1) by simp
  then show ?thesis using ms(2) assms(1) by (auto simp: router_match_def exact b)
qed

section \<open>The surface\<close>

definition DOC_SLOTS :: "((string \<times> string) \<times> bool) list" where
  "DOC_SLOTS = map (\<lambda>(k, oper). (k, needs_credential oper)) OPERATIONS"

lemma doc_keys: "map fst OPERATIONS = map fst DOC_SLOTS"
  by (simp add: DOC_SLOTS_def case_prod_beta comp_def)

lemmas doc_table = DOC_SLOTS_def[unfolded OPERATIONS_def list.map prod.case operation_defs needs_operation option.distinct simp_thms]

lemma surface_reached: "list_all (\<lambda>((m, p), _). list_ex (\<lambda>(n, pat). n = m \<and> pat \<noteq> ''/*'' \<and> chosen p pat) ROUTE_SLOTS) DOC_SLOTS"
  unfolding doc_table by code_simp

lemma exact_covered: "\<forall>(m, pat) \<in> set ROUTE_SLOTS. is_prefix_pattern pat \<or> (m, pat) \<in> set (map fst DOC_SLOTS)"
  unfolding doc_table list.map fst_conv ROUTE_SLOTS_def by (simp add: is_prefix_pattern_def)

lemma prefix_slots: "\<forall>(m, pat) \<in> set ROUTE_SLOTS. is_prefix_pattern pat \<longrightarrow>
    pat \<in> {''/*'', ''/api/v1/traces/*'', ''/api/v1/users/*'', ''/api/v1/keys/*''}"
  unfolding ROUTE_SLOTS_def by (simp add: is_prefix_pattern_def)

lemma prefix_paths: "{''/api/v1/traces/{id}'', ''/api/v1/users/{id}'', ''/api/v1/keys/{id}''} \<subseteq> set (map snd (map fst DOC_SLOTS))"
  unfolding doc_table list.map fst_conv snd_conv by simp

lemma slots_covered: "(m, pat) \<in> set ROUTE_SLOTS \<Longrightarrow> is_covered (m, pat)"
proof (cases "is_prefix_pattern pat")
  case False
  assume "(m, pat) \<in> set ROUTE_SLOTS"
  then have "(m, pat) \<in> set (map fst OPERATIONS)" using exact_covered False unfolding doc_keys by blast
  then show ?thesis by (simp add: is_covered_def)
next
  case True
  assume "(m, pat) \<in> set ROUTE_SLOTS"
  then have "pat \<in> {''/*'', ''/api/v1/traces/*'', ''/api/v1/users/*'', ''/api/v1/keys/*''}" using prefix_slots True by blast
  moreover have paths: "''/api/v1/traces/{id}'' \<in> set documented_paths" "''/api/v1/users/{id}'' \<in> set documented_paths"
      "''/api/v1/keys/{id}'' \<in> set documented_paths"
    using prefix_paths unfolding documented_paths_def map_map[symmetric] doc_keys by blast+
  moreover have "py_startswith ''/api/v1/traces/{id}'' (butlast ''/api/v1/traces/*'')" "py_startswith ''/api/v1/users/{id}'' (butlast ''/api/v1/users/*'')"
      "py_startswith ''/api/v1/keys/{id}'' (butlast ''/api/v1/keys/*'')" by (simp_all add: py_startswith_def)
  ultimately have "pat = ''/*'' \<or> (\<exists>path \<in> set documented_paths. py_startswith path (butlast pat))" by blast
  then show ?thesis using True unfolding is_covered_def prod.case by blast
qed

text \<open>Every registered pair, prefix patterns with each of their methods, has a documented operation of the
  same method under a path the pattern covers.\<close>

lemma prefix_methods: "filter (\<lambda>(_, pat). is_prefix_pattern pat) ROUTE_SLOTS =
    [(''GET'', ''/api/v1/traces/*''), (''POST'', ''/api/v1/traces/*''), (''DELETE'', ''/api/v1/traces/*''),
     (''GET'', ''/api/v1/users/*''), (''PATCH'', ''/api/v1/users/*''), (''DELETE'', ''/api/v1/users/*''),
     (''DELETE'', ''/api/v1/keys/*''), (''POST'', ''/api/v1/keys/*''), (''PATCH'', ''/api/v1/keys/*''), (''GET'', ''/*'')]"
  unfolding ROUTE_SLOTS_def by (simp add: is_prefix_pattern_def)

lemma prefix_operations: "{(''GET'', ''/api/v1/traces/{id}''), (''POST'', ''/api/v1/traces/{id}/scores''), (''DELETE'', ''/api/v1/traces/{id}''),
     (''GET'', ''/api/v1/users/{id}/sessions''), (''PATCH'', ''/api/v1/users/{id}''), (''DELETE'', ''/api/v1/users/{id}''),
     (''DELETE'', ''/api/v1/keys/{id}''), (''POST'', ''/api/v1/keys/{id}/rotate''), (''PATCH'', ''/api/v1/keys/{id}'')}
    \<subseteq> set (map fst DOC_SLOTS)"
  unfolding doc_table list.map fst_conv by simp

lemma prefixes_cover: "covers ''/api/v1/traces/*'' ''/api/v1/traces/{id}''" "covers ''/api/v1/traces/*'' ''/api/v1/traces/{id}/scores''"
  "covers ''/api/v1/users/*'' ''/api/v1/users/{id}''" "covers ''/api/v1/users/*'' ''/api/v1/users/{id}/sessions''"
  "covers ''/api/v1/keys/*'' ''/api/v1/keys/{id}''" "covers ''/api/v1/keys/*'' ''/api/v1/keys/{id}/rotate''"
  by (simp_all add: covers_def is_prefix_pattern_def)

lemma every_slot_documented:
  assumes "(m, pat) \<in> set ROUTE_SLOTS" "pat \<noteq> ''/*''"
  shows "\<exists>p. (m, p) \<in> set (map fst DOC_SLOTS) \<and> covers pat p"
proof (cases "is_prefix_pattern pat")
  case False
  then have "(m, pat) \<in> set (map fst DOC_SLOTS)" using exact_covered assms(1) by blast
  moreover have "covers pat pat" using False by (simp add: covers_def)
  ultimately show ?thesis by blast
next
  case True
  have "(m, pat) \<in> set (filter (\<lambda>(_, pat). is_prefix_pattern pat) ROUTE_SLOTS)"
    unfolding set_filter mem_Collect_eq prod.case using assms(1) True by blast
  then show ?thesis
    unfolding prefix_methods list.set insert_iff empty_iff prod.inject
    using prefix_operations[unfolded insert_subset] prefixes_cover assms(2) by (elim disjE conjE) blast+
qed

text \<open>C4: The document and the program have the same surface. Every registered route but the catch-all of
  the console's files (\<open>GET /*\<close>) has a documented operation of the same method under a path its
  pattern covers, so the program's own check finds nothing undocumented; and every documented operation
  reaches, under its own path, a method table of the router that offers its method and is not the
  catch-all.\<close>

theorem documented_surface:
  "undocumented (router_routes (service_router sc ev)) = []
   \<and> list_all (\<lambda>(m, pat, h). pat = ''/*'' \<or> (\<exists>p oper. ((m, p), oper) \<in> set OPERATIONS \<and> covers pat p)) (service_routes sc ev)
   \<and> list_all (\<lambda>((m, p), _). \<exists>pat h ms. (m, pat, h) \<in> set (service_routes sc ev) \<and> pat \<noteq> ''/*'' \<and> covers pat p
       \<and> router_match (service_router sc ev) p = Some ms \<and> m \<in> fst ` set ms) OPERATIONS"
proof (intro conjI)
  let ?r = "service_router sc ev"
  have slot: "(m, pat) \<in> set ROUTE_SLOTS \<longleftrightarrow> (\<exists>h. (m, pat, h) \<in> set (service_routes sc ev))" for m pat
    unfolding slots_service[of sc ev, symmetric] by (force simp: slots_of_def)
  have "is_covered mp" if in_router: "mp \<in> set (router_routes ?r)" for mp
  proof -
    obtain m pat where mp: "mp = (m, pat)" by fastforce
    have "\<exists>meth h. (meth, pat, h) \<in> set (service_routes sc ev) \<and> py_upper_ascii meth = m"
      using in_router entries_service[of sc ev] unfolding mp router_routes_def entries_from_def by (fastforce simp: pairs_of_def)
    then obtain meth where "(meth, pat) \<in> set ROUTE_SLOTS" "py_upper_ascii meth = m" using slot by blast
    then have "(m, pat) \<in> set ROUTE_SLOTS" using upper_slots by metis
    then show ?thesis unfolding mp by (rule slots_covered)
  qed
  then show "undocumented (router_routes ?r) = []" by (simp add: undocumented_def filter_False)
  have "\<exists>p oper. ((m, p), oper) \<in> set OPERATIONS \<and> covers pat p" if "(m, pat, h) \<in> set (service_routes sc ev)" "pat \<noteq> ''/*''" for m pat h
  proof -
    have "(m, pat) \<in> set ROUTE_SLOTS" using that(1) slot by blast
    from every_slot_documented[OF this that(2)] obtain p where "(m, p) \<in> set (map fst OPERATIONS)" "covers pat p"
      unfolding doc_keys by blast
    then show ?thesis by force
  qed
  then show "list_all (\<lambda>(m, pat, h). pat = ''/*'' \<or> (\<exists>p oper. ((m, p), oper) \<in> set OPERATIONS \<and> covers pat p)) (service_routes sc ev)"
    unfolding list_all_iff by blast
  have "\<exists>pat h ms. (m, pat, h) \<in> set (service_routes sc ev) \<and> pat \<noteq> ''/*'' \<and> covers pat p \<and> router_match ?r p = Some ms \<and> m \<in> fst ` set ms"
    if "((m, p), oper) \<in> set OPERATIONS" for m p oper
  proof -
    have "((m, p), needs_credential oper) \<in> set DOC_SLOTS" using that by (force simp: DOC_SLOTS_def)
    from bspec[OF surface_reached[unfolded list_all_iff] this]
    have "list_ex (\<lambda>(n, pat). n = m \<and> pat \<noteq> ''/*'' \<and> chosen p pat) ROUTE_SLOTS" unfolding prod.case .
    then obtain x where x: "x \<in> set ROUTE_SLOTS" "case x of (n, pat) \<Rightarrow> n = m \<and> pat \<noteq> ''/*'' \<and> chosen p pat"
      unfolding list_ex_iff by blast
    obtain n pat where pair: "x = (n, pat)" by (rule prod.exhaust)
    have c: "n = m \<and> pat \<noteq> ''/*'' \<and> chosen p pat" using x(2) unfolding pair prod.case .
    have pat: "(m, pat) \<in> set ROUTE_SLOTS" "pat \<noteq> ''/*''" "chosen p pat" using x(1) c unfolding pair by blast+
    then have "covers pat p" by (simp add: chosen_def)
    moreover obtain h where "(m, pat, h) \<in> set (service_routes sc ev)" using pat(1) unfolding slot ..
    moreover obtain ms where "router_match ?r p = Some ms" "m \<in> fst ` set ms" using chosen_reached[OF pat(1,3)] by blast
    ultimately show ?thesis using pat(2) by (intro exI conjI)
  qed
  then show "list_all (\<lambda>((m, p), _). \<exists>pat h ms. (m, pat, h) \<in> set (service_routes sc ev) \<and> pat \<noteq> ''/*'' \<and> covers pat p
       \<and> router_match ?r p = Some ms \<and> m \<in> fst ` set ms) OPERATIONS"
    by (auto simp: list_all_iff)
qed

section \<open>Credentials\<close>

text \<open>A route the document marks with a credential throughout: every operation documented under its pattern
  and method lists one. \<open>POST /predict\<close> and \<open>POST /route\<close> check their keys in the
  middleware, and only while key auth is armed.\<close>

definition secured :: "string \<Rightarrow> string \<Rightarrow> bool" where
  "secured meth pat \<longleftrightarrow> pat \<notin> set ENGINE_PATHS
     \<and> list_all (\<lambda>((m, p), oper). m = meth \<and> covers pat p \<longrightarrow> needs_credential oper) OPERATIONS"

definition OPEN_SLOTS :: "(string \<times> string) list" where
  "OPEN_SLOTS =
     [(''GET'', ''/healthz''), (''GET'', ''/''), (''GET'', ''/api/v1/meta''), (''GET'', ''/api/v1/traces''), (''GET'', ''/api/v1/traces/*''),
      (''POST'', ''/api/v1/traces/*''), (''DELETE'', ''/api/v1/traces/*''), (''GET'', ''/api/v1/metrics''),
      (''GET'', ''/api/v1/metrics/summary''), (''GET'', ''/api/v1/metrics/models''), (''GET'', ''/api/v1/logs''),
      (''GET'', ''/api/v1/logs/export''), (''GET'', ''/api/v1/settings''), (''POST'', ''/api/v1/auth/login''), (''POST'', ''/api/v1/auth/setup''),
      (''GET'', ''/api/v1/models''), (''POST'', ''/api/v1/models''), (''POST'', ''/api/v1/models/load''), (''POST'', ''/api/v1/models/unload''),
      (''GET'', ''/api/v1/stream''), (''GET'', ''/*'')]"

lemma open_documented: "list_all (\<lambda>(m, pat). list_ex (\<lambda>((n, p), locked). n = m \<and> covers pat p \<and> \<not> locked) DOC_SLOTS) OPEN_SLOTS"
  unfolding doc_table by code_simp

lemma secured_table: "secured meth pat \<longleftrightarrow> pat \<notin> set ENGINE_PATHS \<and> list_all (\<lambda>((m, p), locked). m = meth \<and> covers pat p \<longrightarrow> locked) DOC_SLOTS"
  unfolding secured_def DOC_SLOTS_def list_all_iff by fastforce

lemma open_not_secured: "(meth, pat) \<in> set OPEN_SLOTS \<Longrightarrow> \<not> secured meth pat"
proof -
  assume "(meth, pat) \<in> set OPEN_SLOTS"
  from bspec[OF open_documented[unfolded list_all_iff] this]
  have "list_ex (\<lambda>((n, p), locked). n = meth \<and> covers pat p \<and> \<not> locked) DOC_SLOTS" unfolding prod.case .
  then show ?thesis unfolding secured_table list_ex_iff list_all_iff by (auto split: prod.splits)
qed

lemma gated_routes:
  assumes "(meth, pat, h) \<in> set (service_routes sc ev)" "anonymous rq" "cx_cached (ev_ctx ev) = None"
  shows "(meth, pat) \<in> set OPEN_SLOTS \<or> pat \<in> set ENGINE_PATHS \<or> refuses (h rq)"
proof -
  note gated = refuses_identity[OF assms(2,3)] refuses_keys[OF assms(2,3)] refuses_policy[OF assms(2,3)]
  have auth: ?thesis if "(meth, pat, h) \<in> set (auth_routes ev @ settings_routes sc ev @ ratelimit_routes ev @ audit_routes sc ev @ range_delete_routes sc ev)"
  proof -
    let ?open = "{(''POST'', ''/api/v1/auth/login''), (''POST'', ''/api/v1/auth/setup''), (''GET'', ''/api/v1/settings'')}"
    have "(meth, pat) \<in> ?open \<or> (\<exists>k. h = api ev k \<and> refuses (k (ev_ctx ev) rq))"
      using that unfolding auth_routes_def user_routes_def key_routes_def settings_routes_def ratelimit_routes_def audit_routes_def range_delete_routes_def
      by (simp only: set_append list.set Un_iff insert_iff empty_iff prod.inject) (elim disjE conjE; insert gated; simp?; blast)
    moreover have "?open \<subseteq> set OPEN_SLOTS" by (simp add: OPEN_SLOTS_def)
    ultimately show ?thesis by (auto simp: api_def refuses_with_app)
  qed
  have play: ?thesis if "(meth, pat, h) \<in> set (playground_routes sc ev)"
    using that refuses_play[OF assms(2,3)] unfolding playground_routes_def by auto
  have rest: ?thesis if "(meth, pat, h) \<in> set (health_routes sc @ root_routes sc @ meta_routes sc ev @ trace_routes sc ev
      @ metrics_routes sc ev @ logs_routes sc ev @ model_routes sc ev @ engine_routes sc ev
      @ [(''GET'', ''/api/v1/stream'', stream_route ev)] @ [(''GET'', ''/*'', static_handler (sc_disk sc) (sc_web_root sc))])"
    using that unfolding health_routes_def root_routes_def meta_routes_def trace_routes_def metrics_routes_def
      logs_routes_def model_routes_def engine_routes_def
    by (simp only: set_append list.set Un_iff insert_iff empty_iff prod.inject) (elim disjE conjE; simp add: OPEN_SLOTS_def ENGINE_PATHS_def)
  show ?thesis using assms(1) auth play rest unfolding service_routes_def set_append by blast
qed

text \<open>C3: Outside the engine, what the document marks with a credential refuses to work without one: a route
  other than \<open>/predict\<close> and \<open>/route\<close>, all of whose documented operations list a credential,
  called with neither a session cookie nor an API key, raises, and leaves the whole state as it was but
  for the database handle it opened and closed. The handlers of the two engine paths do not look at
  keys: the middleware does, while key auth is armed.\<close>

theorem documented_credentials_are_enforced:
  assumes "(meth, pat, h) \<in> set (service_routes sc ev)" "secured meth pat" "anonymous rq" "cx_cached (ev_ctx ev) = None"
  shows "\<exists>e. fst (h rq s) = Inl e \<and> (snd (h rq s) = s \<or> snd (h rq s) = conn_close s)"
  using gated_routes[OF assms(1,3,4)] open_not_secured assms(2) unfolding refuses_def secured_def by blast

theorem documented_credentials_are_enforced_witness:
  "\<exists>e. fst (api (demo_env []) list_users (demo_get\<lparr>rq_path := ''/api/v1/users''\<rparr>) (demo_world two_owners)) = Inl e"
proof -
  have r: "(''GET'', ''/api/v1/users'', api (demo_env []) list_users) \<in> set (service_routes demo_service (demo_env []))"
    by (simp add: service_routes_def auth_routes_def user_routes_def)
  have s: "secured ''GET'' ''/api/v1/users''" unfolding secured_table doc_table by code_simp
  have a: "anonymous (demo_get\<lparr>rq_path := ''/api/v1/users''\<rparr>)" "cx_cached (ev_ctx (demo_env [])) = None" by code_simp+
  show ?thesis using documented_credentials_are_enforced[OF r s a, of "demo_world two_owners"] by blast
qed

end
