(* ===== verification/Retention.thy ===== *)
theory Retention
  imports Writer
begin

text \<open>
  Models \<open>layawatch/store/retention.py\<close>: building the rollup rows of traces about to be
  pruned, completing their parents, and the chunked deletes. A chunk takes the first 500 victims
  in the scan order of the statement, which SQLite does not promise: it is an argument, any
  permutation of the victims. Every chunk commits, so the database of the model is the committed
  one. Page counts and the outcome of the checkpoint are inputs; the timer thread is left out.
\<close>

definition DELETE_CHUNK :: nat where
  "DELETE_CHUNK = 500"

definition SESSION_GRACE_DAYS :: pyfloat where
  "SESSION_GRACE_DAYS = 30"

section \<open>Chunked deletes\<close>

text \<open>The loop every prune shares: select a chunk of victims, remove what the statement reaches,
  commit, and stop after a chunk that was not full. It may not end, so the result is optional.\<close>

partial_function (option) chunk_loop ::
    "('s \<Rightarrow> 'r list) \<Rightarrow> ('r list \<Rightarrow> 's \<Rightarrow> 'r list) \<Rightarrow> ('r list \<Rightarrow> 's \<Rightarrow> 's) \<Rightarrow> nat \<Rightarrow> 's \<Rightarrow> (nat \<times> 's) option" where
  "chunk_loop victims reach erase n s =
     (let gone = reach (take DELETE_CHUNK (victims s)) s; s' = erase gone s in
      if length gone < DELETE_CHUNK then Some (n + length gone, s')
      else chunk_loop victims reach erase (n + length gone) s')"

locale chunked_erase =
  fixes victims :: "'s \<Rightarrow> 'r list" and reach :: "'r list \<Rightarrow> 's \<Rightarrow> 'r list"
    and erase :: "'r list \<Rightarrow> 's \<Rightarrow> 's" and ok :: "'s \<Rightarrow> bool"
  assumes victims_distinct: "ok s \<Longrightarrow> distinct (victims s)"
    and reach_chunk: "ok s \<Longrightarrow> set c \<subseteq> set (victims s) \<Longrightarrow> distinct c \<Longrightarrow>
      set c \<subseteq> set (reach c s) \<and> set (reach c s) \<subseteq> set (victims s) \<and> distinct (reach c s)"
    and erase_ok: "ok s \<Longrightarrow> ok (erase c s)"
    and victims_erase: "ok s \<Longrightarrow> set c \<subseteq> set (victims s) \<Longrightarrow> set (victims (erase c s)) = set (victims s) - set c"
    and erase_erase: "erase e (erase c s) = erase (c @ e) s"
    and erase_cong: "set c = set e \<Longrightarrow> erase c s = erase e s"
begin

lemma distinct_count: "distinct xs \<Longrightarrow> length xs = card (set xs)"
  by (simp add: distinct_card)

text \<open>The loop ends, and does what one unbounded statement would have done.\<close>

lemma loop_result:
  "ok s \<Longrightarrow> chunk_loop victims reach erase n s = Some (n + length (victims s), erase (victims s) s)"
proof (induction "length (victims s)" arbitrary: s n rule: less_induct)
  case less
  let ?c = "take DELETE_CHUNK (victims s)"
  let ?R = "reach ?c s"
  have dv: "distinct (victims s)" by (rule victims_distinct[OF less.prems])
  have c: "set ?c \<subseteq> set (victims s)" "distinct ?c" using dv by (auto dest: in_set_takeD)
  note R = reach_chunk[OF less.prems c]
  show ?case
  proof (cases "length ?R < DELETE_CHUNK")
    case True
    have "length ?c \<le> length ?R" using R c(2) by (metis List.finite_set card_mono distinct_count)
    with True have "?c = victims s" by simp
    with R have same: "set ?R = set (victims s)" by auto
    then have "length ?R = length (victims s)" using R dv by (simp add: distinct_count)
    then show ?thesis
      using True erase_cong[OF same] by (subst chunk_loop.simps) (simp add: Let_def)
  next
    case False
    let ?s = "erase ?R s"
    have v: "set (victims ?s) = set (victims s) - set ?R" using victims_erase less.prems R by blast
    have ok': "ok ?s" by (rule erase_ok[OF less.prems])
    have len: "length (victims ?s) + length ?R = length (victims s)"
      using R v dv victims_distinct[OF ok'] by (simp add: distinct_count card_Diff_subset card_mono)
    have "0 < length ?R" using False unfolding DELETE_CHUNK_def by linarith
    then have "length (victims ?s) < length (victims s)" using len by linarith
    note IH = less.hyps[OF this ok', of "n + length ?R"]
    have "erase (victims ?s) ?s = erase (victims s) s"
      unfolding erase_erase using v R by (intro erase_cong) auto
    then show ?thesis
      using False IH len by (subst chunk_loop.simps) (simp add: Let_def add.assoc add.commute)
  qed
qed

end

section \<open>What is beyond the caps\<close>

text \<open>\<open>ORDER BY ts DESC, rowid DESC\<close> over rows in rowid order, and what lies beyond an offset.\<close>

definition newest_first :: "('r \<Rightarrow> pyfloat) \<Rightarrow> 'r list \<Rightarrow> 'r list" where
  "newest_first ts rows = rev (sort_key ts rows)"

definition overflow :: "('r \<Rightarrow> pyfloat) \<Rightarrow> nat \<Rightarrow> 'r list \<Rightarrow> 'r list" where
  "overflow ts cap rows = drop cap (newest_first ts rows)"

definition doomed :: "('r \<Rightarrow> pyfloat) \<Rightarrow> pyfloat \<Rightarrow> nat \<Rightarrow> 'r list \<Rightarrow> 'r list" where
  "doomed ts cutoff cap rows = filter (\<lambda>r. ts r < cutoff \<or> r \<in> set (overflow ts cap rows)) rows"

definition scan_ok :: "('r list \<Rightarrow> 'r list) \<Rightarrow> bool" where
  "scan_ok scan \<longleftrightarrow> (\<forall>rows. mset (scan rows) = mset rows)"

lemma scan_set: "scan_ok scan \<Longrightarrow> set (scan rows) = set rows"
  unfolding scan_ok_def by (metis set_mset_mset)

lemma scan_distinct: "scan_ok scan \<Longrightarrow> distinct (scan rows) = distinct rows"
  unfolding scan_ok_def by (metis mset_eq_imp_distinct_iff)

lemma scan_length: "scan_ok scan \<Longrightarrow> length (scan rows) = length rows"
  unfolding scan_ok_def by (metis size_mset)

lemma newest_first_filter: "newest_first ts (filter P rows) = filter P (newest_first ts rows)"
  by (simp add: newest_first_def filter_sort flip: rev_filter)

lemma newest_first_facts: "set (newest_first ts rows) = set rows" "distinct (newest_first ts rows) = distinct rows"
  by (simp_all add: newest_first_def)

lemma newest_first_sorted: fixes ts :: "'r \<Rightarrow> pyfloat" shows "sorted_wrt (\<lambda>a b. ts b \<le> ts a) (newest_first ts rows)"
proof -
  have "sorted (map ts (sort_key ts rows))" by simp
  then show ?thesis unfolding newest_first_def sorted_wrt_rev sorted_map by simp
qed

text \<open>In a descending list the doomed rows are a suffix.\<close>

lemma doomed_suffix:
  fixes ts :: "'r \<Rightarrow> pyfloat"
  assumes "sorted_wrt (\<lambda>a b. ts b \<le> ts a) L" "distinct L"
  shows "filter (\<lambda>r. ts r < cutoff \<or> r \<in> set (drop cap L)) L
       = drop (min cap (length (takeWhile (\<lambda>r. \<not> ts r < cutoff) L))) L"
  using assms
proof (induction L arbitrary: cap)
  case (Cons x L)
  show ?case
  proof (cases "ts x < cutoff \<or> cap = 0")
    case True
    have "\<forall>r \<in> set (x # L). ts r < cutoff \<or> r \<in> set (drop cap (x # L))"
    proof (cases "cap = 0")
      case False
      with True have "ts x < cutoff" by simp
      moreover have "\<forall>r \<in> set L. ts r \<le> ts x" using Cons.prems(1) by simp
      ultimately have "ts r < cutoff" if "r \<in> set (x # L)" for r
        using that le_less_trans[of "ts r" "ts x" cutoff] by auto
      then show ?thesis by blast
    qed simp
    then have "filter (\<lambda>r. ts r < cutoff \<or> r \<in> set (drop cap (x # L))) (x # L) = x # L"
      by (simp only: filter_id_conv)
    moreover have "min cap (length (takeWhile (\<lambda>r. \<not> ts r < cutoff) (x # L))) = 0" using True by auto
    ultimately show ?thesis by simp
  next
    case False
    then obtain k where k: "cap = Suc k" by (cases cap) auto
    have "x \<notin> set (drop k L)" using Cons.prems(2) by (auto dest: in_set_dropD)
    with False k Cons.IH[of k] Cons.prems show ?thesis by simp
  qed
qed simp

lemma takeWhile_none: "\<forall>r \<in> set M. Q r \<Longrightarrow> takeWhile (\<lambda>r. \<not> Q r) (filter P M) = []"
proof -
  assume "\<forall>r \<in> set M. Q r"
  then have "\<forall>r \<in> set (filter P M). Q r" by simp
  then show ?thesis by (cases "filter P M") auto
qed

lemma doomed_stable_list:
  fixes ts :: "'r \<Rightarrow> pyfloat"
  assumes "sorted_wrt (\<lambda>a b. ts b \<le> ts a) L" "distinct L"
    and "\<And>r. r \<in> set L \<Longrightarrow> \<not> P r \<Longrightarrow> ts r < cutoff \<or> r \<in> set (drop cap L)"
  shows "filter (\<lambda>r. ts r < cutoff \<or> r \<in> set (drop cap (filter P L))) (filter P L)
       = filter P (filter (\<lambda>r. ts r < cutoff \<or> r \<in> set (drop cap L)) L)"
proof -
  let ?Q = "\<lambda>r. \<not> ts r < cutoff"
  define w where "w = length (takeWhile ?Q L)"
  define n where "n = min cap w"
  have suffix: "filter (\<lambda>r. ts r < cutoff \<or> r \<in> set (drop cap L)) L = drop n L"
    using doomed_suffix[OF assms(1,2)] by (simp only: n_def w_def)
  have tw: "takeWhile ?Q L = take w L" "dropWhile ?Q L = drop w L"
    unfolding w_def by (rule takeWhile_eq_take, rule dropWhile_eq_drop)
  have wl: "w \<le> length L" unfolding w_def by (rule length_takeWhile_le)
  have keep: "P r" if r: "r \<in> set (take n L)" for r
  proof -
    have "distinct (take n L @ drop n L)" using assms(2) by simp
    with r have "r \<notin> set (drop n L)" by (metis distinct_append disjoint_iff)
    then have "r \<notin> set (filter (\<lambda>r. ts r < cutoff \<or> r \<in> set (drop cap L)) L)" by (simp only: suffix not_False_eq_True)
    with in_set_takeD[OF r] assms(3)[of r] show "P r" by auto
  qed
  have "filter P (take n L @ drop n L) = take n L @ filter P (drop n L)"
    unfolding filter_append using keep by simp
  then have split: "filter P L = take n L @ filter P (drop n L)" by (simp only: append_take_drop_id)
  have young: "\<forall>r \<in> set (take n L). ?Q r"
  proof
    fix r assume "r \<in> set (take n L)"
    moreover have "take n L = take n (take w L)" by (simp add: n_def min.commute min.left_commute)
    ultimately have "r \<in> set (takeWhile ?Q L)" unfolding tw by (metis in_set_takeD)
    from set_takeWhileD[OF this] show "?Q r" by simp
  qed
  have pre: "takeWhile ?Q (filter P L) = take n L @ takeWhile ?Q (filter P (drop n L))"
    unfolding split using young by (intro takeWhile_append2) blast
  have "min cap (length (takeWhile ?Q (filter P L))) = n"
  proof (cases "cap \<le> w")
    case True
    then have "n = cap" "n \<le> length L" using wl by (simp_all add: n_def)
    then show ?thesis unfolding pre by simp
  next
    case False
    then have nw: "n = w" by (simp add: n_def)
    have "\<forall>r \<in> set (drop n L). ts r < cutoff"
    proof (cases "drop n L")
      case (Cons x xs)
      have "\<not> ?Q (hd (dropWhile ?Q L))" by (rule hd_dropWhile) (simp add: tw Cons flip: nw)
      then have "ts x < cutoff" by (simp add: tw Cons flip: nw)
      moreover have "sorted_wrt (\<lambda>a b. ts b \<le> ts a) (x # xs)" using sorted_wrt_drop[OF assms(1), of n] Cons by simp
      ultimately show ?thesis unfolding Cons by (auto intro: le_less_trans)
    qed simp
    then have "takeWhile ?Q (filter P (drop n L)) = []" by (rule takeWhile_none)
    then show ?thesis unfolding pre using False nw wl by simp
  qed
  then have "filter (\<lambda>r. ts r < cutoff \<or> r \<in> set (drop cap (filter P L))) (filter P L) = drop n (filter P L)"
    using doomed_suffix[OF sorted_wrt_filter[OF assms(1), of P] distinct_filter[OF assms(2), of P], of cutoff cap] by simp
  also have "\<dots> = filter P (drop n L)"
    unfolding split using wl by (simp add: n_def)
  finally show ?thesis by (simp only: suffix)
qed

text \<open>Removing doomed rows dooms no other row and saves none.\<close>

lemma doomed_stable:
  assumes "distinct rows" "set c \<subseteq> set (doomed ts cutoff cap rows)"
  shows "doomed ts cutoff cap (filter (\<lambda>r. r \<notin> set c) rows) = filter (\<lambda>r. r \<notin> set c) (doomed ts cutoff cap rows)"
proof -
  let ?P = "\<lambda>r. r \<notin> set c" and ?L = "newest_first ts rows"
  have "filter (\<lambda>r. ts r < cutoff \<or> r \<in> set (drop cap (filter ?P ?L))) (filter ?P ?L)
      = filter ?P (filter (\<lambda>r. ts r < cutoff \<or> r \<in> set (drop cap ?L)) ?L)"
  proof (rule doomed_stable_list[OF newest_first_sorted])
    show "distinct ?L" using assms(1) by (simp add: newest_first_facts)
    show "ts r < cutoff \<or> r \<in> set (drop cap ?L)" if "r \<in> set ?L" "\<not> ?P r" for r
      using that assms(2) by (auto simp: doomed_def overflow_def)
  qed
  then have "set (filter (\<lambda>r. ts r < cutoff \<or> r \<in> set (drop cap (filter ?P ?L))) (filter ?P ?L))
      = set (filter ?P (filter (\<lambda>r. ts r < cutoff \<or> r \<in> set (drop cap ?L)) ?L))" by (rule arg_cong)
  then have "ts r < cutoff \<or> r \<in> set (drop cap (filter ?P ?L)) \<longleftrightarrow> ts r < cutoff \<or> r \<in> set (drop cap ?L)"
    if "r \<in> set rows" "?P r" for r
    using that by (auto simp: newest_first_facts)
  then show ?thesis
    unfolding doomed_def overflow_def newest_first_filter filter_filter by (intro filter_cong) auto
qed

lemma doomed_subset: "set (doomed ts cutoff cap rows) \<subseteq> set rows"
  by (auto simp: doomed_def)

section \<open>The five prunes\<close>

definition rows_ok :: "db \<Rightarrow> bool" where
  "rows_ok d \<longleftrightarrow> distinct (db_traces d) \<and> distinct (map ob_id (db_observations d)) \<and> distinct (db_logs d)
     \<and> dict_ok (db_rollups d) \<and> distinct (db_sessions d)"

definition trace_victims :: "(trace list \<Rightarrow> trace list) \<Rightarrow> pyfloat \<Rightarrow> nat \<Rightarrow> db \<Rightarrow> trace list" where
  "trace_victims sc cutoff cap d = sc (doomed tr_ts_start cutoff cap (db_traces d))"

definition erase_traces :: "trace list \<Rightarrow> db \<Rightarrow> db" where
  "erase_traces c d = snd (delete_traces_where (\<lambda>t. t \<in> set c) d)"

definition same_rows :: "'r list \<Rightarrow> db \<Rightarrow> 'r list" where
  "same_rows c d = c"

definition prune_traces :: "(trace list \<Rightarrow> trace list) \<Rightarrow> pyfloat \<Rightarrow> nat \<Rightarrow> db \<Rightarrow> (nat \<times> db) option" where
  "prune_traces sc cutoff cap d = chunk_loop (trace_victims sc cutoff cap) same_rows erase_traces 0 d"

definition log_victims :: "(log_row list \<Rightarrow> log_row list) \<Rightarrow> pyfloat \<Rightarrow> nat \<Rightarrow> db \<Rightarrow> log_row list" where
  "log_victims sc cutoff cap d = sc (doomed ll_ts cutoff cap (db_logs d))"

definition erase_logs :: "log_row list \<Rightarrow> db \<Rightarrow> db" where
  "erase_logs c d = d\<lparr>db_logs := filter (\<lambda>r. r \<notin> set c) (db_logs d)\<rparr>"

definition prune_logs :: "(log_row list \<Rightarrow> log_row list) \<Rightarrow> pyfloat \<Rightarrow> nat \<Rightarrow> db \<Rightarrow> (nat \<times> db) option" where
  "prune_logs sc cutoff cap d = chunk_loop (log_victims sc cutoff cap) same_rows erase_logs 0 d"

text \<open>\<open>DELETE ... WHERE bucket IN (SELECT bucket ...)\<close>: a chunk removes every row of its buckets.\<close>

type_synonym rollup = "rollup_key \<times> stats"

definition rollup_victims :: "(rollup list \<Rightarrow> rollup list) \<Rightarrow> pyfloat \<Rightarrow> db \<Rightarrow> rollup list" where
  "rollup_victims sc cutoff d = sc (filter (\<lambda>r. of_int (rk_bucket (fst r)) < cutoff) (db_rollups d))"

definition same_buckets :: "rollup list \<Rightarrow> db \<Rightarrow> rollup list" where
  "same_buckets c d = filter (\<lambda>r. rk_bucket (fst r) \<in> set (map (\<lambda>v. rk_bucket (fst v)) c)) (db_rollups d)"

definition erase_rollups :: "rollup list \<Rightarrow> db \<Rightarrow> db" where
  "erase_rollups c d = d\<lparr>db_rollups := filter (\<lambda>r. r \<notin> set c) (db_rollups d)\<rparr>"

definition prune_rollups :: "(rollup list \<Rightarrow> rollup list) \<Rightarrow> pyfloat \<Rightarrow> db \<Rightarrow> (nat \<times> db) option" where
  "prune_rollups sc cutoff d = chunk_loop (rollup_victims sc cutoff) same_buckets erase_rollups 0 d"

definition has_payload :: "observation \<Rightarrow> bool" where
  "has_payload ob \<longleftrightarrow> ob_input ob \<noteq> None \<or> ob_output ob \<noteq> None"

definition null_payload :: "observation \<Rightarrow> observation" where
  "null_payload ob = ob\<lparr>ob_input := None, ob_output := None\<rparr>"

definition payload_victims :: "(observation list \<Rightarrow> observation list) \<Rightarrow> pyfloat \<Rightarrow> db \<Rightarrow> observation list" where
  "payload_victims sc cutoff d = sc (filter (\<lambda>ob. has_payload ob
     \<and> list_ex (\<lambda>t. tr_id t = ob_trace_id ob \<and> tr_ts_start t < cutoff) (db_traces d)) (db_observations d))"

definition erase_payloads :: "observation list \<Rightarrow> db \<Rightarrow> db" where
  "erase_payloads c d = d\<lparr>db_observations := map (\<lambda>ob. if ob \<in> set c then null_payload ob else ob) (db_observations d)\<rparr>"

definition null_payloads :: "(observation list \<Rightarrow> observation list) \<Rightarrow> pyfloat \<Rightarrow> db \<Rightarrow> (nat \<times> db) option" where
  "null_payloads sc cutoff d = chunk_loop (payload_victims sc cutoff) same_rows erase_payloads 0 d"

definition session_victims :: "(session list \<Rightarrow> session list) \<Rightarrow> pyfloat \<Rightarrow> db \<Rightarrow> session list" where
  "session_victims sc cutoff d = sc (filter (\<lambda>s. se_expires_at s < cutoff) (db_sessions d))"

definition erase_sessions :: "session list \<Rightarrow> db \<Rightarrow> db" where
  "erase_sessions c d = d\<lparr>db_sessions := filter (\<lambda>s. s \<notin> set c) (db_sessions d)\<rparr>"

definition prune_sessions :: "(session list \<Rightarrow> session list) \<Rightarrow> pyfloat \<Rightarrow> db \<Rightarrow> (nat \<times> db) option" where
  "prune_sessions sc cutoff d = chunk_loop (session_victims sc cutoff) same_rows erase_sessions 0 d"

text \<open>The laws of each prune.\<close>

lemma filter_twice: "filter (\<lambda>r. r \<notin> set e) (filter (\<lambda>r. r \<notin> set c) rows) = filter (\<lambda>r. r \<notin> set (c @ e)) rows"
  by (induction rows) auto

lemma erase_traces_simps:
  "db_traces (erase_traces c d) = filter (\<lambda>t. t \<notin> set c) (db_traces d)"
  "db_observations (erase_traces c d) = filter (\<lambda>ob. ob_trace_id ob \<notin> tr_id ` (set (db_traces d) \<inter> set c)) (db_observations d)"
  "db_scores (erase_traces c d) = filter (\<lambda>sc. sc_trace_id sc \<notin> tr_id ` (set (db_traces d) \<inter> set c)) (db_scores d)"
  unfolding erase_traces_def delete_traces_where_simps by (simp_all add: Int_def)

lemma erase_traces_twice: "erase_traces e (erase_traces c d) = erase_traces (c @ e) d"
proof -
  have ids: "x \<notin> tr_id ` (set (db_traces d) \<inter> set c) \<and> x \<notin> tr_id ` (set (filter (\<lambda>t. t \<notin> set c) (db_traces d)) \<inter> set e)
      \<longleftrightarrow> x \<notin> tr_id ` (set (db_traces d) \<inter> set (c @ e))" for x
    by auto
  have shape: "erase_traces c d = d\<lparr>db_traces := db_traces (erase_traces c d),
      db_observations := db_observations (erase_traces c d), db_scores := db_scores (erase_traces c d)\<rparr>" for c d
    by (simp add: erase_traces_def delete_traces_where_def Let_def)
  have parts: "db_traces (erase_traces e (erase_traces c d)) = db_traces (erase_traces (c @ e) d)"
    "db_observations (erase_traces e (erase_traces c d)) = db_observations (erase_traces (c @ e) d)"
    "db_scores (erase_traces e (erase_traces c d)) = db_scores (erase_traces (c @ e) d)"
    unfolding erase_traces_simps filter_twice filter_filter using ids by (simp_all add: conj_commute)
  have "erase_traces e (erase_traces c d) = (erase_traces c d)\<lparr>db_traces := db_traces (erase_traces (c @ e) d),
      db_observations := db_observations (erase_traces (c @ e) d), db_scores := db_scores (erase_traces (c @ e) d)\<rparr>"
    using shape[of e "erase_traces c d"] by (simp only: parts)
  also have "\<dots> = erase_traces (c @ e) d"
    by (subst shape[of c d]) (simp add: shape[of "c @ e" d, symmetric])
  finally show ?thesis .
qed

lemma dict_ok_distinct: "dict_ok d \<Longrightarrow> distinct d"
  unfolding dict_ok_def by (simp add: distinct_map)

lemma erase_traces_ok: "rows_ok d \<Longrightarrow> rows_ok (erase_traces c d)"
  unfolding rows_ok_def
  by (simp add: erase_traces_simps distinct_map_filter) (simp add: erase_traces_def delete_traces_where_def Let_def)

lemma erase_traces_cong: "set c = set e \<Longrightarrow> erase_traces c d = erase_traces e d"
  by (simp add: erase_traces_def)

interpretation trace_prune: chunked_erase "trace_victims sc cutoff cap" same_rows erase_traces
    "\<lambda>d. scan_ok sc \<and> rows_ok d" for sc cutoff cap
proof unfold_locales
  fix d and c :: "trace list"
  assume ok: "scan_ok sc \<and> rows_ok d"
  then have dist: "distinct (db_traces d)" by (simp add: rows_ok_def)
  show "distinct (trace_victims sc cutoff cap d)"
    using ok dist by (simp add: trace_victims_def scan_distinct doomed_def)
  show "scan_ok sc \<and> rows_ok (erase_traces c d)" using ok by (simp add: erase_traces_ok)
  show "set (trace_victims sc cutoff cap (erase_traces c d)) = set (trace_victims sc cutoff cap d) - set c"
    if "set c \<subseteq> set (trace_victims sc cutoff cap d)"
    using that ok dist by (auto simp: trace_victims_def scan_set erase_traces_simps doomed_stable)
qed (auto simp: same_rows_def erase_traces_twice intro: erase_traces_cong)

interpretation log_prune: chunked_erase "log_victims sc cutoff cap" same_rows erase_logs
    "\<lambda>d. scan_ok sc \<and> rows_ok d" for sc cutoff cap
proof unfold_locales
  fix d and c :: "log_row list"
  assume ok: "scan_ok sc \<and> rows_ok d"
  then have dist: "distinct (db_logs d)" by (simp add: rows_ok_def)
  show "distinct (log_victims sc cutoff cap d)"
    using ok dist by (simp add: log_victims_def scan_distinct doomed_def)
  show "scan_ok sc \<and> rows_ok (erase_logs c d)" using ok by (simp add: rows_ok_def erase_logs_def)
  show "set (log_victims sc cutoff cap (erase_logs c d)) = set (log_victims sc cutoff cap d) - set c"
    if "set c \<subseteq> set (log_victims sc cutoff cap d)"
    using that ok dist by (auto simp: log_victims_def scan_set erase_logs_def doomed_stable)
qed (auto simp: same_rows_def erase_logs_def filter_twice[simplified])

interpretation rollup_prune: chunked_erase "rollup_victims sc cutoff" same_buckets erase_rollups
    "\<lambda>d. scan_ok sc \<and> rows_ok d" for sc cutoff
  by unfold_locales
    (auto simp: rollup_victims_def same_buckets_def erase_rollups_def rows_ok_def scan_set scan_distinct filter_twice[simplified]
      dest: dict_ok_distinct)

lemma null_payload_idem: "null_payload (null_payload ob) = null_payload ob" "\<not> has_payload (null_payload ob)"
  "ob_id (null_payload ob) = ob_id ob" "ob_trace_id (null_payload ob) = ob_trace_id ob"
  by (simp_all add: null_payload_def has_payload_def)

interpretation payload_prune: chunked_erase "payload_victims sc cutoff" same_rows erase_payloads
    "\<lambda>d. scan_ok sc \<and> rows_ok d" for sc cutoff
proof unfold_locales
  fix d and c :: "observation list"
  assume ok: "scan_ok sc \<and> rows_ok d"
  then have dist: "distinct (map ob_id (db_observations d))" by (simp add: rows_ok_def)
  show "distinct (payload_victims sc cutoff d)"
    using ok dist by (simp add: payload_victims_def scan_distinct distinct_map)
  have ids: "map ob_id (db_observations (erase_payloads c d)) = map ob_id (db_observations d)"
    by (simp add: erase_payloads_def null_payload_idem)
  have rest: "db_traces (erase_payloads c d) = db_traces d" "db_logs (erase_payloads c d) = db_logs d"
    "db_rollups (erase_payloads c d) = db_rollups d" "db_sessions (erase_payloads c d) = db_sessions d"
    by (simp_all add: erase_payloads_def)
  show "scan_ok sc \<and> rows_ok (erase_payloads c d)"
    using ok by (simp only: rows_ok_def ids rest)
  show "set (payload_victims sc cutoff (erase_payloads c d)) = set (payload_victims sc cutoff d) - set c"
    if "set c \<subseteq> set (payload_victims sc cutoff d)"
    using ok by (auto simp: payload_victims_def scan_set erase_payloads_def null_payload_idem)
next
  fix d and c e :: "observation list"
  show "erase_payloads e (erase_payloads c d) = erase_payloads (c @ e) d"
    by (simp add: erase_payloads_def null_payload_idem)
qed (auto simp: same_rows_def erase_payloads_def)

interpretation session_prune: chunked_erase "session_victims sc cutoff" same_rows erase_sessions
    "\<lambda>d. scan_ok sc \<and> rows_ok d" for sc cutoff
  by unfold_locales
    (auto simp: session_victims_def same_rows_def erase_sessions_def rows_ok_def scan_set scan_distinct filter_twice[simplified])

section \<open>Rollups of what is about to go\<close>

text \<open>The keys of every trace a prune would remove, without buckets past the rollup cutoff.\<close>

definition pending_keys :: "pyfloat \<Rightarrow> nat \<Rightarrow> pyfloat \<Rightarrow> db \<Rightarrow> open_key list" where
  "pending_keys cutoff cap rollup_cutoff d =
     remdups (concat (map (\<lambda>t. let b = bucket_of (tr_ts_start t) BUCKET_STEP in
        if of_int b < rollup_cutoff then [] else map (Pair b) (trace_dims t))
       (filter (\<lambda>t. tr_ts_start t < cutoff) (db_traces d) @ overflow tr_ts_start cap (db_traces d))))"

definition in_window :: "int \<Rightarrow> trace \<Rightarrow> bool" where
  "in_window b t \<longleftrightarrow> of_int b \<le> tr_ts_start t \<and> tr_ts_start t < of_int (b + BUCKET_STEP)"

text \<open>\<open>_gather_stats\<close>: the row of one key from the raw traces; None when there are none.\<close>

definition gather_stats :: "open_key \<Rightarrow> db \<Rightarrow> stats option" where
  "gather_stats key d =
     (case key of (b, metric, model, route, status) \<Rightarrow>
        let rows = filter (in_window b) (db_traces d);
            mine = filter (\<lambda>t. model_dim t = model \<and> tr_route t = route) rows in
        if is_counter metric then
          (let n = (if metric = ''errors'' then length (filter (\<lambda>t. tr_status t = status) rows) else length mine)
           in if n = 0 then None else Some (counter_stats (int n)))
        else
          (let values = map (if metric = ''latency'' then tr_duration_ms else tr_queue_ms) mine
           in if values = [] then None else Some (summarize values)))"

definition build_one :: "open_key \<Rightarrow> nat \<times> db \<Rightarrow> nat \<times> db" where
  "build_one key nd = (case nd of (n, d) \<Rightarrow>
     let rk = rollup_key_at (fst key) BUCKET_STEP (snd key) in
     if load_rollup_row rk d \<noteq> None then (n, d)
     else (case gather_stats key d of None \<Rightarrow> (n, d) | Some st \<Rightarrow> (Suc n, upsert_rollup (rk, st) d)))"

definition build_pending :: "open_key list \<Rightarrow> db \<Rightarrow> nat \<times> db" where
  "build_pending ks d = fold build_one (sort ks) (0, d)"

text \<open>The 10 s rows below a parent.\<close>

definition children :: "int \<Rightarrow> int \<Rightarrow> dims \<Rightarrow> db \<Rightarrow> stats list" where
  "children parent step K d =
     map snd (filter (\<lambda>(k, _). rk_step k = 10 \<and> parent \<le> rk_bucket k \<and> rk_bucket k < parent + step
        \<and> (rk_metric k, rk_model k, rk_route k, rk_status k) = K) (db_rollups d))"

definition merge_children :: "string \<Rightarrow> stats list \<Rightarrow> stats option" where
  "merge_children metric rows = fold (\<lambda>c m. Some (merge_stats metric m c)) rows None"

definition cascade_one :: "int \<Rightarrow> int \<Rightarrow> dims \<Rightarrow> nat \<times> db \<Rightarrow> nat \<times> db" where
  "cascade_one parent step K nd = (case nd of (n, d) \<Rightarrow>
     let rows = children parent step K d; want = sum_list (map sx_count rows); rk = rollup_key_at parent step K in
     case merge_children (fst K) rows of
       None \<Rightarrow> (n, d)
     | Some merged \<Rightarrow>
         (case load_rollup_row rk d of
            Some s \<Rightarrow> if sx_count s = want then (n, d) else (Suc n, upsert_rollup (rk, merged) d)
          | None \<Rightarrow> (Suc n, upsert_rollup (rk, merged) d)))"

text \<open>The parents in the order of the sorted keys, each once.\<close>

definition parent_keys :: "open_key list \<Rightarrow> (int \<times> int \<times> dims) list" where
  "parent_keys ks = rev (remdups (rev (concat (map (\<lambda>(b, K).
     map (\<lambda>step. (bucket_of (of_int b) step, step, K)) PARENT_STEPS) (sort ks)))))"

definition cascade_parents :: "open_key list \<Rightarrow> db \<Rightarrow> nat \<times> db" where
  "cascade_parents ks d = fold (\<lambda>(p, step, K). cascade_one p step K) (parent_keys ks) (0, d)"

section \<open>The pass\<close>

record scans =
  so_traces :: "trace list \<Rightarrow> trace list"
  so_logs :: "log_row list \<Rightarrow> log_row list"
  so_rollups :: "rollup list \<Rightarrow> rollup list"
  so_observations :: "observation list \<Rightarrow> observation list"
  so_sessions :: "session list \<Rightarrow> session list"

definition scans_ok :: "scans \<Rightarrow> bool" where
  "scans_ok sc \<longleftrightarrow> scan_ok (so_traces sc) \<and> scan_ok (so_logs sc) \<and> scan_ok (so_rollups sc)
     \<and> scan_ok (so_observations sc) \<and> scan_ok (so_sessions sc)"

record caps =
  ra_max_traces :: nat
  ra_max_logs :: nat
  ra_max_age_days :: pyfloat
  ra_rollup_days :: pyfloat
  ra_payload_ttl :: pyfloat
  ra_free_page_pct :: pyfloat

text \<open>What the file and the writer queue look like to the last steps of a pass.\<close>

record file_state =
  fs_queue_idle :: bool
  fs_checkpoint_busy :: bool
  fs_page_size :: int
  fs_page_count :: int
  fs_free_pages :: int

record counts =
  rc_built :: nat
  rc_parents :: nat
  rc_traces :: nat
  rc_logs :: nat
  rc_rollups :: nat
  rc_payloads :: nat
  rc_sessions :: nat
  rc_checkpointed :: nat
  rc_vacuumed :: nat

definition checkpoint :: "file_state \<Rightarrow> nat" where
  "checkpoint fs = (if \<not> fs_queue_idle fs then 0 else if fs_checkpoint_busy fs then 0 else 1)"

definition maybe_vacuum :: "pyfloat \<Rightarrow> file_state \<Rightarrow> nat" where
  "maybe_vacuum pct fs =
     (let free = fs_free_pages fs * fs_page_size fs; total_bytes = fs_page_count fs * fs_page_size fs in
      if 0 < total_bytes \<and> of_int total_bytes * pct < of_int (free * 100) then 1 else 0)"

definition age_cutoff :: "pyfloat \<Rightarrow> caps \<Rightarrow> pyfloat" where
  "age_cutoff now ra = now - ra_max_age_days ra * 86400"

definition rollup_cutoff :: "pyfloat \<Rightarrow> caps \<Rightarrow> pyfloat" where
  "rollup_cutoff now ra = now - ra_rollup_days ra * 86400"

text \<open>\<open>apply\<close>: the rollups first, then the prunes in the order of the counts.\<close>

definition retention_pass :: "scans \<Rightarrow> pyfloat \<Rightarrow> caps \<Rightarrow> file_state \<Rightarrow> db \<Rightarrow> (counts \<times> db) option" where
  "retention_pass sc now ra fs d =
     (let todo = pending_keys (age_cutoff now ra) (ra_max_traces ra) (rollup_cutoff now ra) d;
          (built, d1) = build_pending todo d;
          (parents, d2) = cascade_parents todo d1 in
      Option.bind (prune_traces (so_traces sc) (age_cutoff now ra) (ra_max_traces ra) d2) (\<lambda>(nt, d3).
      Option.bind (prune_logs (so_logs sc) (age_cutoff now ra) (ra_max_logs ra) d3) (\<lambda>(nl, d4).
      Option.bind (prune_rollups (so_rollups sc) (rollup_cutoff now ra) d4) (\<lambda>(nr, d5).
      Option.bind (null_payloads (so_observations sc) (now - ra_payload_ttl ra) d5) (\<lambda>(np, d6).
      Option.bind (prune_sessions (so_sessions sc) (now - SESSION_GRACE_DAYS * 86400) d6) (\<lambda>(ns, d7).
        Some (\<lparr>rc_built = built, rc_parents = parents, rc_traces = nt, rc_logs = nl, rc_rollups = nr,
          rc_payloads = np, rc_sessions = ns, rc_checkpointed = checkpoint fs,
          rc_vacuumed = maybe_vacuum (ra_free_page_pct ra) fs\<rparr>, d7)))))))"

section \<open>Building rollups touches nothing else\<close>

definition rollups_only :: "db \<Rightarrow> db \<Rightarrow> bool" where
  "rollups_only d e \<longleftrightarrow> e = d\<lparr>db_rollups := db_rollups e\<rparr> \<and> (dict_ok (db_rollups d) \<longrightarrow> dict_ok (db_rollups e))"

lemma rollups_only_refl [simp]: "rollups_only d d"
  by (simp add: rollups_only_def)

lemma rollups_only_trans: "rollups_only d e \<Longrightarrow> rollups_only e f \<Longrightarrow> rollups_only d f"
  unfolding rollups_only_def by (metis db.fold_congs(11) db.surjective db.update_convs(11))

lemma rollups_only_upsert: "rollups_only d (upsert_rollup kv d)"
  by (simp add: rollups_only_def upsert_rollup_def)

lemma rollups_onlyD:
  assumes "rollups_only d e"
  shows "db_traces e = db_traces d" "db_observations e = db_observations d" "db_scores e = db_scores d"
    "db_logs e = db_logs d" "db_sessions e = db_sessions d" "db_audit e = db_audit d" "db_users e = db_users d"
    "db_keys e = db_keys d" "db_settings e = db_settings d" "rows_ok d \<Longrightarrow> rows_ok e"
proof -
  have e: "f e = f (d\<lparr>db_rollups := db_rollups e\<rparr>)" for f :: "db \<Rightarrow> 'x"
    using assms unfolding rollups_only_def by metis
  show p: "db_traces e = db_traces d" "db_observations e = db_observations d" "db_scores e = db_scores d"
    "db_logs e = db_logs d" "db_sessions e = db_sessions d" "db_audit e = db_audit d" "db_users e = db_users d"
    "db_keys e = db_keys d" "db_settings e = db_settings d"
    using e[of db_traces] e[of db_observations] e[of db_scores] e[of db_logs] e[of db_sessions] e[of db_audit]
      e[of db_users] e[of db_keys] e[of db_settings] by simp_all
  show "rows_ok d \<Longrightarrow> rows_ok e" using assms by (simp add: rows_ok_def p rollups_only_def)
qed

lemma build_one_only: "rollups_only d (snd (build_one k (n, d)))"
  by (auto simp: build_one_def Let_def rollups_only_upsert split: option.splits)

lemma build_pending_only: "rollups_only d (snd (build_pending ks d))"
proof -
  have "rollups_only d (snd (fold build_one xs (n, d)))" for xs n
  proof (induction xs arbitrary: n d)
    case (Cons k xs)
    obtain m e where e: "build_one k (n, d) = (m, e)" by (meson surj_pair)
    show ?case using rollups_only_trans[OF build_one_only[of d k n] Cons.IH[where n = m and d = "snd (build_one k (n, d))"]]
      by (simp add: e)
  qed simp
  then show ?thesis by (simp add: build_pending_def)
qed

lemma cascade_one_only: "rollups_only d (snd (cascade_one p step K (n, d)))"
  by (auto simp: cascade_one_def Let_def rollups_only_upsert split: option.splits)

lemma cascade_parents_only: "rollups_only d (snd (cascade_parents ks d))"
proof -
  have "rollups_only d (snd (fold (\<lambda>(p, step, K). cascade_one p step K) xs (n, d)))" for xs n
  proof (induction xs arbitrary: n d)
    case (Cons x xs)
    obtain p step K where x: "x = (p, step, K)" by (cases x)
    obtain m e where e: "cascade_one p step K (n, d) = (m, e)" by (meson surj_pair)
    have "rollups_only d e" using cascade_one_only[of d p step K n] by (simp add: e)
    from rollups_only_trans[OF this Cons.IH[of e m]] show ?case by (simp add: e x)
  qed simp
  then show ?thesis by (simp add: cascade_parents_def)
qed

section \<open>A pass ends and prunes exactly\<close>

lemma erase_simps:
  "db_traces (erase_logs l d) = db_traces d" "db_observations (erase_logs l d) = db_observations d"
  "db_rollups (erase_logs l d) = db_rollups d" "db_sessions (erase_logs l d) = db_sessions d"
  "db_audit (erase_logs l d) = db_audit d" "db_logs (erase_logs l d) = filter (\<lambda>r. r \<notin> set l) (db_logs d)"
  "db_traces (erase_rollups r d) = db_traces d" "db_observations (erase_rollups r d) = db_observations d"
  "db_logs (erase_rollups r d) = db_logs d" "db_sessions (erase_rollups r d) = db_sessions d"
  "db_audit (erase_rollups r d) = db_audit d" "db_rollups (erase_rollups r d) = filter (\<lambda>x. x \<notin> set r) (db_rollups d)"
  "db_traces (erase_payloads b d) = db_traces d" "db_rollups (erase_payloads b d) = db_rollups d"
  "db_logs (erase_payloads b d) = db_logs d" "db_sessions (erase_payloads b d) = db_sessions d"
  "db_audit (erase_payloads b d) = db_audit d"
  "db_traces (erase_sessions x d) = db_traces d" "db_observations (erase_sessions x d) = db_observations d"
  "db_rollups (erase_sessions x d) = db_rollups d" "db_logs (erase_sessions x d) = db_logs d"
  "db_audit (erase_sessions x d) = db_audit d" "db_sessions (erase_sessions x d) = filter (\<lambda>s. s \<notin> set x) (db_sessions d)"
  "db_logs (erase_traces t d) = db_logs d" "db_rollups (erase_traces t d) = db_rollups d"
  "db_sessions (erase_traces t d) = db_sessions d" "db_audit (erase_traces t d) = db_audit d"
  by (simp_all add: erase_logs_def erase_rollups_def erase_payloads_def erase_sessions_def erase_traces_def
      delete_traces_where_def Let_def)

text \<open>The database of a pass, statement by statement.\<close>

lemma retention_pass_result:
  fixes now :: pyfloat and ra :: caps and d :: db and sc :: scans
  assumes "rows_ok d" "scans_ok sc"
  defines "todo \<equiv> pending_keys (age_cutoff now ra) (ra_max_traces ra) (rollup_cutoff now ra) d"
  defines "d2 \<equiv> snd (cascade_parents todo (snd (build_pending todo d)))"
  defines "d3 \<equiv> erase_traces (trace_victims (so_traces sc) (age_cutoff now ra) (ra_max_traces ra) d2) d2"
  defines "d4 \<equiv> erase_logs (log_victims (so_logs sc) (age_cutoff now ra) (ra_max_logs ra) d3) d3"
  defines "d5 \<equiv> erase_rollups (rollup_victims (so_rollups sc) (rollup_cutoff now ra) d4) d4"
  defines "d6 \<equiv> erase_payloads (payload_victims (so_observations sc) (now - ra_payload_ttl ra) d5) d5"
  defines "d7 \<equiv> erase_sessions (session_victims (so_sessions sc) (now - SESSION_GRACE_DAYS * 86400) d6) d6"
  obtains rc where "retention_pass sc now ra fs d = Some (rc, d7)"
    "rc_traces rc = length (doomed tr_ts_start (age_cutoff now ra) (ra_max_traces ra) (db_traces d))"
    "rc_logs rc = length (doomed ll_ts (age_cutoff now ra) (ra_max_logs ra) (db_logs d))"
    "rollups_only d d2" "rows_ok d7"
    "db_traces d7 = filter (\<lambda>t. t \<notin> set (doomed tr_ts_start (age_cutoff now ra) (ra_max_traces ra) (db_traces d))) (db_traces d)"
proof -
  obtain built d1 where b: "build_pending todo d = (built, d1)" by (meson surj_pair)
  obtain parents d2' where c: "cascade_parents todo d1 = (parents, d2')" by (meson surj_pair)
  have d2: "d2 = d2'" by (simp add: d2_def b c)
  have only: "rollups_only d d2"
    using rollups_only_trans[OF build_pending_only[of d todo] cascade_parents_only[of _ todo]] by (simp add: d2_def)
  note o = rollups_onlyD[OF only]
  have sc: "scan_ok (so_traces sc)" "scan_ok (so_logs sc)" "scan_ok (so_rollups sc)" "scan_ok (so_observations sc)"
    "scan_ok (so_sessions sc)" using assms(2) by (simp_all add: scans_ok_def)
  have k2: "rows_ok d2" using o(10) assms(1) .
  have k3: "rows_ok d3" unfolding d3_def using trace_prune.erase_ok[of "so_traces sc"] sc k2 by blast
  have k4: "rows_ok d4" unfolding d4_def using log_prune.erase_ok[of "so_logs sc"] sc k3 by blast
  have k5: "rows_ok d5" unfolding d5_def using rollup_prune.erase_ok[of "so_rollups sc"] sc k4 by blast
  have k6: "rows_ok d6" unfolding d6_def using payload_prune.erase_ok[of "so_observations sc"] sc k5 by blast
  have k7: "rows_ok d7" unfolding d7_def using session_prune.erase_ok[of "so_sessions sc"] sc k6 by blast
  have p3: "prune_traces (so_traces sc) (age_cutoff now ra) (ra_max_traces ra) d2 =
      Some (length (trace_victims (so_traces sc) (age_cutoff now ra) (ra_max_traces ra) d2), d3)"
    unfolding prune_traces_def d3_def using trace_prune.loop_result sc k2 by simp
  have p4: "prune_logs (so_logs sc) (age_cutoff now ra) (ra_max_logs ra) d3 =
      Some (length (log_victims (so_logs sc) (age_cutoff now ra) (ra_max_logs ra) d3), d4)"
    unfolding prune_logs_def d4_def using log_prune.loop_result sc k3 by simp
  have p5: "prune_rollups (so_rollups sc) (rollup_cutoff now ra) d4 =
      Some (length (rollup_victims (so_rollups sc) (rollup_cutoff now ra) d4), d5)"
    unfolding prune_rollups_def d5_def using rollup_prune.loop_result sc k4 by simp
  have p6: "null_payloads (so_observations sc) (now - ra_payload_ttl ra) d5 =
      Some (length (payload_victims (so_observations sc) (now - ra_payload_ttl ra) d5), d6)"
    unfolding null_payloads_def d6_def using payload_prune.loop_result sc k5 by simp
  have p7: "prune_sessions (so_sessions sc) (now - SESSION_GRACE_DAYS * 86400) d6 =
      Some (length (session_victims (so_sessions sc) (now - SESSION_GRACE_DAYS * 86400) d6), d7)"
    unfolding prune_sessions_def d7_def using session_prune.loop_result sc k6 by simp
  have run: "retention_pass sc now ra fs d = Some (\<lparr>rc_built = built, rc_parents = parents,
      rc_traces = length (trace_victims (so_traces sc) (age_cutoff now ra) (ra_max_traces ra) d2),
      rc_logs = length (log_victims (so_logs sc) (age_cutoff now ra) (ra_max_logs ra) d3),
      rc_rollups = length (rollup_victims (so_rollups sc) (rollup_cutoff now ra) d4),
      rc_payloads = length (payload_victims (so_observations sc) (now - ra_payload_ttl ra) d5),
      rc_sessions = length (session_victims (so_sessions sc) (now - SESSION_GRACE_DAYS * 86400) d6),
      rc_checkpointed = checkpoint fs, rc_vacuumed = maybe_vacuum (ra_free_page_pct ra) fs\<rparr>, d7)"
    unfolding retention_pass_def Let_def todo_def[symmetric] b prod.case c d2[symmetric]
    by (simp only: p3 p4 p5 p6 p7 bind.bind_lunit prod.case)
  have l: "db_logs d3 = db_logs d" by (simp add: d3_def erase_simps o)
  show ?thesis
    by (rule that[OF run _ _ only k7]) (simp_all add: trace_victims_def log_victims_def scan_length scan_set sc o l
      d7_def d6_def d5_def d4_def d3_def erase_simps erase_traces_simps)
qed

lemma kept_rows:
  fixes ts :: "'r \<Rightarrow> pyfloat"
  assumes "scan_ok scan"
  shows "filter (\<lambda>r. r \<notin> set (scan (doomed ts cutoff cap rows))) rows =
    filter (\<lambda>r. cutoff \<le> ts r \<and> r \<notin> set (overflow ts cap rows)) rows"
  using assms by (intro filter_cong) (auto simp: scan_set doomed_def)

lemma kept_at_most:
  assumes "distinct rows"
  shows "length (filter (\<lambda>r. cutoff \<le> ts r \<and> r \<notin> set (overflow ts cap rows)) rows) \<le> cap"
proof -
  let ?kept = "filter (\<lambda>r. cutoff \<le> ts r \<and> r \<notin> set (overflow ts cap rows)) rows"
  have "set (newest_first ts rows) = set (take cap (newest_first ts rows)) \<union> set (overflow ts cap rows)"
    unfolding overflow_def by (metis append_take_drop_id set_append)
  then have "set ?kept \<subseteq> set (take cap (newest_first ts rows))" by (auto simp: newest_first_facts)
  then have "card (set ?kept) \<le> card (set (take cap (newest_first ts rows)))" by (rule card_mono[OF List.finite_set])
  also have "\<dots> \<le> cap" using card_length[of "take cap (newest_first ts rows)"] by simp
  finally have "card (set ?kept) \<le> cap" .
  then show ?thesis using distinct_card[OF distinct_filter[OF assms]] by metis
qed

lemma erase_other_simps:
  "db_users (erase_logs l d) = db_users d" "db_keys (erase_logs l d) = db_keys d" "db_scores (erase_logs l d) = db_scores d"
  "db_users (erase_rollups r d) = db_users d" "db_keys (erase_rollups r d) = db_keys d" "db_scores (erase_rollups r d) = db_scores d"
  "db_users (erase_payloads b d) = db_users d" "db_keys (erase_payloads b d) = db_keys d" "db_scores (erase_payloads b d) = db_scores d"
  "db_users (erase_sessions x d) = db_users d" "db_keys (erase_sessions x d) = db_keys d" "db_scores (erase_sessions x d) = db_scores d"
  "db_users (erase_traces t d) = db_users d" "db_keys (erase_traces t d) = db_keys d"
  "db_settings (erase_logs l d) = db_settings d" "db_settings (erase_rollups r d) = db_settings d"
  "db_settings (erase_payloads b d) = db_settings d" "db_settings (erase_sessions x d) = db_settings d"
  "db_settings (erase_traces t d) = db_settings d"
  by (simp_all add: erase_logs_def erase_rollups_def erase_payloads_def erase_sessions_def erase_traces_def
      delete_traces_where_def Let_def)

text \<open>An observation the payload statement does not select keeps its columns, which were NULL already
  when its trace is old.\<close>

lemma null_old_payload:
  "(if has_payload ob \<and> old then null_payload ob else ob) = (if old then ob\<lparr>ob_input := None, ob_output := None\<rparr> else ob)"
  by (cases ob rule: observation.cases_scheme) (auto simp: null_payload_def has_payload_def)

text \<open>C17: A retention pass ends, whatever the scan order of the deletes: it keeps exactly the traces and
  the log lines within the age and count caps, the observations and scores of the kept traces
  (and of no trace at all), and the sessions not expired for more than the grace. Of the kept
  observations it clears input and output exactly when their trace is older than the payload time
  to live, and changes nothing else. Users, keys, settings and the audit log are not touched.\<close>

theorem retention_prunes_exactly:
  assumes "rows_ok d" "scans_ok sc"
  shows "\<exists>rc d'. retention_pass sc now ra fs d = Some (rc, d')
    \<and> db_traces d' = filter (\<lambda>t. age_cutoff now ra \<le> tr_ts_start t
        \<and> t \<notin> set (overflow tr_ts_start (ra_max_traces ra) (db_traces d))) (db_traces d)
    \<and> length (db_traces d') \<le> ra_max_traces ra \<and> rc_traces rc = length (db_traces d) - length (db_traces d')
    \<and> db_logs d' = filter (\<lambda>l. age_cutoff now ra \<le> ll_ts l
        \<and> l \<notin> set (overflow ll_ts (ra_max_logs ra) (db_logs d))) (db_logs d)
    \<and> db_sessions d' = filter (\<lambda>s. now - SESSION_GRACE_DAYS * 86400 \<le> se_expires_at s) (db_sessions d)
    \<and> db_observations d' =
        map (\<lambda>ob. if list_ex (\<lambda>t. tr_id t = ob_trace_id ob \<and> tr_ts_start t < now - ra_payload_ttl ra) (db_traces d')
                  then ob\<lparr>ob_input := None, ob_output := None\<rparr> else ob)
          (filter (\<lambda>ob. ob_trace_id ob \<notin> tr_id ` (set (db_traces d) - set (db_traces d'))) (db_observations d))
    \<and> db_scores d' = filter (\<lambda>c. sc_trace_id c \<notin> tr_id ` (set (db_traces d) - set (db_traces d'))) (db_scores d)
    \<and> db_users d' = db_users d \<and> db_keys d' = db_keys d \<and> db_settings d' = db_settings d
    \<and> db_audit d' = db_audit d"
proof -
  define todo where "todo = pending_keys (age_cutoff now ra) (ra_max_traces ra) (rollup_cutoff now ra) d"
  define d2 where "d2 = snd (cascade_parents todo (snd (build_pending todo d)))"
  define d3 where "d3 = erase_traces (trace_victims (so_traces sc) (age_cutoff now ra) (ra_max_traces ra) d2) d2"
  define d4 where "d4 = erase_logs (log_victims (so_logs sc) (age_cutoff now ra) (ra_max_logs ra) d3) d3"
  define d5 where "d5 = erase_rollups (rollup_victims (so_rollups sc) (rollup_cutoff now ra) d4) d4"
  define d6 where "d6 = erase_payloads (payload_victims (so_observations sc) (now - ra_payload_ttl ra) d5) d5"
  define d7 where "d7 = erase_sessions (session_victims (so_sessions sc) (now - SESSION_GRACE_DAYS * 86400) d6) d6"
  obtain rc where run: "retention_pass sc now ra fs d = Some (rc, d7)"
    and n: "rc_traces rc = length (doomed tr_ts_start (age_cutoff now ra) (ra_max_traces ra) (db_traces d))"
    and only: "rollups_only d d2"
    and traces: "db_traces d7 = filter (\<lambda>t. t \<notin> set (doomed tr_ts_start (age_cutoff now ra) (ra_max_traces ra) (db_traces d))) (db_traces d)"
    by (rule retention_pass_result[OF assms, where now = now and ra = ra and fs = fs,
          folded todo_def, folded d2_def, folded d3_def, folded d4_def, folded d5_def, folded d6_def, folded d7_def])
  note o = rollups_onlyD[OF only]
  have sc: "scan_ok (so_traces sc)" "scan_ok (so_logs sc)" "scan_ok (so_observations sc)" "scan_ok (so_sessions sc)"
    using assms(2) by (simp_all add: scans_ok_def)
  have t: "db_traces d7 = filter (\<lambda>t. age_cutoff now ra \<le> tr_ts_start t
        \<and> t \<notin> set (overflow tr_ts_start (ra_max_traces ra) (db_traces d))) (db_traces d)"
    using kept_rows[of id tr_ts_start "age_cutoff now ra" "ra_max_traces ra" "db_traces d"] by (simp add: traces scan_ok_def)
  have l: "db_logs d7 = filter (\<lambda>l. age_cutoff now ra \<le> ll_ts l
        \<and> l \<notin> set (overflow ll_ts (ra_max_logs ra) (db_logs d))) (db_logs d)"
    by (simp add: d7_def d6_def d5_def d4_def d3_def erase_simps o log_victims_def kept_rows[OF sc(2)])
  have s: "db_sessions d7 = filter (\<lambda>s. now - SESSION_GRACE_DAYS * 86400 \<le> se_expires_at s) (db_sessions d)"
    using sc(4) by (auto simp: d7_def d6_def d5_def d4_def d3_def erase_simps o session_victims_def scan_set intro!: filter_cong)
  have a: "db_audit d7 = db_audit d" by (simp add: d7_def d6_def d5_def d4_def d3_def erase_simps o)
  have lost: "tr_id ` {t \<in> set (db_traces d). t \<in> set (trace_victims (so_traces sc) (age_cutoff now ra) (ra_max_traces ra) d2)}
      = tr_id ` (set (db_traces d) - set (db_traces d7))"
    by (rule image_cong) (auto simp: traces trace_victims_def scan_set[OF sc(1)] o)
  have d3: "db_observations d3 = filter (\<lambda>ob. ob_trace_id ob \<notin> tr_id ` (set (db_traces d) - set (db_traces d7))) (db_observations d)"
    "db_scores d3 = filter (\<lambda>c. sc_trace_id c \<notin> tr_id ` (set (db_traces d) - set (db_traces d7))) (db_scores d)"
    unfolding d3_def erase_traces_def delete_traces_where_simps o lost by (rule refl)+
  have d5: "db_observations d5 = db_observations d3" "db_traces d5 = db_traces d7"
    by (simp_all add: d7_def d6_def d5_def d4_def erase_simps)
  have p: "db_observations d7 =
        map (\<lambda>ob. if list_ex (\<lambda>t. tr_id t = ob_trace_id ob \<and> tr_ts_start t < now - ra_payload_ttl ra) (db_traces d7)
                  then ob\<lparr>ob_input := None, ob_output := None\<rparr> else ob)
          (filter (\<lambda>ob. ob_trace_id ob \<notin> tr_id ` (set (db_traces d) - set (db_traces d7))) (db_observations d))"
  proof -
    have "db_observations d7 = map (\<lambda>ob. if ob \<in> set (payload_victims (so_observations sc) (now - ra_payload_ttl ra) d5)
        then null_payload ob else ob) (db_observations d5)"
      by (simp add: d7_def d6_def erase_simps erase_payloads_def)
    also have "\<dots> = map (\<lambda>ob. if list_ex (\<lambda>t. tr_id t = ob_trace_id ob \<and> tr_ts_start t < now - ra_payload_ttl ra) (db_traces d7)
                  then ob\<lparr>ob_input := None, ob_output := None\<rparr> else ob) (db_observations d5)"
    proof (rule map_cong[OF refl])
      fix ob assume "ob \<in> set (db_observations d5)"
      then have "ob \<in> set (payload_victims (so_observations sc) (now - ra_payload_ttl ra) d5) \<longleftrightarrow> has_payload ob
          \<and> list_ex (\<lambda>t. tr_id t = ob_trace_id ob \<and> tr_ts_start t < now - ra_payload_ttl ra) (db_traces d7)"
        by (simp add: payload_victims_def scan_set[OF sc(3)] d5(2))
      then show "(if ob \<in> set (payload_victims (so_observations sc) (now - ra_payload_ttl ra) d5) then null_payload ob else ob)
          = (if list_ex (\<lambda>t. tr_id t = ob_trace_id ob \<and> tr_ts_start t < now - ra_payload_ttl ra) (db_traces d7)
             then ob\<lparr>ob_input := None, ob_output := None\<rparr> else ob)"
        by (simp only: null_old_payload)
    qed
    finally show ?thesis by (simp only: d5(1) d3(1))
  qed
  have k: "db_scores d7 = db_scores d3" "db_users d7 = db_users d" "db_keys d7 = db_keys d" "db_settings d7 = db_settings d"
    by (simp_all add: d7_def d6_def d5_def d4_def d3_def erase_other_simps o)
  have "distinct (db_traces d)" using assms(1) by (simp add: rows_ok_def)
  from kept_at_most[OF this] have cap: "length (db_traces d7) \<le> ra_max_traces ra" unfolding t .
  have "rc_traces rc + length (db_traces d7) = length (db_traces d)"
    using sum_length_filter_compl[of "\<lambda>t. tr_ts_start t < age_cutoff now ra
        \<or> t \<in> set (overflow tr_ts_start (ra_max_traces ra) (db_traces d))" "db_traces d"]
    by (simp add: t n doomed_def not_less)
  then have "rc_traces rc = length (db_traces d) - length (db_traces d7)" by simp
  note n' = this
  have x: "db_scores d7 = filter (\<lambda>c. sc_trace_id c \<notin> tr_id ` (set (db_traces d) - set (db_traces d7))) (db_scores d)"
    by (simp only: k(1) d3(2))
  show ?thesis
    by (intro exI[of _ rc] exI[of _ d7] conjI; fact run t cap n' l s a p x k(2) k(3) k(4))
qed

section \<open>The charts of what was pruned\<close>

lemma in_window_bucket:
  assumes "b = bucket_of x BUCKET_STEP"
  shows "in_window b t \<longleftrightarrow> bucket_of (tr_ts_start t) BUCKET_STEP = b"
proof -
  define m where "m = \<lfloor>x / 10\<rfloor>"
  have b: "b = m * 10" using assms by (simp add: bucket_of_def BUCKET_STEP_def m_def)
  have "in_window b t \<longleftrightarrow> of_int m \<le> tr_ts_start t / 10 \<and> tr_ts_start t / 10 < of_int m + 1"
    by (auto simp: in_window_def b BUCKET_STEP_def)
  also have "\<dots> \<longleftrightarrow> \<lfloor>tr_ts_start t / 10\<rfloor> = m" by (simp add: floor_eq_iff)
  also have "\<dots> \<longleftrightarrow> bucket_of (tr_ts_start t) BUCKET_STEP = b" by (simp add: bucket_of_def BUCKET_STEP_def b)
  finally show ?thesis .
qed

text \<open>The number of raw traces a key describes.\<close>

definition raw_count :: "int \<Rightarrow> dims \<Rightarrow> db \<Rightarrow> nat" where
  "raw_count b K d = length (filter (\<lambda>t. K \<in> set (trace_dims t) \<and> bucket_of (tr_ts_start t) BUCKET_STEP = b) (db_traces d))"

lemma trace_dims_cases:
  "(metric, model, route, status) \<in> set (trace_dims t) \<longleftrightarrow>
     (metric = ''errors'' \<and> model = [] \<and> route = [] \<and> status = tr_status t \<and> 400 \<le> status)
   \<or> (metric \<in> {''requests'', ''latency'', ''queue''} \<and> model = model_dim t \<and> route = tr_route t \<and> status = 0)"
  by (auto simp: trace_dims_def)

lemma summarize_count: "sx_count (summarize xs) = int (length xs)"
  by (simp add: summarize_def zero_stats_def)

lemma gather_stats_count:
  assumes t: "t \<in> set (db_traces d)" and K: "K \<in> set (trace_dims t)" and b: "b = bucket_of (tr_ts_start t) BUCKET_STEP"
  obtains st where "gather_stats (b, K) d = Some st" "sx_count st = int (raw_count b K d)"
proof -
  obtain metric model route status where Kd: "K = (metric, model, route, status)" by (cases K)
  note dims = K[unfolded Kd trace_dims_cases]
  note w = in_window_bucket[OF b]
  have raw: "raw_count b K d = length (filter (if metric = ''errors'' then \<lambda>u. tr_status u = status else (\<lambda>u. model_dim u = model \<and> tr_route u = route))
      (filter (in_window b) (db_traces d)))"
  proof -
    have "(K \<in> set (trace_dims u) \<and> bucket_of (tr_ts_start u) BUCKET_STEP = b) \<longleftrightarrow>
        (in_window b u \<and> (if metric = ''errors'' then \<lambda>u. tr_status u = status else (\<lambda>u. model_dim u = model \<and> tr_route u = route)) u)" for u
    proof (cases "metric = ''errors''")
      case True
      have m: "''errors'' \<notin> {''requests'', ''latency'', ''queue''}" by simp
      have r: "model = [] \<and> route = [] \<and> 400 \<le> status" using dims m True by metis
      show ?thesis unfolding Kd trace_dims_cases w by (simp only: m r simp_thms True if_True) auto
    next
      case False
      with dims have m: "metric \<in> {''requests'', ''latency'', ''queue''}" and z: "status = 0" by blast+
      show ?thesis unfolding Kd trace_dims_cases w by (simp only: False m z simp_thms if_False) (simp add: conj_ac eq_commute[of model] eq_commute[of route])
    qed
    then show ?thesis by (simp only: raw_count_def filter_filter)
  qed
  have "t \<in> set (filter (\<lambda>t. K \<in> set (trace_dims t) \<and> bucket_of (tr_ts_start t) BUCKET_STEP = b) (db_traces d))"
    unfolding set_filter using t K b by blast
  from length_pos_if_in_set[OF this] have pos: "0 < raw_count b K d" unfolding raw_count_def .
  define mine where "mine = filter (if metric = ''errors'' then \<lambda>u. tr_status u = status else (\<lambda>u. model_dim u = model \<and> tr_route u = route))
      (filter (in_window b) (db_traces d))"
  have n: "raw_count b K d = length mine" "length mine \<noteq> 0" "mine \<noteq> []"
    unfolding mine_def using raw[symmetric] pos by (simp_all only:) (metis less_irrefl list.size(3))+
  have "gather_stats (b, K) d = Some (if is_counter metric then counter_stats (int (length mine))
      else summarize (map (if metric = ''latency'' then tr_duration_ms else tr_queue_ms) mine))"
  proof (cases "is_counter metric")
    case True
    then show ?thesis using n(2) by (simp add: gather_stats_def Kd Let_def mine_def split del: if_split cong: if_cong) (auto simp: Let_def)
  next
    case False
    then have "metric \<noteq> ''errors''" by (auto simp: is_counter_def COUNTER_METRICS_def)
    then show ?thesis using False n(3) by (simp add: gather_stats_def Kd Let_def mine_def)
  qed
  then show ?thesis using that n(1) by (cases "is_counter metric") (simp_all add: counter_stats_def summarize_count)
qed

lemma key_at_same_eq: "rollup_key_at b s K = rollup_key_at b' s' K' \<longleftrightarrow> b = b' \<and> s = s' \<and> K = K'"
  by (cases K; cases K') (auto simp: rollup_key_at_def)

lemma gather_stats_raw: "db_traces e = db_traces d \<Longrightarrow> gather_stats k e = gather_stats k d"
  by (simp add: gather_stats_def)

definition row_or :: "stats option \<Rightarrow> stats option \<Rightarrow> stats option" where
  "row_or a b = (case a of Some x \<Rightarrow> Some x | None \<Rightarrow> b)"

text \<open>A pending key has the row it had, or the row of its raw traces.\<close>

lemma build_one_row:
  "load_rollup_row (rollup_key_at b 10 K) (snd (build_one k (n, d))) =
     (if k = (b, K) then row_or (load_rollup_row (rollup_key_at b 10 K) d) (gather_stats k d)
      else load_rollup_row (rollup_key_at b 10 K) d)"
  by (cases k) (auto simp: build_one_def Let_def load_upsert key_at_same_eq row_or_def BUCKET_STEP_def split: option.splits)

lemma fold_build_row:
  "load_rollup_row (rollup_key_at b 10 K) (snd (fold build_one ks (n, d))) =
     (if (b, K) \<in> set ks then row_or (load_rollup_row (rollup_key_at b 10 K) d) (gather_stats (b, K) d)
      else load_rollup_row (rollup_key_at b 10 K) d)"
proof (induction ks arbitrary: n d)
  case (Cons k ks)
  obtain m e where e: "build_one k (n, d) = (m, e)" by (meson surj_pair)
  have raw: "gather_stats (b, K) e = gather_stats (b, K) d"
    using rollups_onlyD(1)[OF build_one_only[of d k n]] e by (intro gather_stats_raw) simp
  show ?case using Cons.IH[of m e] build_one_row[of b K k n d] by (auto simp: e raw row_or_def split: option.splits)
qed simp

lemma cascade_keeps_base: "load_rollup_row (rollup_key_at b 10 K) (snd (cascade_parents ks d)) = load_rollup_row (rollup_key_at b 10 K) d"
proof -
  have one: "load_rollup_row (rollup_key_at b 10 K) (snd (cascade_one p step D (n, d))) = load_rollup_row (rollup_key_at b 10 K) d"
    if "step \<noteq> 10" for p step D n d
    using that by (auto simp: cascade_one_def Let_def load_upsert key_at_same_eq split: option.splits)
  have "load_rollup_row (rollup_key_at b 10 K) (snd (fold (\<lambda>(p, step, D). cascade_one p step D) xs (n, d))) = load_rollup_row (rollup_key_at b 10 K) d"
    if "\<forall>(p, step, D) \<in> set xs. step \<noteq> 10" for xs n
    using that
  proof (induction xs arbitrary: n d)
    case (Cons x xs)
    obtain p step D where x: "x = (p, step, D)" by (cases x)
    obtain m e where e: "cascade_one p step D (n, d) = (m, e)" by (meson surj_pair)
    show ?case using Cons one[of step p D n d] by (simp add: x e)
  qed simp
  moreover have "\<forall>(p, step, D) \<in> set (parent_keys ks). step \<noteq> 10"
    by (auto simp: parent_keys_def PARENT_STEPS_def)
  ultimately show ?thesis by (simp add: cascade_parents_def)
qed

lemma filter_dict_set: "(\<And>v. \<not> P (k, v)) \<Longrightarrow> filter P (dict_set k v xs) = filter P xs"
  by (induction xs) auto

text \<open>A parent that was looked at counts its children.\<close>

lemma merge_children_count:
  "rows \<noteq> [] \<Longrightarrow> \<exists>m. merge_children metric rows = Some m \<and> sx_count m = sum_list (map sx_count rows)"
proof -
  have go: "\<exists>m. fold (\<lambda>c m. Some (merge_stats metric m c)) rows (Some s) = Some m \<and> sx_count m = sx_count s + sum_list (map sx_count rows)"
    for s rows
    by (induction rows arbitrary: s) (force simp: merge_stats_count)+
  show "rows \<noteq> [] \<Longrightarrow> ?thesis"
    using go[of "tl rows" "merge_stats metric None (hd rows)"] by (cases rows) (simp_all add: merge_children_def merge_stats_count)
qed

definition covered :: "int \<Rightarrow> int \<Rightarrow> dims \<Rightarrow> db \<Rightarrow> bool" where
  "covered p step K d \<longleftrightarrow> row_count d (rollup_key_at p step K) = sum_list (map sx_count (children p step K d))"

lemma children_upsert: "rk_step rk \<noteq> 10 \<Longrightarrow> children p step K (upsert_rollup (rk, x) d) = children p step K d"
  by (simp add: children_def upsert_rollup_def filter_dict_set)

lemma rk_step_at [simp]: "rk_step (rollup_key_at b s K) = s" "rk_bucket (rollup_key_at b s K) = b"
  by (cases K, simp add: rollup_key_at_def)+

lemma children_cascade: "step' \<noteq> 10 \<Longrightarrow> children p step K (snd (cascade_one p' step' K' (n, d))) = children p step K d"
  by (auto simp: cascade_one_def Let_def children_upsert split: option.splits)

lemma cascade_covers:
  assumes "children p step K d \<noteq> []" "step \<noteq> 10"
  shows "covered p step K (snd (cascade_one p step K (n, d)))"
proof -
  obtain m where m: "merge_children (fst K) (children p step K d) = Some m" "sx_count m = sum_list (map sx_count (children p step K d))"
    using merge_children_count[OF assms(1)] by blast
  show ?thesis unfolding covered_def children_cascade[OF assms(2)]
    by (auto simp: cascade_one_def Let_def m row_count_upsert row_count_def load_upsert split: option.splits)
qed

lemma cascade_keeps_covered:
  assumes "covered p step K d" "children p step K d \<noteq> []" "step' \<noteq> 10"
  shows "covered p step K (snd (cascade_one p' step' K' (n, d)))"
proof (cases "(p', step', K') = (p, step, K)")
  case True
  then show ?thesis using cascade_covers assms by simp
next
  case False
  then have "row_count (snd (cascade_one p' step' K' (n, d))) (rollup_key_at p step K) = row_count d (rollup_key_at p step K)"
    by (auto simp: cascade_one_def Let_def row_count_upsert key_at_same_eq split: option.splits)
  then show ?thesis using assms(1) by (simp add: covered_def children_cascade[OF assms(3)])
qed

lemma cascade_parents_covers:
  assumes "(p, step, K) \<in> set (parent_keys ks)" "children p step K d \<noteq> []"
  shows "covered p step K (snd (cascade_parents ks d))"
proof -
  let ?go = "\<lambda>(p, step, D). cascade_one p step D"
  have keep: "covered p step K (snd (fold ?go xs (n, d)))"
    if "\<forall>x \<in> set xs. fst (snd x) \<noteq> 10" "covered p step K d" "children p step K d \<noteq> []" for xs n d
    using that
  proof (induction xs arbitrary: n d)
    case (Cons x xs)
    obtain p' step' D where x: "x = (p', step', D)" by (cases x)
    obtain m e where e: "cascade_one p' step' D (n, d) = (m, e)" by (meson surj_pair)
    have "covered p step K e" "children p step K e \<noteq> []"
      using cascade_keeps_covered[of p step K d step' p' D n] children_cascade[of step' p step K p' D n d] Cons.prems by (simp_all add: e x)
    then show ?case using Cons.IH[of e m] Cons.prems(1) by (simp add: x e)
  qed simp
  have "covered p step K (snd (fold ?go xs (n, d)))"
    if "\<forall>x \<in> set xs. fst (snd x) \<noteq> 10" "(p, step, K) \<in> set xs" "children p step K d \<noteq> []" for xs n d
    using that
  proof (induction xs arbitrary: n d)
    case (Cons x xs)
    obtain p' step' D where x: "x = (p', step', D)" by (cases x)
    obtain m e where e: "cascade_one p' step' D (n, d) = (m, e)" by (meson surj_pair)
    have c: "children p step K e \<noteq> []" using children_cascade[of step' p step K p' D n d] Cons.prems by (simp add: e x)
    show ?case
    proof (cases "x = (p, step, K)")
      case True
      then have "covered p step K e" using cascade_covers[of p step K d n] Cons.prems e x by simp
      then show ?thesis using keep[of xs e m] Cons.prems(1) c by (simp add: x e)
    next
      case False
      then have "(p, step, K) \<in> set xs" "\<forall>x \<in> set xs. fst (snd x) \<noteq> 10" using Cons.prems(1,2) by auto
      then show ?thesis using Cons.IH[of e m] c by (simp add: x e)
    qed
  qed simp
  moreover have "\<forall>x \<in> set (parent_keys ks). fst (snd x) \<noteq> 10"
    by (auto simp: parent_keys_def PARENT_STEPS_def)
  ultimately show ?thesis using assms by (simp add: cascade_parents_def)
qed

lemma children_filter:
  assumes "\<And>r. P r \<longleftrightarrow> c \<le> of_int (rk_bucket (fst r))" "c \<le> (of_int p :: pyfloat)" "db_rollups e = filter P (db_rollups d)"
  shows "children p step K e = children p step K d"
  unfolding children_def assms(3) filter_filter
proof (intro arg_cong[where f = "map snd"] filter_cong refl)
  fix x :: rollup
  obtain k v where x: "x = (k, v)" by (cases x)
  have "c \<le> of_int (rk_bucket k)" if "p \<le> rk_bucket k" using that assms(2) by (meson of_int_le_iff order_trans)
  then show "(P x \<and> (case x of (k, _) \<Rightarrow> rk_step k = 10 \<and> p \<le> rk_bucket k \<and> rk_bucket k < p + step
      \<and> (rk_metric k, rk_model k, rk_route k, rk_status k) = K))
    = (case x of (k, _) \<Rightarrow> rk_step k = 10 \<and> p \<le> rk_bucket k \<and> rk_bucket k < p + step
      \<and> (rk_metric k, rk_model k, rk_route k, rk_status k) = K)"
    by (auto simp: x assms(1))
qed

lemma children_row:
  "(rollup_key_at b 10 K, st) \<in> set (db_rollups d) \<Longrightarrow> p \<le> b \<Longrightarrow> b < p + step \<Longrightarrow> st \<in> set (children p step K d)"
  by (cases K) (force simp: children_def rollup_key_at_def)

lemma bucket_within: "0 < step \<Longrightarrow> bucket_of (of_int b) step \<le> b \<and> b < bucket_of (of_int b) step + step"
proof -
  assume s: "0 < step"
  have "\<lfloor>(of_int b :: rat) / of_int step\<rfloor> = b div step" by (rule floor_divide_of_int_eq)
  then have "bucket_of (of_int b) step = b div step * step" by (simp add: bucket_of_def)
  then show ?thesis using pos_mod_bound[OF s, of b] pos_mod_sign[OF s, of b] div_mult_mod_eq[of b step] by linarith
qed

text \<open>C18: The charts survive the prune. After a pass, every rollup key of a deleted trace whose bucket
  is within the rollup retention has its 10 s row: the one the writer had committed, or one that counts
  exactly the raw traces of the key before the pass; and each of its minute and hour rows that is still
  retained counts the sum of its 10 s rows.\<close>

theorem retention_keeps_the_charts:
  assumes "rows_ok d" "scans_ok sc" "retention_pass sc now ra fs d = Some (rc, d')"
    "t \<in> set (db_traces d)" "t \<notin> set (db_traces d')" "K \<in> set (trace_dims t)"
    "b = bucket_of (tr_ts_start t) 10" "rollup_cutoff now ra \<le> of_int b"
  shows "(\<exists>st. load_rollup_row (rollup_key_at b 10 K) d' = Some st
      \<and> (load_rollup_row (rollup_key_at b 10 K) d = Some st
         \<or> load_rollup_row (rollup_key_at b 10 K) d = None \<and> sx_count st = int (raw_count b K d)))
    \<and> (\<forall>step \<in> {60, 3600}. rollup_cutoff now ra \<le> of_int (bucket_of (of_int b) step) \<longrightarrow>
         covered (bucket_of (of_int b) step) step K d')"
proof -
  define todo where "todo = pending_keys (age_cutoff now ra) (ra_max_traces ra) (rollup_cutoff now ra) d"
  define d1 where "d1 = snd (build_pending todo d)"
  define d2 where "d2 = snd (cascade_parents todo d1)"
  define d3 where "d3 = erase_traces (trace_victims (so_traces sc) (age_cutoff now ra) (ra_max_traces ra) d2) d2"
  define d4 where "d4 = erase_logs (log_victims (so_logs sc) (age_cutoff now ra) (ra_max_logs ra) d3) d3"
  define d5 where "d5 = erase_rollups (rollup_victims (so_rollups sc) (rollup_cutoff now ra) d4) d4"
  define d6 where "d6 = erase_payloads (payload_victims (so_observations sc) (now - ra_payload_ttl ra) d5) d5"
  define d7 where "d7 = erase_sessions (session_victims (so_sessions sc) (now - SESSION_GRACE_DAYS * 86400) d6) d6"
  obtain rc' where run: "retention_pass sc now ra fs d = Some (rc', d7)" and only: "rollups_only d d2"
    and traces: "db_traces d7 = filter (\<lambda>t. t \<notin> set (doomed tr_ts_start (age_cutoff now ra) (ra_max_traces ra) (db_traces d))) (db_traces d)"
    by (rule retention_pass_result[OF assms(1,2), where now = now and ra = ra and fs = fs,
          folded todo_def, folded d1_def, folded d2_def, folded d3_def, folded d4_def, folded d5_def, folded d6_def, folded d7_def])
  have d': "d' = d7" using run assms(3) by simp
  have sc: "scan_ok (so_rollups sc)" "scan_ok (so_traces sc)" using assms(2) by (simp_all add: scans_ok_def)
  have kept: "db_rollups d7 = filter (\<lambda>r. rollup_cutoff now ra \<le> of_int (rk_bucket (fst r))) (db_rollups d2)"
    using sc by (auto simp: d7_def d6_def d5_def d4_def d3_def erase_simps rollup_victims_def scan_set intro!: filter_cong)
  have "t \<in> set (doomed tr_ts_start (age_cutoff now ra) (ra_max_traces ra) (db_traces d))" using assms(4,5) by (simp add: d' traces)
  then have todo: "(b, K) \<in> set todo"
    using assms(6-8) by (auto simp: todo_def pending_keys_def doomed_def Let_def BUCKET_STEP_def not_less)
  have raw: "gather_stats (b, K) d \<noteq> None \<and> (\<forall>st. gather_stats (b, K) d = Some st \<longrightarrow> sx_count st = int (raw_count b K d))"
    by (rule gather_stats_count[OF assms(4,6), of b]) (simp_all add: assms(7) BUCKET_STEP_def)
  have row: "load_rollup_row (rollup_key_at b 10 K) d1 = row_or (load_rollup_row (rollup_key_at b 10 K) d) (gather_stats (b, K) d)"
    using todo by (simp add: d1_def build_pending_def fold_build_row)
  have keep: "load_rollup_row rk d7 = load_rollup_row rk d2" if "rollup_cutoff now ra \<le> of_int (rk_bucket rk)" for rk
    using that unfolding load_rollup_row_def kept
    by (simp add: map_of_filter_key[of "\<lambda>k. rollup_cutoff now ra \<le> of_int (rk_bucket k)"])
  have base: "load_rollup_row (rollup_key_at b 10 K) d7 = load_rollup_row (rollup_key_at b 10 K) d1"
    using assms(8) keep[of "rollup_key_at b 10 K"] by (simp add: d2_def cascade_keeps_base)
  have "covered (bucket_of (of_int b) step) step K d7"
    if "step \<in> {60, 3600}" "rollup_cutoff now ra \<le> of_int (bucket_of (of_int b) step)" for step
  proof -
    let ?p = "bucket_of (of_int b) step"
    have "(?p, step, K) \<in> set (parent_keys todo)"
    proof -
      have "step \<in> set PARENT_STEPS" using that(1) by (simp add: PARENT_STEPS_def)
      then show ?thesis unfolding parent_keys_def set_rev set_remdups set_concat set_map set_sort
        by (intro UN_I[OF imageI[OF todo]]) (auto simp: image_iff)
    qed
    moreover have "children ?p step K d1 \<noteq> []"
    proof -
      obtain st where "load_rollup_row (rollup_key_at b 10 K) d1 = Some st" using row raw by (auto simp: row_or_def split: option.splits)
      from map_of_SomeD[OF this[unfolded load_rollup_row_def]] have "(rollup_key_at b 10 K, st) \<in> set (db_rollups d1)" .
      moreover have "?p \<le> b" "b < ?p + step" using bucket_within[of step b] that(1) by auto
      ultimately have "st \<in> set (children ?p step K d1)" by (rule children_row)
      then show ?thesis by force
    qed
    ultimately have "covered ?p step K d2" unfolding d2_def by (rule cascade_parents_covers)
    moreover have "children ?p step K d7 = children ?p step K d2" by (rule children_filter[OF _ that(2) kept]) simp
    moreover have "row_count d7 (rollup_key_at ?p step K) = row_count d2 (rollup_key_at ?p step K)"
      using keep[of "rollup_key_at ?p step K"] that(2) by (simp add: row_count_def)
    ultimately show ?thesis by (simp add: covered_def)
  qed
  moreover have "\<exists>st. load_rollup_row (rollup_key_at b 10 K) d7 = Some st
      \<and> (load_rollup_row (rollup_key_at b 10 K) d = Some st
         \<or> load_rollup_row (rollup_key_at b 10 K) d = None \<and> sx_count st = int (raw_count b K d))"
    unfolding base row using raw by (auto simp: row_or_def split: option.splits)
  ultimately show ?thesis unfolding d' by blast
qed

definition demo_store :: db where
  "demo_store = empty_db\<lparr>db_traces := [trace_row (demo_trace ''a'' 5 500), trace_row (demo_trace ''b'' 15 200)]\<rparr>"

definition demo_caps :: caps where
  "demo_caps = \<lparr>ra_max_traces = 1, ra_max_logs = 5, ra_max_age_days = 7, ra_rollup_days = 90, ra_payload_ttl = 86400, ra_free_page_pct = 20\<rparr>"

definition table_order :: scans where
  "table_order = \<lparr>so_traces = rev, so_logs = rev, so_rollups = rev, so_observations = rev, so_sessions = rev\<rparr>"

definition demo_file :: file_state where
  "demo_file = \<lparr>fs_queue_idle = True, fs_checkpoint_busy = False, fs_page_size = 4096, fs_page_count = 10, fs_free_pages = 3\<rparr>"

lemma demo_ok: "rows_ok demo_store" "scans_ok table_order"
  by (simp_all add: rows_ok_def demo_store_def empty_db_def demo_trace_def trace_row_def trace.truncate_def
      scans_ok_def scan_ok_def table_order_def)

lemma demo_kept: "map tr_id (filter (\<lambda>t. age_cutoff 20 demo_caps \<le> tr_ts_start t
    \<and> t \<notin> set (overflow tr_ts_start (ra_max_traces demo_caps) (db_traces demo_store))) (db_traces demo_store)) = [''b'']"
  by code_simp

theorem retention_prunes_exactly_witness:
  "\<exists>rc d'. retention_pass table_order 20 demo_caps demo_file demo_store = Some (rc, d') \<and> map tr_id (db_traces d') = [''b'']"
  using retention_prunes_exactly[OF demo_ok, of 20 demo_caps demo_file] demo_kept by metis

theorem retention_keeps_the_charts_witness:
  "\<exists>rc d' st. retention_pass table_order 20 demo_caps demo_file demo_store = Some (rc, d')
    \<and> load_rollup_row (rollup_key_at 0 10 (''errors'', [], [], 500)) d' = Some st \<and> sx_count st = 1"
proof -
  obtain rc d' where run: "retention_pass table_order 20 demo_caps demo_file demo_store = Some (rc, d')"
    and kept: "db_traces d' = filter (\<lambda>t. t \<notin> set (doomed tr_ts_start (age_cutoff 20 demo_caps) (ra_max_traces demo_caps) (db_traces demo_store))) (db_traces demo_store)"
    by (rule retention_pass_result[OF demo_ok, of 20 demo_caps demo_file])
  let ?t = "trace_row (demo_trace ''a'' 5 500)" and ?K = "(''errors'', [], [], 500) :: dims"
  have "?t \<in> set (db_traces demo_store) \<and> ?t \<in> set (doomed tr_ts_start (age_cutoff 20 demo_caps) (ra_max_traces demo_caps) (db_traces demo_store))
      \<and> ?K \<in> set (trace_dims ?t) \<and> 0 = bucket_of (tr_ts_start ?t) 10 \<and> rollup_cutoff 20 demo_caps \<le> of_int 0
      \<and> load_rollup_row (rollup_key_at 0 10 ?K) demo_store = None \<and> raw_count 0 ?K demo_store = 1"
    by code_simp
  then have h: "?t \<in> set (db_traces demo_store)" "?t \<notin> set (db_traces d')" "?K \<in> set (trace_dims ?t)"
    "0 = bucket_of (tr_ts_start ?t) 10" "rollup_cutoff 20 demo_caps \<le> of_int 0"
    "load_rollup_row (rollup_key_at 0 10 ?K) demo_store = None" "raw_count 0 ?K demo_store = 1"
    unfolding kept by auto
  show ?thesis using retention_keeps_the_charts[OF demo_ok run h(1-5)] h(6,7) run by auto
qed

end
