(* ===== verification/Connections.thy ===== *)
theory Connections
  imports Prelude "HOL-Library.Multiset"
begin

text \<open>
  Models the connection factory of \<open>layawatch/store/db.py\<close>: the per-thread cache of handles behind
  \<open>connect\<close>, its bound and its \<open>close\<close>, which keeps the handle. Whether a rollback fails is decided by
  the event.
\<close>

section \<open>The connection cache of a thread\<close>

definition MAX_CACHED_PER_THREAD :: nat where
  "MAX_CACHED_PER_THREAD = 8"

text \<open>Handles are numbered in the order they are opened; the cache lists paths, least recently used
  first.\<close>

record handles =
  hs_cache :: "(string \<times> nat) list"
  hs_retired :: "nat list"
  hs_busy :: "nat list"
  hs_next :: nat

definition no_handles :: handles where
  "no_handles = \<lparr>hs_cache = [], hs_retired = [], hs_busy = [], hs_next = 0\<rparr>"

text \<open>\<open>_retire\<close>: the handle really closes, which ends its transaction.\<close>

definition retire :: "nat \<Rightarrow> handles \<Rightarrow> handles" where
  "retire h s = (if h \<in> set (hs_retired s) then s
     else s\<lparr>hs_retired := h # hs_retired s, hs_busy := removeAll h (hs_busy s)\<rparr>)"

text \<open>\<open>popitem(last=False)\<close> while the cache is over its bound.\<close>

fun evict_over :: "(string \<times> nat) list \<Rightarrow> handles \<Rightarrow> handles" where
  "evict_over [] s = s\<lparr>hs_cache := []\<rparr>"
| "evict_over ((key, h) # rest) s =
     (if MAX_CACHED_PER_THREAD < length ((key, h) # rest) then evict_over rest (retire h s)
      else s\<lparr>hs_cache := (key, h) # rest\<rparr>)"

definition connect :: "string \<Rightarrow> string \<Rightarrow> handles \<Rightarrow> nat \<times> handles" where
  "connect raw key s =
     (let h = hs_next s; opened = s\<lparr>hs_next := Suc h\<rparr> in
      if raw = '':memory:'' then (h, opened)
      else
        (case map_of (hs_cache s) key of
           Some c \<Rightarrow> (c, s\<lparr>hs_cache := dict_del key (hs_cache s) @ [(key, c)]\<rparr>)
         | None \<Rightarrow> (h, evict_over (hs_cache s @ [(key, h)]) opened)))"

text \<open>\<open>close\<close> rolls open work back and keeps the handle; a rollback that fails retires it.\<close>

definition close :: "bool \<Rightarrow> nat \<Rightarrow> handles \<Rightarrow> handles" where
  "close rollback_fails h s =
     (if h \<in> set (hs_retired s) then s
      else if h \<in> set (hs_busy s)
      then (if rollback_fails then retire h s else s\<lparr>hs_busy := removeAll h (hs_busy s)\<rparr>)
      else s)"

text \<open>The first write of a caller opens a transaction; a closed handle, like one never opened, refuses.\<close>

definition begin_work :: "nat \<Rightarrow> handles \<Rightarrow> handles option" where
  "begin_work h s = (if h \<in> set (hs_retired s) \<or> hs_next s \<le> h then None else Some (s\<lparr>hs_busy := List.insert h (hs_busy s)\<rparr>))"

datatype handle_event = Connect string string | Begin nat | Close bool nat

fun handle_step :: "handle_event \<Rightarrow> handles \<Rightarrow> handles" where
  "handle_step (Connect raw key) s = snd (connect raw key s)"
| "handle_step (Begin h) s = (case begin_work h s of None \<Rightarrow> s | Some s' \<Rightarrow> s')"
| "handle_step (Close fails h) s = close fails h s"

section \<open>The cache holds the open handles\<close>

definition handles_inv :: "handles \<Rightarrow> bool" where
  "handles_inv s \<longleftrightarrow> dict_ok (hs_cache s) \<and> length (hs_cache s) \<le> MAX_CACHED_PER_THREAD
     \<and> distinct (map snd (hs_cache s)) \<and> (\<forall>h \<in> snd ` set (hs_cache s) \<union> set (hs_retired s). h < hs_next s)
     \<and> (\<forall>h \<in> set (hs_busy s). h \<notin> set (hs_retired s) \<and> h < hs_next s)
     \<and> (\<forall>h < hs_next s. h \<in> set (hs_retired s) \<or> h \<in> snd ` set (hs_cache s))"

definition cache_alive :: "handles \<Rightarrow> bool" where
  "cache_alive s \<longleftrightarrow> (\<forall>h \<in> snd ` set (hs_cache s). h \<notin> set (hs_retired s))"

definition on_file :: "handle_event \<Rightarrow> bool" where
  "on_file e \<longleftrightarrow> (case e of Connect raw _ \<Rightarrow> raw \<noteq> '':memory:'' | _ \<Rightarrow> True)"

definition closes_well :: "handle_event \<Rightarrow> bool" where
  "closes_well e \<longleftrightarrow> (case e of Close fails _ \<Rightarrow> \<not> fails | _ \<Rightarrow> True)"

lemma retire_simps [simp]:
  "hs_cache (retire h s) = hs_cache s" "hs_next (retire h s) = hs_next s" "set (hs_retired (retire h s)) = insert h (set (hs_retired s))"
  by (auto simp: retire_def)

lemma retire_busy: "\<forall>x \<in> set (hs_busy s). x \<notin> set (hs_retired s) \<and> x < n \<Longrightarrow> \<forall>x \<in> set (hs_busy (retire h s)). x \<notin> set (hs_retired (retire h s)) \<and> x < n"
  by (auto simp: retire_def)

lemma evict_over_facts:
  assumes "evict_over c s = s'" "\<forall>h \<in> set (hs_busy s). h \<notin> set (hs_retired s) \<and> h < m"
  shows "\<exists>n. hs_cache s' = drop n c \<and> length (hs_cache s') = min (length c) MAX_CACHED_PER_THREAD
    \<and> set (hs_retired s') = set (hs_retired s) \<union> snd ` set (take n c)
    \<and> hs_next s' = hs_next s \<and> (\<forall>h \<in> set (hs_busy s'). h \<notin> set (hs_retired s') \<and> h < m)"
  using assms
proof (induction c s rule: evict_over.induct)
  case (2 key h rest s)
  show ?case
  proof (cases "MAX_CACHED_PER_THREAD < length ((key, h) # rest)")
    case True
    then have e: "evict_over rest (retire h s) = s'" using 2(2) by simp
    obtain n where "hs_cache s' = drop n rest" "length (hs_cache s') = min (length rest) MAX_CACHED_PER_THREAD"
      "set (hs_retired s') = set (hs_retired (retire h s)) \<union> snd ` set (take n rest)"
      "hs_next s' = hs_next s" "\<forall>h \<in> set (hs_busy s'). h \<notin> set (hs_retired s') \<and> h < m"
      using 2(1)[OF True e retire_busy[OF 2(3)]] by auto
    then show ?thesis using True by (intro exI[of _ "Suc n"]) auto
  next
    case False
    then show ?thesis using 2 by (intro exI[of _ 0]) auto
  qed
qed auto

lemma take_or_drop: "x \<in> set xs \<Longrightarrow> x \<in> set (take n xs) \<or> x \<in> set (drop n xs)"
  by (metis Un_iff append_take_drop_id set_append)

lemma handles_inv_connect:
  assumes "handles_inv s" "raw \<noteq> '':memory:''"
  shows "handles_inv (snd (connect raw key s))"
    "cache_alive s \<Longrightarrow> cache_alive (snd (connect raw key s)) \<and> fst (connect raw key s) \<notin> set (hs_retired (snd (connect raw key s)))"
proof -
  note inv = assms(1)[unfolded handles_inv_def]
  have "handles_inv (snd (connect raw key s)) \<and> (cache_alive s \<longrightarrow> cache_alive (snd (connect raw key s))
      \<and> fst (connect raw key s) \<notin> set (hs_retired (snd (connect raw key s))))"
  proof (cases "map_of (hs_cache s) key")
    case (Some c)
    have mem: "(key, c) \<in> set (hs_cache s)" using Some by (rule map_of_SomeD)
    let ?c' = "dict_del key (hs_cache s) @ [(key, c)]"
    have set: "set ?c' = set (hs_cache s)" using mem inv by (auto simp: AList.delete_eq dict_ok_def dest: eq_key_imp_eq_value)
    moreover have "distinct ?c'" using inv by (auto simp: dict_ok_def distinct_map AList.delete_eq)
    ultimately have p: "mset ?c' = mset (hs_cache s)"
      using inv by (metis dict_ok_def distinct_map set_eq_iff_mset_eq_distinct)
    have "distinct (map fst ?c') \<and> distinct (map snd ?c') \<and> length ?c' = length (hs_cache s)"
      using inv mset_eq_length[OF p] mset_map by (metis p dict_ok_def mset_eq_imp_distinct_iff)
    then show ?thesis
      using inv set mem assms(2) by (auto simp: connect_def Some handles_inv_def cache_alive_def dict_ok_def simp del: set_append append_assoc)
  next
    case None
    let ?h = "hs_next s" and ?c = "hs_cache s @ [(key, hs_next s)]" and ?s' = "snd (connect raw key s)"
    have con: "connect raw key s = (?h, evict_over ?c (s\<lparr>hs_next := Suc ?h\<rparr>))"
      using None assms(2) by (simp add: connect_def Let_def)
    obtain n where e: "hs_cache ?s' = drop n ?c" "length (hs_cache ?s') = min (length ?c) MAX_CACHED_PER_THREAD"
      "set (hs_retired ?s') = set (hs_retired s) \<union> snd ` set (take n ?c)" "hs_next ?s' = Suc ?h"
      "\<forall>h \<in> set (hs_busy ?s'). h \<notin> set (hs_retired ?s') \<and> h < Suc ?h"
    proof -
      have "\<forall>x \<in> set (hs_busy (s\<lparr>hs_next := Suc ?h\<rparr>)). x \<notin> set (hs_retired (s\<lparr>hs_next := Suc ?h\<rparr>)) \<and> x < Suc ?h"
        using inv by (simp add: less_Suc_eq)
      note facts = evict_over_facts[OF refl this, of ?c]
      have "hs_retired (s\<lparr>hs_next := Suc ?h\<rparr>) = hs_retired s" "hs_next (s\<lparr>hs_next := Suc ?h\<rparr>) = Suc ?h" by simp_all
      then show thesis using facts that unfolding con snd_conv by metis
    qed
    have d: "distinct (map fst ?c)" "distinct (map snd ?c)"
      using inv None by (auto simp: dict_ok_def map_of_eq_None_iff)
    then have "distinct (map fst (take n ?c @ drop n ?c))" "distinct (map snd (take n ?c @ drop n ?c))" by (simp_all only: append_take_drop_id)
    then have dd: "distinct (map fst (drop n ?c))" "distinct (map snd (drop n ?c))"
      "snd ` set (take n ?c) \<inter> snd ` set (drop n ?c) = {}" by (simp_all only: map_append distinct_append set_map)
    have below: "\<forall>h \<in> snd ` set ?c \<union> set (hs_retired s). h < Suc ?h" using inv by (auto simp: less_Suc_eq)
    have parts: "set (take n ?c) \<subseteq> set ?c" "set (drop n ?c) \<subseteq> set ?c" by (rule set_take_subset set_drop_subset)+
    have all: "h \<in> set (hs_retired ?s') \<or> h \<in> snd ` set (hs_cache ?s')" if "h < Suc ?h" for h
    proof -
      have "h \<in> set (hs_retired s) \<or> h \<in> snd ` set ?c" using inv that by (auto simp: less_Suc_eq)
      then show ?thesis unfolding e(1,3) using take_or_drop[of _ ?c n] by blast
    qed
    have old: "snd ` set (hs_cache ?s') \<union> set (hs_retired ?s') \<subseteq> snd ` set ?c \<union> set (hs_retired s)"
      unfolding e(1,3) using parts by blast
    have "dict_ok (hs_cache ?s')" "distinct (map snd (hs_cache ?s'))" using dd by (simp_all only: e(1) dict_ok_def)
    moreover have "length (hs_cache ?s') \<le> MAX_CACHED_PER_THREAD" by (simp only: e(2))
    moreover have "\<forall>h \<in> snd ` set (hs_cache ?s') \<union> set (hs_retired ?s'). h < hs_next ?s'"
      unfolding e(4) using old below by (meson subsetD)
    ultimately have "handles_inv ?s'" unfolding handles_inv_def
      using e(5)[folded e(4)] by (intro conjI allI impI) (assumption | (rule all, simp only: e(4)))+
    moreover have "cache_alive ?s' \<and> ?h \<notin> set (hs_retired ?s')" if "cache_alive s"
    proof
      have c: "h \<notin> set (hs_retired s)" if "h \<in> snd ` set ?c" for h
        using that inv \<open>cache_alive s\<close> by (auto simp: cache_alive_def)
      show "cache_alive ?s'" unfolding cache_alive_def e(1,3)
      proof
        fix h assume h: "h \<in> snd ` set (drop n ?c)"
        then have "h \<in> snd ` set ?c" using parts(2) by blast
        then show "h \<notin> set (hs_retired s) \<union> snd ` set (take n ?c)" using c h dd(3) by blast
      qed
      have "n < length ?c" using e(1,2) by (auto simp: MAX_CACHED_PER_THREAD_def)
      then have "?h \<in> snd ` set (drop n ?c)" by (simp add: image_Un)
      then show "?h \<notin> set (hs_retired ?s')" unfolding e(3) using dd(3) inv by blast
    qed
    ultimately show ?thesis by (simp add: con)
  qed
  then show "handles_inv (snd (connect raw key s))"
    "cache_alive s \<Longrightarrow> cache_alive (snd (connect raw key s)) \<and> fst (connect raw key s) \<notin> set (hs_retired (snd (connect raw key s)))"
    by blast+
qed

lemma evict_over_next: "hs_next (evict_over c s) = hs_next s"
  by (induction c s rule: evict_over.induct) auto

lemma connect_below: "handles_inv s \<Longrightarrow> raw \<noteq> '':memory:'' \<Longrightarrow> fst (connect raw key s) < hs_next (snd (connect raw key s))"
  by (auto simp: connect_def Let_def evict_over_next handles_inv_def split: option.splits dest!: map_of_SomeD)
    (metis UnI1 image_eqI snd_conv)

lemma handle_step_inv:
  assumes "handles_inv s" "on_file e"
  shows "handles_inv (handle_step e s)" "cache_alive s \<Longrightarrow> closes_well e \<Longrightarrow> cache_alive (handle_step e s)"
proof -
  have "handles_inv (handle_step e s) \<and> (cache_alive s \<longrightarrow> closes_well e \<longrightarrow> cache_alive (handle_step e s))"
  proof (cases e)
    case (Connect raw key)
    then show ?thesis using handles_inv_connect[OF assms(1), of raw key] assms(2) by (simp add: on_file_def)
  next
    case (Begin h)
    then show ?thesis using assms(1) by (auto simp: begin_work_def handles_inv_def cache_alive_def)
  next
    case (Close fails h)
    then show ?thesis
      using assms(1) by (auto simp: close_def retire_def handles_inv_def cache_alive_def closes_well_def)
  qed
  then show "handles_inv (handle_step e s)" "cache_alive s \<Longrightarrow> closes_well e \<Longrightarrow> cache_alive (handle_step e s)" by blast+
qed

lemma handle_run_inv:
  "list_all on_file es \<Longrightarrow> handles_inv s \<Longrightarrow> handles_inv (fold handle_step es s)
    \<and> (cache_alive s \<and> list_all closes_well es \<longrightarrow> cache_alive (fold handle_step es s))"
  by (induction es arbitrary: s) (simp_all add: handle_step_inv)

lemma no_handles_inv: "handles_inv no_handles" "cache_alive no_handles"
  by (simp_all add: handles_inv_def cache_alive_def no_handles_def)

text \<open>Whatever a thread connects, writes and closes, it keeps at most eight handles of database files
  open, and every one of them is in the cache. While no rollback fails, \<open>connect\<close> returns an open
  handle.\<close>

theorem open_handles_are_bounded:
  assumes "list_all on_file es" "s = fold handle_step es no_handles"
  shows "card {h. h < hs_next s \<and> h \<notin> set (hs_retired s)} \<le> 8
    \<and> {h. h < hs_next s \<and> h \<notin> set (hs_retired s)} \<subseteq> snd ` set (hs_cache s)
    \<and> (list_all closes_well es \<longrightarrow> raw \<noteq> '':memory:'' \<longrightarrow>
        begin_work (fst (connect raw key s)) (snd (connect raw key s)) \<noteq> None)"
proof -
  have inv: "handles_inv s" "list_all closes_well es \<Longrightarrow> cache_alive s"
    using handle_run_inv[OF assms(1) no_handles_inv(1)] no_handles_inv(2) by (auto simp: assms(2))
  have sub: "{h. h < hs_next s \<and> h \<notin> set (hs_retired s)} \<subseteq> snd ` set (hs_cache s)"
    using inv(1) by (auto simp: handles_inv_def)
  have "card {h. h < hs_next s \<and> h \<notin> set (hs_retired s)} \<le> card (snd ` set (hs_cache s))" using sub by (simp add: card_mono)
  also have "\<dots> \<le> length (hs_cache s)" by (metis card_length length_map set_map)
  also have "\<dots> \<le> 8" using inv(1) by (simp add: handles_inv_def MAX_CACHED_PER_THREAD_def)
  finally have few: "card {h. h < hs_next s \<and> h \<notin> set (hs_retired s)} \<le> 8" .
  have "begin_work (fst (connect raw key s)) (snd (connect raw key s)) \<noteq> None" if "list_all closes_well es" "raw \<noteq> '':memory:''"
    using handles_inv_connect(2)[OF inv(1) that(2) inv(2)[OF that(1)], of key] connect_below[OF inv(1) that(2), of key]
    by (simp add: begin_work_def)
  then show ?thesis using few sub by blast
qed

theorem open_handles_are_bounded_witness:
  "begin_work (fst (connect ''a.db'' ''/a.db'' (fold handle_step [Connect ''a.db'' ''/a.db'', Begin 0, Close False 0] no_handles)))
     (snd (connect ''a.db'' ''/a.db'' (fold handle_step [Connect ''a.db'' ''/a.db'', Begin 0, Close False 0] no_handles))) \<noteq> None"
  using open_handles_are_bounded[of "[Connect ''a.db'' ''/a.db'', Begin 0, Close False 0]" _ "''a.db''" "''/a.db''"]
  by (simp add: on_file_def closes_well_def)

text \<open>A rollback that fails closes the handle but leaves it in the cache, so the next \<open>connect\<close> of the
  thread to that file returns the closed handle, which refuses every statement.\<close>

theorem failed_rollback_leaves_a_dead_handle:
  assumes "map_of (hs_cache s) key = Some h" "h \<in> set (hs_busy s)" "h \<notin> set (hs_retired s)" "raw \<noteq> '':memory:''"
  shows "fst (connect raw key (close True h s)) = h
    \<and> begin_work h (snd (connect raw key (close True h s))) = None"
  using assms by (simp add: connect_def close_def begin_work_def)

theorem failed_rollback_leaves_a_dead_handle_witness:
  "begin_work 0 (snd (connect ''a.db'' ''/a.db'' (close True 0 (fold handle_step [Connect ''a.db'' ''/a.db'', Begin 0] no_handles)))) = None"
  using failed_rollback_leaves_a_dead_handle[of "fold handle_step [Connect ''a.db'' ''/a.db'', Begin 0] no_handles" "''/a.db''" 0 "''a.db''"]
  by (simp add: connect_def no_handles_def begin_work_def MAX_CACHED_PER_THREAD_def)

end
