(* ===== verification/Migrations.thy ===== *)
theory Migrations
  imports Prelude
begin

text \<open>
  Models the migration runner of \<open>layawatch/store/db.py\<close>: the numbering of the files, the version
  check, one transaction per pending file. What a script does to the database is an argument; a
  transaction that raises leaves the database as it was.
\<close>

section \<open>Migrations\<close>

text \<open>\<open>mg_text\<close> is what reading the file gives.\<close>

record migration =
  mg_stem :: string
  mg_text :: "pyexc + string"

text \<open>A database: its schema and data, and the rows of \<open>schema_migrations\<close> when the table exists.\<close>

record 'd store =
  st_data :: 'd
  st_rows :: "(int \<times> string \<times> string) list option"

type_synonym 'd script = "string \<Rightarrow> 'd store \<Rightarrow> pyexc + 'd store"

datatype migrate_error = BadName string | SchemaTooNew int int | Failed pyexc

definition migration_name :: "migration \<Rightarrow> string" where
  "migration_name m = mg_stem m @ ''.sql''"

definition version_of :: "migration \<Rightarrow> int option" where
  "version_of m = (let ds = takeWhile py_digit (mg_stem m) in if ds = [] then None else py_int ds)"

fun number_migrations :: "migration list \<Rightarrow> (int \<times> migration) list \<Rightarrow> migrate_error + (int \<times> migration) list" where
  "number_migrations [] acc = Inr acc"
| "number_migrations (m # ms) acc =
     (case version_of m of None \<Rightarrow> Inl (BadName (migration_name m)) | Some v \<Rightarrow> number_migrations ms (acc @ [(v, m)]))"

definition max_version :: "int list \<Rightarrow> int" where
  "max_version vs = (case vs of [] \<Rightarrow> 0 | v # rest \<Rightarrow> fold max rest v)"

definition schema_version :: "'d store \<Rightarrow> int" where
  "schema_version s = (case st_rows s of None \<Rightarrow> 0 | Some rows \<Rightarrow> max_version (map fst rows))"

definition recorded :: "'d store \<Rightarrow> int set" where
  "recorded s = (case st_rows s of None \<Rightarrow> {} | Some rows \<Rightarrow> fst ` set rows)"

text \<open>One transaction: script, bookkeeping table, bookkeeping row with its primary key.\<close>

definition apply_one :: "'d script \<Rightarrow> (int \<Rightarrow> string) \<Rightarrow> int \<times> migration \<Rightarrow> 'd store \<Rightarrow> pyexc + 'd store" where
  "apply_one script stamp vm s =
     (let (v, m) = vm in
      res_bind (mg_text m) (\<lambda>sql.
      res_bind (script sql s) (\<lambda>s1.
        let rows = (case st_rows s1 of None \<Rightarrow> [] | Some r \<Rightarrow> r) in
        if v \<in> fst ` set rows then Inl IntegrityError
        else Inr (s1\<lparr>st_rows := Some (rows @ [(v, migration_name m, stamp v)])\<rparr>))))"

fun apply_pending :: "'d script \<Rightarrow> (int \<Rightarrow> string) \<Rightarrow> (int \<times> migration) list \<Rightarrow> int list \<Rightarrow> 'd store
    \<Rightarrow> (migrate_error + int list) \<times> 'd store" where
  "apply_pending script stamp [] applied s = (Inr applied, s)"
| "apply_pending script stamp (vm # vms) applied s =
     (case apply_one script stamp vm s of
        Inl e \<Rightarrow> (Inl (Failed e), s)
      | Inr s' \<Rightarrow> apply_pending script stamp vms (applied @ [fst vm]) s')"

definition migrate :: "'d script \<Rightarrow> (int \<Rightarrow> string) \<Rightarrow> migration list \<Rightarrow> 'd store \<Rightarrow> (migrate_error + int list) \<times> 'd store" where
  "migrate script stamp files s =
     (case number_migrations (sort_key migration_name files) [] of
        Inl e \<Rightarrow> (Inl e, s)
      | Inr migrations \<Rightarrow>
          let newest = max_version (map fst migrations); current = schema_version s in
          if newest < current then (Inl (SchemaTooNew current newest), s)
          else apply_pending script stamp (filter (\<lambda>(v, _). v \<notin> recorded s) migrations) [] s)"

section \<open>The migration runner\<close>

text \<open>What a migration script may do to the bookkeeping: create its empty table, nothing else.\<close>

definition script_quiet :: "'d script \<Rightarrow> bool" where
  "script_quiet script \<longleftrightarrow> (\<forall>sql s s'. script sql s = Inr s' \<longrightarrow>
     st_rows s' = st_rows s \<or> (st_rows s = None \<and> st_rows s' = Some []))"

definition script_le :: "'d script \<Rightarrow> 'd script \<Rightarrow> bool" where
  "script_le f g \<longleftrightarrow> (\<forall>sql s s'. f sql s = Inr s' \<longrightarrow> g sql s = Inr s')"

definition versions :: "migration list \<Rightarrow> int set" where
  "versions files = {v. \<exists>m \<in> set files. version_of m = Some v}"

lemma number_migrations_Inr:
  "number_migrations ms acc = Inr out \<Longrightarrow> \<exists>vs. out = acc @ zip vs ms \<and> map version_of ms = map Some vs"
proof (induction ms arbitrary: acc)
  case (Cons m ms)
  then obtain v where v: "version_of m = Some v" and r: "number_migrations ms (acc @ [(v, m)]) = Inr out"
    by (auto split: option.splits)
  from Cons.IH[OF r] obtain vs where "out = (acc @ [(v, m)]) @ zip vs ms" "map version_of ms = map Some vs" by blast
  then show ?case using v by (intro exI[of _ "v # vs"]) simp
qed simp

lemma numbered_versions:
  assumes "number_migrations (sort_key migration_name files) [] = Inr out"
  shows "fst ` set out = versions files"
proof -
  obtain vs where o: "out = zip vs (sort_key migration_name files)"
    and m: "map version_of (sort_key migration_name files) = map Some vs"
    using number_migrations_Inr[OF assms] by auto
  have len: "length vs = length (sort_key migration_name files)" using arg_cong[OF m, of length] by simp
  have "fst ` set out = set vs" unfolding o by (metis len list.set_map map_fst_zip)
  also have "Some ` set vs = version_of ` set files" using arg_cong[OF m, of set] by simp
  then have "set vs = versions files" by (auto simp: versions_def) (metis imageI image_iff option.inject)+
  finally show ?thesis .
qed

lemma max_version_Max: "max_version vs = (if vs = [] then 0 else Max (set vs))"
  by (cases vs) (simp_all add: max_version_def Max.set_eq_fold[symmetric])

lemma schema_version_recorded: "schema_version s = (if recorded s = {} then 0 else Max (recorded s))"
  by (auto simp: schema_version_def recorded_def max_version_Max split: option.splits)

lemma finite_recorded: "finite (recorded s)"
  by (simp add: recorded_def split: option.splits)

lemma version_nonneg: "version_of m = Some v \<Longrightarrow> 0 \<le> v"
proof -
  assume a: "version_of m = Some v"
  obtain c cs where t: "takeWhile py_digit (mg_stem m) = c # cs"
    using a by (cases "takeWhile py_digit (mg_stem m)") (auto simp: version_of_def Let_def)
  have all: "\<forall>x \<in> set (c # cs). py_digit x" by (metis t set_takeWhileD)
  then have "py_digit c" "py_digit (last (c # cs))" using last_in_set[of "c # cs"] by (simp_all only: list.set_intros not_Cons_self simp_thms list.distinct)
  then have "\<not> py_isspace c" "\<not> py_isspace (last (c # cs))" by (simp_all only: py_digit_not_space not_False_eq_True)
  then have "py_strip (c # cs) = c # cs" by (intro py_strip_id) simp
  then show ?thesis using a all by (auto simp: version_of_def t Let_def py_int_def py_digit_def cp_def split: if_splits)
qed

lemma apply_one_Inr:
  assumes "apply_one script stamp vm s = Inr s'" "script_quiet script"
  shows "recorded s' = insert (fst vm) (recorded s)" "fst vm \<notin> recorded s"
proof -
  obtain sql s1 where m: "mg_text (snd vm) = Inr sql" and r: "script sql s = Inr s1"
    and rest: "fst vm \<notin> recorded s1" "s' = s1\<lparr>st_rows := Some ((case st_rows s1 of None \<Rightarrow> [] | Some r \<Rightarrow> r)
      @ [(fst vm, migration_name (snd vm), stamp (fst vm))])\<rparr>"
    using assms(1) by (auto simp: apply_one_def Let_def res_bind_Inr recorded_def split: prod.splits if_splits option.splits)
  have "recorded s1 = recorded s" using assms(2) r unfolding script_quiet_def recorded_def by fastforce
  then show "recorded s' = insert (fst vm) (recorded s)" "fst vm \<notin> recorded s"
    using rest by (auto simp: recorded_def split: option.splits)
qed

lemma apply_pending_append:
  "apply_pending script stamp (xs @ ys) acc s =
    (case apply_pending script stamp xs acc s of (Inl e, s') \<Rightarrow> (Inl e, s') | (Inr acc', s') \<Rightarrow> apply_pending script stamp ys acc' s')"
  by (induction xs arbitrary: acc s) (auto split: sum.splits)

lemma apply_pending_acc:
  "apply_pending script stamp xs (acc @ bs) s =
    (case apply_pending script stamp xs bs s of (Inl e, s') \<Rightarrow> (Inl e, s') | (Inr vs, s') \<Rightarrow> (Inr (acc @ vs), s'))"
  by (induction xs arbitrary: bs s) (auto split: sum.splits)

lemma apply_pending_tail:
  "apply_pending script stamp xs acc s = (Inr vs, s') \<Longrightarrow> apply_pending script stamp xs [] s = (Inr (drop (length acc) vs), s')"
  using apply_pending_acc[of script stamp xs acc "[]" s] by (auto split: prod.splits sum.splits)

lemma apply_pending_Inr:
  assumes "apply_pending script stamp vms acc s = (Inr vs, s')" "script_quiet script"
  shows "vs = acc @ map fst vms \<and> recorded s' = recorded s \<union> fst ` set vms
    \<and> distinct (map fst vms) \<and> fst ` set vms \<inter> recorded s = {}"
  using assms(1)
proof (induction vms arbitrary: acc s)
  case (Cons vm vms)
  obtain s1 where o: "apply_one script stamp vm s = Inr s1"
    and r: "apply_pending script stamp vms (acc @ [fst vm]) s1 = (Inr vs, s')"
    using Cons.prems by (auto split: sum.splits)
  show ?case using Cons.IH[OF r] apply_one_Inr[OF o assms(2)] by auto
qed simp

lemma apply_pending_Inl:
  assumes "apply_pending script stamp vms acc s = (Inl e, s')"
  shows "\<exists>k < length vms. apply_pending script stamp (take k vms) acc s = (Inr (acc @ map fst (take k vms)), s')"
  using assms
proof (induction vms arbitrary: acc s)
  case (Cons vm vms)
  show ?case
  proof (cases "apply_one script stamp vm s")
    case (Inl x)
    then show ?thesis using Cons.prems by (intro exI[of _ 0]) simp
  next
    case (Inr s1)
    then obtain k where "k < length vms"
      "apply_pending script stamp (take k vms) (acc @ [fst vm]) s1 = (Inr ((acc @ [fst vm]) @ map fst (take k vms)), s')"
      using Cons.IH[of "acc @ [fst vm]" s1] Cons.prems by auto
    then show ?thesis using Inr by (intro exI[of _ "Suc k"]) simp
  qed
qed simp

lemma apply_one_le: "script_le f g \<Longrightarrow> apply_one f stamp vm s = Inr s' \<Longrightarrow> apply_one g stamp vm s = Inr s'"
proof -
  assume le: "script_le f g" and o: "apply_one f stamp vm s = Inr s'"
  obtain v m where vm: "vm = (v, m)" by (cases vm)
  obtain sql where sql: "mg_text m = Inr sql" using o by (cases "mg_text m") (simp_all add: apply_one_def vm)
  obtain s1 where "f sql s = Inr s1" using o by (cases "f sql s") (simp_all add: apply_one_def vm sql)
  then show ?thesis using o le by (simp add: apply_one_def vm sql script_le_def)
qed

lemma apply_pending_le:
  "script_le f g \<Longrightarrow> apply_pending f stamp vms acc s = (Inr vs, s') \<Longrightarrow> apply_pending g stamp vms acc s = (Inr vs, s')"
  by (induction vms arbitrary: acc s) (auto split: sum.splits dest: apply_one_le)

lemma filter_not_taken:
  "distinct (map fst ps) \<Longrightarrow> filter (\<lambda>(v, _). v \<notin> set (take k (map fst ps))) ps = drop k ps"
proof (induction ps arbitrary: k)
  case (Cons p ps)
  show ?case
  proof (cases k)
    case (Suc j)
    have ne: "v \<noteq> fst p" if "(v, m) \<in> set ps" for v m
      by (metis Cons.prems that distinct.simps(2) fst_conv imageI list.set_map list.simps(9))
    have "filter (\<lambda>(v, _). v \<notin> insert (fst p) (set (take j (map fst ps)))) ps = filter (\<lambda>(v, _). v \<notin> set (take j (map fst ps))) ps"
      using ne by (intro filter_cong) auto
    then show ?thesis using Suc Cons by (simp add: case_prod_unfold)
  qed (simp add: case_prod_unfold)
qed simp

lemma migrate_shape:
  fixes s :: "'d store"
  assumes "migrate script stamp files s = (r, s')" "\<And>e. r = Inl e \<Longrightarrow> \<exists>x. e = Failed x"
  obtains out where "number_migrations (sort_key migration_name files) [] = Inr out" "fst ` set out = versions files"
    "schema_version s \<le> max_version (map fst out)"
    "apply_pending script stamp (filter (\<lambda>(v, _). v \<notin> recorded s) out) [] s = (r, s')"
    "\<And>(s2 :: 'd store) f. recorded s2 \<subseteq> recorded s \<union> versions files \<Longrightarrow>
       migrate f stamp files s2 = apply_pending f stamp (filter (\<lambda>(v, _). v \<notin> recorded s2) out) [] s2"
proof (cases "number_migrations (sort_key migration_name files) []")
  case (Inl e)
  then have "r = Inl e" using assms(1) by (simp add: migrate_def)
  then obtain x where "e = Failed x" using assms(2) by blast
  moreover have "number_migrations ms acc \<noteq> Inl (Failed x)" for ms acc
    by (induction ms acc rule: number_migrations.induct) (auto split: option.splits)
  ultimately show ?thesis using Inl by blast
next
  case (Inr out)
  note v = numbered_versions[OF Inr]
  have le: "schema_version s \<le> max_version (map fst out)"
    and run: "apply_pending script stamp (filter (\<lambda>(v, _). v \<notin> recorded s) out) [] s = (r, s')"
    using assms by (auto simp: migrate_def Inr Let_def split: if_splits)
  have nonneg: "0 \<le> x" if "x \<in> versions files" for x using that version_nonneg by (auto simp: versions_def)
  have newest: "0 \<le> max_version (map fst out)" "x \<in> versions files \<Longrightarrow> x \<le> max_version (map fst out)" for x
  proof -
    have fin: "finite (versions files)" by (simp flip: v)
    have m: "max_version (map fst out) = (if versions files = {} then 0 else Max (versions files))"
      by (auto simp: max_version_Max v simp flip: v)
    show "0 \<le> max_version (map fst out)" unfolding m using fin nonneg Max_in[OF fin] by auto
    show "x \<in> versions files \<Longrightarrow> x \<le> max_version (map fst out)" unfolding m using fin by auto
  qed
  have ver: "schema_version s2 \<le> max_version (map fst out)" if "recorded s2 \<subseteq> recorded s \<union> versions files" for s2
  proof -
    have "x \<le> max_version (map fst out)" if "x \<in> recorded s" for x
      using that le Max_ge[OF finite_recorded that] by (auto simp: schema_version_recorded split: if_splits)
    then have "x \<le> max_version (map fst out)" if "x \<in> recorded s2" for x using that newest(2) \<open>recorded s2 \<subseteq> _\<close> by blast
    then show ?thesis using newest(1) by (simp add: schema_version_recorded finite_recorded Max_le_iff)
  qed
  have "migrate f stamp files s2 = apply_pending f stamp (filter (\<lambda>(v, _). v \<notin> recorded s2) out) [] s2"
    if "recorded s2 \<subseteq> recorded s \<union> versions files" for s2 f
    using that leD[OF ver[OF that]]
    by (simp add: migrate_def Inr Let_def)
  then show ?thesis using that[OF Inr v le run] by blast
qed

text \<open>A successful migration records every file of the directory once, applies exactly the versions that
  were missing, and running it again changes nothing.\<close>

theorem migrate_applies_what_is_missing:
  fixes s :: "'d store"
  assumes "script_quiet script" "migrate script stamp files s = (Inr vs, s')"
  shows "recorded s' = recorded s \<union> versions files \<and> set vs = versions files - recorded s \<and> distinct vs
    \<and> migrate script stamp files s' = (Inr [], s')"
proof -
  obtain out where v: "fst ` set out = versions files"
    and run: "apply_pending script stamp (filter (\<lambda>(v, _). v \<notin> recorded s) out) [] s = (Inr vs, s')"
    and again: "\<And>(s2 :: 'd store) f. recorded s2 \<subseteq> recorded s \<union> versions files \<Longrightarrow>
       migrate f stamp files s2 = apply_pending f stamp (filter (\<lambda>(v, _). v \<notin> recorded s2) out) [] s2"
    using assms(2) by (rule migrate_shape) auto
  note f = apply_pending_Inr[OF run assms(1)]
  have p: "fst ` set (filter (\<lambda>(v, _). v \<notin> recorded s) out) = versions files - recorded s" using v by force
  have r: "recorded s' = recorded s \<union> versions files" using f p by auto
  have "filter (\<lambda>(v, _). v \<notin> recorded s') out = []" using v r by (force simp: filter_empty_conv)
  then have "migrate script stamp files s' = (Inr [], s')" using again[of s' script] r by simp
  then show ?thesis using f p r by (metis append_Nil set_map)
qed

text \<open>C28: A migration that fails keeps the versions before the failing one, each complete. Once the failing
  script works, running the migration again applies only the rest and ends in the database that an
  uninterrupted run would have made.\<close>

theorem interrupted_migration_resumes:
  fixes s :: "'d store"
  assumes quiet: "script_quiet script" "script_quiet repaired" and repair: "script_le script repaired"
    and failed: "migrate script stamp files s = (Inl (Failed e), s1)"
    and straight: "migrate repaired stamp files s = (Inr vs, s2)"
  shows "\<exists>k < length vs. recorded s1 = recorded s \<union> set (take k vs)
    \<and> migrate repaired stamp files s1 = (Inr (drop k vs), s2)"
proof -
  obtain out where v: "fst ` set out = versions files"
    and run: "apply_pending script stamp (filter (\<lambda>(v, _). v \<notin> recorded s) out) [] s = (Inl (Failed e), s1)"
    and again: "\<And>(s2 :: 'd store) f. recorded s2 \<subseteq> recorded s \<union> versions files \<Longrightarrow>
       migrate f stamp files s2 = apply_pending f stamp (filter (\<lambda>(v, _). v \<notin> recorded s2) out) [] s2"
    using failed by (rule migrate_shape) auto
  let ?P = "filter (\<lambda>(v, _). v \<notin> recorded s) out"
  obtain k where k: "k < length ?P" and first: "apply_pending script stamp (take k ?P) [] s = (Inr (map fst (take k ?P)), s1)"
    using apply_pending_Inl[OF run] by auto
  have whole: "apply_pending repaired stamp ?P [] s = (Inr vs, s2)" using again[of s repaired] straight by simp
  note f = apply_pending_Inr[OF whole quiet(2)]
  have vs: "vs = map fst ?P" using f by simp
  have rec: "recorded s1 = recorded s \<union> set (take k vs)"
    using apply_pending_Inr[OF first quiet(1)] by (simp add: vs take_map)
  have "apply_pending repaired stamp (take k ?P @ drop k ?P) [] s = (Inr vs, s2)" using whole by simp
  then have "apply_pending repaired stamp (drop k ?P) (take k vs) s1 = (Inr vs, s2)"
    using apply_pending_le[OF repair first] by (simp only: apply_pending_append) (simp add: vs take_map)
  then have rest: "apply_pending repaired stamp (drop k ?P) [] s1 = (Inr (drop k vs), s2)"
    using k by (auto dest: apply_pending_tail simp: vs)
  have "filter (\<lambda>(v, _). v \<notin> recorded s1) out = filter (\<lambda>(v, _). v \<notin> set (take k vs)) ?P"
    by (auto simp: rec intro!: filter_cong)
  also have "\<dots> = drop k ?P" unfolding vs using f by (intro filter_not_taken) simp
  finally have left: "filter (\<lambda>(v, _). v \<notin> recorded s1) out = drop k ?P" .
  have "recorded s1 \<subseteq> recorded s \<union> versions files"
    unfolding rec vs using v set_take_subset[of k "map fst ?P"] by force
  then have "migrate repaired stamp files s1 = (Inr (drop k vs), s2)" using again[of s1 repaired] rest left by simp
  then show ?thesis using rec k by (intro exI[of _ k]) (simp add: vs)
qed

section \<open>Witnesses\<close>

definition demo_files :: "migration list" where
  "demo_files = [\<lparr>mg_stem = ''0002_rotation'', mg_text = Inr ''two''\<rparr>, \<lparr>mg_stem = ''0001_init'', mg_text = Inr ''one''\<rparr>]"

definition demo_script :: "string list \<Rightarrow> string list script" where
  "demo_script broken sql s = (if sql \<in> set broken then Inl OperationalError else Inr (s\<lparr>st_data := sql # st_data s\<rparr>))"

definition demo_empty :: "string list store" where
  "demo_empty = \<lparr>st_data = [], st_rows = None\<rparr>"

lemma demo_quiet: "script_quiet (demo_script broken)" "script_le (demo_script broken) (demo_script [])"
  by (auto simp: script_quiet_def script_le_def demo_script_def split: if_splits)

theorem migrate_applies_what_is_missing_witness:
  "migrate (demo_script []) (\<lambda>_. ''now'') demo_files (snd (migrate (demo_script []) (\<lambda>_. ''now'') demo_files demo_empty))
    = (Inr [], snd (migrate (demo_script []) (\<lambda>_. ''now'') demo_files demo_empty))"
proof -
  have "fst (migrate (demo_script []) (\<lambda>_. ''now'') demo_files demo_empty) = Inr [1, 2]" by code_simp
  then have "migrate (demo_script []) (\<lambda>_. ''now'') demo_files demo_empty
      = (Inr [1, 2], snd (migrate (demo_script []) (\<lambda>_. ''now'') demo_files demo_empty))" by (simp add: prod_eq_iff)
  from migrate_applies_what_is_missing[OF demo_quiet(1) this] show ?thesis by blast
qed

theorem interrupted_migration_resumes_witness:
  "let s1 = snd (migrate (demo_script [''two'']) (\<lambda>_. ''now'') demo_files demo_empty) in
   \<exists>k < 2. recorded s1 = set (take k [1, 2])
     \<and> fst (migrate (demo_script []) (\<lambda>_. ''now'') demo_files s1) = Inr (drop k [1, 2])"
proof -
  have f: "fst (migrate (demo_script [''two'']) (\<lambda>_. ''now'') demo_files demo_empty) = Inl (Failed OperationalError)"
    "fst (migrate (demo_script []) (\<lambda>_. ''now'') demo_files demo_empty) = Inr [1, 2]" by code_simp+
  have r: "migrate (demo_script [''two'']) (\<lambda>_. ''now'') demo_files demo_empty
      = (Inl (Failed OperationalError), snd (migrate (demo_script [''two'']) (\<lambda>_. ''now'') demo_files demo_empty))"
    "migrate (demo_script []) (\<lambda>_. ''now'') demo_files demo_empty
      = (Inr [1, 2], snd (migrate (demo_script []) (\<lambda>_. ''now'') demo_files demo_empty))"
    using f by (simp_all add: prod_eq_iff)
  have e: "recorded demo_empty = {}" by (simp add: recorded_def demo_empty_def)
  from interrupted_migration_resumes[OF demo_quiet(1) demo_quiet(1) demo_quiet(2) r] obtain k where "k < length [1, 2 :: int]"
    "recorded (snd (migrate (demo_script [''two'']) (\<lambda>_. ''now'') demo_files demo_empty)) = recorded demo_empty \<union> set (take k [1, 2])"
    "migrate (demo_script []) (\<lambda>_. ''now'') demo_files (snd (migrate (demo_script [''two'']) (\<lambda>_. ''now'') demo_files demo_empty))
      = (Inr (drop k [1, 2]), snd (migrate (demo_script []) (\<lambda>_. ''now'') demo_files demo_empty))" by blast
  then show ?thesis unfolding Let_def e by (intro exI[of _ k]) simp
qed

end
