(* ===== verification/Legacy_State.thy ===== *)
theory Legacy_State
  imports Keys
begin

text \<open>
  Models \<open>layawatch/engine/legacy_state.py\<close>: the one-time import of \<open>api_keys.json\<close>. The JSON parser,
  \<open>str\<close> of a value that is not text and the reading of a local timestamp are arguments; the state
  directory is what the import sees of it.
\<close>

datatype state_file = Missing | Unreadable | Text string

record state_dir =
  sd_file :: state_file
  sd_imported :: bool

record legacy_env =
  le_loads :: "string \<Rightarrow> string + json"
  le_str :: "json \<Rightarrow> string"
  le_mktime :: "string \<Rightarrow> pyfloat option"

section \<open>Rows\<close>

definition legacy_str :: "legacy_env \<Rightarrow> json \<Rightarrow> string" where
  "legacy_str ev v = (case v of JStr s \<Rightarrow> s | _ \<Rightarrow> le_str ev v)"

text \<open>\<open>str(value or "")\<close>\<close>

definition str_or_empty :: "legacy_env \<Rightarrow> json \<Rightarrow> string" where
  "str_or_empty ev v = (if py_truthy v then legacy_str ev v else [])"

definition epoch :: "legacy_env \<Rightarrow> json \<Rightarrow> pyfloat option \<Rightarrow> exn + pyfloat option" where
  "epoch ev v fallback = (case v of
     JNull \<Rightarrow> Inr fallback
   | JBool b \<Rightarrow> Inr (Some (if b then 1 else 0))
   | JInt i \<Rightarrow> if float_overflows i then Inl (PyExc OverflowError) else Inr (Some (of_int i))
   | JFloat q \<Rightarrow> Inr (Some q)
   | _ \<Rightarrow> Inr (case le_mktime ev (legacy_str ev v) of Some t \<Rightarrow> Some t | None \<Rightarrow> fallback))"

text \<open>An entry without an id or a digest is skipped.\<close>

definition key_row :: "legacy_env \<Rightarrow> pyfloat \<Rightarrow> json \<Rightarrow> exn + api_key option" where
  "key_row ev now entry =
     (case entry of
        JObj e \<Rightarrow>
          if \<not> py_truthy (jget e ''sha256'') \<or> \<not> py_truthy (jget e ''id'') then Inr None
          else
            res_bind (epoch ev (jget e ''created'') (Some now)) (\<lambda>created.
            res_bind (epoch ev (jget e ''last_used'') None) (\<lambda>used.
            Inr (Some \<lparr>ak_id = legacy_str ev (jget e ''id''), ak_name = str_or_empty ev (jget e ''name''),
              ak_prefix = take 8 (str_or_empty ev (jget e ''prefix'')), ak_hash = legacy_str ev (jget e ''sha256''),
              ak_created_at = (case created of Some t \<Rightarrow> t | None \<Rightarrow> now), ak_last_used = used,
              ak_revoked_at = None, ak_request_count = 0, ak_rate_limit = None, ak_burst = None,
              ak_prev_hash = None, ak_prev_prefix = None, ak_prev_expires_at = None\<rparr>)))
      | _ \<Rightarrow> Inr None)"

fun key_rows :: "legacy_env \<Rightarrow> pyfloat \<Rightarrow> json list \<Rightarrow> exn + api_key list" where
  "key_rows ev now [] = Inr []"
| "key_rows ev now (e # es) =
     res_bind (key_row ev now e) (\<lambda>r. res_bind (key_rows ev now es) (\<lambda>rs.
       Inr (case r of None \<Rightarrow> rs | Some k \<Rightarrow> k # rs)))"

section \<open>The import\<close>

text \<open>The parsed file: its keys and its switch. Every other shape is a warning.\<close>

definition legacy_data :: "legacy_env \<Rightarrow> string \<Rightarrow> (json list \<times> bool) option" where
  "legacy_data ev text = (case le_loads ev text of
     Inr (JObj d) \<Rightarrow> (case (map_of d ''keys'', map_of d ''enabled'') of
         (Some (JArr keys), Some (JBool b)) \<Rightarrow> Some (keys, b) | _ \<Rightarrow> None)
   | _ \<Rightarrow> None)"

text \<open>\<open>INSERT OR IGNORE\<close>\<close>

definition insert_ignore :: "api_key \<Rightarrow> db \<Rightarrow> db" where
  "insert_ignore k d = (if ak_id k \<in> ak_id ` set (db_keys d) then d else d\<lparr>db_keys := db_keys d @ [k]\<rparr>)"

text \<open>The upsert of the switch keeps \<open>updated_by\<close>.\<close>

definition put_switch :: "bool \<Rightarrow> pyfloat \<Rightarrow> db \<Rightarrow> db" where
  "put_switch b now d = put_setting AUTH_SETTINGS_KEY (if b then ''true'' else ''false'') now
     (case map_of (db_settings d) AUTH_SETTINGS_KEY of None \<Rightarrow> None | Some s \<Rightarrow> st_updated_by s) d"

definition import_once :: "legacy_env \<Rightarrow> pyfloat \<Rightarrow> bool \<Rightarrow> db \<times> state_dir \<Rightarrow> (exn + int) \<times> db \<times> state_dir" where
  "import_once ev now rename_fails ds =
     (let (d, dir) = ds in
      case sd_file dir of
        Text text \<Rightarrow>
          (case legacy_data ev text of
             None \<Rightarrow> (Inr 0, d, dir)
           | Some (keys, enabled) \<Rightarrow>
               (case key_rows ev now keys of
                  Inl e \<Rightarrow> (Inl e, d, dir)
                | Inr rows \<Rightarrow>
                    let filled = fold insert_ignore rows d;
                        imported = int (length (db_keys filled)) - int (length (db_keys d));
                        moved = (if rename_fails then dir else dir\<lparr>sd_file := Missing, sd_imported := True\<rparr>)
                    in (Inr imported, put_switch enabled now filled, moved)))
      | _ \<Rightarrow> (Inr 0, d, dir))"

section \<open>What the import keeps\<close>

lemma insert_ignore_ids: "ak_id ` set (db_keys (insert_ignore k d)) = insert (ak_id k) (ak_id ` set (db_keys d))"
  by (auto simp: insert_ignore_def)

lemma insert_ignore_set: "set (db_keys d) \<subseteq> set (db_keys (insert_ignore k d)) \<and> length (db_keys d) \<le> length (db_keys (insert_ignore k d))"
  by (auto simp: insert_ignore_def)

lemma fold_insert_ids: "ak_id ` set (db_keys (fold insert_ignore ks d)) = ak_id ` set (db_keys d) \<union> ak_id ` set ks"
  by (induction ks arbitrary: d) (auto simp: insert_ignore_ids)

lemma fold_insert_set: "set (db_keys d) \<subseteq> set (db_keys (fold insert_ignore ks d))"
  by (induction ks arbitrary: d) (use insert_ignore_set in fastforce)+

lemma fold_insert_known: "ak_id ` set ks \<subseteq> ak_id ` set (db_keys d) \<Longrightarrow> fold insert_ignore ks d = d"
  by (induction ks arbitrary: d) (auto simp: insert_ignore_def)

lemma fold_insert_first:
  assumes "ak_id k \<notin> ak_id ` set (db_keys d)" "ks = us @ k # vs" "ak_id k \<notin> ak_id ` set us"
  shows "k \<in> set (db_keys (fold insert_ignore ks d))"
proof -
  have "ak_id k \<notin> ak_id ` set (db_keys (fold insert_ignore us d))" using assms fold_insert_ids by auto
  then have "k \<in> set (db_keys (insert_ignore k (fold insert_ignore us d)))" by (simp add: insert_ignore_def)
  then show ?thesis unfolding assms(2) using fold_insert_set by (fastforce simp: fold_append)
qed

lemma auth_armed_put_switch: "auth_armed (put_switch b now d) = b"
  by (simp add: auth_armed_def put_switch_def true_text_def py_strip_def py_lstrip_def py_isspace_def py_lower_def
      py_lower_char_def cp_def)

lemma put_switch_keys [simp]: "db_keys (put_switch b now d) = db_keys d"
  by (simp add: put_switch_def)

lemma key_rows_split:
  assumes "key_rows ev now (us @ e # vs) = Inr rows" "key_row ev now e = Inr (Some k)"
  shows "\<exists>us' vs'. rows = us' @ k # vs' \<and> (\<forall>u \<in> set us'. \<exists>x \<in> set us. key_row ev now x = Inr (Some u))"
  using assms(1)
proof (induction us arbitrary: rows)
  case Nil
  then obtain a where "rows = [] @ k # a" using assms(2) by (auto simp: res_bind_Inr)
  then show ?case by fastforce
next
  case (Cons u us)
  then obtain r rs where r: "key_row ev now u = Inr r" "key_rows ev now (us @ e # vs) = Inr rs"
    "rows = (case r of None \<Rightarrow> rs | Some k \<Rightarrow> k # rs)" by (auto simp: res_bind_Inr)
  from Cons.IH[OF r(2)] obtain us' vs' where i: "rs = us' @ k # vs'" "\<forall>u \<in> set us'. \<exists>x \<in> set us. key_row ev now x = Inr (Some u)"
    by blast
  show ?case
  proof (cases r)
    case None
    then show ?thesis using r i by auto
  next
    case (Some w)
    then show ?thesis using r i by (intro exI[of _ "w # us'"] exI[of _ vs']) auto
  qed
qed

text \<open>An entry as the legacy server wrote it: the digest of the secret and its first twelve characters.\<close>

definition legacy_entry :: "crypto \<Rightarrow> string \<Rightarrow> string \<Rightarrow> json \<Rightarrow> bool" where
  "legacy_entry cr kid secret entry \<longleftrightarrow> (\<exists>e. entry = JObj e \<and> jget e ''id'' = JStr kid
     \<and> jget e ''sha256'' = JStr (legacy_hash cr secret) \<and> jget e ''prefix'' = JStr (take 12 secret))"

lemma legacy_row:
  assumes "legacy_entry cr kid secret entry" "key_row ev now entry = Inr (Some k)" "secret \<noteq> []"
  shows "ak_id k = kid \<and> key_accepts cr t pepper secret k"
proof -
  obtain e where e: "entry = JObj e" "jget e ''id'' = JStr kid" "jget e ''sha256'' = JStr (legacy_hash cr secret)"
    "jget e ''prefix'' = JStr (take 12 secret)"
    using assms(1) by (auto simp: legacy_entry_def)
  have "ak_id k = kid" "ak_hash k = legacy_hash cr secret" "ak_prefix k = take 8 (str_or_empty ev (JStr (take 12 secret)))"
    "ak_revoked_at k = None"
    using assms(2) by (auto simp: key_row_def e legacy_str_def res_bind_Inr split: if_splits)
  then show ?thesis
    using assms(3) by (simp add: key_accepts_def key_candidate_def key_matches_def prefix_of_def str_or_empty_def legacy_str_def)
qed

lemma legacy_row_exists:
  assumes "legacy_entry cr kid secret entry" "kid \<noteq> []" "legacy_hash cr secret \<noteq> []"
    "key_rows ev now (us @ entry # vs) = Inr rows"
  shows "\<exists>k. key_row ev now entry = Inr (Some k)"
proof -
  obtain e where e: "entry = JObj e" "jget e ''id'' = JStr kid" "jget e ''sha256'' = JStr (legacy_hash cr secret)"
    using assms(1) by (auto simp: legacy_entry_def)
  have "\<exists>r. key_row ev now entry = Inr r" using assms(4)
    by (induction us arbitrary: rows) (auto simp: res_bind_Inr)
  then show ?thesis using assms(2,3) by (auto simp: key_row_def e res_bind_Inr)
qed

text \<open>After the import every secret the legacy server accepted opens the engine: its row is in the
  database, \<open>verify_key\<close> accepts the plaintext under any pepper at any time, and the switch is the one
  of the file. No key that was there is lost, and once the file is renamed a second import changes
  nothing.\<close>

theorem imported_secrets_still_verify:
  assumes content: "sd_file dir = Text text" "legacy_data ev text = Some (us @ entry # vs, enabled)"
    and entry: "legacy_entry cr kid secret entry" "kid \<noteq> []" "secret \<noteq> []" "legacy_hash cr secret \<noteq> []"
    and new: "kid \<notin> ak_id ` set (db_keys d)" "\<forall>u \<in> set us. \<forall>k. key_row ev now u = Inr (Some k) \<longrightarrow> ak_id k \<noteq> kid"
    and run: "import_once ev now rename_fails (d, dir) = (Inr n, d', dir')"
  shows "(\<exists>k \<in> set (db_keys d'). ak_id k = kid \<and> key_accepts cr t pepper secret k)
    \<and> (\<forall>c. cn_work c = d' \<longrightarrow> fst (verify_key cr t secret pepper c) \<noteq> Inr None)
    \<and> auth_armed d' = enabled \<and> set (db_keys d) \<subseteq> set (db_keys d') \<and> int (length (db_keys d')) = int (length (db_keys d)) + n
    \<and> (\<not> rename_fails \<longrightarrow> import_once ev later fails (d', dir') = (Inr 0, d', dir'))"
proof -
  obtain rows where rows: "key_rows ev now (us @ entry # vs) = Inr rows" and d': "d' = put_switch enabled now (fold insert_ignore rows d)"
    and n: "n = int (length (db_keys (fold insert_ignore rows d))) - int (length (db_keys d))"
    and dir': "dir' = (if rename_fails then dir else dir\<lparr>sd_file := Missing, sd_imported := True\<rparr>)"
    using run content by (auto simp: import_once_def Let_def split: sum.splits)
  obtain k where k: "key_row ev now entry = Inr (Some k)" using legacy_row_exists[OF entry(1,2,4) rows] by blast
  note row = legacy_row[OF entry(1) k entry(3)]
  obtain us' vs' where split: "rows = us' @ k # vs'" "\<forall>u \<in> set us'. \<exists>x \<in> set us. key_row ev now x = Inr (Some u)"
    using key_rows_split[OF rows k] by blast
  have "ak_id k \<notin> ak_id ` set us'" using split(2) new(2) row by force
  then have "k \<in> set (db_keys d')"
    using fold_insert_first[OF _ split(1)] new(1) row by (simp add: d')
  then have mem: "\<exists>k \<in> set (db_keys d'). ak_id k = kid \<and> key_accepts cr t pepper secret k" using row by blast
  moreover have "fst (verify_key cr t secret pepper c) \<noteq> Inr None" if "cn_work c = d'" for c :: "'z conn_scheme"
  proof
    assume "fst (verify_key cr t secret pepper c) = Inr None"
    then have "find (key_accepts cr t pepper secret) (db_keys d') = None"
      using entry(3) that by (auto simp: verify_key_run split: option.splits)
    then show False using mem by (auto simp: find_None)
  qed
  moreover have "auth_armed d' = enabled" by (simp add: d' auth_armed_put_switch)
  moreover have "set (db_keys d) \<subseteq> set (db_keys d')" using fold_insert_set by (simp add: d')
  moreover have "int (length (db_keys d')) = int (length (db_keys d)) + n" by (simp add: d' n)
  moreover have "\<not> rename_fails \<longrightarrow> import_once ev later fails (d', dir') = (Inr 0, d', dir')"
    by (simp add: dir' import_once_def)
  ultimately show ?thesis by blast
qed

text \<open>When the rename fails, the next start imports again: no key is added, but the switch is set back to
  the file's value, so a deployment that armed key checking meanwhile is disarmed.\<close>

theorem failed_rename_resets_the_switch:
  assumes "sd_file dir = Text text" "legacy_data ev text = Some (keys, enabled)" "key_rows ev now keys = Inr rows"
    "key_rows ev later keys = Inr rows2" "map ak_id rows2 = map ak_id rows"
    and first: "import_once ev now True (d, dir) = (Inr n, d1, dir1)"
    and between: "db_keys d2 = db_keys d1"
  shows "\<exists>d3. import_once ev later fails (d2, dir1) = (Inr 0, d3, snd (snd (import_once ev later fails (d2, dir1))))
    \<and> db_keys d3 = db_keys d1 \<and> auth_armed d3 = enabled"
proof -
  have d1: "db_keys d1 = db_keys (fold insert_ignore rows d)" and dir1: "dir1 = dir"
    using first assms(1-3) by (auto simp: import_once_def Let_def)
  have "ak_id ` set rows2 = ak_id ` set rows" using assms(5) by (metis set_map)
  then have "fold insert_ignore rows2 d2 = d2"
    by (intro fold_insert_known) (simp add: between d1 fold_insert_ids)
  then show ?thesis
    using assms(1,2,4) between by (simp add: import_once_def dir1 Let_def auth_armed_put_switch)
qed

section \<open>Witnesses\<close>

definition demo_entry :: json where
  "demo_entry = JObj [(''id'', JStr ''k1''), (''name'', JStr ''old''), (''prefix'', JStr ''lay_Secret1x''),
     (''sha256'', JStr ''lay_Secret1xyz'')]"

text \<open>A file text is taken as already parsed, and a digest as the secret itself.\<close>

definition demo_env :: legacy_env where
  "demo_env = \<lparr>le_loads = (\<lambda>_. Inr (JObj [(''enabled'', JBool True), (''keys'', JArr [demo_entry])])), le_str = (\<lambda>_. []), le_mktime = (\<lambda>_. None)\<rparr>"

definition demo_crypto :: crypto where
  "demo_crypto = \<lparr>cr_sha256 = (\<lambda>s. s), cr_hmac = (\<lambda>p s. p @ s)\<rparr>"

lemma demo_data: "legacy_data demo_env t = Some ([] @ demo_entry # [], True)"
  by (simp add: legacy_data_def demo_env_def)

lemma demo_is_legacy: "legacy_entry demo_crypto ''k1'' ''lay_Secret1xyz'' demo_entry"
  by (simp add: legacy_entry_def demo_entry_def jget_def demo_crypto_def legacy_hash_def utf8_bytes_def cp_def)

lemma demo_rows:
  "\<exists>k. key_row demo_env now demo_entry = Inr (Some k) \<and> ak_id k = ''k1''"
  by (simp add: key_row_def demo_entry_def jget_def epoch_def legacy_str_def)

theorem imported_secrets_still_verify_witness:
  "\<exists>d' dir'. import_once demo_env 7 False (empty_db, \<lparr>sd_file = Text [], sd_imported = False\<rparr>) = (Inr 1, d', dir')
    \<and> auth_armed d' \<and> (\<exists>k \<in> set (db_keys d'). key_accepts demo_crypto 99 ''pepper'' ''lay_Secret1xyz'' k)"
proof -
  let ?dir = "\<lparr>sd_file = Text [], sd_imported = False\<rparr>"
  obtain k where k: "key_row demo_env 7 demo_entry = Inr (Some k)" "ak_id k = ''k1''" using demo_rows by blast
  obtain d' dir' where r: "import_once demo_env 7 False (empty_db, ?dir) = (Inr 1, d', dir')"
    by (simp add: import_once_def demo_data k insert_ignore_def empty_db_def Let_def)
  have ne: "''k1'' \<noteq> []" "''lay_Secret1xyz'' \<noteq> []" "legacy_hash demo_crypto ''lay_Secret1xyz'' \<noteq> []"
    by (simp_all add: legacy_hash_def demo_crypto_def utf8_bytes_def cp_def)
  have c: "sd_file ?dir = Text []" "''k1'' \<notin> ak_id ` set (db_keys empty_db)" by (simp_all add: empty_db_def)
  from imported_secrets_still_verify[OF c(1) demo_data demo_is_legacy ne c(2) _ r, of 99 "''pepper''"] r show ?thesis by (simp add: c) blast
qed

theorem failed_rename_resets_the_switch_witness:
  "\<exists>d1 dir1 d3. import_once demo_env 7 True (empty_db, \<lparr>sd_file = Text [], sd_imported = False\<rparr>) = (Inr 1, d1, dir1)
    \<and> \<not> auth_armed (put_switch False 8 d1) \<and> fst (snd (import_once demo_env 9 True (put_switch False 8 d1, dir1))) = d3 \<and> auth_armed d3"
proof -
  let ?dir = "\<lparr>sd_file = Text [], sd_imported = False\<rparr>"
  obtain k where k: "key_row demo_env 7 demo_entry = Inr (Some k)" "ak_id k = ''k1''" using demo_rows by blast
  obtain k2 where k2: "key_row demo_env 9 demo_entry = Inr (Some k2)" "ak_id k2 = ''k1''" using demo_rows by blast
  obtain d1 dir1 where r: "import_once demo_env 7 True (empty_db, ?dir) = (Inr 1, d1, dir1)"
    by (simp add: import_once_def demo_data k insert_ignore_def empty_db_def Let_def)
  have rows: "key_rows demo_env 7 [demo_entry] = Inr [k]" "key_rows demo_env 9 [demo_entry] = Inr [k2]" "map ak_id [k2] = map ak_id [k]"
    using k k2 by simp_all
  have c: "sd_file ?dir = Text []" by simp
  have data: "legacy_data demo_env [] = Some ([demo_entry], True)" using demo_data by simp
  from failed_rename_resets_the_switch[OF c data rows r put_switch_keys, of True False 8]
  obtain d3 where "fst (snd (import_once demo_env 9 True (put_switch False 8 d1, dir1))) = d3" "auth_armed d3"
    by (metis fst_conv snd_conv)
  then show ?thesis using r auth_armed_put_switch by blast
qed

end
