(* ===== verification/Stream_Sink.thy ===== *)
theory Stream_Sink
  imports Prelude "HOL-Library.Sublist"
begin

text \<open>
  Models \<open>_Writer\<close> of \<open>layawatch/app.py\<close> and the two threads of a streaming response around it: the
  producer, which runs the stream callable, and the generator on the event loop. The step relation
  has one rule per operation that another thread can come between: the stop test, the put, the
  signal, the poll, the test of \<open>done\<close>, the clearing of the event. A callback of the loop runs only
  while the generator is suspended.
\<close>

definition QUEUE_MAX :: nat where
  "QUEUE_MAX = 64"

section \<open>State\<close>

text \<open>Where the producer is: between two writes, past the stop test of a write, past its put, past
  \<open>done.set()\<close>, finished.\<close>

datatype producer = Idle | Putting | Signalling | Finishing | Gone

text \<open>Where the generator is: in \<open>read\<close> before the poll, after an empty poll, after \<open>done\<close> was not set,
  parked on the event, suspended at a yield, at the end of the stream, cancelled, closing, closed.\<close>

datatype consumer = Polling | Checking | Clearing | Parked | Yielding | AtEof | Cancelled | Closing | Closed

text \<open>\<open>sk_callbacks\<close> counts the scheduled \<open>wake.set\<close>; \<open>sk_todo\<close> is what the callable still has to write.
  \<open>sk_written\<close> and \<open>sk_yielded\<close> record what the queue took and what the client got.\<close>

record sink =
  sk_queue :: "string list"
  sk_stop :: bool
  sk_done :: bool
  sk_wake :: bool
  sk_callbacks :: nat
  sk_producer :: producer
  sk_consumer :: consumer
  sk_todo :: "string list"
  sk_written :: "string list"
  sk_yielded :: "string list"

definition new_sink :: "string list \<Rightarrow> sink" where
  "new_sink chunks = \<lparr>sk_queue = [], sk_stop = False, sk_done = False, sk_wake = False, sk_callbacks = 0,
     sk_producer = Idle, sk_consumer = Polling, sk_todo = chunks, sk_written = [], sk_yielded = []\<rparr>"

section \<open>Steps\<close>

inductive sink_step :: "sink \<Rightarrow> sink \<Rightarrow> bool" where
  check_stop: "sk_producer s = Idle \<Longrightarrow> sk_todo s \<noteq> [] \<Longrightarrow> \<not> sk_stop s \<Longrightarrow> sink_step s (s\<lparr>sk_producer := Putting\<rparr>)"
| broken_pipe: "sk_producer s = Idle \<Longrightarrow> sk_todo s \<noteq> [] \<Longrightarrow> sk_stop s \<Longrightarrow> sink_step s (s\<lparr>sk_todo := []\<rparr>)"
| callable_fails: "sk_producer s = Idle \<Longrightarrow> sink_step s (s\<lparr>sk_todo := []\<rparr>)"
| put: "sk_producer s = Putting \<Longrightarrow> sk_todo s = c # cs \<Longrightarrow> length (sk_queue s) < QUEUE_MAX \<Longrightarrow>
    sink_step s (s\<lparr>sk_queue := sk_queue s @ [c], sk_todo := cs, sk_written := sk_written s @ [c], sk_producer := Signalling\<rparr>)"
| put_times_out: "sk_producer s = Putting \<Longrightarrow> QUEUE_MAX \<le> length (sk_queue s) \<Longrightarrow> sink_step s (s\<lparr>sk_producer := Idle\<rparr>)"
| signal: "sk_producer s = Signalling \<Longrightarrow> sink_step s (s\<lparr>sk_callbacks := Suc (sk_callbacks s), sk_producer := Idle\<rparr>)"
| finish: "sk_producer s = Idle \<Longrightarrow> sk_todo s = [] \<Longrightarrow> sink_step s (s\<lparr>sk_done := True, sk_producer := Finishing\<rparr>)"
| last_signal: "sk_producer s = Finishing \<Longrightarrow> sink_step s (s\<lparr>sk_callbacks := Suc (sk_callbacks s), sk_producer := Gone\<rparr>)"
| callback: "sk_callbacks s = Suc n \<Longrightarrow> sk_consumer s \<notin> {Polling, Checking, Clearing} \<Longrightarrow>
    sink_step s (s\<lparr>sk_callbacks := n, sk_wake := True\<rparr>)"
| poll: "sk_consumer s = Polling \<Longrightarrow> sk_queue s = c # q \<Longrightarrow>
    sink_step s (s\<lparr>sk_queue := q, sk_yielded := sk_yielded s @ [c], sk_consumer := Yielding\<rparr>)"
| poll_empty: "sk_consumer s = Polling \<Longrightarrow> sk_queue s = [] \<Longrightarrow> sink_step s (s\<lparr>sk_consumer := Checking\<rparr>)"
| eof: "sk_consumer s = Checking \<Longrightarrow> sk_done s \<Longrightarrow> sink_step s (s\<lparr>sk_consumer := AtEof\<rparr>)"
| not_done: "sk_consumer s = Checking \<Longrightarrow> \<not> sk_done s \<Longrightarrow> sink_step s (s\<lparr>sk_consumer := Clearing\<rparr>)"
| clear_wake: "sk_consumer s = Clearing \<Longrightarrow> sink_step s (s\<lparr>sk_wake := False, sk_consumer := Parked\<rparr>)"
| wakes: "sk_consumer s = Parked \<Longrightarrow> sk_wake s \<Longrightarrow> sink_step s (s\<lparr>sk_consumer := Polling\<rparr>)"
| resume: "sk_consumer s = Yielding \<Longrightarrow> sink_step s (s\<lparr>sk_consumer := Polling\<rparr>)"
| cancel: "sk_consumer s \<in> {Parked, Yielding} \<Longrightarrow> sink_step s (s\<lparr>sk_consumer := Cancelled\<rparr>)"
| close: "sk_consumer s \<in> {AtEof, Cancelled} \<Longrightarrow> sink_step s (s\<lparr>sk_stop := True, sk_consumer := Closing\<rparr>)"
| drain: "sk_consumer s = Closing \<Longrightarrow> sk_queue s = c # q \<Longrightarrow> sink_step s (s\<lparr>sk_queue := q\<rparr>)"
| drained: "sk_consumer s = Closing \<Longrightarrow> sk_queue s = [] \<Longrightarrow> sink_step s (s\<lparr>sk_consumer := Closed\<rparr>)"

code_pred (modes: i \<Rightarrow> o \<Rightarrow> bool) sink_step .

abbreviation sink_steps :: "sink \<Rightarrow> sink \<Rightarrow> bool" where
  "sink_steps \<equiv> rtranclp sink_step"

text \<open>A run without a cancellation and without an exception of the callable.\<close>

definition quiet_step :: "sink \<Rightarrow> sink \<Rightarrow> bool" where
  "quiet_step s t \<longleftrightarrow> sink_step s t \<and> sk_consumer t \<noteq> Cancelled \<and> (sk_todo t = sk_todo s \<or> sk_written t \<noteq> sk_written s)"

section \<open>Invariants\<close>

text \<open>A signal is on its way to the generator.\<close>

definition signal_pending :: "sink \<Rightarrow> bool" where
  "signal_pending s \<longleftrightarrow> 0 < sk_callbacks s \<or> sk_producer s \<in> {Signalling, Finishing}"

definition data_inv :: "string list \<Rightarrow> sink \<Rightarrow> bool" where
  "data_inv chunks s \<longleftrightarrow>
     length (sk_queue s) \<le> QUEUE_MAX
   \<and> (\<exists>rest. chunks = sk_written s @ rest \<and> (sk_todo s = [] \<or> sk_todo s = rest))
   \<and> (\<exists>lost. sk_written s = sk_yielded s @ lost \<and> (sk_consumer s \<in> {Closing, Closed} \<or> lost = sk_queue s))"

definition signal_inv :: "sink \<Rightarrow> bool" where
  "signal_inv s \<longleftrightarrow>
     (sk_consumer s = Checking \<longrightarrow> sk_queue s \<noteq> [] \<longrightarrow> signal_pending s)
   \<and> (sk_consumer s = Clearing \<longrightarrow> sk_queue s \<noteq> [] \<or> sk_done s \<longrightarrow> signal_pending s)
   \<and> (sk_consumer s = Parked \<longrightarrow> \<not> sk_wake s \<longrightarrow> sk_queue s \<noteq> [] \<or> sk_done s \<longrightarrow> signal_pending s)"

lemma new_sink_inv: "data_inv chunks (new_sink chunks)" "signal_inv (new_sink chunks)"
  by (simp_all add: data_inv_def signal_inv_def new_sink_def)

lemma data_inv_step: "sink_step s t \<Longrightarrow> data_inv chunks s \<Longrightarrow> data_inv chunks t"
  by (induction rule: sink_step.induct) (simp_all add: data_inv_def, auto)

lemma signal_inv_step: "sink_step s t \<Longrightarrow> signal_inv s \<Longrightarrow> signal_inv t"
  by (induction rule: sink_step.induct) (simp_all add: signal_inv_def signal_pending_def)

lemma sink_steps_inv:
  assumes "sink_steps (new_sink chunks) s"
  shows "data_inv chunks s \<and> signal_inv s"
  using assms by (induction rule: rtranclp_induct) (simp_all add: new_sink_inv data_inv_step signal_inv_step)

text \<open>C30: The client receives a prefix of what the stream callable writes, in order and without a
  duplicate, through a queue of at most 64 chunks, whatever the interleaving of the two threads.\<close>

theorem stream_delivers_in_order:
  assumes "sink_steps (new_sink chunks) s"
  shows "prefix (sk_yielded s) chunks \<and> length (sk_queue s) \<le> 64
    \<and> (sk_consumer s \<notin> {Closing, Closed} \<longrightarrow> prefix (sk_yielded s @ sk_queue s) chunks)"
  using sink_steps_inv[OF assms] by (auto simp: data_inv_def QUEUE_MAX_def)

text \<open>No wake-up is lost: a generator parked on the event while a chunk is queued, or while the stream
  is over, can always get back to its poll by signals that are already on their way, with the queue
  untouched.\<close>

theorem parked_generator_is_woken:
  assumes "sink_steps (new_sink chunks) s" "sk_consumer s = Parked" "sk_queue s \<noteq> [] \<or> sk_done s"
  shows "\<exists>t. sink_steps s t \<and> sk_consumer t = Polling \<and> sk_queue t = sk_queue s \<and> sk_todo t = sk_todo s"
proof -
  have inv: "signal_inv s" using sink_steps_inv[OF assms(1)] by blast
  have awake: "\<exists>t. sink_steps u t \<and> sk_consumer t = Polling \<and> sk_queue t = sk_queue u \<and> sk_todo t = sk_todo u"
    if "sk_consumer u = Parked" "sk_wake u" for u
    using sink_step.wakes[OF that] by (intro exI[of _ "u\<lparr>sk_consumer := Polling\<rparr>"]) auto
  have called: "\<exists>t. sink_steps u t \<and> sk_consumer t = Polling \<and> sk_queue t = sk_queue u \<and> sk_todo t = sk_todo u"
    if u: "sk_consumer u = Parked" "0 < sk_callbacks u" for u
  proof -
    obtain n where n: "sk_callbacks u = Suc n" using u(2) by (cases "sk_callbacks u") auto
    have "sink_step u (u\<lparr>sk_callbacks := n, sk_wake := True\<rparr>)" by (rule sink_step.callback[OF n]) (simp add: u)
    with awake[of "u\<lparr>sk_callbacks := n, sk_wake := True\<rparr>"] u show ?thesis by (auto intro: converse_rtranclp_into_rtranclp)
  qed
  show ?thesis
  proof (cases "sk_wake s \<or> 0 < sk_callbacks s")
    case True
    then show ?thesis using awake called assms(2) by blast
  next
    case False
    then have "sk_producer s \<in> {Signalling, Finishing}"
      using inv assms(2,3) by (auto simp: signal_inv_def signal_pending_def)
    then obtain p where "sink_step s (s\<lparr>sk_callbacks := Suc (sk_callbacks s), sk_producer := p\<rparr>)"
      using sink_step.signal sink_step.last_signal by blast
    with called[of "s\<lparr>sk_callbacks := Suc (sk_callbacks s), sk_producer := p\<rparr>"] assms(2) show ?thesis
      by (auto intro: converse_rtranclp_into_rtranclp)
  qed
qed

text \<open>A chunk that is put between the empty poll and the test of \<open>done\<close> is lost when the stream also
  finishes there: the generator ends the response with the chunk still queued, although the client
  stayed connected and nothing failed.\<close>

theorem last_chunk_can_be_lost:
  "\<exists>s. rtranclp quiet_step (new_sink [c]) s \<and> sk_consumer s = AtEof \<and> sk_written s = [c] \<and> sk_yielded s = [] \<and> sk_queue s = [c]"
proof -
  let ?s0 = "new_sink [c]"
  let ?s1 = "?s0\<lparr>sk_consumer := Checking\<rparr>"
  let ?s2 = "?s1\<lparr>sk_producer := Putting\<rparr>"
  let ?s3 = "?s2\<lparr>sk_queue := [c], sk_todo := [], sk_written := [c], sk_producer := Signalling\<rparr>"
  let ?s4 = "?s3\<lparr>sk_callbacks := 1, sk_producer := Idle\<rparr>"
  let ?s5 = "?s4\<lparr>sk_done := True, sk_producer := Finishing\<rparr>"
  let ?s6 = "?s5\<lparr>sk_consumer := AtEof\<rparr>"
  note st = new_sink_def QUEUE_MAX_def
  have "quiet_step ?s0 ?s1" unfolding quiet_step_def using sink_step.poll_empty[of ?s0] by (simp add: st)
  moreover have "quiet_step ?s1 ?s2" unfolding quiet_step_def using sink_step.check_stop[of ?s1] by (simp add: st)
  moreover have "quiet_step ?s2 ?s3" unfolding quiet_step_def using sink_step.put[of ?s2 c "[]"] by (simp add: st)
  moreover have "quiet_step ?s3 ?s4" unfolding quiet_step_def using sink_step.signal[of ?s3] by (simp add: st)
  moreover have "quiet_step ?s4 ?s5" unfolding quiet_step_def using sink_step.finish[of ?s4] by (simp add: st)
  moreover have "quiet_step ?s5 ?s6" unfolding quiet_step_def using sink_step.eof[of ?s5] by (simp add: st)
  ultimately have "rtranclp quiet_step ?s0 ?s6" by (meson converse_rtranclp_into_rtranclp rtranclp.rtrancl_refl)
  then show ?thesis by (intro exI[of _ ?s6]) (simp add: st)
qed

section \<open>Witnesses\<close>

lemma demo_parked:
  "\<exists>s. sink_steps (new_sink [''a'']) s \<and> sk_consumer s = Parked \<and> sk_queue s = [''a'']"
proof -
  let ?s0 = "new_sink [''a'']"
  let ?s1 = "?s0\<lparr>sk_consumer := Checking\<rparr>"
  let ?s2 = "?s1\<lparr>sk_consumer := Clearing\<rparr>"
  let ?s3 = "?s2\<lparr>sk_producer := Putting\<rparr>"
  let ?s4 = "?s3\<lparr>sk_queue := [''a''], sk_todo := [], sk_written := [''a''], sk_producer := Signalling\<rparr>"
  let ?s5 = "?s4\<lparr>sk_wake := False, sk_consumer := Parked\<rparr>"
  note st = new_sink_def QUEUE_MAX_def
  have "sink_step ?s0 ?s1" using sink_step.poll_empty[of ?s0] by (simp add: st)
  moreover have "sink_step ?s1 ?s2" using sink_step.not_done[of ?s1] by (simp add: st)
  moreover have "sink_step ?s2 ?s3" using sink_step.check_stop[of ?s2] by (simp add: st)
  moreover have "sink_step ?s3 ?s4" using sink_step.put[of ?s3 "''a''" "[]"] by (simp add: st)
  moreover have "sink_step ?s4 ?s5" using sink_step.clear_wake[of ?s4] by (simp add: st)
  ultimately have "sink_steps ?s0 ?s5" by (meson converse_rtranclp_into_rtranclp rtranclp.rtrancl_refl)
  then show ?thesis by (intro exI[of _ ?s5]) (simp add: st)
qed

theorem stream_delivers_in_order_witness:
  "\<exists>s. sink_steps (new_sink [''a'']) s \<and> prefix (sk_yielded s @ sk_queue s) [''a''] \<and> sk_queue s = [''a'']"
proof -
  obtain s where s: "sink_steps (new_sink [''a'']) s" "sk_consumer s = Parked" "sk_queue s = [''a'']" using demo_parked by blast
  have "prefix (sk_yielded s @ sk_queue s) [''a'']" using stream_delivers_in_order[OF s(1)] s(2) by simp
  then show ?thesis using s by blast
qed

theorem parked_generator_is_woken_witness:
  "\<exists>s t. sink_steps (new_sink [''a'']) s \<and> sk_consumer s = Parked \<and> sink_steps s t \<and> sk_consumer t = Polling \<and> sk_queue t = [''a'']"
proof -
  obtain s where s: "sink_steps (new_sink [''a'']) s" "sk_consumer s = Parked" "sk_queue s = [''a'']" using demo_parked by blast
  then have "sk_queue s \<noteq> [] \<or> sk_done s" by simp
  from parked_generator_is_woken[OF s(1,2) this] s show ?thesis by metis
qed

end
