(* ===== verification/Http_App.thy ===== *)
theory Http_App
  imports Http_Types
begin

text \<open>
  Models the bridge of \<open>layawatch/app.py\<close> between the ASGI server and the dispatch of the
  application, and \<open>Request.build\<close> of \<open>layawatch/http/types.py\<close>: request id, framing guards, bounded
  body read, URL and query parsing, the gzip decision with its memo, rendering, and the hook that fires
  after the answer is written. Percent-decoding, the check of a network location, gzip and the fresh
  request id are fields of \<open>bridge\<close>; the application is a program given as an argument. A disconnect
  of the client is a message without a body.
\<close>

section \<open>What the server hands over\<close>

record asgi =
  as_method :: string
  as_raw_path :: string
  as_path :: string
  as_query :: string
  as_headers :: "(string \<times> string) list"
  as_client :: "string option"
  as_messages :: "(string \<times> bool) list"

record bridge =
  br_cap :: int
  br_token :: string
  br_unquote :: "string \<Rightarrow> string"
  br_netloc_ok :: "string \<Rightarrow> bool"
  br_gzip :: "string \<Rightarrow> string"
  br_render :: "pyfloat \<Rightarrow> string"

text \<open>The bytes of the request: the messages up to the one that announces no more.\<close>

fun request_bytes :: "(string \<times> bool) list \<Rightarrow> string" where
  "request_bytes [] = []"
| "request_bytes ((chunk, go) # ms) = (if go then chunk @ request_bytes ms else chunk)"

section \<open>Request id and framing\<close>

definition REQUEST_HEX :: string where
  "REQUEST_HEX = ''0123456789abcdef''"

definition request_id_ok :: "string \<Rightarrow> bool" where
  "request_id_ok s \<longleftrightarrow> length s = 8 \<and> set s \<subseteq> set REQUEST_HEX"

definition asgi_header :: "asgi \<Rightarrow> string \<Rightarrow> string option" where
  "asgi_header a name = map_of (as_headers a) name"

definition inbound_id :: "bridge \<Rightarrow> asgi \<Rightarrow> string" where
  "inbound_id b a = (let rid = (case asgi_header a ''x-request-id'' of None \<Rightarrow> [] | Some v \<Rightarrow> v) in
     if request_id_ok rid then rid else br_token b)"

definition BODY_REQUIRED :: "string list" where
  "BODY_REQUIRED = [''POST'', ''PUT'', ''PATCH'']"

text \<open>\<open>int(text)\<close>: the interpreter refuses more than 4300 digits.\<close>

definition header_int :: "string \<Rightarrow> int option" where
  "header_int s = (if 4300 < length (filter py_digit s) then None else py_int s)"

definition too_large :: "bridge \<Rightarrow> http_error" where
  "too_large b = \<lparr>he_status = 413, he_code = ''payload_too_large'',
     he_message = ''request body exceeds '' @ str_int (br_cap b) @ '' bytes'', he_details = None\<rparr>"

definition framing :: "bridge \<Rightarrow> asgi \<Rightarrow> http_error + int option" where
  "framing b a = (case asgi_header a ''content-length'' of
     Some cl \<Rightarrow> (case header_int cl of
         None \<Rightarrow> Inl \<lparr>he_status = 400, he_code = ''invalid_content_length'', he_message = ''invalid Content-Length'', he_details = None\<rparr>
       | Some n \<Rightarrow> if br_cap b < n then Inl (too_large b) else Inr (Some n))
   | None \<Rightarrow> if as_method a \<in> set BODY_REQUIRED \<and> asgi_header a ''transfer-encoding'' = None
       then Inl \<lparr>he_status = 411, he_code = ''length_required'', he_message = ''Content-Length header is required'', he_details = None\<rparr>
       else Inr None)"

section \<open>The body\<close>

text \<open>\<open>chunk[:n]\<close>: a negative bound counts from the end.\<close>

definition slice_to :: "int \<Rightarrow> string \<Rightarrow> string" where
  "slice_to n s = (if n < 0 then take (length s - nat (- n)) s else take (nat n) s)"

definition receive :: "(string \<times> bool) list \<Rightarrow> (string \<times> bool) \<times> (string \<times> bool) list" where
  "receive ms = (case ms of [] \<Rightarrow> (([], False), []) | m # rest \<Rightarrow> (m, rest))"

text \<open>The two loops; \<open>go\<close> is the flag of the last message, and what was not received is returned.\<close>

fun pull_owed :: "int \<Rightarrow> string \<Rightarrow> bool \<Rightarrow> (string \<times> bool) list \<Rightarrow> string \<times> (string \<times> bool) list" where
  "pull_owed declared acc go [] = (acc, [])"
| "pull_owed declared acc go ((chunk, m) # ms) =
     (if go \<and> int (length acc) < declared then pull_owed declared (acc @ chunk) m ms else (acc, (chunk, m) # ms))"

fun pull_capped :: "int \<Rightarrow> string \<Rightarrow> bool \<Rightarrow> (string \<times> bool) list \<Rightarrow> string \<times> (string \<times> bool) list" where
  "pull_capped cap acc go [] = (acc, [])"
| "pull_capped cap acc go ((chunk, m) # ms) =
     (if int (length acc) \<le> cap \<and> go then pull_capped cap (acc @ chunk) m ms else (acc, (chunk, m) # ms))"

definition read_body :: "bridge \<Rightarrow> int option \<Rightarrow> (string \<times> bool) list \<Rightarrow> (http_error + string) \<times> (string \<times> bool) list" where
  "read_body b declared ms =
     (let ((chunk, go), rest) = receive ms in
      case declared of
        Some n \<Rightarrow> if n \<le> int (length chunk) then (Inr (slice_to n chunk), rest)
                  else (let (body, left) = pull_owed n chunk go rest in (Inr body, left))
      | None \<Rightarrow> (let (body, left) = pull_capped (br_cap b) chunk go rest in
                  (if br_cap b < int (length body) then Inl (too_large b) else Inr body, left)))"

section \<open>URL and query\<close>

definition url_clean :: "string \<Rightarrow> string" where
  "url_clean s = filter (\<lambda>c. cp c \<notin> {9, 10, 13}) (dropWhile (\<lambda>c. cp c \<le> 32) s)"

definition ascii_alpha :: "char \<Rightarrow> bool" where
  "ascii_alpha c \<longleftrightarrow> 65 \<le> cp c \<and> cp c \<le> 90 \<or> 97 \<le> cp c \<and> cp c \<le> 122"

definition without_scheme :: "string \<Rightarrow> string" where
  "without_scheme url = (let (h, found, t) = py_partition (CHR '':'') url in
     if found \<and> h \<noteq> [] \<and> ascii_alpha (hd h) \<and> list_all (\<lambda>c. ascii_alpha c \<or> py_digit c \<or> c \<in> set ''+-.'') h then t else url)"

definition split_netloc :: "string \<Rightarrow> string option \<times> string" where
  "split_netloc url = (if py_startswith url ''//''
     then (Some (takeWhile (\<lambda>c. c \<notin> set ''/?#'') (drop 2 url)), dropWhile (\<lambda>c. c \<notin> set ''/?#'') (drop 2 url))
     else (None, url))"

text \<open>\<open>urlsplit\<close>: path and query.\<close>

definition urlsplit :: "bridge \<Rightarrow> string \<Rightarrow> pyexc + (string \<times> string)" where
  "urlsplit b target =
     (let (netloc, url) = split_netloc (without_scheme (url_clean target)) in
      if (case netloc of None \<Rightarrow> True | Some n \<Rightarrow> (CHR ''['' \<in> set n) = (CHR '']'' \<in> set n) \<and> br_netloc_ok b n)
      then (let (path, _, query) = py_partition (CHR ''?'') (fst (py_partition (CHR ''#'') url)) in Inr (path, query))
      else Inl ValueError)"

definition plus_to_space :: "string \<Rightarrow> string" where
  "plus_to_space s = map (\<lambda>c. if c = CHR ''+'' then CHR '' '' else c) s"

definition query_pairs :: "(string \<Rightarrow> string) \<Rightarrow> string \<Rightarrow> (string \<times> string) list" where
  "query_pairs unq qs = map (\<lambda>nv. let (n, _, v) = py_partition (CHR ''='') nv in (unq (plus_to_space n), unq (plus_to_space v)))
     (filter (\<lambda>nv. nv \<noteq> []) (py_split (CHR ''&'') qs))"

definition add_value :: "string \<times> string \<Rightarrow> (string \<times> string list) list \<Rightarrow> (string \<times> string list) list" where
  "add_value kv d = dict_set (fst kv) ((case map_of d (fst kv) of None \<Rightarrow> [] | Some vs \<Rightarrow> vs) @ [snd kv]) d"

definition parse_query :: "(string \<Rightarrow> string) \<Rightarrow> string \<Rightarrow> (string \<times> string list) list" where
  "parse_query unq qs = fold add_value (query_pairs unq qs) []"

definition add_header :: "string \<times> string \<Rightarrow> (string \<times> string) list \<Rightarrow> (string \<times> string) list" where
  "add_header kv d = dict_set (py_lower (fst kv)) (snd kv) d"

definition build_request :: "bridge \<Rightarrow> asgi \<Rightarrow> string \<Rightarrow> string \<Rightarrow> pyexc + request" where
  "build_request b a rid body =
     (let raw = (if as_raw_path a \<noteq> [] then as_raw_path a else utf8_bytes (as_path a));
          target = (if as_query a = [] then raw else raw @ ''?'' @ as_query a) in
      res_bind (urlsplit b target) (\<lambda>(path, query).
        Inr \<lparr>rq_method = py_upper_ascii (as_method a), rq_path = (if path = [] then ''/'' else path),
             rq_query = parse_query (br_unquote b) query,
             rq_headers = fold add_header (as_headers a) [],
             rq_body = body, rq_id = rid, rq_client_ip = (case as_client a of None \<Rightarrow> [] | Some ip \<Rightarrow> ip)\<rparr>))"

section \<open>Rendering\<close>

type_synonym gzip_memo = "(string \<times> bool) list"

definition GZIP_MIN :: nat where "GZIP_MIN = 1024"

definition GZIP_ACCEPT_MAX :: nat where "GZIP_ACCEPT_MAX = 64"

definition gzip_acceptable :: "string \<Rightarrow> gzip_memo \<Rightarrow> bool \<times> gzip_memo" where
  "gzip_acceptable accept memo = (case map_of memo accept of
     Some d \<Rightarrow> (d, memo)
   | None \<Rightarrow> (let memo' = (if GZIP_ACCEPT_MAX \<le> length memo then [] else memo); d = py_contains accept ''gzip'' in
       (d, dict_set accept d memo')))"

definition gzipped :: "bridge \<Rightarrow> (string \<times> string) list \<Rightarrow> string \<Rightarrow> string \<Rightarrow> int \<Rightarrow> gzip_memo
    \<Rightarrow> (string \<times> (string \<times> string) list) option \<times> gzip_memo" where
  "gzipped b headers body accept status memo =
     (if status \<in> {204, 304} \<or> length body \<le> GZIP_MIN then (None, memo)
      else let (ok, memo') = gzip_acceptable accept memo in
        if \<not> ok then (None, memo')
        else if \<not> py_startswith (case map_of headers ''Content-Type'' of None \<Rightarrow> [] | Some v \<Rightarrow> v) ''application/json'' then (None, memo')
        else if (case map_of headers ''Content-Encoding'' of None \<Rightarrow> False | Some v \<Rightarrow> v \<noteq> []) then (None, memo')
        else (Some (br_gzip b body,
               dict_set ''Content-Length'' (str_int (int (length (br_gzip b body))))
                 (dict_set ''Vary'' ''Accept-Encoding'' (dict_set ''Content-Encoding'' ''gzip'' headers))), memo'))"

record raw =
  rw_status :: int
  rw_headers :: "(string \<times> string) list"
  rw_body :: string

definition with_request_id :: "(string \<times> string) list \<Rightarrow> string \<Rightarrow> (string \<times> string) list" where
  "with_request_id headers rid =
     (if list_ex (\<lambda>(k, v). py_lower k = ''x-request-id'') headers then headers else dict_set ''X-Request-Id'' rid headers)"

definition render :: "bridge \<Rightarrow> response \<Rightarrow> string \<Rightarrow> string \<Rightarrow> gzip_memo \<Rightarrow> raw \<times> gzip_memo" where
  "render b resp rid accept memo =
     (let headers = with_request_id (rs_headers resp) rid; body = body_bytes (br_render b) (rs_body resp) in
      if rs_status resp \<in> {204, 304}
      then (\<lparr>rw_status = rs_status resp, rw_headers = dict_del ''Content-Length'' headers, rw_body = body\<rparr>, memo)
      else if accept = [] then (\<lparr>rw_status = rs_status resp, rw_headers = headers, rw_body = body\<rparr>, memo)
      else (case gzipped b headers body accept (rs_status resp) memo of
          (Some (packed, out), memo') \<Rightarrow> (\<lparr>rw_status = rs_status resp, rw_headers = out, rw_body = packed\<rparr>, memo')
        | (None, memo') \<Rightarrow> (\<lparr>rw_status = rs_status resp, rw_headers = headers, rw_body = body\<rparr>, memo')))"

definition envelope :: "bridge \<Rightarrow> http_error \<Rightarrow> string \<Rightarrow> raw" where
  "envelope b err rid = fst (render b (error_response err rid) rid [] [])"

section \<open>One request\<close>

record 's server =
  sv_memo :: gzip_memo
  sv_app :: 's

text \<open>A framed answer, or the head of a stream whose producer calls the hook at its end.\<close>

datatype 'h reply = Framed raw | Streaming int "(string \<times> string) list" 'h

type_synonym ('s, 'h) application = "request \<Rightarrow> (exn, 's, response \<times> 'h) act"

definition stream_head :: "response \<Rightarrow> string \<Rightarrow> 'h \<Rightarrow> 'h reply" where
  "stream_head resp rid h = Streaming (rs_status resp) (dict_del ''Content-Length'' (with_request_id (rs_headers resp) rid)) h"

text \<open>The hook runs after the body is written; what it raises is logged only.\<close>

definition serve :: "bridge \<Rightarrow> ('s, 'h) application \<Rightarrow> ('h \<Rightarrow> (exn, 's, unit) act) \<Rightarrow> asgi \<Rightarrow> (exn, 's server, 'h reply) act" where
  "serve b app hook a sv =
     (let rid = inbound_id b a in
      case framing b a of
        Inl err \<Rightarrow> (Inr (Framed (envelope b err rid)), sv)
      | Inr declared \<Rightarrow> (case fst (read_body b declared (as_messages a)) of
          Inl err \<Rightarrow> (Inr (Framed (envelope b err rid)), sv)
        | Inr body \<Rightarrow> (case build_request b a rid body of
            Inl x \<Rightarrow> (Inl (PyExc x), sv)
          | Inr rq \<Rightarrow> (case app rq (sv_app sv) of
              (Inl e, s) \<Rightarrow> (Inl e, sv\<lparr>sv_app := s\<rparr>)
            | (Inr (resp, h), s) \<Rightarrow>
                if rs_stream resp then (Inr (stream_head resp rid h), sv\<lparr>sv_app := s\<rparr>)
                else (let (out, memo) = render b resp rid (case asgi_header a ''accept-encoding'' of None \<Rightarrow> [] | Some v \<Rightarrow> v) (sv_memo sv) in
                  (Inr (Framed out), \<lparr>sv_memo = memo, sv_app = snd (hook h s)\<rparr>))))))"

section \<open>The body is the body of the request\<close>

lemma pull_owed_all:
  "declared = int (length (acc @ (if go then request_bytes ms else [])))
    \<Longrightarrow> fst (pull_owed declared acc go ms) = acc @ (if go then request_bytes ms else [])"
  by (induction declared acc go ms rule: pull_owed.induct) (auto split: if_splits)

lemma pull_capped_all:
  "int (length (acc @ (if go then request_bytes ms else []))) \<le> cap
    \<Longrightarrow> fst (pull_capped cap acc go ms) = acc @ (if go then request_bytes ms else [])"
  by (induction cap acc go ms rule: pull_capped.induct) (auto split: if_splits)

lemma pull_capped_over:
  "cap < int (length (acc @ (if go then request_bytes ms else []))) \<Longrightarrow> cap < int (length (fst (pull_capped cap acc go ms)))"
  by (induction cap acc go ms rule: pull_capped.induct) (auto split: if_splits)

text \<open>What a loop received: its last message was asked for below the bound.\<close>

definition received :: "int \<Rightarrow> string \<Rightarrow> (string \<times> bool) list \<Rightarrow> (string \<times> bool) list \<Rightarrow> bool" where
  "received bound acc ms rest \<longleftrightarrow> (\<exists>taken. ms = taken @ rest
     \<and> (taken \<noteq> [] \<longrightarrow> int (length (acc @ concat (map fst (butlast taken)))) \<le> bound))"

lemma received_Cons:
  assumes "received bound (acc @ fst m) ms rest" "int (length acc) \<le> bound"
  shows "received bound acc (m # ms) rest"
proof -
  obtain taken where t: "ms = taken @ rest" "taken \<noteq> [] \<longrightarrow> int (length ((acc @ fst m) @ concat (map fst (butlast taken)))) \<le> bound"
    using assms(1) by (auto simp: received_def)
  show ?thesis unfolding received_def
    by (rule exI[of _ "m # taken"]) (use t assms(2) in auto)
qed

lemma received_none: "received bound acc ms ms"
  by (simp add: received_def)

lemma pull_owed_received: "declared \<le> bound \<Longrightarrow> received bound acc ms (snd (pull_owed declared acc go ms))"
  by (induction declared acc go ms rule: pull_owed.induct) (auto simp: received_none intro: received_Cons)

lemma pull_capped_received: "received cap acc ms (snd (pull_capped cap acc go ms))"
  by (induction cap acc go ms rule: pull_capped.induct) (auto simp: received_none intro: received_Cons)

lemma slice_to_all: "n = int (length s) \<Longrightarrow> slice_to n s = s"
  by (simp add: slice_to_def)

lemma read_body_Nil: "read_body b (Some n) [] = (Inr (if n \<le> 0 then slice_to n [] else []), [])"
  "read_body b None [] = (if br_cap b < 0 then Inl (too_large b) else Inr [], [])"
  by (simp_all add: read_body_def receive_def)

lemma read_body_Cons:
  "read_body b (Some n) ((chunk, go) # rest) = (if n \<le> int (length chunk) then (Inr (slice_to n chunk), rest)
     else (Inr (fst (pull_owed n chunk go rest)), snd (pull_owed n chunk go rest)))"
  "read_body b None ((chunk, go) # rest) = (let p = pull_capped (br_cap b) chunk go rest in
     (if br_cap b < int (length (fst p)) then Inl (too_large b) else Inr (fst p), snd p))"
  by (simp_all add: read_body_def receive_def split: prod.splits)

lemma read_body_declared:
  assumes "n = int (length (request_bytes ms))"
  shows "fst (read_body b (Some n) ms) = Inr (request_bytes ms)"
proof (cases ms)
  case (Cons m rest)
  obtain chunk go where m: "m = (chunk, go)" by (cases m)
  have r: "request_bytes ms = chunk @ (if go then request_bytes rest else [])" by (simp add: Cons m)
  have l: "n = int (length (chunk @ (if go then request_bytes rest else [])))" using assms r by simp
  show ?thesis
  proof (cases "n \<le> int (length chunk)")
    case True
    with l have "n = int (length chunk)" "request_bytes ms = chunk" by (auto simp: r split: if_splits)
    then show ?thesis by (simp add: Cons m read_body_Cons slice_to_all)
  next
    case False
    then show ?thesis using pull_owed_all[OF l] unfolding r by (simp add: Cons m read_body_Cons)
  qed
qed (use assms in \<open>simp add: read_body_Nil slice_to_def\<close>)

lemma read_body_undeclared:
  assumes "0 \<le> br_cap b"
  shows "fst (read_body b None ms) = (if int (length (request_bytes ms)) \<le> br_cap b then Inr (request_bytes ms) else Inl (too_large b))"
proof (cases ms)
  case (Cons m rest)
  obtain chunk go where m: "m = (chunk, go)" by (cases m)
  have r: "request_bytes ms = chunk @ (if go then request_bytes rest else [])" by (simp add: Cons m)
  show ?thesis
  proof (cases "int (length (request_bytes ms)) \<le> br_cap b")
    case True
    then show ?thesis using pull_capped_all[of chunk go rest "br_cap b"] unfolding r by (simp add: Cons m read_body_Cons Let_def)
  next
    case False
    then show ?thesis using pull_capped_over[of "br_cap b" chunk go rest] unfolding r by (simp add: Cons m read_body_Cons Let_def)
  qed
qed (use assms in \<open>simp add: read_body_Nil\<close>)

lemma read_body_received:
  assumes "0 \<le> br_cap b" "case declared of None \<Rightarrow> True | Some d \<Rightarrow> d \<le> br_cap b"
  shows "received (br_cap b) [] ms (snd (read_body b declared ms))"
proof (cases ms)
  case Nil
  then show ?thesis using received_none[of _ _ "[]"] by (cases declared) (simp_all add: read_body_Nil)
next
  case (Cons m rest)
  obtain chunk go where m: "m = (chunk, go)" by (cases m)
  have step: "received (br_cap b) [] ms left" if "received (br_cap b) chunk rest left" for left
    using received_Cons[of "br_cap b" "[]" m rest left] that assms(1) by (simp add: Cons m)
  show ?thesis
    by (cases declared) (use assms(2) in \<open>auto simp: Cons m read_body_Cons Let_def received_none
      intro!: step[unfolded Cons m] pull_owed_received pull_capped_received\<close>)
qed

text \<open>C31: A declared body is returned whole when the server delivers the declared number of bytes; an
  undeclared one is returned whole exactly when it fits the cap and is refused with 413 otherwise; and
  before the last message it received the reader never held more than the cap.\<close>

theorem body_read_is_exact_and_bounded:
  assumes "0 \<le> br_cap b"
  shows "fst (read_body b (Some (int (length (request_bytes ms)))) ms) = Inr (request_bytes ms)
    \<and> fst (read_body b None ms) = (if int (length (request_bytes ms)) \<le> br_cap b then Inr (request_bytes ms) else Inl (too_large b))
    \<and> (\<forall>declared \<in> {None} \<union> Some ` {.. br_cap b}. \<exists>taken. ms = taken @ snd (read_body b declared ms)
        \<and> int (length (concat (map fst (butlast taken)))) \<le> br_cap b)"
proof (intro conjI ballI)
  fix declared assume "declared \<in> {None} \<union> Some ` {.. br_cap b}"
  then have "case declared of None \<Rightarrow> True | Some d \<Rightarrow> d \<le> br_cap b" by auto
  from read_body_received[OF assms this, of ms] show "\<exists>taken. ms = taken @ snd (read_body b declared ms)
        \<and> int (length (concat (map fst (butlast taken)))) \<le> br_cap b"
    using assms unfolding received_def by (metis append_Nil butlast.simps(1) concat.simps(1) list.size(3) map_is_Nil_conv of_nat_0)
qed (simp_all add: read_body_declared read_body_undeclared[OF assms])

section \<open>What reaches the application\<close>

lemma py_lower_idem: "py_lower (py_lower s) = py_lower s"
proof -
  have "py_lower_char (py_lower_char c) = py_lower_char c" for c
    by (simp add: py_lower_char_def Let_def cp_def)
  then show ?thesis by (simp add: py_lower_def)
qed

definition lower_keys :: "(string \<times> string) list \<Rightarrow> bool" where
  "lower_keys d \<longleftrightarrow> (\<forall>k \<in> fst ` set d. py_lower k = k)"

lemma lower_headers: "dict_ok d \<and> lower_keys d \<Longrightarrow> dict_ok (fold add_header hs d) \<and> lower_keys (fold add_header hs d)"
proof (induction hs arbitrary: d)
  case (Cons h hs)
  have "lower_keys (add_header h d)"
    using Cons.prems set_dict_set_subset[of "py_lower (fst h)" "snd h" d]
    unfolding lower_keys_def add_header_def by (auto simp: py_lower_idem)
  moreover have "dict_ok (add_header h d)" using Cons.prems by (simp add: add_header_def)
  ultimately show ?case using Cons.IH by simp
qed simp

definition filled :: "(string \<times> string list) list \<Rightarrow> bool" where
  "filled d \<longleftrightarrow> (\<forall>vs \<in> snd ` set d. vs \<noteq> [])"

lemma query_values: "dict_ok d \<and> filled d \<Longrightarrow> dict_ok (fold add_value kvs d) \<and> filled (fold add_value kvs d)"
proof (induction kvs arbitrary: d)
  case (Cons kv kvs)
  have "filled (add_value kv d)"
    using Cons.prems set_dict_set_subset[of "fst kv" _ d] unfolding add_value_def filled_def by force
  moreover have "dict_ok (add_value kv d)" using Cons.prems by (simp add: add_value_def)
  ultimately show ?case using Cons.IH by simp
qed simp

definition wire_ok :: "bridge \<Rightarrow> request \<Rightarrow> bool" where
  "wire_ok b rq \<longleftrightarrow> request_id_ok (rq_id rq) \<and> int (length (rq_body rq)) \<le> br_cap b \<and> rq_path rq \<noteq> []
     \<and> dict_ok (rq_headers rq) \<and> lower_keys (rq_headers rq)
     \<and> dict_ok (rq_query rq) \<and> filled (rq_query rq)"

lemma inbound_id_ok: "request_id_ok (br_token b) \<Longrightarrow> request_id_ok (inbound_id b a)"
  by (simp add: inbound_id_def Let_def)

text \<open>The server delivers the number of bytes the header declares.\<close>

definition honest_length :: "asgi \<Rightarrow> bool" where
  "honest_length a \<longleftrightarrow> (case asgi_header a ''content-length'' of None \<Rightarrow> True
     | Some cl \<Rightarrow> header_int cl \<in> {None, Some (int (length (request_bytes (as_messages a))))})"

lemma body_within_cap:
  assumes "0 \<le> br_cap b" "honest_length a" "framing b a = Inr declared" "fst (read_body b declared (as_messages a)) = Inr body"
  shows "body = request_bytes (as_messages a) \<and> int (length body) \<le> br_cap b"
proof (cases declared)
  case None
  then show ?thesis using assms(4) read_body_undeclared[OF assms(1), of "as_messages a"] by (simp split: if_splits)
next
  case (Some n)
  then have "n = int (length (request_bytes (as_messages a)))" "n \<le> br_cap b"
    using assms(2,3) by (auto simp: framing_def honest_length_def split: option.splits if_splits)
  then show ?thesis using assms(4) read_body_declared[of n "as_messages a" b] Some by simp
qed

lemma build_request_ok:
  assumes "build_request b a rid body = Inr rq" "request_id_ok rid" "int (length body) \<le> br_cap b"
  shows "wire_ok b rq \<and> rq_id rq = rid \<and> rq_body rq = body"
proof -
  have h: "dict_ok (fold add_header (as_headers a) []) \<and> lower_keys (fold add_header (as_headers a) [])"
    by (rule lower_headers) (simp add: lower_keys_def)
  have q: "dict_ok (parse_query u qs) \<and> filled (parse_query u qs)" for u qs
    unfolding parse_query_def by (rule query_values) (simp add: filled_def)
  obtain path query where "urlsplit b (if as_query a = [] then if as_raw_path a \<noteq> [] then as_raw_path a else utf8_bytes (as_path a)
      else (if as_raw_path a \<noteq> [] then as_raw_path a else utf8_bytes (as_path a)) @ ''?'' @ as_query a) = Inr (path, query)"
    using assms(1) unfolding build_request_def Let_def res_bind_Inr by force
  then show ?thesis using assms h q unfolding build_request_def wire_ok_def by (auto simp: Let_def split: if_splits)
qed

text \<open>C32: Whatever the server hands over, the application sees only requests with an eight digit id, a
  body within the cap, a path, lower-case header names without duplicates and query parameters with at
  least one value: two applications that agree on those give the same answer and the same state.\<close>

theorem application_sees_wire_ok_requests:
  assumes "0 \<le> br_cap b" "request_id_ok (br_token b)" "honest_length a"
    and "\<And>rq s. wire_ok b rq \<Longrightarrow> rq_body rq = request_bytes (as_messages a) \<Longrightarrow> rq_id rq = inbound_id b a \<Longrightarrow> app rq s = app' rq s"
  shows "serve b app hook a sv = serve b app' hook a sv"
proof -
  have same: "app rq s = app' rq s"
    if "framing b a = Inr declared" "fst (read_body b declared (as_messages a)) = Inr body"
      "build_request b a (inbound_id b a) body = Inr rq" for declared body rq s
    using body_within_cap[OF assms(1,3) that(1,2)] build_request_ok[OF that(3) inbound_id_ok[OF assms(2)]] assms(4) by blast
  show ?thesis unfolding serve_def Let_def by (simp add: same split: sum.split)
qed

section \<open>Refusals at the wire\<close>

definition refused :: "(exn + 'h reply) \<times> 's server \<Rightarrow> bridge \<Rightarrow> asgi \<Rightarrow> 's server \<Rightarrow> int \<Rightarrow> string \<Rightarrow> bool" where
  "refused answer b a sv status code \<longleftrightarrow> (\<exists>out err. answer = (Inr (Framed out), sv) \<and> he_status err = status \<and> he_code err = code
     \<and> rw_status out = status \<and> rw_body out = json_dumps (br_render b) (error_envelope err)
     \<and> map_of (rw_headers out) ''X-Request-Id'' = Some (inbound_id b a))"

lemma envelope_raw:
  assumes "he_status err \<notin> {204, 304}"
  shows "rw_status (envelope b err rid) = he_status err" "map_of (rw_headers (envelope b err rid)) ''X-Request-Id'' = Some rid"
    "rw_body (envelope b err rid) = json_dumps (br_render b) (error_envelope err)"
  using assms by (simp_all add: envelope_def render_def with_request_id_def Let_def)

lemma refusedI:
  assumes "framing b a = Inl err \<or> (\<exists>d. framing b a = Inr d \<and> fst (read_body b d (as_messages a)) = Inl err)" "he_status err \<notin> {204, 304}"
  shows "refused (serve b app hook a sv) b a sv (he_status err) (he_code err)"
  unfolding refused_def
  by (rule exI[of _ "envelope b err (inbound_id b a)"], rule exI[of _ err])
    (use assms(1) envelope_raw[OF assms(2)] in \<open>auto simp: serve_def Let_def\<close>)

text \<open>C33: Requests without usable framing are answered at the wire, in the error envelope with the request
  id, without the application: 400 for a Content-Length that is no number, 413 for one above the cap
  whatever the body, 411 for a POST, PUT or PATCH without any framing, and 413 for an unannounced body
  above the cap.\<close>

theorem bad_framing_is_answered_at_the_wire:
  assumes "0 \<le> br_cap b"
  shows "(\<forall>cl. asgi_header a ''content-length'' = Some cl \<and> header_int cl = None \<longrightarrow> refused (serve b app hook a sv) b a sv 400 ''invalid_content_length'')
    \<and> (\<forall>cl n. asgi_header a ''content-length'' = Some cl \<and> header_int cl = Some n \<and> br_cap b < n \<longrightarrow> refused (serve b app hook a sv) b a sv 413 ''payload_too_large'')
    \<and> (asgi_header a ''content-length'' = None \<and> as_method a \<in> {''POST'', ''PUT'', ''PATCH''} \<and> asgi_header a ''transfer-encoding'' = None
        \<longrightarrow> refused (serve b app hook a sv) b a sv 411 ''length_required'')
    \<and> (framing b a = Inr None \<and> br_cap b < int (length (request_bytes (as_messages a))) \<longrightarrow> refused (serve b app hook a sv) b a sv 413 ''payload_too_large'')"
proof (intro conjI allI impI; elim conjE)
  show "refused (serve b app hook a sv) b a sv 400 ''invalid_content_length''" if "asgi_header a ''content-length'' = Some cl" "header_int cl = None" for cl
    by (rule refusedI[where err = "\<lparr>he_status = 400, he_code = ''invalid_content_length'', he_message = ''invalid Content-Length'', he_details = None\<rparr>", simplified])
      (simp add: framing_def that)
  show "refused (serve b app hook a sv) b a sv 413 ''payload_too_large''"
    if "asgi_header a ''content-length'' = Some cl" "header_int cl = Some n" "br_cap b < n" for cl n
    by (rule refusedI[where err = "too_large b", unfolded too_large_def, simplified]) (simp add: framing_def that too_large_def)
  show "refused (serve b app hook a sv) b a sv 411 ''length_required''"
    if "asgi_header a ''content-length'' = None" "as_method a \<in> {''POST'', ''PUT'', ''PATCH''}" "asgi_header a ''transfer-encoding'' = None"
    by (rule refusedI[where err = "\<lparr>he_status = 411, he_code = ''length_required'', he_message = ''Content-Length header is required'', he_details = None\<rparr>", simplified])
      (use that in \<open>simp add: framing_def BODY_REQUIRED_def\<close>)
  show "refused (serve b app hook a sv) b a sv 413 ''payload_too_large''" if "framing b a = Inr None" "br_cap b < int (length (request_bytes (as_messages a)))"
    using refusedI[where err = "too_large b" and b = b and a = a and app = app and hook = hook and sv = sv] that read_body_undeclared[OF assms, of "as_messages a"]
    by (simp add: too_large_def)
qed

section \<open>The gzip decision\<close>

definition memo_ok :: "gzip_memo \<Rightarrow> bool" where
  "memo_ok memo \<longleftrightarrow> length memo \<le> 64 \<and> (\<forall>(k, d) \<in> set memo. d = py_contains k ''gzip'')"

lemma gzip_acceptable_exact:
  assumes "memo_ok memo"
  shows "fst (gzip_acceptable accept memo) = py_contains accept ''gzip''" "memo_ok (snd (gzip_acceptable accept memo))"
proof -
  have hit: "d = py_contains accept ''gzip''" if "map_of memo accept = Some d" for d
    using map_of_SomeD[OF that] assms by (auto simp: memo_ok_def)
  show "fst (gzip_acceptable accept memo) = py_contains accept ''gzip''"
    using hit by (simp add: gzip_acceptable_def Let_def split: option.split)
  show "memo_ok (snd (gzip_acceptable accept memo))"
  proof (cases "map_of memo accept")
    case None
    let ?m = "if GZIP_ACCEPT_MAX \<le> length memo then [] else memo"
    have "length ?m < 64" "\<forall>(k, d) \<in> set ?m. d = py_contains k ''gzip''"
      using assms by (auto simp: memo_ok_def GZIP_ACCEPT_MAX_def)
    then show ?thesis
      using set_dict_set_subset[of accept "py_contains accept ''gzip''" ?m]
      by (auto simp: gzip_acceptable_def None Let_def memo_ok_def length_dict_set)
  qed (use assms in \<open>simp add: gzip_acceptable_def\<close>)
qed

lemma gzipped_memo:
  assumes "memo_ok memo"
  shows "memo_ok (snd (gzipped b hs body accept st memo))" "fst (gzipped b hs body accept st memo) = fst (gzipped b hs body accept st [])"
  using gzip_acceptable_exact[OF assms, of accept] gzip_acceptable_exact[of "[]" accept] assms
  by (auto simp: gzipped_def memo_ok_def[of "[]"] split: prod.split)

lemma render_memo:
  assumes "memo_ok memo"
  shows "memo_ok (snd (render b resp rid accept memo))" "fst (render b resp rid accept memo) = fst (render b resp rid accept [])"
  using gzipped_memo[OF assms] assms unfolding render_def Let_def
  by (auto split: prod.split option.split) (metis fst_conv snd_conv option.distinct(1) option.inject prod.inject)+

lemma serve_memo:
  assumes "memo_ok (sv_memo sv)"
  shows "memo_ok (sv_memo (snd (serve b app hook a sv)))"
    "fst (serve b app hook a sv) = fst (serve b app hook a (sv\<lparr>sv_memo := []\<rparr>))"
    "sv_app (snd (serve b app hook a sv)) = sv_app (snd (serve b app hook a (sv\<lparr>sv_memo := []\<rparr>)))"
  using assms render_memo[OF assms, of b] unfolding serve_def Let_def
  by (auto split: sum.split prod.split) (metis fst_conv snd_conv)+

interpretation wire: safe_machine "\<lambda>a sv. snd (serve b app hook a sv)" "\<lambda>sv. memo_ok (sv_memo sv)" for b app hook
  by unfold_locales (rule serve_memo(1))

text \<open>The memo of gzip decisions never changes an answer: after any requests it holds at most 64
  entries, each the test of its own header, and every request gets the answer and leaves the application
  in the state it would with an empty memo.\<close>

theorem gzip_memo_is_transparent:
  "let sv' = fold (\<lambda>a sv. snd (serve b app hook a sv)) earlier (sv\<lparr>sv_memo := []\<rparr>) in
     length (sv_memo sv') \<le> 64 \<and> (\<forall>(k, d) \<in> set (sv_memo sv'). d = py_contains k ''gzip'')
   \<and> fst (serve b app hook a sv') = fst (serve b app hook a (sv'\<lparr>sv_memo := []\<rparr>))
   \<and> sv_app (snd (serve b app hook a sv')) = sv_app (snd (serve b app hook a (sv'\<lparr>sv_memo := []\<rparr>)))"
proof -
  have "memo_ok (sv_memo (fold (\<lambda>a sv. snd (serve b app hook a sv)) earlier (sv\<lparr>sv_memo := []\<rparr>)))"
    by (rule wire.run_inv) (simp add: memo_ok_def)
  then show ?thesis unfolding Let_def using serve_memo(2,3) memo_ok_def by blast
qed

section \<open>What the client decodes\<close>






section \<open>Query strings\<close>

text \<open>What a client writes: each name and value quoted, joined by \<open>=\<close> and \<open>&\<close>.\<close>

definition write_query :: "(string \<Rightarrow> string) \<Rightarrow> (string \<times> string) list \<Rightarrow> string" where
  "write_query quote kvs = py_join ''&'' (map (\<lambda>(k, v). quote k @ ''='' @ quote v) kvs)"

lemma partition_found: "c \<notin> set h \<Longrightarrow> py_partition c (h @ c # t) = (h, True, t)"
  by (induction h) auto

lemma split_join: "\<forall>w \<in> set ws. c \<notin> set w \<Longrightarrow> ws \<noteq> [] \<Longrightarrow> py_split c (py_join [c] ws) = ws"
proof (induction ws)
  case (Cons w ws)
  then show ?case by (cases ws) (simp_all add: py_split_single py_split_append)
qed simp

lemma fold_add_value:
  "map_of (fold add_value kvs d) k = (let vs = (case map_of d k of None \<Rightarrow> [] | Some vs \<Rightarrow> vs) @ map snd (filter (\<lambda>kv. fst kv = k) kvs) in
     if vs = [] \<and> map_of d k = None then None else Some vs)"
  by (induction kvs arbitrary: d) (auto simp: add_value_def Let_def split: option.split)

text \<open>Parsing undoes writing: a query string written from names and values reads back as a
  dictionary that gives every name its values in the order they were written, blank ones included.\<close>

theorem query_reads_back:
  assumes "\<forall>s \<in> fst ` set kvs \<union> snd ` set kvs. unq (plus_to_space (quote s)) = s \<and> CHR ''&'' \<notin> set (quote s) \<and> CHR ''='' \<notin> set (quote s)"
  shows "map_of (parse_query unq (write_query quote kvs)) k
    = (let vs = map snd (filter (\<lambda>kv. fst kv = k) kvs) in if vs = [] then None else Some vs)"
proof -
  let ?w = "\<lambda>(k, v). quote k @ ''='' @ quote v"
  have "query_pairs unq (write_query quote kvs) = kvs"
  proof (cases "kvs = []")
    case True
    then show ?thesis by (simp add: query_pairs_def write_query_def)
  next
    case False
    have "py_split (CHR ''&'') (write_query quote kvs) = map ?w kvs"
      unfolding write_query_def by (rule split_join) (use assms False in force)+
    moreover have "filter (\<lambda>nv. nv \<noteq> []) (map ?w kvs) = map ?w kvs" by (rule filter_True) auto
    moreover have "(let (n, _, v) = py_partition (CHR ''='') (?w kv) in (unq (plus_to_space n), unq (plus_to_space v))) = kv"
      if "kv \<in> set kvs" for kv
      using assms that partition_found[of "CHR ''=''" "quote (fst kv)" "quote (snd kv)"] by (force simp: case_prod_beta)
    ultimately show ?thesis by (simp add: query_pairs_def map_idI)
  qed
  then show ?thesis by (simp add: parse_query_def fold_add_value Let_def)
qed

section \<open>Edges of the bridge\<close>

text \<open>A target the URL parser refuses raises out of the bridge: no envelope, no request id.\<close>

lemma unbalanced_bracket_escapes:
  assumes "framing b a = Inr declared" "fst (read_body b declared (as_messages a)) = Inr body"
    and "as_raw_path a = ''//['' " "as_query a = []"
  shows "serve b app hook a sv = (Inl (PyExc ValueError), sv)"
proof -
  have "urlsplit b ''//['' = Inl ValueError"
    by (simp add: urlsplit_def url_clean_def without_scheme_def split_netloc_def py_startswith_def cp_def)
  then show ?thesis using assms by (simp add: serve_def build_request_def)
qed

text \<open>A path that starts with two slashes loses its first segment.\<close>

lemma double_slash_drops_a_segment:
  "br_netloc_ok b ''v1'' \<Longrightarrow> urlsplit b ''//v1/healthz'' = Inr (''/healthz'', [])"
  by (simp add: urlsplit_def url_clean_def without_scheme_def split_netloc_def py_startswith_def cp_def)

text \<open>A header that forbids gzip is answered with gzip.\<close>

lemma forbidden_gzip_is_sent: "fst (gzip_acceptable ''gzip;q=0'' []) = True"
  by (simp add: gzip_acceptable_def py_startswith_def)

text \<open>A negative length passes both checks and cuts the end of the body.\<close>

lemma negative_length_cuts_the_body:
  assumes "0 \<le> br_cap b" "asgi_header a ''content-length'' = Some ''-1''" "as_messages a = [(''ab'', False)]"
  shows "framing b a = Inr (Some (- 1)) \<and> fst (read_body b (Some (- 1)) (as_messages a)) = Inr ''a''"
proof -
  have "header_int ''-1'' = Some (- 1)" by code_simp
  then show ?thesis using assms by (simp add: framing_def read_body_Cons slice_to_def)
qed

section \<open>Witnesses\<close>

definition demo_bridge :: bridge where
  "demo_bridge = \<lparr>br_cap = 8, br_token = ''00000000'', br_unquote = (\<lambda>s. s), br_netloc_ok = (\<lambda>_. True),
     br_gzip = (\<lambda>s. CHR ''z'' # s), br_render = (\<lambda>_. [])\<rparr>"

definition demo_asgi :: "string \<Rightarrow> asgi" where
  "demo_asgi len = \<lparr>as_method = ''POST'', as_raw_path = ''/x'', as_path = ''/x'', as_query = [],
     as_headers = [(''content-length'', len)], as_client = None, as_messages = [(''ab'', True), (''c'', False)]\<rparr>"

theorem body_read_is_exact_and_bounded_witness:
  "fst (read_body demo_bridge (Some 3) [(''ab'', True), (''c'', False)]) = Inr ''abc''
    \<and> fst (read_body demo_bridge None [(''abcdefgh'', True), (''i'', False)]) = Inl (too_large demo_bridge)"
  using body_read_is_exact_and_bounded[of demo_bridge "[(''ab'', True), (''c'', False)]"]
    body_read_is_exact_and_bounded[of demo_bridge "[(''abcdefgh'', True), (''i'', False)]"]
  by (simp add: demo_bridge_def)

lemma demo_length: "header_int ''3'' = Some 3" "header_int ''x'' = None" "header_int ''9'' = Some 9"
  by code_simp+

theorem application_sees_wire_ok_requests_witness:
  "serve demo_bridge (\<lambda>rq s. (Inr (empty_response 204 [], ()), s + length (rq_body rq))) (\<lambda>_ s. (Inr (), s)) (demo_asgi ''3'') \<lparr>sv_memo = [], sv_app = 0\<rparr>
   = serve demo_bridge (\<lambda>rq s. (Inr (empty_response 204 [], ()), s + 3)) (\<lambda>_ s. (Inr (), s)) (demo_asgi ''3'') \<lparr>sv_memo = [], sv_app = 0\<rparr>"
proof (rule application_sees_wire_ok_requests)
  show "request_id_ok (br_token demo_bridge)" by (simp add: demo_bridge_def request_id_ok_def REQUEST_HEX_def)
qed (simp_all add: demo_bridge_def demo_asgi_def honest_length_def asgi_header_def demo_length)

definition demo_app :: "(nat, unit) application" where
  "demo_app = (\<lambda>rq n. (Inr (empty_response 204 [], ()), n + length (rq_body rq)))"

definition demo_hook :: "unit \<Rightarrow> (exn, nat, unit) act" where
  "demo_hook = (\<lambda>_ n. (Inr (), n))"

definition demo_server :: "nat server" where
  "demo_server = \<lparr>sv_memo = [], sv_app = 0\<rparr>"

theorem bad_framing_is_answered_at_the_wire_witness:
  "refused (serve demo_bridge demo_app demo_hook (demo_asgi ''x'') demo_server) demo_bridge (demo_asgi ''x'') demo_server 400 ''invalid_content_length''
   \<and> refused (serve demo_bridge demo_app demo_hook (demo_asgi ''9'') demo_server) demo_bridge (demo_asgi ''9'') demo_server 413 ''payload_too_large''"
  using bad_framing_is_answered_at_the_wire[of demo_bridge "demo_asgi ''x''" demo_app demo_hook demo_server]
    bad_framing_is_answered_at_the_wire[of demo_bridge "demo_asgi ''9''" demo_app demo_hook demo_server]
  by (simp add: demo_asgi_def asgi_header_def demo_length demo_bridge_def)



theorem query_reads_back_witness:
  "map_of (parse_query (\<lambda>s. s) (write_query (\<lambda>s. s) [(''a'', ''1''), (''b'', []), (''a'', ''2'')])) ''a'' = Some [''1'', ''2'']"
  using query_reads_back[of "[(''a'', ''1''), (''b'', []), (''a'', ''2'')]" "\<lambda>s. s" "\<lambda>s. s" "''a''"]
  by (simp add: plus_to_space_def)

end
