(* ===== verification/Spec2Isabelle.thy ===== *)
theory Spec2Isabelle
  imports Service_Docs Retention Redact Connections Migrations Legacy_State Stream_Sink Http_App
begin

text \<open>
  A verification development of LayaWatch, the self-hosted observability console and host of a
  decision engine under \<open>src/layawatch\<close>.

  \<^bold>\<open>The program and its parts.\<close> A request enters through the ASGI bridge (\<open>app.py\<close>: theory
  \<open>Http_App\<close>, streamed answers in \<open>Stream_Sink\<close>), passes the middleware
  (\<open>http/middleware.py\<close>: \<open>Lifecycle\<close>, \<open>Middleware\<close>) and the router (\<open>http/router.py\<close>: \<open>Router\<close>) and reaches a
  handler of \<open>api/\<close>. A call of the engine (\<open>engine/adapter.py\<close>: \<open>Engine\<close>, \<open>Real_Adapter\<close>,
  \<open>Model_Lifecycle\<close>) is recorded as one trace (\<open>obs/\<close>: \<open>Recorder\<close>, \<open>Vocabulary\<close>, \<open>Scrub\<close>, \<open>Redact\<close>, \<open>Rollup\<close>),
  handed to the batch writer (\<open>store/writer.py\<close>: \<open>Writer\<close>), which fills the tables
  (\<open>store/schema.sql\<close>: \<open>Telemetry_Types\<close>, \<open>Database\<close>, \<open>Trace_Store\<close>) and the rollups, published to the live
  stream (\<open>api/stream.py\<close>: \<open>Stream_Hub\<close>), read by the query layer (\<open>store/queries.py\<close>: \<open>Query_Params\<close>, \<open>Cursor\<close>,
  \<open>Sql_Like\<close>, \<open>Keyset\<close>, \<open>Trace_Queries\<close>, \<open>Metrics\<close>) and pruned by \<open>store/retention.py\<close> (\<open>Retention\<close>).
  Identity is \<open>auth/\<close> and \<open>engine/keys.py\<close>: \<open>Users\<close>, \<open>Csrf\<close>, \<open>Passwords\<close>, \<open>Keys\<close>, \<open>Sessions\<close>, \<open>Login_Limit\<close>,
  \<open>Rate_Limit\<close>. \<open>store/db.py\<close> is \<open>Connections\<close> (the handle cache) and \<open>Migrations\<close>; \<open>engine/legacy_state.py\<close>
  is \<open>Legacy_State\<close>; \<open>config.py\<close> is \<open>Config\<close>; \<open>log.py\<close> is \<open>Logging\<close>; \<open>http/types.py\<close> is \<open>Http_Types\<close>;
  \<open>http/static.py\<close> is \<open>Static_Files\<close>. The endpoints of \<open>api/\<close> are \<open>Api_Users\<close>, \<open>Api_Auth\<close>, \<open>Api_Keys\<close>, \<open>Api_Policy\<close>
  (rate limits and settings), \<open>Api_Traces\<close>, \<open>Api_Metrics\<close>, \<open>Api_Logs\<close>, \<open>Api_Audit\<close>, \<open>Api_Models\<close>, \<open>Playground\<close>,
  \<open>Health\<close>, over the shared ground of \<open>Api_Base\<close>; \<open>Openapi\<close> is the document of \<open>api/openapi.py\<close>, operation by
  operation. \<open>Service\<close> is \<open>__main__.py\<close>: every route in the order of registration, one router, one state,
  the middleware in front.

  \<^bold>\<open>How code is represented.\<close> A handler is a state-passing program with exceptions
  (\<open>('x, 's, 'a) act\<close> of \<open>Prelude\<close>): a raise is a value of a sum, \<open>try .. finally\<close> is \<open>act_finally\<close>, an
  \<open>HttpError\<close> and a Python exception are different constructors. The database is a record of tables, in
  two copies: what is committed and what the open transaction of the connection sees
  (\<open>cn_committed\<close>, \<open>cn_work\<close>); closing a handle rolls back. A dict is an association list in order of
  insertion, a deque a bounded list, a dataclass or a row a record, a Python int an \<open>int\<close>.
  Threads are sequences of atomic steps: one per critical section (\<open>Stream_Hub\<close>, \<open>Stream_Sink\<close>,
  \<open>Writer\<close>, the interleavings of \<open>Users\<close> and \<open>Model_Lifecycle\<close>), and the properties quantify over all
  sequences. Strings are over Latin-1 characters and floats are exact rationals: rounding, NaN and
  infinities are outside the model except where a reader of text yields them as a value of its own.

  \<^bold>\<open>What is an argument.\<close> Code that is not under \<open>src/\<close>, and what the process reads of its host: SHA-256,
  HMAC and scrypt, \<open>json.loads\<close>, the text of floats, \<open>urllib\<close> unquoting, gzip, the clock and drawn random
  values, the disk, \<open>/proc\<close>, the \<open>laya\<close> library of the real adapter, and what a migration script does.
  Hypotheses on them are named where they are used (\<open>residency_laws\<close>, \<open>gzip\<close> and its inverse, an
  injective digest) and the witnesses discharge them on a concrete function.

  \<^bold>\<open>Interfaces.\<close> \<open>safe_machine\<close> (an invariant along any run; interpreted on the authentication API, the
  rate-limit registry, the writer, the stream hub and the bridge), \<open>bounded_ring\<close> (the log ring and the
  trace ring), \<open>keyset\<close> (pages of traces, logs and audit rows), \<open>chunked_erase\<close> (the five prunes),
  \<open>engine_adapter\<close> and \<open>checkpoint_host\<close> (what the handlers rely on, proved of the fake and the real
  adapter), \<open>request_contract\<close> (what the components owe for an invariant to survive a request).

  \<^bold>\<open>What the lemmas show.\<close>
  \<^item> The assembled program (\<open>Service_Db\<close>, \<open>Service_Access\<close>, \<open>Service_Docs\<close>): an enabled owner survives any
    run of requests; without a credential nothing reaches an account, session, key or setting; every
    route but the console's catch-all is documented with its method, every documented operation is served,
    what the document marks with a credential refuses to work without one (the two engine paths check
    their keys in the middleware, while key auth is armed), and the built document is complete and closed.
  \<^item> Identity: the gate admits only a live session with CSRF echo or a verifiable key with the permission;
    login rotates the session; keys verify exactly while live or in the grace after a rotation; the
    token bucket admits at most burst plus refill over any run of the whole registry; the login backoff
    refines its window.
  \<^item> Telemetry: one trace for every engine call while recording is on, in both closing modes, with time
    accounted for; strings and containers under secret keys stay out of captures; the writer stores what
    it commits, counts every loss, and its rollups are exact; a flush drains the queue; pages visit
    every match once; charts count the traffic; retention prunes exactly and keeps the charts.
  \<^item> Transport: the body is exact and bounded, bad framing is answered in the envelope, compression is
    applied exactly when it should be and decodes, streams deliver in order, the hub hands over each trace once, static files stay under the
    root and the allowlist, and the engine is left free whatever the library raises.
  \<^item> Storage: an interrupted migration resumes; imported secrets still verify.

  \<^bold>\<open>Bounds and fuel.\<close> The export loop has fuel 50 for pages of 200 and a cap of 10000: a page with a
  successor is full, so \<open>export_always_returns\<close> needs no more. The chunked prunes end because every chunk
  shrinks the victims; the startup worker has one turn more than its queue; the bucket loop of the
  charts is bounded by the valve on the number of buckets; the sink of a stream holds 64 chunks. The
  matcher of the three redaction patterns and the hop over a path are structural.

  \<^bold>\<open>Not modelled.\<close> Argument parsing, the \<open>.env\<close> file, the start and stop of threads, signals and the choice of
  the adapter in \<open>__main__.py\<close>; \<open>http/server.py\<close> (the uvicorn runner); the SQLite pragmas, indexes and
  the thread check of a handle; log lines; the development scripts under \<open>src/scripts\<close> and the web
  front end. They carry none of the program's rules or belong to another language. In \<open>Service\<close> a
  request is one atomic step, so requests of the thread pool do not interleave there; a spans object never
  raises at the real adapter, and what that adapter reports to it stays in the adapter's own state.
\<close>

end
